(* ===== verification/CPrelude.thy ===== *)
theory CPrelude
  imports Main "HOL-Library.Word" "HOL-Library.Monad_Syntax"
begin

unbundle bit_operations_syntax

text \<open>
  What the C sources share: the integer types, C strings held in arrays of characters,
  the decimal conversions of \<open>printf\<close> and \<open>atoi\<close>, and the generic lemmas the component
  theories use. A C string is a \<open>string\<close>; the array that holds it is the list of all its
  characters, of which \<open>cstr\<close> reads the part before the first NUL. An undefined behaviour
  of C (a write past the end of an array, a read before its start) is the result \<open>None\<close>.
\<close>

type_synonym u8 = "8 word"
type_synonym u16 = "16 word"
type_synonym u32 = "32 word"

named_theorems gate_simps \<open>what each FTP command does before the login\<close>
named_theorems cmd_defs \<open>definitions of the FTP command handlers\<close>
named_theorems io_simps \<open>effect of the external calls on the session record\<close>

section \<open>C strings\<close>

abbreviation NUL :: char where "NUL \<equiv> CHR 0x00"
abbreviation CR :: char where "CR \<equiv> CHR 0x0D"
abbreviation LF :: char where "LF \<equiv> CHR 0x0A"

definition cstr :: "char list \<Rightarrow> string" where
  "cstr a = takeWhile (\<lambda>c. c \<noteq> NUL) a"

definition strlen :: "char list \<Rightarrow> nat" where
  "strlen a = length (cstr a)"

definition strncpy_pad :: "nat \<Rightarrow> char list \<Rightarrow> char list" where
  \<comment> \<open>the first \<open>n\<close> characters of a destination after \<open>strncpy(dst, src, n)\<close>\<close>
  "strncpy_pad n src = take n (cstr src @ replicate n NUL)"

definition crlf :: string where "crlf = [CR, LF]"

lemma length_strncpy_pad [simp]: "length (strncpy_pad n src) = n"
  by (simp add: strncpy_pad_def)

lemma cstr_no_nul [simp]: "NUL \<notin> set (cstr a)"
  by (auto simp: cstr_def dest: set_takeWhileD)

lemma takeWhile_id_iff: "(\<forall>x\<in>set xs. P x) \<Longrightarrow> takeWhile P xs = xs"
  by (induction xs) auto

lemma cstr_id: "NUL \<notin> set s \<Longrightarrow> cstr s = s"
  unfolding cstr_def by (rule takeWhile_id_iff) auto

lemma cstr_idem [simp]: "cstr (cstr a) = cstr a"
  by (simp add: cstr_id)

lemma length_cstr_le: "length (cstr a) \<le> length a"
  by (simp add: cstr_def length_takeWhile_le)

lemma cstr_append_nul: "NUL \<notin> set s \<Longrightarrow> cstr (s @ NUL # t) = s"
  unfolding cstr_def by (induction s) auto

lemma cstr_replicate_nul [simp]: "cstr (replicate n NUL) = []"
  by (cases n) (simp_all add: cstr_def)

lemma cstr_append_replicate: "NUL \<notin> set s \<Longrightarrow> cstr (s @ replicate n NUL) = s"
  using cstr_replicate_nul [of n] by (induction s) (auto simp: cstr_def)

lemma cstr_strncpy_pad:
  assumes "length (cstr src) < n"
  shows "cstr (strncpy_pad n src) = cstr src"
proof -
  have "strncpy_pad n src = cstr src @ replicate (n - length (cstr src)) NUL"
    using assms by (simp add: strncpy_pad_def)
  then show ?thesis by (simp add: cstr_append_replicate)
qed

section \<open>Character classes\<close>

definition isalpha :: "char \<Rightarrow> bool" where
  "isalpha c \<longleftrightarrow> (of_char c \<in> {65..90::nat}) \<or> (of_char c \<in> {97..122::nat})"

definition isdigit :: "char \<Rightarrow> bool" where
  "isdigit c \<longleftrightarrow> of_char c \<in> {48..57::nat}"

definition isspace :: "char \<Rightarrow> bool" where
  "isspace c \<longleftrightarrow> of_char c = (32::nat) \<or> of_char c \<in> {9..13::nat}"

definition digit_val :: "char \<Rightarrow> nat" where
  "digit_val c = of_char c - 48"

definition digit_char :: "nat \<Rightarrow> char" where
  "digit_char d = char_of (48 + d mod 10)"

lemma digit_val_char [simp]: "digit_val (digit_char d) = d mod 10"
  by (simp add: digit_val_def digit_char_def of_char_of)

lemma isdigit_digit_char [simp]: "isdigit (digit_char d)"
proof -
  have "d mod 10 < 10" by simp
  then have "(48 + d mod 10) mod 256 = 48 + d mod 10" by simp
  then show ?thesis
    unfolding isdigit_def digit_char_def by (simp add: of_char_of)
qed

section \<open>Decimal conversions\<close>

fun dec :: "nat \<Rightarrow> string" where
  \<comment> \<open>\<open>%u\<close>, \<open>%lu\<close> and a non-negative \<open>%d\<close>\<close>
  "dec n = (if n < 10 then [digit_char n] else dec (n div 10) @ [digit_char n])"

declare dec.simps [simp del]

definition sdec :: "int \<Rightarrow> string" where
  "sdec i = (if i < 0 then ''-'' @ dec (nat (- i)) else dec (nat i))"

definition dec_pad :: "nat \<Rightarrow> nat \<Rightarrow> string" where
  \<comment> \<open>\<open>%0wd\<close> of a non-negative value\<close>
  "dec_pad w n = (let s = dec n in replicate (w - length s) (CHR ''0'') @ s)"

definition dec_val :: "string \<Rightarrow> nat" where
  "dec_val s = foldl (\<lambda>a c. 10 * a + digit_val c) 0 s"

definition INT_MAX :: int where "INT_MAX = 2147483647"

definition atoi :: "string \<Rightarrow> int" where
  \<comment> \<open>\<open>(int) strtol(s, NULL, 10)\<close>: leading white space, a sign, digits; saturates\<close>
  "atoi s = (let t = dropWhile isspace s;
                 neg = (t \<noteq> [] \<and> hd t = CHR ''-'');
                 t' = (if t \<noteq> [] \<and> (hd t = CHR ''-'' \<or> hd t = CHR ''+'') then tl t else t);
                 v = int (dec_val (takeWhile isdigit t'))
             in if neg then max (- INT_MAX - 1) (- v) else min INT_MAX v)"

lemma dec_val_snoc: "dec_val (s @ [c]) = 10 * dec_val s + digit_val c"
  by (simp add: dec_val_def)

lemma dec_val_dec [simp]: "dec_val (dec n) = n"
proof (induction n rule: dec.induct)
  case (1 n)
  show ?case
  proof (cases "n < 10")
    case True
    then show ?thesis by (subst dec.simps) (simp add: dec_val_def)
  next
    case False
    with "1.IH" have "dec_val (dec (n div 10)) = n div 10" by simp
    with False show ?thesis by (subst dec.simps) (simp add: dec_val_snoc)
  qed
qed

lemma dec_digits: "\<forall>c \<in> set (dec n). isdigit c"
proof (induction n rule: dec.induct)
  case (1 n)
  then show ?case by (cases "n < 10") (auto simp: dec.simps [of n])
qed

lemma dec_nonempty [simp]: "dec n \<noteq> []"
  by (subst dec.simps) simp

lemma dec_val_zeros: "dec_val (replicate k (CHR ''0'') @ s) = dec_val s"
proof -
  have "foldl (\<lambda>a c. 10 * a + digit_val c) 0 (replicate k (CHR ''0'')) = 0"
    by (induction k) (simp_all add: digit_val_def)
  then show ?thesis by (simp add: dec_val_def)
qed

lemma dec_val_pad [simp]: "dec_val (dec_pad w n) = n"
  by (simp add: dec_pad_def Let_def dec_val_zeros)

lemma dec_pad_digits: "\<forall>c \<in> set (dec_pad w n). isdigit c"
  using dec_digits [of n] by (auto simp: dec_pad_def Let_def isdigit_def)

lemma length_dec_le: "n < 10 ^ Suc k \<Longrightarrow> length (dec n) \<le> Suc k"
proof (induction k arbitrary: n)
  case 0
  then show ?case by (subst dec.simps) simp
next
  case (Suc k)
  show ?case
  proof (cases "n < 10")
    case True
    then show ?thesis by (subst dec.simps) simp
  next
    case False
    have "n div 10 < 10 ^ Suc k"
      using Suc.prems by (simp add: less_mult_imp_div_less mult.commute)
    then have "length (dec (n div 10)) \<le> Suc k" by (rule Suc.IH)
    with False show ?thesis by (subst dec.simps) simp
  qed
qed

lemma length_dec_pad: "n < 10 ^ w \<Longrightarrow> 0 < w \<Longrightarrow> length (dec_pad w n) = w"
  using length_dec_le [of n "w - 1"] by (cases w) (simp_all add: dec_pad_def Let_def)

lemma isdigit_facts: "isdigit c \<Longrightarrow> \<not> isspace c \<and> c \<noteq> CHR ''-'' \<and> c \<noteq> CHR ''+''"
  by (auto simp: isdigit_def isspace_def)

lemma dropWhile_stop: "xs \<noteq> [] \<Longrightarrow> \<not> P (hd xs) \<Longrightarrow> dropWhile P xs = xs"
  by (cases xs) auto

lemma atoi_digits:
  assumes "s \<noteq> []" and "\<forall>c \<in> set s. isdigit c"
  shows "atoi s = min INT_MAX (int (dec_val s))"
proof -
  from assms have h: "isdigit (hd s)" by simp
  then have "dropWhile isspace s = s"
    using assms(1) by (intro dropWhile_stop) (auto dest: isdigit_facts)
  then show ?thesis
    using assms isdigit_facts [OF h] by (simp add: atoi_def Let_def takeWhile_id_iff)
qed

section \<open>Generic lemmas\<close>

lemma unat_and_le: "unat (w AND m) \<le> unat m"
  by (metis word_and_le1 word_le_nat_alt)

lemma option_bind_SomeE:
  assumes "Option.bind x f = Some r"
  obtains y where "x = Some y" and "f y = Some r"
  using assms by (cases x) auto

lemma rev_takeWhile_append_last:
  assumes "c \<in> set p"
  shows "\<exists>q r. p = q @ c # r \<and> c \<notin> set r"
  using assms by (meson split_list_last)

end
