(* ===== verification/FtpEnv.thy ===== *)
theory FtpEnv
  imports CPrelude
begin

text \<open>
  The state of one FTP connection (\<open>ftp_data_t\<close> of \<open>ftp_server.h\<close>) and the calls the server
  makes to code the model does not contain: the netconn API of lwIP and the file API of FatFs.
  Such a call appends an event, with its arguments, to the trace \<open>tr\<close> (newest first), and its
  result is what the environment \<open>env\<close> answers to that trace: an arbitrary function of
  everything that happened before. A theorem quantifies over all environments, so over all
  behaviours of network and file system. The file ends with \<open>ftp_file.c\<close> (the logging
  wrappers around FatFs) and \<open>ftp_send\<close>.
\<close>

section \<open>Types of \<open>ftp_server.h\<close>, \<open>err.h\<close> and \<open>ff.h\<close>\<close>

datatype dcm_type = DCM_NOT_SET | DCM_PASSIVE | DCM_ACTIVE

datatype ftp_user_t = FTP_USER_NONE | FTP_USER_USER_NO_PASS | FTP_USER_USER_LOGGED_IN

definition ERR_OK :: int where "ERR_OK = 0"
definition ERR_TIMEOUT :: int where "ERR_TIMEOUT = - 3"
definition ERR_CLSD :: int where "ERR_CLSD = - 15"

definition FR_OK :: nat where "FR_OK = 0"
definition AM_DIR :: u8 where "AM_DIR = 0x10"
definition FA_READ :: u8 where "FA_READ = 0x01"
definition FA_WRITE :: u8 where "FA_WRITE = 0x02"
definition FA_CREATE_ALWAYS :: u8 where "FA_CREATE_ALWAYS = 0x08"

definition MAX_LFN :: nat where "MAX_LFN = 255"
definition FTP_PARAM_SIZE :: nat where "FTP_PARAM_SIZE = MAX_LFN + 8"
definition FTP_CWD_SIZE :: nat where "FTP_CWD_SIZE = MAX_LFN + 8"
definition FTP_CMD_SIZE :: nat where "FTP_CMD_SIZE = 5"
definition FTP_BUF_SIZE :: nat where "FTP_BUF_SIZE = 512"
definition FTP_TIME_OUT_S :: nat where "FTP_TIME_OUT_S = 60"
definition PORT_INCREMENT_OFFSET :: u8 where "PORT_INCREMENT_OFFSET = 25"
definition FTP_DATA_PORT :: u16 where "FTP_DATA_PORT = 55600"
definition FTP_VERSION :: string where "FTP_VERSION = ''2020-08-20''"
definition FTP_USER_NAME_DEFAULT :: string where "FTP_USER_NAME_DEFAULT = ''user''"
definition FTP_USER_PASS_DEFAULT :: string where "FTP_USER_PASS_DEFAULT = ''user''"

record filinfo =
  fsize :: u32
  fdate :: u16
  ftime :: u16
  fattrib :: u8
  fname :: string

record netbuf =
  \<comment> \<open>first segment of a received buffer: its length, and the memory around it\<close>
  nb_len :: u16
  nb_mem :: "int \<Rightarrow> char"

record pbuf_seg =
  \<comment> \<open>a received \<open>pbuf\<close>: the payload of its first segment, and \<open>tot_len\<close> of the chain\<close>
  pb_payload :: string
  pb_tot_len :: u16

record fatfs =
  csize :: u16
  n_fatent :: u32

section \<open>Events and the environment\<close>

datatype event =
    CtrlRecv
  | CtrlRecvTimeout nat
  | CtrlWrite string
  | ConnNew nat
  | ConnNewFailed
  | ConnAccept nat nat
  | ConnAcceptFailed nat
  | ConnBind nat u16
  | ConnTimeout nat nat
  | ConnListen nat
  | ConnConnect nat u32 u16
  | ConnClose nat
  | ConnDelete nat
  | DataWrite nat string
  | DataRecv nat
  | PbufFree
  | NetbufDelete
  | FStat string
  | FOpendir string
  | FReaddir
  | FUnlink string
  | FOpen string u8
  | FSize
  | FClose
  | FWrite string
  | FRead nat
  | FMkdir string
  | FRename string string
  | FGetfree string
  | Diag string

type_synonym trace = "event list"

record env =
  e_recv :: "trace \<Rightarrow> int \<times> netbuf"
  e_new :: "trace \<Rightarrow> bool"
  e_bind :: "trace \<Rightarrow> int"
  e_listen :: "trace \<Rightarrow> int"
  e_accept :: "trace \<Rightarrow> int"
  e_connect :: "trace \<Rightarrow> int"
  e_data_write :: "trace \<Rightarrow> int"
  e_data_recv :: "trace \<Rightarrow> int \<times> pbuf_seg"
  e_addr :: "trace \<Rightarrow> u32"
  e_stat :: "trace \<Rightarrow> nat \<times> filinfo"
  e_opendir :: "trace \<Rightarrow> nat"
  e_readdir :: "trace \<Rightarrow> nat \<times> filinfo"
  e_unlink :: "trace \<Rightarrow> nat"
  e_open :: "trace \<Rightarrow> nat"
  e_size :: "trace \<Rightarrow> u32"
  e_close :: "trace \<Rightarrow> nat"
  e_write :: "trace \<Rightarrow> nat \<times> u32"  \<comment> \<open>with \<open>*written\<close>, which a full disk makes less than was asked for\<close>
  e_read :: "trace \<Rightarrow> nat \<times> string"
  e_mkdir :: "trace \<Rightarrow> nat"
  e_rename :: "trace \<Rightarrow> nat"
  e_getfree :: "trace \<Rightarrow> nat \<times> u32 \<times> fatfs"

record ftp_data =
  listdataconn :: "nat option"
  dataconn :: "nat option"
  ctrlconn :: nat
  inbuf :: netbuf
  ipclient :: u32
  ipserver :: u32
  data_port :: u16
  data_port_incremented :: u8
  finfo :: filinfo
  lfn :: string
  command :: string
  parameters :: "char list"
  path_rename :: string
  path :: string
  ftp_con_num :: u8
  user :: ftp_user_t
  data_conn_mode :: dcm_type

record sess = ftp_data +
  tr :: trace

text \<open>
  A \<open>netconn\<close> pointer is named by the length of the trace at which it came into being, so two
  connections never share a name; NULL is \<open>None\<close>. \<open>path\<close> and \<open>path_rename\<close> hold C strings,
  \<open>parameters\<close> the whole array (\<open>MDTM\<close> writes terminators into the middle of it). The file
  object \<open>file\<close> is state of FatFs, seen through the events only.
\<close>

section \<open>Sending a reply\<close>

definition ftp_send :: "string \<Rightarrow> 'a sess_scheme \<Rightarrow> 'a sess_scheme" where
  \<comment> \<open>\<open>vsnprintf_\<close> into 512 bytes; the result of \<open>netconn_write\<close> is not used\<close>
  "ftp_send msg s = s\<lparr>tr := CtrlWrite (take (FTP_BUF_SIZE - 1) msg) # tr s\<rparr>"

definition log_event :: "event \<Rightarrow> 'a sess_scheme \<Rightarrow> 'a sess_scheme" where
  "log_event ev s = s\<lparr>tr := ev # tr s\<rparr>"

definition param :: "'a sess_scheme \<Rightarrow> string" where
  "param s = cstr (parameters s)"

definition logged_in :: "'a sess_scheme \<Rightarrow> bool" where
  "logged_in s \<longleftrightarrow> user s = FTP_USER_USER_LOGGED_IN"

section \<open>\<open>ftp_file.c\<close>\<close>

definition diag_err :: "nat \<Rightarrow> string \<Rightarrow> trace \<Rightarrow> trace" where
  \<comment> \<open>\<open>if (res != FR_OK) DIAG(FTP "error %d ...", res, ...)\<close>\<close>
  "diag_err r msg t = (if r \<noteq> FR_OK then Diag (''error '' @ dec r @ msg) # t else t)"

definition ftps_f_stat :: "env \<Rightarrow> string \<Rightarrow> sess \<Rightarrow> nat \<times> sess" where
  "ftps_f_stat e p s =
     (let t = FStat p # tr s; r = fst (e_stat e t)
      in (r, s\<lparr>finfo := (if r = FR_OK then snd (e_stat e t) else finfo s),
               tr := diag_err r ('' retrieve info for file '' @ p) t\<rparr>))"

definition ftps_f_opendir :: "env \<Rightarrow> string \<Rightarrow> sess \<Rightarrow> nat \<times> sess" where
  "ftps_f_opendir e p s =
     (let t = FOpendir p # tr s; r = e_opendir e t
      in (r, s\<lparr>tr := diag_err r ('' opening directory '' @ p) t\<rparr>))"

definition ftps_f_readdir :: "env \<Rightarrow> sess \<Rightarrow> nat \<times> sess" where
  "ftps_f_readdir e s =
     (let t = FReaddir # tr s; r = fst (e_readdir e t)
      in (r, s\<lparr>finfo := (if r = FR_OK then snd (e_readdir e t) else finfo s),
               tr := diag_err r '' reading directory'' t\<rparr>))"

definition ftps_f_unlink :: "env \<Rightarrow> string \<Rightarrow> sess \<Rightarrow> nat \<times> sess" where
  "ftps_f_unlink e p s =
     (let t = FUnlink p # tr s; r = e_unlink e t
      in (r, s\<lparr>tr := diag_err r ('' unlinking '' @ p) t\<rparr>))"

definition ftps_f_open :: "env \<Rightarrow> string \<Rightarrow> u8 \<Rightarrow> sess \<Rightarrow> nat \<times> sess" where
  "ftps_f_open e p mode s =
     (let t = FOpen p mode # tr s; r = e_open e t
      in (r, s\<lparr>tr := diag_err r ('' opening file '' @ p @ '' with mode '' @ dec (unat mode)) t\<rparr>))"

definition ftps_f_size :: "env \<Rightarrow> sess \<Rightarrow> u32 \<times> sess" where
  "ftps_f_size e s = (let t = FSize # tr s in (e_size e t, s\<lparr>tr := t\<rparr>))"

definition ftps_f_close :: "env \<Rightarrow> sess \<Rightarrow> nat \<times> sess" where
  "ftps_f_close e s =
     (let t = FClose # tr s; r = e_close e t
      in (r, s\<lparr>tr := diag_err r '' closing file'' t\<rparr>))"

definition ftps_f_write :: "env \<Rightarrow> string \<Rightarrow> sess \<Rightarrow> (nat \<times> u32) \<times> sess" where
  \<comment> \<open>the result and \<open>*written\<close>\<close>
  "ftps_f_write e bs s =
     (let t = FWrite bs # tr s; r = fst (e_write e t)
      in (e_write e t, s\<lparr>tr := diag_err r '' writing file'' t\<rparr>))"

definition ftps_f_read :: "env \<Rightarrow> nat \<Rightarrow> sess \<Rightarrow> (nat \<times> string) \<times> sess" where
  \<comment> \<open>\<open>f_read\<close> stores at most the requested number of bytes\<close>
  "ftps_f_read e n s =
     (let t = FRead n # tr s; r = fst (e_read e t)
      in ((r, take n (snd (e_read e t))), s\<lparr>tr := diag_err r '' writing file'' t\<rparr>))"

definition ftps_f_mkdir :: "env \<Rightarrow> string \<Rightarrow> sess \<Rightarrow> nat \<times> sess" where
  "ftps_f_mkdir e p s =
     (let t = FMkdir p # tr s; r = e_mkdir e t
      in (r, s\<lparr>tr := diag_err r ('' creating dir '' @ p) t\<rparr>))"

definition ftps_f_rename :: "env \<Rightarrow> string \<Rightarrow> string \<Rightarrow> sess \<Rightarrow> nat \<times> sess" where
  "ftps_f_rename e from to s =
     (let t = FRename from to # tr s; r = e_rename e t
      in (r, s\<lparr>tr := diag_err r ('' renaming '' @ from @ '' to '' @ to) t\<rparr>))"

definition ftps_f_utime :: "env \<Rightarrow> string \<Rightarrow> filinfo \<Rightarrow> sess \<Rightarrow> nat \<times> sess" where
  "ftps_f_utime e p fi s = (FR_OK, s\<lparr>tr := Diag ''ftps_f_utime not implemented'' # tr s\<rparr>)"

definition ftps_f_getfree :: "env \<Rightarrow> string \<Rightarrow> sess \<Rightarrow> (nat \<times> u32 \<times> fatfs) \<times> sess" where
  "ftps_f_getfree e p s =
     (let t = FGetfree p # tr s; r = fst (e_getfree e t)
      in (e_getfree e t, s\<lparr>tr := diag_err r '' f_getfree'' t\<rparr>))"

lemmas file_defs =
  ftps_f_stat_def ftps_f_opendir_def ftps_f_readdir_def ftps_f_unlink_def ftps_f_open_def
  ftps_f_size_def ftps_f_close_def ftps_f_write_def ftps_f_read_def ftps_f_mkdir_def
  ftps_f_rename_def ftps_f_utime_def ftps_f_getfree_def

section \<open>What a trace shows\<close>

fun is_fs_event :: "event \<Rightarrow> bool" where
  "is_fs_event (FStat _) = True"
| "is_fs_event (FOpendir _) = True"
| "is_fs_event FReaddir = True"
| "is_fs_event (FUnlink _) = True"
| "is_fs_event (FOpen _ _) = True"
| "is_fs_event FSize = True"
| "is_fs_event FClose = True"
| "is_fs_event (FWrite _) = True"
| "is_fs_event (FRead _) = True"
| "is_fs_event (FMkdir _) = True"
| "is_fs_event (FRename _ _) = True"
| "is_fs_event (FGetfree _) = True"
| "is_fs_event _ = False"

text \<open>The connections opened and not yet deleted, and how often each was deleted.\<close>

fun live :: "trace \<Rightarrow> nat set" where
  "live [] = {}"
| "live (ConnNew n # t) = insert n (live t)"
| "live (ConnAccept l n # t) = insert n (live t)"
| "live (ConnDelete n # t) = live t - {n}"
| "live (_ # t) = live t"

definition deletions :: "nat \<Rightarrow> trace \<Rightarrow> nat" where
  "deletions n t = length (filter (\<lambda>ev. ev = ConnDelete n) t)"

fun is_creation :: "nat \<Rightarrow> event \<Rightarrow> bool" where
  "is_creation n (ConnNew m) = (m = n)"
| "is_creation n (ConnAccept l m) = (m = n)"
| "is_creation n _ = False"

definition creations :: "nat \<Rightarrow> trace \<Rightarrow> nat" where
  "creations n t = length (filter (is_creation n) t)"

text \<open>The bytes handed to \<open>f_write\<close>, and those that it wrote; the replies; all of them oldest first.\<close>

fun file_bytes :: "trace \<Rightarrow> string" where
  "file_bytes [] = []"
| "file_bytes (FWrite bs # t) = file_bytes t @ bs"
| "file_bytes (_ # t) = file_bytes t"

fun stored_bytes :: "env \<Rightarrow> trace \<Rightarrow> string" where
  "stored_bytes e [] = []"
| "stored_bytes e (FWrite bs # t) = stored_bytes e t @ take (unat (snd (e_write e (FWrite bs # t)))) bs"
| "stored_bytes e (_ # t) = stored_bytes e t"

fun sent_bytes :: "trace \<Rightarrow> string" where
  "sent_bytes [] = []"
| "sent_bytes (DataWrite n bs # t) = sent_bytes t @ bs"
| "sent_bytes (_ # t) = sent_bytes t"

fun replies :: "trace \<Rightarrow> string list" where
  "replies [] = []"
| "replies (CtrlWrite m # t) = replies t @ [m]"
| "replies (_ # t) = replies t"

lemma diag_err_simps [simp]:
  "live (diag_err r m t) = live t"
  "file_bytes (diag_err r m t) = file_bytes t"
  "sent_bytes (diag_err r m t) = sent_bytes t"
  "replies (diag_err r m t) = replies t"
  "(\<forall>ev \<in> set (diag_err r m t). P ev) = ((r \<noteq> FR_OK \<longrightarrow> P (Diag (''error '' @ dec r @ m))) \<and> (\<forall>ev \<in> set t. P ev))"
  "length t \<le> length (diag_err r m t)"
  by (auto simp: diag_err_def)

lemma diag_err_ok [simp]: "diag_err FR_OK m t = t"
  by (simp add: diag_err_def)

lemma diag_err_append: "\<exists>es. diag_err r m t = es @ t"
  by (simp add: diag_err_def)

end
