(* ===== verification/FtpPath.thy ===== *)
theory FtpPath
  imports FtpEnv
begin

text \<open>
  \<open>path_up_a_level\<close> and \<open>path_build\<close> of \<open>ftp_server.c\<close> on the C string held in a path array of
  \<open>FTP_CWD_SIZE\<close> bytes. \<open>path_build\<close> returns \<open>None\<close> where the code writes past the array or
  reads before it, otherwise the new path and the code's return value. The abstract view of a
  path is its list of components; both functions are shown to refine the operations on it.
\<close>

section \<open>The code\<close>

abbreviation slash :: char where "slash \<equiv> CHR ''/''"

fun strip_to_slash :: "string \<Rightarrow> string" where
  \<comment> \<open>the \<open>while (path[pos] != '/')\<close> loop, which clears characters from the end\<close>
  "strip_to_slash p =
     (if p = [] \<or> last p = slash then p else strip_to_slash (butlast p))"

declare strip_to_slash.simps [simp del]

definition path_up_a_level :: "string \<Rightarrow> string" where
  "path_up_a_level p =
     (if slash \<in> set p
      then let q = strip_to_slash p in (if length q > 1 then butlast q else q)
      else p)"

definition strncat_into :: "nat \<Rightarrow> string \<Rightarrow> string \<Rightarrow> nat \<Rightarrow> string option" where
  \<comment> \<open>\<open>strncat(dst, src, n)\<close> into an array of \<open>sz\<close> bytes holding \<open>dst\<close>: at most \<open>n\<close> characters
      of \<open>src\<close> and a terminator are written behind \<open>dst\<close>\<close>
  "strncat_into sz dst src n =
     (let r = dst @ take n src in if length r + 1 \<le> sz then Some r else None)"

definition path_strip_end :: "string \<Rightarrow> string" where
  \<comment> \<open>\<open>if (current_path[strl] == '/' && strl > 1) current_path[strl] = 0\<close>\<close>
  "path_strip_end p =
     (let strl = length p - 1 in if p ! strl = slash \<and> strl > 1 then butlast p else p)"

definition path_build_raw :: "string \<Rightarrow> string \<Rightarrow> string option" where
  "path_build_raw current_path ftp_param =
     (if ftp_param = ''/'' \<or> ftp_param = [] then Some ''/''
      else if ftp_param = ''..'' then Some (path_up_a_level current_path)
      else if hd ftp_param \<noteq> slash then
        (if current_path = [] then None
         else do {
           p \<leftarrow> (if last current_path \<noteq> slash
                then strncat_into FTP_CWD_SIZE current_path ''/'' FTP_CWD_SIZE
                else Some current_path);
           strncat_into FTP_CWD_SIZE p ftp_param FTP_CWD_SIZE
         })
      else Some (take FTP_CWD_SIZE ftp_param))"

definition path_build :: "string \<Rightarrow> string \<Rightarrow> (string \<times> bool) option" where
  "path_build current_path ftp_param =
     do {
       p \<leftarrow> path_build_raw current_path ftp_param;
       if p = [] then None
       else let q = path_strip_end p in Some (q, length q < FTP_CWD_SIZE)
     }"

section \<open>Well-formed paths\<close>

definition path_ok :: "string \<Rightarrow> bool" where
  "path_ok p \<longleftrightarrow> p \<noteq> [] \<and> hd p = slash \<and> length p < FTP_CWD_SIZE \<and> NUL \<notin> set p"

definition param_ok :: "string \<Rightarrow> bool" where
  \<comment> \<open>what the parser leaves in the parameter array\<close>
  "param_ok a \<longleftrightarrow> length a + 1 < FTP_PARAM_SIZE \<and> NUL \<notin> set a"

definition name_ok :: "string \<Rightarrow> bool" where
  "name_ok n \<longleftrightarrow> n \<noteq> [] \<and> slash \<notin> set n \<and> NUL \<notin> set n"

lemma no_slash_ends: "slash \<notin> set n \<Longrightarrow> n \<noteq> [] \<Longrightarrow> hd n \<noteq> slash \<and> last n \<noteq> slash"
  by (metis hd_in_set last_in_set)

lemma strip_to_slash_append:
  "slash \<notin> set r \<Longrightarrow> strip_to_slash (q @ slash # r) = q @ [slash]"
proof (induction r rule: rev_induct)
  case Nil
  then show ?case by (subst strip_to_slash.simps) simp
next
  case (snoc c r)
  have "strip_to_slash (q @ slash # r @ [c]) = strip_to_slash (q @ slash # r)"
    using snoc.prems by (subst strip_to_slash.simps) (auto simp: butlast_append)
  then show ?case using snoc by simp
qed

lemma path_up_append:
  "slash \<notin> set r \<Longrightarrow> path_up_a_level (q @ slash # r) = (if q = [] then [slash] else q)"
  by (simp add: path_up_a_level_def strip_to_slash_append butlast_append Let_def)

lemma path_ok_split:
  assumes "path_ok p"
  obtains q r where "p = q @ slash # r" and "slash \<notin> set r"
proof -
  from assms have "slash \<in> set p"
    unfolding path_ok_def by (metis hd_in_set)
  then show ?thesis using that by (meson split_list_last)
qed

lemma path_up_ok:
  assumes ok: "path_ok p"
  shows "path_ok (path_up_a_level p)"
proof -
  obtain q r where p: "p = q @ slash # r" and r: "slash \<notin> set r"
    using ok by (rule path_ok_split)
  have up: "path_up_a_level p = (if q = [] then [slash] else q)"
    unfolding p using r by (rule path_up_append)
  have "path_ok (if q = [] then [slash] else q)"
    using ok p by (cases q) (auto simp: path_ok_def FTP_CWD_SIZE_def MAX_LFN_def)
  then show ?thesis using up by simp
qed

lemma length_path_up: "path_ok p \<Longrightarrow> length (path_up_a_level p) \<le> length p"
  by (erule path_ok_split) (simp add: path_up_append)

lemma path_strip_end_snoc:
  "path_strip_end (p @ [c]) = (if c = slash \<and> length p > 1 then p else p @ [c])"
  by (simp add: path_strip_end_def Let_def nth_append)

lemma path_strip_end_ok: "path_ok p \<Longrightarrow> path_ok (path_strip_end p)"
  by (cases p rule: rev_cases) (auto simp: path_strip_end_snoc path_ok_def hd_append split: if_splits)

lemma length_path_strip_end: "length (path_strip_end p) \<le> length p"
  by (simp add: path_strip_end_def Let_def)

lemma strncat_into_Some:
  "strncat_into sz d a n = Some r \<longleftrightarrow> r = d @ take n a \<and> length d + min (length a) n < sz"
  by (auto simp: strncat_into_def Let_def)

lemma path_build_raw_ok:
  assumes "path_ok p" and "param_ok a" and "path_build_raw p a = Some q"
  shows "path_ok q"
proof -
  have root: "path_ok [slash]" by (simp add: path_ok_def FTP_CWD_SIZE_def MAX_LFN_def)
  consider (root) "a = ''/'' \<or> a = []" | (up) "a = ''..''"
    | (rel) "a \<noteq> []" "a \<noteq> ''/''" "a \<noteq> ''..''" "hd a \<noteq> slash"
    | (abs) "a \<noteq> []" "a \<noteq> ''/''" "a \<noteq> ''..''" "hd a = slash"
    by blast
  then show ?thesis
  proof cases
    case root
    then show ?thesis using assms(3) \<open>path_ok [slash]\<close> by (auto simp: path_build_raw_def)
  next
    case up
    then show ?thesis using assms path_up_ok by (auto simp: path_build_raw_def)
  next
    case rel
    from assms(3) rel assms(1) obtain m where "m = p \<or> m = p @ ''/''"
      and "strncat_into FTP_CWD_SIZE m a FTP_CWD_SIZE = Some q"
      by (auto simp: path_build_raw_def path_ok_def strncat_into_Some split: if_splits
               elim!: option_bind_SomeE)
    then show ?thesis
      using assms(1,2) by (auto simp: strncat_into_Some path_ok_def param_ok_def hd_append
          dest: in_set_takeD)
  next
    case abs
    then have "q = a" using assms(2,3)
      by (auto simp: path_build_raw_def param_ok_def FTP_PARAM_SIZE_def FTP_CWD_SIZE_def)
    then show ?thesis using abs assms(2)
      by (auto simp: path_ok_def param_ok_def FTP_PARAM_SIZE_def FTP_CWD_SIZE_def)
  qed
qed

lemma path_build_ok:
  assumes "path_ok p" and "param_ok a" and "path_build p a = Some (q, b)"
  shows "path_ok q \<and> b"
proof -
  from assms(3) obtain m where m: "path_build_raw p a = Some m" and q: "q = path_strip_end m"
    and b: "b = (length q < FTP_CWD_SIZE)"
    by (auto simp: path_build_def Let_def elim!: option_bind_SomeE split: if_splits)
  from assms(1,2) m have "path_ok m" by (rule path_build_raw_ok)
  then have "path_ok q" unfolding q by (rule path_strip_end_ok)
  then show ?thesis unfolding b by (simp add: path_ok_def)
qed

section \<open>The exact condition for the overflow\<close>

definition path_overflows :: "string \<Rightarrow> string \<Rightarrow> bool" where
  "path_overflows p a \<longleftrightarrow> a \<noteq> [] \<and> a \<noteq> ''..'' \<and> hd a \<noteq> slash \<and>
     FTP_CWD_SIZE \<le> length p + (if last p = slash then 0 else 1) + length a"

lemma path_build_raw_None:
  assumes "path_ok p" and "param_ok a"
  shows "path_build_raw p a = None \<longleftrightarrow> path_overflows p a"
proof -
  have len: "length a < FTP_CWD_SIZE"
    using assms(2) by (simp add: param_ok_def FTP_PARAM_SIZE_def FTP_CWD_SIZE_def)
  have ne: "p \<noteq> []" using assms(1) by (simp add: path_ok_def)
  have small: "1 < FTP_CWD_SIZE" by (simp add: FTP_CWD_SIZE_def MAX_LFN_def)
  show ?thesis
    using len ne small
    by (auto simp: path_build_raw_def path_overflows_def strncat_into_def Let_def)
qed

lemma path_build_None:
  assumes "path_ok p" and "param_ok a"
  shows "path_build p a = None \<longleftrightarrow> path_overflows p a"
proof -
  have "path_build p a = None \<longleftrightarrow> path_build_raw p a = None"
    using path_build_raw_ok [OF assms]
    by (cases "path_build_raw p a") (auto simp: path_build_def Let_def path_ok_def)
  then show ?thesis using path_build_raw_None [OF assms] by simp
qed

section \<open>Paths as lists of components\<close>

definition path_of :: "string list \<Rightarrow> string" where
  "path_of cs = (if cs = [] then [slash] else concat (map (\<lambda>c. slash # c) cs))"

lemma path_of_Nil [simp]: "path_of [] = [slash]"
  by (simp add: path_of_def)

lemma path_of_snoc: "path_of (cs @ [c]) = (if cs = [] then [] else path_of cs) @ slash # c"
  by (simp add: path_of_def)

lemma path_of_hd: "hd (path_of cs) = slash" and path_of_nonempty [simp]: "path_of cs \<noteq> []"
  by (cases cs; simp add: path_of_def)+

lemma last_path_of:
  "cs \<noteq> [] \<Longrightarrow> name_ok (last cs) \<Longrightarrow> last (path_of cs) \<noteq> slash"
  by (cases cs rule: rev_cases) (auto simp: path_of_snoc name_ok_def dest: no_slash_ends)

lemma path_of_no_nul: "\<forall>c \<in> set cs. name_ok c \<Longrightarrow> NUL \<notin> set (path_of cs)"
  by (auto simp: path_of_def name_ok_def)

lemma path_of_ok:
  "\<forall>c \<in> set cs. name_ok c \<Longrightarrow> length (path_of cs) < FTP_CWD_SIZE \<Longrightarrow> path_ok (path_of cs)"
  by (simp add: path_ok_def path_of_hd path_of_no_nul)

lemma path_up_path_of:
  assumes "\<forall>c \<in> set cs. name_ok c"
  shows "path_up_a_level (path_of cs) = path_of (butlast cs)"
proof (cases cs rule: rev_cases)
  case Nil
  then show ?thesis using path_up_append [of "[]" "[]"] by simp
next
  case (snoc ds d)
  have "slash \<notin> set d" using assms snoc by (simp add: name_ok_def)
  then show ?thesis
    by (simp add: snoc path_of_snoc path_up_append)
qed

lemma path_strip_end_path_of:
  assumes "\<forall>c \<in> set cs. name_ok c"
  shows "path_strip_end (path_of cs) = path_of cs"
proof (cases cs rule: rev_cases)
  case Nil
  then show ?thesis by (simp add: path_strip_end_def)
next
  case (snoc ds d)
  have "path_of cs = butlast (path_of cs) @ [last (path_of cs)]" by simp
  moreover have "last (path_of cs) \<noteq> slash"
    using assms snoc by (intro last_path_of) auto
  ultimately show ?thesis by (metis path_strip_end_snoc)
qed

lemma path_build_name:
  assumes cs: "\<forall>c \<in> set cs. name_ok c" and n: "name_ok n" "n \<noteq> ''..''"
    and fits: "length (path_of (cs @ [n])) < FTP_CWD_SIZE"
  shows "path_build (path_of cs) n = Some (path_of (cs @ [n]), True)"
proof -
  have ends: "last (path_of cs) = slash \<longleftrightarrow> cs = []"
    using last_path_of [of cs] cs by (cases "cs = []") auto
  have joined: "path_of (cs @ [n]) = (if cs = [] then path_of cs @ n else (path_of cs @ [slash]) @ n)"
    by (simp add: path_of_snoc)
  have n': "n \<noteq> []" "hd n \<noteq> slash" "n \<noteq> ''/''"
    using n(1) no_slash_ends [of n] by (auto simp: name_ok_def)
  have len: "length n \<le> FTP_CWD_SIZE" using fits joined by (auto split: if_splits)
  have "path_build_raw (path_of cs) n = Some (path_of (cs @ [n]))"
    using n' n(2) ends joined fits len
    by (auto simp: path_build_raw_def strncat_into_def Let_def split: if_splits)
  then show ?thesis
    using cs n(1) fits by (simp add: path_build_def path_strip_end_path_of Let_def)
qed

lemma path_build_absolute:
  assumes "\<forall>c \<in> set cs. name_ok c" and "length (path_of cs) < FTP_CWD_SIZE"
  shows "path_build p (path_of cs) = Some (path_of cs, True)"
proof -
  have "path_of cs \<noteq> ''..''" using path_of_hd [of cs] by auto
  then have "path_build_raw p (path_of cs) = Some (path_of cs)"
    using assms(2) path_of_hd [of cs] by (auto simp: path_build_raw_def)
  then show ?thesis
    using assms by (simp add: path_build_def path_strip_end_path_of Let_def)
qed

section \<open>The interface the command handlers use\<close>

locale path_interface =
  fixes build :: "string \<Rightarrow> string \<Rightarrow> (string \<times> bool) option"
    and up :: "string \<Rightarrow> string"
    and good :: "string \<Rightarrow> bool"
    and arg :: "string \<Rightarrow> bool"
    and child :: "string \<Rightarrow> string \<Rightarrow> bool"
  assumes build_good: "good p \<Longrightarrow> arg a \<Longrightarrow> build p a = Some (q, b) \<Longrightarrow> good q \<and> b"
    and up_good: "good p \<Longrightarrow> good (up p)"
    and up_child: "good p \<Longrightarrow> child p a \<Longrightarrow> build p a = Some (q, b) \<Longrightarrow> up q = p"
begin

lemma never_refused: "good p \<Longrightarrow> arg a \<Longrightarrow> build p a \<noteq> Some (q, False)"
  using build_good by blast

lemma visit_good: "good p \<Longrightarrow> arg a \<Longrightarrow> build p a = Some (q, b) \<Longrightarrow> good (up q)"
  using build_good up_good by blast

end

definition is_child_of :: "string \<Rightarrow> string \<Rightarrow> bool" where
  \<comment> \<open>the parameter is a plain file name, and the path in front of it has no trailing slash\<close>
  "is_child_of p a \<longleftrightarrow> name_ok a \<and> a \<noteq> ''..'' \<and> (p = [slash] \<or> last p \<noteq> slash)"

lemma path_up_build_child:
  assumes ok: "path_ok p" and child: "is_child_of p a" and b: "path_build p a = Some (q, b)"
  shows "path_up_a_level q = p"
proof -
  define m where "m = (if p = [slash] then [slash] @ a else p @ slash # a)"
  have a: "a \<noteq> []" "hd a \<noteq> slash" "a \<noteq> ''/''" "a \<noteq> ''..''" "slash \<notin> set a"
    using child no_slash_ends [of a] by (auto simp: is_child_of_def name_ok_def)
  from b obtain r where r: "path_build_raw p a = Some r" "r \<noteq> []" "q = path_strip_end r"
    by (auto simp: path_build_def Let_def elim!: option_bind_SomeE split: if_splits)
  have "min (length a) FTP_CWD_SIZE = length a \<and> r = m"
    using r(1) a child ok
    by (auto simp: path_build_raw_def strncat_into_Some is_child_of_def m_def path_ok_def
        split: if_splits elim!: option_bind_SomeE)
  then have r_eq: "r = m" by simp
  have "last m = last a" using a(1) by (simp add: m_def)
  then have "last m \<noteq> slash" using a(1,5) last_in_set [of a] by metis
  then have "path_strip_end m = m"
    using path_strip_end_snoc [of "butlast m" "last m"] a(1) by (simp add: m_def)
  then have "q = m" using r r_eq by simp
  then show ?thesis
    using a(5) ok path_up_append [of a "[]"] path_up_append [of a p]
    by (simp add: m_def path_ok_def)
qed

interpretation ftp_path: path_interface path_build path_up_a_level path_ok param_ok is_child_of
  by unfold_locales (auto dest: path_build_ok path_up_ok path_up_build_child)

end
