(* ===== verification/FtpTime.thy ===== *)
theory FtpTime
  imports FtpPath
begin

text \<open>
  The FAT time stamps of \<open>MLSD\<close> and \<open>MDTM\<close>: \<open>data_time_to_str\<close> prints a packed date and time
  as \<open>YYYYMMDDHHMMSS\<close>, \<open>date_time_get\<close> parses that string at the start of the parameter array
  (into which it writes terminators). The two are shown to be inverse to each other on every
  packed date and time.
\<close>

section \<open>The code\<close>

definition data_time_to_str :: "u16 \<Rightarrow> u16 \<Rightarrow> string" where
  "data_time_to_str date time =
     dec_pad 4 (unat (drop_bit 9 (date AND 0xFE00)) + 1980) @
     dec_pad 2 (unat (drop_bit 5 (date AND 0x01E0))) @
     dec_pad 2 (unat (date AND 0x001F)) @
     dec_pad 2 (unat (drop_bit 11 (time AND 0xF800))) @
     dec_pad 2 (unat (drop_bit 5 (time AND 0x07E0))) @
     dec_pad 2 (unat (push_bit 1 (time AND 0x001F)))"

definition atoi_at :: "nat \<Rightarrow> char list \<Rightarrow> int" where
  \<comment> \<open>\<open>atoi(parameters + i)\<close>\<close>
  "atoi_at i a = atoi (cstr (drop i a))"

definition date_time_get :: "char list \<Rightarrow> u16 \<Rightarrow> u16 \<Rightarrow> nat \<times> char list \<times> u16 \<times> u16" where
  \<comment> \<open>the offset of the file name, the array, \<open>*pdate\<close> and \<open>*ptime\<close>\<close>
  "date_time_get a date time =
     (if strlen a < 15 \<or> a ! 14 \<noteq> CHR '' '' then (0, a, date, time)
      else if \<not> list_all isdigit (take 14 a) then (0, a, date, time)
      else
        let a = a[14 := NUL];
            time = word_of_int (drop_bit 1 (atoi_at 12 a)) :: u16;
            a = a[12 := NUL];
            time = time OR word_of_int (push_bit 5 (atoi_at 10 a));
            a = a[10 := NUL];
            time = time OR word_of_int (push_bit 11 (atoi_at 8 a));
            a = a[8 := NUL];
            date = word_of_int (atoi_at 6 a);
            a = a[6 := NUL];
            date = date OR word_of_int (push_bit 5 (atoi_at 4 a));
            a = a[4 := NUL];
            date = date OR word_of_int (push_bit 9 (atoi_at 0 a - 1980))
        in (15, a, date, time))"

section \<open>Printing\<close>

lemma unat_field_less:
  fixes w :: u16
  shows "unat (drop_bit 9 (w AND 0xFE00)) < 128"
    "unat (drop_bit 5 (w AND 0x01E0)) < 16"
    "unat (w AND 0x001F) < 32"
    "unat (drop_bit 11 (w AND 0xF800)) < 32"
    "unat (drop_bit 5 (w AND 0x07E0)) < 64"
    "unat (push_bit 1 (w AND 0x001F)) < 64"
  using unat_and_le [of w "0xFE00"] unat_and_le [of w "0x01E0"] unat_and_le [of w "0x001F"]
    unat_and_le [of w "0xF800"] unat_and_le [of w "0x07E0"]
  by (simp_all add: unat_drop_bit_eq drop_bit_eq_div push_bit_eq_mult unat_word_ariths)

lemma length_dec_pad_2: "n < 64 \<Longrightarrow> length (dec_pad 2 n) = 2"
  by (rule length_dec_pad) auto

lemma length_dec_pad_4: "n < 10000 \<Longrightarrow> length (dec_pad 4 n) = 4"
  by (rule length_dec_pad) auto

lemma length_data_time_to_str: "length (data_time_to_str d t) = 14"
  using unat_field_less [of d] unat_field_less [of t]
  by (simp add: data_time_to_str_def length_dec_pad_2 length_dec_pad_4)

lemma data_time_to_str_digits: "list_all isdigit (data_time_to_str d t)"
  using dec_pad_digits by (auto simp: data_time_to_str_def list_all_iff)

section \<open>Parsing what was printed\<close>

lemma isdigit_not_nul: "isdigit c \<Longrightarrow> c \<noteq> NUL"
  by (auto simp: isdigit_def)

lemma dec_pad_nonempty [simp]: "dec_pad w n \<noteq> []"
  by (simp add: dec_pad_def Let_def)

lemma atoi_dec_pad: "n < 10000 \<Longrightarrow> atoi (dec_pad w n) = int n"
  using atoi_digits [OF dec_pad_nonempty dec_pad_digits] by (simp add: INT_MAX_def)

lemma dec_pad_no_nul: "NUL \<notin> set (dec_pad w n)"
  using dec_pad_digits [of w n] isdigit_not_nul by blast

lemma list2E:
  assumes "length xs = 2"
  obtains a b where "xs = [a, b]"
  using assms by (auto simp: length_Suc_conv numeral_2_eq_2)

lemma list4E:
  assumes "length xs = 4"
  obtains a b c d where "xs = [a, b, c, d]"
  using assms by (auto simp: length_Suc_conv eval_nat_numeral)

text \<open>The parser on six fields of digits: each field is cut off by the terminator written last.\<close>

lemma date_time_get_fields:
  assumes len: "length Y = 4" "length M = 2" "length D = 2" "length h = 2" "length m = 2" "length s = 2"
    and dig: "list_all isdigit (Y @ M @ D @ h @ m @ s)"
  shows "\<exists>a. date_time_get (Y @ M @ D @ h @ m @ s @ CHR '' '' # rest) d0 t0 =
    (15, a,
     (word_of_int (atoi D) OR word_of_int (push_bit 5 (atoi M)))
       OR word_of_int (push_bit 9 (atoi Y - 1980)),
     (word_of_int (drop_bit 1 (atoi s)) OR word_of_int (push_bit 5 (atoi m)))
       OR word_of_int (push_bit 11 (atoi h)))
    \<and> drop 15 a = rest"
proof -
  obtain y1 y2 y3 y4 where Y: "Y = [y1, y2, y3, y4]" using len(1) by (rule list4E)
  obtain M1 M2 where M: "M = [M1, M2]" using len(2) by (rule list2E)
  obtain D1 D2 where D: "D = [D1, D2]" using len(3) by (rule list2E)
  obtain h1 h2 where h: "h = [h1, h2]" using len(4) by (rule list2E)
  obtain m1 m2 where m: "m = [m1, m2]" using len(5) by (rule list2E)
  obtain s1 s2 where s: "s = [s1, s2]" using len(6) by (rule list2E)
  note all = Y M D h m s
  have nn: "y1 \<noteq> NUL" "y2 \<noteq> NUL" "y3 \<noteq> NUL" "y4 \<noteq> NUL" "M1 \<noteq> NUL" "M2 \<noteq> NUL" "D1 \<noteq> NUL"
    "D2 \<noteq> NUL" "h1 \<noteq> NUL" "h2 \<noteq> NUL" "m1 \<noteq> NUL" "m2 \<noteq> NUL" "s1 \<noteq> NUL" "s2 \<noteq> NUL"
    using dig isdigit_not_nul unfolding all by auto
  have strl: "\<not> strlen (Y @ M @ D @ h @ m @ s @ CHR '' '' # rest) < 15"
    unfolding all strlen_def cstr_def using nn by simp
  show ?thesis
    using dig strl nn unfolding all date_time_get_def
    by (simp add: Let_def atoi_at_def cstr_def eval_nat_numeral)
qed

lemma push_drop_masked:
  fixes d m :: "'a::len word"
  assumes "m AND NOT (mask n) = m"
  shows "push_bit n (drop_bit n (d AND m)) = d AND m"
proof -
  have "push_bit n (drop_bit n (d AND m)) = (d AND m) AND NOT (mask n)"
    by (rule bit_eqI) (auto simp: bit_simps)
  then show ?thesis using assms by (simp add: and.assoc)
qed

lemma word_of_shifted: "word_of_int (push_bit n (int (unat w))) = push_bit n (w :: u16)"
  by (simp add: push_bit_eq_mult)

lemma packed_date_bits:
  fixes d :: u16
  shows "(word_of_int (int (unat (d AND 0x001F)))
      OR word_of_int (push_bit 5 (int (unat (drop_bit 5 (d AND 0x01E0))))))
      OR word_of_int (push_bit 9 (int (unat (drop_bit 9 (d AND 0xFE00))))) = d"
proof -
  have "((d AND 0x001F) OR (d AND 0x01E0)) OR (d AND 0xFE00) = d AND ((0x001F OR 0x01E0) OR 0xFE00)"
    by (simp only: bit.conj_disj_distrib)
  also have "((0x001F OR 0x01E0) OR 0xFE00 :: u16) = - 1" by simp
  finally have "((d AND 0x001F) OR (d AND 0x01E0)) OR (d AND 0xFE00) = d" by simp
  moreover have "push_bit 5 (drop_bit 5 (d AND 0x01E0)) = d AND 0x01E0"
    by (rule push_drop_masked) (simp add: mask_eq_exp_minus_1)
  moreover have "push_bit 9 (drop_bit 9 (d AND 0xFE00)) = d AND 0xFE00"
    by (rule push_drop_masked) (simp add: mask_eq_exp_minus_1)
  ultimately show ?thesis by (simp only: word_of_shifted) simp
qed

lemma packed_time_bits:
  fixes t :: u16
  shows "(word_of_int (drop_bit 1 (int (unat (push_bit 1 (t AND 0x001F)))))
      OR word_of_int (push_bit 5 (int (unat (drop_bit 5 (t AND 0x07E0))))))
      OR word_of_int (push_bit 11 (int (unat (drop_bit 11 (t AND 0xF800))))) = t"
proof -
  have "unat (push_bit 1 (t AND 0x001F)) = 2 * unat (t AND 0x001F)"
    using unat_and_le [of t "0x001F"] by (simp add: push_bit_eq_mult unat_word_ariths)
  then have sec: "drop_bit 1 (int (unat (push_bit 1 (t AND 0x001F)))) = int (unat (t AND 0x001F))"
    by (simp add: drop_bit_eq_div)
  have "((t AND 0x001F) OR (t AND 0x07E0)) OR (t AND 0xF800) = t AND ((0x001F OR 0x07E0) OR 0xF800)"
    by (simp only: bit.conj_disj_distrib)
  also have "((0x001F OR 0x07E0) OR 0xF800 :: u16) = - 1" by simp
  finally have "((t AND 0x001F) OR (t AND 0x07E0)) OR (t AND 0xF800) = t" by simp
  moreover have "push_bit 5 (drop_bit 5 (t AND 0x07E0)) = t AND 0x07E0"
    by (rule push_drop_masked) (simp add: mask_eq_exp_minus_1)
  moreover have "push_bit 11 (drop_bit 11 (t AND 0xF800)) = t AND 0xF800"
    by (rule push_drop_masked) (simp add: mask_eq_exp_minus_1)
  ultimately show ?thesis by (simp only: word_of_shifted sec) simp
qed

lemma date_time_roundtrip_exists:
  "\<exists>a. date_time_get (data_time_to_str d t @ CHR '' '' # rest) d0 t0 = (15, a, d, t)
     \<and> drop 15 a = rest"
proof -
  let ?Y = "dec_pad 4 (unat (drop_bit 9 (d AND 0xFE00)) + 1980)"
  let ?M = "dec_pad 2 (unat (drop_bit 5 (d AND 0x01E0)))"
  let ?D = "dec_pad 2 (unat (d AND 0x001F))"
  let ?h = "dec_pad 2 (unat (drop_bit 11 (t AND 0xF800)))"
  let ?m = "dec_pad 2 (unat (drop_bit 5 (t AND 0x07E0)))"
  let ?s = "dec_pad 2 (unat (push_bit 1 (t AND 0x001F)))"
  note f = unat_field_less [of d] unat_field_less [of t]
  have len: "length ?Y = 4" "length ?M = 2" "length ?D = 2" "length ?h = 2" "length ?m = 2"
    "length ?s = 2"
    using f by (simp_all add: length_dec_pad_2 length_dec_pad_4)
  have dig: "list_all isdigit (?Y @ ?M @ ?D @ ?h @ ?m @ ?s)"
    using data_time_to_str_digits [of d t] by (simp add: data_time_to_str_def)
  have val: "atoi ?Y - 1980 = int (unat (drop_bit 9 (d AND 0xFE00)))"
    "atoi ?M = int (unat (drop_bit 5 (d AND 0x01E0)))" "atoi ?D = int (unat (d AND 0x001F))"
    "atoi ?h = int (unat (drop_bit 11 (t AND 0xF800)))"
    "atoi ?m = int (unat (drop_bit 5 (t AND 0x07E0)))"
    "atoi ?s = int (unat (push_bit 1 (t AND 0x001F)))"
    using f by (simp_all add: atoi_dec_pad)
  have str: "data_time_to_str d t @ CHR '' '' # rest = ?Y @ ?M @ ?D @ ?h @ ?m @ ?s @ CHR '' '' # rest"
    by (simp add: data_time_to_str_def)
  show ?thesis
    using date_time_get_fields [OF len dig, of rest d0 t0]
    unfolding str val packed_date_bits packed_time_bits .
qed

lemma date_time_get_rejects:
  "fst (date_time_get a d0 t0) = 0 \<Longrightarrow> date_time_get a d0 t0 = (0, a, d0, t0)"
  by (simp add: date_time_get_def Let_def split: if_splits)

lemma date_time_get_offset: "fst (date_time_get a d0 t0) \<in> {0, 15}"
  by (simp add: date_time_get_def Let_def)

end
