(* ===== verification/FtpParse.thy ===== *)
theory FtpParse
  imports FtpPath
begin

text \<open>
  \<open>ftp_read_command\<close> and \<open>ftp_parse_command\<close> of \<open>ftp_server.c\<close>. The received buffer is the
  memory around its payload (\<open>nb_mem\<close>, indexed by \<open>int\<close>, the payload being \<open>0 ..< nb_len\<close>),
  because the code can read beside the payload. The index \<open>i\<close> has the code's type \<open>int8_t\<close>:
  it is an 8-bit word read with \<open>sint\<close>. The loop over leading spaces takes fuel; 256 is
  enough whenever the loop ends at all (\<open>skip_spaces_enough\<close>, \<open>skip_spaces_stuck\<close>), so
  \<open>None\<close> means that the code does not return.
\<close>

section \<open>The code\<close>

definition ftp_eth_is_connected :: bool where
  \<comment> \<open>the weak default, which no other file overrides\<close>
  "ftp_eth_is_connected = True"

fun read_command_loop :: "env \<Rightarrow> nat \<Rightarrow> sess \<Rightarrow> int \<times> sess" where
  "read_command_loop e 0 s = (- 1, s)"
| "read_command_loop e (Suc n) s =
     (let t = CtrlRecv # tr s; r = fst (e_recv e t);
          s = s\<lparr>inbuf := (if r = ERR_OK then snd (e_recv e t) else inbuf s), tr := t\<rparr>
      in if r = ERR_OK then (0, s)
         else if r \<noteq> ERR_TIMEOUT then (- 1, s)
         else if \<not> ftp_eth_is_connected then (- 1, s)
         else read_command_loop e n s)"

definition ftp_read_command :: "env \<Rightarrow> sess \<Rightarrow> int \<times> sess" where
  "ftp_read_command e s = read_command_loop e FTP_TIME_OUT_S s"

function command_loop :: "(int \<Rightarrow> char) \<Rightarrow> nat \<Rightarrow> nat \<Rightarrow> string \<Rightarrow> nat \<times> string" where
  \<comment> \<open>the \<open>do ... while\<close> that copies the letters of the command\<close>
  "command_loop pbuf buflen i cmd =
     (if \<not> isalpha (pbuf (int i)) then (i, cmd)
      else if i + 1 < buflen \<and> i + 1 < FTP_CMD_SIZE - 1
           then command_loop pbuf buflen (i + 1) (cmd @ [pbuf (int i)])
           else (i + 1, cmd @ [pbuf (int i)]))"
  by pat_completeness auto
termination
  by (relation "measure (\<lambda>(p, b, i, c). FTP_CMD_SIZE - i)") auto

declare command_loop.simps [simp del]

fun skip_spaces :: "(int \<Rightarrow> char) \<Rightarrow> nat \<Rightarrow> u8 \<Rightarrow> u8 option" where
  "skip_spaces pbuf 0 i = None"
| "skip_spaces pbuf (Suc n) i =
     (if pbuf (sint i) = CHR '' '' then skip_spaces pbuf n (i + 1) else Some i)"

function param_length :: "(int \<Rightarrow> char) \<Rightarrow> nat \<Rightarrow> int \<Rightarrow> nat \<Rightarrow> nat" where
  "param_length pbuf buflen i ret =
     (if pbuf (i + int ret) \<noteq> LF \<and> pbuf (i + int ret) \<noteq> CR \<and> i + int ret < int buflen
      then param_length pbuf buflen i (ret + 1) else ret)"
  by pat_completeness auto
termination
  by (relation "measure (\<lambda>(p, b, i, r). nat (int b - (i + int r)))") auto

declare param_length.simps [simp del]

definition zero_params :: "char list" where
  "zero_params = replicate FTP_PARAM_SIZE NUL"

definition parse_payload :: "netbuf \<Rightarrow> (int \<times> string \<times> char list) option" where
  \<comment> \<open>the return value, the command and the parameter array\<close>
  "parse_payload nb =
     (let pbuf = nb_mem nb; buflen = unat (nb_len nb)
      in if buflen = 0 then Some (0, [], zero_params)
         else let (i, cmd) = command_loop pbuf buflen 0 []
              in if pbuf (int i) \<noteq> CHR '' '' then Some (0, cmd, zero_params)
                 else do {
                   w \<leftarrow> skip_spaces pbuf 256 (of_nat i);
                   let ret = param_length pbuf buflen (sint w) 0;
                   if ret + 1 \<ge> FTP_PARAM_SIZE then Some (- 1, cmd, zero_params)
                   else Some (int ret, cmd,
                     strncpy_pad ret (map (\<lambda>k. pbuf (sint w + int k)) [0..<ret])
                       @ replicate (FTP_PARAM_SIZE - ret) NUL)
                 })"

definition ftp_parse_command :: "sess \<Rightarrow> (int \<times> sess) option" where
  "ftp_parse_command s =
     do {
       (ret, cmd, params) \<leftarrow> parse_payload (inbuf s);
       Some (ret, s\<lparr>command := cmd, parameters := params, tr := NetbufDelete # tr s\<rparr>)
     }"

section \<open>Reading\<close>

lemma read_command_loop_result:
  "fst (read_command_loop e n s) \<in> {0, - 1}"
  by (induction n arbitrary: s) (simp_all add: Let_def)

lemma read_command_loop_recvs:
  "\<exists>k\<le>n. tr (snd (read_command_loop e n s)) = replicate k CtrlRecv @ tr s"
proof (induction n arbitrary: s)
  case 0
  then show ?case by simp
next
  case (Suc n)
  define r where "r = fst (e_recv e (CtrlRecv # tr s))"
  define s' where "s' = s\<lparr>inbuf := inbuf s, tr := CtrlRecv # tr s\<rparr>"
  show ?case
  proof (cases "r = ERR_TIMEOUT")
    case True
    then have step: "read_command_loop e (Suc n) s = read_command_loop e n s'"
      by (simp add: Let_def r_def s'_def ERR_TIMEOUT_def ERR_OK_def ftp_eth_is_connected_def)
    obtain k where "k \<le> n" and "tr (snd (read_command_loop e n s')) = replicate k CtrlRecv @ tr s'"
      using Suc.IH by blast
    then show ?thesis unfolding step
      by (intro exI [of _ "Suc k"]) (simp add: s'_def replicate_app_Cons_same)
  next
    case False
    then have "tr (snd (read_command_loop e (Suc n) s)) = [CtrlRecv] @ tr s"
      by (simp add: Let_def r_def)
    then show ?thesis by (intro exI [of _ 1]) simp
  qed
qed

lemma read_command_loop_frame:
  "\<exists>nb t. snd (read_command_loop e n s) = s\<lparr>inbuf := nb, tr := t\<rparr>"
proof (induction n arbitrary: s)
  case 0
  have "s = s\<lparr>inbuf := inbuf s, tr := tr s\<rparr>" by simp
  then show ?case by (metis read_command_loop.simps(1) snd_conv)
next
  case (Suc n)
  have id: "\<exists>nb t. s\<lparr>tr := u\<rparr> = s\<lparr>inbuf := nb, tr := t\<rparr>" for u
    by (rule exI [of _ "inbuf s"], rule exI [of _ u]) simp
  show ?case using Suc [of "s\<lparr>inbuf := inbuf s, tr := CtrlRecv # tr s\<rparr>"] id
    by (auto simp: Let_def)
qed

section \<open>The loop over leading spaces\<close>

lemma skip_spaces_Some:
  "skip_spaces pbuf n i = Some w \<Longrightarrow> pbuf (sint w) \<noteq> CHR '' ''"
  by (induction n arbitrary: i) (auto split: if_splits)

lemma skip_spaces_run:
  "(\<And>k. k < m \<Longrightarrow> pbuf (sint (i + of_nat k)) = CHR '' '') \<Longrightarrow>
   skip_spaces pbuf (m + n) i = skip_spaces pbuf n (i + of_nat m)"
proof (induction m arbitrary: i)
  case 0
  then show ?case by simp
next
  case (Suc m)
  have "pbuf (sint (i + 1 + of_nat k)) = CHR '' ''" if "k < m" for k
    using Suc.prems [of "Suc k"] that by (simp add: add.assoc)
  then have "skip_spaces pbuf (m + n) (i + 1) = skip_spaces pbuf n (i + 1 + of_nat m)"
    by (rule Suc.IH)
  moreover have "pbuf (sint i) = CHR '' ''" using Suc.prems [of 0] by simp
  ultimately show ?case by (simp add: add.assoc)
qed

lemma skip_spaces_stuck:
  "(\<And>w :: u8. pbuf (sint w) = CHR '' '') \<Longrightarrow> skip_spaces pbuf n i = None"
  by (induction n arbitrary: i) auto

lemma skip_spaces_first:
  assumes "pbuf (sint (i + of_nat m)) \<noteq> CHR '' ''" and "m < n"
    and "\<And>k. k < m \<Longrightarrow> pbuf (sint (i + of_nat k)) = CHR '' ''"
  shows "skip_spaces pbuf n i = Some (i + of_nat m)"
proof -
  obtain d where "n = m + Suc d" using assms(2) less_imp_Suc_add by auto
  then show ?thesis using skip_spaces_run [of m pbuf i "Suc d"] assms(1,3) by simp
qed

lemma skip_spaces_enough:
  fixes w :: u8
  assumes "pbuf (sint w) \<noteq> CHR '' ''"
  shows "\<exists>v. skip_spaces pbuf 256 i = Some v"
proof -
  let ?P = "\<lambda>m. pbuf (sint (i + of_nat m)) \<noteq> CHR '' ''"
  define m0 where "m0 = unat (w - i)"
  have "?P m0" using assms by (simp add: m0_def)
  have P: "?P (LEAST m. ?P m)" by (rule LeastI) fact
  have le: "(LEAST m. ?P m) \<le> m0" by (rule Least_le) fact
  have "m0 < 256" using unsigned_less [of "w - i"] by (simp add: m0_def)
  with le have "(LEAST m. ?P m) < 256" by simp
  then show ?thesis
    using skip_spaces_first [of pbuf i "LEAST m. ?P m" 256] P not_less_Least by blast
qed

section \<open>The length of the parameter\<close>

lemma param_length_eq:
  assumes "r \<le> n" and "\<And>k. r \<le> k \<Longrightarrow> k < n \<Longrightarrow> pbuf (i + int k) \<noteq> LF \<and> pbuf (i + int k) \<noteq> CR \<and> i + int k < int b"
    and "pbuf (i + int n) = LF \<or> pbuf (i + int n) = CR \<or> int b \<le> i + int n"
  shows "param_length pbuf b i r = n"
  using assms
proof (induction "n - r" arbitrary: r)
  case 0
  then show ?case by (subst param_length.simps) auto
next
  case (Suc d)
  then have "param_length pbuf b i (r + 1) = n" by (intro Suc.hyps(1)) auto
  moreover have "pbuf (i + int r) \<noteq> LF \<and> pbuf (i + int r) \<noteq> CR \<and> i + int r < int b"
    using Suc.prems(2) [of r] Suc.hyps(2) by simp
  ultimately show ?case by (subst param_length.simps) simp
qed

section \<open>The command word\<close>

lemma command_loop_length:
  "i < FTP_CMD_SIZE - 1 \<Longrightarrow> length cmd = i \<Longrightarrow> command_loop pbuf b i cmd = (j, c) \<Longrightarrow>
   length c = j \<and> j \<le> FTP_CMD_SIZE - 1 \<and> i \<le> j"
proof (induction pbuf b i cmd rule: command_loop.induct)
  case (1 pbuf b i cmd)
  show ?case
  proof (cases "isalpha (pbuf (int i)) \<and> i + 1 < b \<and> i + 1 < FTP_CMD_SIZE - 1")
    case True
    then have "command_loop pbuf b (i + 1) (cmd @ [pbuf (int i)]) = (j, c)"
      using "1.prems"(3) by (simp add: command_loop.simps [of pbuf b i])
    then show ?thesis using "1.IH" True "1.prems" by auto
  next
    case False
    then show ?thesis using "1.prems"
      by (auto simp: command_loop.simps [of pbuf b i] split: if_splits)
  qed
qed

lemma command_loop_spec:
  assumes "\<And>k. k < n \<Longrightarrow> i \<le> k \<Longrightarrow> isalpha (pbuf (int k))"
    and "\<not> isalpha (pbuf (int n)) \<or> n = FTP_CMD_SIZE - 1 \<or> n = b"
    and "i < n" and "n \<le> FTP_CMD_SIZE - 1" and "n \<le> b"
  shows "command_loop pbuf b i cmd = (n, cmd @ map (\<lambda>k. pbuf (int k)) [i..<n])"
  using assms
proof (induction "n - i" arbitrary: i cmd)
  case 0
  then show ?case by simp
next
  case (Suc d)
  have alpha: "isalpha (pbuf (int i))" using Suc.prems(1) [of i] Suc.prems(3) by simp
  have upt: "[i..<n] = i # [i + 1..<n]" using Suc.prems(3) by (simp add: upt_conv_Cons)
  show ?case
  proof (cases "i + 1 = n")
    case True
    show ?thesis
    proof (cases "i + 1 < b \<and> i + 1 < FTP_CMD_SIZE - 1")
      case guard: True
      then have stop: "\<not> isalpha (pbuf (int (i + 1)))" using Suc.prems(2) True by auto
      have "command_loop pbuf b (i + 1) (cmd @ [pbuf (int i)]) = (i + 1, cmd @ [pbuf (int i)])"
        using stop by (subst command_loop.simps) simp
      then show ?thesis using alpha True guard by (subst command_loop.simps) (simp add: upt)
    next
      case False
      with alpha True show ?thesis by (simp add: command_loop.simps [of pbuf b i] upt del: upt_Suc) auto
    qed
  next
    case False
    then have "command_loop pbuf b (i + 1) (cmd @ [pbuf (int i)])
        = (n, (cmd @ [pbuf (int i)]) @ map (\<lambda>k. pbuf (int k)) [i + 1..<n])"
      using Suc.prems Suc.hyps(2) by (intro Suc.hyps(1)) auto
    then show ?thesis using alpha False Suc.prems(3-5)
      by (subst command_loop.simps) (simp add: upt)
  qed
qed

section \<open>Bounds of what the parser leaves behind\<close>

lemma parse_payload_bounds:
  assumes "parse_payload nb = Some (ret, cmd, params)"
  shows "(ret = - 1 \<or> 0 \<le> ret \<and> ret < int FTP_PARAM_SIZE - 1) \<and> length cmd < FTP_CMD_SIZE
    \<and> length params = FTP_PARAM_SIZE \<and> param_ok (cstr params)"
proof -
  have zero: "param_ok (cstr zero_params)"
    by (simp add: zero_params_def param_ok_def FTP_PARAM_SIZE_def MAX_LFN_def)
  obtain i c where cl: "command_loop (nb_mem nb) (unat (nb_len nb)) 0 [] = (i, c)" by fastforce
  have "length c < FTP_CMD_SIZE"
    using command_loop_length [OF _ _ cl] by (simp add: FTP_CMD_SIZE_def)
  moreover have "param_ok (cstr (strncpy_pad r xs @ replicate (FTP_PARAM_SIZE - r) NUL))"
    if "\<not> r + 1 \<ge> FTP_PARAM_SIZE" for r xs
  proof -
    have "strncpy_pad r xs = take r (cstr xs) @ replicate (r - length (cstr xs)) NUL"
      by (simp add: strncpy_pad_def)
    then have "strncpy_pad r xs @ replicate (FTP_PARAM_SIZE - r) NUL
        = take r (cstr xs) @ replicate (r - length (cstr xs) + (FTP_PARAM_SIZE - r)) NUL"
      by (simp only: replicate_add append_assoc)
    moreover have "NUL \<notin> set (take r (cstr xs))" using cstr_no_nul in_set_takeD by metis
    ultimately show ?thesis
      using that by (simp add: cstr_append_replicate param_ok_def)
  qed
  moreover have "Suc 0 < FTP_PARAM_SIZE" by (simp add: FTP_PARAM_SIZE_def MAX_LFN_def)
  ultimately show ?thesis
    using assms zero cl
    by (auto simp: parse_payload_def Let_def zero_params_def FTP_CMD_SIZE_def
        split: if_splits elim!: option_bind_SomeE)
qed

section \<open>A well-formed command line is parsed back\<close>

definition payload_is :: "netbuf \<Rightarrow> string \<Rightarrow> bool" where
  "payload_is nb bs \<longleftrightarrow> unat (nb_len nb) = length bs \<and> (\<forall>k < length bs. nb_mem nb (int k) = bs ! k)"

definition word_ok :: "string \<Rightarrow> bool" where
  "word_ok cmd \<longleftrightarrow> cmd \<noteq> [] \<and> length cmd < FTP_CMD_SIZE \<and> list_all isalpha cmd"

definition arg_ok :: "string \<Rightarrow> bool" where
  "arg_ok a \<longleftrightarrow> length a + 1 < FTP_PARAM_SIZE \<and> (a = [] \<or> hd a \<noteq> CHR '' '')
     \<and> set a \<inter> {CR, LF, NUL} = {}"

lemma payload_nth: "payload_is nb bs \<Longrightarrow> k < length bs \<Longrightarrow> nb_mem nb (int k) = bs ! k"
  by (simp add: payload_is_def)

lemma command_loop_line:
  assumes "payload_is nb (cmd @ x # rest)" and "word_ok cmd" and "\<not> isalpha x"
  shows "command_loop (nb_mem nb) (unat (nb_len nb)) 0 [] = (length cmd, cmd)"
proof -
  have nth: "nb_mem nb (int k) = (cmd @ x # rest) ! k" if "k \<le> length cmd" for k
    using payload_nth [OF assms(1)] that by simp
  have map_eq: "map (\<lambda>k. nb_mem nb (int k)) [0..<length cmd] = cmd"
    by (rule nth_equalityI) (auto simp: nth nth_append)
  have "command_loop (nb_mem nb) (unat (nb_len nb)) 0 []
      = (length cmd, [] @ map (\<lambda>k. nb_mem nb (int k)) [0..<length cmd])"
  proof (rule command_loop_spec)
    show "isalpha (nb_mem nb (int k))" if "k < length cmd" for k
      using that assms(2) by (simp add: nth nth_append word_ok_def list_all_length)
    show "\<not> isalpha (nb_mem nb (int (length cmd))) \<or> length cmd = FTP_CMD_SIZE - 1
        \<or> length cmd = unat (nb_len nb)"
      using assms(3) by (simp add: nth)
    show "0 < length cmd" "length cmd \<le> FTP_CMD_SIZE - 1" using assms(2) by (auto simp: word_ok_def)
    show "length cmd \<le> unat (nb_len nb)" using assms(1) by (simp add: payload_is_def)
  qed
  then show ?thesis by (simp add: map_eq)
qed

lemma sint_small: "n < 128 \<Longrightarrow> sint (of_nat n :: u8) = int n"
  using signed_take_bit_int_eq_self [of 7 "int n"] by (simp add: signed_of_nat)

lemma parse_line_with_param:
  assumes pl: "payload_is nb (cmd @ replicate (Suc n) (CHR '' '') @ a @ x # rest)"
    and w: "word_ok cmd" and a: "arg_ok a" and x: "x = CR \<or> x = LF"
    and n: "length cmd + Suc n < 128"
  shows "parse_payload nb =
    Some (int (length a), cmd, a @ replicate (FTP_PARAM_SIZE - length a) NUL)"
proof -
  let ?bs = "cmd @ replicate (Suc n) (CHR '' '') @ a @ x # rest"
  let ?p = "nb_mem nb" and ?m = "length cmd + Suc n"
  have nth: "?p (int k) = ?bs ! k" if "k < length ?bs" for k
    using payload_nth [OF pl that] .
  have word: "command_loop ?p (unat (nb_len nb)) 0 [] = (length cmd, cmd)"
    using pl w by (intro command_loop_line [where x = "CHR '' ''" and rest = "replicate n (CHR '' '') @ a @ x # rest"])
      (simp_all add: isalpha_def)
  have sp: "?p (int (length cmd + k)) = CHR '' ''" if "k < Suc n" for k
    using that nth [of "length cmd + k"] by (simp add: nth_append nth_Cons' del: replicate_Suc)
  have idx: "sint (of_nat (length cmd) + of_nat k :: u8) = int (length cmd + k)" if "k \<le> Suc n" for k
    using sint_small [of "length cmd + k"] that n by simp
  have arg: "?p (int ?m + int k) = (a @ x # rest) ! k" if "k \<le> length a" for k
    using that nth [of "?m + k"] by (simp add: nth_append add.assoc)
  have stop: "?p (int ?m) \<noteq> CHR '' ''"
    using arg [of 0] a x by (cases a) (auto simp: arg_ok_def)
  have skip: "skip_spaces ?p 256 (of_nat (length cmd)) = Some (of_nat (length cmd) + of_nat (Suc n))"
  proof (rule skip_spaces_first)
    show "?p (sint (of_nat (length cmd) + of_nat (Suc n) :: u8)) \<noteq> CHR '' ''"
      using stop idx [of "Suc n"] by (simp del: of_nat_Suc)
    show "?p (sint (of_nat (length cmd) + of_nat k :: u8)) = CHR '' ''" if "k < Suc n" for k
      using sp [of k] idx [of k] that by simp
  qed (use n in simp)
  have len: "param_length ?p (unat (nb_len nb)) (int ?m) 0 = length a"
  proof (rule param_length_eq)
    show "?p (int ?m + int k) \<noteq> LF \<and> ?p (int ?m + int k) \<noteq> CR \<and> int ?m + int k < int (unat (nb_len nb))"
      if "k < length a" for k
    proof -
      have "a ! k \<in> set a" using that by simp
      then have "a ! k \<noteq> LF \<and> a ! k \<noteq> CR" using a by (metis (no_types, lifting) IntI arg_ok_def empty_iff insert_iff)
      then show ?thesis using that arg [of k] pl by (simp add: nth_append payload_is_def)
    qed
    show "?p (int ?m + int (length a)) = LF \<or> ?p (int ?m + int (length a)) = CR
        \<or> int (unat (nb_len nb)) \<le> int ?m + int (length a)"
      using arg [of "length a"] x by auto
  qed simp
  have copy: "map (\<lambda>k. ?p (int ?m + int k)) [0..<length a] = a"
  proof (rule nth_equalityI)
    show "map (\<lambda>k. ?p (int ?m + int k)) [0..<length a] ! k = a ! k"
      if "k < length (map (\<lambda>k. ?p (int ?m + int k)) [0..<length a])" for k
      using that arg [of k] by (simp add: nth_append)
  qed simp
  have "NUL \<notin> set a" using a by (auto simp: arg_ok_def)
  moreover have "unat (nb_len nb) \<noteq> 0" using pl by (simp add: payload_is_def)
  ultimately show ?thesis
    using word sp [of 0] skip idx [of "Suc n"] len copy a
    by (simp add: parse_payload_def Let_def arg_ok_def strncpy_pad_def cstr_id del: of_nat_Suc upt_Suc)
qed

lemma parse_line_bare:
  assumes "payload_is nb (cmd @ x # rest)" and "word_ok cmd" and "x = CR \<or> x = LF"
  shows "parse_payload nb = Some (0, cmd, zero_params)"
proof -
  have "\<not> isalpha x" and "x \<noteq> CHR '' ''" using assms(3) by (auto simp: isalpha_def)
  then have "command_loop (nb_mem nb) (unat (nb_len nb)) 0 [] = (length cmd, cmd)"
    using assms by (intro command_loop_line) auto
  moreover have "nb_mem nb (int (length cmd)) = x" and "unat (nb_len nb) \<noteq> 0"
    using payload_nth [OF assms(1), of "length cmd"] assms(1) by (simp_all add: payload_is_def)
  ultimately show ?thesis using \<open>x \<noteq> CHR '' ''\<close> by (simp add: parse_payload_def Let_def)
qed

section \<open>Which bytes the parser depends on\<close>

definition same_payload :: "netbuf \<Rightarrow> netbuf \<Rightarrow> bool" where
  "same_payload nb nb' \<longleftrightarrow> nb_len nb = nb_len nb' \<and>
     (\<forall>k < unat (nb_len nb). nb_mem nb (int k) = nb_mem nb' (int k))"

definition terminated_at :: "netbuf \<Rightarrow> nat \<Rightarrow> bool" where
  "terminated_at nb k \<longleftrightarrow> k < unat (nb_len nb) \<and> nb_mem nb (int k) \<in> {CR, LF}"

lemma command_loop_cong:
  "i < b \<Longrightarrow> (\<And>k. k < b \<Longrightarrow> p (int k) = q (int k)) \<Longrightarrow> command_loop p b i c = command_loop q b i c"
proof (induction p b i c rule: command_loop.induct)
  case (1 p b i c)
  then show ?case
    by (simp add: command_loop.simps [of p b i] command_loop.simps [of q b i])
qed

lemma command_loop_stops:
  "i \<le> k \<Longrightarrow> \<not> isalpha (p (int k)) \<Longrightarrow> fst (command_loop p b i c) \<le> k"
proof (induction p b i c rule: command_loop.induct)
  case (1 p b i c)
  show ?case
  proof (cases "isalpha (p (int i))")
    case True
    with "1.prems" have "i \<noteq> k" by auto
    then show ?thesis using "1.IH" "1.prems" True by (auto simp: command_loop.simps [of p b i])
  next
    case False
    then show ?thesis using "1.prems" by (simp add: command_loop.simps [of p b i])
  qed
qed

lemma skip_spaces_within:
  assumes "\<exists>j. i \<le> j \<and> j < 128 \<and> p (int j) \<noteq> CHR '' ''"
  obtains m where "i \<le> m" and "m < 128" and "p (int m) \<noteq> CHR '' ''"
    and "\<And>k. i \<le> k \<Longrightarrow> k < m \<Longrightarrow> p (int k) = CHR '' ''"
    and "\<And>q. (\<And>k. k \<le> m \<Longrightarrow> q (int k) = p (int k)) \<Longrightarrow> skip_spaces q 256 (of_nat i) = Some (of_nat m)"
proof -
  let ?Q = "\<lambda>j. i \<le> j \<and> j < 128 \<and> p (int j) \<noteq> CHR '' ''"
  define m where "m = (LEAST j. ?Q j)"
  from assms have Q: "?Q m" unfolding m_def by (rule LeastI_ex)
  have before: "p (int k) = CHR '' ''" if "i \<le> k" "k < m" for k
    using not_less_Least [of k ?Q] that Q unfolding m_def by auto
  have "skip_spaces q 256 (of_nat i) = Some (of_nat m)" if q: "\<And>k. k \<le> m \<Longrightarrow> q (int k) = p (int k)" for q
  proof -
    have idx: "sint (of_nat i + of_nat k :: u8) = int (i + k)" if "i + k \<le> m" for k
      using sint_small [of "i + k"] that Q by simp
    have "skip_spaces q 256 (of_nat i) = Some (of_nat i + of_nat (m - i))"
    proof (rule skip_spaces_first)
      show "q (sint (of_nat i + of_nat (m - i) :: u8)) \<noteq> CHR '' ''"
        using Q q [of m] idx [of "m - i"] by simp
      show "q (sint (of_nat i + of_nat k :: u8)) = CHR '' ''" if "k < m - i" for k
        using Q q [of "i + k"] idx [of k] before [of "i + k"] that by simp
    qed (use Q in linarith)
    then show ?thesis using Q by (simp add: of_nat_diff)
  qed
  then show ?thesis using that Q before by blast
qed

lemma param_length_within:
  assumes "i \<le> k" and "k < b" and "p (int k) \<in> {CR, LF}"
  obtains n where "i + n \<le> k"
    and "\<And>q. (\<And>j. j \<le> k \<Longrightarrow> q (int j) = p (int j)) \<Longrightarrow> param_length q b (int i) 0 = n"
proof -
  let ?Q = "\<lambda>n. p (int (i + n)) \<in> {CR, LF}"
  define n where "n = (LEAST n. ?Q n)"
  have w: "?Q (k - i)" using assms by simp
  have Q: "?Q n" unfolding n_def by (rule LeastI) (rule w)
  have "n \<le> k - i" unfolding n_def by (rule Least_le) (rule w)
  then have le: "i + n \<le> k" using assms(1) by simp
  have before: "\<not> ?Q j" if "j < n" for j using not_less_Least that unfolding n_def by blast
  have "param_length q b (int i) 0 = n" if q: "\<And>j. j \<le> k \<Longrightarrow> q (int j) = p (int j)" for q
  proof (rule param_length_eq)
    show "q (int i + int j) \<noteq> LF \<and> q (int i + int j) \<noteq> CR \<and> int i + int j < int b" if "j < n" for j
      using before [OF that] q [of "i + j"] that le assms(2) by auto
    show "q (int i + int n) = LF \<or> q (int i + int n) = CR \<or> int b \<le> int i + int n"
      using Q q [of "i + n"] le by auto
  qed simp
  then show ?thesis using that le by blast
qed

lemma parse_payload_local:
  assumes same: "same_payload nb nb'" and tm: "terminated_at nb k"
    and short: "k < 128 \<or> (\<exists>j\<in>{4..<128}. nb_mem nb (int j) \<noteq> CHR '' '')"
  shows "parse_payload nb = parse_payload nb' \<and> parse_payload nb \<noteq> None"
proof -
  let ?p = "nb_mem nb" and ?q = "nb_mem nb'" and ?b = "unat (nb_len nb)"
  have len: "unat (nb_len nb') = ?b" using same by (simp add: same_payload_def)
  have agree: "?q (int j) = ?p (int j)" if "j < ?b" for j
    using same that by (simp add: same_payload_def)
  have k: "k < ?b" "?p (int k) \<in> {CR, LF}" using tm by (auto simp: terminated_at_def)
  obtain i c where cl: "command_loop ?p ?b 0 [] = (i, c)" by fastforce
  have cl': "command_loop ?q ?b 0 [] = (i, c)"
    using command_loop_cong [of 0 ?b ?p ?q "[]"] agree k(1) cl by simp
  have "\<not> isalpha (?p (int k))" using k(2) by (auto simp: isalpha_def)
  then have ik: "i \<le> k" using command_loop_stops [of 0 k ?p ?b "[]"] cl by simp
  have i4: "i \<le> 4" using command_loop_length [OF _ _ cl] by (simp add: FTP_CMD_SIZE_def)
  show ?thesis
  proof (cases "?p (int i) = CHR '' ''")
    case False
    then show ?thesis
      using cl cl' k(1) agree ik len by (auto simp: parse_payload_def Let_def)
  next
    case True
    have "\<exists>j. i \<le> j \<and> j < 128 \<and> ?p (int j) \<noteq> CHR '' ''"
    proof (cases "k < 128")
      case True
      then show ?thesis using ik k(2) by (intro exI [of _ k]) auto
    next
      case False
      then show ?thesis using short i4 le_trans by fastforce
    qed
    then obtain m where m: "i \<le> m" "m < 128" "?p (int m) \<noteq> CHR '' ''"
      "\<And>j. i \<le> j \<Longrightarrow> j < m \<Longrightarrow> ?p (int j) = CHR '' ''"
      and skip: "\<And>q. (\<And>j. j \<le> m \<Longrightarrow> q (int j) = ?p (int j)) \<Longrightarrow> skip_spaces q 256 (of_nat i) = Some (of_nat m)"
      by (rule skip_spaces_within) blast
    have mk: "m \<le> k" using m(4) [of k] ik k(2) by (cases "m \<le> k") auto
    obtain n where n: "m + n \<le> k"
      and plen: "\<And>q. (\<And>j. j \<le> k \<Longrightarrow> q (int j) = ?p (int j)) \<Longrightarrow> param_length q ?b (int m) 0 = n"
      using param_length_within [where p = ?p, OF mk k(1) k(2)] by blast
    have sp: "skip_spaces ?p 256 (of_nat i) = Some (of_nat m)" by (rule skip) simp
    have sq: "skip_spaces ?q 256 (of_nat i) = Some (of_nat m)" using mk k(1) agree by (intro skip) simp
    have pp: "param_length ?p ?b (int m) 0 = n" by (rule plen) simp
    have pq: "param_length ?q ?b (int m) 0 = n" using k(1) agree by (intro plen) simp
    have bytes: "map (\<lambda>j. ?q (int m + int j)) [0..<n] = map (\<lambda>j. ?p (int m + int j)) [0..<n]"
      using n k(1) agree [of "m + j" for j] by simp
    let ?R = "\<lambda>bs. if n + 1 \<ge> FTP_PARAM_SIZE then Some (- 1, c, zero_params)
      else Some (int n, c, strncpy_pad n bs @ replicate (FTP_PARAM_SIZE - n) NUL)"
    have "parse_payload nb' = ?R (map (\<lambda>j. ?q (int m + int j)) [0..<n])"
      using True cl' sq pq k(1) agree [of i] ik len sint_small [OF m(2)]
      by (simp add: parse_payload_def Let_def)
    then have "parse_payload nb' = ?R (map (\<lambda>j. ?p (int m + int j)) [0..<n])"
      by (simp only: bytes)
    moreover have "parse_payload nb = ?R (map (\<lambda>j. ?p (int m + int j)) [0..<n])"
      using True cl sp pp k(1) sint_small [OF m(2)] by (simp add: parse_payload_def Let_def)
    ultimately show ?thesis by simp
  qed
qed

text \<open>With more than 127 spaces the \<open>int8_t\<close> index wraps round to -128.\<close>

lemma parse_payload_wraps:
  assumes pl: "payload_is nb (cmd @ replicate n (CHR '' '') @ rest)" and w: "word_ok cmd"
    and n: "128 \<le> length cmd + n" and m: "nb_mem nb (- 128) \<noteq> CHR '' ''"
  shows "parse_payload nb =
     (let ret = param_length (nb_mem nb) (unat (nb_len nb)) (- 128) 0
      in if ret + 1 \<ge> FTP_PARAM_SIZE then Some (- 1, cmd, zero_params)
         else Some (int ret, cmd,
           strncpy_pad ret (map (\<lambda>k. nb_mem nb (- 128 + int k)) [0..<ret])
             @ replicate (FTP_PARAM_SIZE - ret) NUL))"
proof -
  let ?p = "nb_mem nb" and ?l = "length cmd"
  have l: "?l < 5" using w by (simp add: word_ok_def FTP_CMD_SIZE_def)
  then obtain n' where n': "n = Suc n'" using n by (cases n) auto
  have word: "command_loop ?p (unat (nb_len nb)) 0 [] = (?l, cmd)"
    using pl w by (intro command_loop_line [where x = "CHR '' ''" and rest = "replicate n' (CHR '' '') @ rest"])
      (simp_all add: isalpha_def n')
  have sp: "?p (int (?l + k)) = CHR '' ''" if "k < n" for k
    using that payload_nth [OF pl, of "?l + k"] by (simp add: nth_append)
  have idx: "sint (of_nat ?l + of_nat k :: u8) = int (?l + k)" if "?l + k < 128" for k
    using sint_small [OF that] by simp
  have top: "of_nat ?l + of_nat (128 - ?l) = (128 :: u8)" using l by (simp add: of_nat_diff)
  have "skip_spaces ?p 256 (of_nat ?l) = Some (of_nat ?l + of_nat (128 - ?l))"
  proof (rule skip_spaces_first)
    show "?p (sint (of_nat ?l + of_nat (128 - ?l) :: u8)) \<noteq> CHR '' ''"
      unfolding top using m by simp
    show "?p (sint (of_nat ?l + of_nat k :: u8)) = CHR '' ''" if "k < 128 - ?l" for k
      using sp [of k] idx [of k] that n by simp
  qed simp
  then have "skip_spaces ?p 256 (of_nat ?l) = Some 128" unfolding top .
  moreover have "unat (nb_len nb) \<noteq> 0" using pl n' by (simp add: payload_is_def)
  ultimately show ?thesis
    using word sp [of 0] n' by (simp add: parse_payload_def Let_def)
qed

end
