(* ===== verification/FtpConn.thy ===== *)
theory FtpConn
  imports FtpParse FtpTime
begin

text \<open>
  The data connections of a session: the netconn calls, \<open>pasv_con_open\<close>, \<open>pasv_con_close\<close>,
  \<open>data_con_open\<close> and \<open>data_con_close\<close> of \<open>ftp_server.c\<close>. The lemmas are about ownership:
  every connection that is used or deleted is open at that moment (\<open>conn_safe\<close>), and the open
  ones are exactly those the session still points to (\<open>conns\<close>).
\<close>

section \<open>The netconn calls\<close>

definition netconn_new :: "env \<Rightarrow> sess \<Rightarrow> nat option \<times> sess" where
  "netconn_new e s =
     (if e_new e (tr s) then (Some (length (tr s)), log_event (ConnNew (length (tr s))) s)
      else (None, log_event ConnNewFailed s))"

definition netconn_bind :: "env \<Rightarrow> nat \<Rightarrow> u16 \<Rightarrow> sess \<Rightarrow> int \<times> sess" where
  "netconn_bind e c port s = (let t = ConnBind c port # tr s in (e_bind e t, s\<lparr>tr := t\<rparr>))"

definition netconn_listen :: "env \<Rightarrow> nat \<Rightarrow> sess \<Rightarrow> int \<times> sess" where
  "netconn_listen e c s = (let t = ConnListen c # tr s in (e_listen e t, s\<lparr>tr := t\<rparr>))"

definition netconn_connect :: "env \<Rightarrow> nat \<Rightarrow> u32 \<Rightarrow> u16 \<Rightarrow> sess \<Rightarrow> int \<times> sess" where
  "netconn_connect e c ip port s =
     (let t = ConnConnect c ip port # tr s in (e_connect e t, s\<lparr>tr := t\<rparr>))"

definition netconn_accept :: "env \<Rightarrow> nat \<Rightarrow> sess \<Rightarrow> int \<times> nat option \<times> sess" where
  \<comment> \<open>sets \<open>*new_conn\<close> to NULL first, and to the new connection when it succeeds\<close>
  "netconn_accept e c s =
     (let r = e_accept e (tr s); n = length (tr s)
      in if r = ERR_OK then (r, Some n, log_event (ConnAccept c n) s)
         else (r, None, log_event (ConnAcceptFailed c) s))"

definition netconn_set_recvtimeout :: "nat \<Rightarrow> nat \<Rightarrow> sess \<Rightarrow> sess" where
  "netconn_set_recvtimeout c ms s = log_event (ConnTimeout c ms) s"

definition netconn_close :: "nat \<Rightarrow> sess \<Rightarrow> sess" where
  "netconn_close c s = log_event (ConnClose c) s"

definition netconn_delete :: "nat \<Rightarrow> sess \<Rightarrow> sess" where
  "netconn_delete c s = log_event (ConnDelete c) s"

lemmas netconn_defs =
  netconn_new_def netconn_bind_def netconn_listen_def netconn_connect_def netconn_accept_def
  netconn_set_recvtimeout_def netconn_close_def netconn_delete_def log_event_def

section \<open>Data connections\<close>

definition pasv_con_open :: "env \<Rightarrow> sess \<Rightarrow> int \<times> sess" where
  "pasv_con_open e s =
     (if listdataconn s \<noteq> None then (0, s)
      else case netconn_new e s of
        (None, s) \<Rightarrow> (- 1, s\<lparr>listdataconn := None\<rparr>)
      | (Some c, s) \<Rightarrow>
          let s = s\<lparr>listdataconn := Some c\<rparr>;
              (err, s) = netconn_bind e c (data_port s) s
          in if err \<noteq> ERR_OK then (- 1, s)
             else let s = netconn_set_recvtimeout c 5000 s;
                      (err, s) = netconn_listen e c s
                  in if err \<noteq> ERR_OK then (- 1, s) else (0, s))"

definition pasv_con_close :: "sess \<Rightarrow> sess" where
  "pasv_con_close s =
     (let s = s\<lparr>data_conn_mode := DCM_NOT_SET\<rparr>
      in case listdataconn s of None \<Rightarrow> s
         | Some c \<Rightarrow> (netconn_delete c (netconn_close c s))\<lparr>listdataconn := None\<rparr>)"

definition data_con_open :: "env \<Rightarrow> sess \<Rightarrow> int \<times> sess" where
  "data_con_open e s =
     (if data_conn_mode s = DCM_NOT_SET then (- 1, s)
      else if data_conn_mode s = DCM_PASSIVE then
        (case listdataconn s of None \<Rightarrow> (- 1, s)
         | Some l \<Rightarrow>
             let s = netconn_set_recvtimeout l 500 s;
                 (err, d, s) = netconn_accept e l s;
                 s = s\<lparr>dataconn := d\<rparr>
             in if err \<noteq> ERR_OK then (- 1, s) else (0, s))
      else
        (case netconn_new e s of
           (None, s) \<Rightarrow> (- 1, s\<lparr>dataconn := None\<rparr>)
         | (Some c, s) \<Rightarrow>
             let s = s\<lparr>dataconn := Some c\<rparr>;
                 (err, s) = netconn_bind e c 0 s
             in if err \<noteq> ERR_OK then (- 1, (netconn_delete c s)\<lparr>dataconn := None\<rparr>)
                else let (err, s) = netconn_connect e c (ipclient s) (data_port s) s
                     in if err \<noteq> ERR_OK then (- 1, (netconn_delete c s)\<lparr>dataconn := None\<rparr>)
                        else (0, s)))"

definition data_con_close :: "sess \<Rightarrow> sess" where
  "data_con_close s =
     (let s = s\<lparr>data_conn_mode := DCM_NOT_SET\<rparr>
      in case dataconn s of None \<Rightarrow> s
         | Some c \<Rightarrow> (netconn_delete c (netconn_close c s))\<lparr>dataconn := None\<rparr>)"

section \<open>Ownership\<close>

fun conn_uses :: "event \<Rightarrow> nat set" where
  "conn_uses (ConnAccept l n) = {l}"
| "conn_uses (ConnAcceptFailed l) = {l}"
| "conn_uses (ConnBind n p) = {n}"
| "conn_uses (ConnTimeout n ms) = {n}"
| "conn_uses (ConnListen n) = {n}"
| "conn_uses (ConnConnect n i p) = {n}"
| "conn_uses (ConnClose n) = {n}"
| "conn_uses (ConnDelete n) = {n}"
| "conn_uses (DataWrite n b) = {n}"
| "conn_uses (DataRecv n) = {n}"
| "conn_uses _ = {}"

fun conn_makes :: "event \<Rightarrow> nat set" where
  "conn_makes (ConnNew n) = {n}"
| "conn_makes (ConnAccept l n) = {n}"
| "conn_makes _ = {}"

fun conn_safe :: "trace \<Rightarrow> bool" where
  "conn_safe [] = True"
| "conn_safe (ev # t) = (conn_safe t \<and> conn_uses ev \<subseteq> live t \<and> conn_makes ev \<inter> live t = {})"

definition owned :: "nat option \<Rightarrow> nat option \<Rightarrow> nat set" where
  "owned l d = set_option l \<union> set_option d"

definition conns :: "nat set \<Rightarrow> nat option \<Rightarrow> nat option \<Rightarrow> trace \<Rightarrow> bool" where
  \<comment> \<open>\<open>B\<close>: the connections that belong to others; \<open>l\<close>, \<open>d\<close>: the session's two pointers\<close>
  "conns B l d t \<longleftrightarrow> conn_safe t \<and> live t = B \<union> owned l d \<and> B \<inter> owned l d = {}
     \<and> (l \<noteq> None \<longrightarrow> l \<noteq> d) \<and> (\<forall>n \<in> live t. n < length t)"

abbreviation conns_of :: "nat set \<Rightarrow> sess \<Rightarrow> bool" where
  "conns_of B s \<equiv> conns B (listdataconn s) (dataconn s) (tr s)"

lemma live_neutral:
  "conn_makes ev = {} \<Longrightarrow> (\<And>n. ev \<noteq> ConnDelete n) \<Longrightarrow> live (ev # t) = live t"
  by (cases ev) auto

lemma conns_neutral:
  assumes "conns B l d t" and "conn_makes ev = {}" and "\<And>n. ev \<noteq> ConnDelete n"
    and "conn_uses ev \<subseteq> B \<union> owned l d"
  shows "conns B l d (ev # t)"
  using assms live_neutral [OF assms(2,3), of t] by (auto simp: conns_def less_Suc_eq)

lemma conns_plain [intro]:
  "conns B l d t \<Longrightarrow> conn_makes ev = {} \<Longrightarrow> conn_uses ev = {} \<Longrightarrow> conns B l d (ev # t)"
  by (rule conns_neutral) auto

lemma conns_diag_err [intro]: "conns B l d t \<Longrightarrow> conns B l d (diag_err r m t)"
  by (auto simp: diag_err_def)

lemma conns_listen_new: "conns B None d t \<Longrightarrow> conns B (Some (length t)) d (ConnNew (length t) # t)"
  by (auto simp: conns_def owned_def intro: less_SucI)

lemma conns_data_new: "conns B l None t \<Longrightarrow> conns B l (Some (length t)) (ConnNew (length t) # t)"
  by (auto simp: conns_def owned_def intro: less_SucI)

lemma conns_data_accept:
  "conns B (Some l) None t \<Longrightarrow>
   conns B (Some l) (Some (length t)) (ConnAccept l (length t) # t)"
  by (auto simp: conns_def owned_def intro: less_SucI)

lemma conns_listen_delete: "conns B (Some c) d t \<Longrightarrow> conns B None d (ConnDelete c # t)"
  by (auto simp: conns_def owned_def less_Suc_eq)

lemma conns_data_delete: "conns B l (Some c) t \<Longrightarrow> conns B l None (ConnDelete c # t)"
  by (auto simp: conns_def owned_def less_Suc_eq)

lemma conns_use:
  "conns B l d t \<Longrightarrow> conn_makes ev = {} \<Longrightarrow> (\<And>n. ev \<noteq> ConnDelete n) \<Longrightarrow>
   conn_uses ev \<subseteq> B \<union> owned l d \<Longrightarrow> conns B l d (ev # t)"
  by (rule conns_neutral)

section \<open>What the four operations do\<close>

lemma conns_listdata_open:
  assumes "conns B None d t"
  shows "conns B (Some (length t)) d (ConnBind (length t) p # ConnNew (length t) # t)"
    and "conns B (Some (length t)) d
      (ConnListen (length t) # ConnTimeout (length t) ms # ConnBind (length t) p # ConnNew (length t) # t)"
  using conns_listen_new [OF assms] by (auto intro!: conns_use simp: owned_def)

lemma pasv_con_open_conns:
  assumes "conns_of B s" and "pasv_con_open e s = (r, s')"
  shows "conns_of B s' \<and> dataconn s' = dataconn s \<and> (r = 0 \<longrightarrow> listdataconn s' \<noteq> None)
    \<and> (r = 0 \<or> r = - 1)"
proof (cases "listdataconn s")
  case (Some c)
  then show ?thesis using assms by (auto simp: pasv_con_open_def)
next
  case None
  then have "conns B None (dataconn s) (tr s)" using assms(1) by simp
  note new = conns_listdata_open [OF this]
  show ?thesis using assms None new
    by (auto simp: pasv_con_open_def netconn_defs Let_def conns_plain split: if_splits)
qed

lemma pasv_con_close_conns:
  assumes "conns_of B s"
  shows "conns_of B (pasv_con_close s)"
proof (cases "listdataconn s")
  case None
  then show ?thesis using assms by (simp add: pasv_con_close_def Let_def)
next
  case (Some c)
  then have "conns B (Some c) (dataconn s) (ConnClose c # tr s)"
    using assms by (intro conns_use) (auto simp: owned_def)
  then show ?thesis
    using Some conns_listen_delete by (simp add: pasv_con_close_def netconn_defs Let_def)
qed

lemma data_con_close_conns:
  assumes "conns_of B s"
  shows "conns_of B (data_con_close s)"
proof (cases "dataconn s")
  case None
  then show ?thesis using assms by (simp add: data_con_close_def Let_def)
next
  case (Some c)
  then have "conns B (listdataconn s) (Some c) (ConnClose c # tr s)"
    using assms by (intro conns_use) (auto simp: owned_def)
  then show ?thesis
    using Some conns_data_delete by (simp add: data_con_close_def netconn_defs Let_def)
qed

lemma data_con_close_closes [simp]:
  "dataconn (data_con_close s) = None" "data_conn_mode (data_con_close s) = DCM_NOT_SET"
  "listdataconn (data_con_close s) = listdataconn s"
  by (auto simp: data_con_close_def netconn_defs Let_def split: option.splits)

lemma pasv_con_close_closes [simp]:
  "listdataconn (pasv_con_close s) = None" "data_conn_mode (pasv_con_close s) = DCM_NOT_SET"
  "dataconn (pasv_con_close s) = dataconn s"
  by (auto simp: pasv_con_close_def netconn_defs Let_def split: option.splits)

text \<open>Opening a data connection either yields one or leaves the session without one.\<close>

lemma conns_active_open:
  assumes "conns B l None t"
  defines "n \<equiv> length t"
  shows "conns B l (Some n) (ConnConnect n i q # ConnBind n p # ConnNew n # t)"
    and "conns B l None (ConnDelete n # ConnBind n p # ConnNew n # t)"
    and "conns B l None (ConnDelete n # ConnConnect n i q # ConnBind n p # ConnNew n # t)"
proof -
  have b: "conns B l (Some n) (ConnBind n p # ConnNew n # t)"
    using conns_data_new [OF assms(1)] unfolding n_def by (auto intro!: conns_use simp: owned_def)
  then show c: "conns B l (Some n) (ConnConnect n i q # ConnBind n p # ConnNew n # t)"
    by (auto intro!: conns_use simp: owned_def)
  show "conns B l None (ConnDelete n # ConnBind n p # ConnNew n # t)"
    by (rule conns_data_delete) (rule b)
  show "conns B l None (ConnDelete n # ConnConnect n i q # ConnBind n p # ConnNew n # t)"
    by (rule conns_data_delete) (rule c)
qed

lemma conns_passive_open:
  assumes "conns B (Some l) None t"
  shows "conns B (Some l) None (ConnTimeout l ms # t)"
    and "conns B (Some l) (Some (Suc (length t))) (ConnAccept l (Suc (length t)) # ConnTimeout l ms # t)"
    and "conns B (Some l) None (ConnAcceptFailed l # ConnTimeout l ms # t)"
proof -
  show a: "conns B (Some l) None (ConnTimeout l ms # t)"
    using assms by (auto intro!: conns_use simp: owned_def)
  show "conns B (Some l) (Some (Suc (length t))) (ConnAccept l (Suc (length t)) # ConnTimeout l ms # t)"
    using conns_data_accept [OF a] by simp
  show "conns B (Some l) None (ConnAcceptFailed l # ConnTimeout l ms # t)"
    using a by (auto intro!: conns_use simp: owned_def)
qed

lemma data_con_open_conns:
  assumes "conns_of B s" and "dataconn s = None" and "data_con_open e s = (r, s')"
  shows "conns_of B s' \<and> (r = 0 \<longleftrightarrow> dataconn s' \<noteq> None) \<and> (r = 0 \<or> r = - 1)
    \<and> listdataconn s' = listdataconn s"
proof -
  have base: "conns B (listdataconn s) None (tr s)" using assms(1,2) by simp
  consider (notset) "data_conn_mode s = DCM_NOT_SET" | (pasv) "data_conn_mode s = DCM_PASSIVE"
    | (actv) "data_conn_mode s = DCM_ACTIVE" by (cases "data_conn_mode s") auto
  then show ?thesis
  proof cases
    case notset
    then show ?thesis using assms by (simp add: data_con_open_def)
  next
    case pasv
    then show ?thesis
      using assms conns_passive_open [of B _ "tr s" 500] base
      by (auto simp: data_con_open_def netconn_defs Let_def split: option.splits if_splits)
  next
    case actv
    then show ?thesis
      using assms conns_active_open [OF base] base
      by (auto simp: data_con_open_def netconn_defs Let_def conns_plain split: if_splits)
  qed
qed

text \<open>The remaining fields of the session are not touched.\<close>

lemma pasv_con_open_frame:
  "pasv_con_open e s = (r, s') \<Longrightarrow>
     path s' = path s \<and> path_rename s' = path_rename s \<and> parameters s' = parameters s
     \<and> user s' = user s \<and> ctrlconn s' = ctrlconn s \<and> (\<exists>es. tr s' = es @ tr s \<and> CtrlRecv \<notin> set es)"
  by (auto simp: pasv_con_open_def netconn_defs Let_def split: if_splits)

lemma data_con_open_frame:
  "data_con_open e s = (r, s') \<Longrightarrow>
     path s' = path s \<and> path_rename s' = path_rename s \<and> parameters s' = parameters s
     \<and> user s' = user s \<and> ctrlconn s' = ctrlconn s \<and> (\<exists>es. tr s' = es @ tr s \<and> CtrlRecv \<notin> set es)"
  by (auto simp: data_con_open_def netconn_defs Let_def split: if_splits option.splits)

lemma data_con_close_frame [simp]:
  "path (data_con_close s) = path s" "path_rename (data_con_close s) = path_rename s"
  "parameters (data_con_close s) = parameters s" "user (data_con_close s) = user s"
  "ctrlconn (data_con_close s) = ctrlconn s"
  by (auto simp: data_con_close_def netconn_defs Let_def split: option.splits)

lemma pasv_con_close_frame [simp]:
  "path (pasv_con_close s) = path s" "path_rename (pasv_con_close s) = path_rename s"
  "parameters (pasv_con_close s) = parameters s" "user (pasv_con_close s) = user s"
  "ctrlconn (pasv_con_close s) = ctrlconn s"
  by (auto simp: pasv_con_close_def netconn_defs Let_def split: option.splits)

end
