(* ===== verification/FtpSess.thy ===== *)
theory FtpSess
  imports FtpConn
begin

text \<open>
  The invariant of an FTP session and the interface of its commands. A command is a function
  \<open>env \<Rightarrow> sess \<Rightarrow> sess option\<close>, where \<open>None\<close> means that the code runs into undefined behaviour or
  does not return. The locale \<open>session_command\<close> says what every handler keeps;
  \<open>gated_command\<close> adds that it does nothing at all before the login.
\<close>

section \<open>The session invariant\<close>

definition sess_core :: "nat set \<Rightarrow> sess \<Rightarrow> bool" where
  "sess_core B s \<longleftrightarrow> path_ok (path s) \<and> (path_rename s = [] \<or> path_ok (path_rename s))
     \<and> param_ok (param s) \<and> length (parameters s) = FTP_PARAM_SIZE
     \<and> conns_of B s \<and> ctrlconn s \<in> B"

definition sess_ok :: "nat set \<Rightarrow> sess \<Rightarrow> bool" where
  "sess_ok B s \<longleftrightarrow> sess_core B s \<and> dataconn s = None"

definition extends :: "sess \<Rightarrow> sess \<Rightarrow> bool" where
  \<comment> \<open>only new events, and no further command was received\<close>
  "extends s s' \<longleftrightarrow> (\<exists>es. tr s' = es @ tr s \<and> CtrlRecv \<notin> set es)"

lemma extends_refl [simp, intro]: "extends s s"
  by (simp add: extends_def)

lemma extends_trans [trans]:
  assumes "extends s s'" and "extends s' s''"
  shows "extends s s''"
proof -
  from assms obtain es fs where "tr s' = es @ tr s" "CtrlRecv \<notin> set es" "tr s'' = fs @ tr s'"
    "CtrlRecv \<notin> set fs" by (auto simp: extends_def)
  then have "tr s'' = (fs @ es) @ tr s" "CtrlRecv \<notin> set (fs @ es)" by simp_all
  then show ?thesis unfolding extends_def by blast
qed

lemma extends_data [simp]:
  "extends s (s'\<lparr>path := p\<rparr>) = extends s s'" "extends s (s'\<lparr>path_rename := p\<rparr>) = extends s s'"
  "extends s (s'\<lparr>finfo := fi\<rparr>) = extends s s'" "extends s (s'\<lparr>user := u\<rparr>) = extends s s'"
  "extends s (s'\<lparr>data_port := dp\<rparr>) = extends s s'" "extends s (s'\<lparr>ipclient := ip\<rparr>) = extends s s'"
  "extends s (s'\<lparr>data_conn_mode := m\<rparr>) = extends s s'"
  "extends s (s'\<lparr>parameters := a\<rparr>) = extends s s'" "extends s (s'\<lparr>command := c\<rparr>) = extends s s'"
  by (simp_all add: extends_def)

section \<open>The external calls keep the session\<close>

lemma param_simps [simp]:
  "param (s\<lparr>path := p\<rparr>) = param s" "param (s\<lparr>path_rename := p\<rparr>) = param s"
  "param (s\<lparr>finfo := fi\<rparr>) = param s" "param (s\<lparr>user := u\<rparr>) = param s"
  "param (s\<lparr>data_port := dp\<rparr>) = param s" "param (s\<lparr>ipclient := ip\<rparr>) = param s"
  "param (s\<lparr>data_conn_mode := m\<rparr>) = param s"
  "param (s\<lparr>tr := t\<rparr>) = param s" "param (s\<lparr>dataconn := d\<rparr>) = param s"
  by (simp_all add: param_def)

definition same_data :: "sess \<Rightarrow> sess \<Rightarrow> bool" where
  \<comment> \<open>only \<open>finfo\<close> and the trace differ\<close>
  "same_data s s' \<longleftrightarrow> s'\<lparr>finfo := finfo s, tr := tr s\<rparr> = s"

lemma same_data_iff:
  "same_data s s' \<longleftrightarrow> (\<exists>fi t. s' = s\<lparr>finfo := fi, tr := t\<rparr>)"
proof
  assume a: "same_data s s'"
  have "s' = s'\<lparr>finfo := finfo s, tr := tr s\<rparr>\<lparr>finfo := finfo s', tr := tr s'\<rparr>" by simp
  also have "\<dots> = s\<lparr>finfo := finfo s', tr := tr s'\<rparr>" using a by (simp add: same_data_def)
  finally show "\<exists>fi t. s' = s\<lparr>finfo := fi, tr := t\<rparr>" by blast
qed (auto simp: same_data_def)

definition neutral :: "event \<Rightarrow> bool" where
  "neutral ev \<longleftrightarrow> conn_makes ev = {} \<and> conn_uses ev = {} \<and> ev \<noteq> CtrlRecv"

lemma conns_neutral_append:
  "\<forall>ev \<in> set es. neutral ev \<Longrightarrow> conns B l d t \<Longrightarrow> conns B l d (es @ t)"
  by (induction es) (auto simp: neutral_def)

definition quiet_step :: "sess \<Rightarrow> sess \<Rightarrow> bool" where
  \<comment> \<open>a call that touches no connection: it changes \<open>finfo\<close> and adds neutral events\<close>
  "quiet_step s s' \<longleftrightarrow> same_data s s' \<and> (\<exists>es. tr s' = es @ tr s \<and> (\<forall>ev \<in> set es. neutral ev))"

lemma quiet_stepI:
  assumes "s' = s\<lparr>finfo := fi, tr := es @ tr s\<rparr>" and "\<forall>ev \<in> set es. neutral ev"
  shows "quiet_step s s'"
  using assms by (auto simp: quiet_step_def same_data_def)

lemma quiet_diag_err:
  assumes "neutral ev"
  shows "quiet_step s (s\<lparr>finfo := fi, tr := diag_err r m (ev # tr s)\<rparr>)"
  using assms
  by (intro quiet_stepI [where es = "(if r \<noteq> FR_OK then [Diag (''error '' @ dec r @ m)] else []) @ [ev]"])
    (auto simp: diag_err_def neutral_def)

lemma quiet_event: "neutral ev \<Longrightarrow> quiet_step s (s\<lparr>tr := ev # tr s\<rparr>)"
  by (rule quiet_stepI [where fi = "finfo s" and es = "[ev]"]) simp_all

lemma quiet_diag_err_tr: "neutral ev \<Longrightarrow> quiet_step s (s\<lparr>tr := diag_err r m (ev # tr s)\<rparr>)"
  using quiet_diag_err [where fi = "finfo s" and s = s and ev = ev and r = r and m = m] by simp

lemma neutral_calls [simp]:
  "neutral (CtrlWrite m)" "neutral (Diag m)" "neutral (FStat p)" "neutral (FOpendir p)"
  "neutral FReaddir" "neutral (FUnlink p)" "neutral (FOpen p md)" "neutral FSize" "neutral FClose"
  "neutral (FWrite bs)" "neutral (FRead n)" "neutral (FMkdir p)" "neutral (FRename p q)"
  "neutral (FGetfree p)" "neutral PbufFree" "neutral NetbufDelete"
  by (simp_all add: neutral_def)

lemma quiet_calls [simp]:
  "quiet_step s (ftp_send m s)"
  "quiet_step s (snd (ftps_f_stat e p s))" "quiet_step s (snd (ftps_f_opendir e p s))"
  "quiet_step s (snd (ftps_f_readdir e s))" "quiet_step s (snd (ftps_f_unlink e p s))"
  "quiet_step s (snd (ftps_f_open e p md s))" "quiet_step s (snd (ftps_f_size e s))"
  "quiet_step s (snd (ftps_f_close e s))" "quiet_step s (snd (ftps_f_write e bs s))"
  "quiet_step s (snd (ftps_f_read e n s))" "quiet_step s (snd (ftps_f_mkdir e p s))"
  "quiet_step s (snd (ftps_f_rename e p q s))" "quiet_step s (snd (ftps_f_utime e p fi s))"
  "quiet_step s (snd (ftps_f_getfree e p s))"
  unfolding file_defs ftp_send_def Let_def snd_conv
  by (simp_all add: quiet_diag_err quiet_diag_err_tr quiet_event)

lemma quiet_data:
  assumes "quiet_step s s'"
  shows "path s' = path s" "path_rename s' = path_rename s" "parameters s' = parameters s"
    "user s' = user s" "dataconn s' = dataconn s" "listdataconn s' = listdataconn s"
    "ctrlconn s' = ctrlconn s" "command s' = command s" "lfn s' = lfn s"
    "data_port s' = data_port s" "data_conn_mode s' = data_conn_mode s" "param s' = param s"
    "data_port_incremented s' = data_port_incremented s" "ftp_con_num s' = ftp_con_num s"
    "ipserver s' = ipserver s"
  using assms by (auto simp: quiet_step_def same_data_iff param_def)

lemma quiet_extends:
  assumes "quiet_step s s'" and "extends s0 s"
  shows "extends s0 s'"
proof -
  from assms(1) have "extends s s'" unfolding quiet_step_def extends_def neutral_def by blast
  with assms(2) show ?thesis by (rule extends_trans)
qed

lemma quiet_conns: "quiet_step s s' \<Longrightarrow> conns B l d (tr s) \<Longrightarrow> conns B l d (tr s')"
  unfolding quiet_step_def by (metis conns_neutral_append)

lemma quiet_sess_core: "quiet_step s s' \<Longrightarrow> sess_core B s \<Longrightarrow> sess_core B s'"
  unfolding sess_core_def using quiet_conns [of s s'] by (simp add: quiet_data)

lemmas quiet_call_data [simp, io_simps] = quiet_calls [THEN quiet_data(1)]
  quiet_calls [THEN quiet_data(2)] quiet_calls [THEN quiet_data(3)]
  quiet_calls [THEN quiet_data(4)] quiet_calls [THEN quiet_data(5)]
  quiet_calls [THEN quiet_data(6)] quiet_calls [THEN quiet_data(7)]
  quiet_calls [THEN quiet_data(8)] quiet_calls [THEN quiet_data(9)]
  quiet_calls [THEN quiet_data(10)] quiet_calls [THEN quiet_data(11)]
  quiet_calls [THEN quiet_data(12)] quiet_calls [THEN quiet_data(13)]
  quiet_calls [THEN quiet_data(14)] quiet_calls [THEN quiet_data(15)]

lemmas quiet_call_core [simp] = quiet_calls [THEN quiet_sess_core]
lemmas quiet_call_extends [simp] = quiet_calls [THEN quiet_extends]

section \<open>Updates of the data\<close>

lemma sess_core_updates [simp]:
  "sess_core B s \<Longrightarrow> path_ok p \<Longrightarrow> sess_core B (s\<lparr>path := p\<rparr>)"
  "sess_core B s \<Longrightarrow> path_ok p \<Longrightarrow> sess_core B (s\<lparr>path_rename := p\<rparr>)"
  "sess_core B s \<Longrightarrow> sess_core B (s\<lparr>user := u\<rparr>)"
  "sess_core B s \<Longrightarrow> sess_core B (s\<lparr>finfo := fi\<rparr>)"
  "sess_core B s \<Longrightarrow> sess_core B (s\<lparr>data_port := dp\<rparr>)"
  "sess_core B s \<Longrightarrow> sess_core B (s\<lparr>ipclient := ip\<rparr>)"
  "sess_core B s \<Longrightarrow> sess_core B (s\<lparr>data_conn_mode := m\<rparr>)"
  by (simp_all add: sess_core_def)

lemma sess_core_event [simp]:
  "sess_core B s \<Longrightarrow> neutral ev \<Longrightarrow> sess_core B (s\<lparr>tr := ev # tr s\<rparr>)"
  by (rule quiet_sess_core [OF quiet_event])

lemma extends_event [simp]:
  assumes "extends s0 s" and "ev \<noteq> CtrlRecv"
  shows "extends s0 (s\<lparr>tr := ev # tr s\<rparr>)"
proof -
  from assms(1) obtain es where "tr s = es @ tr s0" "CtrlRecv \<notin> set es" by (auto simp: extends_def)
  then have "ev # tr s = (ev # es) @ tr s0 \<and> CtrlRecv \<notin> set (ev # es)" using assms(2) by simp
  then show ?thesis unfolding extends_def by fastforce
qed

lemma sess_core_path [dest]: "sess_core B s \<Longrightarrow> path_ok (path s)"
  and sess_core_param [dest]: "sess_core B s \<Longrightarrow> param_ok (param s)"
  by (simp_all add: sess_core_def)

lemma sess_core_build:
  assumes "sess_core B s" and "path_build (path s) (param s) = Some (q, b)"
  shows "path_ok q" and "b" and "path_ok (path_up_a_level q)"
  using assms ftp_path.build_good [of "path s" "param s" q b] ftp_path.up_good [of q]
  by (auto simp: sess_core_def)

section \<open>The interface of a command\<close>

locale session_command =
  fixes cmd :: "env \<Rightarrow> sess \<Rightarrow> sess option"
  assumes keeps: "sess_ok B s \<Longrightarrow> cmd e s = Some s' \<Longrightarrow> sess_ok B s'"
    and grows: "sess_ok B s \<Longrightarrow> cmd e s = Some s' \<Longrightarrow> extends s s'"

locale gated_command = session_command +
  assumes gate: "\<not> logged_in s \<Longrightarrow> cmd e s = Some s"
    and login: "sess_ok B s \<Longrightarrow> cmd e s = Some s' \<Longrightarrow> user s' = user s"
begin

lemma silent_before_login:
  assumes "\<not> logged_in s" and "cmd e s = Some s'"
  shows "s' = s"
  using gate [OF assms(1)] assms(2) by simp

lemma keeps_login: "sess_ok B s \<Longrightarrow> cmd e s = Some s' \<Longrightarrow> logged_in s' = logged_in s"
  using login by (simp add: logged_in_def)

end

text \<open>What a handler must satisfy once the login has been checked.\<close>

definition handler_ok :: "nat set \<Rightarrow> sess \<Rightarrow> sess \<Rightarrow> bool" where
  "handler_ok B s s' \<longleftrightarrow> sess_ok B s' \<and> extends s s' \<and> user s' = user s"

lemma gated_commandI:
  assumes "\<And>e s. \<not> logged_in s \<Longrightarrow> cmd e s = Some s"
    and "\<And>B e s s'. sess_core B s \<Longrightarrow> dataconn s = None \<Longrightarrow> cmd e s = Some s' \<Longrightarrow> handler_ok B s s'"
  shows "gated_command cmd"
proof unfold_locales
  fix e s s' B
  assume "sess_ok B s" and "cmd e s = Some s'"
  then have "handler_ok B s s'" using assms(2) by (simp add: sess_ok_def)
  then show "sess_ok B s'" and "extends s s'" and "user s' = user s"
    by (simp_all add: handler_ok_def)
next
  fix e and s :: sess
  assume "\<not> logged_in s"
  then show "cmd e s = Some s" by (rule assms(1))
qed

end
