(* ===== verification/FtpCmds.thy ===== *)
theory FtpCmds
  imports FtpSess
begin

text \<open>
  The commands of \<open>ftp_server.c\<close> that transfer no data: directory, file and login commands.
  Each handler is the C function of the same name; \<open>None\<close> is undefined behaviour
  (\<open>path_build\<close> writing past the path array, \<open>SITE FREE\<close> reading what a failed \<open>f_getfree\<close> did
  not set). Every handler is an interpretation of \<open>session_command\<close>, and all but AUTH, USER and
  PASS of \<open>gated_command\<close>.
\<close>

definition quoted :: "string \<Rightarrow> string" where
  "quoted m = CHR 0x22 # m @ [CHR 0x22]"

definition reply :: "string \<Rightarrow> sess \<Rightarrow> sess" where
  \<comment> \<open>\<open>ftp_send\<close> with a format that ends in \<open>\r\n\<close>\<close>
  "reply m s = ftp_send (m @ crlf) s"

definition path_up :: "sess \<Rightarrow> sess" where
  \<comment> \<open>\<open>path_up_a_level(ftp->path)\<close>\<close>
  "path_up s = s\<lparr>path := path_up_a_level (path s)\<rparr>"

lemma reply_data [simp]:
  "path (reply m s) = path s" "path_rename (reply m s) = path_rename s"
  "parameters (reply m s) = parameters s" "user (reply m s) = user s"
  "dataconn (reply m s) = dataconn s" "listdataconn (reply m s) = listdataconn s"
  "ctrlconn (reply m s) = ctrlconn s" "command (reply m s) = command s"
  "param (reply m s) = param s" "lfn (reply m s) = lfn s" "data_port (reply m s) = data_port s"
  "data_conn_mode (reply m s) = data_conn_mode s" "ipserver (reply m s) = ipserver s"
  "finfo (reply m s) = finfo s"
  by (simp_all add: reply_def ftp_send_def param_def)

lemma reply_step [simp]:
  "sess_core B s \<Longrightarrow> sess_core B (reply m s)" "extends s0 s \<Longrightarrow> extends s0 (reply m s)"
  by (simp_all add: reply_def)

lemma path_up_data [simp]:
  "path (path_up s) = path_up_a_level (path s)" "path_rename (path_up s) = path_rename s"
  "parameters (path_up s) = parameters s" "user (path_up s) = user s"
  "dataconn (path_up s) = dataconn s" "listdataconn (path_up s) = listdataconn s"
  "param (path_up s) = param s" "tr (path_up s) = tr s" "lfn (path_up s) = lfn s"
  "data_port (path_up s) = data_port s" "data_conn_mode (path_up s) = data_conn_mode s"
  "finfo (path_up s) = finfo s" "command (path_up s) = command s"
  "extends s0 (path_up s) = extends s0 s"
  by (simp_all add: path_up_def param_def)

lemma path_up_core [simp]: "sess_core B s \<Longrightarrow> sess_core B (path_up s)"
  by (simp add: path_up_def sess_core_path ftp_path.up_good)

section \<open>Directories\<close>

definition ftp_cmd_pwd :: "env \<Rightarrow> sess \<Rightarrow> sess option" where
  "ftp_cmd_pwd e s =
     (if \<not> logged_in s then Some s
      else Some (reply (''257 '' @ quoted (path s) @ '' is your current directory'') s))"

definition ftp_cmd_cwd :: "env \<Rightarrow> sess \<Rightarrow> sess option" where
  "ftp_cmd_cwd e s =
     (if \<not> logged_in s then Some s
      else if param s = [] then Some (reply ''501 No directory name'' s)
      else do {
        (p, ok) \<leftarrow> path_build (path s) (param s);
        let s = s\<lparr>path := p\<rparr>;
        if \<not> ok then Some (reply ''500 Command line too long'' s)
        else
          let (res, s) = (if path s \<noteq> ''/'' then ftps_f_stat e (path s) s else (FR_OK, s))
          in if res \<noteq> FR_OK
             then Some (reply (''550 Failed to change directory to '' @ path s) s)
             else Some (reply ''250 Directory successfully changed.'' s)
      })"

definition ftp_cmd_cdup :: "env \<Rightarrow> sess \<Rightarrow> sess option" where
  "ftp_cmd_cdup e s =
     (if \<not> logged_in s then Some s
      else let s = s\<lparr>path := ''/''\<rparr>
           in Some (reply ''250 Directory successfully changed to root.'' s))"

definition ftp_cmd_mkd :: "env \<Rightarrow> sess \<Rightarrow> sess option" where
  "ftp_cmd_mkd e s =
     (if \<not> logged_in s then Some s
      else if param s = [] then Some (reply ''501 No directory name'' s)
      else do {
        (p, ok) \<leftarrow> path_build (path s) (param s);
        let s = s\<lparr>path := p\<rparr>;
        if \<not> ok then Some (reply ''500 Command line too long'' s)
        else
          let (res, s) = ftps_f_stat e (path s) s
          in if res = FR_OK
             then Some (reply (''521 '' @ quoted (param s) @ '' directory already exists'') (path_up s))
             else
               let (res, s) = ftps_f_mkdir e (path s) s
               in if res \<noteq> FR_OK
                  then Some (reply (''550 Can't create '' @ quoted (param s)) (path_up s))
                  else Some (reply (''257 '' @ quoted (param s) @ '' created'') s)
      })"

definition ftp_cmd_rmd :: "env \<Rightarrow> sess \<Rightarrow> sess option" where
  "ftp_cmd_rmd e s =
     (if \<not> logged_in s then Some s
      else if param s = [] then Some (reply ''501 No directory name'' s)
      else do {
        (p, ok) \<leftarrow> path_build (path s) (param s);
        let s = s\<lparr>path := p\<rparr>;
        if \<not> ok then Some (reply ''500 Command line too long'' s)
        else
          let (res, s) = ftps_f_stat e (path s) s
          in if res \<noteq> FR_OK
             then Some (reply (''550 Directory '' @ quoted (param s) @ '' not found'') (path_up s))
             else
               let (res, s) = ftps_f_unlink e (path s) s
               in if res \<noteq> FR_OK
                  then Some (reply (''501 Can't delete '' @ quoted (param s)) (path_up s))
                  else Some (path_up (reply (''250 '' @ quoted (param s) @ '' removed'') s))
      })"

section \<open>Modes\<close>

definition ftp_cmd_mode :: "env \<Rightarrow> sess \<Rightarrow> sess option" where
  "ftp_cmd_mode e s =
     (if \<not> logged_in s then Some s
      else if param s = ''S'' then Some (reply ''200 S Ok'' s)
      else Some (reply ''504 Only S(tream) is suported'' s))"

definition ftp_cmd_stru :: "env \<Rightarrow> sess \<Rightarrow> sess option" where
  "ftp_cmd_stru e s =
     (if \<not> logged_in s then Some s
      else if param s = ''F'' then Some (reply ''200 F Ok'' s)
      else Some (reply ''504 Only F(ile) is suported'' s))"

definition ftp_cmd_type :: "env \<Rightarrow> sess \<Rightarrow> sess option" where
  "ftp_cmd_type e s =
     (if \<not> logged_in s then Some s
      else if param s = ''A'' then Some (reply ''200 TYPE is now ASCII'' s)
      else if param s = ''I'' then Some (reply ''200 TYPE is now 8-bit binary'' s)
      else Some (reply ''504 Unknow TYPE'' s))"

section \<open>Files\<close>

definition ftp_cmd_dele :: "env \<Rightarrow> sess \<Rightarrow> sess option" where
  "ftp_cmd_dele e s =
     (if \<not> logged_in s then Some s
      else if param s = [] then Some (reply ''501 No file name'' s)
      else do {
        (p, ok) \<leftarrow> path_build (path s) (param s);
        let s = s\<lparr>path := p\<rparr>;
        if \<not> ok then Some (reply ''500 Command line too long'' s)
        else
          let (res, s) = ftps_f_stat e (path s) s
          in if res \<noteq> FR_OK
             then Some (reply (''550 file '' @ param s @ '' not found'') (path_up s))
             else
               let (res, s) = ftps_f_unlink e (path s) s
               in if res \<noteq> FR_OK
                  then Some (reply (''450 Can't delete '' @ param s) (path_up s))
                  else Some (path_up (reply (''250 Deleted '' @ param s) s))
      })"

definition ftp_cmd_noop :: "env \<Rightarrow> sess \<Rightarrow> sess option" where
  "ftp_cmd_noop e s = (if \<not> logged_in s then Some s else Some (reply ''200 Zzz...'' s))"

definition ftp_cmd_rnfr :: "env \<Rightarrow> sess \<Rightarrow> sess option" where
  "ftp_cmd_rnfr e s =
     (if \<not> logged_in s then Some s
      else if param s = [] then Some (reply ''501 No file name'' s)
      else do {
        let s = s\<lparr>path_rename := path s\<rparr>;
        (p, ok) \<leftarrow> path_build (path_rename s) (param s);
        let s = s\<lparr>path_rename := p\<rparr>;
        if \<not> ok then Some (reply ''500 Command line too long'' s)
        else
          let (res, s) = ftps_f_stat e (path_rename s) s
          in if res \<noteq> FR_OK
             then Some (reply (''550 file '' @ quoted (param s) @ '' not found'') s)
             else Some (reply ''350 RNFR accepted - file exists, ready for destination'' s)
      })"

definition ftp_cmd_rnto :: "env \<Rightarrow> sess \<Rightarrow> sess option" where
  "ftp_cmd_rnto e s =
     (if \<not> logged_in s then Some s
      else if param s = [] then Some (reply ''501 No file name'' s)
      else if path_rename s = [] then Some (reply ''503 Need RNFR before RNTO'' s)
      else do {
        (p, ok) \<leftarrow> path_build (path s) (param s);
        let s = s\<lparr>path := p\<rparr>;
        if \<not> ok then Some (reply ''500 Command line too long'' s)
        else
          let (res, s) = ftps_f_stat e (path s) s
          in if res = FR_OK
             then Some (path_up (reply (''553 '' @ quoted (param s) @ '' already exists'') s))
             else
               let (res, s) = ftps_f_rename e (path_rename s) (path s) s;
                   s = (if res \<noteq> FR_OK then reply ''451 Rename/move failure'' s
                        else reply ''250 File successfully renamed or moved'' s)
               in Some (path_up s)
      })"

definition ftp_cmd_feat :: "env \<Rightarrow> sess \<Rightarrow> sess option" where
  "ftp_cmd_feat e s =
     (if \<not> logged_in s then Some s
      else Some (reply (''211 Extensions supported:'' @ crlf @ '' MDTM'' @ crlf @ '' MLSD'' @ crlf
                        @ '' SIZE'' @ crlf @ '' SITE FREE'' @ crlf @ ''211 End.'') s))"

definition ftp_cmd_syst :: "env \<Rightarrow> sess \<Rightarrow> sess option" where
  "ftp_cmd_syst e s = (if \<not> logged_in s then Some s else Some (reply ''215 FTP Server, V1.0'' s))"

definition mdtm_file :: "env \<Rightarrow> string \<Rightarrow> nat \<Rightarrow> u16 \<Rightarrow> u16 \<Rightarrow> sess \<Rightarrow> sess option" where
  \<comment> \<open>the part of \<open>ftp_cmd_mdtm\<close> behind the test of the file name\<close>
  "mdtm_file e fnam gettime d t s =
     do {
       (p, ok) \<leftarrow> path_build (path s) fnam;
       let s = s\<lparr>path := p\<rparr>;
       if \<not> ok then Some (reply ''500 Command line too long'' s)
       else
         let (res, s) = ftps_f_stat e (path s) s
         in if res \<noteq> FR_OK
            then Some (reply (''550 file '' @ quoted (param s) @ '' not found'') (path_up s))
            else
              let s = path_up s
              in if gettime = 0
                 then Some (reply (''213 '' @ data_time_to_str (fdate (finfo s)) (ftime (finfo s))) s)
                 else
                   let s = s\<lparr>finfo := (finfo s)\<lparr>fdate := d, ftime := t\<rparr>\<rparr>;
                       (res, s) = ftps_f_utime e (path s) (finfo s) s
                   in if res = FR_OK then Some (reply ''200 Ok'' s)
                      else Some (reply ''550 Unable to modify time'' s)
     }"

definition ftp_cmd_mdtm :: "env \<Rightarrow> u16 \<Rightarrow> u16 \<Rightarrow> sess \<Rightarrow> sess option" where
  \<comment> \<open>\<open>d0\<close>, \<open>t0\<close>: what the uninitialised \<open>date\<close> and \<open>time\<close> hold. A 501 does not end the command.\<close>
  "ftp_cmd_mdtm e d0 t0 s =
     (if \<not> logged_in s then Some s
      else
        let (gettime, ps, d, t) = date_time_get (parameters s) d0 t0;
            s = s\<lparr>parameters := ps\<rparr>;
            fnam = cstr (drop gettime (parameters s));
            s = (if fnam = [] then reply ''501 No file name'' s else s)
        in mdtm_file e fnam gettime d t s)"

definition ftp_cmd_size :: "env \<Rightarrow> sess \<Rightarrow> sess option" where
  "ftp_cmd_size e s =
     (if \<not> logged_in s then Some s
      else if param s = [] then Some (reply ''501 No file name'' s)
      else do {
        (p, ok) \<leftarrow> path_build (path s) (param s);
        let s = s\<lparr>path := p\<rparr>;
        if \<not> ok then Some (reply ''500 Command line too long'' s)
        else
          let (res, s) = ftps_f_stat e (path s) s;
              s = (if res \<noteq> FR_OK \<or> fattrib (finfo s) AND AM_DIR \<noteq> 0
                   then reply ''550 No such file'' s
                   else snd (ftps_f_close e (reply (''213 '' @ dec (unat (fsize (finfo s)))) s)))
          in Some (path_up s)
      })"

definition ftp_cmd_site :: "env \<Rightarrow> sess \<Rightarrow> sess option" where
  "ftp_cmd_site e s =
     (if \<not> logged_in s then Some s
      else if param s = ''FREE'' then
        let ((res, free_clust, fs), s) = ftps_f_getfree e ''0:'' s
        in if res \<noteq> FR_OK then None
           else Some (reply (''211 '' @ dec (unat (drop_bit 11 (free_clust * ucast (csize fs))))
                       @ '' MB free of '' @ dec (unat (drop_bit 11 ((n_fatent fs - 2) * ucast (csize fs))))
                       @ '' MB capacity'') s)
      else Some (reply (''550 Unknown SITE command '' @ param s) s))"

definition ftp_cmd_stat :: "env \<Rightarrow> sess \<Rightarrow> sess option" where
  "ftp_cmd_stat e s =
     (if \<not> logged_in s then Some s
      else Some (reply (''221 FTP Server status: you will be disconnected after ''
                        @ dec (FTP_TIME_OUT_S div 60) @ '' minutes of inactivity'') s))"

section \<open>Login\<close>

definition ftp_cmd_auth :: "env \<Rightarrow> sess \<Rightarrow> sess option" where
  "ftp_cmd_auth e s = Some (reply ''504 Not available'' s)"

definition ftp_cmd_user :: "env \<Rightarrow> sess \<Rightarrow> sess option" where
  "ftp_cmd_user e s =
     (if param s = FTP_USER_NAME_DEFAULT
      then Some ((reply ''331 OK. Password required'' s)\<lparr>user := FTP_USER_USER_NO_PASS\<rparr>)
      else Some (reply ''530 Username not known'' s))"

definition ftp_cmd_pass :: "env \<Rightarrow> sess \<Rightarrow> sess option" where
  "ftp_cmd_pass e s =
     (if user s = FTP_USER_NONE then Some (reply ''530 User not specified'' s)
      else if param s = FTP_USER_PASS_DEFAULT
      then Some ((reply ''230 OK, logged in as user'' s)\<lparr>user := FTP_USER_USER_LOGGED_IN\<rparr>)
      else Some (reply ''530 Password not correct'' s))"

section \<open>The handlers keep the session\<close>

lemma handler_ok_simps [simp]:
  "handler_ok B s s' \<longleftrightarrow> sess_core B s' \<and> dataconn s' = None \<and> extends s s' \<and> user s' = user s"
  by (auto simp: handler_ok_def sess_ok_def)

lemma sess_core_build_path [simp]:
  "sess_core B s \<Longrightarrow> path_build (path s) (param s) = Some (q, b) \<Longrightarrow> sess_core B (s\<lparr>path := q\<rparr>)"
  by (simp add: sess_core_build)

interpretation pwd: gated_command ftp_cmd_pwd
  by (rule gated_commandI) (auto simp: ftp_cmd_pwd_def split: if_splits)

interpretation cdup: gated_command ftp_cmd_cdup
  by (rule gated_commandI)
    (auto simp: ftp_cmd_cdup_def path_ok_def FTP_CWD_SIZE_def MAX_LFN_def split: if_splits)

interpretation mode: gated_command ftp_cmd_mode
  by (rule gated_commandI) (auto simp: ftp_cmd_mode_def split: if_splits)

interpretation stru: gated_command ftp_cmd_stru
  by (rule gated_commandI) (auto simp: ftp_cmd_stru_def split: if_splits)

interpretation type: gated_command ftp_cmd_type
  by (rule gated_commandI) (auto simp: ftp_cmd_type_def split: if_splits)

interpretation noop: gated_command ftp_cmd_noop
  by (rule gated_commandI) (auto simp: ftp_cmd_noop_def split: if_splits)

interpretation feat: gated_command ftp_cmd_feat
  by (rule gated_commandI) (auto simp: ftp_cmd_feat_def split: if_splits)

interpretation syst: gated_command ftp_cmd_syst
  by (rule gated_commandI) (auto simp: ftp_cmd_syst_def split: if_splits)

interpretation stat: gated_command ftp_cmd_stat
  by (rule gated_commandI) (auto simp: ftp_cmd_stat_def split: if_splits)

interpretation site: gated_command ftp_cmd_site
  by (rule gated_commandI) (auto simp: ftp_cmd_site_def case_prod_beta Let_def split: if_splits)

interpretation cwd: gated_command ftp_cmd_cwd
  by (rule gated_commandI)
    (auto simp: ftp_cmd_cwd_def case_prod_beta Let_def split: if_splits elim!: option_bind_SomeE)

interpretation mkd: gated_command ftp_cmd_mkd
  by (rule gated_commandI)
    (auto simp: ftp_cmd_mkd_def case_prod_beta Let_def split: if_splits elim!: option_bind_SomeE)

interpretation rmd: gated_command ftp_cmd_rmd
  by (rule gated_commandI)
    (auto simp: ftp_cmd_rmd_def case_prod_beta Let_def split: if_splits elim!: option_bind_SomeE)

interpretation dele: gated_command ftp_cmd_dele
  by (rule gated_commandI)
    (auto simp: ftp_cmd_dele_def case_prod_beta Let_def split: if_splits elim!: option_bind_SomeE)

interpretation rnto: gated_command ftp_cmd_rnto
  by (rule gated_commandI)
    (auto simp: ftp_cmd_rnto_def case_prod_beta Let_def split: if_splits elim!: option_bind_SomeE)

interpretation size: gated_command ftp_cmd_size
  by (rule gated_commandI)
    (auto simp: ftp_cmd_size_def case_prod_beta Let_def split: if_splits elim!: option_bind_SomeE)

interpretation rnfr: gated_command ftp_cmd_rnfr
  by (rule gated_commandI)
    (auto simp: ftp_cmd_rnfr_def case_prod_beta Let_def sess_core_build split: if_splits elim!: option_bind_SomeE)

interpretation auth: session_command ftp_cmd_auth
  by unfold_locales (auto simp: ftp_cmd_auth_def sess_ok_def)

interpretation user: session_command ftp_cmd_user
  by unfold_locales (auto simp: ftp_cmd_user_def sess_ok_def split: if_splits)

interpretation pass: session_command ftp_cmd_pass
  by unfold_locales (auto simp: ftp_cmd_pass_def sess_ok_def split: if_splits)

text \<open>MDTM cuts the parameter array and takes the file name from behind the time stamp.\<close>

lemma cstr_update_nul: "i < length a \<Longrightarrow> cstr (a[i := NUL]) = take i (cstr a)"
  unfolding cstr_def by (induction a arbitrary: i) (auto split: nat.splits)

lemma length_cstr_update_nul: "length (cstr (a[i := NUL])) \<le> length (cstr a)"
  by (cases "i < length a") (simp_all add: cstr_update_nul list_update_beyond)

lemma cstr_drop: "n \<le> strlen a \<Longrightarrow> cstr (drop n a) = drop n (cstr a)"
  unfolding strlen_def cstr_def
  by (induction a arbitrary: n) (auto split: if_splits nat.splits simp: drop_Cons)

lemma param_ok_shorter:
  "param_ok (cstr a) \<Longrightarrow> length (cstr b) \<le> length (cstr a) \<Longrightarrow> param_ok (cstr b)"
  by (simp add: param_ok_def)

lemma date_time_get_params:
  assumes "date_time_get a d0 t0 = (g, ps, d, t)"
  shows "length ps = length a" and "length (cstr ps) \<le> length (cstr a)"
    and "length (cstr (drop g ps)) \<le> length (cstr a)"
proof -
  define cut where "cut = a[14 := NUL, 12 := NUL, 10 := NUL, 8 := NUL, 6 := NUL, 4 := NUL]"
  have cases: "g = 0 \<and> ps = a \<or> g = 15 \<and> ps = cut \<and> 15 \<le> strlen a"
  proof (cases "strlen a < 15 \<or> a ! 14 \<noteq> CHR '' '' \<or> \<not> list_all isdigit (take 14 a)")
    case True
    then have "date_time_get a d0 t0 = (0, a, d0, t0)" by (auto simp: date_time_get_def)
    then show ?thesis using assms by simp
  next
    case False
    have "fst (date_time_get a d0 t0) = 15" "fst (snd (date_time_get a d0 t0)) = cut"
      using False by (simp_all add: date_time_get_def Let_def cut_def)
    then show ?thesis using assms False by simp
  qed
  have len: "length (cstr cut) \<le> length (cstr a)"
    unfolding cut_def by (meson length_cstr_update_nul order_trans)
  have "drop 15 cut = drop 15 a" by (simp add: cut_def)
  then have tail: "15 \<le> strlen a \<Longrightarrow> length (cstr (drop 15 cut)) \<le> length (cstr a)"
    by (simp add: cstr_drop)
  show "length ps = length a" using cases by (auto simp: cut_def)
  show "length (cstr ps) \<le> length (cstr a)" using cases len by auto
  show "length (cstr (drop g ps)) \<le> length (cstr a)" using cases tail by auto
qed

lemma mdtm_core:
  assumes "sess_core B s" and "date_time_get (parameters s) d0 t0 = (g, ps, d, t)"
  shows "sess_core B (s\<lparr>parameters := ps\<rparr>)" and "param_ok (cstr (drop g ps))"
proof -
  note f = date_time_get_params [OF assms(2)]
  have p: "param_ok (cstr (parameters s))" and l: "length (parameters s) = FTP_PARAM_SIZE"
    using assms(1) by (simp_all add: sess_core_def param_def)
  show "param_ok (cstr (drop g ps))" using p f(3) by (rule param_ok_shorter)
  have "param_ok (cstr ps)" using p f(2) by (rule param_ok_shorter)
  then show "sess_core B (s\<lparr>parameters := ps\<rparr>)"
    using assms(1) f(1) l by (simp add: sess_core_def param_def)
qed

lemma mdtm_file_ok:
  assumes core: "sess_core B s" and f: "param_ok f" and dc: "dataconn s = None"
    and run: "mdtm_file e f g d t s = Some s'"
  shows "handler_ok B s s'"
proof (cases "path_build (path s) f")
  case None
  then show ?thesis using run by (simp add: mdtm_file_def)
next
  case (Some r)
  obtain q b where r: "r = (q, b)" by (cases r)
  define s1 where "s1 = s\<lparr>path := q\<rparr>"
  have s1: "sess_core B s1" "dataconn s1 = None" "extends s s1" "user s1 = user s"
    using core f Some r dc ftp_path.build_good [of "path s" f q b] sess_core_path [OF core]
    by (auto simp: s1_def)
  then show ?thesis
    using run unfolding mdtm_file_def Some r s1_def [symmetric]
    by (cases b) (auto simp: case_prod_beta Let_def s1_def [symmetric] split: if_splits)
qed

interpretation mdtm: gated_command "\<lambda>e. ftp_cmd_mdtm e d0 t0"
proof (rule gated_commandI)
  fix B e s s'
  assume core: "sess_core B s" and dc: "dataconn s = None" and run: "ftp_cmd_mdtm e d0 t0 s = Some s'"
  show "handler_ok B s s'"
  proof (cases "logged_in s")
    case False
    then show ?thesis using core dc run by (simp add: ftp_cmd_mdtm_def)
  next
    case True
    obtain g ps d t where dt: "date_time_get (parameters s) d0 t0 = (g, ps, d, t)"
      by (metis prod_cases4)
    define s1 where "s1 = (if cstr (drop g ps) = [] then reply ''501 No file name'' (s\<lparr>parameters := ps\<rparr>)
      else s\<lparr>parameters := ps\<rparr>)"
    have s1: "sess_core B s1" "dataconn s1 = None" "extends s s1" "user s1 = user s"
      using mdtm_core(1) [OF core dt] dc by (simp_all add: s1_def)
    have "mdtm_file e (cstr (drop g ps)) g d t s1 = Some s'"
      using run True dt by (simp add: ftp_cmd_mdtm_def s1_def Let_def)
    from mdtm_file_ok [OF s1(1) mdtm_core(2) [OF core dt] s1(2) this] s1
    show ?thesis by (auto intro: extends_trans)
  qed
qed (simp add: ftp_cmd_mdtm_def)

end
