(* ===== verification/FtpXfer.thy ===== *)
theory FtpXfer
  imports FtpCmds
begin

text \<open>
  The commands of \<open>ftp_server.c\<close> that set up and use a data connection: PASV, PORT, LIST and
  NLST, MLSD, RETR, STOR. The loops end when the environment ends them (end of directory, end
  of file, closed connection), so they are \<open>partial_function\<close>s: \<open>None\<close> means that the loop does
  not end, or that the code runs into undefined behaviour on the way.
\<close>

section \<open>PASV and PORT\<close>

definition pasv_port :: "u8 \<Rightarrow> u8 \<Rightarrow> u16" where
  \<comment> \<open>the sum has type \<open>int\<close> and is stored in a \<open>uint16_t\<close>\<close>
  "pasv_port incremented con_num =
     word_of_int (uint FTP_DATA_PORT + uint incremented
                  + uint con_num * uint PORT_INCREMENT_OFFSET)"

definition ip_octet :: "u32 \<Rightarrow> nat \<Rightarrow> string" where
  "ip_octet ip k = dec (unat (drop_bit (8 * k) ip AND 0xFF))"

definition ftp_cmd_pasv :: "env \<Rightarrow> sess \<Rightarrow> sess option" where
  "ftp_cmd_pasv e s =
     (if \<not> logged_in s then Some s
      else
        let s = s\<lparr>data_port := pasv_port (data_port_incremented s) (ftp_con_num s)\<rparr>;
            (r, s) = pasv_con_open e s
        in if r = 0 then
             let s = data_con_close s;
                 ip = ipserver s;
                 s = reply (''227 Entering Passive Mode ('' @ ip_octet ip 0 @ '','' @ ip_octet ip 1
                       @ '','' @ ip_octet ip 2 @ '','' @ ip_octet ip 3 @ '',''
                       @ dec (unat (drop_bit 8 (data_port s))) @ '',''
                       @ dec (unat (data_port s AND 255)) @ '').'') s
             in Some (s\<lparr>data_conn_mode := DCM_PASSIVE\<rparr>)
           else
             let s = reply ''425 Can't set connection management to passive'' s
             in Some (s\<lparr>data_conn_mode := DCM_NOT_SET\<rparr>))"

definition strchr_comma :: "string \<Rightarrow> string option" where
  \<comment> \<open>\<open>strchr(p, ',')\<close>: the rest of the string from the comma on, or NULL\<close>
  "strchr_comma p = (let r = dropWhile (\<lambda>c. c \<noteq> CHR '','') p in if r = [] then None else Some r)"

fun port_ip :: "nat \<Rightarrow> string \<Rightarrow> u8 list \<Rightarrow> u8 list \<times> string option" where
  \<comment> \<open>at most \<open>k\<close> rounds of the loop that fills \<open>ip\<close>; the string is what \<open>++p\<close> points to\<close>
  "port_ip 0 p ip = (ip, Some p)"
| "port_ip (Suc k) p ip =
     (let ip = ip @ [word_of_int (atoi p)]
      in case strchr_comma p of
           None \<Rightarrow> (ip, None)
         | Some q \<Rightarrow> if k = 0 then (ip, Some q) else port_ip k (tl q) ip)"

definition c_int :: "int \<Rightarrow> int option" where
  \<comment> \<open>the value of a signed expression, unless it overflows\<close>
  "c_int v = (if - INT_MAX - 1 \<le> v \<and> v \<le> INT_MAX then Some v else None)"

definition IP4_ADDR :: "u8 list \<Rightarrow> u32" where
  "IP4_ADDR ip = (ucast (ip ! 0) OR push_bit 8 (ucast (ip ! 1))
                  OR push_bit 16 (ucast (ip ! 2)) OR push_bit 24 (ucast (ip ! 3)))"

definition port_numbers :: "string \<Rightarrow> u16 \<Rightarrow> (u16 \<times> string option) option" where
  \<comment> \<open>the two \<open>if\<close>s that read the port behind the fourth comma; a signed overflow is \<open>None\<close>\<close>
  "port_numbers p port =
     do {
       v \<leftarrow> c_int (256 * atoi (tl p));
       let port = word_of_int v;
       case strchr_comma (tl p) of
         None \<Rightarrow> Some (port, None)
       | Some q \<Rightarrow> do { v \<leftarrow> c_int (uint port + atoi (tl q)); Some (word_of_int v, Some (tl q)) }
     }"

definition ftp_cmd_port :: "env \<Rightarrow> sess \<Rightarrow> sess option" where
  "ftp_cmd_port e s =
     (if \<not> logged_in s then Some s
      else
        let s = data_con_close s
        in if param s = [] then
             Some ((reply ''501 no parameters given'' s)\<lparr>data_conn_mode := DCM_NOT_SET\<rparr>)
           else
             let (ip, p) = port_ip 4 (param s) []
             in do {
               (port, p) \<leftarrow> (case p of None \<Rightarrow> Some (data_port s, None)
                           | Some p \<Rightarrow> port_numbers p (data_port s));
               let s = s\<lparr>data_port := port\<rparr>;
               if p = None then
                 Some ((reply ''501 Can't interpret parameters'' s)\<lparr>data_conn_mode := DCM_NOT_SET\<rparr>)
               else
                 let s = s\<lparr>ipclient := IP4_ADDR ip\<rparr>
                 in Some ((reply ''200 PORT command successful'' s)\<lparr>data_conn_mode := DCM_ACTIVE\<rparr>)
             })"

section \<open>Listings\<close>

definition netconn_write_data :: "env \<Rightarrow> string \<Rightarrow> sess \<Rightarrow> int \<times> sess" where
  \<comment> \<open>\<open>netconn_write(ftp->dataconn, ..)\<close>; the handlers only get here with a connection\<close>
  "netconn_write_data e bs s =
     (case dataconn s of
        None \<Rightarrow> (- 1, s)
      | Some c \<Rightarrow> let t = DataWrite c bs # tr s in (e_data_write e t, s\<lparr>tr := t\<rparr>))"

definition entry_name :: "sess \<Rightarrow> string" where
  "entry_name s = (if lfn s = [] then fname (finfo s) else lfn s)"

definition is_dir :: "filinfo \<Rightarrow> bool" where
  "is_dir fi \<longleftrightarrow> fattrib fi AND AM_DIR \<noteq> 0"

definition list_line :: "sess \<Rightarrow> string" where
  \<comment> \<open>\<open>snprintf_\<close> into \<open>dir_name_buf\<close>\<close>
  "list_line s = take (FTP_BUF_SIZE - 1)
     (if command s \<noteq> ''LIST'' then entry_name s @ crlf
      else if is_dir (finfo s) then ''+/,'' @ [CHR 0x09] @ entry_name s @ crlf
      else ''+r,s'' @ dec (unat (fsize (finfo s))) @ '','' @ [CHR 0x09] @ entry_name s @ crlf)"

definition mlsd_line :: "sess \<Rightarrow> string" where
  "mlsd_line s = take (FTP_BUF_SIZE - 1)
     (''Type='' @ (if is_dir (finfo s) then ''dir'' else ''file'')
      @ '';Size='' @ dec (unat (fsize (finfo s)))
      @ (if fdate (finfo s) \<noteq> 0
         then '';Modify='' @ data_time_to_str (fdate (finfo s)) (ftime (finfo s)) else [])
      @ ''; '' @ entry_name s @ crlf)"

partial_function (option) list_loop :: "env \<Rightarrow> (sess \<Rightarrow> string) \<Rightarrow> u16 \<Rightarrow> sess \<Rightarrow> (u16 \<times> sess) option"
  where [code]:
  \<comment> \<open>the loop of LIST and of MLSD, with the line printed for an entry and the counter \<open>nm\<close>\<close>
  "list_loop e line nm s =
     (let (res, s) = ftps_f_readdir e s
      in if res \<noteq> FR_OK then Some (nm, s)
         else if fname (finfo s) = [] then Some (nm, s)
         else if hd (fname (finfo s)) = CHR ''.'' then list_loop e line nm s
         else let (r, s) = netconn_write_data e (line s) s
              in list_loop e line (nm + 1) s)"

definition ftp_cmd_list :: "env \<Rightarrow> sess \<Rightarrow> sess option" where
  "ftp_cmd_list e s =
     (if \<not> logged_in s then Some s
      else
        let (res, s) = ftps_f_opendir e (path s) s
        in if res \<noteq> FR_OK then Some (reply (''550 Can't open directory '' @ param s) s)
           else
             let (r, s) = data_con_open e s
             in if r \<noteq> 0 then Some (reply ''425 Can't create connection'' s)
                else
                  let s = reply ''150 Accepted data connection'' s
                  in do {
                    (nm, s) \<leftarrow> list_loop e list_line 0 s;
                    let s = data_con_close s;
                    Some (reply ''226 Directory send OK.'' s)
                  })"

definition ftp_cmd_mlsd :: "env \<Rightarrow> sess \<Rightarrow> sess option" where
  "ftp_cmd_mlsd e s =
     (if \<not> logged_in s then Some s
      else
        let (res, s) = ftps_f_opendir e (path s) s
        in if res \<noteq> FR_OK then Some (reply (''550 Can't open directory '' @ param s) s)
           else
             let (r, s) = data_con_open e s
             in if r \<noteq> 0 then Some (reply ''425 Can't create connection'' s)
                else
                  let s = reply ''150 Accepted data connection'' s
                  in do {
                    (nm, s) \<leftarrow> list_loop e mlsd_line 0 s;
                    let s = data_con_close s;
                    Some (reply (''226 Options: -a -l, '' @ dec (unat nm) @ '' matches total'') s)
                  })"

section \<open>RETR\<close>

partial_function (option) retr_loop :: "env \<Rightarrow> sess \<Rightarrow> sess option" where [code]:
  "retr_loop e s =
     (let ((res, buf), s) = ftps_f_read e FTP_BUF_SIZE s
      in if res \<noteq> FR_OK then Some (reply ''451 Communication error during transfer'' s)
         else if buf = [] then Some s
         else let (con_err, s) = netconn_write_data e buf s
              in if con_err \<noteq> ERR_OK
                 then Some (reply (''426 Error during file transfer: '' @ sdec con_err) s)
                 else retr_loop e s)"

definition end_transfer :: "env \<Rightarrow> sess \<Rightarrow> sess" where
  \<comment> \<open>the last lines of RETR and of STOR\<close>
  "end_transfer e s =
     (let s = snd (ftps_f_close e s);
          s = data_con_close (path_up s);
          s = log_event (Diag ''File successfully transferred'') s
      in reply ''226 File successfully transferred'' s)"

definition retr_transfer :: "env \<Rightarrow> sess \<Rightarrow> sess option" where
  \<comment> \<open>\<open>ftp_cmd_retr\<close> once the file is open\<close>
  "retr_transfer e s =
     (let (r, s) = data_con_open e s
      in if r \<noteq> 0 then
           Some (snd (ftps_f_close e (reply ''425 Can't create connection'' (path_up s))))
         else
           let (size, s) = ftps_f_size e s;
               s = reply (''150 Connected to port '' @ dec (unat (data_port s)) @ '', ''
                     @ dec (unat size) @ '' bytes to download'') s
           in do {
             s \<leftarrow> retr_loop e s;
             Some (end_transfer e s)
           })"

definition ftp_cmd_retr :: "env \<Rightarrow> sess \<Rightarrow> sess option" where
  "ftp_cmd_retr e s =
     (if \<not> logged_in s then Some s
      else if param s = [] then Some (reply ''501 No file name'' s)
      else do {
        (p, ok) \<leftarrow> path_build (path s) (param s);
        let s = s\<lparr>path := p\<rparr>;
        if \<not> ok then Some (reply ''500 Command line too long'' s)
        else
          let (res, s) = ftps_f_stat e (path s) s
          in if res \<noteq> FR_OK
             then Some (reply (''550 File '' @ param s @ '' not found'') (path_up s))
             else
               let (res, s) = ftps_f_open e (path s) FA_READ s
               in if res \<noteq> FR_OK then Some (reply (''450 Can't open '' @ param s) (path_up s))
                  else retr_transfer e s
      })"

section \<open>STOR\<close>

definition netconn_recv_tcp_pbuf :: "env \<Rightarrow> sess \<Rightarrow> (int \<times> pbuf_seg) \<times> sess" where
  "netconn_recv_tcp_pbuf e s =
     (case dataconn s of
        None \<Rightarrow> ((- 1, snd (e_data_recv e (tr s))), s)
      | Some c \<Rightarrow> let t = DataRecv c # tr s in (e_data_recv e t, s\<lparr>tr := t\<rparr>))"

partial_function (option) stor_copy ::
  "env \<Rightarrow> string \<Rightarrow> nat \<Rightarrow> string \<Rightarrow> sess \<Rightarrow> (nat \<times> string \<times> sess) option" where [code]:
  \<comment> \<open>the inner loop: \<open>src\<close> is what \<open>prcvbuf\<close> points to up to the end of the segment, \<open>buf\<close> the first
      \<open>offset\<close> bytes of the local buffer. A \<open>memcpy\<close> past the segment is \<open>None\<close>. \<open>FRESULT\<close> values
      are at most 19, so \<open>file_err\<close>, an \<open>int8_t\<close>, holds them. Nothing looks at \<open>bytes_written\<close>.\<close>
  "stor_copy e src buflen buf s =
     (if buflen = 0 then Some (FR_OK, buf, s)
      else
        let copylen = (if buflen \<le> FTP_BUF_SIZE - length buf then buflen else FTP_BUF_SIZE - length buf)
        in if length src < copylen then None
           else
             let buf = buf @ take copylen src
             in if length buf = FTP_BUF_SIZE then
                  let ((file_err, bytes_written), s) = ftps_f_write e buf s
                  in if file_err \<noteq> 0 then Some (file_err, buf, s)
                     else stor_copy e (drop copylen src) (buflen - copylen) [] s
                else stor_copy e (drop copylen src) (buflen - copylen) buf s)"

partial_function (option) stor_loop :: "env \<Rightarrow> string \<Rightarrow> sess \<Rightarrow> (nat \<times> string \<times> sess) option"
  where [code]:
  \<comment> \<open>the outer loop; its result is \<open>file_err\<close> and the bytes left in the local buffer\<close>
  "stor_loop e buf s =
     (let ((con_err, seg), s) = netconn_recv_tcp_pbuf e s
      in if con_err = ERR_CLSD then Some (FR_OK, buf, s)
         else if con_err \<noteq> ERR_OK
         then Some (FR_OK, buf, reply (''426 Error during file transfer: '' @ sdec con_err) s)
         else do {
           (file_err, buf, s) \<leftarrow> stor_copy e (pb_payload seg) (unat (pb_tot_len seg)) buf s;
           let s = log_event PbufFree s;
           if file_err \<noteq> 0
           then Some (file_err, buf, reply ''451 Communication error during transfer'' s)
           else stor_loop e buf s
         })"

definition stor_rest :: "env \<Rightarrow> nat \<Rightarrow> string \<Rightarrow> sess \<Rightarrow> sess" where
  \<comment> \<open>writes what is left in the buffer; the result of the write is not used\<close>
  "stor_rest e file_err buf s =
     (if buf \<noteq> [] \<and> file_err = 0 then snd (ftps_f_write e buf s) else s)"

definition stor_transfer :: "env \<Rightarrow> sess \<Rightarrow> sess option" where
  \<comment> \<open>\<open>ftp_cmd_stor\<close> once the file is open\<close>
  "stor_transfer e s =
     (let (r, s) = data_con_open e s
      in if r \<noteq> 0 then
           Some (snd (ftps_f_close e (reply ''425 Can't create connection'' (path_up s))))
         else
           let s = reply (''150 Connected to port '' @ dec (unat (data_port s))) s
           in do {
             (file_err, buf, s) \<leftarrow> stor_loop e [] s;
             let s = stor_rest e file_err buf s;
             Some (end_transfer e s)
           })"

definition ftp_cmd_stor :: "env \<Rightarrow> sess \<Rightarrow> sess option" where
  "ftp_cmd_stor e s =
     (if \<not> logged_in s then Some s
      else if param s = [] then Some (reply ''501 No file name'' s)
      else do {
        (p, ok) \<leftarrow> path_build (path s) (param s);
        let s = s\<lparr>path := p\<rparr>;
        if \<not> ok then Some (reply ''500 Command line too long'' s)
        else
          let (res, s) = ftps_f_open e (path s) (FA_CREATE_ALWAYS OR FA_WRITE) s
          in if res \<noteq> FR_OK
             then Some (reply (''450 Can't open/create '' @ param s) (path_up s))
             else stor_transfer e s
      })"

section \<open>The loops keep the session\<close>

definition keeps_sess :: "sess \<Rightarrow> sess \<Rightarrow> bool" where
  \<comment> \<open>a part of a transfer: the invariant, the connections and the path stay\<close>
  "keeps_sess s s' \<longleftrightarrow> (\<forall>B. sess_core B s \<longrightarrow> sess_core B s') \<and> extends s s' \<and> user s' = user s
     \<and> path s' = path s \<and> dataconn s' = dataconn s \<and> listdataconn s' = listdataconn s
     \<and> param s' = param s \<and> path_rename s' = path_rename s"

lemma keeps_sess_refl [simp, intro]: "keeps_sess s s"
  by (simp add: keeps_sess_def)

lemma keeps_sess_trans [trans]: "keeps_sess s s' \<Longrightarrow> keeps_sess s' s'' \<Longrightarrow> keeps_sess s s''"
  unfolding keeps_sess_def by (auto intro: extends_trans)

lemma keeps_quiet: "quiet_step s s' \<Longrightarrow> keeps_sess s s'"
  unfolding keeps_sess_def by (auto simp: quiet_data intro: quiet_sess_core quiet_extends)

lemma sess_core_use:
  assumes "sess_core B s" and "conn_makes ev = {}" and "\<And>n. ev \<noteq> ConnDelete n"
    and "conn_uses ev \<subseteq> owned (listdataconn s) (dataconn s)"
  shows "sess_core B (s\<lparr>tr := ev # tr s\<rparr>)"
  using assms conns_use [of B "listdataconn s" "dataconn s" "tr s" ev]
  by (auto simp: sess_core_def)

lemma keeps_data_calls [simp]:
  "keeps_sess s (snd (netconn_write_data e bs s))" "keeps_sess s (snd (netconn_recv_tcp_pbuf e s))"
  unfolding keeps_sess_def netconn_write_data_def netconn_recv_tcp_pbuf_def
  by (auto simp: Let_def owned_def intro!: sess_core_use split: option.splits)

lemma keeps_event [simp]: "neutral ev \<Longrightarrow> keeps_sess s (log_event ev s)"
  using keeps_quiet [OF quiet_event] by (simp add: log_event_def)

lemmas keeps_calls [simp] = quiet_calls [THEN keeps_quiet]

lemma keeps_reply [simp]: "keeps_sess s (reply m s)"
  by (simp add: reply_def)

lemmas list_loop_induct = list_loop.raw_induct [rotated, consumes 1, case_names step]
lemmas retr_loop_induct = retr_loop.raw_induct [rotated, consumes 1, case_names step]
lemmas stor_copy_induct = stor_copy.raw_induct [rotated, consumes 1, case_names step]
lemmas stor_loop_induct = stor_loop.raw_induct [rotated, consumes 1, case_names step]

lemma list_loop_keeps: "list_loop e line nm s = Some y \<Longrightarrow> keeps_sess s (snd y)"
proof (induction rule: list_loop_induct)
  case (step rec e line nm s y)
  define s1 where "s1 = snd (ftps_f_readdir e s)"
  define s2 where "s2 = snd (netconn_write_data e (line s1) s1)"
  have s1: "keeps_sess s s1" by (simp add: s1_def)
  have s2: "keeps_sess s s2"
    unfolding s2_def by (rule keeps_sess_trans [OF s1 keeps_data_calls(1)])
  show ?case
    using step(2) step(1) [of e line nm s1 y] step(1) [of e line "nm + 1" s2 y] s1 s2
    by (auto simp: case_prod_beta s1_def [symmetric] s2_def [symmetric] split: if_splits
        intro: keeps_sess_trans)
qed

lemma retr_loop_keeps: "retr_loop e s = Some s' \<Longrightarrow> keeps_sess s s'"
proof (induction rule: retr_loop_induct)
  case (step rec e s s')
  define s1 where "s1 = snd (ftps_f_read e FTP_BUF_SIZE s)"
  define bs where "bs = snd (fst (ftps_f_read e FTP_BUF_SIZE s))"
  define s2 where "s2 = snd (netconn_write_data e bs s1)"
  have s1: "keeps_sess s s1" by (simp add: s1_def)
  have s2: "keeps_sess s s2"
    unfolding s2_def by (rule keeps_sess_trans [OF s1 keeps_data_calls(1)])
  show ?case
    using step(2) step(1) [of e s2 s'] s1 s2
    by (auto simp: case_prod_beta s1_def [symmetric] bs_def [symmetric] s2_def [symmetric]
        split: if_splits intro: keeps_sess_trans keeps_reply)
qed

lemma stor_copy_keeps: "stor_copy e src n buf s = Some y \<Longrightarrow> keeps_sess s (snd (snd y))"
proof (induction rule: stor_copy_induct)
  case (step rec e src n buf s y)
  define k where "k = (if n \<le> FTP_BUF_SIZE - length buf then n else FTP_BUF_SIZE - length buf)"
  define b where "b = buf @ take k src"
  define s1 where "s1 = snd (ftps_f_write e b s)"
  have s1: "keeps_sess s s1" by (simp add: s1_def)
  show ?case
    using step(2) step(1) [of e "drop k src" "n - k" "[]" s1 y] step(1) [of e "drop k src" "n - k" b s y] s1
    unfolding k_def [symmetric] Let_def b_def [symmetric]
    by (auto simp: case_prod_beta s1_def [symmetric] split: if_splits intro: keeps_sess_trans)
qed

lemma stor_loop_keeps: "stor_loop e buf s = Some y \<Longrightarrow> keeps_sess s (snd (snd y))"
proof (induction rule: stor_loop_induct)
  case (step rec e buf s y)
  define s1 where "s1 = snd (netconn_recv_tcp_pbuf e s)"
  define seg where "seg = snd (fst (netconn_recv_tcp_pbuf e s))"
  have s1: "keeps_sess s s1" by (simp add: s1_def)
  show ?case
  proof (cases "fst (fst (netconn_recv_tcp_pbuf e s)) = ERR_OK")
    case False
    then show ?thesis
      using step(2) s1 keeps_sess_trans [OF s1 keeps_reply]
      by (auto simp: case_prod_beta s1_def [symmetric] split: if_splits)
  next
    case True
    then obtain err b s2 where cp: "stor_copy e (pb_payload seg) (unat (pb_tot_len seg)) buf s1 = Some (err, b, s2)"
      and y: "(if err \<noteq> 0
        then Some (err, b, reply ''451 Communication error during transfer'' (log_event PbufFree s2))
        else rec e b (log_event PbufFree s2)) = Some y"
      using step(2)
      by (auto simp: case_prod_beta s1_def [symmetric] seg_def [symmetric] Let_def ERR_OK_def ERR_CLSD_def
          elim!: option_bind_SomeE)
    have s2: "keeps_sess s (log_event PbufFree s2)"
      using keeps_sess_trans [OF s1] stor_copy_keeps [OF cp] keeps_sess_trans [OF _ keeps_event] by simp
    show ?thesis
      using y step(1) [of e b "log_event PbufFree s2" y] keeps_sess_trans [OF s2]
      by (auto split: if_splits)
  qed
qed

lemma stor_rest_keeps [simp]: "keeps_sess s (stor_rest e err buf s)"
  by (simp add: stor_rest_def)

section \<open>The handlers keep the session\<close>

lemma extends_from_data [simp]:
  "extends (s\<lparr>path := p\<rparr>) s' = extends s s'" "extends (s\<lparr>data_port := dp\<rparr>) s' = extends s s'"
  by (simp_all add: extends_def)

lemma keeps_sessD:
  assumes "keeps_sess s s'"
  shows "sess_core B s \<Longrightarrow> sess_core B s'" "extends s0 s \<Longrightarrow> extends s0 s'" "user s' = user s"
    "path s' = path s" "dataconn s' = dataconn s" "param s' = param s"
  using assms by (auto simp: keeps_sess_def intro: extends_trans)

lemma data_con_open_core:
  assumes "sess_core B s" and "dataconn s = None" and "data_con_open e s = (r, s')"
  shows "sess_core B s'" "r \<noteq> 0 \<Longrightarrow> dataconn s' = None" "r = 0 \<Longrightarrow> dataconn s' \<noteq> None"
    "extends s s'" "user s' = user s" "path s' = path s" "param s' = param s"
  using assms data_con_open_conns [of B s e r s'] data_con_open_frame [of e s r s']
  by (auto simp: sess_core_def param_def extends_def)

lemma data_con_close_core [simp]:
  "sess_core B s \<Longrightarrow> sess_core B (data_con_close s)"
  "extends s0 s \<Longrightarrow> extends s0 (data_con_close s)"
  "param (data_con_close s) = param s"
proof -
  show "extends s0 (data_con_close s)" if "extends s0 s"
    using that by (auto simp: data_con_close_def netconn_defs Let_def split: option.splits)
      (auto simp: extends_def intro: exI [of _ "_ # _ # _"])
  show "param (data_con_close s) = param s" by (simp add: param_def)
  then show "sess_core B (data_con_close s)" if "sess_core B s"
    using that data_con_close_conns [of B s] by (simp add: sess_core_def)
qed

lemma pasv_con_open_core:
  assumes "sess_core B s" and "pasv_con_open e s = (r, s')"
  shows "sess_core B s'" "dataconn s' = dataconn s" "extends s s'" "user s' = user s"
    "path s' = path s" "param s' = param s"
  using assms pasv_con_open_conns [of B s e r s'] pasv_con_open_frame [of e s r s']
  by (auto simp: sess_core_def param_def extends_def)

interpretation pasv: gated_command ftp_cmd_pasv
proof (rule gated_commandI)
  fix B e s s'
  assume core: "sess_core B s" and dc: "dataconn s = None" and run: "ftp_cmd_pasv e s = Some s'"
  obtain r s1 where o: "pasv_con_open e (s\<lparr>data_port := pasv_port (data_port_incremented s) (ftp_con_num s)\<rparr>)
      = (r, s1)" (is "pasv_con_open e ?s0 = _") by (metis surj_pair)
  have "sess_core B ?s0" using core by simp
  note p = pasv_con_open_core [OF this o]
  show "handler_ok B s s'"
    using run core dc p o by (auto simp: ftp_cmd_pasv_def Let_def split: if_splits)
qed (simp add: ftp_cmd_pasv_def)

interpretation port: gated_command ftp_cmd_port
  by (rule gated_commandI)
    (auto simp: ftp_cmd_port_def Let_def case_prod_beta split: if_splits elim!: option_bind_SomeE)

lemma listing_ok:
  assumes core: "sess_core B s" and dc: "dataconn s = None"
    and opn: "data_con_open e s = (r, s1)" and run: "list_loop e line 0 (reply m s1) = Some (nm, s2)"
  shows "handler_ok B s (reply m' (data_con_close s2))"
proof -
  note o = data_con_open_core [OF core dc opn]
  note k = keeps_sessD [OF list_loop_keeps [OF run]]
  show ?thesis using o k(1) [of B] k(2) [of s] k(3) by simp
qed

lemma list_step:
  assumes "sess_core B s" and "dataconn s = None"
  shows "sess_core B (snd (ftps_f_opendir e p s))" "dataconn (snd (ftps_f_opendir e p s)) = None"
  using assms by simp_all

interpretation list: gated_command ftp_cmd_list
proof (rule gated_commandI)
  fix B e s s'
  assume core: "sess_core B s" and dc: "dataconn s = None" and run: "ftp_cmd_list e s = Some s'"
  define s0 where "s0 = snd (ftps_f_opendir e (path s) s)"
  obtain r s1 where o: "data_con_open e s0 = (r, s1)" by (metis surj_pair)
  have s0: "sess_core B s0" "dataconn s0 = None" "extends s s0" "user s0 = user s"
    using core dc by (simp_all add: s0_def)
  note k = data_con_open_core [OF s0(1,2) o]
  note l = listing_ok [OF s0(1,2) o]
  show "handler_ok B s s'"
    using run core dc s0 o k l
    by (auto simp: ftp_cmd_list_def case_prod_beta Let_def s0_def [symmetric] split: if_splits
        elim!: option_bind_SomeE intro: extends_trans)
qed (simp add: ftp_cmd_list_def)

interpretation mlsd: gated_command ftp_cmd_mlsd
proof (rule gated_commandI)
  fix B e s s'
  assume core: "sess_core B s" and dc: "dataconn s = None" and run: "ftp_cmd_mlsd e s = Some s'"
  define s0 where "s0 = snd (ftps_f_opendir e (path s) s)"
  obtain r s1 where o: "data_con_open e s0 = (r, s1)" by (metis surj_pair)
  have s0: "sess_core B s0" "dataconn s0 = None" "extends s s0" "user s0 = user s"
    using core dc by (simp_all add: s0_def)
  note k = data_con_open_core [OF s0(1,2) o]
  note l = listing_ok [OF s0(1,2) o]
  show "handler_ok B s s'"
    using run core dc s0 o k l
    by (auto simp: ftp_cmd_mlsd_def case_prod_beta Let_def s0_def [symmetric] split: if_splits
        elim!: option_bind_SomeE intro: extends_trans)
qed (simp add: ftp_cmd_mlsd_def)

lemma log_event_core [simp]:
  "sess_core B s \<Longrightarrow> neutral ev \<Longrightarrow> sess_core B (log_event ev s)"
  "extends s0 s \<Longrightarrow> ev \<noteq> CtrlRecv \<Longrightarrow> extends s0 (log_event ev s)"
  "dataconn (log_event ev s) = dataconn s" "user (log_event ev s) = user s"
  "path (log_event ev s) = path s" "param (log_event ev s) = param s"
  by (simp_all add: log_event_def)

lemma end_transfer_ok:
  assumes "sess_core B s" and "extends s0 s" and "user s = user s0"
  shows "handler_ok B s0 (end_transfer e s)"
  using assms by (simp add: end_transfer_def Let_def)

lemma transfer_ok:
  assumes core: "sess_core B s" and dc: "dataconn s = None"
    and opn: "data_con_open e s = (r, s1)" and run: "keeps_sess s1 s2"
  shows "handler_ok B s (end_transfer e s2)"
proof -
  note o = data_con_open_core [OF core dc opn]
  note k = keeps_sessD [OF run]
  show ?thesis using o k by (intro end_transfer_ok) auto
qed

lemma retr_transfer_ok:
  assumes core: "sess_core B s" and dc: "dataconn s = None" and run: "retr_transfer e s = Some s'"
  shows "handler_ok B s s'"
proof -
  obtain r s1 where o: "data_con_open e s = (r, s1)" by (metis surj_pair)
  note k = data_con_open_core [OF core dc o]
  have fin: "handler_ok B s (end_transfer e s2)"
    if "retr_loop e (reply m (snd (ftps_f_size e s1))) = Some s2" for m s2
    using transfer_ok [OF core dc o] retr_loop_keeps [OF that] keeps_calls keeps_reply keeps_sess_trans
    by metis
  show ?thesis
    using run o k fin
    by (auto simp: retr_transfer_def case_prod_beta Let_def split: if_splits
        elim!: option_bind_SomeE simp del: handler_ok_simps) simp
qed

lemma handler_ok_step:
  "handler_ok B s1 s' \<Longrightarrow> extends s s1 \<Longrightarrow> user s1 = user s \<Longrightarrow> handler_ok B s s'"
  by (auto intro: extends_trans)

lemma stor_transfer_ok:
  assumes core: "sess_core B s" and dc: "dataconn s = None" and run: "stor_transfer e s = Some s'"
  shows "handler_ok B s s'"
proof -
  obtain r s1 where o: "data_con_open e s = (r, s1)" by (metis surj_pair)
  note k = data_con_open_core [OF core dc o]
  have fin: "handler_ok B s (end_transfer e (stor_rest e err buf s2))"
    if "stor_loop e [] (reply m s1) = Some (err, buf, s2)" for m err buf s2
    using transfer_ok [OF core dc o] stor_loop_keeps [OF that] stor_rest_keeps keeps_reply keeps_sess_trans
    by (metis snd_conv)
  show ?thesis
    using run o k fin
    by (auto simp: stor_transfer_def case_prod_beta Let_def split: if_splits
        elim!: option_bind_SomeE simp del: handler_ok_simps) simp
qed

interpretation retr: gated_command ftp_cmd_retr
proof (rule gated_commandI)
  fix B e s s'
  assume core: "sess_core B s" and dc: "dataconn s = None" and run: "ftp_cmd_retr e s = Some s'"
  have up: "handler_ok B s s'"
    if "retr_transfer e s3 = Some s'" "sess_core B s3" "dataconn s3 = None" "extends s s3" "user s3 = user s"
    for s3 using handler_ok_step [OF retr_transfer_ok] that by blast
  show "handler_ok B s s'"
  proof (cases "logged_in s \<and> param s \<noteq> []")
    case False
    then show ?thesis using run core dc by (auto simp: ftp_cmd_retr_def split: if_splits)
  next
    case True
    then obtain q b where b: "path_build (path s) (param s) = Some (q, b)"
      using run by (auto simp: ftp_cmd_retr_def elim!: option_bind_SomeE)
    have "sess_core B (s\<lparr>path := q\<rparr>)" using core b by simp
    then show ?thesis
      using run True b dc up
      by (simp add: ftp_cmd_retr_def case_prod_beta Let_def split: if_splits) auto
  qed
qed (simp add: ftp_cmd_retr_def)

interpretation stor: gated_command ftp_cmd_stor
proof (rule gated_commandI)
  fix B e s s'
  assume core: "sess_core B s" and dc: "dataconn s = None" and run: "ftp_cmd_stor e s = Some s'"
  have up: "handler_ok B s s'"
    if "stor_transfer e s3 = Some s'" "sess_core B s3" "dataconn s3 = None" "extends s s3" "user s3 = user s"
    for s3 using handler_ok_step [OF stor_transfer_ok] that by blast
  show "handler_ok B s s'"
  proof (cases "logged_in s \<and> param s \<noteq> []")
    case False
    then show ?thesis using run core dc by (auto simp: ftp_cmd_stor_def split: if_splits)
  next
    case True
    then obtain q b where b: "path_build (path s) (param s) = Some (q, b)"
      using run by (auto simp: ftp_cmd_stor_def elim!: option_bind_SomeE)
    have "sess_core B (s\<lparr>path := q\<rparr>)" using core b by simp
    then show ?thesis
      using run True b dc up
      by (simp add: ftp_cmd_stor_def case_prod_beta Let_def split: if_splits) auto
  qed
qed (simp add: ftp_cmd_stor_def)

end
