(* ===== verification/FtpServer.thy ===== *)
theory FtpServer
  imports FtpXfer
begin

text \<open>
  The command table, \<open>ftp_process_command\<close> and the session \<open>ftp_service\<close> of \<open>ftp_server.c\<close>.
  The invariants of the handlers are lifted to the table and to the whole session: the login
  automaton, the guard in front of the file system, and the ownership of the connections.
\<close>

section \<open>The command table\<close>

record ftp_cmd_t =
  cmd_name :: string
  cmd_func :: "env \<Rightarrow> sess \<Rightarrow> sess option"

definition entry :: "string \<Rightarrow> (env \<Rightarrow> sess \<Rightarrow> sess option) \<Rightarrow> ftp_cmd_t" where
  "entry c f = \<lparr>cmd_name = c, cmd_func = f\<rparr>"

definition ftpd_commands :: "ftp_cmd_t list" where
  \<comment> \<open>without the final \<open>{NULL, NULL}\<close>; MDTM gets any value for its uninitialised variables\<close>
  "ftpd_commands =
    [entry ''PWD'' ftp_cmd_pwd, entry ''CWD'' ftp_cmd_cwd, entry ''CDUP'' ftp_cmd_cdup,
     entry ''MODE'' ftp_cmd_mode, entry ''STRU'' ftp_cmd_stru, entry ''TYPE'' ftp_cmd_type,
     entry ''PASV'' ftp_cmd_pasv, entry ''PORT'' ftp_cmd_port, entry ''NLST'' ftp_cmd_list,
     entry ''LIST'' ftp_cmd_list, entry ''MLSD'' ftp_cmd_mlsd, entry ''DELE'' ftp_cmd_dele,
     entry ''NOOP'' ftp_cmd_noop, entry ''RETR'' ftp_cmd_retr, entry ''STOR'' ftp_cmd_stor,
     entry ''MKD'' ftp_cmd_mkd, entry ''RMD'' ftp_cmd_rmd, entry ''RNFR'' ftp_cmd_rnfr,
     entry ''RNTO'' ftp_cmd_rnto, entry ''FEAT'' ftp_cmd_feat,
     entry ''MDTM'' (\<lambda>e. ftp_cmd_mdtm e 0 0), entry ''SIZE'' ftp_cmd_size,
     entry ''SITE'' ftp_cmd_site, entry ''STAT'' ftp_cmd_stat, entry ''SYST'' ftp_cmd_syst,
     entry ''AUTH'' ftp_cmd_auth, entry ''USER'' ftp_cmd_user, entry ''PASS'' ftp_cmd_pass]"

fun find_command :: "string \<Rightarrow> ftp_cmd_t list \<Rightarrow> ftp_cmd_t option" where
  \<comment> \<open>the loop over the table\<close>
  "find_command c [] = None"
| "find_command c (d # ds) = (if cmd_name d = c then Some d else find_command c ds)"

definition ftp_process_command :: "env \<Rightarrow> sess \<Rightarrow> (bool \<times> sess) option" where
  \<comment> \<open>the result says whether the session goes on\<close>
  "ftp_process_command e s =
     (if command s = ''QUIT'' then Some (False, s)
      else case find_command (command s) ftpd_commands of
        Some d \<Rightarrow> do { s \<leftarrow> cmd_func d e s; Some (True, s) }
      | None \<Rightarrow> Some (True, reply ''500 Unknown command'' s))"

section \<open>The session\<close>

partial_function (option) service_loop :: "env \<Rightarrow> sess \<Rightarrow> sess option" where [code]:
  "service_loop e s =
     (let (r, s) = ftp_read_command e s
      in if r \<noteq> 0 then Some s
         else do {
           (r, s) \<leftarrow> ftp_parse_command s;
           if r < 0 then Some s
           else do {
             (running, s) \<leftarrow> ftp_process_command e s;
             if \<not> running then Some (reply ''221 Goodbye'' s) else service_loop e s
           }
         })"

definition service_init :: "env \<Rightarrow> nat \<Rightarrow> sess \<Rightarrow> sess" where
  "service_init e ctrlcn s =
     (let s = s\<lparr>path := ''/'', path_rename := [], ctrlconn := ctrlcn, listdataconn := None,
                dataconn := None, data_port := 0, data_conn_mode := DCM_NOT_SET,
                user := FTP_USER_NONE,
                data_port_incremented :=
                  word_of_int ((uint (data_port_incremented s) + 1) mod uint PORT_INCREMENT_OFFSET),
                ipserver := e_addr e (tr s)\<rparr>;
          s = reply (''220 -> CMS FTP Server, FTP Version '' @ FTP_VERSION) s
      in netconn_set_recvtimeout ctrlcn 1000 s)"

definition ftp_service :: "env \<Rightarrow> nat \<Rightarrow> sess \<Rightarrow> sess option" where
  "ftp_service e ctrlcn s =
     do {
       s \<leftarrow> service_loop e (service_init e ctrlcn s);
       Some (data_con_close (pasv_con_close s))
     }"

section \<open>The table as a whole\<close>

locale command_table =
  fixes table :: "ftp_cmd_t list"
    and free :: "string set"
  assumes all_commands: "d \<in> set table \<Longrightarrow> session_command (cmd_func d)"
    and all_gated: "d \<in> set table \<Longrightarrow> cmd_name d \<notin> free \<Longrightarrow> gated_command (cmd_func d)"
begin

lemma found: "find_command c table = Some d \<Longrightarrow> d \<in> set table \<and> cmd_name d = c"
  by (induction table) (auto split: if_splits)

lemma dispatch_keeps:
  assumes "find_command c table = Some d" and "sess_ok B s" and "cmd_func d e s = Some s'"
  shows "sess_ok B s' \<and> extends s s'"
  using session_command.keeps [OF all_commands] session_command.grows [OF all_commands] found assms
  by blast

lemma dispatch_login:
  assumes "find_command c table = Some d" and "sess_ok B s" and "cmd_func d e s = Some s'" and "c \<notin> free"
  shows "user s' = user s" and "\<not> logged_in s \<Longrightarrow> s' = s"
proof -
  have g: "gated_command (cmd_func d)" using all_gated found assms by blast
  show "user s' = user s" using gated_command.login [OF g assms(2,3)] .
  show "s' = s" if "\<not> logged_in s"
    using gated_command.silent_before_login [OF g that assms(3)] .
qed

end

lemma gated_session_command: "gated_command f \<Longrightarrow> session_command f"
  by (simp add: gated_command_def)

lemmas gated_handlers =
  pwd.gated_command_axioms cwd.gated_command_axioms cdup.gated_command_axioms
  mode.gated_command_axioms stru.gated_command_axioms type.gated_command_axioms
  pasv.gated_command_axioms port.gated_command_axioms list.gated_command_axioms
  mlsd.gated_command_axioms dele.gated_command_axioms noop.gated_command_axioms
  retr.gated_command_axioms stor.gated_command_axioms mkd.gated_command_axioms
  rmd.gated_command_axioms rnfr.gated_command_axioms rnto.gated_command_axioms
  feat.gated_command_axioms mdtm.gated_command_axioms size.gated_command_axioms
  site.gated_command_axioms stat.gated_command_axioms syst.gated_command_axioms

lemmas free_handlers =
  auth.session_command_axioms user.session_command_axioms pass.session_command_axioms

definition login_commands :: "string set" where
  "login_commands = {''AUTH'', ''USER'', ''PASS''}"

interpretation ftpd: command_table ftpd_commands login_commands
proof (rule command_table.intro)
  fix d
  show "session_command (cmd_func d)" if "d \<in> set ftpd_commands"
    using that gated_handlers [THEN gated_session_command] free_handlers
    unfolding ftpd_commands_def entry_def list.set by (elim insertE emptyE) simp_all
  show "gated_command (cmd_func d)" if "d \<in> set ftpd_commands" "cmd_name d \<notin> login_commands"
    using that gated_handlers
    unfolding ftpd_commands_def entry_def list.set login_commands_def
    by (elim insertE emptyE) simp_all
qed

section \<open>The login automaton\<close>

fun login_next :: "ftp_user_t \<Rightarrow> string \<Rightarrow> string \<Rightarrow> ftp_user_t" where
  \<comment> \<open>the login state after one command, from the state, the command and its parameter\<close>
  "login_next u c a =
     (if c = ''USER'' \<and> a = FTP_USER_NAME_DEFAULT then FTP_USER_USER_NO_PASS
      else if c = ''PASS'' \<and> u \<noteq> FTP_USER_NONE \<and> a = FTP_USER_PASS_DEFAULT then FTP_USER_USER_LOGGED_IN
      else u)"

definition auth_step :: "ftp_user_t \<Rightarrow> netbuf \<Rightarrow> ftp_user_t" where
  "auth_step u nb =
     (case parse_payload nb of
        Some (ret, cmd, ps) \<Rightarrow> if ret < 0 then u else login_next u cmd (cstr ps)
      | None \<Rightarrow> u)"

fun auth_state :: "env \<Rightarrow> nat \<Rightarrow> trace \<Rightarrow> ftp_user_t" where
  \<comment> \<open>the login state recomputed from what the client sent after the first \<open>n\<close> events\<close>
  "auth_state e n [] = FTP_USER_NONE"
| "auth_state e n (ev # t) =
     (if length t < n then FTP_USER_NONE
      else if ev = CtrlRecv \<and> fst (e_recv e (ev # t)) = ERR_OK
           then auth_step (auth_state e n t) (snd (e_recv e (ev # t)))
      else auth_state e n t)"

fun fs_guarded :: "env \<Rightarrow> nat \<Rightarrow> trace \<Rightarrow> bool" where
  \<comment> \<open>after the first \<open>n\<close> events the file system is only used in the logged-in state\<close>
  "fs_guarded e n [] = True"
| "fs_guarded e n (ev # t) =
     (fs_guarded e n t \<and>
      (n \<le> length t \<and> is_fs_event ev \<longrightarrow> auth_state e n t = FTP_USER_USER_LOGGED_IN))"

lemma auth_state_start: "auth_state e (length t) t = FTP_USER_NONE"
  by (cases t) simp_all

lemma fs_guarded_start: "length t \<le> n \<Longrightarrow> fs_guarded e n t"
  by (induction t) auto

lemma auth_state_append:
  "CtrlRecv \<notin> set es \<Longrightarrow> n \<le> length t \<Longrightarrow> auth_state e n (es @ t) = auth_state e n t"
  by (induction es) auto

lemma fs_guarded_append:
  "CtrlRecv \<notin> set es \<Longrightarrow> n \<le> length t \<Longrightarrow> fs_guarded e n t \<Longrightarrow>
   ((\<exists>ev \<in> set es. is_fs_event ev) \<longrightarrow> auth_state e n t = FTP_USER_USER_LOGGED_IN) \<Longrightarrow>
   fs_guarded e n (es @ t)"
  by (induction es) (auto simp: auth_state_append)

lemma fs_guarded_split:
  "fs_guarded e n (newer @ ev # older) \<Longrightarrow> n \<le> length older \<Longrightarrow> is_fs_event ev \<Longrightarrow>
   auth_state e n older = FTP_USER_USER_LOGGED_IN"
  by (induction newer) auto

section \<open>One command\<close>

lemma find_login_commands:
  "find_command ''USER'' ftpd_commands = Some (entry ''USER'' ftp_cmd_user)"
  "find_command ''PASS'' ftpd_commands = Some (entry ''PASS'' ftp_cmd_pass)"
  "find_command ''AUTH'' ftpd_commands = Some (entry ''AUTH'' ftp_cmd_auth)"
  by (simp_all add: ftpd_commands_def entry_def)

definition command_effect :: "env \<Rightarrow> nat set \<Rightarrow> sess \<Rightarrow> sess \<Rightarrow> bool" where
  "command_effect e B s s' \<longleftrightarrow>
     sess_ok B s' \<and> user s' = login_next (user s) (command s) (param s) \<and>
     (\<exists>es. tr s' = es @ tr s \<and> CtrlRecv \<notin> set es \<and>
        ((\<exists>ev \<in> set es. is_fs_event ev) \<longrightarrow> logged_in s \<and> user s' = user s))"

lemma command_effect_reply:
  assumes "sess_ok B s" and "s' = (reply m s)\<lparr>user := login_next (user s) (command s) (param s)\<rparr>"
  shows "command_effect e B s s'"
proof -
  have "tr s' = [CtrlWrite (take (FTP_BUF_SIZE - 1) (m @ crlf))] @ tr s"
    using assms(2) by (simp add: reply_def ftp_send_def)
  moreover have "sess_ok B s'" using assms by (simp add: sess_ok_def)
  ultimately show ?thesis
    using assms(2) unfolding command_effect_def by fastforce
qed

lemma reply_same_user: "(reply m s)\<lparr>user := user s\<rparr> = reply m s"
  by (simp add: reply_def ftp_send_def)

lemma user_reply:
  assumes "ftp_cmd_user e s = Some s'"
  shows "\<exists>m. s' = (reply m s)\<lparr>user := login_next (user s) ''USER'' (param s)\<rparr>"
proof (cases "param s = FTP_USER_NAME_DEFAULT")
  case True
  then show ?thesis using assms by (auto simp: ftp_cmd_user_def)
next
  case False
  then show ?thesis
    using assms by (intro exI [of _ "''530 Username not known''"]) (auto simp: ftp_cmd_user_def reply_same_user)
qed

lemma pass_reply:
  assumes "ftp_cmd_pass e s = Some s'"
  shows "\<exists>m. s' = (reply m s)\<lparr>user := login_next (user s) ''PASS'' (param s)\<rparr>"
proof (cases "user s \<noteq> FTP_USER_NONE \<and> param s = FTP_USER_PASS_DEFAULT")
  case True
  then show ?thesis using assms by (auto simp: ftp_cmd_pass_def)
next
  case False
  then have "login_next (user s) ''PASS'' (param s) = user s" by auto
  moreover obtain m where "s' = reply m s"
    using assms False by (auto simp: ftp_cmd_pass_def split: if_splits)
  ultimately show ?thesis by (metis reply_same_user)
qed

lemma login_command_effect:
  assumes "sess_ok B s" and "command s \<in> login_commands"
    and "find_command (command s) ftpd_commands = Some d" and "cmd_func d e s = Some s'"
  shows "command_effect e B s s'"
proof -
  consider "command s = ''USER''" "ftp_cmd_user e s = Some s'"
    | "command s = ''PASS''" "ftp_cmd_pass e s = Some s'"
    | "command s = ''AUTH''" "ftp_cmd_auth e s = Some s'"
    using assms(2-4) by (auto simp: login_commands_def find_login_commands entry_def)
  then have "\<exists>m. s' = (reply m s)\<lparr>user := login_next (user s) (command s) (param s)\<rparr>"
  proof cases
    case 1
    then show ?thesis using user_reply by simp
  next
    case 2
    then show ?thesis using pass_reply by simp
  next
    case 3
    then show ?thesis
      by (intro exI [of _ "''504 Not available''"]) (auto simp: ftp_cmd_auth_def reply_same_user)
  qed
  then show ?thesis using command_effect_reply [OF assms(1)] by blast
qed

lemma gated_command_effect:
  assumes "sess_ok B s" and "command s \<notin> login_commands"
    and "find_command (command s) ftpd_commands = Some d" and "cmd_func d e s = Some s'"
  shows "command_effect e B s s'"
proof -
  have keep: "sess_ok B s'" "extends s s'"
    using ftpd.dispatch_keeps [OF assms(3,1,4)] by simp_all
  have usr: "user s' = user s" by (rule ftpd.dispatch_login(1) [OF assms(3,1,4,2)])
  have nxt: "login_next (user s) (command s) (param s) = user s"
    using assms(2) by (auto simp: login_commands_def)
  show ?thesis
  proof (cases "logged_in s")
    case True
    then show ?thesis using keep usr nxt by (auto simp: command_effect_def extends_def)
  next
    case False
    then have "s' = s" by (rule ftpd.dispatch_login(2) [OF assms(3,1,4,2)])
    then show ?thesis using keep nxt by (auto simp: command_effect_def)
  qed
qed

lemma process_command_effect:
  assumes "sess_ok B s" and "ftp_process_command e s = Some (run, s')"
  shows "command_effect e B s s'"
proof -
  have quit: "command_effect e B s s" if "command s = ''QUIT''"
    using assms(1) that by (auto simp: command_effect_def)
  have none: "command_effect e B s (reply m s)" if "find_command (command s) ftpd_commands = None" for m
  proof -
    have "login_next (user s) (command s) (param s) = user s"
      using that find_login_commands by auto
    then show ?thesis
      using command_effect_reply [OF assms(1), of "reply m s" m] by (auto simp: reply_def ftp_send_def)
  qed
  have found: "command_effect e B s s1"
    if "find_command (command s) ftpd_commands = Some d" "cmd_func d e s = Some s1" for d s1
    using login_command_effect [OF assms(1) _ that] gated_command_effect [OF assms(1) _ that] by blast
  show ?thesis
    using assms(2) quit none found
    by (auto simp: ftp_process_command_def split: if_splits option.splits elim!: option_bind_SomeE)
qed

section \<open>The whole session\<close>

definition sess_idle :: "nat set \<Rightarrow> sess \<Rightarrow> bool" where
  \<comment> \<open>\<open>sess_ok\<close> without what it says of the parameters, which are only set by the first command\<close>
  "sess_idle B s \<longleftrightarrow> path_ok (path s) \<and> (path_rename s = [] \<or> path_ok (path_rename s))
     \<and> conns_of B s \<and> ctrlconn s \<in> B \<and> dataconn s = None"

definition session_inv :: "env \<Rightarrow> nat set \<Rightarrow> nat \<Rightarrow> sess \<Rightarrow> bool" where
  "session_inv e B n s \<longleftrightarrow> sess_idle B s \<and> n \<le> length (tr s) \<and>
     user s = auth_state e n (tr s) \<and> fs_guarded e n (tr s)"

lemma sess_ok_idle: "sess_ok B s \<Longrightarrow> sess_idle B s"
  unfolding sess_ok_def sess_core_def sess_idle_def by blast

lemma conns_replicate_recv: "conns B l d t \<Longrightarrow> conns B l d (replicate k CtrlRecv @ t)"
  by (induction k) auto

lemma fs_guarded_recvs: "fs_guarded e n t \<Longrightarrow> fs_guarded e n (replicate k CtrlRecv @ t)"
  by (induction k) auto

lemma read_loop_auth:
  assumes "read_command_loop e k s = (r, s')" and "n \<le> length (tr s)"
  shows "auth_state e n (tr s') = (if r = 0 then auth_step (auth_state e n (tr s)) (inbuf s')
                                   else auth_state e n (tr s))"
  using assms
proof (induction k arbitrary: s)
  case (Suc k)
  define t where "t = CtrlRecv # tr s"
  define s1 where "s1 = s\<lparr>inbuf := inbuf s, tr := t\<rparr>"
  consider (ok) "fst (e_recv e t) = ERR_OK" | (tmo) "fst (e_recv e t) = ERR_TIMEOUT"
    | (err) "fst (e_recv e t) \<noteq> ERR_OK" "fst (e_recv e t) \<noteq> ERR_TIMEOUT" by blast
  then show ?case
  proof cases
    case ok
    then show ?thesis using Suc.prems by (auto simp: Let_def t_def)
  next
    case tmo
    then have "read_command_loop e k s1 = (r, s')"
      using Suc.prems by (simp add: Let_def t_def s1_def ERR_OK_def ERR_TIMEOUT_def ftp_eth_is_connected_def)
    then show ?thesis
      using Suc.IH [of s1] Suc.prems tmo by (simp add: s1_def t_def ERR_OK_def ERR_TIMEOUT_def)
  next
    case err
    then show ?thesis using Suc.prems by (auto simp: Let_def t_def)
  qed
qed simp

lemma read_command_inv:
  assumes inv: "session_inv e B n s" and run: "ftp_read_command e s = (r, s')"
  shows "sess_idle B s'" "n \<le> length (tr s')" "fs_guarded e n (tr s')" "r \<noteq> 0 \<Longrightarrow> session_inv e B n s'"
    "r = 0 \<Longrightarrow> auth_state e n (tr s') = auth_step (user s') (inbuf s')"
proof -
  have loop: "read_command_loop e FTP_TIME_OUT_S s = (r, s')" using run by (simp add: ftp_read_command_def)
  obtain nb t where s': "s' = s\<lparr>inbuf := nb, tr := t\<rparr>"
    using read_command_loop_frame [where e = e and n = FTP_TIME_OUT_S and s = s] loop by auto
  obtain k where k: "tr s' = replicate k CtrlRecv @ tr s"
    using read_command_loop_recvs [where e = e and n = FTP_TIME_OUT_S and s = s] loop by auto
  show idle: "sess_idle B s'"
    using inv s' k conns_replicate_recv by (auto simp: session_inv_def sess_idle_def)
  show n: "n \<le> length (tr s')" using inv k by (simp add: session_inv_def)
  show fs: "fs_guarded e n (tr s')" using inv k fs_guarded_recvs by (simp add: session_inv_def)
  have u: "user s' = auth_state e n (tr s)" using inv s' by (simp add: session_inv_def)
  note auth = read_loop_auth [OF loop, of n]
  have le: "n \<le> length (tr s)" using inv by (simp add: session_inv_def)
  show "session_inv e B n s'" if "r \<noteq> 0"
    using that auth le idle n fs u by (simp add: session_inv_def)
  show "auth_state e n (tr s') = auth_step (user s') (inbuf s')" if "r = 0"
    using that auth le u by simp
qed

lemma parse_command_inv:
  assumes idle: "sess_idle B s" and n: "n \<le> length (tr s)" and fs: "fs_guarded e n (tr s)"
    and auth: "auth_state e n (tr s) = auth_step (user s) (inbuf s)"
    and run: "ftp_parse_command s = Some (r, s')"
  shows "sess_ok B s'" "n \<le> length (tr s')" "fs_guarded e n (tr s')"
    "auth_state e n (tr s') = (if r < 0 then user s' else login_next (user s') (command s') (param s'))"
proof -
  obtain cmd ps where p: "parse_payload (inbuf s) = Some (r, cmd, ps)"
    and s': "s' = s\<lparr>command := cmd, parameters := ps, tr := NetbufDelete # tr s\<rparr>"
    using run by (auto simp: ftp_parse_command_def elim!: option_bind_SomeE)
  note b = parse_payload_bounds [OF p]
  show "sess_ok B s'"
    using idle b s' by (auto simp: sess_idle_def sess_ok_def sess_core_def param_def)
  show "n \<le> length (tr s')" "fs_guarded e n (tr s')" using n fs s' by simp_all
  show "auth_state e n (tr s') = (if r < 0 then user s' else login_next (user s') (command s') (param s'))"
    using auth p s' n by (simp add: auth_step_def param_def)
qed

lemma process_command_inv:
  assumes ok: "sess_ok B s" and n: "n \<le> length (tr s)" and fs: "fs_guarded e n (tr s)"
    and auth: "auth_state e n (tr s) = login_next (user s) (command s) (param s)"
    and run: "ftp_process_command e s = Some (b, s')"
  shows "session_inv e B n s'"
proof -
  have eff: "command_effect e B s s'" by (rule process_command_effect [OF ok run])
  then obtain es where es: "tr s' = es @ tr s" "CtrlRecv \<notin> set es"
    and g: "(\<exists>ev \<in> set es. is_fs_event ev) \<longrightarrow> logged_in s \<and> user s' = user s"
    and u: "user s' = login_next (user s) (command s) (param s)" and ok': "sess_ok B s'"
    by (auto simp: command_effect_def)
  have a: "auth_state e n (tr s') = user s'" using auth_state_append [OF es(2) n] es(1) auth u by simp
  have "fs_guarded e n (tr s')"
    unfolding es(1) using fs_guarded_append [OF es(2) n fs] g u auth by (auto simp: logged_in_def)
  then show ?thesis
    using a ok' es(1) n by (auto simp: session_inv_def intro: sess_ok_idle)
qed

lemma session_inv_reply: "session_inv e B n s \<Longrightarrow> session_inv e B n (reply m s)"
  by (auto simp: session_inv_def sess_idle_def reply_def ftp_send_def)

lemmas service_loop_induct = service_loop.raw_induct [rotated, consumes 1, case_names step]

lemma service_loop_inv:
  "service_loop e s = Some s' \<Longrightarrow> session_inv e B n s \<Longrightarrow> session_inv e B n s'"
proof (induction rule: service_loop_induct)
  case (step rec e s s')
  obtain r s1 where r: "ftp_read_command e s = (r, s1)" by (metis surj_pair)
  note rd = read_command_inv [OF step(3) r]
  show ?case
  proof (cases "r = 0")
    case False
    then show ?thesis using step(2) r rd(4) by simp
  next
    case True
    then obtain r2 s2 where p: "ftp_parse_command s1 = Some (r2, s2)"
      using step(2) r by (auto elim!: option_bind_SomeE)
    note pc = parse_command_inv [OF rd(1,2,3) rd(5) [OF True] p]
    show ?thesis
    proof (cases "r2 < 0")
      case neg: True
      then show ?thesis using step(2) r True p pc sess_ok_idle by (simp add: session_inv_def)
    next
      case False
      then obtain run s3 where pr: "ftp_process_command e s2 = Some (run, s3)"
        using step(2) r True p by (auto elim!: option_bind_SomeE)
      have "session_inv e B n s3" using process_command_inv [OF pc(1,2,3) _ pr] pc(4) False by simp
      then show ?thesis
        using step(1) [of e s3 s'] step(2) r True p pr False session_inv_reply
        by (auto split: if_splits)
    qed
  qed
qed

end
