(* ===== verification/FtpBytes.thy ===== *)
theory FtpBytes
  imports FtpXfer
begin

text \<open>
  What RETR and STOR do with the bytes of a file. The bytes read from the file, received from
  the client, handed to the socket, handed to \<open>f_write\<close> and written by it are all read off the trace; the
  lemmas relate them for every environment, and show that a transfer ends and is complete when
  the calls succeed.
\<close>

section \<open>Bytes in a trace\<close>

fun read_bytes :: "env \<Rightarrow> trace \<Rightarrow> string" where
  \<comment> \<open>what the successful calls of \<open>f_read\<close> returned\<close>
  "read_bytes e [] = []"
| "read_bytes e (FRead n # t) =
     read_bytes e t @ (if fst (e_read e (FRead n # t)) = FR_OK then take n (snd (e_read e (FRead n # t))) else [])"
| "read_bytes e (_ # t) = read_bytes e t"

fun recv_bytes :: "env \<Rightarrow> trace \<Rightarrow> string" where
  \<comment> \<open>what the client sent, as far as it was received without an error\<close>
  "recv_bytes e [] = []"
| "recv_bytes e (DataRecv c # t) =
     recv_bytes e t @ (if fst (e_data_recv e (DataRecv c # t)) = ERR_OK
       then take (unat (pb_tot_len (snd (e_data_recv e (DataRecv c # t)))))
              (pb_payload (snd (e_data_recv e (DataRecv c # t)))) else [])"
| "recv_bytes e (_ # t) = recv_bytes e t"

fun writes_ok :: "env \<Rightarrow> trace \<Rightarrow> bool" where
  "writes_ok e [] = True"
| "writes_ok e (FWrite bs # t) = (writes_ok e t \<and> fst (e_write e (FWrite bs # t)) = FR_OK)"
| "writes_ok e (_ # t) = writes_ok e t"

definition data_view :: "env \<Rightarrow> trace \<Rightarrow> string \<times> string \<times> string \<times> string \<times> bool" where
  "data_view e t = (read_bytes e t, sent_bytes t, recv_bytes e t, file_bytes t, writes_ok e t)"

lemma data_view_simps [simp]:
  "data_view e (CtrlWrite m # t) = data_view e t" "data_view e (Diag m # t) = data_view e t"
  "data_view e (ConnNew n # t) = data_view e t" "data_view e (ConnNewFailed # t) = data_view e t"
  "data_view e (ConnAccept n n2 # t) = data_view e t" "data_view e (ConnAcceptFailed n # t) = data_view e t"
  "data_view e (ConnBind n p # t) = data_view e t" "data_view e (ConnTimeout n i # t) = data_view e t"
  "data_view e (ConnConnect n ip p # t) = data_view e t" "data_view e (ConnClose n # t) = data_view e t"
  "data_view e (ConnDelete n # t) = data_view e t" "data_view e (FStat q # t) = data_view e t"
  "data_view e (FOpen q md # t) = data_view e t" "data_view e (FSize # t) = data_view e t"
  "data_view e (FClose # t) = data_view e t" "data_view e (PbufFree # t) = data_view e t"
  "data_view e (diag_err r m t) = data_view e t"
  by (simp_all add: data_view_def diag_err_def)

lemma data_view_calls [simp]:
  "data_view e (tr (reply m s)) = data_view e (tr s)"
  "data_view e (tr (snd (ftps_f_stat e p s))) = data_view e (tr s)"
  "data_view e (tr (snd (ftps_f_open e p md s))) = data_view e (tr s)"
  "data_view e (tr (snd (ftps_f_size e s))) = data_view e (tr s)"
  "data_view e (tr (snd (ftps_f_close e s))) = data_view e (tr s)"
  "data_view e (tr (log_event PbufFree s)) = data_view e (tr s)"
  "data_view e (tr (log_event (Diag m) s)) = data_view e (tr s)"
  "data_view e (tr (data_con_close s)) = data_view e (tr s)"
  "data_view e (tr (snd (data_con_open e s))) = data_view e (tr s)"
  by (auto simp: reply_def ftp_send_def file_defs Let_def log_event_def data_con_close_def
      data_con_open_def netconn_defs split: option.splits)

lemma data_view_end [simp]: "data_view e (tr (end_transfer e s)) = data_view e (tr s)"
  by (simp add: end_transfer_def Let_def)

lemma data_viewD:
  assumes "data_view e t' = data_view e t"
  shows "read_bytes e t' = read_bytes e t" "sent_bytes t' = sent_bytes t"
    "recv_bytes e t' = recv_bytes e t" "file_bytes t' = file_bytes t" "writes_ok e t' = writes_ok e t"
  using assms by (simp_all add: data_view_def)

lemmas data_view_call_facts [simp] = data_view_calls [THEN data_viewD(1)]
  data_view_calls [THEN data_viewD(2)] data_view_calls [THEN data_viewD(3)]
  data_view_calls [THEN data_viewD(4)] data_view_calls [THEN data_viewD(5)]
  data_view_end [THEN data_viewD(1)] data_view_end [THEN data_viewD(2)]
  data_view_end [THEN data_viewD(3)] data_view_end [THEN data_viewD(4)]
  data_view_end [THEN data_viewD(5)]

section \<open>RETR hands on what it reads\<close>

definition same_bytes :: "env \<Rightarrow> trace \<Rightarrow> trace \<Rightarrow> bool" where
  \<comment> \<open>between two moments, the socket was given exactly what was read from the file\<close>
  "same_bytes e t t' \<longleftrightarrow>
     (\<exists>x. read_bytes e t' = read_bytes e t @ x \<and> sent_bytes t' = sent_bytes t @ x)"

lemma same_bytes_view: "data_view e t' = data_view e t \<Longrightarrow> same_bytes e t t'"
  by (simp add: same_bytes_def data_view_def)

lemma same_bytes_trans: "same_bytes e t u \<Longrightarrow> same_bytes e u v \<Longrightarrow> same_bytes e t v"
  by (auto simp: same_bytes_def)

lemma retr_round:
  fixes e :: env
  assumes "dataconn s = Some c"
  defines "s1 \<equiv> snd (ftps_f_read e FTP_BUF_SIZE s)" and "bs \<equiv> snd (fst (ftps_f_read e FTP_BUF_SIZE s))"
  shows "fst (fst (ftps_f_read e FTP_BUF_SIZE s)) = FR_OK \<Longrightarrow>
           same_bytes e (tr s) (tr (snd (netconn_write_data e bs s1)))"
    and "fst (fst (ftps_f_read e FTP_BUF_SIZE s)) \<noteq> FR_OK \<Longrightarrow> same_bytes e (tr s) (tr s1)"
    and "bs = [] \<Longrightarrow> same_bytes e (tr s) (tr s1)"
  using assms(1) unfolding s1_def bs_def
  by (auto simp: same_bytes_def ftps_f_read_def netconn_write_data_def Let_def diag_err_def)

lemma retr_loop_bytes:
  "retr_loop e s = Some s' \<Longrightarrow> dataconn s \<noteq> None \<Longrightarrow> same_bytes e (tr s) (tr s')"
proof (induction rule: retr_loop_induct)
  case (step rec e s s')
  define s1 where "s1 = snd (ftps_f_read e FTP_BUF_SIZE s)"
  define res where "res = fst (fst (ftps_f_read e FTP_BUF_SIZE s))"
  define bs where "bs = snd (fst (ftps_f_read e FTP_BUF_SIZE s))"
  define s2 where "s2 = snd (netconn_write_data e bs s1)"
  obtain c where c: "dataconn s = Some c" using step(3) by blast
  note r = retr_round [OF c, of e, folded s1_def bs_def res_def s2_def]
  have dc: "dataconn s2 \<noteq> None"
    using c keeps_sessD(5) [OF keeps_data_calls(1) [of s1 e bs]] by (simp add: s2_def s1_def)
  have rep: "same_bytes e (tr u) (tr (reply m u))" for m u by (rule same_bytes_view) simp
  consider (bad) "res \<noteq> FR_OK" "s' = reply ''451 Communication error during transfer'' s1"
    | (eof) "res = FR_OK" "bs = []" "s' = s1"
    | (err) m where "res = FR_OK" "bs \<noteq> []" "s' = reply m s2"
    | (more) "res = FR_OK" "bs \<noteq> []" "rec e s2 = Some s'"
    using step(2) unfolding s2_def
    by (auto simp: case_prod_beta s1_def [symmetric] bs_def [symmetric] res_def [symmetric] split: if_splits)
  then show ?case
  proof cases
    case more
    then show ?thesis using step(1) dc r(1) by (blast intro: same_bytes_trans)
  qed (use r rep same_bytes_trans in blast)+
qed

lemma retr_bytes:
  assumes "sess_ok B s" and "ftp_cmd_retr e s = Some s'"
  shows "same_bytes e (tr s) (tr s')"
proof -
  have opn: "same_bytes e (tr u) (tr s')"
    if run: "retr_transfer e u = Some s'" and core: "sess_core B u" and dc: "dataconn u = None" for u
  proof -
    obtain r s1 where o: "data_con_open e u = (r, s1)" by (metis surj_pair)
    have v1: "data_view e (tr s1) = data_view e (tr u)"
      using data_view_calls(9) [of e u] o by simp
    show ?thesis
    proof (cases "r = 0")
      case False
      then show ?thesis using run o v1 by (auto simp: retr_transfer_def path_up_def intro!: same_bytes_view)
    next
      case True
      have dc1: "dataconn s1 \<noteq> None" by (rule data_con_open_core(3) [OF core dc o True])
      from run o True obtain m s3 where "retr_loop e (reply m (snd (ftps_f_size e s1))) = Some s3"
        and s': "s' = end_transfer e s3"
        by (auto simp: retr_transfer_def case_prod_beta Let_def elim!: option_bind_SomeE)
      then have "same_bytes e (tr (reply m (snd (ftps_f_size e s1)))) (tr s3)"
        using dc1 by (intro retr_loop_bytes) simp_all
      then show ?thesis using v1 s' by (simp add: same_bytes_def data_view_def)
    qed
  qed
  show ?thesis
  proof (cases "logged_in s \<and> param s \<noteq> []")
    case False
    then show ?thesis
      using assms(2) by (auto simp: ftp_cmd_retr_def same_bytes_view split: if_splits)
  next
    case True
    then obtain q b where b: "path_build (path s) (param s) = Some (q, b)"
      using assms(2) by (auto simp: ftp_cmd_retr_def elim!: option_bind_SomeE)
    have core: "sess_core B (s\<lparr>path := q\<rparr>)" "dataconn s = None"
      using assms(1) b by (simp_all add: sess_ok_def)
    define s2 where "s2 = snd (ftps_f_stat e q (s\<lparr>path := q\<rparr>))"
    define s3 where "s3 = snd (ftps_f_open e q FA_READ s2)"
    have s3: "sess_core B s3" "dataconn s3 = None" "data_view e (tr s3) = data_view e (tr s)"
      "data_view e (tr s2) = data_view e (tr s)"
      using core by (simp_all add: s2_def s3_def)
    have p2: "path s2 = q" by (simp add: s2_def)
    consider (quit) "data_view e (tr s') = data_view e (tr s)" | (go) "retr_transfer e s3 = Some s'"
      using assms(2) True b s3 p2
      by (auto simp: ftp_cmd_retr_def case_prod_beta Let_def s2_def [symmetric] s3_def [symmetric] split: if_splits)
    then show ?thesis
    proof cases
      case quit
      then show ?thesis by (rule same_bytes_view)
    next
      case go
      from opn [OF go s3(1,2)] s3(3) show ?thesis by (simp add: same_bytes_def data_view_def)
    qed
  qed
qed

section \<open>A whole file is delivered\<close>

fun reads :: "trace \<Rightarrow> nat" where
  \<comment> \<open>calls of \<open>f_read\<close> since the file was opened\<close>
  "reads [] = 0"
| "reads (FRead n # t) = Suc (reads t)"
| "reads (FOpen p md # t) = 0"
| "reads (_ # t) = reads t"

definition serves_file :: "env \<Rightarrow> string \<Rightarrow> bool" where
  \<comment> \<open>\<open>f_read\<close> hands out the file \<open>f\<close> block by block, and 0 bytes at its end\<close>
  "serves_file e f \<longleftrightarrow> (\<forall>t. e_read e (FRead FTP_BUF_SIZE # t) =
     (FR_OK, take FTP_BUF_SIZE (drop (FTP_BUF_SIZE * reads t) f)))"

definition net_sends :: "env \<Rightarrow> bool" where
  "net_sends e \<longleftrightarrow> (\<forall>c bs t. e_data_write e (DataWrite c bs # t) = ERR_OK)"

lemma retr_loop_delivers:
  assumes "serves_file e f" and "net_sends e" and "dataconn s = Some c"
  shows "\<exists>s'. retr_loop e s = Some s' \<and>
    sent_bytes (tr s') = sent_bytes (tr s) @ drop (FTP_BUF_SIZE * reads (tr s)) f"
  using assms(3)
proof (induction "length (drop (FTP_BUF_SIZE * reads (tr s)) f)" arbitrary: s rule: less_induct)
  case less
  define g where "g = drop (FTP_BUF_SIZE * reads (tr s)) f"
  define s1 where "s1 = s\<lparr>tr := FRead FTP_BUF_SIZE # tr s\<rparr>"
  have rd: "ftps_f_read e FTP_BUF_SIZE s = ((FR_OK, take FTP_BUF_SIZE g), s1)"
    using assms(1) by (simp add: ftps_f_read_def serves_file_def g_def s1_def Let_def)
  show ?case
  proof (cases "g = []")
    case True
    then have "retr_loop e s = Some s1" by (subst retr_loop.simps) (simp add: rd)
    then show ?thesis using True by (simp add: s1_def g_def [symmetric])
  next
    case False
    define s2 where "s2 = s1\<lparr>tr := DataWrite c (take FTP_BUF_SIZE g) # tr s1\<rparr>"
    have wr: "netconn_write_data e (take FTP_BUF_SIZE g) s1 = (ERR_OK, s2)"
      using assms(2) less.prems by (simp add: netconn_write_data_def net_sends_def s1_def s2_def Let_def)
    have rds: "reads (tr s2) = Suc (reads (tr s))" by (simp add: s2_def s1_def)
    have rest: "drop (FTP_BUF_SIZE * reads (tr s2)) f = drop FTP_BUF_SIZE g"
      unfolding rds g_def by (simp add: add.commute)
    have shorter: "length (drop FTP_BUF_SIZE g) < length g"
      using False by (simp add: FTP_BUF_SIZE_def)
    have dc: "dataconn s2 = Some c" using less.prems by (simp add: s2_def s1_def)
    obtain s' where s': "retr_loop e s2 = Some s'"
      "sent_bytes (tr s') = sent_bytes (tr s2) @ drop FTP_BUF_SIZE g"
      using less.hyps [of s2] dc shorter unfolding rest g_def [symmetric] by auto
    have "0 < FTP_BUF_SIZE" by (simp add: FTP_BUF_SIZE_def)
    then have "retr_loop e s = Some s'"
      using False s'(1) wr by (subst retr_loop.simps) (simp add: rd)
    then show ?thesis
      using s'(2) by (simp add: s2_def s1_def g_def [symmetric])
  qed
qed

lemma reads_open: "reads (tr (snd (ftps_f_open e p md s))) = 0"
  by (simp add: ftps_f_open_def Let_def diag_err_def)

lemma reads_calls [simp]:
  "reads (tr (reply m s)) = reads (tr s)" "reads (tr (snd (ftps_f_size e s))) = reads (tr s)"
  "reads (tr (snd (data_con_open e s))) = reads (tr s)"
  by (auto simp: reply_def ftp_send_def file_defs Let_def data_con_open_def netconn_defs
      split: option.splits)

lemma retr_transfer_delivers:
  assumes core: "sess_core B s" and dc: "dataconn s = None" and f: "serves_file e f" "net_sends e"
    and start: "reads (tr s) = 0" and conn: "fst (data_con_open e s) = 0"
  shows "\<exists>s'. retr_transfer e s = Some s' \<and> sent_bytes (tr s') = sent_bytes (tr s) @ f"
proof -
  define s1 where "s1 = snd (data_con_open e s)"
  have o: "data_con_open e s = (0, s1)" using conn by (simp add: s1_def prod_eq_iff)
  obtain c where c: "dataconn s1 = Some c" using data_con_open_core(3) [OF core dc o] by blast
  define m where "m = ''150 Connected to port '' @ dec (unat (data_port (snd (ftps_f_size e s1)))) @ '', ''
    @ dec (unat (fst (ftps_f_size e s1))) @ '' bytes to download''"
  define s2 where "s2 = reply m (snd (ftps_f_size e s1))"
  have s2: "dataconn s2 = Some c" "reads (tr s2) = 0" "sent_bytes (tr s2) = sent_bytes (tr s)"
    using c start by (simp_all add: s2_def s1_def)
  obtain s3 where s3: "retr_loop e s2 = Some s3" "sent_bytes (tr s3) = sent_bytes (tr s) @ f"
    using retr_loop_delivers [OF f s2(1)] s2 by auto
  have "retr_transfer e s = Some (end_transfer e s3)"
    using s3(1) o by (simp add: retr_transfer_def case_prod_beta Let_def m_def s2_def)
  then show ?thesis using s3(2) by simp
qed

section \<open>STOR writes what it receives\<close>

definition copied :: "env \<Rightarrow> string \<Rightarrow> string \<Rightarrow> trace \<Rightarrow> nat \<times> string \<times> sess \<Rightarrow> bool" where
  \<comment> \<open>what has been copied: \<open>buf\<close> was in the buffer at trace \<open>t\<close> and \<open>src\<close> came in since; in the result, what is
      not yet in the file is in the buffer, unless a write failed\<close>
  "copied e buf src t y \<longleftrightarrow> (case y of (err, buf', s') \<Rightarrow>
     (\<exists>w. file_bytes (tr s') = file_bytes t @ w) \<and>
     (err = 0 \<longrightarrow> file_bytes (tr s') @ buf' = file_bytes t @ buf @ src \<and> length buf' < FTP_BUF_SIZE) \<and>
     (err \<noteq> 0 \<longrightarrow> (\<exists>rest. file_bytes (tr s') @ rest = file_bytes t @ buf @ src)) \<and>
     (writes_ok e (tr s') \<longrightarrow> writes_ok e t \<and> err = 0))"

lemma write_view [simp]:
  "file_bytes (tr (snd (ftps_f_write e b s))) = file_bytes (tr s) @ b"
  "recv_bytes e (tr (snd (ftps_f_write e b s))) = recv_bytes e (tr s)"
  "writes_ok e (tr (snd (ftps_f_write e b s))) = (writes_ok e (tr s) \<and> fst (fst (ftps_f_write e b s)) = FR_OK)"
  by (simp_all add: ftps_f_write_def Let_def diag_err_def)

lemma stor_copy_bytes:
  "stor_copy e src n buf s = Some y \<Longrightarrow> length buf < FTP_BUF_SIZE \<Longrightarrow>
   copied e buf (take n src) (tr s) y \<and> recv_bytes e (tr (snd (snd y))) = recv_bytes e (tr s)"
proof (induction rule: stor_copy_induct)
  case (step rec e src n buf s y)
  define k where "k = (if n \<le> FTP_BUF_SIZE - length buf then n else FTP_BUF_SIZE - length buf)"
  define b where "b = buf @ take k src"
  define s1 where "s1 = snd (ftps_f_write e b s)"
  define err where "err = fst (fst (ftps_f_write e b s))"
  have fok: "FR_OK = 0" by (simp add: FR_OK_def)
  have split: "take n src = take k src @ take (n - k) (drop k src)"
    by (simp add: k_def take_add [symmetric])
  consider (none) "n = 0" "y = (FR_OK, buf, s)"
    | (fail) "n \<noteq> 0" "k \<le> length src" "length b = FTP_BUF_SIZE" "err \<noteq> 0" "y = (err, b, s1)"
    | (full) "n \<noteq> 0" "k \<le> length src" "length b = FTP_BUF_SIZE" "err = 0"
        "rec e (drop k src) (n - k) [] s1 = Some y"
    | (part) "n \<noteq> 0" "k \<le> length src" "length b \<noteq> FTP_BUF_SIZE"
        "rec e (drop k src) (n - k) b s = Some y"
    using step(2) unfolding k_def [symmetric] Let_def b_def [symmetric]
    by (auto simp: case_prod_beta s1_def err_def split: if_splits)
  then show ?case
  proof cases
    case none
    then show ?thesis using step(3) by (simp add: copied_def fok)
  next
    case fail
    have w: "file_bytes (tr s1) = file_bytes (tr s) @ b" "recv_bytes e (tr s1) = recv_bytes e (tr s)"
      "\<not> writes_ok e (tr s1)" using fail(4) by (simp_all add: s1_def err_def fok)
    then show ?thesis using fail(4,5) split by (simp add: copied_def b_def)
  next
    case full
    have w: "file_bytes (tr s1) = file_bytes (tr s) @ b" "recv_bytes e (tr s1) = recv_bytes e (tr s)"
      "writes_ok e (tr s1) = writes_ok e (tr s)" using full(4) by (simp_all add: s1_def err_def fok)
    have "copied e [] (take (n - k) (drop k src)) (tr s1) y
        \<and> recv_bytes e (tr (snd (snd y))) = recv_bytes e (tr s1)"
      using step(1) [of e "drop k src" "n - k" "[]" s1 y] full(5) by (simp add: FTP_BUF_SIZE_def)
    then show ?thesis using w split by (auto simp: copied_def b_def case_prod_beta)
  next
    case part
    have "length b < FTP_BUF_SIZE"
      using part(2,3) step(3) by (auto simp: b_def k_def split: if_splits)
    then have "copied e b (take (n - k) (drop k src)) (tr s) y
        \<and> recv_bytes e (tr (snd (snd y))) = recv_bytes e (tr s)"
      using step(1) [of e "drop k src" "n - k" b s y] part(4) by simp
    then show ?thesis using split by (simp add: copied_def b_def case_prod_beta)
  qed
qed

lemma copied_trans:
  assumes "copied e buf x (t :: trace) (0, b, s1)" and "copied e b y t1 r"
    and "file_bytes t1 = file_bytes (tr s1)" and "writes_ok e t1 = writes_ok e (tr s1)"
  shows "copied e buf (x @ y) t r"
  using assms by (auto simp: copied_def case_prod_beta) (metis append_assoc)+

lemma copied_stop:
  assumes "copied e buf x t (err, b, s1)" and "data_view e (tr s2) = data_view e (tr s1)"
  shows "copied e buf x t (err, b, s2)"
  using assms(1) data_viewD [OF assms(2)] by (simp add: copied_def)

lemma copied_none:
  assumes "length buf < FTP_BUF_SIZE" and "file_bytes (tr s2) = file_bytes t"
    and "writes_ok e (tr s2) = writes_ok e t"
  shows "copied e buf [] t (FR_OK, buf, s2)"
  using assms by (simp add: copied_def FR_OK_def)

lemma recv_call:
  fixes e :: env
  assumes "dataconn s = Some c"
  defines "s1 \<equiv> snd (netconn_recv_tcp_pbuf e s)" and "seg \<equiv> snd (fst (netconn_recv_tcp_pbuf e s))"
    and "r \<equiv> fst (fst (netconn_recv_tcp_pbuf e s))"
  shows "file_bytes (tr s1) = file_bytes (tr s)" "writes_ok e (tr s1) = writes_ok e (tr s)"
    "recv_bytes e (tr s1) = recv_bytes e (tr s) @
       (if r = ERR_OK then take (unat (pb_tot_len seg)) (pb_payload seg) else [])"
  using assms(1) by (simp_all add: s1_def seg_def r_def netconn_recv_tcp_pbuf_def Let_def)

lemma stor_loop_bytes:
  "stor_loop e buf s = Some y \<Longrightarrow> length buf < FTP_BUF_SIZE \<Longrightarrow> dataconn s \<noteq> None \<Longrightarrow>
   \<exists>x. recv_bytes e (tr (snd (snd y))) = recv_bytes e (tr s) @ x \<and> copied e buf x (tr s) y"
proof (induction rule: stor_loop_induct)
  case (step rec e buf s y)
  define s1 where "s1 = snd (netconn_recv_tcp_pbuf e s)"
  define seg where "seg = snd (fst (netconn_recv_tcp_pbuf e s))"
  define r where "r = fst (fst (netconn_recv_tcp_pbuf e s))"
  define x1 where "x1 = take (unat (pb_tot_len seg)) (pb_payload seg)"
  obtain c where c: "dataconn s = Some c" using step(4) by blast
  note rc = recv_call [OF c, of e, folded s1_def seg_def r_def x1_def]
  have dc: "dataconn s1 = dataconn s" using keeps_sessD(5) [OF keeps_data_calls(2)] by (simp add: s1_def)
  show ?case
  proof (cases "r = ERR_OK")
    case False
    then obtain s2 where y: "y = (FR_OK, buf, s2)" and v: "data_view e (tr s2) = data_view e (tr s1)"
      using step(2) by (auto simp: case_prod_beta s1_def r_def split: if_splits)
    then show ?thesis
      using rc False copied_none [OF step(3)] data_viewD [OF v] by (intro exI [of _ "[]"]) simp
  next
    case True
    then obtain err b s2 where cp: "stor_copy e (pb_payload seg) (unat (pb_tot_len seg)) buf s1 = Some (err, b, s2)"
      and y: "(if err \<noteq> 0
        then Some (err, b, reply ''451 Communication error during transfer'' (log_event PbufFree s2))
        else rec e b (log_event PbufFree s2)) = Some y"
      using step(2)
      by (auto simp: case_prod_beta s1_def [symmetric] seg_def [symmetric] r_def [symmetric] Let_def
          ERR_OK_def ERR_CLSD_def elim!: option_bind_SomeE)
    have c1: "copied e buf x1 (tr s) (err, b, s2)" "recv_bytes e (tr s2) = recv_bytes e (tr s) @ x1"
      using stor_copy_bytes [OF cp step(3)] rc True by (simp_all add: x1_def copied_def)
    show ?thesis
    proof (cases "err = 0")
      case False
      then show ?thesis using y c1 copied_stop [OF c1(1)] by auto
    next
      case zero: True
      have dc2: "dataconn (log_event PbufFree s2) \<noteq> None"
        using keeps_sessD(5) [OF stor_copy_keeps [OF cp]] dc c by (simp add: log_event_def)
      have lb: "length b < FTP_BUF_SIZE" using c1(1) zero by (simp add: copied_def)
      obtain x2 where x2: "recv_bytes e (tr (snd (snd y))) = recv_bytes e (tr s2) @ x2"
        "copied e b x2 (tr (log_event PbufFree s2)) y"
        using step(1) [of e b "log_event PbufFree s2" y] y zero lb dc2 by auto
      have "copied e buf (x1 @ x2) (tr s) y"
        using copied_trans [OF c1(1) [unfolded zero] x2(2)] by simp
      then show ?thesis using x2(1) c1(2) by (intro exI [of _ "x1 @ x2"]) simp
    qed
  qed
qed

definition stored :: "env \<Rightarrow> trace \<Rightarrow> trace \<Rightarrow> bool" where
  \<comment> \<open>between two moments: what was handed to \<open>f_write\<close> is a prefix of what was received, and all of it unless
      a write failed\<close>
  "stored e t t' \<longleftrightarrow> (\<exists>x w rest. recv_bytes e t' = recv_bytes e t @ x \<and> file_bytes t' = file_bytes t @ w
     \<and> x = w @ rest \<and> (writes_ok e t' \<longrightarrow> rest = []))"

lemma stored_view: "data_view e t' = data_view e t \<Longrightarrow> stored e t t'"
  by (simp add: stored_def data_view_def)

lemma stor_rest_bytes:
  assumes "copied e [] x t (err, buf, s)"
  shows "\<exists>w rest. file_bytes (tr (stor_rest e err buf s)) = file_bytes t @ w \<and> x = w @ rest \<and>
    (writes_ok e (tr (stor_rest e err buf s)) \<longrightarrow> rest = [])"
proof (cases "err = 0")
  case True
  then have "file_bytes (tr (stor_rest e err buf s)) = file_bytes t @ x"
    using assms by (auto simp: copied_def stor_rest_def)
  then show ?thesis by blast
next
  case False
  then have s: "stor_rest e err buf s = s" by (simp add: stor_rest_def)
  obtain rest where r: "file_bytes (tr s) @ rest = file_bytes t @ x" and "\<not> writes_ok e (tr s)"
    using assms False by (auto simp: copied_def)
  obtain w where w: "file_bytes (tr s) = file_bytes t @ w" using assms by (auto simp: copied_def)
  then show ?thesis using s r \<open>\<not> writes_ok e (tr s)\<close> by auto
qed

lemma recv_view [simp]: "recv_bytes e (tr (stor_rest e err buf s)) = recv_bytes e (tr s)"
  by (simp add: stor_rest_def)

lemma stor_transfer_bytes:
  assumes core: "sess_core B s" and dc: "dataconn s = None" and run: "stor_transfer e s = Some s'"
  shows "stored e (tr s) (tr s')"
proof -
  obtain r s1 where o: "data_con_open e s = (r, s1)" by (metis surj_pair)
  have v1: "data_view e (tr s1) = data_view e (tr s)" using data_view_calls(9) [of e s] o by simp
  show ?thesis
  proof (cases "r = 0")
    case False
    then show ?thesis using run o v1 by (auto simp: stor_transfer_def path_up_def intro!: stored_view)
  next
    case True
    have dc1: "dataconn s1 \<noteq> None" by (rule data_con_open_core(3) [OF core dc o True])
    define s2 where "s2 = reply (''150 Connected to port '' @ dec (unat (data_port s1))) s1"
    have v2: "data_view e (tr s2) = data_view e (tr s)" using v1 by (simp add: s2_def)
    from run o True obtain err buf s3 where l: "stor_loop e [] s2 = Some (err, buf, s3)"
      and s': "s' = end_transfer e (stor_rest e err buf s3)"
      by (auto simp: stor_transfer_def case_prod_beta Let_def s2_def elim!: option_bind_SomeE)
    obtain x where x: "recv_bytes e (tr s3) = recv_bytes e (tr s2) @ x" "copied e [] x (tr s2) (err, buf, s3)"
      using stor_loop_bytes [OF l] dc1 by (auto simp: s2_def FTP_BUF_SIZE_def)
    show ?thesis
      using x(1) stor_rest_bytes [OF x(2)] data_viewD [OF v2] unfolding s' stored_def by auto
  qed
qed

lemma stor_bytes:
  assumes "sess_ok B s" and "ftp_cmd_stor e s = Some s'"
  shows "stored e (tr s) (tr s')"
proof (cases "logged_in s \<and> param s \<noteq> []")
  case False
  then show ?thesis
    using assms(2) by (auto simp: ftp_cmd_stor_def stored_view split: if_splits)
next
  case True
  then obtain q b where b: "path_build (path s) (param s) = Some (q, b)"
    using assms(2) by (auto simp: ftp_cmd_stor_def elim!: option_bind_SomeE)
  have core: "sess_core B (s\<lparr>path := q\<rparr>)" "dataconn s = None"
    using assms(1) b by (simp_all add: sess_ok_def)
  define s2 where "s2 = snd (ftps_f_open e q (FA_CREATE_ALWAYS OR FA_WRITE) (s\<lparr>path := q\<rparr>))"
  have s2: "sess_core B s2" "dataconn s2 = None" "data_view e (tr s2) = data_view e (tr s)"
    using core by (simp_all add: s2_def)
  consider (quit) "data_view e (tr s') = data_view e (tr s)" | (go) "stor_transfer e s2 = Some s'"
    using assms(2) True b s2
    by (auto simp: ftp_cmd_stor_def case_prod_beta Let_def s2_def [symmetric] split: if_splits)
  then show ?thesis
  proof cases
    case quit
    then show ?thesis by (rule stored_view)
  next
    case go
    from stor_transfer_bytes [OF s2(1,2) go] s2(3) show ?thesis by (simp add: stored_def data_view_def)
  qed
qed

section \<open>A whole upload is stored\<close>

fun recvs :: "trace \<Rightarrow> nat" where
  \<comment> \<open>buffers received since the file was opened\<close>
  "recvs [] = 0"
| "recvs (DataRecv c # t) = Suc (recvs t)"
| "recvs (FOpen p md # t) = 0"
| "recvs (_ # t) = recvs t"

definition sends_segments :: "env \<Rightarrow> string list \<Rightarrow> bool" where
  \<comment> \<open>the client sends \<open>segs\<close>, each in one buffer, and closes the connection\<close>
  "sends_segments e segs \<longleftrightarrow> (\<forall>x \<in> set segs. length x < 65536) \<and>
     (\<forall>c t. if recvs t < length segs
       then e_data_recv e (DataRecv c # t) =
              (ERR_OK, \<lparr>pb_payload = segs ! recvs t, pb_tot_len = of_nat (length (segs ! recvs t))\<rparr>)
       else fst (e_data_recv e (DataRecv c # t)) = ERR_CLSD)"

definition disk_writes :: "env \<Rightarrow> bool" where
  \<comment> \<open>no write reports an error; how much each has written is left open\<close>
  "disk_writes e \<longleftrightarrow> (\<forall>bs t. fst (e_write e (FWrite bs # t)) = FR_OK)"

lemma stor_copy_delivers:
  assumes "disk_writes e"
  shows "length src = n \<Longrightarrow> length buf < FTP_BUF_SIZE \<Longrightarrow>
    \<exists>b s'. stor_copy e src n buf s = Some (0, b, s') \<and> recvs (tr s') = recvs (tr s) \<and>
      dataconn s' = dataconn s"
proof (induction n arbitrary: src buf s rule: less_induct)
  case (less n)
  show ?case
  proof (cases "n = 0")
    case True
    then show ?thesis by (subst stor_copy.simps) (simp add: FR_OK_def)
  next
    case False
    define k where "k = (if n \<le> FTP_BUF_SIZE - length buf then n else FTP_BUF_SIZE - length buf)"
    define b where "b = buf @ take k src"
    have k: "0 < k" "k \<le> n" using False less.prems(2) by (auto simp: k_def)
    show ?thesis
    proof (cases "length b = FTP_BUF_SIZE")
      case full: True
      define s1 where "s1 = snd (ftps_f_write e b s)"
      obtain nw where w: "ftps_f_write e b s = ((0, nw), s1)"
        using assms by (cases "e_write e (FWrite b # tr s)") (simp add: ftps_f_write_def disk_writes_def s1_def Let_def FR_OK_def, metis fst_conv)
      have s1: "recvs (tr s1) = recvs (tr s)" "dataconn s1 = dataconn s"
        by (simp_all add: s1_def ftps_f_write_def Let_def diag_err_def)
      have "stor_copy e src n buf s = stor_copy e (drop k src) (n - k) [] s1"
        using False full k less.prems(1) w unfolding b_def k_def
        by (subst stor_copy.simps) (simp add: Let_def)
      then show ?thesis
        using less.IH [of "n - k" "drop k src" "[]" s1] k False less.prems(1) s1 by (simp add: FTP_BUF_SIZE_def)
    next
      case part: False
      have "length b < FTP_BUF_SIZE" using part less.prems k by (auto simp: b_def k_def split: if_splits)
      moreover have "stor_copy e src n buf s = stor_copy e (drop k src) (n - k) b s"
        using False part k less.prems(1) unfolding b_def k_def
        by (subst stor_copy.simps) (simp add: Let_def)
      ultimately show ?thesis
        using less.IH [of "n - k" "drop k src" b s] k False less.prems(1) by simp
    qed
  qed
qed

lemma disk_writes_ok: "disk_writes e \<Longrightarrow> writes_ok e t"
proof (induction t)
  case (Cons ev t)
  then show ?case by (cases ev) (simp_all add: disk_writes_def)
qed simp

lemma stor_loop_delivers:
  assumes segs: "sends_segments e segs" and disk: "disk_writes e"
  shows "dataconn s = Some c \<Longrightarrow> length buf < FTP_BUF_SIZE \<Longrightarrow>
    \<exists>b s'. stor_loop e buf s = Some (0, b, s') \<and>
      recv_bytes e (tr s') = recv_bytes e (tr s) @ concat (drop (recvs (tr s)) segs)"
proof (induction "length segs - recvs (tr s)" arbitrary: s buf rule: less_induct)
  case less
  define k where "k = recvs (tr s)"
  define s1 where "s1 = s\<lparr>tr := DataRecv c # tr s\<rparr>"
  have rc: "netconn_recv_tcp_pbuf e s = (e_data_recv e (DataRecv c # tr s), s1)"
    using less.prems(1) by (simp add: netconn_recv_tcp_pbuf_def s1_def Let_def)
  show ?case
  proof (cases "k < length segs")
    case False
    then have cl: "fst (e_data_recv e (DataRecv c # tr s)) = ERR_CLSD"
      using segs unfolding sends_segments_def k_def by (metis (no_types))
    then have "stor_loop e buf s = Some (0, buf, s1)"
      by (subst stor_loop.simps) (simp add: rc case_prod_beta FR_OK_def)
    then show ?thesis using cl False by (simp add: s1_def k_def ERR_CLSD_def ERR_OK_def)
  next
    case True
    define x where "x = segs ! k"
    have ev: "e_data_recv e (DataRecv c # tr s) = (ERR_OK, \<lparr>pb_payload = x, pb_tot_len = of_nat (length x)\<rparr>)"
      using segs True unfolding sends_segments_def k_def x_def by (metis (no_types))
    have lx: "length x < 65536" using segs True by (simp add: sends_segments_def x_def)
    then have tot: "unat (of_nat (length x) :: u16) = length x" by (simp add: unat_of_nat)
    obtain b s2 where cp: "stor_copy e x (length x) buf s1 = Some (0, b, s2)"
      and s2: "recvs (tr s2) = Suc k" "dataconn s2 = Some c"
      using stor_copy_delivers [OF disk refl less.prems(2), of x s1] less.prems(1)
      by (auto simp: s1_def k_def)
    have cb: "copied e buf x (tr s1) (0, b, s2)" "recv_bytes e (tr s2) = recv_bytes e (tr s1)"
      using stor_copy_bytes [OF cp less.prems(2)] by simp_all
    define s3 where "s3 = log_event PbufFree s2"
    have step: "stor_loop e buf s = stor_loop e b s3"
      by (subst stor_loop.simps)
        (simp add: rc ev tot cp s3_def ERR_OK_def ERR_CLSD_def Let_def)
    have s3: "recvs (tr s3) = Suc k" "dataconn s3 = Some c" "recv_bytes e (tr s3) = recv_bytes e (tr s) @ x"
      using s2 cb(2) by (simp_all add: s3_def log_event_def s1_def ev tot)
    have "length segs - recvs (tr s3) < length segs - recvs (tr s)"
      using True s3(1) unfolding k_def by linarith
    moreover have "length b < FTP_BUF_SIZE" using cb(1) by (simp add: copied_def)
    ultimately obtain b' s' where "stor_loop e b s3 = Some (0, b', s')"
      "recv_bytes e (tr s') = recv_bytes e (tr s3) @ concat (drop (Suc k) segs)"
      using less.hyps [of s3 b] s3 by auto
    then show ?thesis using step s3(3) True by (simp add: k_def [symmetric] x_def Cons_nth_drop_Suc [symmetric])
  qed
qed

lemma recvs_calls [simp]:
  "recvs (tr (reply m s)) = recvs (tr s)" "recvs (tr (snd (data_con_open e s))) = recvs (tr s)"
  by (auto simp: reply_def ftp_send_def Let_def data_con_open_def netconn_defs split: option.splits)

lemma stor_transfer_delivers:
  assumes core: "sess_core B s" and dc: "dataconn s = None" and f: "sends_segments e segs" "disk_writes e"
    and start: "recvs (tr s) = 0" and conn: "fst (data_con_open e s) = 0"
  shows "\<exists>s'. stor_transfer e s = Some s' \<and> file_bytes (tr s') = file_bytes (tr s) @ concat segs \<and>
    hd (tr s') = CtrlWrite (''226 File successfully transferred'' @ crlf)"
proof -
  define s1 where "s1 = snd (data_con_open e s)"
  have o: "data_con_open e s = (0, s1)" using conn by (simp add: s1_def prod_eq_iff)
  obtain c where c: "dataconn s1 = Some c" using data_con_open_core(3) [OF core dc o] by blast
  define s2 where "s2 = reply (''150 Connected to port '' @ dec (unat (data_port s1))) s1"
  have s2: "dataconn s2 = Some c" "recvs (tr s2) = 0" "recv_bytes e (tr s2) = recv_bytes e (tr s)"
    using c start by (simp_all add: s2_def s1_def)
  have small: "length ([] :: string) < FTP_BUF_SIZE" by (simp add: FTP_BUF_SIZE_def)
  obtain b s3 where s3: "stor_loop e [] s2 = Some (0, b, s3)"
    "recv_bytes e (tr s3) = recv_bytes e (tr s) @ concat segs"
    using stor_loop_delivers [OF f s2(1) small] s2 by auto
  define s' where "s' = end_transfer e (stor_rest e 0 b s3)"
  have run: "stor_transfer e s = Some s'"
    using s3(1) o by (simp add: stor_transfer_def case_prod_beta Let_def s2_def s'_def)
  have "stored e (tr s) (tr s')" by (rule stor_transfer_bytes [OF core dc run])
  moreover have "recv_bytes e (tr s') = recv_bytes e (tr s) @ concat segs" using s3(2) by (simp add: s'_def)
  ultimately have "file_bytes (tr s') = file_bytes (tr s) @ concat segs"
    using disk_writes_ok [OF f(2)] by (auto simp: stored_def)
  moreover have "hd (tr s') = CtrlWrite (''226 File successfully transferred'' @ crlf)"
    by (simp add: s'_def end_transfer_def reply_def ftp_send_def FTP_BUF_SIZE_def crlf_def Let_def)
  ultimately show ?thesis using run by blast
qed

text \<open>Between two moments as many bytes are missing in the file as \<open>f_write\<close> did not write of what it was handed.\<close>

fun missing :: "env \<Rightarrow> trace \<Rightarrow> nat" where
  "missing e [] = 0"
| "missing e (FWrite bs # t) = missing e t + (length bs - unat (snd (e_write e (FWrite bs # t))))"
| "missing e (_ # t) = missing e t"

lemma length_stored: "length (stored_bytes e t) + missing e t = length (file_bytes t)"
proof (induction t)
  case (Cons ev t)
  then show ?case by (cases ev) simp_all
qed simp

lemma missing_mono: "missing e t \<le> missing e (es @ t)"
proof (induction es)
  case (Cons ev es)
  then show ?case by (cases ev) simp_all
qed simp

lemma stored_complete:
  "missing e (es @ t) = missing e t \<Longrightarrow>
    \<exists>w. file_bytes (es @ t) = file_bytes t @ w \<and> stored_bytes e (es @ t) = stored_bytes e t @ w"
proof (induction es)
  case (Cons ev es)
  show ?case
  proof (cases "\<exists>bs. ev = FWrite bs")
    case True
    then obtain bs where ev: "ev = FWrite bs" by blast
    then have "missing e (es @ t) = missing e t" "length bs \<le> unat (snd (e_write e (FWrite bs # es @ t)))"
      using Cons.prems missing_mono [of e t es] by simp_all
    then show ?thesis using Cons.IH ev by auto
  next
    case False
    then show ?thesis using Cons by (cases ev) simp_all
  qed
qed simp

lemma stored_iff_complete:
  assumes "extends s s'" and "file_bytes (tr s') = file_bytes (tr s) @ w"
  shows "stored_bytes e (tr s') = stored_bytes e (tr s) @ w \<longleftrightarrow> missing e (tr s') = missing e (tr s)"
proof
  assume "stored_bytes e (tr s') = stored_bytes e (tr s) @ w"
  then show "missing e (tr s') = missing e (tr s)"
    using length_stored [of e "tr s"] length_stored [of e "tr s'"] assms(2) by simp
next
  assume m: "missing e (tr s') = missing e (tr s)"
  obtain es where "tr s' = es @ tr s" using assms(1) by (auto simp: extends_def)
  then show "stored_bytes e (tr s') = stored_bytes e (tr s) @ w" using stored_complete [of e es "tr s"] m assms(2) by auto
qed

text \<open>A chain of buffers: \<open>tot_len\<close> counts all of them, \<open>payload\<close> is only the first.\<close>

lemma stor_copy_chain:
  assumes "disk_writes e"
  shows "length src < n \<Longrightarrow> length buf < FTP_BUF_SIZE \<Longrightarrow> stor_copy e src n buf s = None"
proof (induction n arbitrary: src buf s rule: less_induct)
  case (less n)
  define k where "k = (if n \<le> FTP_BUF_SIZE - length buf then n else FTP_BUF_SIZE - length buf)"
  define b where "b = buf @ take k src"
  have k: "0 < k" "k \<le> n" using less.prems by (auto simp: k_def)
  show ?case
  proof (cases "length src < k")
    case True
    then show ?thesis using less.prems(1) unfolding k_def by (subst stor_copy.simps) (auto simp: Let_def)
  next
    case False
    then have rest: "length (drop k src) < n - k" using less.prems(1) by simp
    define s1 where "s1 = snd (ftps_f_write e b s)"
    obtain nw where w: "ftps_f_write e b s = ((0, nw), s1)"
      using assms by (cases "e_write e (FWrite b # tr s)") (simp add: ftps_f_write_def disk_writes_def s1_def Let_def FR_OK_def, metis fst_conv)
    have "stor_copy e src n buf s =
        (if length b = FTP_BUF_SIZE then stor_copy e (drop k src) (n - k) [] s1
         else stor_copy e (drop k src) (n - k) b s)"
      using False less.prems(1) k w unfolding b_def k_def
      by (subst stor_copy.simps) (simp add: Let_def)
    moreover have "length b \<noteq> FTP_BUF_SIZE \<Longrightarrow> length b < FTP_BUF_SIZE"
      using less.prems k False by (auto simp: b_def k_def split: if_splits)
    ultimately show ?thesis
      using less.IH [OF _ rest] k less.prems(1) by (simp add: FTP_BUF_SIZE_def)
  qed
qed

end
