(* ===== verification/FtpLinks.thy ===== *)
theory FtpLinks
  imports FtpConn
begin

text \<open>
  \<open>ftp.c\<close>: the accept loop with its pool of five sessions. A state holds the pool, the counter
  \<open>index\<close> of type \<open>uint8_t\<close>, the server's connection and the trace of netconn calls; the rounds
  of the accept loop and the ends of session tasks are the steps of a transition system. What
  a session does in between is \<open>FtpServer\<close>; here only that it closes its control connection
  matters.
\<close>

section \<open>The code\<close>

definition POOL_SIZE :: nat where "POOL_SIZE = 5"
definition FTP_SERVER_PORT :: u16 where "FTP_SERVER_PORT = 21"
definition no_conn_allowed :: string where
  "no_conn_allowed = ''421 No more connections allowed'' @ crlf"

record server_stru =
  number :: u8
  ftp_connection :: "nat option"

record links =
  pool :: "server_stru option list"
  index :: u8
  srv :: nat
  ltr :: trace

definition pool_answer :: "server_stru option list \<Rightarrow> nat option \<Rightarrow> bool" where
  \<comment> \<open>what lwIP promises of \<open>LWIP_MEMPOOL_ALLOC\<close>: a free element, whichever, or NULL when there is none\<close>
  "pool_answer ps slot \<longleftrightarrow> (case slot of Some i \<Rightarrow> i < length ps \<and> ps ! i = None | None \<Rightarrow> None \<notin> set ps)"

definition links_log :: "event \<Rightarrow> links \<Rightarrow> links" where
  "links_log ev st = st\<lparr>ltr := ev # ltr st\<rparr>"

definition close_client :: "nat \<Rightarrow> links \<Rightarrow> links" where
  \<comment> \<open>\<open>netconn_close\<close> and \<open>netconn_delete\<close>\<close>
  "close_client c st = links_log (ConnDelete c) (links_log (ConnClose c) st)"

definition ftp_task_end :: "nat \<Rightarrow> links \<Rightarrow> links" where
  \<comment> \<open>\<open>ftp_task\<close> behind \<open>ftp_service\<close>, for the pool element \<open>i\<close>\<close>
  "ftp_task_end i st =
     (case Option.bind (pool st ! i) ftp_connection of
        Some c \<Rightarrow> let st = close_client c st in st\<lparr>pool := (pool st)[i := None]\<rparr>
      | None \<Rightarrow> st)"

definition ftp_start_task :: "bool \<Rightarrow> nat \<Rightarrow> nat \<Rightarrow> u8 \<Rightarrow> links \<Rightarrow> links" where
  \<comment> \<open>\<open>created\<close>: the result of \<open>xTaskCreate\<close>; \<open>i\<close>: the pool element; \<open>c\<close>: its connection\<close>
  "ftp_start_task created i c ix st =
     (let st = st\<lparr>pool := (pool st)[i := Some \<lparr>number = ix, ftp_connection = Some c\<rparr>]\<rparr>
      in if created then st
         else let st = close_client c st in st\<lparr>pool := (pool st)[i := None]\<rparr>)"

definition accept_round :: "bool \<Rightarrow> bool \<Rightarrow> nat option \<Rightarrow> links \<Rightarrow> links" where
  \<comment> \<open>one round of the loop of \<open>ftp_server\<close>; \<open>ok\<close>: \<open>netconn_accept\<close> returned \<open>ERR_OK\<close>; \<open>slot\<close>: the result of
    \<open>LWIP_MEMPOOL_ALLOC\<close>\<close>
  "accept_round ok created slot st =
     (if \<not> ok then links_log (ConnAcceptFailed (srv st)) st
      else
        let c = length (ltr st);
            st = links_log (ConnAccept (srv st) c) st
        in case slot of
             None \<Rightarrow> close_client c (links_log (DataWrite c no_conn_allowed) st)
           | Some i \<Rightarrow> (ftp_start_task created i c (index st) st)\<lparr>index := index st + 1\<rparr>)"

definition ftp_server_start :: "bool \<Rightarrow> links option" where
  \<comment> \<open>\<open>ftp_server\<close> up to its loop; \<open>None\<close>: no socket, the function returns\<close>
  "ftp_server_start ok =
     (if \<not> ok then None
      else Some \<lparr>pool = replicate POOL_SIZE None, index = 0, srv = 0,
                 ltr = [ConnListen 0, ConnBind 0 FTP_SERVER_PORT, ConnNew 0]\<rparr>)"

section \<open>The transition system\<close>

inductive link_step :: "links \<Rightarrow> links \<Rightarrow> bool" where
  accept: "pool_answer (pool st) slot \<Longrightarrow> link_step st (accept_round ok created slot st)"
| task_end: "i < length (pool st) \<Longrightarrow> pool st ! i \<noteq> None \<Longrightarrow> link_step st (ftp_task_end i st)"

inductive reachable :: "links \<Rightarrow> bool" where
  start: "ftp_server_start True = Some st \<Longrightarrow> reachable st"
| step: "reachable st \<Longrightarrow> link_step st st' \<Longrightarrow> reachable st'"

inductive_cases link_stepE: "link_step st st'"

definition active :: "links \<Rightarrow> nat set" where
  \<comment> \<open>the pool elements in use\<close>
  "active st = {i. i < length (pool st) \<and> pool st ! i \<noteq> None}"

definition conn_at :: "links \<Rightarrow> nat \<Rightarrow> nat option" where
  "conn_at st i = Option.bind (pool st ! i) ftp_connection"

definition links_inv :: "links \<Rightarrow> bool" where
  "links_inv st \<longleftrightarrow> length (pool st) = POOL_SIZE \<and> conn_safe (ltr st) \<and>
     (\<forall>i \<in> active st. conn_at st i \<noteq> None) \<and>
     live (ltr st) = insert (srv st) {c. \<exists>i \<in> active st. conn_at st i = Some c} \<and>
     (\<forall>i \<in> active st. conn_at st i \<noteq> Some (srv st)) \<and>
     (\<forall>i \<in> active st. \<forall>j \<in> active st. conn_at st i = conn_at st j \<longrightarrow> i = j) \<and>
     (\<forall>n \<in> live (ltr st). n < length (ltr st))"

lemma links_inv_start: "ftp_server_start ok = Some st \<Longrightarrow> links_inv st"
  by (auto simp: ftp_server_start_def links_inv_def active_def POOL_SIZE_def split: if_splits)

text \<open>An accepted connection that is closed again leaves the invariant as it was.\<close>

lemma links_inv_ignore:
  assumes "links_inv st" and "pool st' = pool st" "srv st' = srv st" "live (ltr st') = live (ltr st)"
    "conn_safe (ltr st')" "length (ltr st) \<le> length (ltr st')"
  shows "links_inv st'"
proof -
  have "active st' = active st" "conn_at st' = conn_at st"
    using assms(2) by (auto simp: active_def conn_at_def)
  then show ?thesis using assms by (auto simp: links_inv_def intro: less_le_trans)
qed

lemma links_inv_add:
  assumes inv: "links_inv st" and i: "i < length (pool st)" "pool st ! i = None"
    and t: "ltr st' = ConnAccept (srv st) (length (ltr st)) # ltr st" "srv st' = srv st"
    and p: "pool st' = (pool st)[i := Some \<lparr>number = k, ftp_connection = Some (length (ltr st))\<rparr>]"
  shows "links_inv st'"
proof -
  have act: "active st' = insert i (active st)" "i \<notin> active st"
    using i p by (auto simp: active_def nth_list_update)
  have at: "conn_at st' j = (if j = i then Some (length (ltr st)) else conn_at st j)" for j
    using i(1) p by (simp add: conn_at_def nth_list_update)
  have new: "length (ltr st) \<notin> live (ltr st)" using inv by (auto simp: links_inv_def)
  have old: "conn_at st j \<noteq> Some (length (ltr st))" if "j \<in> active st" for j
    using inv new that by (auto simp: links_inv_def)
  show ?thesis
    unfolding links_inv_def act(1) t(1,2) live.simps
  proof (intro conjI)
    show "conn_safe (ConnAccept (srv st) (length (ltr st)) # ltr st)"
      using inv new by (simp add: links_inv_def)
    show "insert (length (ltr st)) (live (ltr st)) =
        insert (srv st) {c. \<exists>i\<in>insert i (active st). conn_at st' i = Some c}"
      using inv act(2) at by (auto simp: links_inv_def)
    show "\<forall>a\<in>insert i (active st). \<forall>b\<in>insert i (active st). conn_at st' a = conn_at st' b \<longrightarrow> a = b"
      using inv old at act(2) by (auto simp: links_inv_def)
  qed (use inv old at act(2) new p in \<open>auto simp: links_inv_def intro: less_SucI\<close>)
qed

lemma links_inv_remove:
  assumes inv: "links_inv st" and i: "i \<in> active st" "conn_at st i = Some c"
    and t: "ltr st' = ConnDelete c # ConnClose c # ltr st" "srv st' = srv st"
    and p: "pool st' = (pool st)[i := None]"
  shows "links_inv st'"
proof -
  have act: "active st' = active st - {i}"
    using i(1) p by (auto simp: active_def nth_list_update split: if_splits)
  have at: "conn_at st' j = conn_at st j" if "j \<noteq> i" for j
    using that p by (simp add: conn_at_def)
  have uniq: "conn_at st j \<noteq> Some c" if "j \<in> active st" "j \<noteq> i" for j
    using inv i that by (fastforce simp: links_inv_def)
  have "c \<noteq> srv st" using inv i by (auto simp: links_inv_def)
  moreover have "{d. \<exists>j \<in> active st'. conn_at st' j = Some d} = {d. \<exists>j \<in> active st. conn_at st j = Some d} - {c}"
    unfolding act using at uniq i(2) by fastforce
  moreover have "live (ltr st) = insert (srv st) {d. \<exists>j \<in> active st. conn_at st j = Some d}"
    using inv unfolding links_inv_def by blast
  ultimately have lv: "live (ltr st') = insert (srv st) {d. \<exists>j \<in> active st'. conn_at st' j = Some d}"
    using t(1) by auto
  have safe: "conn_safe (ltr st')" using inv i t(1) by (auto simp: links_inv_def)
  have "\<forall>n \<in> live (ltr st). n < length (ltr st)" using inv unfolding links_inv_def by blast
  then have "\<forall>n \<in> live (ltr st'). n < length (ltr st')" using t(1) by (auto intro: less_SucI)
  note bound = this
  have same: "conn_at st' j = conn_at st j" "j \<in> active st" if "j \<in> active st'" for j
    using that at act by auto
  have "\<forall>j \<in> active st'. conn_at st' j \<noteq> None \<and> conn_at st' j \<noteq> Some (srv st')"
    using inv same t(2) unfolding links_inv_def by metis
  moreover have "\<forall>j \<in> active st'. \<forall>k \<in> active st'. conn_at st' j = conn_at st' k \<longrightarrow> j = k"
    using inv same unfolding links_inv_def by metis
  moreover have "length (pool st') = POOL_SIZE" using inv p by (simp add: links_inv_def)
  ultimately show ?thesis using t(2) lv bound safe unfolding links_inv_def by metis
qed

lemma links_inv_end:
  assumes inv: "links_inv st" and "i < length (pool st)" and "pool st ! i \<noteq> None"
  shows "links_inv (ftp_task_end i st)"
proof -
  have i: "i \<in> active st" using assms by (simp add: active_def)
  then obtain c where c: "conn_at st i = Some c" using inv by (auto simp: links_inv_def)
  show ?thesis
    by (rule links_inv_remove [OF inv i c])
      (use c in \<open>auto simp: ftp_task_end_def conn_at_def close_client_def links_log_def Let_def\<close>)
qed

lemma links_inv_accept:
  assumes inv: "links_inv st" and answer: "pool_answer (pool st) slot"
  shows "links_inv (accept_round ok created slot st)"
proof -
  define c where "c = length (ltr st)"
  define st1 where "st1 = links_log (ConnAccept (srv st) c) st"
  have new: "c \<notin> live (ltr st)" and srv: "srv st \<in> live (ltr st)" "srv st < c"
    using inv by (auto simp: links_inv_def c_def)
  consider (no) "\<not> ok" | (full) "ok" "slot = None" | (free) i where "ok" "slot = Some i" by blast
  then show ?thesis
  proof cases
    case no
    then show ?thesis
      using inv srv by (intro links_inv_ignore [OF inv]) (auto simp: accept_round_def links_log_def links_inv_def)
  next
    case full
    have "links_inv (close_client c (links_log (DataWrite c no_conn_allowed) st1))"
      using inv new srv
      by (intro links_inv_ignore [OF inv])
        (auto simp: close_client_def links_log_def st1_def links_inv_def)
    then show ?thesis using full by (simp add: accept_round_def Let_def c_def st1_def links_log_def)
  next
    case free
    have i: "i < length (pool st) \<and> pool st ! i = None" using answer free(2) by (simp add: pool_answer_def)
    define st2 where "st2 = st1\<lparr>pool := (pool st)[i := Some \<lparr>number = index st, ftp_connection = Some c\<rparr>]\<rparr>"
    have inv2: "links_inv st2"
      by (rule links_inv_add [OF inv i [THEN conjunct1] i [THEN conjunct2]])
        (simp_all add: st2_def st1_def links_log_def c_def)
    have act2: "i \<in> active st2" "conn_at st2 i = Some c"
      using i by (auto simp: st2_def active_def conn_at_def)
    have inv3: "links_inv ((close_client c st2)\<lparr>pool := (pool st)[i := None], index := k\<rparr>)" for k
      by (rule links_inv_remove [OF inv2 act2])
        (simp_all add: close_client_def links_log_def st2_def st1_def)
    have inv2': "links_inv (st2\<lparr>index := k\<rparr>)" for k
      by (rule links_inv_ignore [OF inv2]) (use inv2 in \<open>auto simp: links_inv_def\<close>)
    show ?thesis
      using free inv2' inv3
      by (cases created)
        (simp_all add: accept_round_def ftp_start_task_def Let_def c_def [symmetric] st1_def st2_def
          links_log_def close_client_def)
  qed
qed

lemma reachable_inv: "reachable st \<Longrightarrow> links_inv st"
proof (induction rule: reachable.induct)
  case (start st)
  then show ?case by (rule links_inv_start)
next
  case (step st st')
  from step.hyps(2) show ?case
    by (cases rule: link_stepE) (use step.IH in \<open>auto intro: links_inv_accept links_inv_end\<close>)
qed

lemma finite_active: "finite (active st)"
  by (simp add: active_def)

lemma card_active: "links_inv st \<Longrightarrow> card (active st) \<le> POOL_SIZE"
proof -
  assume "links_inv st"
  then have "active st \<subseteq> {..<POOL_SIZE}" by (auto simp: links_inv_def active_def)
  then show ?thesis using card_mono [of "{..<POOL_SIZE}" "active st"] by simp
qed

lemma pool_full:
  assumes "links_inv st" and "pool_answer (pool st) slot"
  shows "slot = None \<longleftrightarrow> card (active st) = POOL_SIZE"
proof -
  have len: "length (pool st) = POOL_SIZE" using assms(1) by (simp add: links_inv_def)
  have sub: "active st \<subseteq> {..<POOL_SIZE}" using len by (auto simp: active_def)
  have "slot = None \<longleftrightarrow> active st = {..<POOL_SIZE}"
  proof (cases slot)
    case None
    then have "pool st ! i \<noteq> None" if "i < length (pool st)" for i
      using assms(2) nth_mem [OF that] by (metis option.simps(4) pool_answer_def)
    then show ?thesis using None len by (auto simp: active_def)
  next
    case (Some i)
    then have "i < POOL_SIZE" "i \<notin> active st" using assms(2) len by (simp_all add: pool_answer_def active_def)
    then show ?thesis using Some by auto
  qed
  also have "\<dots> \<longleftrightarrow> card (active st) = POOL_SIZE"
    using card_subset_eq [of "{..<POOL_SIZE}" "active st"] sub by (metis card_lessThan finite_lessThan)
  finally show ?thesis .
qed

text \<open>What becomes of a client that was accepted: it is refused, or gets a free element, or its task cannot be created.\<close>

lemma accept_refused:
  "accept_round True created None st = st\<lparr>ltr := ConnDelete (length (ltr st)) # ConnClose (length (ltr st)) #
     DataWrite (length (ltr st)) no_conn_allowed # ConnAccept (srv st) (length (ltr st)) # ltr st\<rparr>"
  by (simp add: accept_round_def close_client_def links_log_def Let_def)

lemma accept_started:
  assumes "i < length (pool st)" and "pool st ! i = None"
  defines "st' \<equiv> accept_round True True (Some i) st"
  shows "i \<notin> active st" and "active st' = insert i (active st)" and "conn_at st' = (conn_at st)(i := Some (length (ltr st)))"
    and "ltr st' = ConnAccept (srv st) (length (ltr st)) # ltr st"
  using assms(1,2)
  by (auto simp: st'_def active_def conn_at_def fun_eq_iff accept_round_def ftp_start_task_def links_log_def Let_def nth_list_update)

lemma accept_failed:
  assumes "i < length (pool st)" and "pool st ! i = None"
  defines "st' \<equiv> accept_round True False (Some i) st"
  shows "active st' = active st" and "conn_at st' = conn_at st"
    and "ltr st' = ConnDelete (length (ltr st)) # ConnClose (length (ltr st)) # ConnAccept (srv st) (length (ltr st)) # ltr st"
  using assms(1,2)
  by (auto simp: st'_def active_def conn_at_def fun_eq_iff accept_round_def ftp_start_task_def close_client_def links_log_def Let_def
      nth_list_update)

section \<open>The number of a session can come back while the session lives\<close>

definition one_session :: "u8 \<Rightarrow> links \<Rightarrow> bool" where
  \<comment> \<open>only element 0 is in use, by a session with number 0; the counter is \<open>k\<close>\<close>
  "one_session k st \<longleftrightarrow> length (pool st) = POOL_SIZE \<and> index st = k \<and> map_option number (pool st ! 0) = Some 0
     \<and> pool st ! 1 = None"

lemma one_session_answer: "one_session k st \<Longrightarrow> pool_answer (pool st) (Some 1)"
  by (simp add: one_session_def pool_answer_def POOL_SIZE_def)

lemma one_session_next:
  assumes "reachable st" and "one_session k st"
  shows "\<exists>st'. reachable st' \<and> one_session (k + 1) st'"
proof -
  define st1 where "st1 = accept_round True True (Some 1) st"
  define st2 where "st2 = ftp_task_end 1 st1"
  have st1: "pool st1 = (pool st)[1 := Some \<lparr>number = k, ftp_connection = Some (length (ltr st))\<rparr>]"
    "index st1 = k + 1"
    using assms(2)
    by (simp_all add: st1_def accept_round_def ftp_start_task_def Let_def links_log_def one_session_def)
  have r1: "reachable st1" unfolding st1_def using assms(1) accept [OF one_session_answer [OF assms(2)]] by (rule reachable.step)
  have r2: "reachable st2" unfolding st2_def
    using r1 by (rule reachable.step) (use assms(2) st1 in \<open>auto intro!: task_end simp: one_session_def POOL_SIZE_def\<close>)
  have "one_session (k + 1) st2"
    using assms(2) st1 by (simp add: st2_def ftp_task_end_def close_client_def links_log_def Let_def one_session_def POOL_SIZE_def)
  then show ?thesis using r2 by blast
qed

lemma one_session_any: "\<exists>st. reachable st \<and> one_session (1 + of_nat n) st"
proof (induction n)
  case 0
  obtain st0 where st0: "ftp_server_start True = Some st0" by (simp add: ftp_server_start_def)
  have "pool_answer (pool st0) (Some 0)" using st0 by (auto simp: ftp_server_start_def pool_answer_def POOL_SIZE_def)
  then have "reachable (accept_round True True (Some 0) st0)"
    using reachable.step [OF reachable.start [OF st0] accept] by blast
  moreover have "one_session 1 (accept_round True True (Some 0) st0)"
    using st0
    by (auto simp: ftp_server_start_def one_session_def accept_round_def POOL_SIZE_def
        ftp_start_task_def links_log_def Let_def)
  ultimately show ?case by auto
next
  case (Suc n)
  then show ?case using one_session_next by (fastforce simp: add.commute add.left_commute)
qed

lemma number_returns:
  "\<exists>st. reachable st \<and> map_option number (pool st ! 0) = Some 0 \<and> map_option number (pool st ! 1) = Some 0"
proof -
  have "(1 :: u8) + of_nat 255 = 0" by simp
  then obtain st where st: "reachable st" "one_session 0 st" using one_session_any [of 255] by metis
  have "map_option number (pool (accept_round True True (Some 1) st) ! 0) = Some 0
      \<and> map_option number (pool (accept_round True True (Some 1) st) ! 1) = Some 0"
    using st(2)
    by (simp add: accept_round_def ftp_start_task_def Let_def links_log_def one_session_def POOL_SIZE_def)
  moreover have "reachable (accept_round True True (Some 1) st)" using st(1) accept [OF one_session_answer [OF st(2)]] by (rule reachable.step)
  ultimately show ?thesis by blast
qed

end
