(* ===== verification/FtpDemo.thy ===== *)
theory FtpDemo
  imports FtpServer
begin

text \<open>
  Concrete environments and sessions at which the properties of the FTP server are instantiated:
  a client that sends a list of command lines, a network and a file system on which every call
  succeeds, and a file with a given content.
\<close>

definition line_buf :: "string \<Rightarrow> netbuf" where
  "line_buf bs = \<lparr>nb_len = of_nat (length bs),
     nb_mem = (\<lambda>i. if 0 \<le> i \<and> nat i < length bs then bs ! nat i else NUL)\<rparr>"

definition recv_count :: "trace \<Rightarrow> nat" where
  "recv_count t = length (filter (\<lambda>ev. ev = CtrlRecv) t)"

definition plain_info :: filinfo where
  "plain_info = \<lparr>fsize = 5, fdate = 0, ftime = 0, fattrib = 0, fname = ''a.txt''\<rparr>"

definition script_env :: "string list \<Rightarrow> env" where
  "script_env ls = \<lparr>
     e_recv = (\<lambda>t. if recv_count t \<le> length ls then (ERR_OK, line_buf (ls ! (recv_count t - 1)))
                   else (ERR_CLSD, line_buf [])),
     e_new = (\<lambda>t. True), e_bind = (\<lambda>t. ERR_OK), e_listen = (\<lambda>t. ERR_OK), e_accept = (\<lambda>t. ERR_OK),
     e_connect = (\<lambda>t. ERR_OK), e_data_write = (\<lambda>t. ERR_OK),
     e_data_recv = (\<lambda>t. (ERR_CLSD, \<lparr>pb_payload = [], pb_tot_len = 0\<rparr>)),
     e_addr = (\<lambda>t. 0x0100007F), e_stat = (\<lambda>t. (FR_OK, plain_info)), e_opendir = (\<lambda>t. FR_OK),
     e_readdir = (\<lambda>t. (FR_OK, plain_info\<lparr>fname := []\<rparr>)), e_unlink = (\<lambda>t. FR_OK),
     e_open = (\<lambda>t. FR_OK), e_size = (\<lambda>t. 5), e_close = (\<lambda>t. FR_OK), e_write = (\<lambda>t. (FR_OK, 512)),
     e_read = (\<lambda>t. (FR_OK, [])), e_mkdir = (\<lambda>t. FR_OK), e_rename = (\<lambda>t. FR_OK),
     e_getfree = (\<lambda>t. (FR_OK, 100, \<lparr>csize = 8, n_fatent = 1000\<rparr>))\<rparr>"

definition sess0 :: "trace \<Rightarrow> sess" where
  "sess0 t = \<lparr>listdataconn = None, dataconn = None, ctrlconn = 0, inbuf = line_buf [],
     ipclient = 0, ipserver = 0, data_port = 0, data_port_incremented = 0, finfo = plain_info,
     lfn = [], command = [], parameters = zero_params, path_rename = [], path = ''/'',
     ftp_con_num = 0, user = FTP_USER_NONE, data_conn_mode = DCM_NOT_SET, tr = t\<rparr>"

text \<open>A session that logs in, deletes a file and quits, and the whole trace of it.\<close>

definition demo_env :: env where
  "demo_env = script_env [''USER user'' @ crlf, ''PASS user'' @ crlf, ''DELE a'' @ crlf, ''QUIT'' @ crlf]"

definition demo_session :: "sess option" where
  "demo_session = ftp_service demo_env 0 (sess0 [ConnNew 0])"

definition login_trace :: trace where
  "login_trace =
    [CtrlWrite (''230 OK, logged in as user'' @ crlf), NetbufDelete, CtrlRecv,
     CtrlWrite (''331 OK. Password required'' @ crlf), NetbufDelete, CtrlRecv,
     ConnTimeout 0 1000, CtrlWrite (''220 -> CMS FTP Server, FTP Version 2020-08-20'' @ crlf), ConnNew 0]"

definition demo_newer :: trace where
  "demo_newer =
    [CtrlWrite (''221 Goodbye'' @ crlf), NetbufDelete, CtrlRecv, CtrlWrite (''250 Deleted a'' @ crlf)]"

definition demo_older :: trace where
  "demo_older = FStat ''/a'' # NetbufDelete # CtrlRecv # login_trace"

lemma demo_run: "map_option tr demo_session = Some (demo_newer @ FUnlink ''/a'' # demo_older)"
  by code_simp

end
