(* ===== verification/FtpClaims.thy ===== *)
theory FtpClaims
  imports FtpDemo FtpBytes FtpLinks
begin

text \<open>
  The properties of the FTP server. Each is stated over the definitions that model the code and
  rests on the lemmas of the component theories; where it has hypotheses, a witness applies it
  to a concrete environment and session of \<open>FtpDemo\<close>.
\<close>

section \<open>Sessions\<close>

definition start_ok :: "nat \<Rightarrow> trace \<Rightarrow> bool" where
  \<comment> \<open>the connection \<open>c\<close> handed to \<open>ftp_service\<close> is open\<close>
  "start_ok c t \<longleftrightarrow> conn_safe t \<and> c \<in> live t \<and> (\<forall>n \<in> live t. n < length t)"

lemma service_init_inv:
  assumes "start_ok c (tr s)"
  shows "session_inv e (live (tr s)) (length (tr s)) (service_init e c s)"
proof -
  have "conns (live (tr s)) None None (tr s)" using assms by (auto simp: start_ok_def conns_def owned_def)
  then have "conns (live (tr s)) None None (ConnTimeout c 1000 # CtrlWrite m # tr s)" for m
    using assms by (intro conns_use conns_plain) (auto simp: start_ok_def)
  then show ?thesis
    using assms auth_state_start [of e "tr s"] fs_guarded_start [of "tr s" "length (tr s)" e]
    by (simp add: session_inv_def sess_idle_def service_init_def Let_def reply_def ftp_send_def start_ok_def
        netconn_set_recvtimeout_def log_event_def path_ok_def FTP_CWD_SIZE_def MAX_LFN_def)
qed

lemma close_keeps_guard:
  assumes "fs_guarded e n (tr s)" and "n \<le> length (tr s)"
  shows "fs_guarded e n (tr (data_con_close (pasv_con_close s)))"
  using assms
  by (auto simp: data_con_close_def pasv_con_close_def netconn_defs Let_def split: option.splits)

lemma service_result:
  assumes "start_ok c (tr s)" and "ftp_service e c s = Some s'"
  obtains s1 where "session_inv e (live (tr s)) (length (tr s)) s1"
    and "s' = data_con_close (pasv_con_close s1)"
  using assms service_loop_inv [OF _ service_init_inv [OF assms(1)]]
  by (auto simp: ftp_service_def elim!: option_bind_SomeE)

text \<open>C1: Nothing reaches the file system before a login. Whatever the client sends and however the
  network and the file system answer, every file-system call of a session comes at a moment when
  the login state recomputed from the client's lines alone is "logged in".\<close>

theorem fs_only_after_login:
  assumes "start_ok c (tr s)" and "ftp_service e c s = Some s'"
    and "tr s' = newer @ ev # older" and "length (tr s) \<le> length older" and "is_fs_event ev"
  shows "auth_state e (length (tr s)) older = FTP_USER_USER_LOGGED_IN"
proof -
  obtain s1 where inv: "session_inv e (live (tr s)) (length (tr s)) s1"
    and s': "s' = data_con_close (pasv_con_close s1)" using service_result [OF assms(1,2)] .
  then have "fs_guarded e (length (tr s)) (tr s')"
    unfolding s' by (intro close_keeps_guard) (auto simp: session_inv_def)
  then show ?thesis using assms(3-5) fs_guarded_split by metis
qed

lemma fs_only_after_login_witness:
  "auth_state demo_env 1 demo_older = FTP_USER_USER_LOGGED_IN"
proof -
  obtain s' where s': "ftp_service demo_env 0 (sess0 [ConnNew 0]) = Some s'"
    "tr s' = demo_newer @ FUnlink ''/a'' # demo_older"
    using demo_run by (auto simp: demo_session_def)
  have "start_ok 0 (tr (sess0 [ConnNew 0]))" by (simp add: start_ok_def sess0_def)
  from fs_only_after_login [OF this s'] show ?thesis
    by (simp add: sess0_def demo_older_def)
qed

text \<open>C2: A session releases what it opened. Every connection it uses or deletes is open at that
  moment, no connection is deleted twice, and when the session returns exactly those
  connections are open that were open when it started.\<close>

theorem session_releases_connections:
  assumes "start_ok c (tr s)" and "ftp_service e c s = Some s'"
  shows "live (tr s') = live (tr s) \<and> conn_safe (tr s') \<and> listdataconn s' = None \<and> dataconn s' = None"
proof -
  obtain s1 where inv: "session_inv e (live (tr s)) (length (tr s)) s1"
    and s': "s' = data_con_close (pasv_con_close s1)" using service_result [OF assms] .
  then have "conns_of (live (tr s)) s1" unfolding session_inv_def sess_idle_def by blast
  then have "conns_of (live (tr s)) s'"
    unfolding s' by (intro data_con_close_conns pasv_con_close_conns)
  moreover have "listdataconn s' = None" "dataconn s' = None" by (simp_all add: s')
  ultimately show ?thesis by (simp add: conns_def owned_def)
qed

lemma session_releases_connections_witness:
  "\<exists>s'. demo_session = Some s' \<and> live (tr s') = {0} \<and> dataconn s' = None"
proof -
  obtain s' where s': "ftp_service demo_env 0 (sess0 [ConnNew 0]) = Some s'"
    using demo_run by (auto simp: demo_session_def)
  have "start_ok 0 (tr (sess0 [ConnNew 0]))" by (simp add: start_ok_def sess0_def)
  from session_releases_connections [OF this s'] s' show ?thesis
    by (simp add: demo_session_def sess0_def)
qed

text \<open>C3: The login state is the abstract automaton. One command changes it exactly as
  \<open>login_next\<close> says from the command and its parameter, whichever handler runs.\<close>

theorem command_follows_login_automaton:
  assumes "sess_ok B s" and "ftp_process_command e s = Some (running, s')"
  shows "user s' = login_next (user s) (command s) (param s)"
  using process_command_effect [OF assms] by (simp add: command_effect_def)

lemma ready_ok: "sess_ok {0} (sess0 [ConnNew 0])"
  by (simp add: sess_ok_def sess_core_def sess0_def param_def zero_params_def path_ok_def param_ok_def
      FTP_CWD_SIZE_def FTP_PARAM_SIZE_def MAX_LFN_def conns_def owned_def)

definition logged_sess :: "string \<Rightarrow> string \<Rightarrow> sess" where
  \<comment> \<open>a session behind its login, about to run a command\<close>
  "logged_sess c a = (sess0 [ConnNew 0])\<lparr>user := FTP_USER_USER_LOGGED_IN, command := c,
     parameters := a @ replicate (FTP_PARAM_SIZE - length a) NUL\<rparr>"

lemma logged_sess_ok:
  assumes "NUL \<notin> set a" and "length a + 1 < FTP_PARAM_SIZE"
  shows "sess_ok {0} (logged_sess c a)" and "param (logged_sess c a) = a"
proof -
  show p: "param (logged_sess c a) = a"
    using assms(1) by (simp add: logged_sess_def param_def cstr_append_replicate)
  show "sess_ok {0} (logged_sess c a)"
    using assms p ready_ok by (simp add: logged_sess_def sess_ok_def sess_core_def param_ok_def sess0_def)
qed

lemma command_follows_login_automaton_witness:
  "\<exists>s'. ftp_process_command demo_env (logged_sess ''USER'' ''user'') = Some (True, s')
     \<and> user s' = FTP_USER_USER_NO_PASS"
proof -
  define s where "s = logged_sess ''USER'' ''user''"
  have p: "param s = ''user''" and ok: "sess_ok {0} s"
    unfolding s_def by (rule logged_sess_ok; simp add: FTP_PARAM_SIZE_def MAX_LFN_def)+
  have c: "command s = ''USER''" by (simp add: s_def logged_sess_def sess0_def)
  obtain s' where run: "ftp_process_command demo_env s = Some (True, s')"
    using c p by (simp add: ftp_process_command_def find_login_commands entry_def ftp_cmd_user_def
        FTP_USER_NAME_DEFAULT_def)
  from command_follows_login_automaton [OF ok run] c p run show ?thesis
    by (simp add: s_def FTP_USER_NAME_DEFAULT_def)
qed

text \<open>C4: Every command keeps the session invariant: a proper absolute path that fits its array, a
  parameter that fits its array, no data connection left over, and connections owned exactly
  by the pointers of the session.\<close>

theorem command_keeps_session:
  assumes "sess_ok B s" and "ftp_process_command e s = Some (running, s')"
  shows "sess_ok B s' \<and> path_ok (path s') \<and> dataconn s' = None \<and> live (tr s') = B \<union> owned (listdataconn s') None"
proof -
  have ok: "sess_ok B s'" using process_command_effect [OF assms] by (simp add: command_effect_def)
  then have "conns_of B s'" "path_ok (path s')" "dataconn s' = None"
    unfolding sess_ok_def sess_core_def by blast+
  then show ?thesis using ok by (simp add: conns_def)
qed

lemma command_keeps_session_witness:
  "\<exists>s'. ftp_process_command demo_env (logged_sess ''PASV'' []) = Some (True, s')
     \<and> live (tr s') = {0} \<union> owned (listdataconn s') None"
proof -
  define s where "s = logged_sess ''PASV'' []"
  have p: "param s = []" and ok: "sess_ok {0} s"
    unfolding s_def by (rule logged_sess_ok; simp add: FTP_PARAM_SIZE_def MAX_LFN_def)+
  have "map_option fst (ftp_process_command demo_env (logged_sess ''PASV'' [])) = Some True" by code_simp
  then obtain s' where run: "ftp_process_command demo_env s = Some (True, s')" by (auto simp: s_def)
  from command_keeps_session [OF ok run] run show ?thesis by (simp add: s_def)
qed

section \<open>Paths\<close>

text \<open>C5: \<open>path_build\<close> writes past the end of the path array exactly when a relative parameter,
  with a separating slash if one is needed, does not fit the 263 bytes. The test \<open>strlen < FTP_CWD_SIZE\<close> at the
  end of the function never catches this: where the function returns, the result fits.\<close>

theorem path_build_overflow:
  assumes "path_ok p" and "param_ok a"
  shows "(path_build p a = None \<longleftrightarrow> path_overflows p a) \<and> path_build p a \<noteq> Some (q, False)"
  using path_build_None [OF assms] ftp_path.never_refused [OF assms] by simp

lemma path_build_overflow_witness:
  "path_build (CHR ''/'' # replicate 200 (CHR ''a'')) (replicate 61 (CHR ''b'')) = None
   \<and> path_build (CHR ''/'' # replicate 200 (CHR ''a'')) (replicate 60 (CHR ''b'')) \<noteq> None"
proof -
  have p: "path_ok (CHR ''/'' # replicate 200 (CHR ''a''))"
    by (simp add: path_ok_def FTP_CWD_SIZE_def MAX_LFN_def)
  have a: "param_ok (replicate 61 (CHR ''b''))" "param_ok (replicate 60 (CHR ''b''))"
    by (simp_all add: param_ok_def FTP_PARAM_SIZE_def MAX_LFN_def)
  have "replicate 61 (CHR ''b'') \<noteq> ''..''" by (rule notI, drule arg_cong [where f = length]) simp
  then show ?thesis
    using path_build_overflow [OF p a(1), THEN conjunct1] path_build_overflow [OF p a(2), THEN conjunct1]
    by (simp add: path_overflows_def FTP_CWD_SIZE_def MAX_LFN_def)
qed

text \<open>C6: On paths seen as lists of components, \<open>path_build\<close> with a plain name appends a component,
  with an absolute path replaces the whole list, and \<open>path_up_a_level\<close> drops the last component.\<close>

theorem paths_refine_components:
  assumes "\<forall>c \<in> set cs. name_ok c" and "name_ok n" and "n \<noteq> ''..''"
    and "length (path_of (cs @ [n])) < FTP_CWD_SIZE"
  shows "path_build (path_of cs) n = Some (path_of (cs @ [n]), True)
    \<and> path_up_a_level (path_of (cs @ [n])) = path_of cs
    \<and> path_build p (path_of (cs @ [n])) = Some (path_of (cs @ [n]), True)
    \<and> path_build (path_of (cs @ [n])) ''..'' = Some (path_of cs, True)"
proof -
  have all: "\<forall>c \<in> set (cs @ [n]). name_ok c" using assms by simp
  have up: "path_up_a_level (path_of (cs @ [n])) = path_of cs" using path_up_path_of [OF all] by simp
  have "length (path_of cs) < FTP_CWD_SIZE"
    using assms(4) by (cases "cs = []") (simp_all add: path_of_snoc FTP_CWD_SIZE_def MAX_LFN_def)
  then have "path_build (path_of (cs @ [n])) ''..'' = Some (path_of cs, True)"
    using up path_strip_end_path_of [OF assms(1)] by (simp add: path_build_def path_build_raw_def Let_def)
  then show ?thesis
    using path_build_name [OF assms] path_build_absolute [OF all assms(4)] up by simp
qed

lemma paths_refine_components_witness:
  "path_build ''/a/bc'' ''d'' = Some (''/a/bc/d'', True) \<and> path_up_a_level ''/a/bc/d'' = ''/a/bc''"
proof -
  have "\<forall>c \<in> set [''a'', ''bc'']. name_ok c" "name_ok ''d''" by (simp_all add: name_ok_def)
  from paths_refine_components [OF this] show ?thesis
    by (simp add: path_of_def FTP_CWD_SIZE_def MAX_LFN_def)
qed

end
