(* ===== verification/FtpDataClaims.thy ===== *)
theory FtpDataClaims
  imports FtpClaims
begin

text \<open>
  The properties of the FTP server that concern its input and its data: the command line, time
  stamps, the data connections, listings and transfers, and the pool of sessions.
\<close>

section \<open>The command line\<close>

lemma payload_line_buf: "length bs < 65536 \<Longrightarrow> payload_is (line_buf bs) bs"
  by (simp add: payload_is_def line_buf_def unat_of_nat)

text \<open>C18: A command line is parsed back: from a command of up to four letters, at least one space, a parameter
  that fits into its array and an end of line, the parser recovers exactly the command and the parameter, as long as the
  letters and the spaces before the parameter take less than 128 bytes: the index of the parser is an \<open>int8_t\<close>, and
  \<open>parser_index_wraps\<close> shows what happens beyond.\<close>

theorem command_line_parsed:
  assumes "payload_is (inbuf s) (cmd @ replicate (Suc n) (CHR '' '') @ a @ x # rest)"
    and "word_ok cmd" and "arg_ok a" and "x = CR \<or> x = LF" and "length cmd + Suc n < 128"
  shows "\<exists>s'. ftp_parse_command s = Some (int (length a), s') \<and> command s' = cmd \<and> param s' = a
    \<and> length (parameters s') = FTP_PARAM_SIZE"
proof -
  have "NUL \<notin> set a" "length a < FTP_PARAM_SIZE" using assms(3) by (auto simp: arg_ok_def)
  then show ?thesis
    using parse_line_with_param [OF assms]
    by (simp add: ftp_parse_command_def param_def cstr_append_replicate)
qed

lemma command_line_parsed_witness:
  "\<exists>s'. ftp_parse_command ((sess0 [])\<lparr>inbuf := line_buf (''CWD   a b'' @ crlf)\<rparr>) = Some (3, s')
     \<and> command s' = ''CWD'' \<and> param s' = ''a b''"
proof -
  let ?s = "(sess0 [])\<lparr>inbuf := line_buf (''CWD   a b'' @ crlf)\<rparr>"
  have "payload_is (inbuf ?s) (''CWD'' @ replicate (Suc 2) (CHR '' '') @ ''a b'' @ CR # [LF])"
    using payload_line_buf [of "''CWD   a b'' @ crlf"] by (simp add: crlf_def numeral_2_eq_2)
  moreover have "word_ok ''CWD''" by (simp add: word_ok_def FTP_CMD_SIZE_def isalpha_def)
  moreover have "arg_ok ''a b''" by (simp add: arg_ok_def FTP_PARAM_SIZE_def MAX_LFN_def)
  ultimately show ?thesis
    using command_line_parsed [of ?s "''CWD''" 2 "''a b''" CR "[LF]"] by auto
qed

text \<open>The parser looks at nothing but the payload, and returns, for every payload that contains an
  end of line in its first 128 bytes or a character other than a space between its bytes 4 and 127
  and an end of line anywhere.\<close>

theorem parser_reads_payload_only:
  assumes "same_payload (inbuf s) nb" and "terminated_at (inbuf s) k"
    and "k < 128 \<or> (\<exists>j\<in>{4..<128}. nb_mem (inbuf s) (int j) \<noteq> CHR '' '')"
  shows "\<exists>r s'. ftp_parse_command s = Some (r, s') \<and>
    ftp_parse_command (s\<lparr>inbuf := nb\<rparr>) = Some (r, s'\<lparr>inbuf := nb\<rparr>)"
proof -
  obtain r cmd ps where "parse_payload (inbuf s) = Some (r, cmd, ps)"
    "parse_payload nb = Some (r, cmd, ps)"
    using parse_payload_local [OF assms] by (metis option.exhaust prod_cases3)
  then show ?thesis by (simp add: ftp_parse_command_def)
qed

definition garbage_buf :: "char \<Rightarrow> string \<Rightarrow> netbuf" where
  \<comment> \<open>a line in memory whose 128 bytes in front of it start with the character \<open>c\<close> and a line feed\<close>
  "garbage_buf c bs = (line_buf bs)\<lparr>nb_mem := (\<lambda>i. if i = - 128 then c else if i = - 127 then LF
     else nb_mem (line_buf bs) i)\<rparr>"

lemma parser_reads_payload_only_witness:
  "\<exists>r s'. ftp_parse_command ((sess0 [])\<lparr>inbuf := line_buf (''NOOP'' @ crlf)\<rparr>) = Some (r, s') \<and>
     ftp_parse_command ((sess0 [])\<lparr>inbuf := garbage_buf (CHR ''A'') (''NOOP'' @ crlf)\<rparr>)
       = Some (r, s'\<lparr>inbuf := garbage_buf (CHR ''A'') (''NOOP'' @ crlf)\<rparr>)"
proof -
  let ?s = "(sess0 [])\<lparr>inbuf := line_buf (''NOOP'' @ crlf)\<rparr>"
  have "same_payload (inbuf ?s) (garbage_buf (CHR ''A'') (''NOOP'' @ crlf))"
    by (simp add: same_payload_def garbage_buf_def)
  moreover have "terminated_at (inbuf ?s) 4"
    by (simp add: terminated_at_def line_buf_def crlf_def)
  ultimately show ?thesis
    using parser_reads_payload_only [of ?s "garbage_buf (CHR ''A'') (''NOOP'' @ crlf)" 4] by auto
qed

text \<open>With 125 spaces or more behind a three-letter command the index, an \<open>int8_t\<close>, wraps round
  and the parser takes its parameter from the memory in front of the payload: two buffers with the same
  payload, a proper line, are parsed to different parameters.\<close>

lemma garbage_parsed:
  assumes "c \<noteq> CHR '' ''" and "c \<noteq> LF" and "c \<noteq> CR" and "c \<noteq> NUL"
  shows "map_option (\<lambda>(r, cmd, ps). (r, cmd, cstr ps))
    (parse_payload (garbage_buf c (''CWD'' @ replicate 130 (CHR '' '') @ ''x'' @ crlf))) = Some (1, ''CWD'', [c])"
proof -
  let ?bs = "''CWD'' @ replicate 130 (CHR '' '') @ ''x'' @ crlf"
  let ?nb = "garbage_buf c ?bs"
  have len: "length ?bs < 65536" by (simp add: crlf_def)
  have pl: "payload_is ?nb ?bs"
    using payload_line_buf [OF len] by (simp add: payload_is_def garbage_buf_def)
  have w: "word_ok ''CWD''" by (simp add: word_ok_def FTP_CMD_SIZE_def isalpha_def)
  have m: "nb_mem ?nb (- 128) = c" "nb_mem ?nb (- 127) = LF" by (simp_all add: garbage_buf_def)
  have ret: "param_length (nb_mem ?nb) (unat (nb_len ?nb)) (- 128) 0 = 1"
    using assms m uint_ge_0 [of "nb_len ?nb"] by (simp add: param_length.simps less_le_trans [of "- 128 :: int" 0])
  have "nb_mem ?nb (- 128) \<noteq> CHR '' ''" using assms m by simp
  from parse_payload_wraps [OF pl w _ this] ret m assms
  show ?thesis
    by (simp add: Let_def FTP_PARAM_SIZE_def MAX_LFN_def strncpy_pad_def cstr_def numeral_eq_Suc)
qed

theorem parser_index_wraps:
  "\<exists>s nb r s1 r' s2. same_payload (inbuf s) nb \<and> terminated_at (inbuf s) 134
     \<and> ftp_parse_command s = Some (r, s1) \<and> ftp_parse_command (s\<lparr>inbuf := nb\<rparr>) = Some (r', s2)
     \<and> param s1 = ''A'' \<and> param s2 = ''B''"
proof -
  let ?bs = "''CWD'' @ replicate 130 (CHR '' '') @ ''x'' @ crlf"
  let ?s = "(sess0 [])\<lparr>inbuf := garbage_buf (CHR ''A'') ?bs\<rparr>"
  let ?nb = "garbage_buf (CHR ''B'') ?bs"
  have "same_payload (inbuf ?s) ?nb" by (simp add: same_payload_def garbage_buf_def)
  moreover have "terminated_at (inbuf ?s) 134"
    by (simp add: terminated_at_def garbage_buf_def line_buf_def crlf_def nth_append)
  moreover obtain r c1 p1 where "parse_payload (inbuf ?s) = Some (r, c1, p1)" "cstr p1 = ''A''"
    using garbage_parsed [of "CHR ''A''"] by auto
  moreover obtain r' c2 p2 where "parse_payload ?nb = Some (r', c2, p2)" "cstr p2 = ''B''"
    using garbage_parsed [of "CHR ''B''"] by auto
  ultimately show ?thesis
    by (intro exI [of _ ?s] exI [of _ ?nb]) (simp add: ftp_parse_command_def param_def)
qed

section \<open>Time stamps\<close>

text \<open>The time stamp of MDTM and MLSD can be read back: what \<open>data_time_to_str\<close> prints for any packed
  date and time, followed by a space and a file name, \<open>date_time_get\<close> reads as the same date and
  time, and leaves the file name.\<close>

theorem time_stamp_roundtrip:
  "\<exists>a. date_time_get (data_time_to_str d t @ CHR '' '' # rest) d0 t0 = (15, a, d, t) \<and> drop 15 a = rest"
  by (rule date_time_roundtrip_exists)

section \<open>Silence\<close>

lemma read_loop_silent:
  assumes "\<And>t. fst (e_recv e t) = ERR_TIMEOUT"
  shows "read_command_loop e n s = (- 1, s\<lparr>tr := replicate n CtrlRecv @ tr s\<rparr>)"
  using assms
  by (induction n arbitrary: s)
    (simp_all add: Let_def ERR_TIMEOUT_def ERR_OK_def ftp_eth_is_connected_def replicate_app_Cons_same)

text \<open>A silent client is dropped: when every receive times out (after the second that
  \<open>netconn_set_recvtimeout\<close> sets), the session returns after exactly sixty of them.\<close>

theorem silent_client_dropped:
  assumes "\<And>t. fst (e_recv e t) = ERR_TIMEOUT"
  shows "\<exists>s' m. ftp_service e c s = Some s' \<and>
    tr s' = replicate 60 CtrlRecv @ ConnTimeout c 1000 # CtrlWrite m # tr s"
proof -
  define s1 where "s1 = service_init e c s"
  have t1: "\<exists>m. tr s1 = ConnTimeout c 1000 # CtrlWrite m # tr s" and n1: "listdataconn s1 = None" "dataconn s1 = None"
    by (auto simp: s1_def service_init_def Let_def reply_def ftp_send_def netconn_set_recvtimeout_def log_event_def)
  have "service_loop e s1 = Some (s1\<lparr>tr := replicate 60 CtrlRecv @ tr s1\<rparr>)"
    by (subst service_loop.simps) (simp add: ftp_read_command_def read_loop_silent [OF assms] FTP_TIME_OUT_S_def)
  then show ?thesis
    using t1 n1
    by (auto simp: ftp_service_def s1_def [symmetric] pasv_con_close_def data_con_close_def Let_def)
qed

lemma silent_client_dropped_witness:
  "\<exists>s' m. ftp_service (demo_env\<lparr>e_recv := \<lambda>t. (ERR_TIMEOUT, line_buf [])\<rparr>) 0 (sess0 [ConnNew 0]) = Some s' \<and>
    tr s' = replicate 60 CtrlRecv @ ConnTimeout 0 1000 # CtrlWrite m # [ConnNew 0]"
  using silent_client_dropped [of "demo_env\<lparr>e_recv := \<lambda>t. (ERR_TIMEOUT, line_buf [])\<rparr>" 0 "sess0 [ConnNew 0]"]
  by (simp add: sess0_def)

section \<open>Transfers\<close>

definition can_accept :: "env \<Rightarrow> sess \<Rightarrow> bool" where
  \<comment> \<open>the session listens after a PASV, and the client connects\<close>
  "can_accept e s \<longleftrightarrow> data_conn_mode s = DCM_PASSIVE \<and> listdataconn s \<noteq> None \<and> (\<forall>t. e_accept e t = ERR_OK)"

lemma can_accept_opens: "can_accept e s \<Longrightarrow> fst (data_con_open e s) = 0"
  by (auto simp: can_accept_def data_con_open_def netconn_defs Let_def)

lemma can_accept_calls [simp]:
  "can_accept e (snd (ftps_f_stat e' p s)) = can_accept e s"
  "can_accept e (snd (ftps_f_open e' p md s)) = can_accept e s"
  "can_accept e (s\<lparr>path := q\<rparr>) = can_accept e s"
  by (simp_all add: can_accept_def)

lemma retr_file_delivered:
  assumes "sess_ok B s" and "logged_in s" and "param s \<noteq> []"
    and "path_build (path s) (param s) = Some (p, True)"
    and "\<And>t. fst (e_stat e t) = FR_OK" and "\<And>t. e_open e t = FR_OK"
    and "can_accept e s" and "serves_file e f" and "net_sends e"
  shows "\<exists>s'. ftp_cmd_retr e s = Some s' \<and> sent_bytes (tr s') = sent_bytes (tr s) @ f"
proof -
  define s1 where "s1 = s\<lparr>path := p\<rparr>"
  define s2 where "s2 = snd (ftps_f_stat e p s1)"
  define s3 where "s3 = snd (ftps_f_open e p FA_READ s2)"
  have core: "sess_core B s1" "dataconn s1 = None" using assms(1,4) by (simp_all add: sess_ok_def s1_def)
  have s3: "sess_core B s3" "dataconn s3 = None" "sent_bytes (tr s3) = sent_bytes (tr s)" "reads (tr s3) = 0"
    using core reads_open by (simp_all add: s3_def s2_def s1_def)
  have "can_accept e s3" using assms(7) by (simp add: s3_def s2_def s1_def)
  from retr_transfer_delivers [OF s3(1,2) assms(8,9) s3(4) can_accept_opens [OF this]]
  obtain s' where s': "retr_transfer e s3 = Some s'" "sent_bytes (tr s') = sent_bytes (tr s) @ f"
    using s3(3) by auto
  have "fst (ftps_f_stat e p s1) = FR_OK" "fst (ftps_f_open e p FA_READ s2) = FR_OK"
    using assms(5,6) by (simp_all add: ftps_f_stat_def ftps_f_open_def Let_def)
  then have "ftp_cmd_retr e s = Some s'"
    using assms(2-4) s'(1) s1_def s2_def s3_def by (simp add: ftp_cmd_retr_def case_prod_beta Let_def)
  then show ?thesis using s'(2) by blast
qed

definition listening_sess :: "string \<Rightarrow> string \<Rightarrow> sess" where
  \<comment> \<open>logged in, behind a successful PASV\<close>
  "listening_sess c a = (logged_sess c a)\<lparr>listdataconn := Some 1, data_conn_mode := DCM_PASSIVE,
     tr := [ConnNew 1, ConnNew 0]\<rparr>"

lemma listening_sess_ok:
  assumes "NUL \<notin> set a" and "length a + 1 < FTP_PARAM_SIZE"
  shows "sess_ok {0} (listening_sess c a)" and "param (listening_sess c a) = a"
    and "logged_in (listening_sess c a)" and "path (listening_sess c a) = ''/''"
proof -
  show p: "param (listening_sess c a) = a"
    using logged_sess_ok(2) [OF assms] by (simp add: listening_sess_def param_def)
  show "logged_in (listening_sess c a)" "path (listening_sess c a) = ''/''"
    by (simp_all add: listening_sess_def logged_sess_def logged_in_def sess0_def)
  show "sess_ok {0} (listening_sess c a)"
    using logged_sess_ok [OF assms, of c] p
    by (simp add: listening_sess_def sess_ok_def sess_core_def logged_sess_def sess0_def conns_def owned_def insert_commute)
qed

definition serving_env :: "string \<Rightarrow> env" where
  "serving_env f = demo_env\<lparr>e_read := \<lambda>t. (FR_OK, take FTP_BUF_SIZE (drop (FTP_BUF_SIZE * reads (tl t)) f))\<rparr>"

lemma demo_env_ok [simp]:
  "e_stat demo_env t = (FR_OK, plain_info)" "e_open demo_env t = FR_OK" "e_accept demo_env t = ERR_OK"
  "e_data_write demo_env t = ERR_OK" "e_write demo_env t = (FR_OK, 512)"
  by (simp_all add: demo_env_def script_env_def)

definition hello_env :: env where
  "hello_env = serving_env ''hello''"

definition hello_sess :: sess where
  "hello_sess = listening_sess ''RETR'' ''a''"

lemma hello_setup:
  shows "sess_ok {0} hello_sess" "logged_in hello_sess" "param hello_sess \<noteq> []"
    "path_build (path hello_sess) (param hello_sess) = Some (''/a'', True)"
    "fst (e_stat hello_env t) = FR_OK" "e_open hello_env t = FR_OK"
    "can_accept hello_env hello_sess" "serves_file hello_env ''hello''" "net_sends hello_env"
    "tr hello_sess = [ConnNew 1, ConnNew 0]"
proof -
  have l: "NUL \<notin> set ''a''" "length ''a'' + 1 < FTP_PARAM_SIZE" by (simp_all add: FTP_PARAM_SIZE_def MAX_LFN_def)
  note s = listening_sess_ok [OF l, of "''RETR''"]
  show "sess_ok {0} hello_sess" "logged_in hello_sess" "param hello_sess \<noteq> []"
    using s by (simp_all add: hello_sess_def)
  show "path_build (path hello_sess) (param hello_sess) = Some (''/a'', True)"
    unfolding hello_sess_def s(2,4) by code_simp
  show "fst (e_stat hello_env t) = FR_OK" "e_open hello_env t = FR_OK" "can_accept hello_env hello_sess"
    "serves_file hello_env ''hello''" "net_sends hello_env" "tr hello_sess = [ConnNew 1, ConnNew 0]"
    by (simp_all add: serves_file_def net_sends_def can_accept_def serving_env_def hello_env_def hello_sess_def
        listening_sess_def)
qed

lemma hello_run: "\<exists>s'. ftp_cmd_retr hello_env hello_sess = Some s'"
  using retr_file_delivered [OF hello_setup(1-9)] by blast

text \<open>C19: RETR delivers the file. If the file exists, opens and reads, and the client connects and takes
  the data, the command returns and the socket was given exactly the bytes of the file, of any length.\<close>

theorem retr_delivers_file:
  assumes "sess_ok B s" and "logged_in s" and "param s \<noteq> []"
    and "path_build (path s) (param s) = Some (p, True)"
    and "\<And>t. fst (e_stat e t) = FR_OK" and "\<And>t. e_open e t = FR_OK"
    and "can_accept e s" and "serves_file e f" and "net_sends e"
  shows "\<exists>s'. ftp_cmd_retr e s = Some s' \<and> sent_bytes (tr s') = sent_bytes (tr s) @ f"
  using assms by (rule retr_file_delivered)

lemma retr_delivers_file_witness:
  "\<exists>s'. ftp_cmd_retr hello_env hello_sess = Some s' \<and> sent_bytes (tr s') = ''hello''"
  using retr_delivers_file [OF hello_setup(1-9)] by (simp add: hello_setup(10))

text \<open>Whatever happens, RETR gives the socket exactly the bytes it read from the file: the same bytes
  in the same order, none lost and none twice, also when a read or a write fails in the middle.\<close>

theorem retr_sends_what_it_reads:
  assumes "sess_ok B s" and "ftp_cmd_retr e s = Some s'"
  shows "\<exists>x. read_bytes e (tr s') = read_bytes e (tr s) @ x \<and> sent_bytes (tr s') = sent_bytes (tr s) @ x"
  using retr_bytes [OF assms] by (simp add: same_bytes_def)

lemma retr_sends_what_it_reads_witness:
  "\<exists>s' x. ftp_cmd_retr hello_env hello_sess = Some s'
     \<and> read_bytes hello_env (tr s') = x \<and> sent_bytes (tr s') = x"
proof -
  obtain s' where run: "ftp_cmd_retr hello_env hello_sess = Some s'" using hello_run by blast
  from run retr_sends_what_it_reads [OF hello_setup(1) run] show ?thesis by (auto simp: hello_setup(10))
qed

text \<open>C20: STOR hands the upload to the file system. If the file opens, the client connects, sends any number of segments of
  any length below 64 KiB, each in one buffer, and closes, and no write reports an error, the command
  returns, exactly the bytes that were sent have been handed to \<open>f_write\<close>, in their order, and the client is told that the file was
  transferred. The file holds exactly these bytes if and only if every write was complete: a write that a full disk cut short, which
  FatFs reports only through \<open>*written\<close>, is not noticed, and the answer is the same.\<close>

theorem stor_stores_upload:
  assumes "sess_ok B s" and "logged_in s" and "param s \<noteq> []"
    and "path_build (path s) (param s) = Some (p, True)" and "\<And>t. e_open e t = FR_OK"
    and "can_accept e s" and "sends_segments e segs" and "disk_writes e"
  shows "\<exists>s'. ftp_cmd_stor e s = Some s' \<and> file_bytes (tr s') = file_bytes (tr s) @ concat segs \<and>
    hd (tr s') = CtrlWrite (''226 File successfully transferred'' @ crlf) \<and>
    (stored_bytes e (tr s') = stored_bytes e (tr s) @ concat segs \<longleftrightarrow> missing e (tr s') = missing e (tr s))"
proof -
  define s1 where "s1 = s\<lparr>path := p\<rparr>"
  define s2 where "s2 = snd (ftps_f_open e p (FA_CREATE_ALWAYS OR FA_WRITE) s1)"
  have core: "sess_core B s1" "dataconn s1 = None" using assms(1,4) by (simp_all add: sess_ok_def s1_def)
  have s2: "sess_core B s2" "dataconn s2 = None" "file_bytes (tr s2) = file_bytes (tr s)" "recvs (tr s2) = 0"
    using core by (simp_all add: s2_def s1_def) (simp add: ftps_f_open_def Let_def diag_err_def)
  have "can_accept e s2" using assms(6) by (simp add: s2_def s1_def)
  from stor_transfer_delivers [OF s2(1,2) assms(7,8) s2(4) can_accept_opens [OF this]]
  obtain s' where s': "stor_transfer e s2 = Some s'" "file_bytes (tr s') = file_bytes (tr s) @ concat segs"
    "hd (tr s') = CtrlWrite (''226 File successfully transferred'' @ crlf)"
    using s2(3) by auto
  have "fst (ftps_f_open e p (FA_CREATE_ALWAYS OR FA_WRITE) s1) = FR_OK"
    using assms(5) by (simp add: ftps_f_open_def Let_def)
  then have run: "ftp_cmd_stor e s = Some s'"
    using assms(2-4) s'(1) s1_def s2_def by (simp add: ftp_cmd_stor_def case_prod_beta Let_def)
  from stored_iff_complete [OF stor.grows [OF assms(1) run] s'(2)] run s'(2,3) show ?thesis by blast
qed

definition sending_env :: "string list \<Rightarrow> env" where
  "sending_env segs = demo_env\<lparr>e_data_recv := \<lambda>t. if recvs (tl t) < length segs
     then (ERR_OK, \<lparr>pb_payload = segs ! recvs (tl t), pb_tot_len = of_nat (length (segs ! recvs (tl t)))\<rparr>)
     else (ERR_CLSD, \<lparr>pb_payload = [], pb_tot_len = 0\<rparr>)\<rparr>"

lemma sending_env_sends: "\<forall>x \<in> set segs. length x < 65536 \<Longrightarrow> sends_segments (sending_env segs) segs"
  by (simp add: sends_segments_def sending_env_def)

lemma sending_env_ok: "disk_writes (sending_env segs)" "e_open (sending_env segs) t = FR_OK"
  "can_accept (sending_env segs) s = can_accept hello_env s"
  by (simp_all add: disk_writes_def sending_env_def can_accept_def hello_env_def serving_env_def)

definition full_disk_env :: env where
  \<comment> \<open>the same upload, and a disk with room for no byte\<close>
  "full_disk_env = (sending_env [''hello '', ''world''])\<lparr>e_write := \<lambda>t. (FR_OK, 0)\<rparr>"

lemma full_disk_stores_nothing [simp]: "stored_bytes full_disk_env t = []"
proof (induction t)
  case (Cons ev t)
  then show ?case by (cases ev) (simp_all add: full_disk_env_def)
qed simp

text \<open>On a full disk the same upload is answered in the same way, and nothing is stored.\<close>

lemma stor_stores_upload_witness:
  "(\<exists>s'. ftp_cmd_stor (sending_env [''hello '', ''world'']) hello_sess = Some s' \<and> file_bytes (tr s') = ''hello world'') \<and>
   (\<exists>s'. ftp_cmd_stor full_disk_env hello_sess = Some s' \<and> file_bytes (tr s') = ''hello world'' \<and> stored_bytes full_disk_env (tr s') = [] \<and>
     hd (tr s') = CtrlWrite (''226 File successfully transferred'' @ crlf))"
proof -
  have sends: "sends_segments (sending_env [''hello '', ''world'']) [''hello '', ''world'']"
    by (rule sending_env_sends) simp
  have f: "sends_segments full_disk_env [''hello '', ''world'']" "disk_writes full_disk_env" "e_open full_disk_env t = FR_OK"
    "can_accept full_disk_env s = can_accept hello_env s" for t s
    using sends sending_env_ok by (simp_all add: full_disk_env_def disk_writes_def can_accept_def sends_segments_def)
  have c: "can_accept full_disk_env hello_sess" "can_accept (sending_env [''hello '', ''world'']) hello_sess"
    using hello_setup(7) by (simp_all add: f(4) sending_env_ok(3))
  have "file_bytes (tr hello_sess) = []" by (simp add: hello_setup(10))
  then show ?thesis
    using stor_stores_upload [OF hello_setup(1-4) sending_env_ok(2) c(2) sends sending_env_ok(1)]
      stor_stores_upload [OF hello_setup(1-4) f(3) c(1) f(1,2)] by auto
qed

text \<open>Whatever happens, what STOR has handed to \<open>f_write\<close> is a prefix of what it has received; it is all of it
  unless a write reported an error.\<close>

theorem stor_writes_prefix:
  assumes "sess_ok B s" and "ftp_cmd_stor e s = Some s'"
  shows "\<exists>w rest. file_bytes (tr s') = file_bytes (tr s) @ w \<and>
    recv_bytes e (tr s') = recv_bytes e (tr s) @ w @ rest \<and> (writes_ok e (tr s') \<longrightarrow> rest = [])"
  using stor_bytes [OF assms] by (auto simp: stored_def)

lemma stor_writes_prefix_witness:
  "\<exists>s' w rest. ftp_cmd_stor demo_env hello_sess = Some s' \<and> file_bytes (tr s') = w \<and>
    recv_bytes demo_env (tr s') = w @ rest"
proof -
  have "map_option (\<lambda>_. ()) (ftp_cmd_stor demo_env hello_sess) = Some ()" by code_simp
  then obtain s' where run: "ftp_cmd_stor demo_env hello_sess = Some s'" by auto
  from run stor_writes_prefix [OF hello_setup(1) run] show ?thesis by (auto simp: hello_setup(10))
qed

text \<open>\<open>netconn_recv_tcp_pbuf\<close> may return a chain of buffers. STOR takes the length of the chain and the
  payload of its first buffer: a chain longer than its first buffer makes the copy read past it, and the
  command has no defined result.\<close>

theorem stor_chain_undefined:
  assumes "disk_writes e" and "length buf < FTP_BUF_SIZE" and "dataconn s = Some c"
    and "e_data_recv e (DataRecv c # tr s) = (ERR_OK, seg)"
    and "length (pb_payload seg) < unat (pb_tot_len seg)"
  shows "stor_loop e buf s = None"
  using assms(3,4) stor_copy_chain [OF assms(1,5,2)]
  by (subst stor_loop.simps) (simp add: netconn_recv_tcp_pbuf_def Let_def ERR_OK_def ERR_CLSD_def)

definition chain_env :: env where
  "chain_env = demo_env\<lparr>e_data_recv := \<lambda>t. (ERR_OK, \<lparr>pb_payload = ''abc'', pb_tot_len = 5\<rparr>)\<rparr>"

lemma stor_chain_undefined_witness: "stor_loop chain_env [] (hello_sess\<lparr>dataconn := Some 2\<rparr>) = None"
  by (rule stor_chain_undefined [where c = 2 and seg = "\<lparr>pb_payload = ''abc'', pb_tot_len = 5\<rparr>"])
    (simp_all add: chain_env_def disk_writes_def FTP_BUF_SIZE_def)

section \<open>Data connections\<close>

lemma port_digits:
  fixes a a' n n' :: int
  assumes "0 \<le> a" "a < 25" "0 \<le> a'" "a' < 25"
  shows "55600 + a + n * 25 = 55600 + a' + n' * 25 \<longleftrightarrow> n = n' \<and> a = a'"
proof (cases n n' rule: linorder_cases)
  case less
  then have "55600 + a + n * 25 \<noteq> 55600 + a' + n' * 25" using assms by linarith
  then show ?thesis using less by simp
next
  case greater
  then have "55600 + a + n * 25 \<noteq> 55600 + a' + n' * 25" using assms by linarith
  then show ?thesis using greater by simp
qed simp

text \<open>The passive data port lies in 55600 to 61999, and two sessions use the same one only if they have the
  same number and the same increment.\<close>

theorem passive_ports:
  assumes "inc < PORT_INCREMENT_OFFSET" and "inc' < PORT_INCREMENT_OFFSET"
  shows "pasv_port inc num \<in> {55600..61999} \<and>
    (pasv_port inc num = pasv_port inc' num' \<longleftrightarrow> num = num' \<and> inc = inc')"
proof -
  have b: "uint inc < 25" "uint inc' < 25" "uint num < 256" "uint num' < 256"
    using assms uint_lt2p [of num] uint_lt2p [of num']
    by (simp_all add: PORT_INCREMENT_OFFSET_def word_less_def)
  have p: "uint (pasv_port i n) = 55600 + uint i + uint n * 25" if "uint i < 25" "uint n < 256" for i n :: u8
  proof -
    have c: "uint FTP_DATA_PORT = 55600" "uint PORT_INCREMENT_OFFSET = 25"
      by (simp_all add: FTP_DATA_PORT_def PORT_INCREMENT_OFFSET_def)
    have nonneg: "0 \<le> uint i" "0 \<le> uint n" by simp_all
    show ?thesis unfolding pasv_port_def c uint_word_of_int using that nonneg by (simp add: mod_pos_pos_trivial)
  qed
  have r: "pasv_port inc num \<in> {55600..61999}"
    using p [OF b(1,3)] b by (simp add: word_le_def)
  have "uint (pasv_port inc num) = uint (pasv_port inc' num') \<longleftrightarrow> uint num = uint num' \<and> uint inc = uint inc'"
    unfolding p [OF b(1,3)] p [OF b(2,4)] by (rule port_digits) (use b in simp_all)
  with r show ?thesis by (simp add: word_uint_eq_iff)
qed

lemma passive_ports_witness: "pasv_port 1 2 \<in> {55600..61999} \<and> pasv_port 1 2 \<noteq> pasv_port 3 2"
  using passive_ports [of 1 3 2 2] by (simp add: PORT_INCREMENT_OFFSET_def)

text \<open>After a PASV whose bind or listen fails, \<open>listdataconn\<close> stays set: the next PASV opens nothing, makes
  no call and is answered as if the port were listening.\<close>

theorem pasv_failure_sticks:
  assumes "listdataconn s = None" and "e_new e (tr s)"
    and "\<And>t. e_bind e t \<noteq> ERR_OK" and "pasv_con_open e s = (r, s1)"
  shows "r = - 1 \<and> listdataconn s1 \<noteq> None \<and> pasv_con_open e' s1 = (0, s1) \<and>
    (\<forall>p. ConnListen p \<in> set (tr s1) \<longrightarrow> ConnListen p \<in> set (tr s))"
  using assms by (auto simp: pasv_con_open_def netconn_defs Let_def split: if_splits)

lemma pasv_failure_sticks_witness:
  "fst (pasv_con_open (demo_env\<lparr>e_bind := \<lambda>t. - 8\<rparr>) (logged_sess ''PASV'' [])) = - 1
   \<and> listdataconn (snd (pasv_con_open (demo_env\<lparr>e_bind := \<lambda>t. - 8\<rparr>) (logged_sess ''PASV'' []))) \<noteq> None"
proof -
  let ?e = "demo_env\<lparr>e_bind := \<lambda>t. - 8\<rparr>" and ?s = "logged_sess ''PASV'' []"
  have "listdataconn ?s = None" "e_new ?e (tr ?s)" "\<And>t. e_bind ?e t \<noteq> ERR_OK"
    by (simp_all add: logged_sess_def sess0_def demo_env_def script_env_def ERR_OK_def)
  from pasv_failure_sticks [OF this, of "fst (pasv_con_open ?e ?s)" "snd (pasv_con_open ?e ?s)"]
  show ?thesis by simp
qed

section \<open>The working directory\<close>

lemma end_transfer_path: "path (end_transfer e s) = path_up_a_level (path s)"
  by (simp add: end_transfer_def Let_def)

lemma retr_transfer_path:
  assumes "retr_transfer e s = Some s'"
  shows "path s' = path_up_a_level (path s)"
proof -
  obtain r s1 where o: "data_con_open e s = (r, s1)" by (metis surj_pair)
  have p: "path s1 = path s" using data_con_open_frame [OF o] by blast
  have k: "path s2 = path s" if "retr_loop e (reply m (snd (ftps_f_size e s1))) = Some s2" for m s2
    using keeps_sessD(4) [OF retr_loop_keeps [OF that]] p by simp
  show ?thesis
    using assms o p k
    by (auto simp: retr_transfer_def case_prod_beta Let_def end_transfer_path split: if_splits
        elim!: option_bind_SomeE)
qed

lemma stor_transfer_path:
  assumes "stor_transfer e s = Some s'"
  shows "path s' = path_up_a_level (path s)"
proof -
  obtain r s1 where o: "data_con_open e s = (r, s1)" by (metis surj_pair)
  have p: "path s1 = path s" using data_con_open_frame [OF o] by blast
  have k: "path (stor_rest e err buf s2) = path s"
    if "stor_loop e [] (reply m s1) = Some (err, buf, s2)" for m err buf s2
    using keeps_sessD(4) [OF stor_loop_keeps [OF that]] keeps_sessD(4) [OF stor_rest_keeps] p by simp
  show ?thesis
    using assms o p k
    by (auto simp: stor_transfer_def case_prod_beta Let_def end_transfer_path split: if_splits
        elim!: option_bind_SomeE)
qed

definition file_commands :: "(env \<Rightarrow> sess \<Rightarrow> sess option) list" where
  "file_commands = [ftp_cmd_dele, ftp_cmd_rmd, ftp_cmd_size, ftp_cmd_rnto, ftp_cmd_retr, ftp_cmd_stor]"

lemma visit_returns:
  assumes "sess_ok B s" and "is_child_of (path s) (param s)" and "path_build (path s) (param s) = Some (q, b)"
  shows "b" and "path_up_a_level q = path s"
  using assms ftp_path.build_good [of "path s" "param s" q b] ftp_path.up_child [of "path s" "param s" q b]
  by (auto simp: sess_ok_def sess_core_path sess_core_param)

lemma file_command_path:
  assumes ok: "sess_ok B s" and ch: "is_child_of (path s) (param s)"
  shows "ftp_cmd_dele e s = Some s' \<Longrightarrow> path s' = path s" "ftp_cmd_rmd e s = Some s' \<Longrightarrow> path s' = path s"
    "ftp_cmd_size e s = Some s' \<Longrightarrow> path s' = path s" "ftp_cmd_rnto e s = Some s' \<Longrightarrow> path s' = path s"
    "ftp_cmd_retr e s = Some s' \<Longrightarrow> path s' = path s" "ftp_cmd_stor e s = Some s' \<Longrightarrow> path s' = path s"
  using visit_returns [OF ok ch]
  by (auto simp: ftp_cmd_dele_def ftp_cmd_rmd_def ftp_cmd_size_def ftp_cmd_rnto_def ftp_cmd_retr_def ftp_cmd_stor_def
      case_prod_beta Let_def split: if_splits elim!: option_bind_SomeE
      dest!: retr_transfer_path stor_transfer_path)

text \<open>A file command leaves the working directory alone: with a plain file name as its parameter, DELE,
  RMD, SIZE, RNTO, RETR and STOR end in the directory in which they started, on every success and error
  path, although they append the name to it on the way.\<close>

theorem file_commands_keep_directory:
  assumes "h \<in> set file_commands" and "sess_ok B s" and "is_child_of (path s) (param s)" and "h e s = Some s'"
  shows "path s' = path s"
  using assms file_command_path [OF assms(2,3)] unfolding file_commands_def by auto

lemma file_commands_keep_directory_witness:
  "\<exists>s'. ftp_cmd_retr hello_env hello_sess = Some s' \<and> path s' = ''/''"
proof -
  obtain s' where run: "ftp_cmd_retr hello_env hello_sess = Some s'" using hello_run by blast
  have l: "NUL \<notin> set ''a''" "length ''a'' + 1 < FTP_PARAM_SIZE" by (simp_all add: FTP_PARAM_SIZE_def MAX_LFN_def)
  have p: "path hello_sess = ''/''" "param hello_sess = ''a''"
    using listening_sess_ok [OF l] by (simp_all add: hello_sess_def)
  then have "is_child_of (path hello_sess) (param hello_sess)" by (simp add: is_child_of_def name_ok_def)
  from file_commands_keep_directory [where h = ftp_cmd_retr, OF _ hello_setup(1) this run] run p show ?thesis
    by (simp add: file_commands_def)
qed

section \<open>PORT\<close>

lemma strchr_comma_digits:
  "CHR '','' \<notin> set s \<Longrightarrow> strchr_comma (s @ CHR '','' # t) = Some (CHR '','' # t)"
proof -
  assume "CHR '','' \<notin> set s"
  then have "dropWhile (\<lambda>c. c \<noteq> CHR '','') (s @ CHR '','' # t) = CHR '','' # t" by (induction s) auto
  then show ?thesis by (simp add: strchr_comma_def)
qed

lemma dec_no_comma: "CHR '','' \<notin> set (dec n)"
  using dec_digits [of n] by (auto simp: isdigit_def)

lemma atoi_prefix:
  assumes "s \<noteq> []" and "\<forall>c \<in> set s. isdigit c" and "\<not> isdigit x"
  shows "atoi (s @ x # t) = atoi s"
proof -
  from assms have h: "isdigit (hd s)" by simp
  have "dropWhile isspace (s @ x # t) = s @ x # t"
    using assms(1) h by (intro dropWhile_stop) (auto dest: isdigit_facts)
  moreover have "takeWhile isdigit (s @ x # t) = s" using assms(2,3) by (simp add: takeWhile_append2)
  moreover have "dropWhile isspace s = s" using assms(1) h by (intro dropWhile_stop) (auto dest: isdigit_facts)
  ultimately show ?thesis
    using assms isdigit_facts [OF h] by (simp add: atoi_def Let_def takeWhile_id_iff)
qed

lemma atoi_dec: "n < 65536 \<Longrightarrow> atoi (dec n) = int n"
  using atoi_digits [OF dec_nonempty dec_digits, of n] by (simp add: INT_MAX_def)

lemma atoi_dec_comma: "n < 65536 \<Longrightarrow> atoi (dec n @ CHR '','' # t) = int n"
  using atoi_prefix [OF dec_nonempty dec_digits, of "CHR '',''" n t] atoi_dec [of n] by (simp add: isdigit_def)

definition commas :: "nat list \<Rightarrow> string" where
  "commas ns = concat (map (\<lambda>n. CHR '','' # dec n) ns)"

definition port_param :: "u8 \<Rightarrow> u8 \<Rightarrow> u8 \<Rightarrow> u8 \<Rightarrow> u8 \<Rightarrow> u8 \<Rightarrow> string" where
  \<comment> \<open>the parameter \<open>h1,h2,h3,h4,p1,p2\<close> of a PORT command\<close>
  "port_param a b c d p q = dec (unat a) @ commas (map unat [b, c, d, p, q])"

lemma unat_u8_small: "unat (w :: u8) < 65536"
  using unsigned_less [of w, where ?'a = nat] by simp

lemma port_param_parsed:
  "port_ip 4 (port_param a b c d p q) [] = ([a, b, c, d], Some (commas [unat p, unat q]))"
proof -
  have four: "(4 :: nat) = Suc (Suc (Suc (Suc 0)))" by simp
  show ?thesis
    unfolding four
    by (simp add: port_param_def commas_def Let_def strchr_comma_digits dec_no_comma atoi_dec_comma unat_u8_small)
qed

lemma port_numbers_parsed:
  fixes p q :: u8
  shows "port_numbers (commas [unat p, unat q]) k = Some (ucast p * 256 + ucast q, Some (dec (unat q)))"
proof -
  have u: "uint p < 256" "uint q < 256" using uint_lt2p [of p] uint_lt2p [of q] by simp_all
  have "- INT_MAX - 1 \<le> 256 * uint p \<and> 256 * uint p \<le> INT_MAX"
    and b: "- INT_MAX - 1 \<le> 256 * uint p + uint q \<and> 256 * uint p + uint q \<le> INT_MAX"
    unfolding INT_MAX_def using u uint_ge_0 [of p] uint_ge_0 [of q] by linarith+
  then have "c_int (256 * uint p) = Some (256 * uint p)" by (simp add: c_int_def)
  moreover have w: "uint (word_of_int (256 * uint p) :: u16) = 256 * uint p"
    unfolding uint_word_of_int using u uint_ge_0 [of p] by (simp add: mod_pos_pos_trivial)
  moreover have "c_int (256 * uint p + uint q) = Some (256 * uint p + uint q)"
    using b by (simp add: c_int_def)
  moreover have "word_of_int (256 * uint p + uint q) = (ucast p * 256 + ucast q :: u16)"
    by (simp add: mult.commute)
  ultimately show ?thesis
    by (simp add: port_numbers_def commas_def atoi_dec_comma atoi_dec unat_u8_small
        strchr_comma_digits dec_no_comma Let_def del: of_int_add of_int_mult)
qed

lemma reply_ipclient [simp]: "ipclient (reply m s) = ipclient s"
  by (simp add: reply_def ftp_send_def)

text \<open>PORT with six numbers of one byte sets exactly the client's address and port and switches to
  active mode; a data connection that was open is closed first.\<close>

theorem port_command_parsed:
  assumes "logged_in s" and "param s = port_param a b c d p q"
  shows "\<exists>s'. ftp_cmd_port e s = Some s' \<and> ipclient s' = IP4_ADDR [a, b, c, d]
    \<and> data_port s' = ucast p * 256 + ucast q \<and> data_conn_mode s' = DCM_ACTIVE \<and> dataconn s' = None"
proof -
  have "param s \<noteq> []" using assms(2) by (simp add: port_param_def)
  then show ?thesis
    using assms port_param_parsed port_numbers_parsed [of p q "data_port (data_con_close s)"]
    by (simp add: ftp_cmd_port_def Let_def)
qed

lemma port_command_parsed_witness:
  "\<exists>s'. ftp_cmd_port demo_env (logged_sess ''PORT'' (port_param 192 168 1 2 217 48)) = Some s' \<and> data_port s' = 55600"
proof -
  have "port_param 192 168 1 2 217 48 = ''192,168,1,2,217,48''" by code_simp
  then have l: "NUL \<notin> set (port_param 192 168 1 2 217 48)" "length (port_param 192 168 1 2 217 48) + 1 < FTP_PARAM_SIZE"
    by (simp_all add: FTP_PARAM_SIZE_def MAX_LFN_def)
  have "logged_in (logged_sess ''PORT'' (port_param 192 168 1 2 217 48))"
    by (simp add: logged_in_def logged_sess_def sess0_def)
  from port_command_parsed [OF this logged_sess_ok(2) [OF l], of demo_env] show ?thesis by auto
qed

section \<open>Listings\<close>

fun entries_read :: "trace \<Rightarrow> nat" where
  \<comment> \<open>calls of \<open>f_readdir\<close> since the directory was opened\<close>
  "entries_read [] = 0"
| "entries_read (FReaddir # t) = Suc (entries_read t)"
| "entries_read (FOpendir p # t) = 0"
| "entries_read (_ # t) = entries_read t"

definition lists_dir :: "env \<Rightarrow> filinfo list \<Rightarrow> bool" where
  \<comment> \<open>\<open>f_readdir\<close> hands out the entries one by one, and an empty name at the end\<close>
  "lists_dir e fis \<longleftrightarrow> (\<forall>fi \<in> set fis. fname fi \<noteq> []) \<and>
     (\<forall>t. if entries_read t < length fis then e_readdir e (FReaddir # t) = (FR_OK, fis ! entries_read t)
          else fst (e_readdir e (FReaddir # t)) = FR_OK \<and> fname (snd (e_readdir e (FReaddir # t))) = [])"

definition listed :: "filinfo list \<Rightarrow> filinfo list" where
  \<comment> \<open>names that begin with a dot are not shown\<close>
  "listed fis = filter (\<lambda>fi. hd (fname fi) \<noteq> CHR ''.'') fis"

lemma list_loop_lists:
  assumes ls: "lists_dir e fis" and line: "\<And>s t. line (s\<lparr>tr := t\<rparr>) = line s"
  shows "dataconn s = Some c \<Longrightarrow> \<exists>s'. list_loop e line nm s =
      Some (nm + of_nat (length (listed (drop (entries_read (tr s)) fis))), s') \<and>
    sent_bytes (tr s') = sent_bytes (tr s) @
      concat (map (\<lambda>fi. line (s\<lparr>finfo := fi\<rparr>)) (listed (drop (entries_read (tr s)) fis)))"
proof (induction "length fis - entries_read (tr s)" arbitrary: s nm rule: less_induct)
  case less
  define k where "k = entries_read (tr s)"
  define fi where "fi = snd (e_readdir e (FReaddir # tr s))"
  define s1 where "s1 = s\<lparr>finfo := fi, tr := FReaddir # tr s\<rparr>"
  have ok: "fst (e_readdir e (FReaddir # tr s)) = FR_OK"
    using ls unfolding lists_dir_def by (metis fst_conv)
  have rd: "ftps_f_readdir e s = (FR_OK, s1)"
    using ok by (simp add: ftps_f_readdir_def Let_def s1_def fi_def)
  show ?case
  proof (cases "k < length fis")
    case False
    then have "fname fi = []" using ls unfolding lists_dir_def k_def fi_def by metis
    then have "list_loop e line nm s = Some (nm, s1)" by (subst list_loop.simps) (simp add: rd s1_def)
    then show ?thesis using False by (simp add: s1_def k_def listed_def)
  next
    case True
    have fi: "fi = fis ! k" using ls True unfolding lists_dir_def k_def fi_def by (metis snd_conv)
    have ne: "fname fi \<noteq> []" using ls True by (simp add: lists_dir_def fi)
    have cons: "drop k fis = fi # drop (Suc k) fis" using True fi by (simp add: Cons_nth_drop_Suc)
    define s2 where "s2 = (if hd (fname fi) = CHR ''.'' then s1
      else snd (netconn_write_data e (line s1) s1))"
    define m where "m = (if hd (fname fi) = CHR ''.'' then nm else nm + 1)"
    have step: "list_loop e line nm s = list_loop e line m s2"
      using ne by (subst list_loop.simps) (simp add: rd s1_def s2_def m_def case_prod_beta)
    have swap: "u\<lparr>tr := t, finfo := x\<rparr> = u\<lparr>finfo := x, tr := t\<rparr>" for u :: sess and t x by simp
    have s2: "entries_read (tr s2) = Suc k" "dataconn s2 = Some c"
      "line (s2\<lparr>finfo := x\<rparr>) = line (s\<lparr>finfo := x\<rparr>)"
      "sent_bytes (tr s2) = sent_bytes (tr s) @ (if hd (fname fi) = CHR ''.'' then [] else line (s\<lparr>finfo := fi\<rparr>))" for x
      using less.prems line [where s = "s\<lparr>finfo := x\<rparr>"] line [where s = "s\<lparr>finfo := fi\<rparr>"]
      by (auto simp: s2_def s1_def netconn_write_data_def Let_def k_def swap)
    have "length fis - entries_read (tr s2) < length fis - entries_read (tr s)"
      using True s2(1) unfolding k_def by linarith
    from less.hyps [OF this s2(2), of m] show ?thesis
      using s2 unfolding step k_def [symmetric] cons
      by (auto simp: listed_def m_def)
  qed
qed

lemma entries_read_calls [simp]:
  "entries_read (tr (snd (ftps_f_opendir e p s))) = 0"
  "entries_read (tr (reply m s)) = entries_read (tr s)"
  "entries_read (tr (snd (data_con_open e s))) = entries_read (tr s)"
  by (auto simp: reply_def ftp_send_def file_defs Let_def diag_err_def data_con_open_def netconn_defs
      split: option.splits)

lemma sent_opendir [simp]: "sent_bytes (tr (snd (ftps_f_opendir e p s))) = sent_bytes (tr s)"
  by (simp add: file_defs Let_def)

lemma data_con_open_names [simp]:
  "command (snd (data_con_open e s)) = command s" "lfn (snd (data_con_open e s)) = lfn s"
  by (auto simp: data_con_open_def netconn_defs Let_def split: option.splits)

lemma line_of_names:
  assumes "command s' = command s" and "lfn s' = lfn s"
  shows "list_line (s'\<lparr>finfo := fi\<rparr>) = list_line (s\<lparr>finfo := fi\<rparr>)"
    "mlsd_line (s'\<lparr>finfo := fi\<rparr>) = mlsd_line (s\<lparr>finfo := fi\<rparr>)"
  using assms by (simp_all add: list_line_def mlsd_line_def entry_name_def)

lemma line_trace: "list_line (s\<lparr>tr := t\<rparr>) = list_line s" "mlsd_line (s\<lparr>tr := t\<rparr>) = mlsd_line s"
  by (simp_all add: list_line_def mlsd_line_def entry_name_def)

lemma can_accept_opendir [simp]: "can_accept e (snd (ftps_f_opendir e' p s)) = can_accept e s"
  by (simp add: can_accept_def)

lemma listing_run:
  assumes ok: "sess_ok B s" and acc: "can_accept e s" and ls: "lists_dir e fis"
    and line: "\<And>s t. line (s\<lparr>tr := t\<rparr>) = line s"
    and names: "\<And>u fi. command u = command s \<Longrightarrow> lfn u = lfn s \<Longrightarrow> line (u\<lparr>finfo := fi\<rparr>) = line (s\<lparr>finfo := fi\<rparr>)"
  defines "s1 \<equiv> snd (ftps_f_opendir e (path s) s)"
  defines "s2 \<equiv> snd (data_con_open e s1)"
  shows "fst (data_con_open e s1) = 0 \<and> (\<exists>s3. list_loop e line 0 (reply m s2) = Some (of_nat (length (listed fis)), s3)
    \<and> sent_bytes (tr s3) = sent_bytes (tr s) @ concat (map (\<lambda>fi. line (s\<lparr>finfo := fi\<rparr>)) (listed fis)))"
proof -
  have core: "sess_core B s1" "dataconn s1 = None" using ok by (simp_all add: sess_ok_def s1_def)
  have r: "fst (data_con_open e s1) = 0" using acc by (intro can_accept_opens) (simp add: s1_def)
  then have o: "data_con_open e s1 = (0, s2)" by (simp add: s2_def prod_eq_iff)
  obtain c where c: "dataconn (reply m s2) = Some c" using data_con_open_core(3) [OF core o] by auto
  have n: "command (reply m s2) = command s" "lfn (reply m s2) = lfn s" by (simp_all add: s2_def s1_def)
  obtain s3 where s3: "list_loop e line 0 (reply m s2) =
      Some (0 + of_nat (length (listed (drop (entries_read (tr (reply m s2))) fis))), s3)"
    "sent_bytes (tr s3) = sent_bytes (tr (reply m s2)) @ concat (map (\<lambda>fi. line ((reply m s2)\<lparr>finfo := fi\<rparr>))
      (listed (drop (entries_read (tr (reply m s2))) fis)))"
    using list_loop_lists [OF ls line c] by blast
  have "entries_read (tr (reply m s2)) = 0" "sent_bytes (tr (reply m s2)) = sent_bytes (tr s)"
    by (simp_all add: s2_def s1_def)
  then show ?thesis using r s3 names [OF n] by simp
qed

lemma count_reply: "take 511 (''226 Options: -a -l, '' @ dec (n mod 65536) @ '' matches total'' @ crlf)
    = ''226 Options: -a -l, '' @ dec (n mod 65536) @ '' matches total'' @ crlf"
proof -
  have "n mod 65536 < 10 ^ Suc 4" by (rule less_trans [of _ 65536]) simp_all
  then have "length (dec (n mod 65536)) \<le> Suc 4" by (rule length_dec_le)
  then show ?thesis by (simp add: crlf_def)
qed

text \<open>C21: A listing is complete: LIST, NLST and MLSD send one line for every entry of the directory whose name
  does not start with a dot, in the order of the directory, and nothing else; MLSD then reports their
  number (modulo 65536, its counter has 16 bits).\<close>

theorem listing_complete:
  assumes "sess_ok B s" and "logged_in s" and "\<And>t. e_opendir e t = FR_OK"
    and "can_accept e s" and "lists_dir e fis"
  shows "\<exists>s1 s2. ftp_cmd_list e s = Some s1 \<and> ftp_cmd_mlsd e s = Some s2 \<and>
    sent_bytes (tr s1) = sent_bytes (tr s) @ concat (map (\<lambda>fi. list_line (s\<lparr>finfo := fi\<rparr>)) (listed fis)) \<and>
    sent_bytes (tr s2) = sent_bytes (tr s) @ concat (map (\<lambda>fi. mlsd_line (s\<lparr>finfo := fi\<rparr>)) (listed fis)) \<and>
    hd (tr s2) = CtrlWrite (''226 Options: -a -l, '' @ dec (length (listed fis) mod 65536) @ '' matches total'' @ crlf)"
proof -
  define u where "u = snd (ftps_f_opendir e (path s) s)"
  define v where "v = reply ''150 Accepted data connection'' (snd (data_con_open e u))"
  have op: "fst (ftps_f_opendir e (path s) s) = FR_OK" using assms(3) by (simp add: ftps_f_opendir_def Let_def)
  obtain s3 where l: "fst (data_con_open e u) = 0"
      "list_loop e list_line 0 v = Some (of_nat (length (listed fis)), s3)"
      "sent_bytes (tr s3) = sent_bytes (tr s) @ concat (map (\<lambda>fi. list_line (s\<lparr>finfo := fi\<rparr>)) (listed fis))"
    using listing_run [where line = list_line, OF assms(1,4,5) line_trace(1) line_of_names(1)]
    by (auto simp: u_def v_def)
  obtain s4 where m: "list_loop e mlsd_line 0 v = Some (of_nat (length (listed fis)), s4)"
      "sent_bytes (tr s4) = sent_bytes (tr s) @ concat (map (\<lambda>fi. mlsd_line (s\<lparr>finfo := fi\<rparr>)) (listed fis))"
    using listing_run [where line = mlsd_line, OF assms(1,4,5) line_trace(2) line_of_names(2)]
    by (auto simp: u_def v_def)
  have "ftp_cmd_list e s = Some (reply ''226 Directory send OK.'' (data_con_close s3))"
    using assms(2) op l by (simp add: ftp_cmd_list_def case_prod_beta Let_def u_def [symmetric] v_def [symmetric])
  moreover have "ftp_cmd_mlsd e s = Some (reply (''226 Options: -a -l, '' @ dec (length (listed fis) mod 65536)
      @ '' matches total'') (data_con_close s4))"
    using assms(2) op l(1) m
    by (simp add: ftp_cmd_mlsd_def case_prod_beta Let_def u_def [symmetric] v_def [symmetric] unat_of_nat)
  ultimately show ?thesis
    using l(3) m(2) count_reply [of "length (listed fis)"] by (simp add: reply_def ftp_send_def FTP_BUF_SIZE_def)
qed

definition dir_env :: env where
  "dir_env = demo_env\<lparr>e_readdir := \<lambda>t. (FR_OK, plain_info\<lparr>fname :=
     (if entries_read (tl t) = 0 then ''.x'' else if entries_read (tl t) = 1 then ''a.txt'' else [])\<rparr>)\<rparr>"

lemma listing_complete_witness:
  "\<exists>s2. ftp_cmd_mlsd dir_env hello_sess = Some s2 \<and> sent_bytes (tr s2) = ''Type=file;Size=5; a.txt'' @ crlf"
proof -
  have ls: "lists_dir dir_env [plain_info\<lparr>fname := ''.x''\<rparr>, plain_info\<lparr>fname := ''a.txt''\<rparr>]"
    by (auto simp: lists_dir_def dir_env_def less_Suc_eq)
  have d: "e_opendir dir_env t = FR_OK" "can_accept dir_env s = can_accept hello_env s" for t s
    by (simp_all add: dir_env_def demo_env_def script_env_def can_accept_def hello_env_def serving_env_def)
  have n: "lfn hello_sess = []" by (simp add: hello_sess_def listening_sess_def logged_sess_def sess0_def)
  have "mlsd_line (hello_sess\<lparr>finfo := plain_info\<lparr>fname := ''a.txt''\<rparr>\<rparr>) = ''Type=file;Size=5; a.txt'' @ crlf"
  proof -
    have "dec 5 = ''5''" by code_simp
    then show ?thesis
      using n by (simp add: mlsd_line_def plain_info_def is_dir_def entry_name_def FTP_BUF_SIZE_def crlf_def AM_DIR_def)
  qed
  then show ?thesis
    using listing_complete [OF hello_setup(1,2) d(1) _ ls] hello_setup(7,10) by (auto simp: d(2) listed_def)
qed

section \<open>The pool of sessions\<close>



text \<open>The number of a session is an 8-bit counter of the accepted clients: a session that stays while 255
  others come and go can share its number, and with it its passive ports, with a second active session.\<close>

theorem session_numbers_collide:
  "\<exists>st. reachable st \<and> map_option number (pool st ! 0) = Some 0 \<and> map_option number (pool st ! 1) = Some 0"
  by (rule number_returns)

end
