(* ===== verification/Lan8742.thy ===== *)
theory Lan8742
  imports CPrelude
begin

text \<open>
  The driver of the LAN8742 PHY, \<open>CM7/core/src/lan8742.c\<close>. The driver reaches the chip through the
  functions of a bus (\<open>lan8742_IOCtx_t\<close>); here they act on a state \<open>'b\<close> that the driver does not look
  at. \<open>None\<close> is a call that does not return. The status codes are a \<open>datatype\<close> ordered as the
  integers of \<open>lan8742.h\<close>, which is how the callers compare them.
\<close>

section \<open>Constants of \<open>lan8742.h\<close>\<close>

definition LAN8742_BCR :: u32 where "LAN8742_BCR = 0x00"
definition LAN8742_BSR :: u32 where "LAN8742_BSR = 0x01"
definition LAN8742_SMR :: u32 where "LAN8742_SMR = 0x12"
definition LAN8742_ISFR :: u32 where "LAN8742_ISFR = 0x1D"
definition LAN8742_IMR :: u32 where "LAN8742_IMR = 0x1E"
definition LAN8742_PHYSCSR :: u32 where "LAN8742_PHYSCSR = 0x1F"

definition BCR_SOFT_RESET :: u32 where "BCR_SOFT_RESET = 0x8000"
definition BCR_LOOPBACK :: u32 where "BCR_LOOPBACK = 0x4000"
definition BCR_SPEED_SELECT :: u32 where "BCR_SPEED_SELECT = 0x2000"
definition BCR_AUTONEGO_EN :: u32 where "BCR_AUTONEGO_EN = 0x1000"
definition BCR_POWER_DOWN :: u32 where "BCR_POWER_DOWN = 0x0800"
definition BCR_DUPLEX_MODE :: u32 where "BCR_DUPLEX_MODE = 0x0100"
definition BSR_LINK_STATUS :: u32 where "BSR_LINK_STATUS = 0x0004"
definition SMR_PHY_ADDR :: u32 where "SMR_PHY_ADDR = 0x001F"
definition PHYSCSR_AUTONEGO_DONE :: u32 where "PHYSCSR_AUTONEGO_DONE = 0x1000"
definition PHYSCSR_HCDSPEEDMASK :: u32 where "PHYSCSR_HCDSPEEDMASK = 0x001C"
definition PHYSCSR_10BT_FD :: u32 where "PHYSCSR_10BT_FD = 0x0014"
definition PHYSCSR_100BTX_HD :: u32 where "PHYSCSR_100BTX_HD = 0x0008"
definition PHYSCSR_100BTX_FD :: u32 where "PHYSCSR_100BTX_FD = 0x0018"

definition LAN8742_SW_RESET_TO :: u32 where "LAN8742_SW_RESET_TO = 500"
definition LAN8742_INIT_TO :: u32 where "LAN8742_INIT_TO = 2000"
definition LAN8742_MAX_DEV_ADDR :: u32 where "LAN8742_MAX_DEV_ADDR = 31"

lemmas bcr_defs = BCR_SOFT_RESET_def BCR_LOOPBACK_def BCR_SPEED_SELECT_def BCR_AUTONEGO_EN_def
  BCR_POWER_DOWN_def BCR_DUPLEX_MODE_def

datatype lan_status = STATUS_READ_ERROR | STATUS_WRITE_ERROR | STATUS_ADDRESS_ERROR
  | STATUS_RESET_TIMEOUT | STATUS_ERROR | STATUS_OK | STATUS_LINK_DOWN
  | STATUS_100MBITS_FULLDUPLEX | STATUS_100MBITS_HALFDUPLEX
  | STATUS_10MBITS_FULLDUPLEX | STATUS_10MBITS_HALFDUPLEX | STATUS_AUTONEGO_NOTDONE

fun status_code :: "lan_status \<Rightarrow> int" where
  "status_code STATUS_READ_ERROR = - 5"
| "status_code STATUS_WRITE_ERROR = - 4"
| "status_code STATUS_ADDRESS_ERROR = - 3"
| "status_code STATUS_RESET_TIMEOUT = - 2"
| "status_code STATUS_ERROR = - 1"
| "status_code STATUS_OK = 0"
| "status_code STATUS_LINK_DOWN = 1"
| "status_code STATUS_100MBITS_FULLDUPLEX = 2"
| "status_code STATUS_100MBITS_HALFDUPLEX = 3"
| "status_code STATUS_10MBITS_FULLDUPLEX = 4"
| "status_code STATUS_10MBITS_HALFDUPLEX = 5"
| "status_code STATUS_AUTONEGO_NOTDONE = 6"

lemma status_code_inj: "status_code a = status_code b \<longleftrightarrow> a = b"
  by (cases a; cases b) simp_all

instantiation lan_status :: linorder
begin

definition less_eq_lan_status :: "lan_status \<Rightarrow> lan_status \<Rightarrow> bool" where
  "a \<le> b \<longleftrightarrow> status_code a \<le> status_code b"

definition less_lan_status :: "lan_status \<Rightarrow> lan_status \<Rightarrow> bool" where
  "a < b \<longleftrightarrow> status_code a < status_code b"

instance
  by standard (auto simp: less_eq_lan_status_def less_lan_status_def status_code_inj
      dest: order.antisym)

end

section \<open>The bus and the object\<close>

record 'b bus_io =
  io_Init :: "('b \<Rightarrow> (int \<times> 'b) option) option"
  io_DeInit :: "('b \<Rightarrow> (int \<times> 'b) option) option"
  io_WriteReg :: "u32 \<Rightarrow> u32 \<Rightarrow> u32 \<Rightarrow> 'b \<Rightarrow> (int \<times> 'b) option"
  io_ReadReg :: "u32 \<Rightarrow> u32 \<Rightarrow> u32 \<Rightarrow> 'b \<Rightarrow> (int \<times> u32 \<times> 'b) option"
  io_GetTick :: "'b \<Rightarrow> u32 \<times> 'b"

record 'b lan8742_IOCtx =
  \<comment> \<open>the functions handed to \<open>LAN8742_RegisterBusIO\<close>, each of which may be NULL\<close>
  ctx_Init :: "('b \<Rightarrow> (int \<times> 'b) option) option"
  ctx_DeInit :: "('b \<Rightarrow> (int \<times> 'b) option) option"
  ctx_WriteReg :: "(u32 \<Rightarrow> u32 \<Rightarrow> u32 \<Rightarrow> 'b \<Rightarrow> (int \<times> 'b) option) option"
  ctx_ReadReg :: "(u32 \<Rightarrow> u32 \<Rightarrow> u32 \<Rightarrow> 'b \<Rightarrow> (int \<times> u32 \<times> 'b) option) option"
  ctx_GetTick :: "('b \<Rightarrow> u32 \<times> 'b) option"

record 'b lan8742_Object =
  DevAddr :: u32
  Is_Initialized :: u32
  IO :: "'b bus_io"

text \<open>\<open>ReadReg\<close> gets the old content of the variable it writes to as its third argument. \<open>GetTick\<close>
  returns an \<open>int32_t\<close> that the driver uses as a \<open>uint32_t\<close>.\<close>

definition LAN8742_RegisterBusIO ::
  "'b lan8742_Object option \<Rightarrow> 'b lan8742_IOCtx \<Rightarrow> lan_status \<times> 'b lan8742_Object option" where
  "LAN8742_RegisterBusIO pObj ioctx =
     (case (pObj, ctx_ReadReg ioctx, ctx_WriteReg ioctx, ctx_GetTick ioctx) of
        (Some ob, Some rd, Some wr, Some tk) \<Rightarrow>
          (STATUS_OK, Some (ob\<lparr>IO := \<lparr>io_Init = ctx_Init ioctx, io_DeInit = ctx_DeInit ioctx,
             io_WriteReg = wr, io_ReadReg = rd, io_GetTick = tk\<rparr>\<rparr>))
      | _ \<Rightarrow> (STATUS_ERROR, pObj))"

abbreviation read_reg :: "'b lan8742_Object \<Rightarrow> u32 \<Rightarrow> u32 \<Rightarrow> u32 \<Rightarrow> 'b \<Rightarrow> (int \<times> u32 \<times> 'b) option" where
  "read_reg ob \<equiv> io_ReadReg (IO ob)"

abbreviation write_reg :: "'b lan8742_Object \<Rightarrow> u32 \<Rightarrow> u32 \<Rightarrow> u32 \<Rightarrow> 'b \<Rightarrow> (int \<times> 'b) option" where
  "write_reg ob \<equiv> io_WriteReg (IO ob)"

section \<open>Initialisation\<close>

fun find_address :: "'b lan8742_Object \<Rightarrow> u32 list \<Rightarrow> lan_status \<Rightarrow> u32 \<Rightarrow> 'b \<Rightarrow>
    (u32 option \<times> lan_status \<times> u32 \<times> 'b) option" where
  \<comment> \<open>the \<open>for\<close> loop over the addresses; the result is the address found, \<open>status\<close> and \<open>regvalue\<close>\<close>
  "find_address ob [] status regvalue b = Some (None, status, regvalue, b)"
| "find_address ob (addr # as) status regvalue b =
     do {
       (r, regvalue, b) \<leftarrow> read_reg ob addr LAN8742_SMR regvalue b;
       if r < 0 then find_address ob as STATUS_READ_ERROR regvalue b
       else if regvalue AND SMR_PHY_ADDR = addr then Some (Some addr, STATUS_OK, regvalue, b)
       else find_address ob as status regvalue b
     }"

definition all_addresses :: "u32 list" where
  "all_addresses = map of_nat [0..<Suc (unat LAN8742_MAX_DEV_ADDR)]"

partial_function (option) reset_wait ::
  "'b lan8742_Object \<Rightarrow> u32 \<Rightarrow> u32 \<Rightarrow> 'b \<Rightarrow> (lan_status \<times> 'b) option" where [code]:
  \<comment> \<open>the loop that waits for the end of the software reset\<close>
  "reset_wait ob tickstart regvalue b =
     (if regvalue AND BCR_SOFT_RESET = 0 then Some (STATUS_OK, b)
      else
        let (now, b) = io_GetTick (IO ob) b
        in if now - tickstart \<le> LAN8742_SW_RESET_TO then
             do {
               (r, regvalue, b) \<leftarrow> read_reg ob (DevAddr ob) LAN8742_BCR regvalue b;
               if r < 0 then Some (STATUS_READ_ERROR, b) else reset_wait ob tickstart regvalue b
             }
           else Some (STATUS_RESET_TIMEOUT, b))"

partial_function (option) init_wait :: "'b lan8742_Object \<Rightarrow> u32 \<Rightarrow> 'b \<Rightarrow> 'b option" where [code]:
  \<comment> \<open>the empty loop of two seconds\<close>
  "init_wait ob tickstart b =
     (let (now, b) = io_GetTick (IO ob) b
      in if now - tickstart \<le> LAN8742_INIT_TO then init_wait ob tickstart b else Some b)"

definition soft_reset :: "'b lan8742_Object \<Rightarrow> u32 \<Rightarrow> 'b \<Rightarrow> (lan_status \<times> 'b) option" where
  \<comment> \<open>the part of \<open>LAN8742_Init\<close> behind a matched address\<close>
  "soft_reset ob regvalue b =
     do {
       (w, b) \<leftarrow> write_reg ob (DevAddr ob) LAN8742_BCR BCR_SOFT_RESET b;
       if w \<ge> 0 then
         do {
           (r, regvalue, b) \<leftarrow> read_reg ob (DevAddr ob) LAN8742_BCR regvalue b;
           if r \<ge> 0 then let (tickstart, b) = io_GetTick (IO ob) b in reset_wait ob tickstart regvalue b
           else Some (STATUS_READ_ERROR, b)
         }
       else Some (STATUS_WRITE_ERROR, b)
     }"

definition probe :: "'b lan8742_Object \<Rightarrow> 'b \<Rightarrow> (lan_status \<times> 'b lan8742_Object \<times> 'b) option" where
  \<comment> \<open>the part of \<open>LAN8742_Init\<close> under \<open>Is_Initialized == 0\<close>\<close>
  "probe ob b =
     do {
       b \<leftarrow> (case io_Init (IO ob) of None \<Rightarrow> Some b | Some f \<Rightarrow> do { (_, b) \<leftarrow> f b; Some b });
       let ob = ob\<lparr>DevAddr := LAN8742_MAX_DEV_ADDR + 1\<rparr>;
       (found, status, regvalue, b) \<leftarrow> find_address ob all_addresses STATUS_OK 0 b;
       let ob = (case found of None \<Rightarrow> ob | Some addr \<Rightarrow> ob\<lparr>DevAddr := addr\<rparr>);
       let status = (if DevAddr ob > LAN8742_MAX_DEV_ADDR then STATUS_ADDRESS_ERROR else status);
       if status = STATUS_OK
       then do { (status, b) \<leftarrow> soft_reset ob regvalue b; Some (status, ob, b) }
       else Some (status, ob, b)
     }"

definition LAN8742_Init :: "'b lan8742_Object \<Rightarrow> 'b \<Rightarrow> (lan_status \<times> 'b lan8742_Object \<times> 'b) option" where
  "LAN8742_Init ob b =
     do {
       (status, ob, b) \<leftarrow> (if Is_Initialized ob = 0 then probe ob b else Some (STATUS_OK, ob, b));
       if status = STATUS_OK then
         let (tickstart, b) = io_GetTick (IO ob) b
         in do { b \<leftarrow> init_wait ob tickstart b; Some (status, ob\<lparr>Is_Initialized := 1\<rparr>, b) }
       else Some (status, ob, b)
     }"

definition LAN8742_DeInit :: "'b lan8742_Object \<Rightarrow> 'b \<Rightarrow> (lan_status \<times> 'b lan8742_Object \<times> 'b) option" where
  "LAN8742_DeInit ob b =
     (if Is_Initialized ob \<noteq> 0 then
        case io_DeInit (IO ob) of
          None \<Rightarrow> Some (STATUS_OK, ob\<lparr>Is_Initialized := 0\<rparr>, b)
        | Some f \<Rightarrow> do {
            (r, b) \<leftarrow> f b;
            if r < 0 then Some (STATUS_ERROR, ob, b) else Some (STATUS_OK, ob\<lparr>Is_Initialized := 0\<rparr>, b)
          }
      else Some (STATUS_OK, ob, b))"

section \<open>Register operations\<close>

definition change_reg :: "'b lan8742_Object \<Rightarrow> u32 \<Rightarrow> (u32 \<Rightarrow> u32) \<Rightarrow> 'b \<Rightarrow> (lan_status \<times> 'b) option" where
  \<comment> \<open>the body that seven functions share: read, change, write back\<close>
  "change_reg ob reg f b =
     do {
       (r, readval, b) \<leftarrow> read_reg ob (DevAddr ob) reg 0 b;
       if r \<ge> 0 then
         do {
           (w, b) \<leftarrow> write_reg ob (DevAddr ob) reg (f readval) b;
           Some (if w < 0 then STATUS_WRITE_ERROR else STATUS_OK, b)
         }
       else Some (STATUS_READ_ERROR, b)
     }"

definition LAN8742_DisablePowerDownMode :: "'b lan8742_Object \<Rightarrow> 'b \<Rightarrow> (lan_status \<times> 'b) option" where
  "LAN8742_DisablePowerDownMode ob = change_reg ob LAN8742_BCR (\<lambda>v. v AND NOT BCR_POWER_DOWN)"

definition LAN8742_EnablePowerDownMode :: "'b lan8742_Object \<Rightarrow> 'b \<Rightarrow> (lan_status \<times> 'b) option" where
  "LAN8742_EnablePowerDownMode ob = change_reg ob LAN8742_BCR (\<lambda>v. v OR BCR_POWER_DOWN)"

definition LAN8742_StartAutoNego :: "'b lan8742_Object \<Rightarrow> 'b \<Rightarrow> (lan_status \<times> 'b) option" where
  "LAN8742_StartAutoNego ob = change_reg ob LAN8742_BCR (\<lambda>v. v OR BCR_AUTONEGO_EN)"

definition LAN8742_EnableLoopbackMode :: "'b lan8742_Object \<Rightarrow> 'b \<Rightarrow> (lan_status \<times> 'b) option" where
  "LAN8742_EnableLoopbackMode ob = change_reg ob LAN8742_BCR (\<lambda>v. v OR BCR_LOOPBACK)"

definition LAN8742_DisableLoopbackMode :: "'b lan8742_Object \<Rightarrow> 'b \<Rightarrow> (lan_status \<times> 'b) option" where
  "LAN8742_DisableLoopbackMode ob = change_reg ob LAN8742_BCR (\<lambda>v. v AND NOT BCR_LOOPBACK)"

definition LAN8742_EnableIT :: "'b lan8742_Object \<Rightarrow> u32 \<Rightarrow> 'b \<Rightarrow> (lan_status \<times> 'b) option" where
  "LAN8742_EnableIT ob it = change_reg ob LAN8742_IMR (\<lambda>v. v OR it)"

definition LAN8742_DisableIT :: "'b lan8742_Object \<Rightarrow> u32 \<Rightarrow> 'b \<Rightarrow> (lan_status \<times> 'b) option" where
  "LAN8742_DisableIT ob it = change_reg ob LAN8742_IMR (\<lambda>v. v AND NOT it)"

definition LAN8742_ClearIT :: "'b lan8742_Object \<Rightarrow> u32 \<Rightarrow> 'b \<Rightarrow> (lan_status \<times> 'b) option" where
  "LAN8742_ClearIT ob it b =
     do {
       (r, readval, b) \<leftarrow> read_reg ob (DevAddr ob) LAN8742_ISFR 0 b;
       Some (if r < 0 then STATUS_READ_ERROR else STATUS_OK, b)
     }"

definition LAN8742_GetITStatus :: "'b lan8742_Object \<Rightarrow> u32 \<Rightarrow> 'b \<Rightarrow> (int \<times> 'b) option" where
  "LAN8742_GetITStatus ob it b =
     do {
       (r, readval, b) \<leftarrow> read_reg ob (DevAddr ob) LAN8742_ISFR 0 b;
       Some (if r \<ge> 0 then (if readval AND it = it then 1 else 0) else status_code STATUS_READ_ERROR, b)
     }"

section \<open>The state of the link\<close>

definition bcr_mode :: "u32 \<Rightarrow> lan_status" where
  \<comment> \<open>the branch without auto-negotiation\<close>
  "bcr_mode v =
     (if v AND BCR_SPEED_SELECT = BCR_SPEED_SELECT \<and> v AND BCR_DUPLEX_MODE = BCR_DUPLEX_MODE
      then STATUS_100MBITS_FULLDUPLEX
      else if v AND BCR_SPEED_SELECT = BCR_SPEED_SELECT then STATUS_100MBITS_HALFDUPLEX
      else if v AND BCR_DUPLEX_MODE = BCR_DUPLEX_MODE then STATUS_10MBITS_FULLDUPLEX
      else STATUS_10MBITS_HALFDUPLEX)"

definition physcsr_mode :: "u32 \<Rightarrow> lan_status" where
  \<comment> \<open>the branch with auto-negotiation\<close>
  "physcsr_mode v =
     (if v AND PHYSCSR_AUTONEGO_DONE = 0 then STATUS_AUTONEGO_NOTDONE
      else if v AND PHYSCSR_HCDSPEEDMASK = PHYSCSR_100BTX_FD then STATUS_100MBITS_FULLDUPLEX
      else if v AND PHYSCSR_HCDSPEEDMASK = PHYSCSR_100BTX_HD then STATUS_100MBITS_HALFDUPLEX
      else if v AND PHYSCSR_HCDSPEEDMASK = PHYSCSR_10BT_FD then STATUS_10MBITS_FULLDUPLEX
      else STATUS_10MBITS_HALFDUPLEX)"

definition LAN8742_GetLinkState :: "'b lan8742_Object \<Rightarrow> 'b \<Rightarrow> (lan_status \<times> 'b) option" where
  "LAN8742_GetLinkState ob b =
     do {
       (r, readval, b) \<leftarrow> read_reg ob (DevAddr ob) LAN8742_BSR 0 b;
       if r < 0 then Some (STATUS_READ_ERROR, b)
       else do {
         (r, readval, b) \<leftarrow> read_reg ob (DevAddr ob) LAN8742_BSR readval b;
         if r < 0 then Some (STATUS_READ_ERROR, b)
         else if readval AND BSR_LINK_STATUS = 0 then Some (STATUS_LINK_DOWN, b)
         else do {
           (r, readval, b) \<leftarrow> read_reg ob (DevAddr ob) LAN8742_BCR readval b;
           if r < 0 then Some (STATUS_READ_ERROR, b)
           else if readval AND BCR_AUTONEGO_EN \<noteq> BCR_AUTONEGO_EN then Some (bcr_mode readval, b)
           else do {
             (r, readval, b) \<leftarrow> read_reg ob (DevAddr ob) LAN8742_PHYSCSR readval b;
             Some (if r < 0 then STATUS_READ_ERROR else physcsr_mode readval, b)
           }
         }
       }
     }"

definition LAN8742_SetLinkState :: "'b lan8742_Object \<Rightarrow> u32 \<Rightarrow> 'b \<Rightarrow> (lan_status \<times> 'b) option" where
  "LAN8742_SetLinkState ob LinkState b =
     do {
       (r, bcrvalue, b) \<leftarrow> read_reg ob (DevAddr ob) LAN8742_BCR 0 b;
       if r \<ge> 0 then
         let bcrvalue = bcrvalue AND NOT (BCR_AUTONEGO_EN OR BCR_SPEED_SELECT OR BCR_DUPLEX_MODE);
             is = (\<lambda>st. LinkState = word_of_int (status_code st));
             (status, bcrvalue) =
               (if is STATUS_100MBITS_FULLDUPLEX
                then (STATUS_OK, bcrvalue OR (BCR_SPEED_SELECT OR BCR_DUPLEX_MODE))
                else if is STATUS_100MBITS_HALFDUPLEX then (STATUS_OK, bcrvalue OR BCR_SPEED_SELECT)
                else if is STATUS_10MBITS_FULLDUPLEX then (STATUS_OK, bcrvalue OR BCR_DUPLEX_MODE)
                else (STATUS_ERROR, bcrvalue))
         in if status = STATUS_OK
            then do {
              (w, b) \<leftarrow> write_reg ob (DevAddr ob) LAN8742_BCR bcrvalue b;
              Some (if w < 0 then STATUS_WRITE_ERROR else STATUS_OK, b)
            }
            else Some (status, b)
       else Some (STATUS_READ_ERROR, b)
     }"

section \<open>Buses that behave\<close>

definition answers ::
  "'b bus_io \<Rightarrow> ('b \<Rightarrow> bool) \<Rightarrow> ('b \<Rightarrow> u32 \<Rightarrow> u32 \<Rightarrow> u32) \<Rightarrow> (u32 \<Rightarrow> bool) \<Rightarrow> bool" where
  \<comment> \<open>in the states \<open>idle\<close>, which its calls keep, the bus answers at the addresses \<open>alive\<close> with the 16-bit
    registers \<open>regs\<close>, and a value without the (self-clearing) reset bit reads back once written\<close>
  "answers io idle regs alive \<longleftrightarrow>
     (\<forall>dev. alive dev \<longrightarrow> dev \<le> 31) \<and> (\<forall>b dev reg. regs b dev reg AND 0xFFFF = regs b dev reg) \<and>
     (\<forall>f b. io_Init io = Some f \<longrightarrow> idle b \<longrightarrow> (\<exists>r b'. f b = Some (r, b') \<and> idle b' \<and> regs b' = regs b)) \<and>
     (\<forall>dev reg old b. idle b \<longrightarrow> dev \<le> 31 \<longrightarrow> reg \<le> 31 \<longrightarrow> (\<exists>b'. idle b' \<and> regs b' = regs b \<and>
        io_ReadReg io dev reg old b = Some (if alive dev then (0, regs b dev reg, b') else (- 1, old, b')))) \<and>
     (\<forall>dev reg v b. idle b \<longrightarrow> alive dev \<longrightarrow> reg \<le> 31 \<longrightarrow> v AND 0xFFFF = v \<longrightarrow> v AND BCR_SOFT_RESET = 0 \<longrightarrow>
        (\<exists>b'. idle b' \<and> regs b' = (regs b)(dev := (regs b dev)(reg := v)) \<and>
           io_WriteReg io dev reg v b = Some (0, b')))"

lemma answers_read:
  assumes "answers (IO ob) idle regs alive" and "idle b" and "dev \<le> 31" and "reg \<le> 31"
  obtains b' where "idle b'" and "regs b' = regs b"
    and "read_reg ob dev reg old b = Some (if alive dev then (0, regs b dev reg, b') else (- 1, old, b'))"
  using assms unfolding answers_def by meson

lemma answers_read_alive:
  assumes "answers (IO ob) idle regs alive" and "idle b" and "alive dev" and "reg \<le> 31"
  obtains b' where "idle b'" and "regs b' = regs b" and "read_reg ob dev reg old b = Some (0, regs b dev reg, b')"
  using answers_read [OF assms(1,2) _ assms(4), of dev old] assms(1,3) unfolding answers_def by auto

lemma answers_write:
  assumes "answers (IO ob) idle regs alive" and "idle b" and "alive dev" and "reg \<le> 31"
    and "v AND 0xFFFF = v" and "v AND BCR_SOFT_RESET = 0"
  obtains b' where "idle b'" and "regs b' = (regs b)(dev := (regs b dev)(reg := v))"
    and "write_reg ob dev reg v b = Some (0, b')"
  using assms unfolding answers_def by meson

lemma register_le [simp]:
  "LAN8742_BCR \<le> 31" "LAN8742_BSR \<le> 31" "LAN8742_SMR \<le> 31" "LAN8742_PHYSCSR \<le> 31"
  by (simp_all add: LAN8742_BCR_def LAN8742_BSR_def LAN8742_SMR_def LAN8742_PHYSCSR_def)

lemma get_link_state_answers:
  fixes ob :: "'b lan8742_Object" and regs :: "'b \<Rightarrow> u32 \<Rightarrow> u32 \<Rightarrow> u32"
  assumes a: "answers (IO ob) idle regs alive" and i: "idle b" and d: "alive (DevAddr ob)"
  defines "r \<equiv> \<lambda>b. regs b (DevAddr ob)"
  shows "\<exists>b'. idle b' \<and> regs b' = regs b \<and> LAN8742_GetLinkState ob b = Some
    (if r b LAN8742_BSR AND BSR_LINK_STATUS = 0 then STATUS_LINK_DOWN
     else if r b LAN8742_BCR AND BCR_AUTONEGO_EN \<noteq> BCR_AUTONEGO_EN then bcr_mode (r b LAN8742_BCR)
     else physcsr_mode (r b LAN8742_PHYSCSR), b')"
proof -
  let ?d = "DevAddr ob"
  have rd: "\<exists>b2. (idle b2 \<and> regs b2 = regs b) \<and> read_reg ob ?d reg old b1 = Some (0, r b reg, b2)"
    if "idle b1 \<and> regs b1 = regs b" "reg \<le> 31" for b1 reg old
    using answers_read_alive [OF a _ d that(2), of b1 old] that(1) by (auto simp: r_def)
  obtain b1 where b1: "idle b1 \<and> regs b1 = regs b" "read_reg ob ?d LAN8742_BSR 0 b = Some (0, r b LAN8742_BSR, b1)"
    using rd [of b] i register_le by blast
  obtain b2 where b2: "idle b2 \<and> regs b2 = regs b" "read_reg ob ?d LAN8742_BSR (r b LAN8742_BSR) b1 = Some (0, r b LAN8742_BSR, b2)"
    using rd [OF b1(1)] register_le by blast
  obtain b3 where b3: "idle b3 \<and> regs b3 = regs b" "read_reg ob ?d LAN8742_BCR (r b LAN8742_BSR) b2 = Some (0, r b LAN8742_BCR, b3)"
    using rd [OF b2(1)] register_le by blast
  obtain b4 where b4: "idle b4 \<and> regs b4 = regs b" "read_reg ob ?d LAN8742_PHYSCSR (r b LAN8742_BCR) b3 = Some (0, r b LAN8742_PHYSCSR, b4)"
    using rd [OF b3(1)] register_le by blast
  show ?thesis using b1 b2 b3 b4 by (simp add: LAN8742_GetLinkState_def)
qed

section \<open>Setting a mode and reading it back\<close>

definition mode_bits :: "lan_status \<Rightarrow> u32 option" where
  \<comment> \<open>the speed and duplex bits of the three modes that \<open>LAN8742_SetLinkState\<close> knows\<close>
  "mode_bits st =
     (if st = STATUS_100MBITS_FULLDUPLEX then Some (BCR_SPEED_SELECT OR BCR_DUPLEX_MODE)
      else if st = STATUS_100MBITS_HALFDUPLEX then Some BCR_SPEED_SELECT
      else if st = STATUS_10MBITS_FULLDUPLEX then Some BCR_DUPLEX_MODE
      else None)"

lemma code_word_inj:
  "(word_of_int (status_code a) :: u32) = word_of_int (status_code b) \<longleftrightarrow> a = b"
  by (cases a; cases b) simp_all

lemma bcr_mode_bits:
  fixes v m :: u32
  assumes "mode_bits st = Some m"
  defines "w \<equiv> (v AND NOT (BCR_AUTONEGO_EN OR BCR_SPEED_SELECT OR BCR_DUPLEX_MODE)) OR m"
  shows "w AND BCR_AUTONEGO_EN \<noteq> BCR_AUTONEGO_EN" and "bcr_mode w = st"
proof -
  have bits: "w AND BCR_AUTONEGO_EN = m AND BCR_AUTONEGO_EN" "w AND BCR_SPEED_SELECT = m AND BCR_SPEED_SELECT"
    "w AND BCR_DUPLEX_MODE = m AND BCR_DUPLEX_MODE"
    by (simp_all add: w_def bit.conj_disj_distrib2 and.assoc bcr_defs)
  show "w AND BCR_AUTONEGO_EN \<noteq> BCR_AUTONEGO_EN" "bcr_mode w = st"
    using assms(1) unfolding bcr_mode_def bits
    by (auto simp: mode_bits_def bcr_defs split: if_splits)
qed

lemma narrow_and:
  fixes x k m :: u32
  assumes "x AND m = x"
  shows "(x AND k) AND m = x AND k"
proof -
  have "(x AND k) AND m = (x AND m) AND k" by (simp only: ac_simps)
  then show ?thesis using assms by simp
qed

lemma set_link_state_answers:
  fixes ob :: "'b lan8742_Object" and b :: 'b and regs :: "'b \<Rightarrow> u32 \<Rightarrow> u32 \<Rightarrow> u32" and m :: u32
  assumes a: "answers (IO ob) idle regs alive" and i: "idle b" and d: "alive (DevAddr ob)" and m: "mode_bits st = Some m"
    and sr: "regs b (DevAddr ob) LAN8742_BCR AND BCR_SOFT_RESET = 0"
  defines "w \<equiv> (regs b (DevAddr ob) LAN8742_BCR AND NOT (BCR_AUTONEGO_EN OR BCR_SPEED_SELECT OR BCR_DUPLEX_MODE)) OR m"
  shows "\<exists>b'. LAN8742_SetLinkState ob (word_of_int (status_code st)) b = Some (STATUS_OK, b') \<and>
    idle b' \<and> regs b' = (regs b)(DevAddr ob := (regs b (DevAddr ob))(LAN8742_BCR := w))"
proof -
  let ?d = "DevAddr ob"
  obtain b1 where b1: "idle b1" "regs b1 = regs b" "read_reg ob ?d LAN8742_BCR 0 b = Some (0, regs b ?d LAN8742_BCR, b1)"
    using answers_read_alive [OF a i d, of LAN8742_BCR 0] by auto
  have "w AND BCR_SOFT_RESET = 0"
    using m sr by (auto simp: w_def mode_bits_def bit.conj_disj_distrib2 and.commute [of _ "NOT _"] and.assoc
        bcr_defs split: if_splits)
  moreover have "w AND 0xFFFF = w"
  proof -
    have "regs b ?d LAN8742_BCR AND 0xFFFF = regs b ?d LAN8742_BCR" using a by (simp add: answers_def)
    then have "(regs b ?d LAN8742_BCR AND k) AND 0xFFFF = regs b ?d LAN8742_BCR AND k" for k
      by (rule narrow_and)
    moreover have "m AND 0xFFFF = m" using m by (auto simp: mode_bits_def bcr_defs split: if_splits)
    ultimately show ?thesis by (simp add: w_def bit.conj_disj_distrib2)
  qed
  ultimately obtain b2 where b2: "idle b2" "regs b2 = (regs b)(?d := (regs b ?d)(LAN8742_BCR := w))"
    "write_reg ob ?d LAN8742_BCR w b1 = Some (0, b2)"
    using answers_write [OF a b1(1) d, where reg = LAN8742_BCR and v = w] b1 by auto
  show ?thesis
    using b1 b2 m by (auto simp: LAN8742_SetLinkState_def Let_def code_word_inj mode_bits_def w_def split: if_splits)
qed

section \<open>Finding the address\<close>

lemma find_address_answers:
  assumes a: "answers (IO ob) idle regs alive" and "set as \<subseteq> {x. x \<le> 31}" and "idle b"
  shows "\<exists>status v b'. idle b' \<and> regs b' = regs b \<and> find_address ob as st0 old b =
    Some (List.find (\<lambda>x. alive x \<and> regs b x LAN8742_SMR AND SMR_PHY_ADDR = x) as, status, v, b') \<and>
    (List.find (\<lambda>x. alive x \<and> regs b x LAN8742_SMR AND SMR_PHY_ADDR = x) as \<noteq> None \<longrightarrow> status = STATUS_OK)"
  using assms(2,3)
proof (induction "as" arbitrary: st0 old b)
  case Nil
  then show ?case by auto
next
  case (Cons x xs)
  then have x: "x \<le> 31" and xs: "set xs \<subseteq> {x. x \<le> 31}" by auto
  obtain b1 where b1: "idle b1" "regs b1 = regs b"
    "read_reg ob x LAN8742_SMR old b = Some (if alive x then (0, regs b x LAN8742_SMR, b1) else (- 1, old, b1))"
    using answers_read [OF a Cons.prems(2) x, of LAN8742_SMR old] by auto
  show ?case
  proof (cases "alive x")
    case False
    then show ?thesis using b1 Cons.IH [OF xs b1(1), of STATUS_READ_ERROR old] by simp
  next
    case True
    then show ?thesis using b1 Cons.IH [OF xs b1(1), of st0 "regs b x LAN8742_SMR"] by auto
  qed
qed

lemma all_addresses_set: "set all_addresses = {a. a \<le> LAN8742_MAX_DEV_ADDR}"
proof -
  have "a \<in> of_nat ` {0..<32}" if "a \<le> (31 :: u32)" for a
  proof
    show "a = of_nat (unat a)" by simp
    show "unat a \<in> {0..<32}" using that unat_mono [of a 32] by (simp add: word_le_nat_alt)
  qed
  moreover have "of_nat n \<le> (31 :: u32)" if "n < 32" for n
    using that by (simp add: word_le_nat_alt unat_of_nat)
  ultimately show ?thesis
    by (auto simp: all_addresses_def LAN8742_MAX_DEV_ADDR_def)
qed

lemma sorted_all_addresses: "sorted all_addresses"
  unfolding all_addresses_def LAN8742_MAX_DEV_ADDR_def
  by (auto simp: sorted_map sorted_wrt_iff_nth_less word_le_nat_alt unat_of_nat)

lemma find_sorted_least:
  assumes "sorted xs" and "List.find P xs = Some a" and "x \<in> set xs" and "P x"
  shows "a \<le> x"
  using assms by (induction xs) (auto split: if_splits)

lemma io_init_answers:
  assumes "answers (IO ob) idle regs alive" and "idle b"
  obtains b' where "(case io_Init (IO ob) of None \<Rightarrow> Some b | Some f \<Rightarrow> do { (_, b) \<leftarrow> f b; Some b }) = Some b'"
    and "idle b'" and "regs b' = regs b"
proof (cases "io_Init (IO ob)")
  case None
  then show ?thesis using that [of b] assms(2) by simp
next
  case (Some f)
  then have "\<exists>r b'. f b = Some (r, b') \<and> idle b' \<and> regs b' = regs b" using assms unfolding answers_def by blast
  then show ?thesis using that Some by auto
qed

section \<open>Clocks\<close>

definition clocked :: "'b bus_io \<Rightarrow> ('b \<Rightarrow> nat) \<Rightarrow> nat \<Rightarrow> nat \<Rightarrow> bool" where
  \<comment> \<open>every call returns and takes between one and \<open>D\<close> units of \<open>time\<close>; the tick counts \<open>K\<close> units\<close>
  "clocked io time K D \<longleftrightarrow> 0 < K \<and> D \<le> 2 ^ 30 \<and>
     (\<forall>b. \<exists>b'. io_GetTick io b = (of_nat (time b div K), b') \<and> time b < time b' \<and> time b' \<le> time b + D) \<and>
     (\<forall>dev reg old b. \<exists>r v b'. io_ReadReg io dev reg old b = Some (r, v, b') \<and> time b < time b' \<and> time b' \<le> time b + D) \<and>
     (\<forall>dev reg v b. \<exists>r b'. io_WriteReg io dev reg v b = Some (r, b') \<and> time b < time b' \<and> time b' \<le> time b + D) \<and>
     (\<forall>f b. io_Init io = Some f \<longrightarrow> (\<exists>r b'. f b = Some (r, b') \<and> time b \<le> time b'))"

lemma clocked_tick:
  assumes "clocked io time K D"
  obtains b' where "io_GetTick io b = (of_nat (time b div K), b')" "time b < time b'" "time b' \<le> time b + D"
  using assms unfolding clocked_def by meson

lemma clocked_read:
  assumes "clocked io time K D"
  obtains r v b' where "io_ReadReg io dev reg old b = Some (r, v, b')" "time b < time b'" "time b' \<le> time b + D"
  using assms unfolding clocked_def by meson

lemma clocked_write:
  assumes "clocked io time K D"
  obtains r b' where "io_WriteReg io dev reg v b = Some (r, b')" "time b < time b'" "time b' \<le> time b + D"
  using assms unfolding clocked_def by meson

lemma tick_diff:
  assumes K: "0 < K" and D: "D \<le> 2 ^ 30" and M: "M \<le> 2001" and lo: "T0 * K \<le> t" and hi: "t \<le> (T0 + M) * K + 2 * D"
  shows "unat ((of_nat (t div K) :: u32) - of_nat T0) = t div K - T0"
proof -
  have "T0 \<le> t div K" using K lo by (simp add: less_eq_div_iff_mult_less_eq)
  moreover have "t div K \<le> ((T0 + M) * K + 2 * D) div K" using hi by (rule div_le_mono)
  then have "t div K \<le> T0 + M + 2 * D div K" using K by simp
  then have "t div K \<le> T0 + M + 2 * D" by (meson add_left_mono div_le_dividend le_trans)
  then have "t div K - T0 < 2 ^ 32" using D M by simp
  ultimately show ?thesis
    by (simp flip: of_nat_diff add: unat_of_nat take_bit_eq_mod)
qed

lemma init_wait_returns:
  assumes c: "clocked (IO ob) time K D"
    and "T0 * K \<le> time b" and "time b \<le> (T0 + 2001) * K + 2 * D"
  shows "\<exists>b'. init_wait ob (of_nat T0) b = Some b' \<and> (T0 + 2001) * K \<le> time b'"
  using assms(2,3)
proof (induction "(T0 + 2001) * K - time b" arbitrary: b rule: less_induct)
  case less
  have KD: "0 < K" "D \<le> 2 ^ 30" using c by (auto simp: clocked_def)
  obtain b1 where b1: "io_GetTick (IO ob) b = (of_nat (time b div K), b1)" "time b < time b1" "time b1 \<le> time b + D"
    using clocked_tick [OF c] by blast
  have diff: "of_nat (time b div K) - (of_nat T0 :: u32) \<le> LAN8742_INIT_TO \<longleftrightarrow> time b div K - T0 \<le> 2000"
    using tick_diff [OF KD _ less.prems] by (simp add: word_le_nat_alt LAN8742_INIT_TO_def)
  show ?case
  proof (cases "time b < (T0 + 2001) * K")
    case True
    then have "time b div K < T0 + 2001" using KD by (simp add: less_mult_imp_div_less)
    then have "time b div K - T0 \<le> 2000" by simp
    then have "init_wait ob (of_nat T0) b = init_wait ob (of_nat T0) b1"
      using b1 diff by (subst init_wait.simps) simp
    moreover have "\<exists>b'. init_wait ob (of_nat T0) b1 = Some b' \<and> (T0 + 2001) * K \<le> time b'"
      using True b1 less.prems by (intro less.hyps) auto
    ultimately show ?thesis by simp
  next
    case False
    then have "T0 + 2001 \<le> time b div K" using KD by (simp add: less_eq_div_iff_mult_less_eq)
    then have "\<not> time b div K - T0 \<le> 2000" by linarith
    then have "init_wait ob (of_nat T0) b = Some b1"
      using b1 diff by (subst init_wait.simps) simp
    then show ?thesis using False b1 by auto
  qed
qed

lemma reset_wait_returns:
  assumes c: "clocked (IO ob) time K D"
    and "T0 * K \<le> time b" and "time b \<le> (T0 + 501) * K + 2 * D"
  shows "\<exists>st b'. reset_wait ob (of_nat T0) v b = Some (st, b') \<and> time b \<le> time b' \<and>
    st \<in> {STATUS_OK, STATUS_READ_ERROR, STATUS_RESET_TIMEOUT}"
  using assms(2,3)
proof (induction "(T0 + 501) * K - time b" arbitrary: b v rule: less_induct)
  case less
  have KD: "0 < K" "D \<le> 2 ^ 30" using c by (auto simp: clocked_def)
  obtain b1 where b1: "io_GetTick (IO ob) b = (of_nat (time b div K), b1)" "time b < time b1" "time b1 \<le> time b + D"
    using clocked_tick [OF c] by blast
  obtain r w b2 where b2: "read_reg ob (DevAddr ob) LAN8742_BCR v b1 = Some (r, w, b2)" "time b1 < time b2" "time b2 \<le> time b1 + D"
    using clocked_read [OF c] by blast
  have diff: "of_nat (time b div K) - (of_nat T0 :: u32) \<le> LAN8742_SW_RESET_TO \<longleftrightarrow> time b div K - T0 \<le> 500"
    using tick_diff [OF KD _ less.prems] by (simp add: word_le_nat_alt LAN8742_SW_RESET_TO_def)
  show ?case
  proof (cases "time b < (T0 + 501) * K")
    case True
    then have "time b div K < T0 + 501" using KD by (simp add: less_mult_imp_div_less)
    then have le: "time b div K - T0 \<le> 500" by simp
    have "\<exists>st b'. reset_wait ob (of_nat T0) w b2 = Some (st, b') \<and> time b2 \<le> time b' \<and>
        st \<in> {STATUS_OK, STATUS_READ_ERROR, STATUS_RESET_TIMEOUT}"
      using True b1 b2 less.prems by (intro less.hyps) auto
    then show ?thesis
      using b1 b2 diff le by (subst reset_wait.simps) auto
  next
    case False
    then have "T0 + 501 \<le> time b div K" using KD by (simp add: less_eq_div_iff_mult_less_eq)
    then have "\<not> time b div K - T0 \<le> 500" by linarith
    then show ?thesis
      using b1 diff by (subst reset_wait.simps) auto
  qed
qed

section \<open>The outcome of the initialisation\<close>

lemma find_address_returns:
  assumes c: "clocked (IO ob) time K D"
  shows "\<exists>a st v b'. find_address ob as st0 old b = Some (a, st, v, b') \<and> time b \<le> time b' \<and>
    (a \<noteq> None \<longrightarrow> st = STATUS_OK \<and> the a \<in> set as)"
proof (induction "as" arbitrary: st0 old b)
  case Nil
  then show ?case by auto
next
  case (Cons x xs)
  obtain r v b1 where b1: "read_reg ob x LAN8742_SMR old b = Some (r, v, b1)" "time b < time b1"
    using clocked_read [OF c] by blast
  obtain a st v' b' where "find_address ob xs (if r < 0 then STATUS_READ_ERROR else st0) v b1 = Some (a, st, v', b')"
    "time b1 \<le> time b'" "a \<noteq> None \<longrightarrow> st = STATUS_OK \<and> the a \<in> set xs"
    using Cons.IH by blast
  then show ?case using b1 by auto
qed

lemma tick_window:
  fixes t t' K D M :: nat
  assumes "0 < K"
  shows "t < t' \<Longrightarrow> t div K * K \<le> t'" and "t' \<le> t + D \<Longrightarrow> t' \<le> (t div K + Suc M) * K + 2 * D"
proof -
  show "t div K * K \<le> t'" if "t < t'"
    using that div_times_less_eq_dividend [of t K] by linarith
  have "t = t div K * K + t mod K" "t mod K < K" using assms by simp_all
  moreover have "(t div K + Suc M) * K = t div K * K + K + M * K" by (simp add: algebra_simps)
  ultimately show "t' \<le> (t div K + Suc M) * K + 2 * D" if "t' \<le> t + D"
    using that by linarith
qed

lemma soft_reset_returns:
  assumes c: "clocked (IO ob) time K D"
  shows "\<exists>st b'. soft_reset ob v b = Some (st, b') \<and> time b \<le> time b' \<and>
    st \<in> {STATUS_OK, STATUS_READ_ERROR, STATUS_WRITE_ERROR, STATUS_RESET_TIMEOUT}"
proof -
  have KD: "0 < K" using c by (auto simp: clocked_def)
  obtain w b1 where b1: "write_reg ob (DevAddr ob) LAN8742_BCR BCR_SOFT_RESET b = Some (w, b1)" "time b < time b1"
    using clocked_write [OF c] by blast
  obtain r v' b2 where b2: "read_reg ob (DevAddr ob) LAN8742_BCR v b1 = Some (r, v', b2)" "time b1 < time b2"
    using clocked_read [OF c] by blast
  obtain b3 where b3: "io_GetTick (IO ob) b2 = (of_nat (time b2 div K), b3)" "time b2 < time b3" "time b3 \<le> time b2 + D"
    using clocked_tick [OF c] by blast
  obtain st b4 where "reset_wait ob (of_nat (time b2 div K)) v' b3 = Some (st, b4)" "time b3 \<le> time b4"
    "st \<in> {STATUS_OK, STATUS_READ_ERROR, STATUS_RESET_TIMEOUT}"
    using reset_wait_returns [OF c tick_window(1) [OF KD b3(2)] tick_window(2) [where M = 500, OF KD b3(3), simplified]] by blast
  note w = this
  show ?thesis
  proof (cases "0 \<le> w \<and> 0 \<le> r")
    case True
    then have "soft_reset ob v b = Some (st, b4)"
      by (simp add: soft_reset_def b1(1) b2(1) b3(1) w(1))
    then show ?thesis using w b1(2) b2(2) b3(2) by auto
  next
    case False
    then have "soft_reset ob v b = Some (if 0 \<le> w then (STATUS_READ_ERROR, b2) else (STATUS_WRITE_ERROR, b1))"
      by (auto simp: soft_reset_def b1(1) b2(1))
    then show ?thesis using b1(2) b2(2) by auto
  qed
qed

lemma init_wait_after_tick:
  assumes c: "clocked (IO ob) time K D" and t: "io_GetTick (IO ob) b = (t0, b1)"
  shows "\<exists>b'. init_wait ob t0 b1 = Some b' \<and> (time b div K + 2001) * K \<le> time b'"
proof -
  have KD: "0 < K" using c by (auto simp: clocked_def)
  have b1: "t0 = of_nat (time b div K)" "time b < time b1" "time b1 \<le> time b + D"
    using clocked_tick [OF c, of b] t by auto
  show ?thesis
    using init_wait_returns [OF c tick_window(1) [OF KD b1(2)] tick_window(2) [where M = 2000, OF KD b1(3), simplified]] b1(1) by blast
qed

lemma io_init_returns:
  assumes "clocked (IO ob) time K D"
  obtains b' where "(case io_Init (IO ob) of None \<Rightarrow> Some b | Some f \<Rightarrow> do { (_, b) \<leftarrow> f b; Some b }) = Some b'"
    and "time b \<le> time b'"
proof (cases "io_Init (IO ob)")
  case None
  then show ?thesis using that [of b] by simp
next
  case (Some f)
  then have "\<exists>r b'. f b = Some (r, b') \<and> time b \<le> time b'" using assms unfolding clocked_def by blast
  then show ?thesis using that Some by auto
qed

lemma soft_reset_dev:
  assumes "clocked (IO ob) time K D"
  shows "\<exists>st b'. soft_reset (ob\<lparr>DevAddr := a\<rparr>) v b = Some (st, b') \<and> time b \<le> time b' \<and>
    st \<in> {STATUS_OK, STATUS_READ_ERROR, STATUS_WRITE_ERROR, STATUS_RESET_TIMEOUT}"
  using assms by (intro soft_reset_returns) simp

lemma probe_finds:
  assumes c: "clocked (IO ob) time K D"
    and found: "find_address (ob\<lparr>DevAddr := LAN8742_MAX_DEV_ADDR + 1\<rparr>) all_addresses STATUS_OK 0 b1 = Some (f, st0, v, b2)"
    and init: "(case io_Init (IO ob) of None \<Rightarrow> Some b | Some f \<Rightarrow> do { (_, b) \<leftarrow> f b; Some b }) = Some b1"
    and ok: "f \<noteq> None \<longrightarrow> st0 = STATUS_OK \<and> the f \<in> set all_addresses"
  shows "\<exists>st b'. probe ob b = Some (st, ob\<lparr>DevAddr := (case f of None \<Rightarrow> LAN8742_MAX_DEV_ADDR + 1 | Some a \<Rightarrow> a)\<rparr>, b') \<and>
    time b2 \<le> time b' \<and> (if f = None then st = STATUS_ADDRESS_ERROR
      else st \<in> {STATUS_OK, STATUS_READ_ERROR, STATUS_WRITE_ERROR, STATUS_RESET_TIMEOUT})"
proof (cases f)
  case None
  then show ?thesis
    using found init by (simp add: probe_def LAN8742_MAX_DEV_ADDR_def)
next
  case (Some a)
  then have "\<not> LAN8742_MAX_DEV_ADDR < a" using ok by (auto simp: all_addresses_set)
  then show ?thesis
    using found init ok Some soft_reset_dev [OF c, where a = a and v = v and b = b2]
    by (auto simp: probe_def)
qed

section \<open>What the driver may rely on\<close>

text \<open>The contract of the two register functions: 0 with a 16-bit value, or -1 with the variable untouched.\<close>

locale mdio_bus =
  fixes io :: "'b bus_io"
  assumes read_law: "io_ReadReg io dev reg old b = Some (r, v, b') \<Longrightarrow> r = 0 \<and> v \<le> 0xFFFF \<or> r = - 1 \<and> v = old"
    and write_law: "io_WriteReg io dev reg v b = Some (r, b') \<Longrightarrow> r = 0 \<or> r = - 1"
begin

lemma found_address:
  assumes "IO ob = io" and "find_address ob as st0 old b = Some (Some a, st, v, b')"
  shows "a \<in> set as \<and> v AND SMR_PHY_ADDR = a \<and> v \<le> 0xFFFF \<and> st = STATUS_OK"
  using assms(2)
proof (induction "as" arbitrary: st0 old b)
  case Nil
  then show ?case by simp
next
  case (Cons x xs)
  then obtain r w b1 where r: "read_reg ob x LAN8742_SMR old b = Some (r, w, b1)"
    by (auto elim: option_bind_SomeE)
  then have "r = 0 \<and> w \<le> 0xFFFF \<or> r = - 1 \<and> w = old" using read_law assms(1) by simp
  then show ?case using Cons r by (auto split: if_splits)
qed

lemma it_status_cases:
  assumes "IO ob = io" and "LAN8742_GetITStatus ob it b = Some (r, b')"
  shows "r \<in> {0, 1, - 5}"
  using assms by (auto simp: LAN8742_GetITStatus_def elim!: option_bind_SomeE split: if_splits)

lemma link_state_cases:
  assumes "IO ob = io" and "LAN8742_GetLinkState ob b = Some (st, b')"
  shows "st \<in> {STATUS_READ_ERROR, STATUS_LINK_DOWN, STATUS_AUTONEGO_NOTDONE} \<or> status_code st \<in> {2..5}"
  using assms by (auto simp: LAN8742_GetLinkState_def bcr_mode_def physcsr_mode_def
      elim!: option_bind_SomeE split: if_splits)

lemma change_reg_cases:
  assumes "IO ob = io" and "change_reg ob reg f b = Some (st, b')"
  shows "st \<in> {STATUS_OK, STATUS_READ_ERROR, STATUS_WRITE_ERROR}"
  using assms by (auto simp: change_reg_def elim!: option_bind_SomeE split: if_splits)

end

end
