(* ===== verification/LanClaims.thy ===== *)
theory LanClaims
  imports Lan8742
begin

text \<open>
  Properties of the PHY driver, with a small register file on a bus as the instance on which their
  hypotheses are met.
\<close>

section \<open>A register file on a bus\<close>

type_synonym chip = "nat \<times> (u32 \<Rightarrow> u32 \<Rightarrow> u32)"

definition chip_io :: "chip bus_io" where
  \<comment> \<open>the PHY answers at the addresses 3 and 5; a call takes one unit of time; writing the reset bit clears the register\<close>
  "chip_io = \<lparr>io_Init = None, io_DeInit = None,
     io_WriteReg = (\<lambda>dev reg v (t, r). Some (0, Suc t, r(dev := (r dev)(reg := if v AND BCR_SOFT_RESET = 0 then v else 0)))),
     io_ReadReg = (\<lambda>dev reg old (t, r). Some (if dev \<in> {3, 5} then (0, r dev reg AND 0xFFFF, Suc t, r) else (- 1, old, Suc t, r))),
     io_GetTick = (\<lambda>(t, r). (of_nat t, Suc t, r))\<rparr>"

definition chip_object :: "chip lan8742_Object" where
  "chip_object = \<lparr>DevAddr = 3, Is_Initialized = 0, IO = chip_io\<rparr>"

definition chip0 :: chip where
  \<comment> \<open>link up; the strapped address is 5 in both register files\<close>
  "chip0 = (0, \<lambda>dev reg. if reg = LAN8742_SMR then 0x60E5 else if reg = LAN8742_BSR then 0x7829
     else if reg = LAN8742_BCR then 0x3100 else 0)"

definition chip1 :: chip where
  "chip1 = (0, (snd chip0)(3 := (snd chip0 3)(LAN8742_BSR := 0x782D)))"

definition chip_regs :: "chip \<Rightarrow> u32 \<Rightarrow> u32 \<Rightarrow> u32" where
  "chip_regs c dev reg = snd c dev reg AND 0xFFFF"

lemma chip_regs_time [simp]: "chip_regs (Suc t, r) = chip_regs (t, r)"
  by (simp add: chip_regs_def fun_eq_iff)

lemma chip_answers: "answers chip_io (\<lambda>_. True) chip_regs (\<lambda>dev. dev \<in> {3, 5})"
  unfolding answers_def
proof (intro conjI allI impI)
  fix dev reg v :: u32 and b :: chip
  assume v: "v AND 0xFFFF = v" "v AND BCR_SOFT_RESET = 0"
  obtain t r where b: "b = (t, r)" by fastforce
  let ?r = "r(dev := (r dev)(reg := v))"
  have "chip_regs (Suc t, ?r) = (chip_regs b)(dev := (chip_regs b dev)(reg := v))"
    using v by (simp add: chip_regs_def b fun_eq_iff)
  then show "\<exists>b'. True \<and> chip_regs b' = (chip_regs b)(dev := (chip_regs b dev)(reg := v)) \<and>
      io_WriteReg chip_io dev reg v b = Some (0, b')"
    using v by (intro exI [of _ "(Suc t, ?r)"]) (simp add: chip_io_def b)
qed (auto simp: chip_io_def chip_regs_def and.assoc, auto simp: chip_regs_def fun_eq_iff)

lemma chip_clocked: "clocked chip_io fst 1 1"
  by (auto simp: clocked_def chip_io_def)

section \<open>Properties\<close>

text \<open>A mode that \<open>LAN8742_SetLinkState\<close> accepts (100 full, 100 half, 10 full) is the mode that
  \<open>LAN8742_GetLinkState\<close> reports afterwards when the link is up: auto-negotiation is off, only the control
  register of the device changed, and in it only the speed, duplex and auto-negotiation bits.\<close>

theorem set_link_state_read_back:
  fixes regs :: "'b \<Rightarrow> u32 \<Rightarrow> u32 \<Rightarrow> u32"
  assumes a: "answers (IO ob) idle regs alive" and idle: "idle b" and d: "alive (DevAddr ob)"
    and st: "st \<in> {STATUS_100MBITS_FULLDUPLEX, STATUS_100MBITS_HALFDUPLEX, STATUS_10MBITS_FULLDUPLEX}"
    and reset: "regs b (DevAddr ob) LAN8742_BCR AND BCR_SOFT_RESET = 0"
    and up: "regs b (DevAddr ob) LAN8742_BSR AND BSR_LINK_STATUS \<noteq> 0"
  shows "\<exists>b' b''. LAN8742_SetLinkState ob (word_of_int (status_code st)) b = Some (STATUS_OK, b') \<and>
    LAN8742_GetLinkState ob b' = Some (st, b'') \<and>
    (\<forall>dev reg. (dev, reg) \<noteq> (DevAddr ob, LAN8742_BCR) \<longrightarrow> regs b' dev reg = regs b dev reg) \<and>
    (let other = NOT (BCR_AUTONEGO_EN OR BCR_SPEED_SELECT OR BCR_DUPLEX_MODE)
     in regs b' (DevAddr ob) LAN8742_BCR AND other = regs b (DevAddr ob) LAN8742_BCR AND other)"
proof -
  obtain m where m: "mode_bits st = Some m" using st by (auto simp: mode_bits_def)
  obtain b' where b': "LAN8742_SetLinkState ob (word_of_int (status_code st)) b = Some (STATUS_OK, b')" "idle b'"
    "regs b' = (regs b)(DevAddr ob := (regs b (DevAddr ob))(LAN8742_BCR :=
      (regs b (DevAddr ob) LAN8742_BCR AND NOT (BCR_AUTONEGO_EN OR BCR_SPEED_SELECT OR BCR_DUPLEX_MODE)) OR m))"
    using set_link_state_answers [OF a idle d m reset] by blast
  have keep: "((v AND ot) OR m) AND ot = v AND ot" if "m AND ot = 0" for v ot :: u32
    using that by (simp add: bit.conj_disj_distrib2 and.assoc)
  have zero: "m AND NOT (BCR_AUTONEGO_EN OR BCR_SPEED_SELECT OR BCR_DUPLEX_MODE) = 0"
    using m by (auto simp: mode_bits_def bcr_defs split: if_splits)
  obtain b'' where g: "LAN8742_GetLinkState ob b' = Some (st, b'')"
    using get_link_state_answers [OF a b'(2) d] bcr_mode_bits [OF m] up
    by (auto simp: b'(3) LAN8742_BCR_def LAN8742_BSR_def)
  show ?thesis
    by (rule exI [of _ b'], rule exI [of _ b''])
      (use b'(1) g in \<open>auto simp: b'(3) Let_def keep [OF zero] simp del: bit.de_Morgan_disj\<close>)
qed

lemma set_link_state_read_back_witness:
  "\<exists>b' b''. LAN8742_SetLinkState chip_object 4 chip1 = Some (STATUS_OK, b') \<and>
     LAN8742_GetLinkState chip_object b' = Some (STATUS_10MBITS_FULLDUPLEX, b'')"
  using set_link_state_read_back [where idle = "\<lambda>_. True" and regs = chip_regs and alive = "\<lambda>dev. dev \<in> {3, 5}" and ob = chip_object and b = chip1
      and st = STATUS_10MBITS_FULLDUPLEX] chip_answers
  by (auto simp: chip_regs_def chip_object_def chip1_def chip0_def LAN8742_SMR_def LAN8742_BSR_def LAN8742_BCR_def bcr_defs
      BSR_LINK_STATUS_def)

text \<open>The fourth mode the function documents, 10 Mbit/s half duplex, is rejected as a wrong parameter:
  no register changes.\<close>

theorem set_link_state_rejects_10_half:
  fixes regs :: "'b \<Rightarrow> u32 \<Rightarrow> u32 \<Rightarrow> u32"
  assumes a: "answers (IO ob) idle regs alive" and idle: "idle b" and d: "alive (DevAddr ob)"
  shows "\<exists>b'. LAN8742_SetLinkState ob (word_of_int (status_code STATUS_10MBITS_HALFDUPLEX)) b = Some (STATUS_ERROR, b')
    \<and> regs b' = regs b"
proof -
  obtain b1 where "regs b1 = regs b"
    "read_reg ob (DevAddr ob) LAN8742_BCR 0 b = Some (0, regs b (DevAddr ob) LAN8742_BCR, b1)"
    using answers_read_alive [OF a idle d, of LAN8742_BCR 0] by auto
  then show ?thesis by (simp only: LAN8742_SetLinkState_def Let_def code_word_inj) simp
qed

lemma set_link_state_rejects_10_half_witness:
  "\<exists>b'. LAN8742_SetLinkState chip_object 5 chip0 = Some (STATUS_ERROR, b') \<and> chip_regs b' = chip_regs chip0"
  using set_link_state_rejects_10_half [where idle = "\<lambda>_. True" and regs = chip_regs and alive = "\<lambda>dev. dev \<in> {3, 5}" and ob = chip_object and b = chip0]
    chip_answers by (auto simp: chip_object_def)

text \<open>\<open>LAN8742_Init\<close> takes the least address at which a PHY answers and reports that address in its
  special mode register; with no such address it fails with \<open>STATUS_ADDRESS_ERROR\<close> and the object stays
  uninitialised. Addresses where the read fails are skipped.\<close>

theorem init_takes_least_address:
  fixes regs :: "'b \<Rightarrow> u32 \<Rightarrow> u32 \<Rightarrow> u32" and b :: 'b
  assumes a: "answers (IO ob) idle regs alive" and idle: "idle b" and c: "clocked (IO ob) time K D" and i: "Is_Initialized ob = 0"
  defines "here \<equiv> \<lambda>x. x \<le> 31 \<and> alive x \<and> regs b x LAN8742_SMR AND SMR_PHY_ADDR = x"
  shows "\<exists>st ob' b'. LAN8742_Init ob b = Some (st, ob', b') \<and>
    (if \<exists>x. here x then here (DevAddr ob') \<and> (\<forall>x. here x \<longrightarrow> DevAddr ob' \<le> x) \<and> st \<noteq> STATUS_ADDRESS_ERROR
     else st = STATUS_ADDRESS_ERROR \<and> Is_Initialized ob' = 0)"
proof -
  let ?ob = "ob\<lparr>DevAddr := LAN8742_MAX_DEV_ADDR + 1\<rparr>"
  let ?P = "\<lambda>x. alive x \<and> regs b x LAN8742_SMR AND SMR_PHY_ADDR = x"
  obtain b1 where b1: "(case io_Init (IO ob) of None \<Rightarrow> Some b | Some f \<Rightarrow> do { (_, b) \<leftarrow> f b; Some b }) = Some b1"
    "idle b1" "regs b1 = regs b"
    using io_init_answers [OF a idle] by blast
  obtain st0 v b2 where f: "find_address ?ob all_addresses STATUS_OK 0 b1 = Some (List.find ?P all_addresses, st0, v, b2)"
    "List.find ?P all_addresses \<noteq> None \<longrightarrow> st0 = STATUS_OK"
    using find_address_answers [of ?ob idle regs alive all_addresses b1 STATUS_OK 0] a b1(2,3)
    by (auto simp: all_addresses_set LAN8742_MAX_DEV_ADDR_def)
  have mem: "x \<in> set all_addresses \<longleftrightarrow> x \<le> 31" for x by (simp add: all_addresses_set LAN8742_MAX_DEV_ADDR_def)
  have found: "here x \<and> (\<forall>y. here y \<longrightarrow> x \<le> y)" if "List.find ?P all_addresses = Some x" for x
  proof -
    have "?P x" "x \<in> set all_addresses" using that by (auto simp: find_Some_iff)
    then show ?thesis using find_sorted_least [OF sorted_all_addresses that] mem by (auto simp: here_def)
  qed
  have "List.find ?P all_addresses \<noteq> None \<longrightarrow> st0 = STATUS_OK \<and> the (List.find ?P all_addresses) \<in> set all_addresses"
  proof (intro impI conjI)
    assume n: "List.find ?P all_addresses \<noteq> None"
    then show "st0 = STATUS_OK" using f(2) by blast
    from n obtain x where x: "List.find ?P all_addresses = Some x" by blast
    then have "here x" using found by blast
    then show "the (List.find ?P all_addresses) \<in> set all_addresses" by (simp only: x option.sel mem here_def)
  qed
  from probe_finds [OF c f(1) b1(1) this] obtain st b3 where p: "probe ob b =
      Some (st, ob\<lparr>DevAddr := (case List.find ?P all_addresses of None \<Rightarrow> LAN8742_MAX_DEV_ADDR + 1 | Some x \<Rightarrow> x)\<rparr>, b3)"
    "if List.find ?P all_addresses = None then st = STATUS_ADDRESS_ERROR
     else st \<in> {STATUS_OK, STATUS_READ_ERROR, STATUS_WRITE_ERROR, STATUS_RESET_TIMEOUT}" by blast
  show ?thesis
  proof (cases "List.find ?P all_addresses")
    case None
    then have "\<not> here x" for x using mem by (auto simp: find_None_iff here_def)
    then show ?thesis using p i None by (auto simp: LAN8742_Init_def)
  next
    case (Some x)
    obtain t0 b4 where t: "io_GetTick (IO ob) b3 = (t0, b4)" by fastforce
    obtain b5 where "init_wait (ob\<lparr>DevAddr := x\<rparr>) t0 b4 = Some b5"
      using init_wait_after_tick [of "ob\<lparr>DevAddr := x\<rparr>" time K D b3 t0 b4] c t by auto
    then show ?thesis using p i Some t found [OF Some] by (auto simp: LAN8742_Init_def)
  qed
qed

lemma init_takes_least_address_witness:
  "\<exists>st ob' b'. LAN8742_Init chip_object chip0 = Some (st, ob', b') \<and> DevAddr ob' = 5"
proof -
  have "\<exists>x. x \<le> 31 \<and> (x = 3 \<or> x = 5) \<and> chip_regs chip0 x LAN8742_SMR AND SMR_PHY_ADDR = (x :: u32)"
    by (intro exI [of _ 5]) (simp add: chip_regs_def chip0_def SMR_PHY_ADDR_def)
  then show ?thesis
    using init_takes_least_address [where idle = "\<lambda>_. True" and regs = chip_regs and alive = "\<lambda>dev. dev \<in> {3, 5}" and ob = chip_object
        and b = chip0 and time = fst and K = 1 and D = 1] chip_answers chip_clocked
    by (auto simp: chip_object_def chip_regs_def chip0_def SMR_PHY_ADDR_def)
qed

text \<open>C23: Over any bus whose calls return, \<open>LAN8742_Init\<close> returns: the address scan, the wait for the
  reset bit and the two-second wait all end even when the tick counter wraps around. It reports success
  only with the object initialised and no sooner than 2000 ticks after the reset.\<close>

theorem init_returns_after_two_seconds:
  assumes c: "clocked (IO ob) time K D" and i: "Is_Initialized ob = 0"
  shows "\<exists>st ob' b'. LAN8742_Init ob b = Some (st, ob', b') \<and>
    st \<in> {STATUS_OK, STATUS_READ_ERROR, STATUS_WRITE_ERROR, STATUS_ADDRESS_ERROR, STATUS_RESET_TIMEOUT} \<and>
    (Is_Initialized ob' = 1 \<longleftrightarrow> st = STATUS_OK) \<and>
    (st = STATUS_OK \<longrightarrow> DevAddr ob' \<le> 31 \<and> time b div K + 2000 < time b' div K)"
proof -
  let ?ob = "ob\<lparr>DevAddr := LAN8742_MAX_DEV_ADDR + 1\<rparr>"
  have K: "0 < K" using c by (simp add: clocked_def)
  obtain b1 where b1: "(case io_Init (IO ob) of None \<Rightarrow> Some b | Some f \<Rightarrow> do { (_, b) \<leftarrow> f b; Some b }) = Some b1"
    "time b \<le> time b1" using io_init_returns [OF c] by blast
  obtain f st0 v b2 where f: "find_address ?ob all_addresses STATUS_OK 0 b1 = Some (f, st0, v, b2)" "time b1 \<le> time b2"
    "f \<noteq> None \<longrightarrow> st0 = STATUS_OK \<and> the f \<in> set all_addresses"
    using find_address_returns [of ?ob time K D all_addresses STATUS_OK 0 b1] c by auto
  from probe_finds [OF c f(1) b1(1) f(3)] obtain st b3 where p: "probe ob b =
      Some (st, ob\<lparr>DevAddr := (case f of None \<Rightarrow> LAN8742_MAX_DEV_ADDR + 1 | Some x \<Rightarrow> x)\<rparr>, b3)" "time b2 \<le> time b3"
    "if f = None then st = STATUS_ADDRESS_ERROR
     else st \<in> {STATUS_OK, STATUS_READ_ERROR, STATUS_WRITE_ERROR, STATUS_RESET_TIMEOUT}" by blast
  show ?thesis
  proof (cases "st = STATUS_OK")
    case False
    then show ?thesis using p i by (auto simp: LAN8742_Init_def split: if_splits)
  next
    case True
    then obtain x where x: "f = Some x" "x \<le> 31" using p(3) f(3) by (cases f) (auto simp: all_addresses_set LAN8742_MAX_DEV_ADDR_def)
    obtain t0 b4 where t: "io_GetTick (IO ob) b3 = (t0, b4)" by fastforce
    obtain b5 where w: "init_wait (ob\<lparr>DevAddr := x\<rparr>) t0 b4 = Some b5" "(time b3 div K + 2001) * K \<le> time b5"
      using init_wait_after_tick [of "ob\<lparr>DevAddr := x\<rparr>" time K D b3 t0 b4] c t by auto
    have "time b div K \<le> time b3 div K" using b1(2) f(2) p(2) by (intro div_le_mono) linarith
    moreover have "time b3 div K + 2001 \<le> time b5 div K" using w(2) K by (simp add: less_eq_div_iff_mult_less_eq)
    ultimately show ?thesis using p(1) i x t w True by (auto simp: LAN8742_Init_def)
  qed
qed

lemma init_returns_after_two_seconds_witness:
  "\<exists>st ob' b'. LAN8742_Init chip_object chip0 = Some (st, ob', b') \<and> (st = STATUS_OK \<longrightarrow> 2000 < fst b')"
  using init_returns_after_two_seconds [where ob = chip_object and b = chip0 and time = fst and K = 1 and D = 1] chip_clocked
  by (auto simp: chip_object_def chip0_def)

end
