(* ===== verification/EthHw.thy ===== *)
theory EthHw
  imports CPrelude "HOL-Library.State_Monad"
begin

text \<open>
  The hardware under \<open>CM7/core/src/ethernetif.c\<close>. The driver runs on a world \<open>'h\<close> that it sees through the
  reads and writes of the registers of the peripheral, of the memory it shares with the DMA and of its own
  volatile variables, through the tick counter and through the calls of the operating system. Every one of these may change the world, so
  that the hardware and other tasks may act between any two accesses. A driver function that cannot block
  is a \<open>state\<close> computation over \<open>'h\<close>; the register macros of the HAL are modelled as they expand.
\<close>

datatype eth_reg = MACCR | MACECR | MACWTR | MACTFCR | MACRFCR | MTLTQOMR | MTLRQOMR
  | DMAMR | DMASBMR | DMACCR | DMACTCR | DMACRCR | DMACTDRLR | DMACTDLAR | DMACTDTPR
  | DMACRDRLR | DMACRDLAR | DMACRDTPR | DMACCARDR | DMACSR | DMACIER
  | MACISR | MACRXTXSR | MACA0HR | MACA0LR | MAC1USTCR | MACMDIOAR | MACMDIODR

datatype eth_var = gState | txState | lostReceivedPackets | errorCode | dmaErrorCode | macErrorCode
  | txDesc nat | rxDesc nat | toProcessPointer | isInitialized | netif_flags

datatype eth_loc = Reg eth_reg | Mem u32 | Var eth_var | TxByte nat
  \<comment> \<open>a register, the word at an address, a variable of the driver (\<open>eth_handle\<close>, \<open>isInitialized\<close>)
    or the flags of the network interface, or a byte of \<open>tx_Buff\<close>\<close>

datatype netif_op = set_up | set_down | set_link_up | set_link_down
datatype os_op = MutexWait bool | MutexRelease bool | OsDelay nat | DIAG string | Netif netif_op
  | CleanDCache u32 | InvalidateDCache u32 | InterfaceSelect | MspInit | PoolInit
  | NetifNames | NetifInit | SemaphoresCreate | MutexesCreate | InputTaskCreate
  \<comment> \<open>True is the transmit mutex; \<open>MspInit\<close> stands for the set-up of clocks, pins and interrupts,
    \<open>NetifNames\<close> for the assignments to the interface's name and output functions and \<open>NetifInit\<close> for those
    to its hardware address, transfer unit and flags\<close>

record 'h eth_env =
  hw_read :: "eth_loc \<Rightarrow> 'h \<Rightarrow> u32 \<times> 'h"
  hw_write :: "eth_loc \<Rightarrow> u32 \<Rightarrow> 'h \<Rightarrow> 'h"
  HAL_GetTick :: "'h \<Rightarrow> u32 \<times> 'h"
  HAL_RCC_GetHCLKFreq :: "'h \<Rightarrow> u32 \<times> 'h"
  os_call :: "os_op \<Rightarrow> 'h \<Rightarrow> 'h"
  sem_wait :: "bool \<Rightarrow> u32 \<Rightarrow> 'h \<Rightarrow> bool \<times> 'h"  \<comment> \<open>True is the transmit semaphore; True is \<open>osOK\<close>\<close>
  sem_release :: "bool \<Rightarrow> 'h \<Rightarrow> 'h"
  rx_pool_alloc :: "'h \<Rightarrow> bool \<times> 'h"  \<comment> \<open>False is NULL\<close>
  rx_pool_free :: "'h \<Rightarrow> 'h"
  netif_input :: "u32 \<Rightarrow> u32 \<Rightarrow> 'h \<Rightarrow> int \<times> 'h"  \<comment> \<open>\<open>netif->input\<close> on a pbuf with this payload and length\<close>
  dmaRxDscrTab :: u32
  dmaTxDscrTab :: u32
  rx_Buff :: u32
  tx_Buff :: u32  \<comment> \<open>addresses of the tables and of the buffers\<close>

definition os :: "'h eth_env \<Rightarrow> os_op \<Rightarrow> ('h, unit) state" where
  "os E c = State (\<lambda>h. ((), os_call E c h))"

section \<open>Register access\<close>

definition READ_REG :: "'h eth_env \<Rightarrow> eth_loc \<Rightarrow> ('h, u32) state" where
  "READ_REG E l = State (hw_read E l)"

definition WRITE_REG :: "'h eth_env \<Rightarrow> eth_loc \<Rightarrow> u32 \<Rightarrow> ('h, unit) state" where
  "WRITE_REG E l v = State (\<lambda>h. ((), hw_write E l v h))"

definition READ_BIT :: "'h eth_env \<Rightarrow> eth_loc \<Rightarrow> u32 \<Rightarrow> ('h, u32) state" where
  "READ_BIT E l m = do { v \<leftarrow> READ_REG E l; State_Monad.return (v AND m) }"

definition SET_BIT :: "'h eth_env \<Rightarrow> eth_loc \<Rightarrow> u32 \<Rightarrow> ('h, unit) state" where
  "SET_BIT E l m = do { v \<leftarrow> READ_REG E l; WRITE_REG E l (v OR m) }"

definition CLEAR_BIT :: "'h eth_env \<Rightarrow> eth_loc \<Rightarrow> u32 \<Rightarrow> ('h, unit) state" where
  "CLEAR_BIT E l m = do { v \<leftarrow> READ_REG E l; WRITE_REG E l (v AND NOT m) }"

definition MODIFY_REG :: "'h eth_env \<Rightarrow> eth_loc \<Rightarrow> u32 \<Rightarrow> u32 \<Rightarrow> ('h, unit) state" where
  "MODIFY_REG E l clearmask setmask = do { v \<leftarrow> READ_REG E l; WRITE_REG E l ((v AND NOT clearmask) OR setmask) }"

lemmas reg_access = READ_REG_def WRITE_REG_def READ_BIT_def SET_BIT_def CLEAR_BIT_def MODIFY_REG_def

lemma run_bind [simp]: "run_state (State_Monad.bind m f) h = (case run_state m h of (a, h') \<Rightarrow> run_state (f a) h')"
  by (simp add: State_Monad.bind_def)

lemma run_return [simp]: "run_state (State_Monad.return a) h = (a, h)"
  by (simp add: State_Monad.return_def)

lemma run_os [simp]: "run_state (os E op) h = ((), os_call E op h)"
  by (simp add: os_def)

lemma run_write [simp]: "run_state (WRITE_REG E l v) h = ((), hw_write E l v h)"
  by (simp add: WRITE_REG_def)

lemma run_unit: "run_state m h = ((), snd (run_state m h))"
  by (rule prod_eqI) simp_all

section \<open>Locations that keep what is written\<close>

definition keeps :: "'h eth_env \<Rightarrow> eth_loc set \<Rightarrow> ('h \<Rightarrow> eth_loc \<Rightarrow> u32) \<Rightarrow> bool" where
  \<comment> \<open>the locations \<open>R\<close> have the contents \<open>cont\<close>: only a write of the driver to the location itself changes
    them, or the software reset through \<open>DMAMR\<close>\<close>
  "keeps E R cont \<longleftrightarrow> (\<forall>h.
     (\<forall>l\<in>R. fst (hw_read E l h) = cont h l \<and> (\<forall>v. cont (hw_write E l v h) = (cont h)(l := v))) \<and>
     (\<forall>l. cont (snd (hw_read E l h)) = cont h) \<and>
     (\<forall>l v. l \<notin> R \<longrightarrow> l \<noteq> Reg DMAMR \<longrightarrow> cont (hw_write E l v h) = cont h))"

definition after :: "('h, 'a) state \<Rightarrow> 'h \<Rightarrow> ('a \<Rightarrow> 'h \<Rightarrow> bool) \<Rightarrow> bool" where
  \<comment> \<open>what holds of the result and the state after a computation\<close>
  "after m h P \<longleftrightarrow> (case run_state m h of (a, h') \<Rightarrow> P a h')"

lemma after_return: "P a h \<Longrightarrow> after (State_Monad.return a) h P"
  by (simp add: after_def)

lemma after_bind: "after m h (\<lambda>a h'. after (f a) h' P) \<Longrightarrow> after (State_Monad.bind m f) h P"
  by (simp add: after_def split: prod.splits)

lemma after_mono: "after m h P \<Longrightarrow> (\<And>a h'. P a h' \<Longrightarrow> Q a h') \<Longrightarrow> after m h Q"
  by (auto simp: after_def split: prod.splits)

lemma after_run: "after m h P \<Longrightarrow> \<exists>a h'. run_state m h = (a, h') \<and> P a h'"
  by (auto simp: after_def split: prod.splits)

lemma keeps_read:
  assumes "keeps E R cont" and "r \<in> R" and "cont h = c" and "\<And>h'. cont h' = c \<Longrightarrow> P (c r) h'"
  shows "after (READ_REG E r) h P"
proof -
  obtain v h' where "hw_read E r h = (v, h')" by fastforce
  then show ?thesis using assms by (auto simp: keeps_def READ_REG_def after_def) (metis fst_conv snd_conv)
qed

lemma keeps_write:
  assumes "keeps E R cont" and "r \<in> R" and "cont h = c" and "\<And>h'. cont h' = c(r := v) \<Longrightarrow> P () h'"
  shows "after (WRITE_REG E r v) h P"
  using assms by (simp add: keeps_def WRITE_REG_def after_def)

lemma keeps_read_bit:
  assumes "keeps E R cont" and "r \<in> R" and "cont h = c" and "\<And>h'. cont h' = c \<Longrightarrow> P (c r AND m) h'"
  shows "after (READ_BIT E r m) h P"
  unfolding READ_BIT_def by (intro after_bind keeps_read [OF assms(1-3)] after_return assms(4))

lemma keeps_modify:
  assumes "keeps E R cont" and "r \<in> R" and "cont h = c"
    and "\<And>h'. cont h' = c(r := (c r AND NOT m) OR v) \<Longrightarrow> P () h'"
  shows "after (MODIFY_REG E r m v) h P"
  unfolding MODIFY_REG_def
  by (intro after_bind keeps_read [OF assms(1-3)] keeps_write [OF assms(1,2)] assms(4)) assumption+

lemma keeps_set_bit:
  assumes "keeps E R cont" and "r \<in> R" and "cont h = c" and "\<And>h'. cont h' = c(r := c r OR m) \<Longrightarrow> P () h'"
  shows "after (SET_BIT E r m) h P"
  unfolding SET_BIT_def
  by (intro after_bind keeps_read [OF assms(1-3)] keeps_write [OF assms(1,2)] assms(4)) assumption+

lemma keeps_clear_bit:
  assumes "keeps E R cont" and "r \<in> R" and "cont h = c" and "\<And>h'. cont h' = c(r := c r AND NOT m) \<Longrightarrow> P () h'"
  shows "after (CLEAR_BIT E r m) h P"
  unfolding CLEAR_BIT_def
  by (intro after_bind keeps_read [OF assms(1-3)] keeps_write [OF assms(1,2)] assms(4)) assumption+

lemmas keeps_steps = keeps_read_bit keeps_modify keeps_set_bit keeps_clear_bit keeps_write keeps_read

lemma keeps_other_read:
  assumes "keeps E R cont" and "cont h = c" and "\<And>v h'. cont h' = c \<Longrightarrow> P v h'"
  shows "after (READ_REG E l) h P"
proof -
  obtain v h' where r: "hw_read E l h = (v, h')" by fastforce
  then have "cont h' = c" using assms(1,2) unfolding keeps_def by (metis snd_conv)
  then show ?thesis using assms(3) r by (simp add: READ_REG_def after_def)
qed

lemma keeps_other_write:
  assumes "keeps E R cont" and "l \<notin> R" and "l \<noteq> Reg DMAMR" and "cont h = c" and "\<And>h'. cont h' = c \<Longrightarrow> P () h'"
  shows "after (WRITE_REG E l v) h P"
  using assms by (simp add: keeps_def WRITE_REG_def after_def)

lemma keeps_other_read_bit:
  assumes "keeps E R cont" and "cont h = c" and "\<And>v h'. cont h' = c \<Longrightarrow> P v h'"
  shows "after (READ_BIT E l m) h P"
  unfolding READ_BIT_def by (intro after_bind keeps_other_read [OF assms(1,2)] after_return assms(3))

lemma keeps_other_modify:
  assumes "keeps E R cont" and "l \<notin> R" and "l \<noteq> Reg DMAMR" and "cont h = c" and "\<And>h'. cont h' = c \<Longrightarrow> P () h'"
  shows "after (MODIFY_REG E l m v) h P" and "after (SET_BIT E l m) h P" and "after (CLEAR_BIT E l m) h P"
  unfolding MODIFY_REG_def SET_BIT_def CLEAR_BIT_def
  by (intro after_bind keeps_other_read [OF assms(1,4)] keeps_other_write [OF assms(1-3)] assms(5); assumption)+

section \<open>Calls of the operating system and of the network stack\<close>

definition NETIF_FLAG_UP :: u32 where "NETIF_FLAG_UP = 0x01"
definition NETIF_FLAG_BROADCAST :: u32 where "NETIF_FLAG_BROADCAST = 0x02"
definition NETIF_FLAG_ETHARP :: u32 where "NETIF_FLAG_ETHARP = 0x08"
definition NETIF_FLAG_LINK_UP :: u32 where "NETIF_FLAG_LINK_UP = 0x04"

fun netif_effect :: "os_op \<Rightarrow> u32 \<Rightarrow> u32" where
  \<comment> \<open>what a call does to the flags of the interface\<close>
  "netif_effect (Netif set_up) f = f OR NETIF_FLAG_UP"
| "netif_effect (Netif set_down) f = f AND NOT NETIF_FLAG_UP"
| "netif_effect (Netif set_link_up) f = f OR NETIF_FLAG_LINK_UP"
| "netif_effect (Netif set_link_down) f = f AND NOT NETIF_FLAG_LINK_UP"
| "netif_effect NetifInit f = f OR (NETIF_FLAG_BROADCAST OR NETIF_FLAG_ETHARP)"
| "netif_effect _ f = f"

definition os_law :: "'h eth_env \<Rightarrow> ('h \<Rightarrow> eth_loc \<Rightarrow> u32) \<Rightarrow> bool" where
  \<comment> \<open>of the contents \<open>cont\<close>, the calls change the flags of the interface only\<close>
  "os_law E cont \<longleftrightarrow> (\<forall>op h. cont (os_call E op h) =
     (cont h)(Var netif_flags := netif_effect op (cont h (Var netif_flags))))"

lemma os_after:
  assumes "os_law E cont" and "cont h = c"
    and "\<And>h'. cont h' = c(Var netif_flags := netif_effect op (c (Var netif_flags))) \<Longrightarrow> P () h'"
  shows "after (os E op) h P"
  using assms by (simp add: os_law_def os_def after_def)

section \<open>Values packed from fields\<close>

definition pack :: "(u32 \<times> u32) list \<Rightarrow> u32" where
  \<comment> \<open>the values of a list of fields, each with the mask of its field\<close>
  "pack fs = foldr (\<lambda>(m, v) a. v OR a) fs 0"

lemma pack_simps [simp]: "pack [] = 0" "pack ((m, v) # fs) = v OR pack fs"
  by (simp_all add: pack_def)

lemma masked_outside: "v' AND m' = v' \<Longrightarrow> m' AND m = 0 \<Longrightarrow> v' AND m = (0 :: u32)"
  by (metis and.assoc and_zero_eq)

definition fields_ok :: "(u32 \<times> u32) list \<Rightarrow> bool" where
  \<comment> \<open>every value lies in its field and the fields are disjoint\<close>
  "fields_ok fs \<longleftrightarrow> (\<forall>(m, v) \<in> set fs. v AND m = v) \<and> sorted_wrt (\<lambda>f g. fst f AND fst g = 0) fs"

lemma pack_outside:
  assumes "\<forall>(m', v') \<in> set fs. v' AND m' = v' \<and> m' AND m = 0"
  shows "pack fs AND m = 0"
  using assms masked_outside by (induction fs) (auto simp: bit.conj_disj_distrib2)

lemma pack_field: "fields_ok fs \<Longrightarrow> (m, v) \<in> set fs \<Longrightarrow> pack fs AND m = v"
proof (induction fs)
  case Nil
  then show ?case by simp
next
  case (Cons f fs)
  obtain m' v' where f: "f = (m', v')" by fastforce
  have ok: "v' AND m' = v'" "fields_ok fs" "\<forall>(m'', v'') \<in> set fs. m' AND m'' = 0 \<and> v'' AND m'' = v''"
    using Cons.prems(1) f by (auto simp: fields_ok_def)
  show ?case
  proof (cases "(m, v) \<in> set fs")
    case True
    then have "v' AND m = 0" using ok masked_outside by blast
    then show ?thesis using True Cons.IH ok(2) f by (simp add: bit.conj_disj_distrib2)
  next
    case False
    then have "(m, v) = (m', v')" using Cons.prems(2) f by simp
    moreover have "pack fs AND m' = 0" using ok(3) by (intro pack_outside) (auto simp: and.commute)
    ultimately show ?thesis using ok(1) f by (simp add: bit.conj_disj_distrib2)
  qed
qed

lemma packed_field:
  \<comment> \<open>reading a field of a register whose fields \<open>fs\<close> have been written under the mask \<open>M\<close>\<close>
  assumes "fields_ok fs" and "(m, v) \<in> set fs" and "NOT M AND m = 0"
  shows "((x AND NOT M) OR pack fs) AND m = v"
  using pack_field [OF assms(1,2)] assms(3) by (simp add: bit.conj_disj_distrib2 and.assoc)

lemma and_flag: "(v :: u32) AND push_bit n 1 = (if bit v n then push_bit n 1 else 0)"
  by (rule bit_word_eqI) (auto simp: bit_simps)

lemma flag_back:
  assumes "m = push_bit n (1 :: u32)" and "n < 32"
  shows "push_bit n (of_bool (0 < drop_bit n (v AND m))) = v AND m"
    and "push_bit n (of_bool (drop_bit n (v AND m) \<noteq> 0)) = v AND m"
proof -
  have "drop_bit n (push_bit n (1 :: u32)) = 1"
    by (rule bit_word_eqI) (use assms(2) in \<open>auto simp: bit_simps\<close>)
  then show "push_bit n (of_bool (0 < drop_bit n (v AND m))) = v AND m"
    "push_bit n (of_bool (drop_bit n (v AND m) \<noteq> 0)) = v AND m"
    unfolding assms(1) and_flag by simp_all
qed

lemma flag_in_field: "m = push_bit n 1 \<Longrightarrow> push_bit n (of_bool b :: u32) AND m = push_bit n (of_bool b)"
  by (cases b) simp_all

lemma drop_push_bit: "n \<le> 32 \<Longrightarrow> drop_bit n (push_bit n (v :: u32)) = take_bit (32 - n) v"
  by (rule bit_word_eqI) (auto simp: bit_simps)

lemma flag_read:
  assumes "n < 32"
  shows "0 < drop_bit n (push_bit n (of_bool b :: u32)) \<longleftrightarrow> b" and "drop_bit n (push_bit n (of_bool b :: u32)) = 0 \<longleftrightarrow> \<not> b"
proof -
  have "drop_bit n (push_bit n (1 :: u32)) = 1"
    by (rule bit_word_eqI) (use assms in \<open>auto simp: bit_simps\<close>)
  then show "0 < drop_bit n (push_bit n (of_bool b :: u32)) \<longleftrightarrow> b" "drop_bit n (push_bit n (of_bool b :: u32)) = 0 \<longleftrightarrow> \<not> b"
    by (cases b; simp)+
qed

end
