(* ===== verification/EthRegs.thy ===== *)
theory EthRegs
  imports EthHw
begin

text \<open>
  The configuration of the MAC and of the DMA (\<open>carbon_hw_ethernet_set_mac_config\<close>,
  \<open>..._get_mac_config\<close>, \<open>..._set_dma_config\<close>, \<open>..._mac_dma_config\<close> and \<open>..._mac_mdio_clkconfig\<close> of
  \<open>ethernetif.c\<close>). A \<open>FunctionalState\<close> is a \<open>bool\<close> (\<open>ENABLE\<close> is 1); the fields that the HAL declares as
  \<open>uint32_t\<close> are words. The constants are those of the device header and of the head of the file.
\<close>

abbreviation shl :: "nat \<Rightarrow> u32 \<Rightarrow> u32" where "shl \<equiv> push_bit"
abbreviation shr :: "nat \<Rightarrow> u32 \<Rightarrow> u32" where "shr \<equiv> drop_bit"

section \<open>Masks\<close>

definition ETH_MACCR_PRELEN :: u32 where "ETH_MACCR_PRELEN = 0x0000000C"
definition ETH_MACCR_DC :: u32 where "ETH_MACCR_DC = 0x00000010"
definition ETH_MACCR_BL :: u32 where "ETH_MACCR_BL = 0x00000060"
definition ETH_MACCR_DR :: u32 where "ETH_MACCR_DR = 0x00000100"
definition ETH_MACCR_DCRS :: u32 where "ETH_MACCR_DCRS = 0x00000200"
definition ETH_MACCR_DO :: u32 where "ETH_MACCR_DO = 0x00000400"
definition ETH_MACCR_ECRSFD :: u32 where "ETH_MACCR_ECRSFD = 0x00000800"
definition ETH_MACCR_LM :: u32 where "ETH_MACCR_LM = 0x00001000"
definition ETH_MACCR_DM :: u32 where "ETH_MACCR_DM = 0x00002000"
definition ETH_MACCR_FES :: u32 where "ETH_MACCR_FES = 0x00004000"
definition ETH_MACCR_JE :: u32 where "ETH_MACCR_JE = 0x00010000"
definition ETH_MACCR_JD :: u32 where "ETH_MACCR_JD = 0x00020000"
definition ETH_MACCR_WD :: u32 where "ETH_MACCR_WD = 0x00080000"
definition ETH_MACCR_ACS :: u32 where "ETH_MACCR_ACS = 0x00100000"
definition ETH_MACCR_CST :: u32 where "ETH_MACCR_CST = 0x00200000"
definition ETH_MACCR_S2KP :: u32 where "ETH_MACCR_S2KP = 0x00400000"
definition ETH_MACCR_GPSLCE :: u32 where "ETH_MACCR_GPSLCE = 0x00800000"
definition ETH_MACCR_IPG :: u32 where "ETH_MACCR_IPG = 0x07000000"
definition ETH_MACCR_IPC :: u32 where "ETH_MACCR_IPC = 0x08000000"
definition ETH_MACCR_SARC :: u32 where "ETH_MACCR_SARC = 0x70000000"
definition ETH_MACECR_GPSL :: u32 where "ETH_MACECR_GPSL = 0x00003FFF"
definition ETH_MACECR_DCRCC :: u32 where "ETH_MACECR_DCRCC = 0x00010000"
definition ETH_MACECR_SPEN :: u32 where "ETH_MACECR_SPEN = 0x00020000"
definition ETH_MACECR_USP :: u32 where "ETH_MACECR_USP = 0x00040000"
definition ETH_MACECR_EIPGEN :: u32 where "ETH_MACECR_EIPGEN = 0x01000000"
definition ETH_MACECR_EIPG :: u32 where "ETH_MACECR_EIPG = 0x3E000000"
definition ETH_MACWTR_PWE :: u32 where "ETH_MACWTR_PWE = 0x00000100"
definition ETH_MACWTR_WTO :: u32 where "ETH_MACWTR_WTO = 0x0000000F"
definition ETH_MACTFCR_TFE :: u32 where "ETH_MACTFCR_TFE = 0x00000002"
definition ETH_MACTFCR_DZPQ :: u32 where "ETH_MACTFCR_DZPQ = 0x00000080"
definition ETH_MACTFCR_PLT :: u32 where "ETH_MACTFCR_PLT = 0x00000070"
definition ETH_MACTFCR_PT :: u32 where "ETH_MACTFCR_PT = 0xFFFF0000"
definition ETH_MACRFCR_RFE :: u32 where "ETH_MACRFCR_RFE = 0x00000001"
definition ETH_MACRFCR_UP :: u32 where "ETH_MACRFCR_UP = 0x00000002"
definition ETH_MTLTQOMR_TTC :: u32 where "ETH_MTLTQOMR_TTC = 0x00000070"
definition ETH_MTLTQOMR_TSF :: u32 where "ETH_MTLTQOMR_TSF = 0x00000002"
definition ETH_MTLRQOMR_RTC :: u32 where "ETH_MTLRQOMR_RTC = 0x00000003"
definition ETH_MTLRQOMR_RSF :: u32 where "ETH_MTLRQOMR_RSF = 0x00000020"
definition ETH_MTLRQOMR_FUP :: u32 where "ETH_MTLRQOMR_FUP = 0x00000008"
definition ETH_MTLRQOMR_FEP :: u32 where "ETH_MTLRQOMR_FEP = 0x00000010"
definition ETH_MTLRQOMR_DISTCPEF :: u32 where "ETH_MTLRQOMR_DISTCPEF = 0x00000040"
definition ETH_MACCR_MASK :: u32 where "ETH_MACCR_MASK = 0xFFFB7F7C"
definition ETH_MACECR_MASK :: u32 where "ETH_MACECR_MASK = 0x3F077FFF"
definition ETH_MACWTR_MASK :: u32 where "ETH_MACWTR_MASK = 0x0000010F"
definition ETH_MACTFCR_MASK :: u32 where "ETH_MACTFCR_MASK = 0xFFFF00F2"
definition ETH_MACRFCR_MASK :: u32 where "ETH_MACRFCR_MASK = 0x00000003"
definition ETH_MTLTQOMR_MASK :: u32 where "ETH_MTLTQOMR_MASK = 0x00000072"
definition ETH_MTLRQOMR_MASK :: u32 where "ETH_MTLRQOMR_MASK = 0x0000007B"
definition ETH_DMAMR_MASK :: u32 where "ETH_DMAMR_MASK = 0x00007802"
definition ETH_DMASBMR_MASK :: u32 where "ETH_DMASBMR_MASK = 0x0000D001"
definition ETH_DMACCR_MASK :: u32 where "ETH_DMACCR_MASK = 0x00013FFF"
definition ETH_DMACTCR_MASK :: u32 where "ETH_DMACTCR_MASK = 0x003F1010"
definition ETH_DMACRCR_MASK :: u32 where "ETH_DMACRCR_MASK = 0x803F0000"

lemmas eth_masks =
  ETH_MACCR_PRELEN_def ETH_MACCR_DC_def ETH_MACCR_BL_def ETH_MACCR_DR_def ETH_MACCR_DCRS_def
  ETH_MACCR_DO_def ETH_MACCR_ECRSFD_def ETH_MACCR_LM_def ETH_MACCR_DM_def ETH_MACCR_FES_def
  ETH_MACCR_JE_def ETH_MACCR_JD_def ETH_MACCR_WD_def ETH_MACCR_ACS_def ETH_MACCR_CST_def
  ETH_MACCR_S2KP_def ETH_MACCR_GPSLCE_def ETH_MACCR_IPG_def ETH_MACCR_IPC_def ETH_MACCR_SARC_def
  ETH_MACECR_GPSL_def ETH_MACECR_DCRCC_def ETH_MACECR_SPEN_def ETH_MACECR_USP_def ETH_MACECR_EIPGEN_def
  ETH_MACECR_EIPG_def ETH_MACWTR_PWE_def ETH_MACWTR_WTO_def ETH_MACTFCR_TFE_def ETH_MACTFCR_DZPQ_def
  ETH_MACTFCR_PLT_def ETH_MACTFCR_PT_def ETH_MACRFCR_RFE_def ETH_MACRFCR_UP_def ETH_MTLTQOMR_TTC_def
  ETH_MTLTQOMR_TSF_def ETH_MTLRQOMR_RTC_def ETH_MTLRQOMR_RSF_def ETH_MTLRQOMR_FUP_def ETH_MTLRQOMR_FEP_def
  ETH_MTLRQOMR_DISTCPEF_def ETH_MACCR_MASK_def ETH_MACECR_MASK_def ETH_MACWTR_MASK_def ETH_MACTFCR_MASK_def
  ETH_MACRFCR_MASK_def ETH_MTLTQOMR_MASK_def ETH_MTLRQOMR_MASK_def ETH_DMAMR_MASK_def ETH_DMASBMR_MASK_def
  ETH_DMACCR_MASK_def ETH_DMACTCR_MASK_def ETH_DMACRCR_MASK_def

section \<open>Configuration of the MAC\<close>

record mac_config =
  AutomaticPadCRCStrip :: bool
  BackOffLimit :: u32
  CarrierSenseBeforeTransmit :: bool
  CarrierSenseDuringTransmit :: bool
  ChecksumOffload :: bool
  CRCCheckingRxPackets :: bool
  CRCStripTypePacket :: bool
  DeferralCheck :: bool
  DropTCPIPChecksumErrorPacket :: bool
  DuplexMode :: u32
  ExtendedInterPacketGap :: bool
  ExtendedInterPacketGapVal :: u32
  ForwardRxErrorPacket :: bool
  ForwardRxUndersizedGoodPacket :: bool
  GiantPacketSizeLimit :: u32
  GiantPacketSizeLimitControl :: bool
  InterPacketGapVal :: u32
  Jabber :: bool
  JumboPacket :: bool
  LoopbackMode :: bool
  PauseLowThreshold :: u32
  PauseTime :: u32
  PreambleLength :: u32
  ProgrammableWatchdog :: bool
  ReceiveFlowControl :: bool
  ReceiveOwn :: bool
  ReceiveQueueMode :: u32
  RetryTransmission :: bool
  SlowProtocolDetect :: bool
  SourceAddrControl :: u32
  Speed :: u32
  Support2KPacket :: bool
  TransmitQueueMode :: u32
  TransmitFlowControl :: bool
  UnicastPausePacketDetect :: bool
  UnicastSlowProtocolPacketDetect :: bool
  Watchdog :: bool
  WatchdogTimeout :: u32
  ZeroQuantaPause :: bool

definition maccr_value :: "mac_config \<Rightarrow> u32" where
  "maccr_value c =
    (InterPacketGapVal c OR
     SourceAddrControl c OR
     shl 27 (of_bool (ChecksumOffload c)) OR
     shl 23 (of_bool (GiantPacketSizeLimitControl c)) OR
     shl 22 (of_bool (Support2KPacket c)) OR
     shl 21 (of_bool (CRCStripTypePacket c)) OR
     shl 20 (of_bool (AutomaticPadCRCStrip c)) OR
     shl 19 (of_bool (\<not> Watchdog c)) OR
     shl 17 (of_bool (\<not> Jabber c)) OR
     shl 16 (of_bool (JumboPacket c)) OR
     Speed c OR
     DuplexMode c OR
     shl 12 (of_bool (LoopbackMode c)) OR
     shl 11 (of_bool (CarrierSenseBeforeTransmit c)) OR
     shl 10 (of_bool (\<not> ReceiveOwn c)) OR
     shl 9 (of_bool (CarrierSenseDuringTransmit c)) OR
     shl 8 (of_bool (\<not> RetryTransmission c)) OR
     BackOffLimit c OR
     shl 4 (of_bool (DeferralCheck c)) OR
     PreambleLength c)"

definition macecr_value :: "mac_config \<Rightarrow> u32" where
  "macecr_value c =
    (shl 25 (ExtendedInterPacketGapVal c) OR
     shl 24 (of_bool (ExtendedInterPacketGap c)) OR
     shl 18 (of_bool (UnicastSlowProtocolPacketDetect c)) OR
     shl 17 (of_bool (SlowProtocolDetect c)) OR
     shl 16 (of_bool (\<not> CRCCheckingRxPackets c)) OR
     GiantPacketSizeLimit c)"

definition macwtr_value :: "mac_config \<Rightarrow> u32" where
  "macwtr_value c =
    (shl 8 (of_bool (ProgrammableWatchdog c)) OR
     WatchdogTimeout c)"

definition mactfcr_value :: "mac_config \<Rightarrow> u32" where
  "mactfcr_value c =
    (shl 1 (of_bool (TransmitFlowControl c)) OR
     PauseLowThreshold c OR
     shl 7 (of_bool (\<not> ZeroQuantaPause c)) OR
     shl 16 (PauseTime c))"

definition macrfcr_value :: "mac_config \<Rightarrow> u32" where
  "macrfcr_value c =
    (of_bool (ReceiveFlowControl c) OR
     shl 1 (of_bool (UnicastPausePacketDetect c)))"

definition mtlrqomr_value :: "mac_config \<Rightarrow> u32" where
  "mtlrqomr_value c =
    (ReceiveQueueMode c OR
     shl 6 (of_bool (\<not> DropTCPIPChecksumErrorPacket c)) OR
     shl 4 (of_bool (ForwardRxErrorPacket c)) OR
     shl 3 (of_bool (ForwardRxUndersizedGoodPacket c)))"

definition set_mac_config :: "'h eth_env \<Rightarrow> mac_config \<Rightarrow> ('h, unit) state" where
  "set_mac_config E c =
     do {
       _ \<leftarrow> MODIFY_REG E (Reg MACCR) ETH_MACCR_MASK (maccr_value c);
       _ \<leftarrow> MODIFY_REG E (Reg MACECR) ETH_MACECR_MASK (macecr_value c);
       _ \<leftarrow> MODIFY_REG E (Reg MACWTR) ETH_MACWTR_MASK (macwtr_value c);
       _ \<leftarrow> MODIFY_REG E (Reg MACTFCR) ETH_MACTFCR_MASK (mactfcr_value c);
       _ \<leftarrow> MODIFY_REG E (Reg MACRFCR) ETH_MACRFCR_MASK (macrfcr_value c);
       _ \<leftarrow> MODIFY_REG E (Reg MTLTQOMR) ETH_MTLTQOMR_MASK (TransmitQueueMode c);
       MODIFY_REG E (Reg MTLRQOMR) ETH_MTLRQOMR_MASK (mtlrqomr_value c)
     }"

definition get_mac_config :: "'h eth_env \<Rightarrow> ('h, mac_config) state" where
  "get_mac_config E =
     do {
       prelen \<leftarrow> READ_BIT E (Reg MACCR) ETH_MACCR_PRELEN;
       dc \<leftarrow> READ_BIT E (Reg MACCR) ETH_MACCR_DC;
       bl \<leftarrow> READ_BIT E (Reg MACCR) ETH_MACCR_BL;
       dr \<leftarrow> READ_BIT E (Reg MACCR) ETH_MACCR_DR;
       dcrs \<leftarrow> READ_BIT E (Reg MACCR) ETH_MACCR_DCRS;
       dro \<leftarrow> READ_BIT E (Reg MACCR) ETH_MACCR_DO;
       ecrsfd \<leftarrow> READ_BIT E (Reg MACCR) ETH_MACCR_ECRSFD;
       lm \<leftarrow> READ_BIT E (Reg MACCR) ETH_MACCR_LM;
       dm \<leftarrow> READ_BIT E (Reg MACCR) ETH_MACCR_DM;
       fes \<leftarrow> READ_BIT E (Reg MACCR) ETH_MACCR_FES;
       je \<leftarrow> READ_BIT E (Reg MACCR) ETH_MACCR_JE;
       jd \<leftarrow> READ_BIT E (Reg MACCR) ETH_MACCR_JD;
       wd \<leftarrow> READ_BIT E (Reg MACCR) ETH_MACCR_WD;
       acs \<leftarrow> READ_BIT E (Reg MACCR) ETH_MACCR_ACS;
       cst \<leftarrow> READ_BIT E (Reg MACCR) ETH_MACCR_CST;
       s2kp \<leftarrow> READ_BIT E (Reg MACCR) ETH_MACCR_S2KP;
       gpslce \<leftarrow> READ_BIT E (Reg MACCR) ETH_MACCR_GPSLCE;
       ipg \<leftarrow> READ_BIT E (Reg MACCR) ETH_MACCR_IPG;
       ipc \<leftarrow> READ_BIT E (Reg MACCR) ETH_MACCR_IPC;
       sarc \<leftarrow> READ_BIT E (Reg MACCR) ETH_MACCR_SARC;
       gpsl \<leftarrow> READ_BIT E (Reg MACECR) ETH_MACECR_GPSL;
       dcrcc \<leftarrow> READ_BIT E (Reg MACECR) ETH_MACECR_DCRCC;
       spen \<leftarrow> READ_BIT E (Reg MACECR) ETH_MACECR_SPEN;
       usp \<leftarrow> READ_BIT E (Reg MACECR) ETH_MACECR_USP;
       eipgen \<leftarrow> READ_BIT E (Reg MACECR) ETH_MACECR_EIPGEN;
       eipg \<leftarrow> READ_BIT E (Reg MACECR) ETH_MACECR_EIPG;
       pwe \<leftarrow> READ_BIT E (Reg MACWTR) ETH_MACWTR_PWE;
       wto \<leftarrow> READ_BIT E (Reg MACWTR) ETH_MACWTR_WTO;
       tfe \<leftarrow> READ_BIT E (Reg MACTFCR) ETH_MACTFCR_TFE;
       dzpq \<leftarrow> READ_BIT E (Reg MACTFCR) ETH_MACTFCR_DZPQ;
       plt \<leftarrow> READ_BIT E (Reg MACTFCR) ETH_MACTFCR_PLT;
       pt \<leftarrow> READ_BIT E (Reg MACTFCR) ETH_MACTFCR_PT;
       rfe \<leftarrow> READ_BIT E (Reg MACRFCR) ETH_MACRFCR_RFE;
       up \<leftarrow> READ_BIT E (Reg MACRFCR) ETH_MACRFCR_UP;
       ttc \<leftarrow> READ_BIT E (Reg MTLTQOMR) (ETH_MTLTQOMR_TTC OR ETH_MTLTQOMR_TSF);
       rtc \<leftarrow> READ_BIT E (Reg MTLRQOMR) (ETH_MTLRQOMR_RTC OR ETH_MTLRQOMR_RSF);
       fup \<leftarrow> READ_BIT E (Reg MTLRQOMR) ETH_MTLRQOMR_FUP;
       fep \<leftarrow> READ_BIT E (Reg MTLRQOMR) ETH_MTLRQOMR_FEP;
       distcpef \<leftarrow> READ_BIT E (Reg MTLRQOMR) ETH_MTLRQOMR_DISTCPEF;
       State_Monad.return
         \<lparr>AutomaticPadCRCStrip = 0 < shr 20 acs, BackOffLimit = bl,
          CarrierSenseBeforeTransmit = 0 < shr 11 ecrsfd, CarrierSenseDuringTransmit = 0 < shr 9 dcrs,
          ChecksumOffload = 0 < shr 27 ipc, CRCCheckingRxPackets = shr 16 dcrcc = 0,
          CRCStripTypePacket = 0 < shr 21 cst, DeferralCheck = 0 < shr 4 dc,
          DropTCPIPChecksumErrorPacket = shr 6 distcpef = 0, DuplexMode = dm,
          ExtendedInterPacketGap = 0 < shr 24 eipgen, ExtendedInterPacketGapVal = shr 25 eipg,
          ForwardRxErrorPacket = 0 < shr 4 fep, ForwardRxUndersizedGoodPacket = 0 < shr 3 fup,
          GiantPacketSizeLimit = gpsl, GiantPacketSizeLimitControl = 0 < shr 23 gpslce, InterPacketGapVal = ipg,
          Jabber = shr 17 jd = 0, JumboPacket = 0 < shr 16 je, LoopbackMode = 0 < shr 12 lm, PauseLowThreshold = plt,
          PauseTime = shr 16 pt, PreambleLength = prelen, ProgrammableWatchdog = 0 < shr 8 pwe,
          ReceiveFlowControl = 0 < rfe, ReceiveOwn = shr 10 dro = 0, ReceiveQueueMode = rtc,
          RetryTransmission = shr 8 dr = 0, SlowProtocolDetect = 0 < shr 17 spen, SourceAddrControl = sarc,
          Speed = fes, Support2KPacket = 0 < shr 22 s2kp, TransmitQueueMode = ttc,
          TransmitFlowControl = 0 < shr 1 tfe, UnicastPausePacketDetect = 0 < shr 1 up,
          UnicastSlowProtocolPacketDetect = 0 < shr 18 usp, Watchdog = shr 19 wd = 0, WatchdogTimeout = wto,
          ZeroQuantaPause = shr 7 dzpq = 0\<rparr>
     }"

section \<open>Configuration of the DMA and defaults\<close>

record dma_config =
  AddressAlignedBeats :: bool
  BurstMode :: u32
  DMAArbitration :: u32
  FlushRxPacket :: bool
  PBLx8Mode :: bool
  RebuildINCRxBurst :: bool
  RxDMABurstLength :: u32
  SecondPacketOperate :: bool
  TxDMABurstLength :: u32
  TCPSegmentation :: bool
  MaximumSegmentSize :: u32

definition set_dma_config :: "'h eth_env \<Rightarrow> dma_config \<Rightarrow> ('h, unit) state" where
  "set_dma_config E c =
     do {
       _ \<leftarrow> MODIFY_REG E (Reg DMAMR) ETH_DMAMR_MASK (DMAArbitration c);
       _ \<leftarrow> MODIFY_REG E (Reg DMASBMR) ETH_DMASBMR_MASK
         (shl 12 (of_bool (AddressAlignedBeats c)) OR BurstMode c OR shl 15 (of_bool (RebuildINCRxBurst c)));
       _ \<leftarrow> MODIFY_REG E (Reg DMACCR) ETH_DMACCR_MASK (shl 16 (of_bool (PBLx8Mode c)) OR MaximumSegmentSize c);
       _ \<leftarrow> MODIFY_REG E (Reg DMACTCR) ETH_DMACTCR_MASK
         (TxDMABurstLength c OR shl 4 (of_bool (SecondPacketOperate c)) OR shl 12 (of_bool (TCPSegmentation c)));
       MODIFY_REG E (Reg DMACRCR) ETH_DMACRCR_MASK (shl 31 (of_bool (FlushRxPacket c)) OR RxDMABurstLength c)
     }"

definition macDefaultConf :: mac_config where
  \<comment> \<open>the values that \<open>carbon_hw_ethernet_mac_dma_config\<close> assigns\<close>
  "macDefaultConf =
     \<lparr>AutomaticPadCRCStrip = True, BackOffLimit = 0, CarrierSenseBeforeTransmit = False,
      CarrierSenseDuringTransmit = False, ChecksumOffload = True, CRCCheckingRxPackets = True,
      CRCStripTypePacket = True, DeferralCheck = False, DropTCPIPChecksumErrorPacket = True,
      DuplexMode = ETH_MACCR_DM, ExtendedInterPacketGap = False, ExtendedInterPacketGapVal = 0,
      ForwardRxErrorPacket = False, ForwardRxUndersizedGoodPacket = False, GiantPacketSizeLimit = 0x618,
      GiantPacketSizeLimitControl = False, InterPacketGapVal = 0, Jabber = True, JumboPacket = False,
      LoopbackMode = False, PauseLowThreshold = 0, PauseTime = 0, PreambleLength = 0,
      ProgrammableWatchdog = False, ReceiveFlowControl = False, ReceiveOwn = True,
      ReceiveQueueMode = ETH_MTLRQOMR_RSF, RetryTransmission = True, SlowProtocolDetect = False,
      SourceAddrControl = 0x30000000, Speed = ETH_MACCR_FES, Support2KPacket = False,
      TransmitQueueMode = ETH_MTLTQOMR_TSF, TransmitFlowControl = False, UnicastPausePacketDetect = False,
      UnicastSlowProtocolPacketDetect = False, Watchdog = True, WatchdogTimeout = 0, ZeroQuantaPause = True\<rparr>"

definition dmaDefaultConf :: dma_config where
  "dmaDefaultConf =
     \<lparr>AddressAlignedBeats = True, BurstMode = 1, DMAArbitration = 0, FlushRxPacket = False, PBLx8Mode = False,
      RebuildINCRxBurst = False, RxDMABurstLength = 0x200000, SecondPacketOperate = False,
      TxDMABurstLength = 0x200000, TCPSegmentation = False, MaximumSegmentSize = 536\<rparr>"

definition mac_dma_config :: "'h eth_env \<Rightarrow> ('h, unit) state" where
  "mac_dma_config E = do { _ \<leftarrow> set_mac_config E macDefaultConf; set_dma_config E dmaDefaultConf }"

definition mdio_clock_range :: "u32 \<Rightarrow> u32" where
  \<comment> \<open>the CSR clock range for a bus clock\<close>
  "mdio_clock_range hclk =
     (if 20000000 \<le> hclk \<and> hclk < 35000000 then 0x200
      else if 35000000 \<le> hclk \<and> hclk < 60000000 then 0x300
      else if 60000000 \<le> hclk \<and> hclk < 100000000 then 0
      else if 100000000 \<le> hclk \<and> hclk < 150000000 then 0x100
      else 0x400)"

definition mac_mdio_clkconfig :: "'h eth_env \<Rightarrow> ('h, unit) state" where
  "mac_mdio_clkconfig E =
     do {
       tmpreg \<leftarrow> READ_REG E (Reg MACMDIOAR);
       hclk \<leftarrow> State (HAL_RCC_GetHCLKFreq E);
       WRITE_REG E (Reg MACMDIOAR) ((tmpreg AND NOT 0xF00) OR mdio_clock_range hclk)
     }"

section \<open>The registers and the configuration they stand for\<close>

definition mac_regs :: "eth_loc set" where
  "mac_regs = Reg ` {MACCR, MACECR, MACWTR, MACTFCR, MACRFCR, MTLTQOMR, MTLRQOMR}"

definition config_of :: "(eth_loc \<Rightarrow> u32) \<Rightarrow> mac_config" where
  \<comment> \<open>the configuration that register contents stand for\<close>
  "config_of R =
     \<lparr>AutomaticPadCRCStrip = 0 < shr 20 (R (Reg MACCR) AND ETH_MACCR_ACS), BackOffLimit = R (Reg MACCR) AND ETH_MACCR_BL,
      CarrierSenseBeforeTransmit = 0 < shr 11 (R (Reg MACCR) AND ETH_MACCR_ECRSFD),
      CarrierSenseDuringTransmit = 0 < shr 9 (R (Reg MACCR) AND ETH_MACCR_DCRS),
      ChecksumOffload = 0 < shr 27 (R (Reg MACCR) AND ETH_MACCR_IPC),
      CRCCheckingRxPackets = shr 16 (R (Reg MACECR) AND ETH_MACECR_DCRCC) = 0,
      CRCStripTypePacket = 0 < shr 21 (R (Reg MACCR) AND ETH_MACCR_CST),
      DeferralCheck = 0 < shr 4 (R (Reg MACCR) AND ETH_MACCR_DC),
      DropTCPIPChecksumErrorPacket = shr 6 (R (Reg MTLRQOMR) AND ETH_MTLRQOMR_DISTCPEF) = 0,
      DuplexMode = R (Reg MACCR) AND ETH_MACCR_DM, ExtendedInterPacketGap = 0 < shr 24 (R (Reg MACECR) AND ETH_MACECR_EIPGEN),
      ExtendedInterPacketGapVal = shr 25 (R (Reg MACECR) AND ETH_MACECR_EIPG),
      ForwardRxErrorPacket = 0 < shr 4 (R (Reg MTLRQOMR) AND ETH_MTLRQOMR_FEP),
      ForwardRxUndersizedGoodPacket = 0 < shr 3 (R (Reg MTLRQOMR) AND ETH_MTLRQOMR_FUP),
      GiantPacketSizeLimit = R (Reg MACECR) AND ETH_MACECR_GPSL,
      GiantPacketSizeLimitControl = 0 < shr 23 (R (Reg MACCR) AND ETH_MACCR_GPSLCE),
      InterPacketGapVal = R (Reg MACCR) AND ETH_MACCR_IPG, Jabber = shr 17 (R (Reg MACCR) AND ETH_MACCR_JD) = 0,
      JumboPacket = 0 < shr 16 (R (Reg MACCR) AND ETH_MACCR_JE), LoopbackMode = 0 < shr 12 (R (Reg MACCR) AND ETH_MACCR_LM),
      PauseLowThreshold = R (Reg MACTFCR) AND ETH_MACTFCR_PLT, PauseTime = shr 16 (R (Reg MACTFCR) AND ETH_MACTFCR_PT),
      PreambleLength = R (Reg MACCR) AND ETH_MACCR_PRELEN, ProgrammableWatchdog = 0 < shr 8 (R (Reg MACWTR) AND ETH_MACWTR_PWE),
      ReceiveFlowControl = 0 < R (Reg MACRFCR) AND ETH_MACRFCR_RFE, ReceiveOwn = shr 10 (R (Reg MACCR) AND ETH_MACCR_DO) = 0,
      ReceiveQueueMode = R (Reg MTLRQOMR) AND (ETH_MTLRQOMR_RTC OR ETH_MTLRQOMR_RSF),
      RetryTransmission = shr 8 (R (Reg MACCR) AND ETH_MACCR_DR) = 0,
      SlowProtocolDetect = 0 < shr 17 (R (Reg MACECR) AND ETH_MACECR_SPEN), SourceAddrControl = R (Reg MACCR) AND ETH_MACCR_SARC,
      Speed = R (Reg MACCR) AND ETH_MACCR_FES, Support2KPacket = 0 < shr 22 (R (Reg MACCR) AND ETH_MACCR_S2KP),
      TransmitQueueMode = R (Reg MTLTQOMR) AND (ETH_MTLTQOMR_TTC OR ETH_MTLTQOMR_TSF),
      TransmitFlowControl = 0 < shr 1 (R (Reg MACTFCR) AND ETH_MACTFCR_TFE),
      UnicastPausePacketDetect = 0 < shr 1 (R (Reg MACRFCR) AND ETH_MACRFCR_UP),
      UnicastSlowProtocolPacketDetect = 0 < shr 18 (R (Reg MACECR) AND ETH_MACECR_USP),
      Watchdog = shr 19 (R (Reg MACCR) AND ETH_MACCR_WD) = 0, WatchdogTimeout = R (Reg MACWTR) AND ETH_MACWTR_WTO,
      ZeroQuantaPause = shr 7 (R (Reg MACTFCR) AND ETH_MACTFCR_DZPQ) = 0\<rparr>"

definition in_range :: "mac_config \<Rightarrow> bool" where
  \<comment> \<open>every value fits its field\<close>
  "in_range c \<longleftrightarrow>
     BackOffLimit c AND ETH_MACCR_BL = BackOffLimit c \<and>
     DuplexMode c AND ETH_MACCR_DM = DuplexMode c \<and>
     ExtendedInterPacketGapVal c AND shr 25 ETH_MACECR_EIPG = ExtendedInterPacketGapVal c \<and>
     GiantPacketSizeLimit c AND ETH_MACECR_GPSL = GiantPacketSizeLimit c \<and>
     InterPacketGapVal c AND ETH_MACCR_IPG = InterPacketGapVal c \<and>
     PauseLowThreshold c AND ETH_MACTFCR_PLT = PauseLowThreshold c \<and>
     PauseTime c AND shr 16 ETH_MACTFCR_PT = PauseTime c \<and>
     PreambleLength c AND ETH_MACCR_PRELEN = PreambleLength c \<and>
     ReceiveQueueMode c AND (ETH_MTLRQOMR_RTC OR ETH_MTLRQOMR_RSF) = ReceiveQueueMode c \<and>
     SourceAddrControl c AND ETH_MACCR_SARC = SourceAddrControl c \<and>
     Speed c AND ETH_MACCR_FES = Speed c \<and>
     TransmitQueueMode c AND (ETH_MTLTQOMR_TTC OR ETH_MTLTQOMR_TSF) = TransmitQueueMode c \<and>
     WatchdogTimeout c AND ETH_MACWTR_WTO = WatchdogTimeout c"

definition maccr_fields :: "mac_config \<Rightarrow> (u32 \<times> u32) list" where
  "maccr_fields c =
    [(ETH_MACCR_IPG, InterPacketGapVal c),
     (ETH_MACCR_SARC, SourceAddrControl c),
     (ETH_MACCR_IPC, shl 27 (of_bool (ChecksumOffload c))),
     (ETH_MACCR_GPSLCE, shl 23 (of_bool (GiantPacketSizeLimitControl c))),
     (ETH_MACCR_S2KP, shl 22 (of_bool (Support2KPacket c))),
     (ETH_MACCR_CST, shl 21 (of_bool (CRCStripTypePacket c))),
     (ETH_MACCR_ACS, shl 20 (of_bool (AutomaticPadCRCStrip c))),
     (ETH_MACCR_WD, shl 19 (of_bool (\<not> Watchdog c))),
     (ETH_MACCR_JD, shl 17 (of_bool (\<not> Jabber c))),
     (ETH_MACCR_JE, shl 16 (of_bool (JumboPacket c))),
     (ETH_MACCR_FES, Speed c),
     (ETH_MACCR_DM, DuplexMode c),
     (ETH_MACCR_LM, shl 12 (of_bool (LoopbackMode c))),
     (ETH_MACCR_ECRSFD, shl 11 (of_bool (CarrierSenseBeforeTransmit c))),
     (ETH_MACCR_DO, shl 10 (of_bool (\<not> ReceiveOwn c))),
     (ETH_MACCR_DCRS, shl 9 (of_bool (CarrierSenseDuringTransmit c))),
     (ETH_MACCR_DR, shl 8 (of_bool (\<not> RetryTransmission c))),
     (ETH_MACCR_BL, BackOffLimit c),
     (ETH_MACCR_DC, shl 4 (of_bool (DeferralCheck c))),
     (ETH_MACCR_PRELEN, PreambleLength c)]"

definition macecr_fields :: "mac_config \<Rightarrow> (u32 \<times> u32) list" where
  "macecr_fields c =
    [(ETH_MACECR_EIPG, shl 25 (ExtendedInterPacketGapVal c)),
     (ETH_MACECR_EIPGEN, shl 24 (of_bool (ExtendedInterPacketGap c))),
     (ETH_MACECR_USP, shl 18 (of_bool (UnicastSlowProtocolPacketDetect c))),
     (ETH_MACECR_SPEN, shl 17 (of_bool (SlowProtocolDetect c))),
     (ETH_MACECR_DCRCC, shl 16 (of_bool (\<not> CRCCheckingRxPackets c))),
     (ETH_MACECR_GPSL, GiantPacketSizeLimit c)]"

definition macwtr_fields :: "mac_config \<Rightarrow> (u32 \<times> u32) list" where
  "macwtr_fields c =
    [(ETH_MACWTR_PWE, shl 8 (of_bool (ProgrammableWatchdog c))),
     (ETH_MACWTR_WTO, WatchdogTimeout c)]"

definition mactfcr_fields :: "mac_config \<Rightarrow> (u32 \<times> u32) list" where
  "mactfcr_fields c =
    [(ETH_MACTFCR_TFE, shl 1 (of_bool (TransmitFlowControl c))),
     (ETH_MACTFCR_PLT, PauseLowThreshold c),
     (ETH_MACTFCR_DZPQ, shl 7 (of_bool (\<not> ZeroQuantaPause c))),
     (ETH_MACTFCR_PT, shl 16 (PauseTime c))]"

definition macrfcr_fields :: "mac_config \<Rightarrow> (u32 \<times> u32) list" where
  "macrfcr_fields c =
    [(ETH_MACRFCR_RFE, of_bool (ReceiveFlowControl c)),
     (ETH_MACRFCR_UP, shl 1 (of_bool (UnicastPausePacketDetect c)))]"

definition mtltqomr_fields :: "mac_config \<Rightarrow> (u32 \<times> u32) list" where
  "mtltqomr_fields c =
    [((ETH_MTLTQOMR_TTC OR ETH_MTLTQOMR_TSF), TransmitQueueMode c)]"

definition mtlrqomr_fields :: "mac_config \<Rightarrow> (u32 \<times> u32) list" where
  "mtlrqomr_fields c =
    [((ETH_MTLRQOMR_RTC OR ETH_MTLRQOMR_RSF), ReceiveQueueMode c),
     (ETH_MTLRQOMR_DISTCPEF, shl 6 (of_bool (\<not> DropTCPIPChecksumErrorPacket c))),
     (ETH_MTLRQOMR_FEP, shl 4 (of_bool (ForwardRxErrorPacket c))),
     (ETH_MTLRQOMR_FUP, shl 3 (of_bool (ForwardRxUndersizedGoodPacket c)))]"

lemmas fields_defs = maccr_fields_def macecr_fields_def macwtr_fields_def mactfcr_fields_def macrfcr_fields_def mtltqomr_fields_def mtlrqomr_fields_def
lemmas value_defs = maccr_value_def macecr_value_def macwtr_value_def mactfcr_value_def macrfcr_value_def mtlrqomr_value_def

lemma values_packed:
  "maccr_value c = pack (maccr_fields c)"
  "macecr_value c = pack (macecr_fields c)"
  "macwtr_value c = pack (macwtr_fields c)"
  "mactfcr_value c = pack (mactfcr_fields c)"
  "macrfcr_value c = pack (macrfcr_fields c)"
  "TransmitQueueMode c = pack (mtltqomr_fields c)"
  "mtlrqomr_value c = pack (mtlrqomr_fields c)"
  by (simp_all only: fields_defs value_defs pack_simps or.assoc or.right_neutral)

lemma shl_field:
  "v AND 31 = v \<Longrightarrow> shl 25 v AND 1040187392 = shl 25 v" "v AND 65535 = v \<Longrightarrow> shl 16 v AND 4294901760 = shl 16 v"
proof -
  have "shl 25 (v AND 31) = shl 25 v AND 1040187392" "shl 16 (v AND 65535) = shl 16 v AND 4294901760"
    by (simp_all add: push_bit_and)
  then show "v AND 31 = v \<Longrightarrow> shl 25 v AND 1040187392 = shl 25 v" "v AND 65535 = v \<Longrightarrow> shl 16 v AND 4294901760 = shl 16 v"
    by simp_all
qed

lemma shr_shl_field:
  "v AND 31 = v \<Longrightarrow> shr 25 (shl 25 v) = v" "v AND 65535 = v \<Longrightarrow> shr 16 (shl 16 v) = v"
proof -
  have e: "shr 25 (shl 25 v) = v" if "take_bit 5 v = v"
    using that drop_push_bit [of 25 v] take_bit_take_bit [of 7 5 v] by simp
  have p: "shr 16 (shl 16 v) = v" if "take_bit 16 v = v"
    using that drop_push_bit [of 16 v] by simp
  have "v AND 31 = take_bit 5 v" "v AND 65535 = take_bit 16 v"
    by (simp_all add: take_bit_eq_mask mask_numeral)
  then show "v AND 31 = v \<Longrightarrow> shr 25 (shl 25 v) = v" "v AND 65535 = v \<Longrightarrow> shr 16 (shl 16 v) = v"
    using e p by simp_all
qed

lemma maccr_fields_ok: "in_range c \<Longrightarrow> fields_ok (maccr_fields c)"
  by (simp add: fields_ok_def maccr_fields_def in_range_def eth_masks flag_in_field flag_in_field [of 1 0, simplified] shl_field)

lemma macecr_fields_ok: "in_range c \<Longrightarrow> fields_ok (macecr_fields c)"
  by (simp add: fields_ok_def macecr_fields_def in_range_def eth_masks flag_in_field flag_in_field [of 1 0, simplified] shl_field)

lemma macwtr_fields_ok: "in_range c \<Longrightarrow> fields_ok (macwtr_fields c)"
  by (simp add: fields_ok_def macwtr_fields_def in_range_def eth_masks flag_in_field flag_in_field [of 1 0, simplified] shl_field)

lemma mactfcr_fields_ok: "in_range c \<Longrightarrow> fields_ok (mactfcr_fields c)"
  by (simp add: fields_ok_def mactfcr_fields_def in_range_def eth_masks flag_in_field flag_in_field [of 1 0, simplified] shl_field)

lemma macrfcr_fields_ok: "in_range c \<Longrightarrow> fields_ok (macrfcr_fields c)"
  by (simp add: fields_ok_def macrfcr_fields_def in_range_def eth_masks flag_in_field flag_in_field [of 1 0, simplified] shl_field)

lemma mtltqomr_fields_ok: "in_range c \<Longrightarrow> fields_ok (mtltqomr_fields c)"
  by (simp add: fields_ok_def mtltqomr_fields_def in_range_def eth_masks flag_in_field flag_in_field [of 1 0, simplified] shl_field)

lemma mtlrqomr_fields_ok: "in_range c \<Longrightarrow> fields_ok (mtlrqomr_fields c)"
  by (simp add: fields_ok_def mtlrqomr_fields_def in_range_def eth_masks flag_in_field flag_in_field [of 1 0, simplified] shl_field)

definition new_regs :: "(eth_loc \<Rightarrow> u32) \<Rightarrow> mac_config \<Rightarrow> eth_loc \<Rightarrow> u32" where
  \<comment> \<open>the registers once a configuration has been written over \<open>R\<close>\<close>
  "new_regs R c = R(
     Reg MACCR := (R (Reg MACCR) AND NOT ETH_MACCR_MASK) OR pack (maccr_fields c),
     Reg MACECR := (R (Reg MACECR) AND NOT ETH_MACECR_MASK) OR pack (macecr_fields c),
     Reg MACWTR := (R (Reg MACWTR) AND NOT ETH_MACWTR_MASK) OR pack (macwtr_fields c),
     Reg MACTFCR := (R (Reg MACTFCR) AND NOT ETH_MACTFCR_MASK) OR pack (mactfcr_fields c),
     Reg MACRFCR := (R (Reg MACRFCR) AND NOT ETH_MACRFCR_MASK) OR pack (macrfcr_fields c),
     Reg MTLTQOMR := (R (Reg MTLTQOMR) AND NOT ETH_MTLTQOMR_MASK) OR pack (mtltqomr_fields c),
     Reg MTLRQOMR := (R (Reg MTLRQOMR) AND NOT ETH_MTLRQOMR_MASK) OR pack (mtlrqomr_fields c))"

lemma set_mac_config_after:
  assumes k: "keeps E Rs cont" and rs: "mac_regs \<subseteq> Rs" and h: "cont h = R"
    and post: "\<And>h'. cont h' = new_regs R c \<Longrightarrow> P () h'"
  shows "after (set_mac_config E c) h P"
proof -
  have in_rs: "r \<in> mac_regs \<Longrightarrow> r \<in> Rs" for r using rs by blast
  have step: "after (State_Monad.bind (MODIFY_REG E r m v) f) h1 P"
    if "r \<in> mac_regs" "cont h1 = R1" "\<And>h2. cont h2 = R1(r := (R1 r AND NOT m) OR v) \<Longrightarrow> after (f ()) h2 P" for r m v f h1 R1
    using that by (intro after_bind keeps_modify [OF k in_rs])
  show ?thesis
    unfolding set_mac_config_def using h
    apply -
    apply (rule step, simp add: mac_regs_def, assumption)+
    apply (rule keeps_modify [OF k in_rs], simp add: mac_regs_def, assumption)
    apply (rule post)
    apply (simp add: new_regs_def values_packed)
    done
qed

lemma get_mac_config_after:
  assumes k: "keeps E Rs cont" and rs: "mac_regs \<subseteq> Rs" and h: "cont h = R"
    and post: "\<And>h'. cont h' = R \<Longrightarrow> P (config_of R) h'"
  shows "after (get_mac_config E) h P"
proof -
  have in_rs: "r \<in> mac_regs \<Longrightarrow> r \<in> Rs" for r using rs by blast
  have step: "after (State_Monad.bind (READ_BIT E r m) f) h1 P"
    if "r \<in> mac_regs" "cont h1 = R" "\<And>h2. cont h2 = R \<Longrightarrow> after (f (R r AND m)) h2 P" for r m f h1
    using that by (intro after_bind keeps_read_bit [OF k in_rs]) 
  show ?thesis
    unfolding get_mac_config_def using h
    by - ((rule step, simp add: mac_regs_def, assumption)+,
        rule after_return, rule post [unfolded config_of_def], assumption)
qed

lemma maccr_read:
  fixes x :: u32
  assumes "in_range c"
  defines "v \<equiv> (x AND NOT ETH_MACCR_MASK) OR pack (maccr_fields c)"
  shows "v AND ETH_MACCR_IPG = InterPacketGapVal c"
    and "v AND ETH_MACCR_SARC = SourceAddrControl c"
    and "v AND ETH_MACCR_IPC = shl 27 (of_bool (ChecksumOffload c))"
    and "v AND ETH_MACCR_GPSLCE = shl 23 (of_bool (GiantPacketSizeLimitControl c))"
    and "v AND ETH_MACCR_S2KP = shl 22 (of_bool (Support2KPacket c))"
    and "v AND ETH_MACCR_CST = shl 21 (of_bool (CRCStripTypePacket c))"
    and "v AND ETH_MACCR_ACS = shl 20 (of_bool (AutomaticPadCRCStrip c))"
    and "v AND ETH_MACCR_WD = shl 19 (of_bool (\<not> Watchdog c))"
    and "v AND ETH_MACCR_JD = shl 17 (of_bool (\<not> Jabber c))"
    and "v AND ETH_MACCR_JE = shl 16 (of_bool (JumboPacket c))"
    and "v AND ETH_MACCR_FES = Speed c"
    and "v AND ETH_MACCR_DM = DuplexMode c"
    and "v AND ETH_MACCR_LM = shl 12 (of_bool (LoopbackMode c))"
    and "v AND ETH_MACCR_ECRSFD = shl 11 (of_bool (CarrierSenseBeforeTransmit c))"
    and "v AND ETH_MACCR_DO = shl 10 (of_bool (\<not> ReceiveOwn c))"
    and "v AND ETH_MACCR_DCRS = shl 9 (of_bool (CarrierSenseDuringTransmit c))"
    and "v AND ETH_MACCR_DR = shl 8 (of_bool (\<not> RetryTransmission c))"
    and "v AND ETH_MACCR_BL = BackOffLimit c"
    and "v AND ETH_MACCR_DC = shl 4 (of_bool (DeferralCheck c))"
    and "v AND ETH_MACCR_PRELEN = PreambleLength c"
  unfolding v_def
  by (rule packed_field [OF maccr_fields_ok [OF assms(1)]], simp add: maccr_fields_def, simp add: eth_masks)+

lemma macecr_read:
  fixes x :: u32
  assumes "in_range c"
  defines "v \<equiv> (x AND NOT ETH_MACECR_MASK) OR pack (macecr_fields c)"
  shows "v AND ETH_MACECR_EIPG = shl 25 (ExtendedInterPacketGapVal c)"
    and "v AND ETH_MACECR_EIPGEN = shl 24 (of_bool (ExtendedInterPacketGap c))"
    and "v AND ETH_MACECR_USP = shl 18 (of_bool (UnicastSlowProtocolPacketDetect c))"
    and "v AND ETH_MACECR_SPEN = shl 17 (of_bool (SlowProtocolDetect c))"
    and "v AND ETH_MACECR_DCRCC = shl 16 (of_bool (\<not> CRCCheckingRxPackets c))"
    and "v AND ETH_MACECR_GPSL = GiantPacketSizeLimit c"
  unfolding v_def
  by (rule packed_field [OF macecr_fields_ok [OF assms(1)]], simp add: macecr_fields_def, simp add: eth_masks)+

lemma macwtr_read:
  fixes x :: u32
  assumes "in_range c"
  defines "v \<equiv> (x AND NOT ETH_MACWTR_MASK) OR pack (macwtr_fields c)"
  shows "v AND ETH_MACWTR_PWE = shl 8 (of_bool (ProgrammableWatchdog c))"
    and "v AND ETH_MACWTR_WTO = WatchdogTimeout c"
  unfolding v_def
  by (rule packed_field [OF macwtr_fields_ok [OF assms(1)]], simp add: macwtr_fields_def, simp add: eth_masks)+

lemma mactfcr_read:
  fixes x :: u32
  assumes "in_range c"
  defines "v \<equiv> (x AND NOT ETH_MACTFCR_MASK) OR pack (mactfcr_fields c)"
  shows "v AND ETH_MACTFCR_TFE = shl 1 (of_bool (TransmitFlowControl c))"
    and "v AND ETH_MACTFCR_PLT = PauseLowThreshold c"
    and "v AND ETH_MACTFCR_DZPQ = shl 7 (of_bool (\<not> ZeroQuantaPause c))"
    and "v AND ETH_MACTFCR_PT = shl 16 (PauseTime c)"
  unfolding v_def
  by (rule packed_field [OF mactfcr_fields_ok [OF assms(1)]], simp add: mactfcr_fields_def, simp add: eth_masks)+

lemma macrfcr_read:
  fixes x :: u32
  assumes "in_range c"
  defines "v \<equiv> (x AND NOT ETH_MACRFCR_MASK) OR pack (macrfcr_fields c)"
  shows "v AND ETH_MACRFCR_RFE = of_bool (ReceiveFlowControl c)"
    and "v AND ETH_MACRFCR_UP = shl 1 (of_bool (UnicastPausePacketDetect c))"
  unfolding v_def
  by (rule packed_field [OF macrfcr_fields_ok [OF assms(1)]], simp add: macrfcr_fields_def, simp add: eth_masks)+

lemma mtltqomr_read:
  fixes x :: u32
  assumes "in_range c"
  defines "v \<equiv> (x AND NOT ETH_MTLTQOMR_MASK) OR pack (mtltqomr_fields c)"
  shows "v AND (ETH_MTLTQOMR_TTC OR ETH_MTLTQOMR_TSF) = TransmitQueueMode c"
  unfolding v_def
  by (rule packed_field [OF mtltqomr_fields_ok [OF assms(1)]], simp add: mtltqomr_fields_def, simp add: eth_masks)+

lemma mtlrqomr_read:
  fixes x :: u32
  assumes "in_range c"
  defines "v \<equiv> (x AND NOT ETH_MTLRQOMR_MASK) OR pack (mtlrqomr_fields c)"
  shows "v AND (ETH_MTLRQOMR_RTC OR ETH_MTLRQOMR_RSF) = ReceiveQueueMode c"
    and "v AND ETH_MTLRQOMR_DISTCPEF = shl 6 (of_bool (\<not> DropTCPIPChecksumErrorPacket c))"
    and "v AND ETH_MTLRQOMR_FEP = shl 4 (of_bool (ForwardRxErrorPacket c))"
    and "v AND ETH_MTLRQOMR_FUP = shl 3 (of_bool (ForwardRxUndersizedGoodPacket c))"
  unfolding v_def
  by (rule packed_field [OF mtlrqomr_fields_ok [OF assms(1)]], simp add: mtlrqomr_fields_def, simp add: eth_masks)+

lemmas fields_read = maccr_read macecr_read macwtr_read mactfcr_read macrfcr_read mtltqomr_read mtlrqomr_read

lemma shifted_read:
  assumes "in_range c"
  shows "shr 25 (shl 25 (ExtendedInterPacketGapVal c)) = ExtendedInterPacketGapVal c"
    and "shr 16 (shl 16 (PauseTime c)) = PauseTime c"
proof -
  have "ExtendedInterPacketGapVal c AND 31 = ExtendedInterPacketGapVal c" "PauseTime c AND 65535 = PauseTime c"
    using assms by (simp_all add: in_range_def eth_masks)
  then show "shr 25 (shl 25 (ExtendedInterPacketGapVal c)) = ExtendedInterPacketGapVal c"
    "shr 16 (shl 16 (PauseTime c)) = PauseTime c"
    using shr_shl_field by blast+
qed

lemma config_of_new_regs:
  assumes "in_range c"
  shows "config_of (new_regs R c) = c"
  by (intro mac_config.equality)
    (simp_all add: config_of_def new_regs_def fields_read [OF assms] flag_read shifted_read [OF assms] del: drop_bit_and)

section \<open>Writing a configuration back\<close>

lemma in_range_config_of: "in_range (config_of R)"
  by (simp add: in_range_def config_of_def and.assoc drop_bit_and)

definition link_mask :: u32 where
  \<comment> \<open>the bits of \<open>MACCR\<close> that a change of speed and duplex mode touches, bit 31 (not in the configuration) included\<close>
  "link_mask = ETH_MACCR_DM OR ETH_MACCR_FES OR 0x80000000"

lemma spread_maccr:
  "(r :: u32) AND 2147164028 =
    (r AND 117440512 OR
     r AND 1879048192 OR
     r AND 134217728 OR
     r AND 8388608 OR
     r AND 4194304 OR
     r AND 2097152 OR
     r AND 1048576 OR
     r AND 524288 OR
     r AND 131072 OR
     r AND 65536 OR
     r AND 4096 OR
     r AND 2048 OR
     r AND 1024 OR
     r AND 512 OR
     r AND 256 OR
     r AND 96 OR
     r AND 16 OR
     r AND 12)"
  by (simp only: bit.conj_disj_distrib [symmetric]) simp

lemma reconfigured_maccr:
  "(v AND NOT ETH_MACCR_MASK) OR maccr_value (config_of R\<lparr>DuplexMode := d, Speed := s\<rparr>) =
   (v AND NOT ETH_MACCR_MASK) OR (R (Reg MACCR) AND (ETH_MACCR_MASK AND NOT link_mask)) OR d OR s"
  by (simp add: maccr_value_def config_of_def flag_back eth_masks link_mask_def spread_maccr ac_simps del: drop_bit_and)

definition reconfigured :: "(eth_loc \<Rightarrow> u32) \<Rightarrow> u32 \<Rightarrow> u32 \<Rightarrow> eth_loc \<Rightarrow> u32" where
  \<comment> \<open>the registers once speed and duplex mode have been changed\<close>
  "reconfigured R duplex speed = R(
     Reg MACCR := (R (Reg MACCR) AND NOT link_mask) OR duplex OR speed,
     Reg MACECR := R (Reg MACECR) AND NOT 0x4000)"

lemma push_drop_mask: "push_bit n (drop_bit n (x :: u32)) = x AND NOT (mask n)"
  by (rule bit_word_eqI) (auto simp: bit_simps)

lemma same_value:
  "(v AND NOT ETH_MACECR_MASK) OR macecr_value (config_of R\<lparr>DuplexMode := d, Speed := s\<rparr>) =
     (v AND NOT ETH_MACECR_MASK) OR (R (Reg MACECR) AND (ETH_MACECR_MASK AND NOT 0x4000))"
  "macwtr_value (config_of R\<lparr>DuplexMode := d, Speed := s\<rparr>) = R (Reg MACWTR) AND ETH_MACWTR_MASK"
  "mactfcr_value (config_of R\<lparr>DuplexMode := d, Speed := s\<rparr>) = R (Reg MACTFCR) AND ETH_MACTFCR_MASK"
  "macrfcr_value (config_of R\<lparr>DuplexMode := d, Speed := s\<rparr>) = R (Reg MACRFCR) AND ETH_MACRFCR_MASK"
  "TransmitQueueMode (config_of R\<lparr>DuplexMode := d, Speed := s\<rparr>) = R (Reg MTLTQOMR) AND ETH_MTLTQOMR_MASK"
  "mtlrqomr_value (config_of R\<lparr>DuplexMode := d, Speed := s\<rparr>) = R (Reg MTLRQOMR) AND ETH_MTLRQOMR_MASK"
proof -
  have e: "(r :: u32) AND 1057439743 = (r AND 1040187392 OR r AND 16777216 OR r AND 262144 OR r AND 131072 OR r AND 65536 OR r AND 16383)" for r
    by (simp only: bit.conj_disj_distrib [symmetric]) simp
  have w: "(r :: u32) AND 271 = (r AND 256 OR r AND 15)" for r
    by (simp only: bit.conj_disj_distrib [symmetric]) simp
  have t: "(r :: u32) AND 4294902002 = (r AND 2 OR r AND 112 OR r AND 128 OR r AND 4294901760)" for r
    by (simp only: bit.conj_disj_distrib [symmetric]) simp
  have f: "(r :: u32) AND 3 = (r AND 1 OR r AND 2)" for r
    by (simp only: bit.conj_disj_distrib [symmetric]) simp
  have q: "(r :: u32) AND 123 = (r AND 35 OR r AND 64 OR r AND 16 OR r AND 8)" for r
    by (simp only: bit.conj_disj_distrib [symmetric]) simp
  note defs = value_defs config_of_def flag_back flag_back [of 1 0, simplified] eth_masks
  have p: "shl 25 (shr 25 (r AND 1040187392)) = r AND 1040187392" "shl 16 (shr 16 (r AND 4294901760)) = r AND 4294901760" for r
    by (simp_all add: push_drop_mask and.assoc mask_eq_exp_minus_1 del: drop_bit_and push_bit_and)
  show "(v AND NOT ETH_MACECR_MASK) OR macecr_value (config_of R\<lparr>DuplexMode := d, Speed := s\<rparr>) =
     (v AND NOT ETH_MACECR_MASK) OR (R (Reg MACECR) AND (ETH_MACECR_MASK AND NOT 0x4000))"
    by (simp add: defs p e ac_simps del: drop_bit_and)
  show "macwtr_value (config_of R\<lparr>DuplexMode := d, Speed := s\<rparr>) = R (Reg MACWTR) AND ETH_MACWTR_MASK"
    by (simp add: defs w ac_simps del: drop_bit_and)
  show "mactfcr_value (config_of R\<lparr>DuplexMode := d, Speed := s\<rparr>) = R (Reg MACTFCR) AND ETH_MACTFCR_MASK"
    using flag_back(1) [of 2 1 "R (Reg MACTFCR)"] by (simp add: defs p t ac_simps del: drop_bit_and)
  show "macrfcr_value (config_of R\<lparr>DuplexMode := d, Speed := s\<rparr>) = R (Reg MACRFCR) AND ETH_MACRFCR_MASK"
    using flag_back(1) [of 2 1 "R (Reg MACRFCR)"] flag_back(1) [of 1 0 "R (Reg MACRFCR)"]
    by (auto simp: defs f and.commute [of 1] split: if_splits simp del: drop_bit_and)
  show "TransmitQueueMode (config_of R\<lparr>DuplexMode := d, Speed := s\<rparr>) = R (Reg MTLTQOMR) AND ETH_MTLTQOMR_MASK"
    by (simp add: defs)
  show "mtlrqomr_value (config_of R\<lparr>DuplexMode := d, Speed := s\<rparr>) = R (Reg MTLRQOMR) AND ETH_MTLRQOMR_MASK"
    by (simp add: defs q ac_simps del: drop_bit_and)
qed

lemma new_regs_reconfigured:
  "new_regs R (config_of R\<lparr>DuplexMode := d, Speed := s\<rparr>) = reconfigured R d s"
proof -
  have m: "(v AND NOT M) OR (v AND (M AND NOT L)) = v AND NOT L" if "L AND M = L" for v M L :: u32
  proof -
    have "bit L k \<Longrightarrow> bit M k" for k using that by (metis bit_and_iff)
    then show ?thesis by (intro bit_word_eqI) (auto simp: bit_simps)
  qed
  have mo: "(v AND NOT M) OR ((v AND (M AND NOT L)) OR x) = (v AND NOT L) OR x" if "L AND M = L" for v M L x :: u32
    by (simp only: or.assoc [symmetric] m [OF that])
  have sub: "link_mask AND ETH_MACCR_MASK = link_mask" "(0x4000 :: u32) AND ETH_MACECR_MASK = 0x4000"
    by (simp_all add: link_mask_def eth_masks)
  have a: "(v AND NOT M) OR (v AND M) = v" for v M :: u32
    by (simp flip: bit.conj_disj_distrib)
  show ?thesis
    by (rule ext) (simp add: new_regs_def reconfigured_def values_packed [symmetric] reconfigured_maccr same_value mo [OF sub(1)]
        m [OF sub(2), simplified] a)
qed

end
