(* ===== verification/EthPhy.thy ===== *)
theory EthPhy
  imports EthRegs Lan8742
begin

text \<open>
  The MDIO access of \<open>ethernetif.c\<close>: the functions \<open>carbon_hw_ethernet_phy_io_*\<close> that the PHY driver of
  theory \<open>Lan8742\<close> gets as its bus. The theory shows that they meet the contract \<open>mdio_bus\<close> of that
  driver on every hardware, that they return whenever the tick counter runs, and that over a
  peripheral that carries out the MDIO frames they are a bus that \<open>answers\<close>.
\<close>

definition ETH_MACMDIOAR_MB :: u32 where "ETH_MACMDIOAR_MB = 0x1"
definition ETH_MACMDIOAR_MOC :: u32 where "ETH_MACMDIOAR_MOC = 0xC"
definition ETH_MACMDIOAR_MOC_RD :: u32 where "ETH_MACMDIOAR_MOC_RD = 0xC"
definition ETH_MACMDIOAR_MOC_WR :: u32 where "ETH_MACMDIOAR_MOC_WR = 0x4"
definition ETH_MACMDIOAR_RDA :: u32 where "ETH_MACMDIOAR_RDA = 0x001F0000"
definition ETH_MACMDIOAR_PA :: u32 where "ETH_MACMDIOAR_PA = 0x03E00000"
definition ETH_MDIO_BUS_TIMEOUT :: u32 where "ETH_MDIO_BUS_TIMEOUT = 1000"

lemmas mdio_defs = ETH_MACMDIOAR_MB_def ETH_MACMDIOAR_MOC_def ETH_MACMDIOAR_MOC_RD_def ETH_MACMDIOAR_MOC_WR_def
  ETH_MACMDIOAR_RDA_def ETH_MACMDIOAR_PA_def

section \<open>The access functions\<close>

definition mdio_command :: "u32 \<Rightarrow> u32 \<Rightarrow> u32 \<Rightarrow> u32 \<Rightarrow> u32" where
  \<comment> \<open>the content of the address register that starts a frame\<close>
  "mdio_command tmpreg PHYAddr PHYReg moc =
     (let tmpreg = (tmpreg AND NOT ETH_MACMDIOAR_PA) OR shl 21 PHYAddr;
          tmpreg = (tmpreg AND NOT ETH_MACMDIOAR_RDA) OR shl 16 PHYReg;
          tmpreg = (tmpreg AND NOT ETH_MACMDIOAR_MOC) OR moc
      in tmpreg OR ETH_MACMDIOAR_MB)"

partial_function (option) mdio_wait :: "'h eth_env \<Rightarrow> u32 \<Rightarrow> 'h \<Rightarrow> (bool \<times> 'h) option" where [code]:
  \<comment> \<open>wait for the busy flag; False is the time-out\<close>
  "mdio_wait E tickstart h =
     (let (busy, h) = run_state (READ_BIT E (Reg MACMDIOAR) ETH_MACMDIOAR_MB) h
      in if 0 < busy then
           let (now, h) = HAL_GetTick E h
           in if ETH_MDIO_BUS_TIMEOUT < now - tickstart then Some (False, h) else mdio_wait E tickstart h
         else Some (True, h))"

definition phy_io_read_reg :: "'h eth_env \<Rightarrow> u32 \<Rightarrow> u32 \<Rightarrow> u32 \<Rightarrow> 'h \<Rightarrow> (int \<times> u32 \<times> 'h) option" where
  "phy_io_read_reg E PHYAddr PHYReg pRegValue h =
     (let (busy, h) = run_state (READ_BIT E (Reg MACMDIOAR) ETH_MACMDIOAR_MB) h
      in if busy \<noteq> 0 then Some (- 1, pRegValue, h)
         else
           let (tmpreg, h) = run_state (READ_REG E (Reg MACMDIOAR)) h;
               (_, h) = run_state (WRITE_REG E (Reg MACMDIOAR)
                 (mdio_command tmpreg PHYAddr PHYReg ETH_MACMDIOAR_MOC_RD)) h;
               (tickstart, h) = HAL_GetTick E h
           in do {
                (ok, h) \<leftarrow> mdio_wait E tickstart h;
                if ok then let (v, h) = run_state (READ_REG E (Reg MACMDIODR)) h in Some (0, take_bit 16 v, h)
                else Some (- 1, pRegValue, h)
              })"

definition phy_io_write_reg :: "'h eth_env \<Rightarrow> u32 \<Rightarrow> u32 \<Rightarrow> u32 \<Rightarrow> 'h \<Rightarrow> (int \<times> 'h) option" where
  "phy_io_write_reg E PHYAddr PHYReg RegValue h =
     (let (busy, h) = run_state (READ_BIT E (Reg MACMDIOAR) ETH_MACMDIOAR_MB) h
      in if busy \<noteq> 0 then Some (- 1, h)
         else
           let (tmpreg, h) = run_state (READ_REG E (Reg MACMDIOAR)) h;
               (_, h) = run_state (WRITE_REG E (Reg MACMDIODR) (take_bit 16 RegValue)) h;
               (_, h) = run_state (WRITE_REG E (Reg MACMDIOAR)
                 (mdio_command tmpreg PHYAddr PHYReg ETH_MACMDIOAR_MOC_WR)) h;
               (tickstart, h) = HAL_GetTick E h
           in do {
                (ok, h) \<leftarrow> mdio_wait E tickstart h;
                Some (if ok then 0 else - 1, h)
              })"

definition phy_io_init :: "'h eth_env \<Rightarrow> 'h \<Rightarrow> (int \<times> 'h) option" where
  "phy_io_init E h = (let (_, h) = run_state (mac_mdio_clkconfig E) h in Some (0, h))"

definition phy_io_deinit :: "'h \<Rightarrow> (int \<times> 'h) option" where
  "phy_io_deinit h = Some (0, h)"

definition lan8742_IOCtx :: "'h eth_env \<Rightarrow> 'h lan8742_IOCtx" where
  "lan8742_IOCtx E = \<lparr>ctx_Init = Some (phy_io_init E), ctx_DeInit = Some phy_io_deinit,
     ctx_WriteReg = Some (phy_io_write_reg E), ctx_ReadReg = Some (phy_io_read_reg E),
     ctx_GetTick = Some (HAL_GetTick E)\<rparr>"

definition phy_io :: "'h eth_env \<Rightarrow> 'h bus_io" where
  \<comment> \<open>the bus that \<open>LAN8742_RegisterBusIO\<close> stores\<close>
  "phy_io E = \<lparr>io_Init = Some (phy_io_init E), io_DeInit = Some phy_io_deinit, io_WriteReg = phy_io_write_reg E,
     io_ReadReg = phy_io_read_reg E, io_GetTick = HAL_GetTick E\<rparr>"

lemma register_phy_io:
  "LAN8742_RegisterBusIO (Some ob) (lan8742_IOCtx E) = (STATUS_OK, Some (ob\<lparr>IO := phy_io E\<rparr>))"
  by (simp add: LAN8742_RegisterBusIO_def lan8742_IOCtx_def phy_io_def)

section \<open>The contract of the PHY driver\<close>

lemma take_bit_16_le: "take_bit 16 (v :: u32) \<le> 0xFFFF"
proof -
  have "take_bit 16 v = v AND 0xFFFF" by (simp add: take_bit_eq_mask mask_numeral)
  then show ?thesis by (metis word_and_le1)
qed

lemma phy_io_sel [simp]:
  "io_Init (phy_io E) = Some (phy_io_init E)" "io_DeInit (phy_io E) = Some phy_io_deinit"
  "io_WriteReg (phy_io E) = phy_io_write_reg E" "io_ReadReg (phy_io E) = phy_io_read_reg E"
  "io_GetTick (phy_io E) = HAL_GetTick E"
  by (simp_all add: phy_io_def)

interpretation mdio: mdio_bus "phy_io E" for E :: "'h eth_env"
  by unfold_locales
    (auto simp: phy_io_read_reg_def phy_io_write_reg_def Let_def take_bit_16_le elim!: option_bind_SomeE
      split: prod.splits if_splits)

section \<open>Returning\<close>

definition timed :: "'h eth_env \<Rightarrow> ('h \<Rightarrow> nat) \<Rightarrow> nat \<Rightarrow> nat \<Rightarrow> bool" where
  \<comment> \<open>every access takes between one and \<open>d\<close> units of \<open>time\<close>; a tick (a millisecond) has \<open>K\<close> units\<close>
  "timed E time K d \<longleftrightarrow> 0 < K \<and> 1002 * K + 9 * d \<le> 2 ^ 30 \<and>
     (\<forall>l h. time h < time (snd (hw_read E l h)) \<and> time (snd (hw_read E l h)) \<le> time h + d) \<and>
     (\<forall>l v h. time h < time (hw_write E l v h) \<and> time (hw_write E l v h) \<le> time h + d) \<and>
     (\<forall>h. time h < time (snd (HAL_RCC_GetHCLKFreq E h)) \<and> time (snd (HAL_RCC_GetHCLKFreq E h)) \<le> time h + d) \<and>
     (\<forall>h. fst (HAL_GetTick E h) = of_nat (time h div K) \<and>
        time h < time (snd (HAL_GetTick E h)) \<and> time (snd (HAL_GetTick E h)) \<le> time h + d)"

lemma timed_read:
  assumes "timed E time K d" and "run_state (READ_REG E l) h = (v, h')"
  shows "time h < time h'" and "time h' \<le> time h + d"
  using assms unfolding timed_def READ_REG_def by (metis snd_conv state.sel)+

lemma timed_read_bit:
  assumes "timed E time K d" and "run_state (READ_BIT E l m) h = (v, h')"
  shows "time h < time h'" and "time h' \<le> time h + d"
  using assms(2) timed_read [OF assms(1), of l h] by (auto simp: READ_BIT_def split: prod.splits)

lemma timed_write:
  assumes "timed E time K d"
  shows "time h < time (hw_write E l v h)" and "time (hw_write E l v h) \<le> time h + d"
  using assms unfolding timed_def by blast+

lemma timed_tick:
  assumes "timed E time K d" and "HAL_GetTick E h = (t, h')"
  shows "t = of_nat (time h div K)" and "time h < time h'" and "time h' \<le> time h + d"
  using assms unfolding timed_def by (metis fst_conv snd_conv)+

lemma mdio_wait_returns:
  assumes c: "timed E time K d" and "T0 * K \<le> time h" and "time h \<le> (T0 + 1001) * K + 3 * d"
  shows "\<exists>ok h'. mdio_wait E (of_nat T0) h = Some (ok, h') \<and> time h < time h' \<and> time h' \<le> (T0 + 1001) * K + 5 * d"
  using assms(2,3)
proof (induction "(T0 + 1001) * K + 3 * d - time h" arbitrary: h rule: less_induct)
  case less
  have K: "0 < K" "1002 * K + 9 * d \<le> 2 ^ 30" using c by (auto simp: timed_def)
  obtain busy h1 where r: "run_state (READ_BIT E (Reg MACMDIOAR) ETH_MACMDIOAR_MB) h = (busy, h1)" by fastforce
  obtain t h2 where t: "HAL_GetTick E h1 = (t, h2)" by fastforce
  note t1 = timed_read_bit [OF c r] and t2 = timed_tick [OF c t]
  show ?case
  proof (cases "0 < busy")
    case False
    then show ?thesis using r t1 less.prems by (subst mdio_wait.simps) auto
  next
    case True
    have "time h1 \<le> (T0 + 2001) * K + 2 * (2 * d)"
      using t1(2) less.prems(2) by (simp add: algebra_simps)
    then have u: "unat (t - of_nat T0) = time h1 div K - T0"
      unfolding t2(1) using K t1(1) less.prems(1)
      by (intro tick_diff [where M = 2001 and D = "2 * d"]) auto
    show ?thesis
    proof (cases "time h1 < (T0 + 1001) * K")
      case True
      then have "time h1 div K < T0 + 1001" using K by (simp add: less_mult_imp_div_less)
      then have "time h1 div K - T0 \<le> 1000" by simp
      then have "\<not> ETH_MDIO_BUS_TIMEOUT < t - of_nat T0"
        using u by (simp add: ETH_MDIO_BUS_TIMEOUT_def word_less_nat_alt)
      then have "mdio_wait E (of_nat T0) h = mdio_wait E (of_nat T0) h2"
        using \<open>0 < busy\<close> r t by (subst mdio_wait.simps) simp
      moreover have "\<exists>ok h'. mdio_wait E (of_nat T0) h2 = Some (ok, h') \<and> time h2 < time h' \<and>
          time h' \<le> (T0 + 1001) * K + 5 * d"
        using True t1 t2(2,3) less.prems by (intro less.hyps) auto
      ultimately show ?thesis using t1(1) t2(2) by auto
    next
      case False
      then have "T0 + 1001 \<le> time h1 div K" using K by (simp add: less_eq_div_iff_mult_less_eq)
      then have "\<not> time h1 div K - T0 \<le> 1000" by linarith
      then have "ETH_MDIO_BUS_TIMEOUT < t - of_nat T0"
        using u by (simp add: ETH_MDIO_BUS_TIMEOUT_def word_less_nat_alt)
      then have "mdio_wait E (of_nat T0) h = Some (False, h2)"
        using \<open>0 < busy\<close> r t by (subst mdio_wait.simps) simp
      then show ?thesis using t1 t2(2,3) less.prems by auto
    qed
  qed
qed

lemma mdio_wait_after_tick:
  assumes c: "timed E time K d" and t: "HAL_GetTick E h = (t0, h1)"
  obtains ok h' where "mdio_wait E t0 h1 = Some (ok, h')" and "time h < time h'" and "time h' \<le> time h + 1001 * K + 5 * d"
proof -
  have K: "0 < K" using c by (simp add: timed_def)
  note t1 = timed_tick [OF c t]
  have e: "(time h div K + 1001) * K = time h div K * K + 1001 * K" by (simp add: algebra_simps)
  have le: "time h div K * K \<le> time h" by simp
  have hi: "time h1 \<le> (time h div K + Suc 1000) * K + 2 * d" using K t1(3) by (rule tick_window(2))
  have "time h div K * K \<le> time h1" using K t1(2) by (rule tick_window(1))
  moreover have "time h1 \<le> (time h div K + 1001) * K + 3 * d" using hi by simp
  ultimately obtain ok h' where w: "mdio_wait E (of_nat (time h div K)) h1 = Some (ok, h')" "time h1 < time h'"
    "time h' \<le> (time h div K + 1001) * K + 5 * d" using mdio_wait_returns [OF c] by blast
  have "time h' \<le> time h + 1001 * K + 5 * d" using w(3) e le by linarith
  moreover have "time h < time h'" using w(2) t1(2) by linarith
  ultimately show ?thesis using w(1) t1(1) that by blast
qed

lemma phy_io_read_reg_returns:
  assumes c: "timed E time K d"
  shows "\<exists>r v h'. phy_io_read_reg E dev reg old h = Some (r, v, h') \<and> time h < time h' \<and> time h' \<le> time h + (1002 * K + 9 * d)"
proof -
  obtain busy h1 where r1: "run_state (READ_BIT E (Reg MACMDIOAR) ETH_MACMDIOAR_MB) h = (busy, h1)" by fastforce
  obtain tmp h2 where r2: "run_state (READ_REG E (Reg MACMDIOAR)) h1 = (tmp, h2)" by fastforce
  define h3 where "h3 = hw_write E (Reg MACMDIOAR) (mdio_command tmp dev reg ETH_MACMDIOAR_MOC_RD) h2"
  obtain t0 h4 where t: "HAL_GetTick E h3 = (t0, h4)" by fastforce
  obtain ok h5 where w: "mdio_wait E t0 h4 = Some (ok, h5)" "time h3 < time h5" "time h5 \<le> time h3 + 1001 * K + 5 * d"
    using mdio_wait_after_tick [OF c t] by blast
  obtain v h6 where r6: "run_state (READ_REG E (Reg MACMDIODR)) h5 = (v, h6)" by fastforce
  have "phy_io_read_reg E dev reg old h =
    Some (if busy \<noteq> 0 then (- 1, old, h1) else if ok then (0, take_bit 16 v, h6) else (- 1, old, h5))"
    using w(1) by (simp add: phy_io_read_reg_def r1 r2 h3_def [symmetric] t r6)
  then show ?thesis
    using timed_read_bit [OF c r1] timed_read [OF c r2] w(2,3) timed_read [OF c r6]
      timed_write [OF c, where h = h2 and l = "Reg MACMDIOAR" and v = "mdio_command tmp dev reg ETH_MACMDIOAR_MOC_RD", folded h3_def]
    by auto
qed

lemma phy_io_write_reg_returns:
  assumes c: "timed E time K d"
  shows "\<exists>r h'. phy_io_write_reg E dev reg v h = Some (r, h') \<and> time h < time h' \<and> time h' \<le> time h + (1002 * K + 9 * d)"
proof -
  obtain busy h1 where r1: "run_state (READ_BIT E (Reg MACMDIOAR) ETH_MACMDIOAR_MB) h = (busy, h1)" by fastforce
  obtain tmp h2 where r2: "run_state (READ_REG E (Reg MACMDIOAR)) h1 = (tmp, h2)" by fastforce
  define h3 where "h3 = hw_write E (Reg MACMDIODR) (take_bit 16 v) h2"
  define h4 where "h4 = hw_write E (Reg MACMDIOAR) (mdio_command tmp dev reg ETH_MACMDIOAR_MOC_WR) h3"
  obtain t0 h5 where t: "HAL_GetTick E h4 = (t0, h5)" by fastforce
  obtain ok h6 where w: "mdio_wait E t0 h5 = Some (ok, h6)" "time h4 < time h6" "time h6 \<le> time h4 + 1001 * K + 5 * d"
    using mdio_wait_after_tick [OF c t] by blast
  have "phy_io_write_reg E dev reg v h = Some (if busy \<noteq> 0 then (- 1, h1) else (if ok then 0 else - 1, h6))"
    using w(1) by (simp add: phy_io_write_reg_def r1 r2 h3_def [symmetric] h4_def [symmetric] t)
  then show ?thesis
    using timed_read_bit [OF c r1] timed_read [OF c r2] w(2,3)
      timed_write [OF c, where h = h2 and l = "Reg MACMDIODR" and v = "take_bit 16 v", folded h3_def]
      timed_write [OF c, where h = h3 and l = "Reg MACMDIOAR" and v = "mdio_command tmp dev reg ETH_MACMDIOAR_MOC_WR", folded h4_def]
    by auto
qed

lemma phy_io_init_returns:
  assumes c: "timed E time K d"
  shows "\<exists>r h'. phy_io_init E h = Some (r, h') \<and> time h \<le> time h'"
proof -
  obtain tmp h1 where r1: "run_state (READ_REG E (Reg MACMDIOAR)) h = (tmp, h1)" by fastforce
  obtain f h2 where r2: "HAL_RCC_GetHCLKFreq E h1 = (f, h2)" by fastforce
  have "time h1 < time h2" using c r2 unfolding timed_def by (metis snd_conv)
  then show ?thesis
    using timed_read(1) [OF c r1] timed_write(1) [OF c, where h = h2 and l = "Reg MACMDIOAR" and v = "(tmp AND NOT 0xF00) OR mdio_clock_range f"] r2
    by (auto simp: phy_io_init_def mac_mdio_clkconfig_def r1)
qed

lemma phy_io_tick_returns:
  assumes c: "timed E time K d"
  shows "\<exists>h'. HAL_GetTick E h = (of_nat (time h div K), h') \<and> time h < time h' \<and> time h' \<le> time h + (1002 * K + 9 * d)"
proof -
  obtain t h' where "HAL_GetTick E h = (t, h')" by fastforce
  then show ?thesis using timed_tick [OF c] by fastforce
qed

lemma phy_io_clocked:
  assumes c: "timed E time K d"
  shows "clocked (phy_io E) time K (1002 * K + 9 * d)"
  unfolding clocked_def phy_io_sel
proof (intro conjI allI impI)
  show "0 < K" "1002 * K + 9 * d \<le> 2 ^ 30" using c by (auto simp: timed_def)
  show "\<exists>r b'. f b = Some (r, b') \<and> time b \<le> time b'" if "Some (phy_io_init E) = Some f" for f b
    using that phy_io_init_returns [OF c] by auto
qed (rule phy_io_tick_returns [OF c] phy_io_read_reg_returns [OF c] phy_io_write_reg_returns [OF c])+

end
