(* ===== verification/EthMdio.thy ===== *)
theory EthMdio
  imports EthPhy
begin

text \<open>
  A peripheral that carries out MDIO frames, as the reference manual of the controller describes it: a write
  of the address register with the busy flag starts a frame, the flag stays set for a number of polls,
  and the frame then has read the addressed register of the addressed device into the data register or
  written the data register to it. Over such a peripheral the access functions of \<open>ethernetif.c\<close> are a
  bus that \<open>answers\<close> (theory \<open>Lan8742\<close>).
\<close>

datatype mdio_phase = Idle u32 | Busy nat u32 u32  \<comment> \<open>data register; polls left, command, data register\<close>

definition frame_result :: "u32 \<Rightarrow> u32 \<Rightarrow> (u32 \<Rightarrow> u32 \<Rightarrow> u32) \<Rightarrow> u32 \<times> (u32 \<Rightarrow> u32 \<Rightarrow> u32)" where
  \<comment> \<open>the data register and the device registers after the frame of a command\<close>
  "frame_result c d R =
     (let dev = shr 21 (c AND ETH_MACMDIOAR_PA); reg = shr 16 (c AND ETH_MACMDIOAR_RDA)
      in if c AND ETH_MACMDIOAR_MOC = ETH_MACMDIOAR_MOC_RD then (R dev reg, R)
         else (d, R(dev := (R dev)(reg := take_bit 16 d))))"

record 'h mdio_view =
  phase :: "'h \<Rightarrow> mdio_phase"
  regs :: "'h \<Rightarrow> u32 \<Rightarrow> u32 \<Rightarrow> u32"
  tick :: "'h \<Rightarrow> nat"

definition steps_to :: "'h mdio_view \<Rightarrow> 'h \<Rightarrow> 'h \<Rightarrow> mdio_phase \<Rightarrow> bool" where
  \<comment> \<open>the phase after an access that leaves the devices alone; the tick counter may advance by one\<close>
  "steps_to V h h' p \<longleftrightarrow> phase V h' = p \<and> regs V h' = regs V h \<and> tick V h \<le> tick V h' \<and> tick V h' \<le> Suc (tick V h)"

definition mdio_idle_law :: "'h eth_env \<Rightarrow> 'h mdio_view \<Rightarrow> nat \<Rightarrow> bool" where
  "mdio_idle_law E V N \<longleftrightarrow> (\<forall>h d. phase V h = Idle d \<longrightarrow>
     (\<exists>v h'. hw_read E (Reg MACMDIOAR) h = (v, h') \<and> v AND ETH_MACMDIOAR_MB = 0 \<and> steps_to V h h' (Idle d)) \<and>
     (\<exists>v h'. hw_read E (Reg MACMDIODR) h = (v, h') \<and> take_bit 16 v = take_bit 16 d \<and> steps_to V h h' (Idle d)) \<and>
     (\<forall>v. steps_to V h (hw_write E (Reg MACMDIODR) v h) (Idle v)) \<and>
     (\<forall>v. v AND ETH_MACMDIOAR_MB = 0 \<longrightarrow> steps_to V h (hw_write E (Reg MACMDIOAR) v h) (Idle d)) \<and>
     (\<forall>v. v AND ETH_MACMDIOAR_MB \<noteq> 0 \<longrightarrow> (\<exists>n\<le>N. steps_to V h (hw_write E (Reg MACMDIOAR) v h) (Busy n v d))))"

definition mdio_busy_law :: "'h eth_env \<Rightarrow> 'h mdio_view \<Rightarrow> bool" where
  "mdio_busy_law E V \<longleftrightarrow>
     (\<forall>h n c d. phase V h = Busy (Suc n) c d \<longrightarrow>
        (\<exists>v h'. hw_read E (Reg MACMDIOAR) h = (v, h') \<and> 0 < v AND ETH_MACMDIOAR_MB \<and> steps_to V h h' (Busy n c d))) \<and>
     (\<forall>h c d. phase V h = Busy 0 c d \<longrightarrow>
        (\<exists>v h' d'. hw_read E (Reg MACMDIOAR) h = (v, h') \<and> v AND ETH_MACMDIOAR_MB = 0 \<and> phase V h' = Idle d' \<and>
           tick V h \<le> tick V h' \<and> tick V h' \<le> Suc (tick V h) \<and>
           (c AND ETH_MACMDIOAR_MOC = ETH_MACMDIOAR_MOC_RD \<or> d AND BCR_SOFT_RESET = 0 \<longrightarrow>
              (d', regs V h') = frame_result c d (regs V h))))"

definition mdio_hw :: "'h eth_env \<Rightarrow> 'h mdio_view \<Rightarrow> nat \<Rightarrow> bool" where
  \<comment> \<open>a frame takes at most \<open>N\<close> polls, which is too fast for the time-out of the driver\<close>
  "mdio_hw E V N \<longleftrightarrow> N \<le> 400 \<and> mdio_idle_law E V N \<and> mdio_busy_law E V \<and>
     (\<forall>h dev reg. regs V h dev reg AND 0xFFFF = regs V h dev reg) \<and>
     (\<forall>h. \<exists>h'. HAL_GetTick E h = (of_nat (tick V h), h') \<and> steps_to V h h' (phase V h)) \<and>
     (\<forall>h. \<exists>f h'. HAL_RCC_GetHCLKFreq E h = (f, h') \<and> steps_to V h h' (phase V h))"

definition bus_idle :: "'h mdio_view \<Rightarrow> 'h \<Rightarrow> bool" where
  "bus_idle V h \<longleftrightarrow> (\<exists>d. phase V h = Idle d)"

section \<open>The command word\<close>

lemma and_31:
  assumes "v \<le> (31 :: u32)"
  shows "v AND 31 = v"
proof -
  have "uint v < 2 ^ 5" using assms by (simp add: word_le_def)
  then have "v AND mask 5 = v" by (simp only: mask_eq_iff)
  then show ?thesis by (simp add: mask_numeral)
qed

lemma shl_field_word:
  assumes "v \<le> 31"
  shows "shl 21 v AND ETH_MACMDIOAR_PA = shl 21 v" and "shl 16 v AND ETH_MACMDIOAR_RDA = shl 16 v"
    and "shr 21 (shl 21 v) = v" and "shr 16 (shl 16 v) = v"
proof -
  have "shl 21 (v AND 31) = shl 21 v AND ETH_MACMDIOAR_PA" "shl 16 (v AND 31) = shl 16 v AND ETH_MACMDIOAR_RDA"
    by (simp_all add: push_bit_and mdio_defs)
  then show "shl 21 v AND ETH_MACMDIOAR_PA = shl 21 v" "shl 16 v AND ETH_MACMDIOAR_RDA = shl 16 v"
    using and_31 [OF assms] by simp_all
  have "v AND 31 = take_bit 5 v" by (simp add: take_bit_eq_mask mask_numeral)
  then have t: "take_bit 5 v = v" using and_31 [OF assms] by simp
  then show "shr 21 (shl 21 v) = v" "shr 16 (shl 16 v) = v"
    using drop_push_bit [of 21 v] drop_push_bit [of 16 v] take_bit_take_bit [of 11 5 v] take_bit_take_bit [of 16 5 v]
    by simp_all
qed

lemma mdio_command_fields:
  fixes tmpreg dev reg moc :: u32
  assumes "dev \<le> 31" and "reg \<le> 31" and "moc AND ETH_MACMDIOAR_MOC = moc"
  defines "c \<equiv> mdio_command tmpreg dev reg moc"
  shows "shr 21 (c AND ETH_MACMDIOAR_PA) = dev" and "shr 16 (c AND ETH_MACMDIOAR_RDA) = reg"
    and "c AND ETH_MACMDIOAR_MOC = moc" and "c AND ETH_MACMDIOAR_MB = ETH_MACMDIOAR_MB"
    and "c AND 0xF00 = tmpreg AND 0xF00"
proof -
  note dev = shl_field_word [OF assms(1)] and reg = shl_field_word [OF assms(2)]
  have out: "shl 21 dev AND m = 0" if "ETH_MACMDIOAR_PA AND m = 0" for m
    using dev(1) that by (rule masked_outside)
  have outr: "shl 16 reg AND m = 0" if "ETH_MACMDIOAR_RDA AND m = 0" for m
    using reg(2) that by (rule masked_outside)
  have outm: "moc AND m = 0" if "ETH_MACMDIOAR_MOC AND m = 0" for m
    using assms(3) that by (rule masked_outside)
  have z: "(x AND NOT k) AND m = x AND (NOT k AND m)" for x k m :: u32 by (simp add: and.assoc)
  have "c AND ETH_MACMDIOAR_PA = shl 21 dev" "c AND ETH_MACMDIOAR_RDA = shl 16 reg" "c AND ETH_MACMDIOAR_MOC = moc"
    "c AND ETH_MACMDIOAR_MB = ETH_MACMDIOAR_MB" "c AND 0xF00 = tmpreg AND 0xF00"
    using dev(1) reg(2) assms(3) out outr outm
    by (simp_all add: c_def mdio_command_def Let_def bit.conj_disj_distrib2 and.assoc mdio_defs)
  then show "shr 21 (c AND ETH_MACMDIOAR_PA) = dev" "shr 16 (c AND ETH_MACMDIOAR_RDA) = reg"
    "c AND ETH_MACMDIOAR_MOC = moc" "c AND ETH_MACMDIOAR_MB = ETH_MACMDIOAR_MB" "c AND 0xF00 = tmpreg AND 0xF00"
    using dev(3) reg(4) by simp_all
qed

section \<open>A frame\<close>

lemma mdio_wait_frame:
  assumes hw: "mdio_hw E V N" and "phase V h = Busy n c d" and "tick V h + 2 * n \<le> T0 + 1000" and "T0 \<le> tick V h"
    and ok: "c AND ETH_MACMDIOAR_MOC = ETH_MACMDIOAR_MOC_RD \<or> d AND BCR_SOFT_RESET = 0"
  shows "\<exists>h' d'. mdio_wait E (of_nat T0) h = Some (True, h') \<and> phase V h' = Idle d' \<and>
    (d', regs V h') = frame_result c d (regs V h)"
  using assms(2-4)
proof (induction n arbitrary: h)
  case 0
  then obtain v h' d' where "hw_read E (Reg MACMDIOAR) h = (v, h')" "v AND ETH_MACMDIOAR_MB = 0" "phase V h' = Idle d'"
    "(d', regs V h') = frame_result c d (regs V h)"
    using hw ok unfolding mdio_hw_def mdio_busy_law_def by meson
  then show ?case
    by (subst mdio_wait.simps) (simp add: READ_BIT_def READ_REG_def)
next
  case (Suc n)
  then obtain v h1 where r: "hw_read E (Reg MACMDIOAR) h = (v, h1)" "0 < v AND ETH_MACMDIOAR_MB"
    "steps_to V h h1 (Busy n c d)"
    using hw unfolding mdio_hw_def mdio_busy_law_def by meson
  obtain h2 where t: "HAL_GetTick E h1 = (of_nat (tick V h1), h2)" "steps_to V h1 h2 (phase V h1)"
    using hw unfolding mdio_hw_def by meson
  have b: "tick V h1 - T0 \<le> 1000" "T0 \<le> tick V h1" using Suc.prems r(3) by (auto simp: steps_to_def)
  have "unat ((of_nat (tick V h1) :: u32) - of_nat T0) = tick V h1 - T0"
    using b by (simp flip: of_nat_diff add: unat_of_nat take_bit_eq_mod)
  then have "\<not> ETH_MDIO_BUS_TIMEOUT < of_nat (tick V h1) - of_nat T0"
    using b by (simp add: ETH_MDIO_BUS_TIMEOUT_def word_less_nat_alt)
  then have "mdio_wait E (of_nat T0) h = mdio_wait E (of_nat T0) h2"
    using r t by (subst mdio_wait.simps) (simp add: READ_BIT_def READ_REG_def)
  moreover have "phase V h2 = Busy n c d" "tick V h2 + 2 * n \<le> T0 + 1000" "T0 \<le> tick V h2" "regs V h2 = regs V h"
    using Suc.prems r(3) t(2) by (auto simp: steps_to_def)
  ultimately show ?case using Suc.IH [of h2] by simp
qed

lemma mdio_idle:
  assumes "mdio_hw E V N" and "phase V h = Idle d"
  shows "\<exists>v h'. hw_read E (Reg MACMDIOAR) h = (v, h') \<and> v AND ETH_MACMDIOAR_MB = 0 \<and> steps_to V h h' (Idle d)"
    and "\<exists>v h'. hw_read E (Reg MACMDIODR) h = (v, h') \<and> take_bit 16 v = take_bit 16 d \<and> steps_to V h h' (Idle d)"
    and "steps_to V h (hw_write E (Reg MACMDIODR) v h) (Idle v)"
    and "v AND ETH_MACMDIOAR_MB = 0 \<Longrightarrow> steps_to V h (hw_write E (Reg MACMDIOAR) v h) (Idle d)"
    and "v AND ETH_MACMDIOAR_MB \<noteq> 0 \<Longrightarrow> \<exists>n\<le>N. steps_to V h (hw_write E (Reg MACMDIOAR) v h) (Busy n v d)"
  using assms by (simp_all add: mdio_hw_def mdio_idle_law_def)

lemma mdio_start:
  assumes hw: "mdio_hw E V N" and i: "phase V h = Idle d" and mb: "c AND ETH_MACMDIOAR_MB \<noteq> 0"
    and ok: "c AND ETH_MACMDIOAR_MOC = ETH_MACMDIOAR_MOC_RD \<or> d AND BCR_SOFT_RESET = 0"
    and t: "HAL_GetTick E (hw_write E (Reg MACMDIOAR) c h) = (t0, h1)"
  shows "\<exists>h' d'. mdio_wait E t0 h1 = Some (True, h') \<and> phase V h' = Idle d' \<and> (d', regs V h') = frame_result c d (regs V h)"
proof -
  let ?h = "hw_write E (Reg MACMDIOAR) c h"
  obtain n where n: "n \<le> N" "steps_to V h ?h (Busy n c d)"
    using mdio_idle(5) [OF hw i mb] by blast
  have t1: "t0 = of_nat (tick V ?h)" "steps_to V ?h h1 (phase V ?h)"
    using hw t unfolding mdio_hw_def by (metis prod.inject)+
  have "n \<le> 400" using n hw by (simp add: mdio_hw_def)
  then show ?thesis
    using mdio_wait_frame [OF hw, of h1 n c d "tick V ?h"] n(2) t1 ok by (simp add: steps_to_def)
qed

lemma mdio_idle_reads:
  assumes "mdio_hw E V N" and "phase V h = Idle d"
  obtains v h' where "run_state (READ_REG E (Reg MACMDIOAR)) h = (v, h')" and "v AND ETH_MACMDIOAR_MB = 0"
    and "phase V h' = Idle d" and "regs V h' = regs V h"
proof -
  obtain v h' where "hw_read E (Reg MACMDIOAR) h = (v, h')" "v AND ETH_MACMDIOAR_MB = 0" "steps_to V h h' (Idle d)"
    using mdio_idle(1) [OF assms] by blast
  then show ?thesis using that by (simp add: READ_REG_def steps_to_def)
qed

lemma frame_read:
  assumes "dev \<le> 31" and "reg \<le> 31"
  shows "frame_result (mdio_command tmpreg dev reg ETH_MACMDIOAR_MOC_RD) d R = (R dev reg, R)"
  using mdio_command_fields [OF assms, of ETH_MACMDIOAR_MOC_RD tmpreg]
  by (simp add: frame_result_def Let_def ETH_MACMDIOAR_MOC_RD_def ETH_MACMDIOAR_MOC_def)

lemma frame_write:
  assumes "dev \<le> 31" and "reg \<le> 31"
  shows "frame_result (mdio_command tmpreg dev reg ETH_MACMDIOAR_MOC_WR) d R = (d, R(dev := (R dev)(reg := take_bit 16 d)))"
  using mdio_command_fields [OF assms, of ETH_MACMDIOAR_MOC_WR tmpreg]
  by (simp add: frame_result_def Let_def ETH_MACMDIOAR_MOC_WR_def ETH_MACMDIOAR_MOC_RD_def ETH_MACMDIOAR_MOC_def)

lemma command_starts: "mdio_command tmpreg dev reg moc AND ETH_MACMDIOAR_MB \<noteq> 0"
  by (simp add: mdio_command_def Let_def bit.conj_disj_distrib2 mdio_defs)

lemma take_16: "take_bit 16 (v :: u32) = v AND 0xFFFF"
  by (simp add: take_bit_eq_mask mask_numeral)

lemma phy_io_read_frame:
  assumes hw: "mdio_hw E V N" and i: "bus_idle V h" and dev: "dev \<le> 31" and reg: "reg \<le> 31"
  shows "\<exists>h'. bus_idle V h' \<and> regs V h' = regs V h \<and> phy_io_read_reg E dev reg old h = Some (0, regs V h dev reg, h')"
proof -
  obtain d where d: "phase V h = Idle d" using i by (auto simp: bus_idle_def)
  obtain v1 h1 where r1: "run_state (READ_REG E (Reg MACMDIOAR)) h = (v1, h1)" "v1 AND ETH_MACMDIOAR_MB = 0"
    "phase V h1 = Idle d" "regs V h1 = regs V h" using mdio_idle_reads [OF hw d] .
  obtain v2 h2 where r2: "run_state (READ_REG E (Reg MACMDIOAR)) h1 = (v2, h2)"
    "phase V h2 = Idle d" "regs V h2 = regs V h" using mdio_idle_reads [OF hw r1(3)] r1(4) by metis
  let ?c = "mdio_command v2 dev reg ETH_MACMDIOAR_MOC_RD"
  obtain t0 h3 where t: "HAL_GetTick E (hw_write E (Reg MACMDIOAR) ?c h2) = (t0, h3)" by fastforce
  have "?c AND ETH_MACMDIOAR_MOC = ETH_MACMDIOAR_MOC_RD"
    using mdio_command_fields(3) [OF dev reg] by (simp add: mdio_defs)
  then obtain h4 d4 where w: "mdio_wait E t0 h3 = Some (True, h4)" "phase V h4 = Idle d4"
    "(d4, regs V h4) = frame_result ?c d (regs V h2)"
    using mdio_start [OF hw r2(2) command_starts _ t] by blast
  then have f: "d4 = regs V h dev reg" "regs V h4 = regs V h" using frame_read [OF dev reg] r2(3) by auto
  obtain v5 h5 where r5: "hw_read E (Reg MACMDIODR) h4 = (v5, h5)" "take_bit 16 v5 = take_bit 16 d4"
    "steps_to V h4 h5 (Idle d4)"
    using mdio_idle(2) [OF hw w(2)] by blast
  have "regs V h dev reg AND 0xFFFF = regs V h dev reg" using hw by (simp add: mdio_hw_def)
  then show ?thesis
    using r1 r2 t w(1) r5 f
    by (intro exI [of _ h5])
      (auto simp: phy_io_read_reg_def READ_BIT_def READ_REG_def [of E "Reg MACMDIODR"] bus_idle_def steps_to_def take_16)
qed

lemma phy_io_write_frame:
  assumes hw: "mdio_hw E V N" and i: "bus_idle V h" and dev: "dev \<le> 31" and reg: "reg \<le> 31"
    and v: "v AND 0xFFFF = v" "v AND BCR_SOFT_RESET = 0"
  shows "\<exists>h'. bus_idle V h' \<and> regs V h' = (regs V h)(dev := (regs V h dev)(reg := v)) \<and>
    phy_io_write_reg E dev reg v h = Some (0, h')"
proof -
  obtain d where d: "phase V h = Idle d" using i by (auto simp: bus_idle_def)
  obtain v1 h1 where r1: "run_state (READ_REG E (Reg MACMDIOAR)) h = (v1, h1)" "v1 AND ETH_MACMDIOAR_MB = 0"
    "phase V h1 = Idle d" "regs V h1 = regs V h" using mdio_idle_reads [OF hw d] .
  obtain v2 h2 where r2: "run_state (READ_REG E (Reg MACMDIOAR)) h1 = (v2, h2)"
    "phase V h2 = Idle d" "regs V h2 = regs V h" using mdio_idle_reads [OF hw r1(3)] r1(4) by metis
  define h3 where "h3 = hw_write E (Reg MACMDIODR) v h2"
  have h3: "phase V h3 = Idle v" "regs V h3 = regs V h"
    using mdio_idle(3) [OF hw r2(2), of v] r2(3) by (simp_all add: steps_to_def h3_def)
  let ?c = "mdio_command v2 dev reg ETH_MACMDIOAR_MOC_WR"
  obtain t0 h4 where t: "HAL_GetTick E (hw_write E (Reg MACMDIOAR) ?c h3) = (t0, h4)" by fastforce
  obtain h5 d5 where w: "mdio_wait E t0 h4 = Some (True, h5)" "phase V h5 = Idle d5"
    "(d5, regs V h5) = frame_result ?c v (regs V h3)"
    using mdio_start [OF hw h3(1) command_starts _ t] v(2) by blast
  then have "regs V h5 = (regs V h)(dev := (regs V h dev)(reg := v))"
    using frame_write [OF dev reg] h3(2) v(1) by (simp add: take_16)
  then show ?thesis
    using r1 r2 t w(1,2) v(1)
    by (intro exI [of _ h5])
      (auto simp: phy_io_write_reg_def READ_BIT_def bus_idle_def take_16 h3_def [symmetric])
qed

lemma phy_io_init_frame:
  assumes hw: "mdio_hw E V N" and i: "bus_idle V h"
  shows "\<exists>r h'. phy_io_init E h = Some (r, h') \<and> bus_idle V h' \<and> regs V h' = regs V h"
proof -
  obtain d where d: "phase V h = Idle d" using i by (auto simp: bus_idle_def)
  obtain v1 h1 where r1: "run_state (READ_REG E (Reg MACMDIOAR)) h = (v1, h1)" "v1 AND ETH_MACMDIOAR_MB = 0"
    "phase V h1 = Idle d" "regs V h1 = regs V h" using mdio_idle_reads [OF hw d] .
  obtain f h2 where f: "HAL_RCC_GetHCLKFreq E h1 = (f, h2)" "steps_to V h1 h2 (phase V h1)"
    using hw unfolding mdio_hw_def by meson
  let ?v = "(v1 AND NOT 0xF00) OR mdio_clock_range f"
  have "?v AND ETH_MACMDIOAR_MB = 0"
    using r1(2) by (auto simp: mdio_clock_range_def bit.conj_disj_distrib2 and.assoc mdio_defs)
  then have "steps_to V h2 (hw_write E (Reg MACMDIOAR) ?v h2) (Idle d)"
    using mdio_idle(4) [OF hw] f(2) r1(3) by (simp add: steps_to_def)
  then show ?thesis
    using r1 f by (auto simp: phy_io_init_def mac_mdio_clkconfig_def bus_idle_def steps_to_def)
qed

lemma phy_io_answers:
  assumes hw: "mdio_hw E V N"
  shows "answers (phy_io E) (bus_idle V) (regs V) (\<lambda>dev. dev \<le> 31)"
  unfolding answers_def phy_io_sel
proof (intro conjI allI impI)
  show "regs V h dev reg AND 0xFFFF = regs V h dev reg" for h dev reg using hw by (simp add: mdio_hw_def)
  show "\<exists>r b'. f b = Some (r, b') \<and> bus_idle V b' \<and> regs V b' = regs V b" if "Some (phy_io_init E) = Some f" "bus_idle V b" for f b
    using that phy_io_init_frame [OF hw] by auto
  show "\<exists>b'. bus_idle V b' \<and> regs V b' = regs V b \<and>
      phy_io_read_reg E dev reg old b = Some (if dev \<le> 31 then (0, regs V b dev reg, b') else (- 1, old, b'))"
    if "bus_idle V b" "dev \<le> 31" "reg \<le> 31" for dev reg old b
    using phy_io_read_frame [OF hw that] that by simp
  show "\<exists>b'. bus_idle V b' \<and> regs V b' = (regs V b)(dev := (regs V b dev)(reg := v)) \<and>
      phy_io_write_reg E dev reg v b = Some (0, b')"
    if "bus_idle V b" "dev \<le> 31" "reg \<le> 31" "v AND 0xFFFF = v" "v AND BCR_SOFT_RESET = 0" for dev reg v b
    using phy_io_write_frame [OF hw that] by simp
qed

end
