(* ===== verification/EthDev.thy ===== *)
theory EthDev
  imports EthPhy
begin

text \<open>
  The device operations of \<open>ethernetif.c\<close>: descriptor lists, start and stop, the interrupt handler, the
  initialisation and the link thread. A descriptor is a block of six words in memory; pointers to
  descriptors are addresses. The fields of \<open>eth_handle\<close> are volatile and therefore locations of the world.
\<close>

section \<open>Constants\<close>

definition ETH_TX_DESC_CNT :: nat where "ETH_TX_DESC_CNT = 2"
definition ETH_RX_DESC_CNT :: nat where "ETH_RX_DESC_CNT = 9"
definition ETH_RX_BUFFER_SIZE :: u32 where "ETH_RX_BUFFER_SIZE = 1528"
definition CACHE_ALIGNMENT :: u32 where "CACHE_ALIGNMENT = 32"

definition ETH_RX_BUFFER_SIZE_ALIGNED :: u32 where
  "ETH_RX_BUFFER_SIZE_ALIGNED = (ETH_RX_BUFFER_SIZE + CACHE_ALIGNMENT - 1) AND NOT (CACHE_ALIGNMENT - 1)"

definition HAL_ETH_STATE_READY :: u32 where "HAL_ETH_STATE_READY = 0x10"
definition HAL_ETH_STATE_BUSY :: u32 where "HAL_ETH_STATE_BUSY = 0x23"
definition HAL_ETH_STATE_BUSY_TX :: u32 where "HAL_ETH_STATE_BUSY_TX = 0x21"
definition HAL_ETH_STATE_ERROR :: u32 where "HAL_ETH_STATE_ERROR = 0xE0"
definition HAL_ETH_ERROR_NONE :: u32 where "HAL_ETH_ERROR_NONE = 0"
definition HAL_ETH_ERROR_PARAM :: u32 where "HAL_ETH_ERROR_PARAM = 1"
definition HAL_ETH_ERROR_TIMEOUT :: u32 where "HAL_ETH_ERROR_TIMEOUT = 4"
definition HAL_ETH_ERROR_DMA :: u32 where "HAL_ETH_ERROR_DMA = 8"

definition ETH_MACCR_TE :: u32 where "ETH_MACCR_TE = 0x2"
definition ETH_MACCR_RE :: u32 where "ETH_MACCR_RE = 0x1"
definition ETH_MTLTQOMR_FTQ :: u32 where "ETH_MTLTQOMR_FTQ = 0x1"
definition ETH_DMACTCR_ST :: u32 where "ETH_DMACTCR_ST = 0x1"
definition ETH_DMACRCR_SR :: u32 where "ETH_DMACRCR_SR = 0x1"
definition ETH_DMAMR_SWR :: u32 where "ETH_DMAMR_SWR = 0x1"
definition DMACSR_TPS :: u32 where "DMACSR_TPS = 0x2"
definition DMACSR_RPS :: u32 where "DMACSR_RPS = 0x100"
definition DMACSR_FBE :: u32 where "DMACSR_FBE = 0x1000"
definition DMACSR_CDE :: u32 where "DMACSR_CDE = 0x2000"
definition DMACSR_ETI :: u32 where "DMACSR_ETI = 0x400"
definition DMACSR_RWT :: u32 where "DMACSR_RWT = 0x200"
definition DMACSR_RBU :: u32 where "DMACSR_RBU = 0x80"
definition DMACSR_AIS :: u32 where "DMACSR_AIS = 0x4000"
definition DMACSR_RI :: u32 where "DMACSR_RI = 0x40"
definition DMACSR_TI :: u32 where "DMACSR_TI = 0x1"
definition DMACSR_NIS :: u32 where "DMACSR_NIS = 0x8000"
definition DMACIER_NIE :: u32 where "DMACIER_NIE = 0x8000"
definition DMACIER_RIE :: u32 where "DMACIER_RIE = 0x40"
definition DMACIER_TIE :: u32 where "DMACIER_TIE = 0x1"
definition DMACIER_FBEE :: u32 where "DMACIER_FBEE = 0x1000"
definition DMACIER_AIE :: u32 where "DMACIER_AIE = 0x4000"
definition MACISR_RXSTSIS :: u32 where "MACISR_RXSTSIS = 0x4000"
definition MACISR_TXSTSIS :: u32 where "MACISR_TXSTSIS = 0x2000"

lemmas dev_masks = ETH_MACCR_TE_def ETH_MACCR_RE_def ETH_MTLTQOMR_FTQ_def ETH_DMACTCR_ST_def ETH_DMACRCR_SR_def
  DMACSR_TPS_def DMACSR_RPS_def DMACSR_FBE_def DMACSR_CDE_def DMACSR_ETI_def DMACSR_RWT_def DMACSR_RBU_def
  DMACSR_AIS_def DMACSR_RI_def DMACSR_TI_def DMACSR_NIS_def DMACIER_NIE_def DMACIER_RIE_def DMACIER_TIE_def
  DMACIER_FBEE_def DMACIER_AIE_def MACISR_RXSTSIS_def MACISR_TXSTSIS_def

lemma buffer_size_aligned [simp]: "ETH_RX_BUFFER_SIZE_ALIGNED = 1536"
  by (simp add: ETH_RX_BUFFER_SIZE_ALIGNED_def ETH_RX_BUFFER_SIZE_def CACHE_ALIGNMENT_def)

section \<open>Descriptors\<close>

abbreviation DESC0 :: "u32 \<Rightarrow> eth_loc" where "DESC0 p \<equiv> Mem p"
abbreviation DESC1 :: "u32 \<Rightarrow> eth_loc" where "DESC1 p \<equiv> Mem (p + 4)"
abbreviation DESC2 :: "u32 \<Rightarrow> eth_loc" where "DESC2 p \<equiv> Mem (p + 8)"
abbreviation DESC3 :: "u32 \<Rightarrow> eth_loc" where "DESC3 p \<equiv> Mem (p + 12)"
abbreviation BackupAddr0 :: "u32 \<Rightarrow> eth_loc" where "BackupAddr0 p \<equiv> Mem (p + 16)"
abbreviation BackupAddr1 :: "u32 \<Rightarrow> eth_loc" where "BackupAddr1 p \<equiv> Mem (p + 20)"

definition rx_desc :: "'h eth_env \<Rightarrow> nat \<Rightarrow> u32" where
  "rx_desc E i = dmaRxDscrTab E + 24 * of_nat i"

definition tx_desc :: "'h eth_env \<Rightarrow> nat \<Rightarrow> u32" where
  "tx_desc E i = dmaTxDscrTab E + 24 * of_nat i"

definition rx_buffer :: "'h eth_env \<Rightarrow> nat \<Rightarrow> u32" where
  "rx_buffer E i = rx_Buff E + ETH_RX_BUFFER_SIZE_ALIGNED * of_nat i"

definition INCREASE_TX_POINTER :: "'h eth_env \<Rightarrow> u32 \<Rightarrow> u32" where
  "INCREASE_TX_POINTER E p = (if p = tx_desc E (ETH_TX_DESC_CNT - 1) then tx_desc E 0 else p + 24)"

definition INCREASE_RX_POINTER :: "'h eth_env \<Rightarrow> u32 \<Rightarrow> u32" where
  "INCREASE_RX_POINTER E p = (if p = rx_desc E (ETH_RX_DESC_CNT - 1) then rx_desc E 0 else p + 24)"

definition prepare_rx_desc :: "'h eth_env \<Rightarrow> u32 \<Rightarrow> u32 \<Rightarrow> ('h, unit) state" where
  "prepare_rx_desc E dmarxdesc pBuffer1 =
     do {
       _ \<leftarrow> WRITE_REG E (DESC0 dmarxdesc) pBuffer1;
       _ \<leftarrow> WRITE_REG E (DESC1 dmarxdesc) 0;
       _ \<leftarrow> WRITE_REG E (DESC2 dmarxdesc) 0;
       _ \<leftarrow> WRITE_REG E (DESC3 dmarxdesc) 0xC1000000;
       _ \<leftarrow> WRITE_REG E (BackupAddr0 dmarxdesc) pBuffer1;
       WRITE_REG E (BackupAddr1 dmarxdesc) 0
     }"

primrec for_each :: "nat list \<Rightarrow> (nat \<Rightarrow> ('h, unit) state) \<Rightarrow> ('h, unit) state" where
  \<comment> \<open>a counting loop\<close>
  "for_each [] f = State_Monad.return ()"
| "for_each (i # is) f = do { _ \<leftarrow> f i; for_each is f }"

definition tx_dec_list_init :: "'h eth_env \<Rightarrow> ('h, unit) state" where
  "tx_dec_list_init E =
     do {
       _ \<leftarrow> for_each [0..<ETH_TX_DESC_CNT] (\<lambda>i. do {
         _ \<leftarrow> WRITE_REG E (DESC0 (tx_desc E i)) 0;
         _ \<leftarrow> WRITE_REG E (DESC1 (tx_desc E i)) 0;
         _ \<leftarrow> WRITE_REG E (DESC2 (tx_desc E i)) 0;
         _ \<leftarrow> WRITE_REG E (DESC3 (tx_desc E i)) 0;
         WRITE_REG E (Var (txDesc i)) (tx_desc E i)
       });
       _ \<leftarrow> WRITE_REG E (Reg DMACTDRLR) (of_nat (ETH_TX_DESC_CNT - 1));
       first \<leftarrow> READ_REG E (Var (txDesc 0));
       _ \<leftarrow> WRITE_REG E (Reg DMACTDLAR) first;
       first \<leftarrow> READ_REG E (Var (txDesc 0));
       WRITE_REG E (Reg DMACTDTPR) first
     }"

definition rx_dec_list_init :: "'h eth_env \<Rightarrow> ('h, unit) state" where
  "rx_dec_list_init E =
     do {
       _ \<leftarrow> for_each [0..<ETH_RX_DESC_CNT] (\<lambda>i. do {
         _ \<leftarrow> WRITE_REG E (Var (rxDesc i)) (rx_desc E i);
         prepare_rx_desc E (rx_desc E i) (rx_buffer E i)
       });
       _ \<leftarrow> WRITE_REG E (Var toProcessPointer) (rx_desc E 0);
       _ \<leftarrow> WRITE_REG E (Reg DMACRDRLR) (of_nat (ETH_RX_DESC_CNT - 1));
       _ \<leftarrow> WRITE_REG E (Reg DMACRDLAR) (rx_desc E 0);
       WRITE_REG E (Reg DMACRDTPR) (rx_desc E (ETH_RX_DESC_CNT - 1))
     }"

section \<open>Start, stop and the interrupt handler\<close>

definition dma_interrupts :: u32 where
  "dma_interrupts = DMACIER_NIE OR DMACIER_RIE OR DMACIER_TIE OR DMACIER_FBEE OR DMACIER_AIE"

definition eth_start :: "'h eth_env \<Rightarrow> ('h, unit) state" where
  "eth_start E =
     do {
       gs \<leftarrow> READ_REG E (Var gState);
       if gs = HAL_ETH_STATE_READY then
         do {
           _ \<leftarrow> SET_BIT E (Reg MACCR) ETH_MACCR_TE;
           _ \<leftarrow> SET_BIT E (Reg MACCR) ETH_MACCR_RE;
           _ \<leftarrow> SET_BIT E (Reg MTLTQOMR) ETH_MTLTQOMR_FTQ;
           _ \<leftarrow> SET_BIT E (Reg DMACTCR) ETH_DMACTCR_ST;
           _ \<leftarrow> SET_BIT E (Reg DMACRCR) ETH_DMACRCR_SR;
           _ \<leftarrow> SET_BIT E (Reg DMACSR) (DMACSR_TPS OR DMACSR_RPS);
           _ \<leftarrow> SET_BIT E (Reg DMACIER) dma_interrupts;
           _ \<leftarrow> WRITE_REG E (Var gState) HAL_ETH_STATE_BUSY;
           _ \<leftarrow> os E (MutexWait True);
           _ \<leftarrow> WRITE_REG E (Var txState) HAL_ETH_STATE_BUSY_TX;
           _ \<leftarrow> os E (MutexRelease True);
           os E (DIAG ''ethernet started'')
         }
       else os E (DIAG ''ethernet in error state could not be started'')
     }"

definition eth_stop :: "'h eth_env \<Rightarrow> ('h, unit) state" where
  "eth_stop E =
     do {
       _ \<leftarrow> CLEAR_BIT E (Reg DMACIER) dma_interrupts;
       _ \<leftarrow> CLEAR_BIT E (Reg DMACTCR) ETH_DMACTCR_ST;
       _ \<leftarrow> CLEAR_BIT E (Reg DMACRCR) ETH_DMACRCR_SR;
       _ \<leftarrow> CLEAR_BIT E (Reg MACCR) ETH_MACCR_RE;
       _ \<leftarrow> SET_BIT E (Reg MTLTQOMR) ETH_MTLTQOMR_FTQ;
       _ \<leftarrow> CLEAR_BIT E (Reg MACCR) ETH_MACCR_TE;
       _ \<leftarrow> WRITE_REG E (Var gState) HAL_ETH_STATE_READY;
       _ \<leftarrow> os E (MutexWait True);
       _ \<leftarrow> WRITE_REG E (Var txState) HAL_ETH_STATE_READY;
       os E (MutexRelease True)
     }"

definition ABNORMAL :: u32 where
  "ABNORMAL = DMACSR_FBE OR DMACSR_TPS OR DMACSR_RPS OR DMACSR_CDE OR DMACSR_ETI OR DMACSR_RWT OR DMACSR_RBU OR DMACSR_AIS"

definition flag_set :: "'h eth_env \<Rightarrow> eth_reg \<Rightarrow> u32 \<Rightarrow> ('h, bool) state" where
  \<comment> \<open>\<open>__HAL_ETH_DMA_GET_IT\<close>, \<open>__HAL_ETH_DMA_GET_IT_SOURCE\<close> and \<open>__HAL_ETH_MAC_GET_IT\<close>\<close>
  "flag_set E r m = do { v \<leftarrow> READ_REG E (Reg r); State_Monad.return (v AND m = m) }"

definition packet_interrupt :: "'h eth_env \<Rightarrow> bool \<Rightarrow> u32 \<Rightarrow> u32 \<Rightarrow> ('h, unit) state" where
  \<comment> \<open>the branch for a received or a sent packet\<close>
  "packet_interrupt E tx flag enable =
     do {
       it \<leftarrow> flag_set E DMACSR flag;
       if it then
         do {
           en \<leftarrow> flag_set E DMACIER enable;
           if en then
             do {
               _ \<leftarrow> State (\<lambda>h. ((), sem_release E tx h));
               WRITE_REG E (Reg DMACSR) (flag OR DMACSR_NIS)
             }
           else State_Monad.return ()
         }
       else State_Monad.return ()
     }"

definition abnormal_interrupt :: "'h eth_env \<Rightarrow> ('h, unit) state" where
  "abnormal_interrupt E =
     do {
       e \<leftarrow> READ_REG E (Var errorCode);
       _ \<leftarrow> WRITE_REG E (Var errorCode) (e OR HAL_ETH_ERROR_DMA);
       _ \<leftarrow> WRITE_REG E (Var gState) HAL_ETH_STATE_ERROR;
       fbe \<leftarrow> flag_set E DMACSR DMACSR_FBE;
       _ \<leftarrow> (if fbe then
               do {
                 b \<leftarrow> READ_BIT E (Reg DMACSR) (DMACSR_FBE OR DMACSR_TPS OR DMACSR_RPS);
                 _ \<leftarrow> WRITE_REG E (Var dmaErrorCode) b;
                 CLEAR_BIT E (Reg DMACIER) (DMACIER_NIE OR DMACIER_AIE)
               }
             else State_Monad.return ());
       rbu \<leftarrow> flag_set E DMACSR DMACSR_RBU;
       _ \<leftarrow> (if rbu then
               do { n \<leftarrow> READ_REG E (Var lostReceivedPackets); WRITE_REG E (Var lostReceivedPackets) (n + 1) }
             else State_Monad.return ());
       b \<leftarrow> READ_BIT E (Reg DMACSR) ABNORMAL;
       _ \<leftarrow> WRITE_REG E (Var dmaErrorCode) b;
       WRITE_REG E (Reg DMACSR) ABNORMAL
     }"

definition carbon_hw_ethernet_isr :: "'h eth_env \<Rightarrow> ('h, unit) state" where
  "carbon_hw_ethernet_isr E =
     do {
       _ \<leftarrow> packet_interrupt E False DMACSR_RI DMACIER_RIE;
       _ \<leftarrow> packet_interrupt E True DMACSR_TI DMACIER_TIE;
       ais \<leftarrow> flag_set E DMACSR DMACSR_AIS;
       _ \<leftarrow> (if ais then
               do {
                 en \<leftarrow> flag_set E DMACIER DMACIER_AIE;
                 if en then abnormal_interrupt E else State_Monad.return ()
               }
             else State_Monad.return ());
       mac \<leftarrow> flag_set E MACISR (MACISR_RXSTSIS OR MACISR_TXSTSIS);
       if mac then
         do {
           _ \<leftarrow> WRITE_REG E (Var gState) HAL_ETH_STATE_ERROR;
           s \<leftarrow> READ_REG E (Reg MACRXTXSR);
           WRITE_REG E (Var macErrorCode) s
         }
       else State_Monad.return ()
     }"

end
