(* ===== verification/EthLink.thy ===== *)
theory EthLink
  imports EthDev
begin

text \<open>
  The initialisation of the interface (\<open>carbon_hw_ethernet_low_level_init\<close>, \<open>carbon_lwip_init\<close>) and the link
  thread (\<open>carbon_lwip_link_thread\<close>) of \<open>ethernetif.c\<close>. One round of the thread's endless loop is a function
  of its local variables and the world. \<open>None\<close> is a call that does not return.
\<close>

definition ETH_FULLDUPLEX_MODE :: u32 where "ETH_FULLDUPLEX_MODE = ETH_MACCR_DM"
definition ETH_HALFDUPLEX_MODE :: u32 where "ETH_HALFDUPLEX_MODE = 0"
definition ETH_SPEED_100M :: u32 where "ETH_SPEED_100M = ETH_MACCR_FES"
definition ETH_SPEED_10M :: u32 where "ETH_SPEED_10M = 0"
definition ETH_SWRESET_TIMEOUT :: u32 where "ETH_SWRESET_TIMEOUT = 500"

definition link_mode :: "lan_status \<Rightarrow> (u32 \<times> u32 \<times> string) option" where
  \<comment> \<open>the four labels of the \<open>switch\<close>: duplex mode, speed and the message\<close>
  "link_mode st =
     (case st of
        STATUS_100MBITS_FULLDUPLEX \<Rightarrow> Some (ETH_FULLDUPLEX_MODE, ETH_SPEED_100M, ''full duplex, 100 Mbit/sec'')
      | STATUS_100MBITS_HALFDUPLEX \<Rightarrow> Some (ETH_HALFDUPLEX_MODE, ETH_SPEED_100M, ''half duplex, 100 Mbit/sec'')
      | STATUS_10MBITS_FULLDUPLEX \<Rightarrow> Some (ETH_FULLDUPLEX_MODE, ETH_SPEED_10M, ''full duplex, 10 Mbit/sec'')
      | STATUS_10MBITS_HALFDUPLEX \<Rightarrow> Some (ETH_HALFDUPLEX_MODE, ETH_SPEED_10M, ''half duplex, 100 Mbit/sec'')
      | _ \<Rightarrow> None)"

definition reconfigure :: "'h eth_env \<Rightarrow> u32 \<Rightarrow> u32 \<Rightarrow> ('h, unit) state" where
  "reconfigure E duplex speed =
     do {
       macConf \<leftarrow> get_mac_config E;
       set_mac_config E (macConf\<lparr>DuplexMode := duplex, Speed := speed\<rparr>)
     }"

section \<open>The link thread\<close>

record link_vars =
  linkchanged :: bool
  speed :: u32
  duplex :: u32

definition netif_is_link_up :: "'h eth_env \<Rightarrow> ('h, bool) state" where
  \<comment> \<open>the macro of lwIP\<close>
  "netif_is_link_up E = do { f \<leftarrow> READ_REG E (Var netif_flags); State_Monad.return (f AND NETIF_FLAG_LINK_UP \<noteq> 0) }"

definition link_down :: "'h eth_env \<Rightarrow> ('h, unit) state" where
  "link_down E =
     do {
       _ \<leftarrow> os E (Netif set_down);
       _ \<leftarrow> os E (Netif set_link_down);
       eth_stop E
     }"

definition link_up :: "'h eth_env \<Rightarrow> link_vars \<Rightarrow> ('h, unit) state" where
  \<comment> \<open>the branch under \<open>if (linkchanged)\<close>\<close>
  "link_up E lv =
     do {
       _ \<leftarrow> reconfigure E (duplex lv) (speed lv);
       _ \<leftarrow> tx_dec_list_init E;
       _ \<leftarrow> eth_start E;
       _ \<leftarrow> os E (Netif set_up);
       os E (Netif set_link_up)
     }"

definition link_switch :: "'h eth_env \<Rightarrow> lan_status \<Rightarrow> link_vars \<Rightarrow> ('h, link_vars) state" where
  \<comment> \<open>the \<open>switch\<close> on the state of the PHY\<close>
  "link_switch E st lv =
     (case link_mode st of
        Some (d, s, msg) \<Rightarrow>
          do {
            _ \<leftarrow> os E (DIAG msg);
            State_Monad.return (lv\<lparr>duplex := d, speed := s, linkchanged := True\<rparr>)
          }
      | None \<Rightarrow> do { _ \<leftarrow> os E (DIAG ''no configuration found''); State_Monad.return lv })"

definition link_change :: "'h eth_env \<Rightarrow> lan_status \<Rightarrow> link_vars \<Rightarrow> ('h, link_vars) state" where
  \<comment> \<open>the reaction to the state that the PHY reported\<close>
  "link_change E st lv =
     do {
       up \<leftarrow> netif_is_link_up E;
       if up \<and> st \<le> STATUS_LINK_DOWN then
         do { _ \<leftarrow> link_down E; State_Monad.return lv }
       else
         do {
           up \<leftarrow> netif_is_link_up E;
           if \<not> up \<and> STATUS_LINK_DOWN < st then
             do {
               lv \<leftarrow> link_switch E st lv;
               _ \<leftarrow> (if linkchanged lv then link_up E lv else State_Monad.return ());
               State_Monad.return lv
             }
           else State_Monad.return lv
         }
     }"

definition link_round :: "'h eth_env \<Rightarrow> 'h lan8742_Object \<Rightarrow> link_vars \<Rightarrow> 'h \<Rightarrow> (link_vars \<times> 'h) option" where
  "link_round E lan8742 lv h =
     (let (init, h) = run_state (READ_REG E (Var isInitialized)) h
      in if init = 0 then Some (lv, h)
         else
           do {
             (st, h) \<leftarrow> LAN8742_GetLinkState lan8742 h;
             let (lv, h) = run_state (link_change E st lv) h;
             let (_, h) = run_state (os E (OsDelay 100)) h;
             Some (lv, h)
           })"

primrec link_thread :: "'h eth_env \<Rightarrow> 'h lan8742_Object \<Rightarrow> nat \<Rightarrow> link_vars \<Rightarrow> 'h \<Rightarrow> (link_vars \<times> 'h) option" where
  \<comment> \<open>the first rounds of \<open>carbon_lwip_link_thread\<close>, which starts with the variables 0\<close>
  "link_thread E lan8742 0 lv h = Some (lv, h)"
| "link_thread E lan8742 (Suc n) lv h =
     do { (lv, h) \<leftarrow> link_thread E lan8742 n lv h; link_round E lan8742 lv h }"

definition link_vars0 :: link_vars where
  "link_vars0 = \<lparr>linkchanged = False, speed = 0, duplex = 0\<rparr>"

section \<open>Initialisation\<close>

partial_function (option) swr_wait :: "'h eth_env \<Rightarrow> u32 \<Rightarrow> 'h \<Rightarrow> (bool \<times> 'h) option" where [code]:
  \<comment> \<open>wait for the reset of the MAC\<close>
  "swr_wait E tickstart h =
     (let (swr, h) = run_state (READ_BIT E (Reg DMAMR) ETH_DMAMR_SWR) h
      in if 0 < swr then
           let (now, h) = HAL_GetTick E h
           in if ETH_SWRESET_TIMEOUT < now - tickstart then Some (False, h) else swr_wait E tickstart h
         else Some (True, h))"

definition mac_reset :: "'h eth_env \<Rightarrow> ('h, u32) state" where
  \<comment> \<open>up to the wait; the result is \<open>tickstart\<close>\<close>
  "mac_reset E =
     do {
       _ \<leftarrow> os E MspInit;
       _ \<leftarrow> os E InterfaceSelect;
       _ \<leftarrow> SET_BIT E (Reg DMAMR) ETH_DMAMR_SWR;
       State (HAL_GetTick E)
     }"

definition init_failed :: "'h eth_env \<Rightarrow> u32 \<Rightarrow> string \<Rightarrow> ('h, unit) state" where
  "init_failed E code msg =
     do {
       _ \<leftarrow> WRITE_REG E (Var errorCode) code;
       _ \<leftarrow> WRITE_REG E (Var gState) HAL_ETH_STATE_ERROR;
       os E (DIAG msg)
     }"

definition device_config :: "'h eth_env \<Rightarrow> ('h, bool) state" where
  \<comment> \<open>clocks, MAC and DMA; False is the early return\<close>
  "device_config E =
     do {
       _ \<leftarrow> mac_mdio_clkconfig E;
       hclk \<leftarrow> State (HAL_RCC_GetHCLKFreq E);
       _ \<leftarrow> WRITE_REG E (Reg MAC1USTCR) (hclk div 1000000 - 1);
       _ \<leftarrow> mac_dma_config E;
       _ \<leftarrow> MODIFY_REG E (Reg DMACCR) 0x001C0000 0x00080000;
       if ETH_RX_BUFFER_SIZE_ALIGNED mod 4 \<noteq> 0 then
         do { _ \<leftarrow> init_failed E HAL_ETH_ERROR_PARAM ''init failed, receive buffer not 4 bit aligned'';
              State_Monad.return False }
       else
         do {
           _ \<leftarrow> tx_dec_list_init E;
           _ \<leftarrow> rx_dec_list_init E;
           _ \<leftarrow> WRITE_REG E (Reg MACA0HR) 0;
           _ \<leftarrow> WRITE_REG E (Reg MACA0LR) 0x00E18000;
           _ \<leftarrow> WRITE_REG E (Var errorCode) HAL_ETH_ERROR_NONE;
           _ \<leftarrow> WRITE_REG E (Var gState) HAL_ETH_STATE_READY;
           _ \<leftarrow> WRITE_REG E (Var txState) HAL_ETH_STATE_READY;
           _ \<leftarrow> os E PoolInit;
           _ \<leftarrow> os E NetifInit;
           _ \<leftarrow> os E SemaphoresCreate;
           _ \<leftarrow> State (sem_wait E False 0);
           _ \<leftarrow> State (sem_wait E True 0);
           _ \<leftarrow> os E MutexesCreate;
           _ \<leftarrow> os E InputTaskCreate;
           State_Monad.return True
         }
     }"

definition init_link :: "'h eth_env \<Rightarrow> lan_status \<Rightarrow> ('h, unit) state" where
  \<comment> \<open>the first state of the link\<close>
  "init_link E st =
     (if st \<le> STATUS_LINK_DOWN then
        do { _ \<leftarrow> os E (Netif set_link_down); os E (Netif set_down) }
      else
        let (d, s, msg) =
          (case link_mode st of Some m \<Rightarrow> m
           | None \<Rightarrow> (ETH_FULLDUPLEX_MODE, ETH_SPEED_100M, ''default configuration: full duplex, 100 Mbit/sec''))
        in do {
             _ \<leftarrow> os E (DIAG msg);
             _ \<leftarrow> reconfigure E d s;
             _ \<leftarrow> eth_start E;
             _ \<leftarrow> os E (Netif set_up);
             os E (Netif set_link_up)
           })"

definition low_level_init :: "'h eth_env \<Rightarrow> 'h lan8742_Object \<Rightarrow> 'h \<Rightarrow> (u32 \<times> 'h lan8742_Object \<times> 'h) option" where
  "low_level_init E lan8742 h =
     (let (tickstart, h) = run_state (mac_reset E) h
      in do {
           (ok, h) \<leftarrow> swr_wait E tickstart h;
           if \<not> ok then
             let (_, h) = run_state (init_failed E HAL_ETH_ERROR_TIMEOUT ''init failed, timeout waiting for MAC reset'') h
             in Some (1, lan8742, h)
           else
             let (ok, h) = run_state (device_config E) h
             in if \<not> ok then Some (1, lan8742, h)
                else
                  let lan8742 = the (snd (LAN8742_RegisterBusIO (Some lan8742) (lan8742_IOCtx E)))
                  in do {
                       (_, lan8742, h) \<leftarrow> LAN8742_Init lan8742 h;
                       (st, h) \<leftarrow> LAN8742_GetLinkState lan8742 h;
                       let (_, h) = run_state (init_link E st) h;
                       let (_, h) = run_state (WRITE_REG E (Var isInitialized) 1) h;
                       let (_, h) = run_state (os E (DIAG ''low level init successful'')) h;
                       Some (0, lan8742, h)
                     }
         })"

definition carbon_lwip_init :: "'h eth_env \<Rightarrow> 'h lan8742_Object \<Rightarrow> 'h \<Rightarrow> (int \<times> 'h lan8742_Object \<times> 'h) option" where
  \<comment> \<open>the result is \<open>ERR_OK\<close> or \<open>ERR_IF\<close>\<close>
  "carbon_lwip_init E lan8742 h =
     (let (_, h) = run_state (os E NetifNames) h
      in do {
           (r, lan8742, h) \<leftarrow> low_level_init E lan8742 h;
           if r \<noteq> 0 then
             let (_, h) = run_state (os E (DIAG ''low level init failed'')) h in Some (- 12, lan8742, h)
           else Some (0, lan8742, h)
         })"

end
