(* ===== verification/EthLinkInv.thy ===== *)
theory EthLinkInv
  imports EthLink
begin

text \<open>
  What the link thread does to the link flag of the interface and to the speed and duplex bits of the MAC:
  the abstract step \<open>link_step\<close> and the simulation by \<open>link_change\<close>.
\<close>

definition link_flag :: "(eth_loc \<Rightarrow> u32) \<Rightarrow> bool" where
  "link_flag c \<longleftrightarrow> c (Var netif_flags) AND NETIF_FLAG_LINK_UP \<noteq> 0"

definition mode_bits_of :: "(eth_loc \<Rightarrow> u32) \<Rightarrow> u32" where
  \<comment> \<open>speed and duplex mode the MAC is set to\<close>
  "mode_bits_of c = c (Reg MACCR) AND (ETH_MACCR_DM OR ETH_MACCR_FES)"

definition link_step :: "lan_status \<Rightarrow> bool \<times> link_vars \<Rightarrow> bool \<times> link_vars" where
  \<comment> \<open>link flag and variables after a report of the PHY\<close>
  "link_step st = (\<lambda>(up, lv).
     if up then (STATUS_LINK_DOWN < st, lv)
     else if st \<le> STATUS_LINK_DOWN then (False, lv)
     else
       let lv = (case link_mode st of Some (d, s, _) \<Rightarrow> lv\<lparr>duplex := d, speed := s, linkchanged := True\<rparr> | None \<Rightarrow> lv)
       in (linkchanged lv, lv))"

definition valid_modes :: "link_vars \<Rightarrow> bool" where
  "valid_modes lv \<longleftrightarrow> duplex lv \<in> {ETH_FULLDUPLEX_MODE, ETH_HALFDUPLEX_MODE} \<and> speed lv \<in> {ETH_SPEED_100M, ETH_SPEED_10M}"

lemma link_mode_valid:
  "link_mode st = Some (d, s, msg) \<Longrightarrow> valid_modes (lv\<lparr>duplex := d, speed := s, linkchanged := b\<rparr>)"
  by (auto simp: link_mode_def valid_modes_def split: lan_status.splits)

lemma link_step_valid: "valid_modes lv \<Longrightarrow> valid_modes (snd (link_step st (up, lv)))"
  by (auto simp: link_step_def Let_def split: option.splits dest: link_mode_valid)

section \<open>Register effects\<close>

definition view :: "eth_loc set" where
  "view = {Reg MACCR, Var netif_flags}"

definition maccr_like :: "u32 \<Rightarrow> mac_config \<Rightarrow> bool" where
  \<comment> \<open>the configuration agrees with a content of \<open>MACCR\<close>\<close>
  "maccr_like v mc \<longleftrightarrow> (\<forall>d s. maccr_value (mc\<lparr>DuplexMode := d, Speed := s\<rparr>) =
     maccr_value (config_of (\<lambda>_. v)\<lparr>DuplexMode := d, Speed := s\<rparr>))"

lemma get_mac_config_maccr:
  assumes k: "keeps E view cont" and h: "cont h = c"
    and post: "\<And>mc h'. cont h' = c \<Longrightarrow> maccr_like (c (Reg MACCR)) mc \<Longrightarrow> P mc h'"
  shows "after (get_mac_config E) h P"
proof -
  have maccr: "after (State_Monad.bind (READ_BIT E (Reg MACCR) m) f) h1 P"
    if "cont h1 = c" "\<And>h2. cont h2 = c \<Longrightarrow> after (f (c (Reg MACCR) AND m)) h2 P" for m f h1
    using that by (intro after_bind keeps_read_bit [OF k]) (auto simp: view_def)
  have other: "after (State_Monad.bind (READ_BIT E l m) f) h1 P"
    if "cont h1 = c" "\<And>v h2. cont h2 = c \<Longrightarrow> after (f v) h2 P" for m f h1 l
    using that by (intro after_bind keeps_other_read_bit [OF k])
  show ?thesis
    unfolding get_mac_config_def using h
    by - ((rule maccr, assumption)+, (rule other, assumption)+, rule after_return, rule post, assumption,
        simp add: maccr_like_def maccr_value_def config_of_def del: drop_bit_and)
qed

lemma reconfigure_after:
  assumes k: "keeps E view cont" and h: "cont h = c"
    and post: "\<And>h'. cont h' = c(Reg MACCR := (c (Reg MACCR) AND NOT link_mask) OR d OR s) \<Longrightarrow> P () h'"
  shows "after (reconfigure E d s) h P"
proof -
  have m: "(v AND NOT ETH_MACCR_MASK) OR maccr_value (mc\<lparr>DuplexMode := d, Speed := s\<rparr>) = (v AND NOT link_mask) OR d OR s"
    if "maccr_like v mc" for v mc
  proof -
    have "new_regs (\<lambda>_. v) (config_of (\<lambda>_. v)\<lparr>DuplexMode := d, Speed := s\<rparr>) (Reg MACCR) = reconfigured (\<lambda>_. v) d s (Reg MACCR)"
      by (simp only: new_regs_reconfigured)
    then show ?thesis
      using that by (simp add: maccr_like_def new_regs_def reconfigured_def values_packed(1) [symmetric])
  qed
  have other: "after (State_Monad.bind (MODIFY_REG E l m v) f) h1 P"
    if "l \<notin> view" "l \<noteq> Reg DMAMR" "cont h1 = c'" "\<And>h2. cont h2 = c' \<Longrightarrow> after (f ()) h2 P" for l m v f h1 c'
    using that by (intro after_bind keeps_other_modify [OF k])
  show ?thesis
    unfolding reconfigure_def
    apply (rule after_bind, rule get_mac_config_maccr [OF k h])
    unfolding set_mac_config_def
    apply (rule after_bind, rule keeps_modify [OF k], simp add: view_def, assumption)
    apply (rule other, simp add: view_def, simp, assumption)+
    apply (rule keeps_other_modify(1) [OF k], simp add: view_def, simp, assumption)
    apply (rule post)
    apply (simp add: m)
    done
qed

section \<open>The other steps of the thread\<close>

definition elsewhere :: "eth_loc \<Rightarrow> bool" where
  "elsewhere l \<longleftrightarrow> l \<notin> view \<and> l \<noteq> Reg DMAMR"

lemma elsewhere_simps [simp]:
  "elsewhere (Mem a)" "elsewhere (Var v) = (v \<noteq> netif_flags)" "elsewhere (Reg r) = (r \<noteq> MACCR \<and> r \<noteq> DMAMR)"
  by (auto simp: elsewhere_def view_def)

lemma write_elsewhere:
  assumes "keeps E view cont" and "elsewhere l" and "cont h = c" and "\<And>h'. cont h' = c \<Longrightarrow> after (f ()) h' P"
  shows "after (State_Monad.bind (WRITE_REG E l v) f) h P"
  using assms by (intro after_bind keeps_other_write [OF assms(1)]) (auto simp: elsewhere_def)

lemma set_bit_elsewhere:
  assumes "keeps E view cont" and "elsewhere l" and "cont h = c" and "\<And>h'. cont h' = c \<Longrightarrow> after (f ()) h' P"
  shows "after (State_Monad.bind (SET_BIT E l v) f) h P"
  using assms by (intro after_bind keeps_other_modify(2) [OF assms(1)]) (auto simp: elsewhere_def)

lemma clear_bit_elsewhere:
  assumes "keeps E view cont" and "elsewhere l" and "cont h = c" and "\<And>h'. cont h' = c \<Longrightarrow> after (f ()) h' P"
  shows "after (State_Monad.bind (CLEAR_BIT E l v) f) h P"
  using assms by (intro after_bind keeps_other_modify(3) [OF assms(1)]) (auto simp: elsewhere_def)

lemma read_elsewhere:
  assumes "keeps E view cont" and "cont h = c" and "\<And>v h'. cont h' = c \<Longrightarrow> after (f v) h' P"
  shows "after (State_Monad.bind (READ_REG E l) f) h P"
  using assms(3) by (intro after_bind keeps_other_read [OF assms(1,2)])

lemma set_bit_maccr:
  assumes "keeps E view cont" and "cont h = c"
    and "\<And>h'. cont h' = c(Reg MACCR := c (Reg MACCR) OR m) \<Longrightarrow> after (f ()) h' P"
  shows "after (State_Monad.bind (SET_BIT E (Reg MACCR) m) f) h P"
  using assms(3) by (intro after_bind keeps_set_bit [OF assms(1) _ assms(2)]) (auto simp: view_def)

lemma clear_bit_maccr:
  assumes "keeps E view cont" and "cont h = c"
    and "\<And>h'. cont h' = c(Reg MACCR := c (Reg MACCR) AND NOT m) \<Longrightarrow> after (f ()) h' P"
  shows "after (State_Monad.bind (CLEAR_BIT E (Reg MACCR) m) f) h P"
  using assms(3) by (intro after_bind keeps_clear_bit [OF assms(1) _ assms(2)]) (auto simp: view_def)

lemma os_quiet:
  assumes "os_law E cont" and "cont h = c" and "\<And>f. netif_effect op f = f" and "\<And>h'. cont h' = c \<Longrightarrow> P () h'"
  shows "after (os E op) h P"
  using assms(3,4) by (intro os_after [OF assms(1,2)]) simp

lemma os_quiet_bind:
  assumes "os_law E cont" and "cont h = c" and "\<And>f. netif_effect op f = f" and "\<And>h'. cont h' = c \<Longrightarrow> after (g ()) h' P"
  shows "after (State_Monad.bind (os E op) g) h P"
  using assms(4) by (intro after_bind os_quiet [OF assms(1-3)])

lemmas elsewhere_steps = write_elsewhere set_bit_elsewhere clear_bit_elsewhere

lemma for_each_after:
  assumes "\<And>i h P. i \<in> set is \<Longrightarrow> cont h = c \<Longrightarrow> (\<And>h'. cont h' = c \<Longrightarrow> P () h') \<Longrightarrow> after (f i) h P"
    and "cont h = c" and "\<And>h'. cont h' = c \<Longrightarrow> P () h'"
  shows "after (for_each is f) h P"
  using assms
proof (induction "is" arbitrary: h)
  case Nil
  then show ?case by (simp add: after_return)
next
  case (Cons i "is")
  have "after (for_each is f) h' P" if "cont h' = c" for h'
    using that Cons.prems(1,3) by (intro Cons.IH) auto
  moreover have "after (f i) h Q" if "\<And>h'. cont h' = c \<Longrightarrow> Q () h'" for Q
    using Cons.prems(1) [of i h Q] Cons.prems(2) that by simp
  ultimately show ?case by (simp add: after_bind)
qed

lemma tx_dec_list_init_after:
  assumes k: "keeps E view cont" and h: "cont h = c" and post: "\<And>h'. cont h' = c \<Longrightarrow> P () h'"
  shows "after (tx_dec_list_init E) h P"
proof -
  have body: "after (do {
         _ \<leftarrow> WRITE_REG E (DESC0 (tx_desc E i)) 0;
         _ \<leftarrow> WRITE_REG E (DESC1 (tx_desc E i)) 0;
         _ \<leftarrow> WRITE_REG E (DESC2 (tx_desc E i)) 0;
         _ \<leftarrow> WRITE_REG E (DESC3 (tx_desc E i)) 0;
         WRITE_REG E (Var (txDesc i)) (tx_desc E i)
       }) h1 Q" if "cont h1 = c" "\<And>h'. cont h' = c \<Longrightarrow> Q () h'" for h1 Q i
    using that(1)
    by - ((rule write_elsewhere [OF k], simp, assumption)+,
        rule keeps_other_write [OF k], simp add: view_def, simp, assumption, rule that(2), assumption)
  show ?thesis
    unfolding tx_dec_list_init_def
    by (rule after_bind, rule for_each_after [where cont = cont, OF _ h], rule body, assumption, assumption,
        rule write_elsewhere [OF k], simp, assumption,
        rule read_elsewhere [OF k], assumption, rule write_elsewhere [OF k], simp, assumption,
        rule read_elsewhere [OF k], assumption,
        rule keeps_other_write [OF k], simp add: view_def, simp, assumption, rule post, assumption)
qed

definition maccr_running :: "u32" where
  "maccr_running = ETH_MACCR_TE OR ETH_MACCR_RE"

lemma eth_start_after:
  assumes k: "keeps E view cont" and o: "os_law E cont" and h: "cont h = c"
    and post: "\<And>x h'. x \<in> {0, maccr_running} \<Longrightarrow> cont h' = c(Reg MACCR := c (Reg MACCR) OR x) \<Longrightarrow> P () h'"
  shows "after (eth_start E) h P"
proof -
  have no: "\<And>h'. cont h' = c \<Longrightarrow> P () h'" using post [of 0] by simp
  have yes: "\<And>h'. cont h' = c(Reg MACCR := c (Reg MACCR) OR ETH_MACCR_TE OR ETH_MACCR_RE) \<Longrightarrow> P () h'"
    using post [of maccr_running] by (simp add: maccr_running_def)
  have go: "after (do {
           _ \<leftarrow> SET_BIT E (Reg MACCR) ETH_MACCR_TE;
           _ \<leftarrow> SET_BIT E (Reg MACCR) ETH_MACCR_RE;
           _ \<leftarrow> SET_BIT E (Reg MTLTQOMR) ETH_MTLTQOMR_FTQ;
           _ \<leftarrow> SET_BIT E (Reg DMACTCR) ETH_DMACTCR_ST;
           _ \<leftarrow> SET_BIT E (Reg DMACRCR) ETH_DMACRCR_SR;
           _ \<leftarrow> SET_BIT E (Reg DMACSR) (DMACSR_TPS OR DMACSR_RPS);
           _ \<leftarrow> SET_BIT E (Reg DMACIER) dma_interrupts;
           _ \<leftarrow> WRITE_REG E (Var gState) HAL_ETH_STATE_BUSY;
           _ \<leftarrow> os E (MutexWait True);
           _ \<leftarrow> WRITE_REG E (Var txState) HAL_ETH_STATE_BUSY_TX;
           _ \<leftarrow> os E (MutexRelease True);
           os E (DIAG ''ethernet started'')
         }) h1 P" if "cont h1 = c" for h1
    using that
    by - ((rule set_bit_maccr [OF k], assumption)+, (rule elsewhere_steps [OF k], simp, assumption)+,
        rule os_quiet_bind [OF o], assumption, simp, rule write_elsewhere [OF k], simp, assumption,
        rule os_quiet_bind [OF o], assumption, simp, rule os_quiet [OF o], assumption, simp,
        rule yes, simp add: or.assoc)
  show ?thesis
    unfolding eth_start_def
    by (rule read_elsewhere [OF k h]) (auto intro: go os_quiet [OF o] no)
qed

lemma eth_stop_after:
  assumes k: "keeps E view cont" and o: "os_law E cont" and h: "cont h = c"
    and post: "\<And>h'. cont h' = c(Reg MACCR := c (Reg MACCR) AND NOT maccr_running) \<Longrightarrow> P () h'"
  shows "after (eth_stop E) h P"
proof -
  have post': "\<And>h'. cont h' = c(Reg MACCR := (c (Reg MACCR) AND NOT ETH_MACCR_RE) AND NOT ETH_MACCR_TE) \<Longrightarrow> P () h'"
    using post by (simp add: maccr_running_def ac_simps)
  show ?thesis
    unfolding eth_stop_def using h
    by - ((rule elsewhere_steps [OF k], simp, assumption)+, rule clear_bit_maccr [OF k], assumption,
        rule set_bit_elsewhere [OF k], simp, assumption, rule clear_bit_maccr [OF k], assumption,
        rule write_elsewhere [OF k], simp, assumption, rule os_quiet_bind [OF o], assumption, simp,
        rule write_elsewhere [OF k], simp, assumption, rule os_quiet [OF o], assumption, simp,
        rule post', simp)
qed

lemma link_down_after:
  assumes k: "keeps E view cont" and o: "os_law E cont" and h: "cont h = c"
    and post: "\<And>h'. \<not> link_flag (cont h') \<Longrightarrow> mode_bits_of (cont h') = mode_bits_of c \<Longrightarrow>
      cont h' (Reg MACCR) AND maccr_running = 0 \<Longrightarrow> P () h'"
  shows "after (link_down E) h P"
  unfolding link_down_def
  apply (rule after_bind, rule os_after [OF o h], rule after_bind, rule os_after [OF o], assumption,
      rule eth_stop_after [OF k o], assumption)
  apply (rule post)
  apply (simp_all add: link_flag_def mode_bits_of_def and.assoc maccr_running_def NETIF_FLAG_LINK_UP_def NETIF_FLAG_UP_def
      eth_masks dev_masks)
  done

lemma link_up_after:
  assumes k: "keeps E view cont" and o: "os_law E cont" and h: "cont h = c" and v: "valid_modes lv"
    and post: "\<And>h'. link_flag (cont h') \<Longrightarrow> mode_bits_of (cont h') = duplex lv OR speed lv \<Longrightarrow> P () h'"
  shows "after (link_up E lv) h P"
proof -
  have m: "(((x AND NOT link_mask) OR duplex lv OR speed lv) OR y) AND (ETH_MACCR_DM OR ETH_MACCR_FES) = duplex lv OR speed lv"
    if "y \<in> {0, maccr_running}" for x y
    using that v by (auto simp: valid_modes_def link_mask_def maccr_running_def bit.conj_disj_distrib2 and.assoc
        ETH_FULLDUPLEX_MODE_def ETH_HALFDUPLEX_MODE_def ETH_SPEED_100M_def ETH_SPEED_10M_def eth_masks dev_masks)
  show ?thesis
    unfolding link_up_def
    apply (rule after_bind, rule reconfigure_after [OF k h], rule after_bind, rule tx_dec_list_init_after [OF k], assumption)
    apply (rule after_bind, rule eth_start_after [OF k o], assumption)
    apply (rule after_bind, rule os_after [OF o], assumption, rule os_after [OF o], assumption)
    apply (rule post)
     apply (simp add: link_flag_def NETIF_FLAG_LINK_UP_def NETIF_FLAG_UP_def bit.conj_disj_distrib2)
    apply (simp only: mode_bits_of_def fun_upd_apply eth_loc.distinct if_False if_True simp_thms m)
    done
qed

section \<open>The simulation\<close>

lemma netif_is_link_up_bind:
  assumes k: "keeps E view cont" and h: "cont h = c" and post: "\<And>h'. cont h' = c \<Longrightarrow> after (f (link_flag c)) h' P"
  shows "after (State_Monad.bind (netif_is_link_up E) f) h P"
  unfolding netif_is_link_up_def
  apply (rule after_bind, rule after_bind, rule keeps_read [OF k _ h], simp add: view_def, rule after_return)
  using post by (simp add: link_flag_def)

lemma link_change_simulates:
  assumes k: "keeps E view cont" and o: "os_law E cont" and h: "cont h = c" and v: "valid_modes lv"
  shows "after (link_change E st lv) h (\<lambda>lv' h'.
    (link_flag (cont h'), lv') = link_step st (link_flag c, lv) \<and>
    mode_bits_of (cont h') = (if \<not> link_flag c \<and> link_flag (cont h') then duplex lv' OR speed lv' else mode_bits_of c))"
    (is "after _ _ ?P")
proof -
  have up: "after (do { lv' \<leftarrow> link_switch E st lv; _ \<leftarrow> (if linkchanged lv' then link_up E lv' else State_Monad.return ());
      State_Monad.return lv' }) h1 ?P" if h1: "cont h1 = c" and f: "\<not> link_flag c" and st: "STATUS_LINK_DOWN < st" for h1
  proof -
    define lv1 where "lv1 = snd (link_step st (False, lv))"
    have nle: "\<not> st \<le> STATUS_LINK_DOWN" using st by simp
    have lv1: "lv1 = (case link_mode st of Some (d, s, _) \<Rightarrow> lv\<lparr>duplex := d, speed := s, linkchanged := True\<rparr> | None \<Rightarrow> lv)"
      using nle by (simp add: lv1_def link_step_def Let_def)
    have val: "valid_modes lv1" using v link_step_valid by (simp add: lv1_def)
    have step: "link_step st (False, lv) = (linkchanged lv1, lv1)"
      using nle lv1 by (simp add: link_step_def Let_def)
    have rest: "after (do { _ \<leftarrow> (if linkchanged lv1 then link_up E lv1 else State_Monad.return ());
        State_Monad.return lv1 }) h2 ?P" if "cont h2 = c" for h2
    proof (cases "linkchanged lv1")
      case True
      then show ?thesis
        using f by (auto intro!: after_bind link_up_after [OF k o that val] after_return simp: step)
    next
      case False
      then show ?thesis using f that by (auto intro!: after_bind after_return simp: step)
    qed
    have sw: "after (link_switch E st lv) h1 (\<lambda>a h'. a = lv1 \<and> cont h' = c)"
      unfolding link_switch_def lv1
      by (cases "link_mode st") (auto intro!: os_quiet_bind [OF o h1] after_return)
    show ?thesis
      by (rule after_bind, rule after_mono [OF sw]) (use rest in blast)
  qed
  show ?thesis
    unfolding link_change_def
  proof (rule netif_is_link_up_bind [OF k h])
    fix h1 assume h1: "cont h1 = c"
    show "after (if link_flag c \<and> st \<le> STATUS_LINK_DOWN then do { _ \<leftarrow> link_down E; State_Monad.return lv }
      else do { up \<leftarrow> netif_is_link_up E; if \<not> up \<and> STATUS_LINK_DOWN < st
        then do { lv \<leftarrow> link_switch E st lv; _ \<leftarrow> (if linkchanged lv then link_up E lv else State_Monad.return ()); State_Monad.return lv }
        else State_Monad.return lv }) h1 ?P"
    proof (cases "link_flag c \<and> st \<le> STATUS_LINK_DOWN")
      case True
      then have "link_step st (link_flag c, lv) = (False, lv)" by (auto simp: link_step_def)
      with True show ?thesis
        by (auto intro!: after_bind link_down_after [OF k o h1] after_return)
    next
      case False
      have stay: "after (State_Monad.return lv) h2 ?P" if "cont h2 = c" "\<not> (\<not> link_flag c \<and> STATUS_LINK_DOWN < st)" for h2
        using that False by (auto intro!: after_return simp: link_step_def)
      have "after (do { up \<leftarrow> netif_is_link_up E; if \<not> up \<and> STATUS_LINK_DOWN < st
        then do { lv \<leftarrow> link_switch E st lv; _ \<leftarrow> (if linkchanged lv then link_up E lv else State_Monad.return ()); State_Monad.return lv }
        else State_Monad.return lv }) h1 ?P"
      proof (rule netif_is_link_up_bind [OF k h1])
        fix h2 assume h2: "cont h2 = c"
        show "after (if \<not> link_flag c \<and> STATUS_LINK_DOWN < st
          then do { lv \<leftarrow> link_switch E st lv; _ \<leftarrow> (if linkchanged lv then link_up E lv else State_Monad.return ()); State_Monad.return lv }
          else State_Monad.return lv) h2 ?P"
        proof (cases "\<not> link_flag c \<and> STATUS_LINK_DOWN < st")
          case True
          show ?thesis by (subst if_P [OF True], rule up [OF h2]) (use True in blast)+
        next
          case False
          show ?thesis by (subst if_not_P [OF False], rule stay [OF h2 False])
        qed
      qed
      then show ?thesis by (subst if_not_P [OF False])
    qed
  qed
qed

end
