(* ===== verification/EthRx.thy ===== *)
theory EthRx
  imports EthDev
begin

text \<open>
  Reception in \<open>ethernetif.c\<close>: \<open>carbon_lwip_low_level_input\<close>, \<open>carbon_lwip_prepare_rx_descriptor\<close>, the macro
  \<open>DISCARD_DESCRIPTOR\<close>, \<open>pbuf_free_custom\<close> and the loop of \<open>carbon_lwip_input\<close>. A buffer travels as a custom
  pbuf, here its payload address and its length. \<open>None\<close> is \<open>Error_Handler\<close>, which never returns.
\<close>

definition WBF_PL :: u32 where "WBF_PL = 0x7FFF"
definition WBF_OWN :: u32 where "WBF_OWN = 0x80000000"
definition WBF_CTXT :: u32 where "WBF_CTXT = 0x40000000"
definition WBF_FD :: u32 where "WBF_FD = 0x20000000"
definition WBF_LD :: u32 where "WBF_LD = 0x10000000"

record rx_pbuf =
  buffer :: u32
  tot_len :: u32

definition prepare_rx_descriptor :: "'h eth_env \<Rightarrow> u32 \<Rightarrow> 'h \<Rightarrow> 'h option" where
  "prepare_rx_descriptor E bufferPtr h =
     (let (tail, h) = run_state (READ_REG E (Reg DMACRDTPR)) h;
          tail_increased = INCREASE_RX_POINTER E tail;
          (proc, h) = run_state (READ_REG E (Var toProcessPointer)) h;
          (cur, h) = run_state (READ_REG E (Reg DMACCARDR)) h
      in if cur = tail_increased then None
         else if proc = tail_increased then None
         else
           let (_, h) = run_state (prepare_rx_desc E tail bufferPtr) h;
               (_, h) = run_state (WRITE_REG E (Reg DMACRDTPR) tail_increased) h
           in Some h)"

definition pbuf_free_custom :: "'h eth_env \<Rightarrow> rx_pbuf \<Rightarrow> 'h \<Rightarrow> 'h option" where
  "pbuf_free_custom E p h =
     (let (_, h) = run_state (os E (MutexWait False)) h
      in do {
           h \<leftarrow> prepare_rx_descriptor E (buffer p) h;
           let (_, h) = run_state (os E (MutexRelease False)) h;
           Some (rx_pool_free E h)
         })"

definition discard_descriptor :: "'h eth_env \<Rightarrow> string \<Rightarrow> u32 \<Rightarrow> u32 \<Rightarrow> 'h \<Rightarrow> (rx_pbuf option \<times> 'h) option" where
  \<comment> \<open>the message and \<open>DISCARD_DESCRIPTOR\<close>, then the early return\<close>
  "discard_descriptor E msg desc bufferPtr h =
     (let (_, h) = run_state (os E (DIAG msg)) h;
          (_, h) = run_state (os E (MutexWait False)) h;
          (_, h) = run_state (WRITE_REG E (Var toProcessPointer) (INCREASE_RX_POINTER E desc)) h
      in do {
           h \<leftarrow> prepare_rx_descriptor E bufferPtr h;
           let (_, h) = run_state (os E (MutexRelease False)) h;
           Some (None, h)
         })"

definition deliver :: "'h eth_env \<Rightarrow> u32 \<Rightarrow> u32 \<Rightarrow> u32 \<Rightarrow> 'h \<Rightarrow> (rx_pbuf option \<times> 'h) option" where
  \<comment> \<open>the part of \<open>carbon_lwip_low_level_input\<close> behind the tests\<close>
  "deliver E desc bufferPtr bufferLength h =
     (let (ok, h) = rx_pool_alloc E h
      in if \<not> ok then
           let (_, h) = run_state (os E (DIAG ''low level input: cannot allocate pbuf'')) h in Some (None, h)
         else
           let (_, h) = run_state (os E (InvalidateDCache bufferPtr)) h;
               (_, h) = run_state (WRITE_REG E (Var toProcessPointer) (INCREASE_RX_POINTER E desc)) h
           in Some (Some \<lparr>buffer = bufferPtr, tot_len = bufferLength\<rparr>, h))"

definition low_level_input :: "'h eth_env \<Rightarrow> 'h \<Rightarrow> (rx_pbuf option \<times> 'h) option" where
  "low_level_input E h =
     (let (desc, h) = run_state (READ_REG E (Var toProcessPointer)) h;
          (bufferPtr, h) = run_state (READ_REG E (DESC0 desc)) h;
          (bufferLength, h) = run_state (READ_BIT E (DESC3 desc) WBF_PL) h;
          (cur, h) = run_state (READ_REG E (Reg DMACCARDR)) h
      in if desc = cur then Some (None, h)
         else
           let (own, h) = run_state (READ_BIT E (DESC3 desc) WBF_OWN) h
           in if own \<noteq> 0 then
                let (_, h) = run_state (os E (DIAG ''process does not own the descr'')) h in Some (None, h)
              else
                let (ctxt, h) = run_state (READ_BIT E (DESC3 desc) WBF_CTXT) h
                in if ctxt \<noteq> 0 then discard_descriptor E ''discarding context descriptor'' desc bufferPtr h
                   else
                     let (fd, h) = run_state (READ_BIT E (DESC3 desc) WBF_FD) h
                     in if fd = 0 then discard_descriptor E ''not first descriptor'' desc bufferPtr h
                        else
                          let (ld, h) = run_state (READ_BIT E (DESC3 desc) WBF_LD) h
                          in if ld = 0 then discard_descriptor E ''not last descriptor'' desc bufferPtr h
                             else if ETH_RX_BUFFER_SIZE_ALIGNED < bufferLength then
                               discard_descriptor E ''bufferLength > ETH_RX_BUFFER_SIZE_ALIGNED'' desc bufferPtr h
                             else deliver E desc bufferPtr bufferLength h)"

partial_function (option) input_loop :: "'h eth_env \<Rightarrow> 'h \<Rightarrow> 'h option" where [code]:
  \<comment> \<open>the inner loop of \<open>carbon_lwip_input\<close>: packets until none is left\<close>
  "input_loop E h =
     do {
       (p, h) \<leftarrow> low_level_input E h;
       case p of
         None \<Rightarrow> Some h
       | Some p \<Rightarrow>
           let (err, h) = netif_input E (buffer p) (tot_len p) h
           in if err = 0 then input_loop E h
              else
                let (_, h) = run_state (os E (DIAG (if err = - 1 then ''warning, out of memory'' else ''error pushing pbuf''))) h
                in do { h \<leftarrow> pbuf_free_custom E p h; input_loop E h }
     }"

definition input_round :: "'h eth_env \<Rightarrow> 'h \<Rightarrow> 'h option" where
  \<comment> \<open>one round of the endless loop: wait for the semaphore, then drain the ring\<close>
  "input_round E h =
     (let (ok, h) = sem_wait E False 0xFFFFFFFF h
      in if \<not> ok then Some h else input_loop E h)"

section \<open>The ring\<close>

record ring =
  r_proc :: nat
  r_cur :: nat
  r_tail :: nat
  r_buf :: "nat \<Rightarrow> u32"
  r_own :: "nat \<Rightarrow> bool"
  r_run :: bool

definition nxt :: "nat \<Rightarrow> nat" where
  "nxt i = Suc i mod ETH_RX_DESC_CNT"

inductive dma :: "ring \<Rightarrow> ring \<Rightarrow> bool" where
  \<comment> \<open>the DMA has filled the buffer of its current descriptor\<close>
  dma: "r_run r \<Longrightarrow> r_cur r \<noteq> r_tail r \<Longrightarrow> r_own r (r_cur r) \<Longrightarrow>
    dma r (r\<lparr>r_own := (r_own r)(r_cur r := False), r_cur := nxt (r_cur r)\<rparr>)"

inductive_cases dmaE: "dma r r'"

abbreviation runs :: "ring \<Rightarrow> ring \<Rightarrow> bool" where
  "runs \<equiv> dma\<^sup>*\<^sup>*"

definition rx_words :: "'h eth_env \<Rightarrow> eth_loc set" where
  \<comment> \<open>the locations through which the driver changes the ring\<close>
  "rx_words E = {Var toProcessPointer, Reg DMACRDTPR, Reg DMACRDLAR, Reg DMACRCR, Reg DMAMR} \<union>
     (\<Union>i\<in>{..<9}. {DESC0 (rx_desc E i), DESC3 (rx_desc E i)})"

definition rx_reads :: "'h eth_env \<Rightarrow> ('h \<Rightarrow> ring) \<Rightarrow> bool" where
  "rx_reads E V \<longleftrightarrow> (\<forall>h.
     fst (hw_read E (Var toProcessPointer) h) = rx_desc E (r_proc (V h)) \<and>
     fst (hw_read E (Reg DMACCARDR) h) = rx_desc E (r_cur (V h)) \<and>
     fst (hw_read E (Reg DMACRDTPR) h) = rx_desc E (r_tail (V h)) \<and>
     (\<forall>i<9. fst (hw_read E (DESC0 (rx_desc E i)) h) = r_buf (V h) i \<and>
        (fst (hw_read E (DESC3 (rx_desc E i)) h) AND WBF_OWN \<noteq> 0 \<longleftrightarrow> r_own (V h) i)))"

definition rx_writes :: "'h eth_env \<Rightarrow> ('h \<Rightarrow> ring) \<Rightarrow> bool" where
  "rx_writes E V \<longleftrightarrow> (\<forall>h.
     (\<forall>i<9. runs ((V h)\<lparr>r_proc := i\<rparr>) (V (hw_write E (Var toProcessPointer) (rx_desc E i) h)) \<and>
        runs ((V h)\<lparr>r_tail := i\<rparr>) (V (hw_write E (Reg DMACRDTPR) (rx_desc E i) h)) \<and>
        runs ((V h)\<lparr>r_cur := i\<rparr>) (V (hw_write E (Reg DMACRDLAR) (rx_desc E i) h))) \<and>
     (\<forall>v. runs ((V h)\<lparr>r_run := v AND ETH_DMACRCR_SR \<noteq> 0\<rparr>) (V (hw_write E (Reg DMACRCR) v h))) \<and>
     (\<forall>i<9. \<forall>v. runs ((V h)\<lparr>r_buf := (r_buf (V h))(i := v)\<rparr>) (V (hw_write E (DESC0 (rx_desc E i)) v h)) \<and>
        runs ((V h)\<lparr>r_own := (r_own (V h))(i := v AND WBF_OWN \<noteq> 0)\<rparr>) (V (hw_write E (DESC3 (rx_desc E i)) v h))) \<and>
     (\<forall>l v. l \<notin> rx_words E \<longrightarrow> runs (V h) (V (hw_write E l v h))))"

definition rx_hw :: "'h eth_env \<Rightarrow> ('h \<Rightarrow> ring) \<Rightarrow> bool" where
  \<comment> \<open>the DMA may move on during every access and every call; nothing else touches the ring\<close>
  "rx_hw E V \<longleftrightarrow> rx_reads E V \<and> rx_writes E V \<and>
     (\<forall>l h. runs (V h) (V (snd (hw_read E l h)))) \<and> (\<forall>op h. runs (V h) (V (os_call E op h))) \<and>
     (\<forall>h. runs (V h) (V (snd (rx_pool_alloc E h)))) \<and> (\<forall>h. runs (V h) (V (rx_pool_free E h)))"

section \<open>The ring as two queues\<close>

definition slot :: "nat \<Rightarrow> nat \<Rightarrow> nat" where
  "slot p j = (p + j) mod 9"

definition holds :: "ring \<Rightarrow> u32 list \<Rightarrow> u32 list \<Rightarrow> bool" where
  \<comment> \<open>the ring holds the buffers \<open>full\<close>, filled by the DMA and not yet processed, and then \<open>free\<close>, which the
    DMA may fill; one descriptor is always unused\<close>
  "holds r full free \<longleftrightarrow>
     r_proc r < 9 \<and> length full + length free \<le> 8 \<and>
     r_cur r = slot (r_proc r) (length full) \<and> r_tail r = slot (r_proc r) (length full + length free) \<and>
     (\<forall>j < length full + length free. r_buf r (slot (r_proc r) j) = (full @ free) ! j) \<and>
     (\<forall>j < length full + length free. r_own r (slot (r_proc r) j) \<longleftrightarrow> length full \<le> j)"

lemma slot_less [simp]: "slot p j < 9"
  by (simp add: slot_def)

lemma slot_0: "p < 9 \<Longrightarrow> slot p 0 = p"
  by (simp add: slot_def)

lemma slot_inj: "j < 9 \<Longrightarrow> k < 9 \<Longrightarrow> slot p j = slot p k \<longleftrightarrow> j = k"
proof -
  have "j = k" if "j \<le> k" "k < 9" "(p + j) mod 9 = (p + k) mod 9" for j k
  proof -
    have "9 dvd (p + k) - (p + j)" using that by (subst mod_eq_dvd_iff_nat [symmetric]) auto
    then have "9 dvd k - j" by simp
    then show ?thesis using that(1,2) by (auto dest: dvd_imp_le)
  qed
  then show "j < 9 \<Longrightarrow> k < 9 \<Longrightarrow> slot p j = slot p k \<longleftrightarrow> j = k"
    unfolding slot_def by (metis nle_le)
qed

lemma nxt_slot: "nxt (slot p j) = slot p (Suc j)"
  by (simp add: nxt_def slot_def ETH_RX_DESC_CNT_def mod_Suc_eq)

lemma slot_Suc: "slot (slot p (Suc 0)) j = slot p (Suc j)"
  by (simp add: slot_def mod_add_left_eq)

lemma holds_dma:
  assumes "holds r full free" and "dma r r'"
  obtains b bs where "free = b # bs" and "holds r' (full @ [b]) bs" and "r_proc r' = r_proc r" and "r_tail r' = r_tail r"
    and "r_buf r' = r_buf r" and "r_own r' (r_tail r) = r_own r (r_tail r)"
proof -
  let ?p = "r_proc r" and ?n = "length full"
  have h: "?p < 9" "length full + length free \<le> 8" "r_cur r = slot ?p ?n" "r_tail r = slot ?p (?n + length free)"
    using assms(1) by (auto simp: holds_def)
  from assms(2) have r': "r' = r\<lparr>r_own := (r_own r)(r_cur r := False), r_cur := nxt (r_cur r)\<rparr>" "r_cur r \<noteq> r_tail r"
    by (auto elim: dmaE)
  then have "free \<noteq> []" using h by auto
  then obtain b bs where f: "free = b # bs" by (cases free) auto
  have own: "r_own r' (slot ?p j) \<longleftrightarrow> length (full @ [b]) \<le> j" if "j < length (full @ [b]) + length bs" for j
  proof -
    have "j < length full + length free" "j < 9" "?n < 9" using that f h(2) by auto
    then have "slot ?p j = slot ?p ?n \<longleftrightarrow> j = ?n" "r_own r (slot ?p j) \<longleftrightarrow> ?n \<le> j"
      using assms(1) slot_inj [of j ?n ?p] by (auto simp: holds_def)
    then show ?thesis by (auto simp: r'(1) h(3))
  qed
  have "holds r' (full @ [b]) bs"
    unfolding holds_def using own assms(1) f
    by (auto simp: holds_def r'(1) nxt_slot)
  then show ?thesis using that f r'(2) by (simp add: r'(1))
qed

lemma holds_runs:
  assumes "runs r r'" and "holds r full free"
  shows "\<exists>new rest. free = new @ rest \<and> holds r' (full @ new) rest \<and> r_proc r' = r_proc r \<and> r_tail r' = r_tail r \<and>
    r_buf r' = r_buf r \<and> r_own r' (r_tail r) = r_own r (r_tail r)"
  using assms
proof (induction rule: rtranclp_induct)
  case base
  then show ?case by (intro exI [of _ "[]"] exI [of _ free]) simp
next
  case (step y z)
  then obtain new rest where y: "free = new @ rest" "holds y (full @ new) rest" "r_proc y = r_proc r" "r_tail y = r_tail r"
    "r_buf y = r_buf r" "r_own y (r_tail r) = r_own r (r_tail r)" by blast
  obtain b bs where "rest = b # bs" "holds z ((full @ new) @ [b]) bs" "r_proc z = r_proc y" "r_tail z = r_tail y"
    "r_buf z = r_buf y" "r_own z (r_tail y) = r_own y (r_tail y)" using holds_dma [OF y(2) step(2)] by blast
  then show ?case using y by (intro exI [of _ "new @ [b]"] exI [of _ bs]) simp
qed

lemma holds_take:
  assumes "holds r (b # full) free"
  shows "r_buf r (r_proc r) = b" and "holds (r\<lparr>r_proc := nxt (r_proc r)\<rparr>) full free"
proof -
  let ?p = "r_proc r"
  have p: "?p < 9" using assms by (simp add: holds_def)
  have n: "nxt ?p = slot ?p (Suc 0)" using p nxt_slot [of ?p 0] by (simp add: slot_0)
  have "r_buf r (slot ?p 0) = b" using assms by (force simp: holds_def)
  then show "r_buf r ?p = b" using p by (simp add: slot_0)
  have "r_buf r (slot ?p (Suc j)) = (full @ free) ! j \<and> (r_own r (slot ?p (Suc j)) \<longleftrightarrow> length full \<le> j)"
    if "j < length full + length free" for j
    using assms that unfolding holds_def by (auto dest!: spec [of _ "Suc j"])
  then show "holds (r\<lparr>r_proc := nxt ?p\<rparr>) full free"
    using assms unfolding n by (auto simp: holds_def slot_Suc)
qed

lemma holds_tail_free:
  \<comment> \<open>with fewer than eight buffers in the ring, the tail descriptor can be advanced\<close>
  assumes "holds r full free" and "length full + length free < 8"
  shows "nxt (r_tail r) \<noteq> r_cur r" and "nxt (r_tail r) \<noteq> r_proc r" and "r_tail r \<noteq> r_cur r \<or> free = []"
proof -
  let ?p = "r_proc r" and ?m = "length full + length free"
  have t: "nxt (r_tail r) = slot ?p (Suc ?m)" "r_cur r = slot ?p (length full)" "?p = slot ?p 0" "r_tail r = slot ?p ?m"
    using assms(1) by (auto simp: holds_def nxt_slot slot_0)
  show "nxt (r_tail r) \<noteq> r_cur r" unfolding t(1,2) using assms(2) by (subst slot_inj) auto
  show "nxt (r_tail r) \<noteq> ?p" using assms(2) t(1,3) slot_inj [of "Suc ?m" 0 ?p] by auto
  show "r_tail r \<noteq> r_cur r \<or> free = []" using assms(2) t(2,4) slot_inj [of ?m "length full" ?p] by auto
qed

lemma holds_tail_write:
  \<comment> \<open>the tail descriptor is outside the queues\<close>
  assumes "holds r full free"
  shows "holds (r\<lparr>r_buf := (r_buf r)(r_tail r := v)\<rparr>) full free" and "holds (r\<lparr>r_own := (r_own r)(r_tail r := o')\<rparr>) full free"
proof -
  have "slot (r_proc r) j \<noteq> r_tail r" if "j < length full + length free" for j
    using assms that slot_inj [of j "length full + length free" "r_proc r"] by (auto simp: holds_def)
  then show "holds (r\<lparr>r_buf := (r_buf r)(r_tail r := v)\<rparr>) full free" "holds (r\<lparr>r_own := (r_own r)(r_tail r := o')\<rparr>) full free"
    using assms by (auto simp: holds_def)
qed

lemma holds_refill:
  assumes "holds r full free" and "length full + length free < 8" and "r_own r (r_tail r)"
  shows "holds (r\<lparr>r_tail := nxt (r_tail r)\<rparr>) full (free @ [r_buf r (r_tail r)])"
proof -
  let ?p = "r_proc r" and ?m = "length full + length free"
  have t: "r_tail r = slot ?p ?m" using assms(1) by (simp add: holds_def)
  have c: "r_buf r (slot ?p j) = ((full @ free) @ [r_buf r (r_tail r)]) ! j \<and> (r_own r (slot ?p j) \<longleftrightarrow> length full \<le> j)"
    if "j < Suc ?m" for j
  proof (cases "j = ?m")
    case True
    then show ?thesis using assms(3) t nth_append_length [of "full @ free"] by simp
  next
    case False
    then have "j < ?m" using that by simp
    moreover from this have "((full @ free) @ [r_buf r (r_tail r)]) ! j = (full @ free) ! j" by (subst nth_append) simp
    ultimately show ?thesis using assms(1) unfolding holds_def by simp
  qed
  have "nxt (r_tail r) = slot ?p (Suc ?m)" by (simp only: t nxt_slot)
  moreover have "?p < 9" "r_cur r = slot ?p (length full)" using assms(1) by (auto simp: holds_def)
  ultimately show ?thesis
    unfolding holds_def using assms(2) c by simp
qed

section \<open>The ring as one queue\<close>

definition queue :: "ring \<Rightarrow> u32 list \<Rightarrow> bool" where
  \<comment> \<open>the buffers of the ring in the order of their descriptors\<close>
  "queue r q \<longleftrightarrow> (\<exists>full free. q = full @ free \<and> holds r full free)"

definition ready :: "ring \<Rightarrow> u32 list \<Rightarrow> bool" where
  \<comment> \<open>the same, and the first buffer is filled\<close>
  "ready r q \<longleftrightarrow> (\<exists>full free. full \<noteq> [] \<and> q = full @ free \<and> holds r full free)"

lemma ready_queue: "ready r q \<Longrightarrow> queue r q"
  by (auto simp: ready_def queue_def)

lemma queue_length: "queue r q \<Longrightarrow> length q \<le> 8"
  by (auto simp: queue_def holds_def)

lemma queue_indices: "queue r q \<Longrightarrow> r_proc r < 9 \<and> r_tail r < 9 \<and> r_cur r < 9"
  by (auto simp: queue_def holds_def)

lemma queue_runs:
  assumes "runs r r'" and "queue r q"
  shows "queue r' q" and "r_proc r' = r_proc r" and "r_tail r' = r_tail r" and "r_buf r' = r_buf r"
    and "r_own r' (r_tail r) = r_own r (r_tail r)"
proof -
  obtain full free where q: "q = full @ free" "holds r full free" using assms(2) by (auto simp: queue_def)
  obtain new rest where n: "free = new @ rest" "holds r' (full @ new) rest"
    and same: "r_proc r' = r_proc r \<and> r_tail r' = r_tail r \<and> r_buf r' = r_buf r \<and> r_own r' (r_tail r) = r_own r (r_tail r)"
    using holds_runs [OF assms(1) q(2)] by blast
  show "queue r' q" unfolding queue_def using q(1) n by (intro exI [of _ "full @ new"] exI [of _ rest]) simp
  show "r_proc r' = r_proc r" "r_tail r' = r_tail r" "r_buf r' = r_buf r" "r_own r' (r_tail r) = r_own r (r_tail r)"
    using same by blast+
qed

lemma ready_runs:
  assumes "runs r r'" and "ready r q"
  shows "ready r' q"
proof -
  obtain full free where "full \<noteq> []" "q = full @ free" "holds r full free" using assms(2) by (auto simp: ready_def)
  then obtain new rest where "free = new @ rest" "holds r' (full @ new) rest" using holds_runs [OF assms(1)] by blast
  then show ?thesis using \<open>full \<noteq> []\<close> \<open>q = full @ free\<close> unfolding ready_def
    by (intro exI [of _ "full @ new"] exI [of _ rest]) simp
qed

lemma queue_ready:
  assumes "queue r q" and "r_cur r \<noteq> r_proc r"
  shows "ready r q"
proof -
  obtain full free where h: "q = full @ free" "holds r full free" using assms(1) by (auto simp: queue_def)
  then have "full \<noteq> []" using assms(2) by (auto simp: holds_def slot_0)
  then show ?thesis using h by (auto simp: ready_def)
qed

lemma ready_take:
  assumes "ready r q"
  obtains b q' where "q = b # q'" and "r_buf r (r_proc r) = b" and "queue (r\<lparr>r_proc := nxt (r_proc r)\<rparr>) q'"
proof -
  obtain b full free where "q = b # full @ free" "holds r (b # full) free"
    using assms by (auto simp: ready_def neq_Nil_conv)
  then show ?thesis using holds_take [of r b full free] that unfolding queue_def by blast
qed

lemma queue_tail_write:
  assumes "queue r q"
  shows "queue (r\<lparr>r_buf := (r_buf r)(r_tail r := v)\<rparr>) q" and "queue (r\<lparr>r_own := (r_own r)(r_tail r := o')\<rparr>) q"
proof -
  obtain full free where q: "q = full @ free" "holds r full free" using assms by (auto simp: queue_def)
  then show "queue (r\<lparr>r_buf := (r_buf r)(r_tail r := v)\<rparr>) q" "queue (r\<lparr>r_own := (r_own r)(r_tail r := o')\<rparr>) q"
    unfolding queue_def using holds_tail_write [OF q(2)] by metis+
qed

lemma queue_refill:
  assumes "queue r q" and "length q < 8" and "r_own r (r_tail r)"
  shows "queue (r\<lparr>r_tail := nxt (r_tail r)\<rparr>) (q @ [r_buf r (r_tail r)])"
proof -
  obtain full free where "q = full @ free" "holds r full free" using assms(1) by (auto simp: queue_def)
  then show ?thesis using holds_refill [of r full free] assms(2,3) by (auto simp: queue_def intro: exI [of _ full])
qed

lemma queue_tail_free:
  assumes "queue r q" and "length q < 8"
  shows "nxt (r_tail r) \<noteq> r_cur r" and "nxt (r_tail r) \<noteq> r_proc r"
  using assms holds_tail_free(1,2) by (auto simp: queue_def)

section \<open>Pointers\<close>

lemma rx_desc_inj: "i < 9 \<Longrightarrow> j < 9 \<Longrightarrow> rx_desc E i = rx_desc E j \<longleftrightarrow> i = j"
proof -
  have "unat (of_nat n :: u32) = n" if "n < 2 ^ 32" for n
    using that by (simp add: unat_of_nat take_bit_eq_mod)
  from this [of "24 * k" for k] have u: "unat (24 * of_nat k :: u32) = 24 * k" if "k < 9" for k
    using that by simp
  assume "i < 9" "j < 9"
  then have "i = j" if "(24 * of_nat i :: u32) = 24 * of_nat j"
    using u [of i] u [of j] that by (metis mult_cancel1 zero_neq_numeral)
  moreover have "rx_desc E i = rx_desc E j \<longleftrightarrow> (24 * of_nat i :: u32) = 24 * of_nat j"
    by (simp only: rx_desc_def add_left_cancel)
  ultimately show "rx_desc E i = rx_desc E j \<longleftrightarrow> i = j" by blast
qed

lemma rx_desc_Suc: "rx_desc E i + 24 = rx_desc E (Suc i)"
  by (simp only: rx_desc_def of_nat_Suc distrib_left mult_1_right add.commute add.left_commute)

lemma increase_rx_pointer:
  assumes "i < 9"
  shows "INCREASE_RX_POINTER E (rx_desc E i) = rx_desc E (nxt i)"
proof (cases "i = 8")
  case True
  then show ?thesis by (simp add: INCREASE_RX_POINTER_def ETH_RX_DESC_CNT_def nxt_def)
next
  case False
  then have "rx_desc E i \<noteq> rx_desc E 8" "nxt i = Suc i"
    using assms rx_desc_inj [of i 8 E] by (auto simp: nxt_def ETH_RX_DESC_CNT_def)
  then show ?thesis by (simp add: INCREASE_RX_POINTER_def ETH_RX_DESC_CNT_def rx_desc_Suc)
qed

lemma nxt_less [simp]: "nxt i < 9"
  by (simp add: nxt_def ETH_RX_DESC_CNT_def)

end
