(* ===== verification/EthRxInv.thy ===== *)
theory EthRxInv
  imports EthRx
begin

text \<open>
  What the receive operations do to the queue of buffers in the ring, whatever the DMA does between any two of
  their accesses: a delivered packet takes the first buffer, a freed or discarded one goes to the end, and
  with a buffer in hand there is always room for it.
\<close>

section \<open>Accesses\<close>

definition kept :: "ring \<Rightarrow> ring \<Rightarrow> u32 list \<Rightarrow> bool" where
  \<comment> \<open>the ring still holds \<open>q\<close>, and all but the progress of the DMA is as before\<close>
  "kept r r' q \<longleftrightarrow> queue r' q \<and> r_proc r' = r_proc r \<and> r_tail r' = r_tail r \<and> r_buf r' = r_buf r \<and>
     r_own r' (r_tail r) = r_own r (r_tail r)"

lemma kept_runs: "runs r r' \<Longrightarrow> queue r q \<Longrightarrow> kept r r' q"
  unfolding kept_def using queue_runs by blast

lemma kept_trans: "kept r r' q \<Longrightarrow> runs r' r'' \<Longrightarrow> kept r r'' q"
  using queue_runs [of r' r'' q] by (auto simp: kept_def)

lemma read_runs:
  assumes "rx_hw E V" and "run_state (READ_REG E l) h = (v, h')"
  shows "runs (V h) (V h')"
  using assms unfolding rx_hw_def READ_REG_def by (metis snd_conv state.sel)

lemma read_bit_runs:
  assumes "rx_hw E V" and "run_state (READ_BIT E l m) h = (v, h')"
  shows "runs (V h) (V h')"
  using assms(2) read_runs [OF assms(1), of l h] by (auto simp: READ_BIT_def split: prod.splits)

lemma os_runs:
  assumes "rx_hw E V" and "run_state (os E op) h = (u, h')"
  shows "runs (V h) (V h')"
  using assms by (auto simp: rx_hw_def os_def)

lemma rx_read_values:
  assumes "rx_hw E V"
  shows "run_state (READ_REG E (Var toProcessPointer)) h = (v, h') \<Longrightarrow> v = rx_desc E (r_proc (V h))"
    and "run_state (READ_REG E (Reg DMACCARDR)) h = (v, h') \<Longrightarrow> v = rx_desc E (r_cur (V h))"
    and "run_state (READ_REG E (Reg DMACRDTPR)) h = (v, h') \<Longrightarrow> v = rx_desc E (r_tail (V h))"
    and "i < 9 \<Longrightarrow> run_state (READ_REG E (DESC0 (rx_desc E i))) h = (v, h') \<Longrightarrow> v = r_buf (V h) i"
  using assms unfolding rx_hw_def rx_reads_def READ_REG_def by (metis fst_conv state.sel)+

lemma other_word:
  assumes "i < 9" and "k \<in> {4, 8, 16, 20}"
  shows "Mem (rx_desc E i + of_nat k) \<notin> rx_words E"
proof -
  have u: "unat (of_nat n :: u32) = n" if "n < 2 ^ 32" for n
    using that by (simp add: unat_of_nat take_bit_eq_mod)
  have ne: "rx_desc E i + of_nat k \<noteq> rx_desc E j + of_nat k'" if j: "j < 9" and k': "k' \<in> {0, 12}" for j k'
  proof
    assume "rx_desc E i + of_nat k = rx_desc E j + of_nat k'"
    then have "(of_nat (24 * i + k) :: u32) = of_nat (24 * j + k')"
      by (simp add: rx_desc_def add.assoc)
    moreover have "24 * i + k < 2 ^ 32" "24 * j + k' < 2 ^ 32" using assms j k' by auto
    ultimately have "24 * i + k = 24 * j + k'" using u by metis
    then have "(24 * i + k) mod 12 = (24 * j + k') mod 12" by simp
    moreover have "(24 * i + k) mod 12 \<noteq> 0" "(24 * j + k') mod 12 = 0" using assms(2) k' by (auto, presburger+)
    ultimately show False by simp
  qed
  show ?thesis
    using ne [of _ 0] ne [of _ 12] by (auto simp: rx_words_def)
qed

lemma write_other_runs:
  assumes "rx_hw E V" and "l \<notin> rx_words E"
  shows "runs (V h) (V (hw_write E l v h))"
  using assms by (simp add: rx_hw_def rx_writes_def)

lemma write_buf_runs:
  assumes "rx_hw E V" and "i < 9"
  shows "runs ((V h)\<lparr>r_buf := (r_buf (V h))(i := v)\<rparr>) (V (hw_write E (DESC0 (rx_desc E i)) v h))"
    and "runs ((V h)\<lparr>r_own := (r_own (V h))(i := v AND WBF_OWN \<noteq> 0)\<rparr>) (V (hw_write E (DESC3 (rx_desc E i)) v h))"
    and "runs ((V h)\<lparr>r_tail := i\<rparr>) (V (hw_write E (Reg DMACRDTPR) (rx_desc E i) h))"
    and "runs ((V h)\<lparr>r_proc := i\<rparr>) (V (hw_write E (Var toProcessPointer) (rx_desc E i) h))"
  using assms by (simp_all add: rx_hw_def rx_writes_def)

section \<open>Giving a buffer back\<close>

lemma prepare_rx_desc_queue:
  assumes hw: "rx_hw E V" and q: "queue (V h) q" and t: "r_tail (V h) = t"
    and run: "run_state (prepare_rx_desc E (rx_desc E t) b) h = (u, h')"
  shows "queue (V h') q" and "r_tail (V h') = t" and "r_buf (V h') t = b" and "r_own (V h') t"
    and "r_proc (V h') = r_proc (V h)"
proof -
  let ?d = "rx_desc E t"
  have t9: "t < 9" using queue_indices [OF q] t by simp
  define h1 where "h1 = hw_write E (DESC0 ?d) b h"
  define h2 where "h2 = hw_write E (DESC1 ?d) 0 h1"
  define h3 where "h3 = hw_write E (DESC2 ?d) 0 h2"
  define h4 where "h4 = hw_write E (DESC3 ?d) 0xC1000000 h3"
  define h5 where "h5 = hw_write E (BackupAddr0 ?d) b h4"
  have h': "h' = hw_write E (BackupAddr1 ?d) 0 h5"
    using run by (simp add: prepare_rx_desc_def h1_def h2_def h3_def h4_def h5_def)
  have out: "Mem (?d + 4) \<notin> rx_words E" "Mem (?d + 8) \<notin> rx_words E" "Mem (?d + 16) \<notin> rx_words E" "Mem (?d + 20) \<notin> rx_words E"
    using other_word [OF t9, of 4 E] other_word [OF t9, of 8 E] other_word [OF t9, of 16 E] other_word [OF t9, of 20 E] by simp_all
  let ?r1 = "(V h)\<lparr>r_buf := (r_buf (V h))(t := b)\<rparr>"
  have "runs ?r1 (V h1)" unfolding h1_def by (rule write_buf_runs(1) [OF hw t9])
  moreover have "runs (V h1) (V h2)" "runs (V h2) (V h3)"
    unfolding h2_def h3_def by (rule write_other_runs [OF hw out(1)], rule write_other_runs [OF hw out(2)])
  ultimately have "runs ?r1 (V h3)" by simp
  then have k3: "kept ?r1 (V h3) q" using queue_tail_write(1) [OF q] t by (intro kept_runs) auto
  let ?r4 = "(V h3)\<lparr>r_own := (r_own (V h3))(t := True)\<rparr>"
  have "runs ?r4 (V h4)" unfolding h4_def using write_buf_runs(2) [OF hw t9, of h3 "0xC1000000"] by (simp add: WBF_OWN_def)
  moreover have "runs (V h4) (V h5)" "runs (V h5) (V h')"
    unfolding h5_def h' by (rule write_other_runs [OF hw out(3)], rule write_other_runs [OF hw out(4)])
  ultimately have "runs ?r4 (V h')" by simp
  moreover have "queue ?r4 q" using queue_tail_write(2) [of "V h3" q True] k3 t by (simp add: kept_def)
  ultimately have "kept ?r4 (V h') q" by (rule kept_runs)
  then show "queue (V h') q" "r_tail (V h') = t" "r_buf (V h') t = b" "r_own (V h') t" "r_proc (V h') = r_proc (V h)"
    using k3 t by (simp_all add: kept_def)
qed

lemma prepare_rx_descriptor_queue:
  assumes hw: "rx_hw E V" and q: "queue (V h) q" and len: "length q < 8"
  shows "\<exists>h'. prepare_rx_descriptor E b h = Some h' \<and> queue (V h') (q @ [b]) \<and> r_proc (V h') = r_proc (V h)"
proof -
  let ?t = "r_tail (V h)"
  have t9: "?t < 9" using queue_indices [OF q] by simp
  obtain tail h1 where r1: "run_state (READ_REG E (Reg DMACRDTPR)) h = (tail, h1)" by fastforce
  obtain proc h2 where r2: "run_state (READ_REG E (Var toProcessPointer)) h1 = (proc, h2)" by fastforce
  obtain cur h3 where r3: "run_state (READ_REG E (Reg DMACCARDR)) h2 = (cur, h3)" by fastforce
  have k1: "kept (V h) (V h1) q" using kept_runs [OF read_runs [OF hw r1] q] .
  have k2: "kept (V h) (V h2) q" using kept_trans [OF k1 read_runs [OF hw r2]] .
  have k3: "kept (V h) (V h3) q" using kept_trans [OF k2 read_runs [OF hw r3]] .
  have tail: "tail = rx_desc E ?t" by (rule rx_read_values(3) [OF hw r1])
  have inc: "INCREASE_RX_POINTER E tail = rx_desc E (nxt ?t)" unfolding tail by (rule increase_rx_pointer [OF t9])
  have "cur \<noteq> rx_desc E (nxt ?t)"
    using rx_read_values(2) [OF hw r3] queue_tail_free(1) [of "V h2" q] queue_indices [of "V h2" q] k2 len
    by (simp add: kept_def rx_desc_inj)
  moreover have "proc \<noteq> rx_desc E (nxt ?t)"
    using rx_read_values(1) [OF hw r2] queue_tail_free(2) [of "V h1" q] queue_indices [of "V h1" q] k1 len
    by (simp add: kept_def rx_desc_inj)
  moreover obtain h4 where r4: "run_state (prepare_rx_desc E tail b) h3 = ((), h4)"
    by (metis old.unit.exhaust surj_pair)
  define h5 where "h5 = hw_write E (Reg DMACRDTPR) (rx_desc E (nxt ?t)) h4"
  ultimately have "prepare_rx_descriptor E b h = Some h5"
    by (simp add: prepare_rx_descriptor_def r1 r2 r3 inc r4 h5_def)
  moreover have p4: "queue (V h4) q" "r_tail (V h4) = ?t" "r_buf (V h4) ?t = b" "r_own (V h4) ?t" "r_proc (V h4) = r_proc (V h)"
    using prepare_rx_desc_queue [OF hw, of h3 q ?t b "()" h4] k3 r4 by (simp_all add: tail kept_def)
  moreover have "queue ((V h4)\<lparr>r_tail := nxt ?t\<rparr>) (q @ [b])"
    using queue_refill [OF p4(1) len] p4(2-4) by simp
  then have "kept ((V h4)\<lparr>r_tail := nxt ?t\<rparr>) (V h5) (q @ [b])"
    unfolding h5_def by (intro kept_runs write_buf_runs(3) [OF hw]) simp_all
  ultimately show ?thesis by (intro exI [of _ h5]) (simp add: kept_def)
qed

lemma pbuf_free_custom_queue:
  assumes hw: "rx_hw E V" and q: "queue (V h) q" and len: "length q < 8"
  shows "\<exists>h'. pbuf_free_custom E p h = Some h' \<and> queue (V h') (q @ [buffer p])"
proof -
  let ?h = "os_call E (MutexWait False) h"
  have runs_os: "runs (V h) (V (os_call E op h))" for op h using hw by (simp add: rx_hw_def)
  have "queue (V ?h) q" using queue_runs(1) [OF runs_os q] .
  then obtain h1 where h1: "prepare_rx_descriptor E (buffer p) ?h = Some h1" "queue (V h1) (q @ [buffer p])"
    using prepare_rx_descriptor_queue [OF hw _ len] by blast
  have "runs (V h1) (V (rx_pool_free E (os_call E (MutexRelease False) h1)))"
    using runs_os hw unfolding rx_hw_def by (meson rtranclp_trans)
  then show ?thesis
    using h1 queue_runs(1) by (auto simp: pbuf_free_custom_def)
qed

section \<open>Taking a buffer\<close>

lemma take_queue:
  \<comment> \<open>advancing the processing pointer past a filled buffer\<close>
  assumes hw: "rx_hw E V" and r: "ready (V h) q" and p: "r_proc (V h) = i"
  obtains b q' where "q = b # q'" and "r_buf (V h) i = b"
    and "queue (V (hw_write E (Var toProcessPointer) (INCREASE_RX_POINTER E (rx_desc E i)) h)) q'"
proof -
  obtain b q' where b: "q = b # q'" "r_buf (V h) i = b" "queue ((V h)\<lparr>r_proc := nxt i\<rparr>) q'"
    using ready_take [OF r] p by blast
  have "i < 9" using queue_indices [OF ready_queue [OF r]] p by simp
  then have "runs ((V h)\<lparr>r_proc := nxt i\<rparr>) (V (hw_write E (Var toProcessPointer) (INCREASE_RX_POINTER E (rx_desc E i)) h))"
    using write_buf_runs(4) [OF hw, of "nxt i" h] by (simp add: increase_rx_pointer)
  then show ?thesis using that b queue_runs(1) by blast
qed

lemma discard_descriptor_queue:
  assumes hw: "rx_hw E V" and r: "ready (V h) q" and p: "r_proc (V h) = i" and b: "b = r_buf (V h) i"
  shows "\<exists>h'. discard_descriptor E msg (rx_desc E i) b h = Some (None, h') \<and> queue (V h') (rotate1 q)"
proof -
  have runs_os: "runs (V h) (V (os_call E op h))" for op h using hw by (simp add: rx_hw_def)
  define h2 where "h2 = os_call E (MutexWait False) (os_call E (DIAG msg) h)"
  have run2: "runs (V h) (V h2)" unfolding h2_def using runs_os by (meson rtranclp_trans)
  have r2: "ready (V h2) q" using ready_runs [OF run2 r] .
  have same: "r_proc (V h2) = i" "r_buf (V h2) = r_buf (V h)" using queue_runs [OF run2 ready_queue [OF r]] p by simp_all
  define h3 where "h3 = hw_write E (Var toProcessPointer) (INCREASE_RX_POINTER E (rx_desc E i)) h2"
  obtain q' where q: "q = b # q'" "queue (V h3) q'"
    using take_queue [OF hw r2 same(1)] same(2) b unfolding h3_def by metis
  have "length q' < 8" using queue_length [OF ready_queue [OF r]] q(1) by simp
  then obtain h4 where h4: "prepare_rx_descriptor E b h3 = Some h4" "queue (V h4) (q' @ [b])"
    using prepare_rx_descriptor_queue [OF hw q(2)] by blast
  have "queue (V (os_call E (MutexRelease False) h4)) (q' @ [b])" using queue_runs(1) [OF runs_os h4(2)] .
  then show ?thesis
    using h4(1) q(1) by (simp add: discard_descriptor_def h2_def [symmetric] h3_def [symmetric])
qed

lemma deliver_queue:
  assumes hw: "rx_hw E V" and r: "ready (V h) q" and p: "r_proc (V h) = i" and b: "b = r_buf (V h) i"
  shows "\<exists>res h'. deliver E (rx_desc E i) b n h = Some (res, h') \<and>
    (case res of None \<Rightarrow> queue (V h') q | Some p \<Rightarrow> p = \<lparr>buffer = b, tot_len = n\<rparr> \<and> q = b # tl q \<and> queue (V h') (tl q))"
proof -
  have runs_os: "runs (V h) (V (os_call E op h))" for op h using hw by (simp add: rx_hw_def)
  obtain ok h1 where a: "rx_pool_alloc E h = (ok, h1)" by fastforce
  have run1: "runs (V h) (V h1)" using hw a unfolding rx_hw_def by (metis snd_conv)
  show ?thesis
  proof (cases ok)
    case False
    have "queue (V (os_call E (DIAG ''low level input: cannot allocate pbuf'') h1)) q"
      by (rule queue_runs(1) [OF runs_os]) (rule queue_runs(1) [OF run1 ready_queue [OF r]])
    then show ?thesis using False a by (simp add: deliver_def)
  next
    case True
    define h2 where "h2 = os_call E (InvalidateDCache b) h1"
    have run2: "runs (V h) (V h2)" unfolding h2_def using run1 runs_os by (meson rtranclp_trans)
    have same: "r_proc (V h2) = i" "r_buf (V h2) = r_buf (V h)" using queue_runs [OF run2 ready_queue [OF r]] p by simp_all
    obtain q' where "q = b # q'" "queue (V (hw_write E (Var toProcessPointer) (INCREASE_RX_POINTER E (rx_desc E i)) h2)) q'"
      using take_queue [OF hw ready_runs [OF run2 r] same(1)] same(2) b by metis
    then show ?thesis using True a by (simp add: deliver_def h2_def [symmetric])
  qed
qed

lemma low_level_input_queue:
  assumes hw: "rx_hw E V" and q: "queue (V h) q"
  shows "\<exists>res h'. low_level_input E h = Some (res, h') \<and>
    (case res of None \<Rightarrow> queue (V h') q \<or> queue (V h') (rotate1 q)
     | Some p \<Rightarrow> q = buffer p # tl q \<and> tot_len p \<le> ETH_RX_BUFFER_SIZE_ALIGNED \<and> queue (V h') (tl q))"
proof -
  let ?i = "r_proc (V h)"
  have runs_os: "runs (V h) (V (os_call E op h))" for op h using hw by (simp add: rx_hw_def)
  have i9: "?i < 9" using queue_indices [OF q] by simp
  obtain desc h1 where r1: "run_state (READ_REG E (Var toProcessPointer)) h = (desc, h1)" by fastforce
  have desc: "desc = rx_desc E ?i" by (rule rx_read_values(1) [OF hw r1])
  obtain b h2 where r2: "run_state (READ_REG E (DESC0 desc)) h1 = (b, h2)" by fastforce
  obtain n h3 where r3: "run_state (READ_BIT E (DESC3 desc) WBF_PL) h2 = (n, h3)" by fastforce
  obtain cur h4 where r4: "run_state (READ_REG E (Reg DMACCARDR)) h3 = (cur, h4)" by fastforce
  obtain own h5 where r5: "run_state (READ_BIT E (DESC3 desc) WBF_OWN) h4 = (own, h5)" by fastforce
  obtain ctxt h6 where r6: "run_state (READ_BIT E (DESC3 desc) WBF_CTXT) h5 = (ctxt, h6)" by fastforce
  obtain fd h7 where r7: "run_state (READ_BIT E (DESC3 desc) WBF_FD) h6 = (fd, h7)" by fastforce
  obtain ld h8 where r8: "run_state (READ_BIT E (DESC3 desc) WBF_LD) h7 = (ld, h8)" by fastforce
  have k1: "kept (V h) (V h1) q" using kept_runs [OF read_runs [OF hw r1] q] .
  have k2: "kept (V h) (V h2) q" using kept_trans [OF k1 read_runs [OF hw r2]] .
  have k3: "kept (V h) (V h3) q" using kept_trans [OF k2 read_bit_runs [OF hw r3]] .
  have k4: "kept (V h) (V h4) q" using kept_trans [OF k3 read_runs [OF hw r4]] .
  have k5: "kept (V h) (V h5) q" using kept_trans [OF k4 read_bit_runs [OF hw r5]] .
  have k6: "kept (V h) (V h6) q" using kept_trans [OF k5 read_bit_runs [OF hw r6]] .
  have k7: "kept (V h) (V h7) q" using kept_trans [OF k6 read_bit_runs [OF hw r7]] .
  have k8: "kept (V h) (V h8) q" using kept_trans [OF k7 read_bit_runs [OF hw r8]] .
  have b: "b = r_buf (V h) ?i"
    using rx_read_values(4) [OF hw i9, of h1 b h2] r2 k1 by (simp add: desc kept_def)
  have main: "low_level_input E h =
    (if desc = cur then Some (None, h4)
     else if own \<noteq> 0 then Some (None, os_call E (DIAG ''process does not own the descr'') h5)
     else if ctxt \<noteq> 0 then discard_descriptor E ''discarding context descriptor'' desc b h6
     else if fd = 0 then discard_descriptor E ''not first descriptor'' desc b h7
     else if ld = 0 then discard_descriptor E ''not last descriptor'' desc b h8
     else if ETH_RX_BUFFER_SIZE_ALIGNED < n then discard_descriptor E ''bufferLength > ETH_RX_BUFFER_SIZE_ALIGNED'' desc b h8
     else deliver E desc b n h8)"
    by (simp add: low_level_input_def r1 r2 r3 r4 r5 r6 r7 r8)
  show ?thesis
  proof (cases "desc = cur")
    case True
    then show ?thesis using k4 by (simp add: main kept_def)
  next
    case False
    have "r_cur (V h3) \<noteq> r_proc (V h3)"
      using False rx_read_values(2) [OF hw r4] k3 by (auto simp: desc kept_def)
    then have "ready (V h3) q" using k3 queue_ready by (simp add: kept_def)
    then have ready: "ready (V h4) q" "ready (V h5) q" "ready (V h6) q" "ready (V h7) q" "ready (V h8) q"
      using ready_runs read_runs [OF hw r4] read_bit_runs [OF hw r5] read_bit_runs [OF hw r6] read_bit_runs [OF hw r7]
        read_bit_runs [OF hw r8] by blast+
    have disc: "\<exists>res h'. discard_descriptor E msg desc b x = Some (res, h') \<and>
      (case res of None \<Rightarrow> queue (V h') q \<or> queue (V h') (rotate1 q)
       | Some p \<Rightarrow> q = buffer p # tl q \<and> tot_len p \<le> ETH_RX_BUFFER_SIZE_ALIGNED \<and> queue (V h') (tl q))"
      if "ready (V x) q" "kept (V h) (V x) q" for x msg
      using discard_descriptor_queue [OF hw that(1), of ?i b msg] that(2) b by (fastforce simp: desc kept_def)
    consider "own \<noteq> 0" | "own = 0" "ctxt \<noteq> 0" | "own = 0" "ctxt = 0" "fd = 0" | "own = 0" "ctxt = 0" "fd \<noteq> 0" "ld = 0"
      | "own = 0" "ctxt = 0" "fd \<noteq> 0" "ld \<noteq> 0" "ETH_RX_BUFFER_SIZE_ALIGNED < n"
      | "own = 0" "ctxt = 0" "fd \<noteq> 0" "ld \<noteq> 0" "n \<le> ETH_RX_BUFFER_SIZE_ALIGNED" by fastforce
    then show ?thesis
    proof cases
      case 1
      have "queue (V (os_call E (DIAG ''process does not own the descr'') h5)) q"
        using queue_runs(1) [OF runs_os] k5 by (simp add: kept_def)
      then show ?thesis using 1 False by (simp add: main)
    next
      case 2
      then show ?thesis using disc [OF ready(3) k6] False by (simp add: main)
    next
      case 3
      then show ?thesis using disc [OF ready(4) k7] False by (simp add: main)
    next
      case 4
      then show ?thesis using disc [OF ready(5) k8] False by (simp add: main)
    next
      case 5
      then show ?thesis using disc [OF ready(5) k8] False by (simp add: main)
    next
      case 6
      obtain res h' where d: "deliver E desc b n h8 = Some (res, h')" "case res of None \<Rightarrow> queue (V h') q
        | Some p \<Rightarrow> p = \<lparr>buffer = b, tot_len = n\<rparr> \<and> q = b # tl q \<and> queue (V h') (tl q)"
        using deliver_queue [OF hw ready(5), of ?i b n] k8 b by (auto simp: desc kept_def)
      then show ?thesis using 6 False by (auto simp: main split: option.splits)
    qed
  qed
qed

end
