(* ===== verification/EthRxReach.thy ===== *)
theory EthRxReach
  imports EthRxInv "HOL-Library.Multiset"
begin

text \<open>
  The receive path as a transition system: the input task takes packets from the ring, the network stack
  gives their buffers back in any order, and the DMA runs in between. The invariant counts the buffers.
\<close>

section \<open>The ring after \<open>rx_dec_list_init\<close>\<close>

lemma mset_rotate1: "mset (rotate1 q) = mset q"
  by (cases q) simp_all

lemma stopped_runs: "runs r r' \<Longrightarrow> \<not> r_run r \<Longrightarrow> r' = r"
  by (induction rule: rtranclp_induct) (auto elim: dmaE)

lemma stopped_writes:
  assumes hw: "rx_hw E V" and s: "\<not> r_run (V h)"
  shows "i < 9 \<Longrightarrow> V (hw_write E (DESC0 (rx_desc E i)) v h) = (V h)\<lparr>r_buf := (r_buf (V h))(i := v)\<rparr>"
    and "i < 9 \<Longrightarrow> V (hw_write E (DESC3 (rx_desc E i)) v h) = (V h)\<lparr>r_own := (r_own (V h))(i := v AND WBF_OWN \<noteq> 0)\<rparr>"
    and "i < 9 \<Longrightarrow> V (hw_write E (Reg DMACRDTPR) (rx_desc E i) h) = (V h)\<lparr>r_tail := i\<rparr>"
    and "i < 9 \<Longrightarrow> V (hw_write E (Reg DMACRDLAR) (rx_desc E i) h) = (V h)\<lparr>r_cur := i\<rparr>"
    and "i < 9 \<Longrightarrow> V (hw_write E (Var toProcessPointer) (rx_desc E i) h) = (V h)\<lparr>r_proc := i\<rparr>"
    and "l \<notin> rx_words E \<Longrightarrow> V (hw_write E l v h) = V h"
  using hw s unfolding rx_hw_def rx_writes_def by (auto intro!: stopped_runs)

lemma prepare_rx_desc_stopped:
  assumes hw: "rx_hw E V" and s: "\<not> r_run (V h)" and i: "i < 9"
  shows "V (snd (run_state (prepare_rx_desc E (rx_desc E i) b) h)) =
    (V h)\<lparr>r_buf := (r_buf (V h))(i := b), r_own := (r_own (V h))(i := True)\<rparr>"
proof -
  note w = stopped_writes [OF hw]
  have out: "Mem (rx_desc E i + 4) \<notin> rx_words E" "Mem (rx_desc E i + 8) \<notin> rx_words E"
    "Mem (rx_desc E i + 16) \<notin> rx_words E" "Mem (rx_desc E i + 20) \<notin> rx_words E"
    using other_word [OF i, of 4 E] other_word [OF i, of 8 E] other_word [OF i, of 16 E] other_word [OF i, of 20 E] by simp_all
  show ?thesis
    using s i out by (simp add: prepare_rx_desc_def w WBF_OWN_def)
qed

lemma rx_loop_stopped:
  assumes hw: "rx_hw E V" and "\<not> r_run (V h)" and "set is \<subseteq> {..<9}"
  shows "V (snd (run_state (for_each is (\<lambda>i. do {
         _ \<leftarrow> WRITE_REG E (Var (rxDesc i)) (rx_desc E i);
         prepare_rx_desc E (rx_desc E i) (rx_buffer E i)
       })) h)) = (V h)\<lparr>r_buf := (\<lambda>i. if i \<in> set is then rx_buffer E i else r_buf (V h) i),
         r_own := (\<lambda>i. i \<in> set is \<or> r_own (V h) i)\<rparr>"
  using assms(2,3)
proof (induction "is" arbitrary: h)
  case Nil
  then show ?case by simp
next
  case (Cons i "is")
  define h1 where "h1 = hw_write E (Var (rxDesc i)) (rx_desc E i) h"
  have "Var (rxDesc i) \<notin> rx_words E" by (auto simp: rx_words_def)
  then have h1: "V h1 = V h" unfolding h1_def using Cons.prems(1) by (intro stopped_writes(6) [OF hw])
  define h2 where "h2 = snd (run_state (prepare_rx_desc E (rx_desc E i) (rx_buffer E i)) h1)"
  have r2: "run_state (prepare_rx_desc E (rx_desc E i) (rx_buffer E i)) h1 = ((), h2)" unfolding h2_def by (rule run_unit)
  then have h2: "V h2 = (V h)\<lparr>r_buf := (r_buf (V h))(i := rx_buffer E i), r_own := (r_own (V h))(i := True)\<rparr>"
    using prepare_rx_desc_stopped [OF hw, of h1 i "rx_buffer E i"] h1 Cons.prems by simp
  show ?case
    using Cons.IH [of h2] Cons.prems
    by (intro ring.equality) (auto simp: h1_def [symmetric] r2 h2 fun_eq_iff)
qed

lemma rx_dec_list_init_ring:
  assumes hw: "rx_hw E V" and s: "\<not> r_run (V h)"
  shows "V (snd (run_state (rx_dec_list_init E) h)) = (V h)\<lparr>r_buf := (\<lambda>i. if i < 9 then rx_buffer E i else r_buf (V h) i),
    r_own := (\<lambda>i. i < 9 \<or> r_own (V h) i), r_proc := 0, r_cur := 0, r_tail := 8\<rparr>"
proof -
  let ?loop = "for_each [0..<ETH_RX_DESC_CNT] (\<lambda>i. do {
         _ \<leftarrow> WRITE_REG E (Var (rxDesc i)) (rx_desc E i);
         prepare_rx_desc E (rx_desc E i) (rx_buffer E i)
       })"
  define h1 where "h1 = snd (run_state ?loop h)"
  have r1: "run_state ?loop h = ((), h1)" unfolding h1_def by (rule run_unit)
  have "set [0..<ETH_RX_DESC_CNT] = {..<9}" by (auto simp: ETH_RX_DESC_CNT_def)
  then have h1: "V h1 = (V h)\<lparr>r_buf := (\<lambda>i. if i < 9 then rx_buffer E i else r_buf (V h) i),
      r_own := (\<lambda>i. i < 9 \<or> r_own (V h) i)\<rparr>"
    using rx_loop_stopped [OF hw s, of "[0..<ETH_RX_DESC_CNT]"] r1 by simp
  note w = stopped_writes [OF hw]
  define h2 where "h2 = hw_write E (Var toProcessPointer) (rx_desc E 0) h1"
  define h3 where "h3 = hw_write E (Reg DMACRDRLR) (of_nat (ETH_RX_DESC_CNT - 1)) h2"
  define h4 where "h4 = hw_write E (Reg DMACRDLAR) (rx_desc E 0) h3"
  define h5 where "h5 = hw_write E (Reg DMACRDTPR) (rx_desc E 8) h4"
  have end_state: "snd (run_state (rx_dec_list_init E) h) = h5"
    using r1 by (simp add: rx_dec_list_init_def h2_def h3_def h4_def h5_def ETH_RX_DESC_CNT_def)
  have h2: "V h2 = (V h1)\<lparr>r_proc := 0\<rparr>" unfolding h2_def using s h1 by (intro w(5)) auto
  have h3: "V h3 = V h2" unfolding h3_def using s h1 h2 by (intro w(6)) (auto simp: rx_words_def)
  have h4: "V h4 = (V h2)\<lparr>r_cur := 0\<rparr>" unfolding h4_def using s h1 h2 h3 by (subst w(4)) auto
  have h5: "V h5 = (V h4)\<lparr>r_tail := 8\<rparr>" unfolding h5_def using s h1 h2 h3 h4 by (intro w(3)) auto
  show ?thesis unfolding end_state h5 h4 h2 h1 by simp
qed

lemma rx_dec_list_init_queue:
  assumes hw: "rx_hw E V" and s: "\<not> r_run (V h)"
  shows "queue (V (snd (run_state (rx_dec_list_init E) h))) (map (rx_buffer E) [0..<8])"
proof -
  have "holds (V (snd (run_state (rx_dec_list_init E) h))) [] (map (rx_buffer E) [0..<8])"
    unfolding holds_def rx_dec_list_init_ring [OF assms] by (auto simp: slot_def)
  then show ?thesis by (auto simp: queue_def)
qed

section \<open>Reachable states\<close>

inductive rx_reach :: "'h eth_env \<Rightarrow> ('h \<Rightarrow> ring) \<Rightarrow> 'h \<Rightarrow> u32 multiset \<Rightarrow> bool" for E V where
  \<comment> \<open>a state of the world and the buffers that the network stack holds\<close>
  init: "\<not> r_run (V h) \<Longrightarrow> rx_reach E V (snd (run_state (rx_dec_list_init E) h)) {#}"
| packet: "rx_reach E V h out \<Longrightarrow> low_level_input E h = Some (Some p, h') \<Longrightarrow> rx_reach E V h' (add_mset (buffer p) out)"
| no_packet: "rx_reach E V h out \<Longrightarrow> low_level_input E h = Some (None, h') \<Longrightarrow> rx_reach E V h' out"
| free: "rx_reach E V h out \<Longrightarrow> buffer p \<in># out \<Longrightarrow> pbuf_free_custom E p h = Some h' \<Longrightarrow>
    rx_reach E V h' (out - {#buffer p#})"
| run: "rx_reach E V h out \<Longrightarrow> rx_reach E V (hw_write E (Reg DMACRCR) v h) out"
| other: "rx_reach E V h out \<Longrightarrow> runs (V h) (V h') \<Longrightarrow> rx_reach E V h' out"

definition buffers_ok :: "'h eth_env \<Rightarrow> ring \<Rightarrow> u32 multiset \<Rightarrow> bool" where
  "buffers_ok E r out \<longleftrightarrow> (\<exists>q. queue r q \<and> mset q + out = mset (map (rx_buffer E) [0..<8]))"

lemma buffers_ok_size:
  assumes "queue r q" and "mset q + out = mset (map (rx_buffer E) [0..<8])"
  shows "length q + size out = 8"
proof -
  have "size (mset q + out) = 8" by (simp add: assms(2))
  then show ?thesis by simp
qed

lemma free_room:
  assumes "queue r q" and "mset q + out = mset (map (rx_buffer E) [0..<8])" and "b \<in># out"
  shows "length q < 8"
proof -
  have "size out \<noteq> 0" using assms(3) by auto
  then show ?thesis using buffers_ok_size [OF assms(1,2)] by linarith
qed

lemma rx_buffers_distinct: "distinct (map (rx_buffer E) [0..<8])"
proof -
  have "unat (of_nat n :: u32) = n" if "n < 2 ^ 32" for n
    using that by (simp add: unat_of_nat take_bit_eq_mod)
  from this [of "1536 * k" for k] have u: "unat (1536 * of_nat k :: u32) = 1536 * k" if "k < 8" for k
    using that by simp
  have "i = j" if e: "rx_buffer E i = rx_buffer E j" and "i < 8" "j < 8" for i j
  proof -
    have "(1536 * of_nat i :: u32) = 1536 * of_nat j"
      using e unfolding rx_buffer_def buffer_size_aligned by (simp only: add_left_cancel)
    then have "1536 * i = 1536 * j" using u [OF that(2)] u [OF that(3)] by metis
    then show ?thesis by simp
  qed
  then show ?thesis by (auto simp: distinct_map inj_on_def)
qed

lemma buffers_ok_separate:
  assumes "queue r q" and "mset q + out = mset (map (rx_buffer E) [0..<8])"
  shows "distinct q" and "set q \<inter> set_mset out = {}" and "count out b \<le> 1"
proof -
  have c: "count (mset q) x + count out x \<le> 1" for x
  proof -
    have "count (mset q + out) x \<le> 1"
      unfolding assms(2) using rx_buffers_distinct [of E] by (simp only: distinct_count_atmost_1) simp
    then show ?thesis by simp
  qed
  have "count (mset q) x \<le> 1" for x using c [of x] by linarith
  then show "distinct q"
    unfolding distinct_count_atmost_1 by (auto simp: le_Suc_eq count_eq_zero_iff)
  show "count out b \<le> 1" using c [of b] by linarith
  show "set q \<inter> set_mset out = {}"
  proof (rule equals0I)
    fix x assume "x \<in> set q \<inter> set_mset out"
    then have "0 < count (mset q) x" "0 < count out x" by auto
    then show False using c [of x] by linarith
  qed
qed

lemma queue_run_flag [simp]: "queue (r\<lparr>r_run := b\<rparr>) q \<longleftrightarrow> queue r q"
  by (auto simp: queue_def holds_def)

lemma rx_reach_buffers:
  assumes "rx_hw E V" and "rx_reach E V h out"
  shows "buffers_ok E (V h) out"
  using assms(2)
proof (induction rule: rx_reach.induct)
  case (init h)
  have "mset q + {#} = mset q" for q :: "u32 list" by simp
  then show ?case unfolding buffers_ok_def using rx_dec_list_init_queue [OF assms(1) init.hyps] by blast
next
  case (packet h out p h')
  then obtain q where q: "queue (V h) q" "mset q + out = mset (map (rx_buffer E) [0..<8])" by (auto simp: buffers_ok_def)
  have "q = buffer p # tl q" "queue (V h') (tl q)"
    using low_level_input_queue [OF assms(1) q(1)] packet.hyps(2) by auto
  then show ?case using q(2) unfolding buffers_ok_def
    by (metis add_mset_add_single mset.simps(2) union_mset_add_mset_left union_mset_add_mset_right)
next
  case (no_packet h out h')
  then obtain q where q: "queue (V h) q" "mset q + out = mset (map (rx_buffer E) [0..<8])" by (auto simp: buffers_ok_def)
  then have "queue (V h') q \<or> queue (V h') (rotate1 q)"
    using low_level_input_queue [OF assms(1) q(1)] no_packet.hyps(2) by auto
  then show ?case using q(2) unfolding buffers_ok_def by (metis mset_rotate1)
next
  case (free h out p h')
  then obtain q where q: "queue (V h) q" "mset q + out = mset (map (rx_buffer E) [0..<8])" by (auto simp: buffers_ok_def)
  then have "queue (V h') (q @ [buffer p])"
    using pbuf_free_custom_queue [OF assms(1) q(1) free_room [OF q free.hyps(2)], of p] free.hyps(3) by auto
  moreover have "mset (q @ [buffer p]) + (out - {#buffer p#}) = mset q + out" using free.hyps(2) by simp
  ultimately show ?case using q(2) unfolding buffers_ok_def by metis
next
  case (run h out v)
  then obtain q where q: "queue (V h) q" "mset q + out = mset (map (rx_buffer E) [0..<8])" by (auto simp: buffers_ok_def)
  have "runs ((V h)\<lparr>r_run := v AND ETH_DMACRCR_SR \<noteq> 0\<rparr>) (V (hw_write E (Reg DMACRCR) v h))"
    using assms(1) by (simp add: rx_hw_def rx_writes_def)
  then have "queue (V (hw_write E (Reg DMACRCR) v h)) q" using queue_runs(1) q(1) queue_run_flag by blast
  then show ?case using q(2) by (auto simp: buffers_ok_def)
next
  case (other h out h')
  then show ?case unfolding buffers_ok_def using queue_runs(1) by blast
qed

end
