(* ===== verification/EthTx.thy ===== *)
theory EthTx
  imports EthDev
begin

text \<open>
  Transmission in \<open>ethernetif.c\<close>: \<open>carbon_lwip_output\<close>. A chain of pbufs is the list of the \<open>len\<close> bytes at the
  \<open>payload\<close> of each, with the \<open>tot_len\<close> of its first pbuf, which the network stack keeps apart from the
  sum of the lengths. \<open>None\<close> is a write past the end of \<open>tx_Buff\<close>, which C leaves undefined.
\<close>

definition TXRF_B1L :: u32 where "TXRF_B1L = 0x3FFF"
definition TXRF_IOC :: u32 where "TXRF_IOC = 0x80000000"
definition TXRF_OWN :: u32 where "TXRF_OWN = 0x80000000"
definition TXRF_CTXT :: u32 where "TXRF_CTXT = 0x40000000"
definition TXRF_FD :: u32 where "TXRF_FD = 0x20000000"
definition TXRF_LD :: u32 where "TXRF_LD = 0x10000000"
definition TXWBF_OWN :: u32 where "TXWBF_OWN = 0x80000000"
definition ETH_DMA_TRANSMIT_TIMEOUT :: u32 where "ETH_DMA_TRANSMIT_TIMEOUT = 2000"

lemmas tx_masks = TXRF_B1L_def TXRF_IOC_def TXRF_OWN_def TXRF_CTXT_def TXRF_FD_def TXRF_LD_def TXWBF_OWN_def

definition ERR_OK :: int where "ERR_OK = 0"
definition ERR_IF :: int where "ERR_IF = - 12"

record pbuf =
  payloads :: "u8 list list"
  pbuf_tot_len :: u16

primrec put_bytes :: "'h eth_env \<Rightarrow> nat \<Rightarrow> u8 list \<Rightarrow> 'h \<Rightarrow> 'h" where
  "put_bytes E i [] h = h"
| "put_bytes E i (b # bs) h = put_bytes E (Suc i) bs (hw_write E (TxByte i) (ucast b) h)"

definition memcpy_tx :: "'h eth_env \<Rightarrow> nat \<Rightarrow> u8 list \<Rightarrow> 'h \<Rightarrow> 'h option" where
  \<comment> \<open>\<open>memcpy\<close> to the byte \<open>i\<close> of \<open>tx_Buff\<close>\<close>
  "memcpy_tx E i bs h = (if i + length bs \<le> unat ETH_RX_BUFFER_SIZE_ALIGNED then Some (put_bytes E i bs h) else None)"

primrec copy_chain :: "'h eth_env \<Rightarrow> nat \<Rightarrow> nat \<Rightarrow> u8 list list \<Rightarrow> 'h \<Rightarrow> (bool \<times> 'h) option" where
  \<comment> \<open>the loop over the chain; \<open>sz\<close> is \<open>size\<close>, which is also the offset of \<open>current_buf_ptr\<close>; False is the early return\<close>
  "copy_chain E total_size sz [] h = Some (True, h)"
| "copy_chain E total_size sz (q # qs) h =
     (if total_size \<le> sz then
        let (_, h) = run_state (os E (DIAG ''p->tot_len not equal to actual data size'')) h;
            (_, h) = run_state (os E (MutexRelease True)) h
        in Some (False, h)
      else do { h \<leftarrow> memcpy_tx E sz q h; copy_chain E total_size (sz + length q) qs h })"

definition fill_tx_desc :: "'h eth_env \<Rightarrow> u32 \<Rightarrow> u32 \<Rightarrow> ('h, unit) state" where
  "fill_tx_desc E tail_pointer total_size =
     do {
       _ \<leftarrow> WRITE_REG E (DESC0 tail_pointer) (tx_Buff E);
       _ \<leftarrow> MODIFY_REG E (DESC2 tail_pointer) TXRF_B1L total_size;
       _ \<leftarrow> SET_BIT E (DESC3 tail_pointer) TXRF_FD;
       _ \<leftarrow> CLEAR_BIT E (DESC3 tail_pointer) TXRF_CTXT;
       _ \<leftarrow> SET_BIT E (DESC3 tail_pointer) TXRF_OWN;
       _ \<leftarrow> SET_BIT E (DESC2 tail_pointer) TXRF_IOC;
       SET_BIT E (DESC3 tail_pointer) TXRF_LD
     }"

definition ring_doorbell :: "'h eth_env \<Rightarrow> u32 \<Rightarrow> 'h \<Rightarrow> int \<times> 'h" where
  \<comment> \<open>hand the descriptor over and wait for the interrupt\<close>
  "ring_doorbell E tail_pointer h =
     (let (_, h) = run_state (WRITE_REG E (Reg DMACTDTPR) (INCREASE_TX_POINTER E tail_pointer)) h;
          (ok, h) = sem_wait E True ETH_DMA_TRANSMIT_TIMEOUT h
      in if \<not> ok then
           let (_, h) = run_state (os E (DIAG ''error sending data'')) h;
               (_, h) = run_state (os E (MutexRelease True)) h
           in (ERR_IF, h)
         else let (_, h) = run_state (os E (MutexRelease True)) h in (ERR_OK, h))"

definition send_frame :: "'h eth_env \<Rightarrow> u32 \<Rightarrow> 'h \<Rightarrow> int \<times> 'h" where
  \<comment> \<open>\<open>carbon_lwip_output\<close> behind the copy\<close>
  "send_frame E total_size h =
     (let (_, h) = run_state (os E (CleanDCache (tx_Buff E))) h;
          (tail_pointer, h) = run_state (READ_REG E (Reg DMACTDTPR)) h;
          (own, h) = run_state (READ_BIT E (DESC3 tail_pointer) TXWBF_OWN) h
      in if own = TXWBF_OWN then
           let (_, h) = run_state (os E (DIAG ''tail pointer owned by the DMA'')) h;
               (_, h) = run_state (os E (MutexRelease True)) h
           in (ERR_IF, h)
         else
           let (_, h) = run_state (fill_tx_desc E tail_pointer total_size) h
           in ring_doorbell E tail_pointer h)"

definition carbon_lwip_output :: "'h eth_env \<Rightarrow> pbuf \<Rightarrow> 'h \<Rightarrow> (int \<times> 'h) option" where
  "carbon_lwip_output E p h =
     (let (init, h) = run_state (READ_REG E (Var isInitialized)) h
      in if init = 0 then Some (ERR_IF, h)
         else
           let (_, h) = run_state (os E (MutexWait True)) h;
               (st, h) = run_state (READ_REG E (Var txState)) h
           in if st \<noteq> HAL_ETH_STATE_BUSY_TX then
                let (_, h) = run_state (os E (MutexRelease True)) h in Some (ERR_IF, h)
              else
                let total_size = ucast (pbuf_tot_len p) :: u32
                in if ETH_RX_BUFFER_SIZE_ALIGNED < total_size then
                     let (_, h) = run_state (os E (DIAG ''tx_Buff too small'')) h;
                         (_, h) = run_state (os E (MutexRelease True)) h
                     in Some (ERR_IF, h)
                   else
                     do {
                       (ok, h) \<leftarrow> copy_chain E (unat total_size) 0 (payloads p) h;
                       Some (if ok then send_frame E total_size h else (ERR_IF, h))
                     })"

section \<open>Hardware with an idle transmit DMA\<close>

definition tx_words :: "'h eth_env \<Rightarrow> eth_loc set" where
  \<comment> \<open>what the driver uses to send: the descriptors, the tail pointer, the buffer and two variables\<close>
  "tx_words E = {Reg DMACTDTPR, Var isInitialized, Var txState} \<union> range TxByte \<union>
     (\<Union>i\<in>{..<2}. {DESC0 (tx_desc E i), DESC2 (tx_desc E i), DESC3 (tx_desc E i)})"

definition same_words :: "'h eth_env \<Rightarrow> (eth_loc \<Rightarrow> u32) \<Rightarrow> (eth_loc \<Rightarrow> u32) \<Rightarrow> bool" where
  "same_words E c c' \<longleftrightarrow> (\<forall>w\<in>tx_words E. c w = c' w)"

definition tx_hw :: "'h eth_env \<Rightarrow> ('h \<Rightarrow> bool) \<Rightarrow> ('h \<Rightarrow> eth_loc \<Rightarrow> u32) \<Rightarrow> bool" where
  \<comment> \<open>while the DMA is suspended and the link stays as it is (\<open>idle\<close>), nothing but the driver changes these words, and only a write of
    the tail pointer resumes it\<close>
  "tx_hw E idle cont \<longleftrightarrow> (\<forall>h. idle h \<longrightarrow>
     (\<forall>l. idle (snd (hw_read E l h)) \<and> same_words E (cont (snd (hw_read E l h))) (cont h) \<and>
        (l \<in> tx_words E \<longrightarrow> fst (hw_read E l h) = cont h l)) \<and>
     (\<forall>l v. l \<noteq> Reg DMACTDTPR \<longrightarrow> idle (hw_write E l v h) \<and> same_words E (cont (hw_write E l v h)) ((cont h)(l := v))) \<and>
     (\<forall>op. idle (os_call E op h) \<and> same_words E (cont (os_call E op h)) (cont h)))"

definition quiet :: "'h eth_env \<Rightarrow> ('h \<Rightarrow> bool) \<Rightarrow> ('h \<Rightarrow> eth_loc \<Rightarrow> u32) \<Rightarrow> 'h \<Rightarrow> (eth_loc \<Rightarrow> u32) \<Rightarrow> bool" where
  "quiet E idle cont h c \<longleftrightarrow> idle h \<and> same_words E (cont h) c"

lemma tx_words_desc [simp]:
  assumes "i < 2"
  shows "DESC0 (tx_desc E i) \<in> tx_words E" and "DESC2 (tx_desc E i) \<in> tx_words E" and "DESC3 (tx_desc E i) \<in> tx_words E"
  using assms by (auto simp: tx_words_def)

lemma tx_words_other [simp]: "Reg DMACTDTPR \<in> tx_words E" "TxByte k \<in> tx_words E" "Var isInitialized \<in> tx_words E"
  "Var txState \<in> tx_words E"
  by (auto simp: tx_words_def)

lemma same_wordsD: "same_words E c c' \<Longrightarrow> w \<in> tx_words E \<Longrightarrow> c w = c' w"
  by (simp add: same_words_def)

lemma quiet_read:
  assumes "tx_hw E idle cont" and "quiet E idle cont h c" and "run_state (READ_REG E l) h = (v, h')"
  shows "quiet E idle cont h' c" and "l \<in> tx_words E \<Longrightarrow> v = c l"
proof -
  have r: "v = fst (hw_read E l h)" "h' = snd (hw_read E l h)" using assms(3) by (simp_all add: READ_REG_def)
  show "quiet E idle cont h' c" "l \<in> tx_words E \<Longrightarrow> v = c l"
    using assms(1,2) unfolding r tx_hw_def quiet_def same_words_def by simp_all
qed

lemma quiet_write:
  assumes "tx_hw E idle cont" and "quiet E idle cont h c" and "l \<noteq> Reg DMACTDTPR"
  shows "quiet E idle cont (hw_write E l v h) (c(l := v))"
  using assms unfolding tx_hw_def quiet_def same_words_def by simp

lemma quiet_os:
  assumes "tx_hw E idle cont" and "quiet E idle cont h c"
  shows "quiet E idle cont (os_call E op h) c"
  using assms unfolding tx_hw_def quiet_def same_words_def by simp

lemma quiet_set_bit:
  assumes "tx_hw E idle cont" and "quiet E idle cont h c" and "l \<noteq> Reg DMACTDTPR" and "l \<in> tx_words E"
    and "c l = x" and "\<And>h'. quiet E idle cont h' (c(l := x OR m)) \<Longrightarrow> P () h'"
  shows "after (SET_BIT E l m) h P"
proof -
  obtain v h1 where r: "run_state (READ_REG E l) h = (v, h1)" by fastforce
  show ?thesis
    using quiet_write [OF assms(1) quiet_read(1) [OF assms(1,2) r] assms(3)] quiet_read(2) [OF assms(1,2) r] assms(4-6) r
    by (simp add: after_def SET_BIT_def WRITE_REG_def)
qed

lemma quiet_clear_bit:
  assumes "tx_hw E idle cont" and "quiet E idle cont h c" and "l \<noteq> Reg DMACTDTPR" and "l \<in> tx_words E"
    and "c l = x" and "\<And>h'. quiet E idle cont h' (c(l := x AND NOT m)) \<Longrightarrow> P () h'"
  shows "after (CLEAR_BIT E l m) h P"
proof -
  obtain v h1 where r: "run_state (READ_REG E l) h = (v, h1)" by fastforce
  show ?thesis
    using quiet_write [OF assms(1) quiet_read(1) [OF assms(1,2) r] assms(3)] quiet_read(2) [OF assms(1,2) r] assms(4-6) r
    by (simp add: after_def CLEAR_BIT_def WRITE_REG_def)
qed

lemma quiet_modify:
  assumes "tx_hw E idle cont" and "quiet E idle cont h c" and "l \<noteq> Reg DMACTDTPR" and "l \<in> tx_words E"
    and "c l = x" and "\<And>h'. quiet E idle cont h' (c(l := (x AND NOT m) OR v)) \<Longrightarrow> P () h'"
  shows "after (MODIFY_REG E l m v) h P"
proof -
  obtain w h1 where r: "run_state (READ_REG E l) h = (w, h1)" by fastforce
  show ?thesis
    using quiet_write [OF assms(1) quiet_read(1) [OF assms(1,2) r] assms(3)] quiet_read(2) [OF assms(1,2) r] assms(4-6) r
    by (simp add: after_def MODIFY_REG_def WRITE_REG_def)
qed

lemma quiet_write_after:
  assumes "tx_hw E idle cont" and "quiet E idle cont h c" and "l \<noteq> Reg DMACTDTPR"
    and "\<And>h'. quiet E idle cont h' (c(l := v)) \<Longrightarrow> P () h'"
  shows "after (WRITE_REG E l v) h P"
  using quiet_write [OF assms(1-3)] assms(4) by (simp add: after_def WRITE_REG_def)

section \<open>The descriptor\<close>

definition desc_ready :: "'h eth_env \<Rightarrow> (eth_loc \<Rightarrow> u32) \<Rightarrow> u32 \<Rightarrow> u32 \<Rightarrow> bool" where
  \<comment> \<open>the descriptor at an address describes one complete frame of \<open>n\<close> bytes in \<open>tx_Buff\<close>, for the DMA\<close>
  "desc_ready E c p n \<longleftrightarrow> c (DESC0 p) = tx_Buff E \<and> c (DESC2 p) AND TXRF_B1L = n \<and> c (DESC2 p) AND TXRF_IOC \<noteq> 0 \<and>
     c (DESC3 p) AND (TXRF_OWN OR TXRF_CTXT OR TXRF_FD OR TXRF_LD) = TXRF_OWN OR TXRF_FD OR TXRF_LD"

lemma fill_tx_desc_after:
  assumes hw: "tx_hw E idle cont" and q: "quiet E idle cont h c" and i: "i < 2" and n: "n AND TXRF_B1L = n"
  shows "after (fill_tx_desc E (tx_desc E i) n) h (\<lambda>_ h'. \<exists>c'. quiet E idle cont h' c' \<and> desc_ready E c' (tx_desc E i) n \<and>
    (\<forall>l. (\<nexists>a. l = Mem a) \<longrightarrow> c' l = c l))"
proof -
  let ?p = "tx_desc E i"
  note st = quiet_set_bit [OF hw] and cl = quiet_clear_bit [OF hw]
  have n': "(n AND 0x3FFF) = n" using n by (simp add: TXRF_B1L_def)
  let ?c = "c(DESC0 ?p := tx_Buff E, DESC2 ?p := (c (DESC2 ?p) AND NOT TXRF_B1L) OR n,
    DESC3 ?p := c (DESC3 ?p) OR TXRF_FD, DESC3 ?p := (c (DESC3 ?p) OR TXRF_FD) AND NOT TXRF_CTXT,
    DESC3 ?p := ((c (DESC3 ?p) OR TXRF_FD) AND NOT TXRF_CTXT) OR TXRF_OWN,
    DESC2 ?p := ((c (DESC2 ?p) AND NOT TXRF_B1L) OR n) OR TXRF_IOC,
    DESC3 ?p := (((c (DESC3 ?p) OR TXRF_FD) AND NOT TXRF_CTXT) OR TXRF_OWN) OR TXRF_LD)"
  have absorb: "(x AND a) OR a = a" for x a :: u32 by (rule bit_word_eqI) (auto simp: bit_simps)
  have ready: "desc_ready E ?c ?p n"
    unfolding desc_ready_def using n'
    by (simp add: tx_masks bit.conj_disj_distrib2 and.assoc or.assoc absorb)
  show ?thesis
    unfolding fill_tx_desc_def
    apply (intro after_bind)
    apply (rule quiet_write_after [OF hw q], simp)
    apply (intro after_bind)
    apply (rule quiet_modify [OF hw], assumption, simp, simp add: i, simp)
    apply (intro after_bind)
    apply (rule st, assumption, simp, simp add: i, simp)
    apply (intro after_bind)
    apply (rule cl, assumption, simp, simp add: i, simp)
    apply (intro after_bind)
    apply (rule st, assumption, simp, simp add: i, simp)
    apply (intro after_bind)
    apply (rule st, assumption, simp, simp add: i, simp)
    apply (rule st, assumption, simp, simp add: i, simp)
    using ready by (intro exI [of _ ?c]) auto
qed

section \<open>The copy\<close>

definition chain_fits :: "nat \<Rightarrow> u8 list list \<Rightarrow> bool" where
  \<comment> \<open>no pbuf of the chain starts at \<open>n\<close> bytes or later\<close>
  "chain_fits n qs \<longleftrightarrow> (\<forall>k < length qs. length (concat (take k qs)) < n)"

definition with_bytes :: "nat \<Rightarrow> u8 list \<Rightarrow> (eth_loc \<Rightarrow> u32) \<Rightarrow> eth_loc \<Rightarrow> u32" where
  "with_bytes i bs c l = (case l of TxByte k \<Rightarrow> if i \<le> k \<and> k < i + length bs then ucast (bs ! (k - i)) else c l | _ \<Rightarrow> c l)"

lemma with_bytes_Nil [simp]: "with_bytes i [] c = c"
  by (auto simp: with_bytes_def fun_eq_iff split: eth_loc.split)

lemma with_bytes_append: "with_bytes (i + length xs) ys (with_bytes i xs c) = with_bytes i (xs @ ys) c"
  by (auto simp: with_bytes_def fun_eq_iff nth_append split: eth_loc.split)

lemma put_bytes_quiet:
  assumes hw: "tx_hw E idle cont"
  shows "quiet E idle cont h c \<Longrightarrow> quiet E idle cont (put_bytes E i bs h) (with_bytes i bs c)"
proof (induction bs arbitrary: i h c)
  case Nil
  then show ?case by simp
next
  case (Cons b bs)
  have "with_bytes (Suc i) bs (c(TxByte i := ucast b)) = with_bytes i (b # bs) c"
    by (auto simp: with_bytes_def fun_eq_iff nth_Cons' split: eth_loc.split)
  then show ?case using Cons.IH [OF quiet_write [OF hw Cons.prems, of "TxByte i" "ucast b"], of "Suc i"]
    by (simp only: put_bytes.simps eth_loc.distinct not_False_eq_True simp_thms)
qed

lemma copy_chain_fits:
  assumes hw: "tx_hw E idle cont"
  shows "quiet E idle cont h c \<Longrightarrow> \<forall>k < length qs. sz + length (concat (take k qs)) < n \<Longrightarrow>
    sz + length (concat qs) \<le> 1536 \<Longrightarrow>
    \<exists>h'. copy_chain E n sz qs h = Some (True, h') \<and> quiet E idle cont h' (with_bytes sz (concat qs) c)"
proof (induction qs arbitrary: sz h c)
  case Nil
  then show ?case by simp
next
  case (Cons q qs)
  have "sz < n" using Cons.prems(2) by force
  have "\<forall>k < length qs. (sz + length q) + length (concat (take k qs)) < n"
    using Cons.prems(2) by (force simp: add.assoc)
  then show ?case
    using Cons.IH [OF put_bytes_quiet [OF hw Cons.prems(1), of sz q], of "sz + length q"] Cons.prems(3) \<open>sz < n\<close>
    by (auto simp: memcpy_tx_def with_bytes_append)
qed

lemma copy_chain_stops:
  assumes hw: "tx_hw E idle cont"
  shows "quiet E idle cont h c \<Longrightarrow> \<not> (\<forall>k < length qs. sz + length (concat (take k qs)) < n) \<Longrightarrow> n \<le> 1536 \<Longrightarrow>
    case copy_chain E n sz qs h of None \<Rightarrow> True | Some (ok, h') \<Rightarrow> \<not> ok \<and> idle h'"
proof (induction qs arbitrary: sz h c)
  case Nil
  then show ?case by simp
next
  case (Cons q qs)
  show ?case
  proof (cases "n \<le> sz")
    case True
    then show ?thesis
      using quiet_os [OF hw quiet_os [OF hw Cons.prems(1)]] by (simp add: os_def quiet_def)
  next
    case False
    have "\<not> (\<forall>k < length qs. (sz + length q) + length (concat (take k qs)) < n)"
    proof
      assume a: "\<forall>k < length qs. (sz + length q) + length (concat (take k qs)) < n"
      have "sz + length (concat (take k (q # qs))) < n" if "k < length (q # qs)" for k
        using a that False by (cases k) (auto simp: add.assoc)
      then show False using Cons.prems(2) by blast
    qed
    then show ?thesis
      using Cons.IH [OF put_bytes_quiet [OF hw Cons.prems(1), of sz q], of "sz + length q"] Cons.prems(3) False
      by (simp add: memcpy_tx_def)
  qed
qed

lemma copy_chain_overflows:
  "k < length qs \<Longrightarrow> \<forall>j \<le> k. sz + length (concat (take j qs)) < n \<Longrightarrow> 1536 < sz + length (concat (take (Suc k) qs)) \<Longrightarrow>
   copy_chain E n sz qs h = None"
proof (induction k arbitrary: sz qs h)
  case 0
  then show ?case by (cases qs) (auto simp: memcpy_tx_def)
next
  case (Suc k)
  then obtain q qs' where qs: "qs = q # qs'" by (cases qs) auto
  have "sz < n" using Suc.prems(2) by force
  moreover have "\<forall>j \<le> k. (sz + length q) + length (concat (take j qs')) < n"
    using Suc.prems(2) by (force simp: qs add.assoc)
  ultimately show ?case
    using Suc.IH [of qs' "sz + length q"] Suc.prems(1,3) by (simp add: qs memcpy_tx_def add.assoc)
qed

definition chain_overflows :: "nat \<Rightarrow> nat \<Rightarrow> u8 list list \<Rightarrow> bool" where
  \<comment> \<open>a pbuf that starts before \<open>n\<close> reaches past the end of \<open>tx_Buff\<close>\<close>
  "chain_overflows sz n qs \<longleftrightarrow> (\<exists>k < length qs. (\<forall>j \<le> k. sz + length (concat (take j qs)) < n) \<and>
     1536 < sz + length (concat (take (Suc k) qs)))"

lemma copy_chain_None: "copy_chain E n sz qs h = None \<longleftrightarrow> chain_overflows sz n qs"
proof
  show "copy_chain E n sz qs h = None \<Longrightarrow> chain_overflows sz n qs"
  proof (induction qs arbitrary: sz h)
    case Nil
    then show ?case by simp
  next
    case (Cons q qs)
    have "sz < n" using Cons.prems by (cases "n \<le> sz") auto
    show ?case
    proof (cases "sz + length q \<le> 1536")
      case False
      then show ?thesis using \<open>sz < n\<close> unfolding chain_overflows_def by (intro exI [of _ 0]) simp
    next
      case True
      then have "copy_chain E n (sz + length q) qs (put_bytes E sz q h) = None"
        using Cons.prems \<open>sz < n\<close> by (simp add: memcpy_tx_def)
      then obtain k where k: "k < length qs" "\<forall>j \<le> k. (sz + length q) + length (concat (take j qs)) < n"
        "1536 < (sz + length q) + length (concat (take (Suc k) qs))"
        using Cons.IH unfolding chain_overflows_def by blast
      have "sz + length (concat (take j (q # qs))) < n" if "j \<le> Suc k" for j
        using that k(2) \<open>sz < n\<close> by (cases j) (auto simp: add.assoc)
      then show ?thesis unfolding chain_overflows_def using k(1,3) by (intro exI [of _ "Suc k"]) (simp add: add.assoc)
    qed
  qed
qed (auto simp: chain_overflows_def intro: copy_chain_overflows)

section \<open>Sending\<close>

definition tx_buffer :: "(eth_loc \<Rightarrow> u32) \<Rightarrow> u8 list" where
  "tx_buffer c = map (\<lambda>k. ucast (c (TxByte k))) [0..<1536]"

lemma narrow_wide: "(ucast (ucast (b :: u8) :: u32) :: u8) = b"
  by (rule bit_word_eqI) (auto simp: bit_simps)

lemma tx_buffer_with_bytes:
  assumes "length bs \<le> 1536"
  shows "tx_buffer (with_bytes 0 bs c) = bs @ drop (length bs) (tx_buffer c)"
proof (rule nth_equalityI)
  show "length (tx_buffer (with_bytes 0 bs c)) = length (bs @ drop (length bs) (tx_buffer c))"
    using assms by (simp add: tx_buffer_def)
  fix k assume "k < length (tx_buffer (with_bytes 0 bs c))"
  then have "k < 1536" by (simp add: tx_buffer_def)
  then show "tx_buffer (with_bytes 0 bs c) ! k = (bs @ drop (length bs) (tx_buffer c)) ! k"
    by (auto simp: tx_buffer_def nth_append with_bytes_def narrow_wide)
qed

definition tx_ready :: "'h eth_env \<Rightarrow> (eth_loc \<Rightarrow> u32) \<Rightarrow> nat \<Rightarrow> bool" where
  \<comment> \<open>the interface is up and the tail descriptor \<open>i\<close> belongs to the driver\<close>
  "tx_ready E c i \<longleftrightarrow> i < 2 \<and> c (Var isInitialized) \<noteq> 0 \<and> c (Var txState) = HAL_ETH_STATE_BUSY_TX \<and>
     c (Reg DMACTDTPR) = tx_desc E i \<and> c (DESC3 (tx_desc E i)) AND TXWBF_OWN = 0"

lemma tx_ready_cong:
  assumes "same_words E c c'"
  shows "tx_ready E c i \<longleftrightarrow> tx_ready E c' i" and "tx_buffer c = tx_buffer c'"
    and "i < 2 \<Longrightarrow> desc_ready E c (tx_desc E i) n \<longleftrightarrow> desc_ready E c' (tx_desc E i) n"
  using same_wordsD [OF assms] by (auto simp: tx_ready_def tx_buffer_def desc_ready_def)

lemma unat_wide: "unat (ucast (w :: u16) :: u32) = unat w"
proof -
  have "unat w < 2 ^ 16" using unsigned_less [of w, where 'a = nat] by simp
  then show ?thesis by (simp add: unsigned_ucast_eq take_bit_eq_mod)
qed

lemma quiet_self: "idle h \<Longrightarrow> quiet E idle cont h (cont h)"
  by (simp add: quiet_def same_words_def)

lemma output_starts:
  \<comment> \<open>the guards, up to the copy\<close>
  assumes hw: "tx_hw E idle cont" and q: "quiet E idle cont h c" and r: "tx_ready E c i"
  shows "\<exists>h1. quiet E idle cont h1 c \<and> carbon_lwip_output E p h =
    (if 1536 < unat (pbuf_tot_len p)
     then Some (ERR_IF, os_call E (MutexRelease True) (os_call E (DIAG ''tx_Buff too small'') h1))
     else do {
       (ok, h) \<leftarrow> copy_chain E (unat (pbuf_tot_len p)) 0 (payloads p) h1;
       Some (if ok then send_frame E (ucast (pbuf_tot_len p)) h else (ERR_IF, h))
     })"
proof -
  obtain init h1 where r1: "run_state (READ_REG E (Var isInitialized)) h = (init, h1)" by fastforce
  note q1 = quiet_read [OF hw q r1]
  obtain st h2 where r2: "run_state (READ_REG E (Var txState)) (os_call E (MutexWait True) h1) = (st, h2)" by fastforce
  note q2 = quiet_read [OF hw quiet_os [OF hw q1(1)] r2]
  note t = unat_wide [of "pbuf_tot_len p"]
  then have "ETH_RX_BUFFER_SIZE_ALIGNED < (ucast (pbuf_tot_len p) :: u32) \<longleftrightarrow> 1536 < unat (pbuf_tot_len p)"
    by (simp add: word_less_nat_alt)
  then show ?thesis
    using r q1 q2 t by (intro exI [of _ h2]) (simp add: carbon_lwip_output_def r1 r2 tx_ready_def)
qed

lemma send_frame_ready:
  assumes hw: "tx_hw E idle cont" and q: "quiet E idle cont h c" and r: "tx_ready E c i" and n: "n AND TXRF_B1L = n"
  shows "\<exists>h1. idle h1 \<and> desc_ready E (cont h1) (tx_desc E i) n \<and> tx_buffer (cont h1) = tx_buffer c \<and>
    send_frame E n h = ring_doorbell E (tx_desc E i) h1"
proof -
  have i: "i < 2" using r by (simp add: tx_ready_def)
  obtain tl h1 where r1: "run_state (READ_REG E (Reg DMACTDTPR)) (os_call E (CleanDCache (tx_Buff E)) h) = (tl, h1)" by fastforce
  note q1 = quiet_read [OF hw quiet_os [OF hw q] r1]
  obtain w h2 where r2: "run_state (READ_REG E (DESC3 (tx_desc E i))) h1 = (w, h2)" by fastforce
  note q2 = quiet_read [OF hw q1(1) r2]
  obtain h3 c' where f: "run_state (fill_tx_desc E (tx_desc E i) n) h2 = ((), h3)" "quiet E idle cont h3 c'"
    "desc_ready E c' (tx_desc E i) n" "\<forall>l. (\<nexists>a. l = Mem a) \<longrightarrow> c' l = c l"
    using fill_tx_desc_after [OF hw q2(1) i n] by (auto simp: after_def split: prod.splits)
  have "tx_buffer c' = tx_buffer c" using f(4) by (simp add: tx_buffer_def)
  moreover have "send_frame E n h = ring_doorbell E (tx_desc E i) h3"
    using r1 r2 q1 q2 r f(1) i by (simp add: send_frame_def READ_BIT_def tx_ready_def TXWBF_OWN_def)
  ultimately show ?thesis
    using f(2,3) tx_ready_cong(2,3) i unfolding quiet_def by metis
qed

lemma output_sends:
  assumes hw: "tx_hw E idle cont" and q: "idle h" and r: "tx_ready E (cont h) i"
    and fits: "chain_fits (unat (pbuf_tot_len p)) (payloads p)" "length (concat (payloads p)) \<le> 1536"
    and tot: "unat (pbuf_tot_len p) \<le> 1536"
  shows "\<exists>h1. idle h1 \<and> desc_ready E (cont h1) (tx_desc E i) (ucast (pbuf_tot_len p)) \<and>
    tx_buffer (cont h1) = concat (payloads p) @ drop (length (concat (payloads p))) (tx_buffer (cont h)) \<and>
    carbon_lwip_output E p h = Some (ring_doorbell E (tx_desc E i) h1)"
proof -
  let ?bs = "concat (payloads p)" and ?n = "ucast (pbuf_tot_len p) :: u32"
  obtain h1 where h1: "quiet E idle cont h1 (cont h)" "carbon_lwip_output E p h = do {
       (ok, h) \<leftarrow> copy_chain E (unat (pbuf_tot_len p)) 0 (payloads p) h1;
       Some (if ok then send_frame E ?n h else (ERR_IF, h)) }"
    using output_starts [OF hw quiet_self [of idle, OF q] r, of p] tot by auto
  obtain h2 where h2: "copy_chain E (unat (pbuf_tot_len p)) 0 (payloads p) h1 = Some (True, h2)"
    "quiet E idle cont h2 (with_bytes 0 ?bs (cont h))"
    using copy_chain_fits [OF hw h1(1), of "payloads p" 0] fits by (auto simp: chain_fits_def)
  have r2: "tx_ready E (with_bytes 0 ?bs (cont h)) i" using r by (simp add: tx_ready_def with_bytes_def)
  have "?n \<le> 16383" using tot unat_wide [of "pbuf_tot_len p"] by (simp add: word_le_nat_alt)
  then have "uint ?n < 2 ^ 14" by (simp add: word_le_def)
  then have "?n AND mask 14 = ?n" by (simp only: mask_eq_iff)
  then have n: "?n AND TXRF_B1L = ?n" by (simp add: TXRF_B1L_def mask_numeral)
  show ?thesis
    using send_frame_ready [OF hw h2(2) r2 n] h1(2) h2(1) tx_buffer_with_bytes [OF fits(2), of "cont h"] by auto
qed

lemma output_rejects:
  assumes hw: "tx_hw E idle cont" and q: "idle h" and r: "tx_ready E (cont h) i"
  shows "carbon_lwip_output E p h = None \<longleftrightarrow>
      unat (pbuf_tot_len p) \<le> 1536 \<and> chain_overflows 0 (unat (pbuf_tot_len p)) (payloads p)"
    and "1536 < unat (pbuf_tot_len p) \<or> \<not> chain_fits (unat (pbuf_tot_len p)) (payloads p) \<Longrightarrow>
      carbon_lwip_output E p h \<noteq> None \<Longrightarrow> \<exists>h'. carbon_lwip_output E p h = Some (ERR_IF, h') \<and> idle h'"
proof -
  let ?n = "unat (pbuf_tot_len p)"
  obtain h1 where h1: "quiet E idle cont h1 (cont h)" "carbon_lwip_output E p h =
    (if 1536 < ?n
     then Some (ERR_IF, os_call E (MutexRelease True) (os_call E (DIAG ''tx_Buff too small'') h1))
     else do {
       (ok, h) \<leftarrow> copy_chain E ?n 0 (payloads p) h1;
       Some (if ok then send_frame E (ucast (pbuf_tot_len p)) h else (ERR_IF, h)) })"
    using output_starts [OF hw quiet_self [of idle, OF q] r, of p] by blast
  show "carbon_lwip_output E p h = None \<longleftrightarrow> ?n \<le> 1536 \<and> chain_overflows 0 ?n (payloads p)"
    using h1(2) copy_chain_None [of E ?n 0 "payloads p" h1]
    by (cases "copy_chain E ?n 0 (payloads p) h1") auto
  assume bad: "1536 < ?n \<or> \<not> chain_fits ?n (payloads p)" and ret: "carbon_lwip_output E p h \<noteq> None"
  show "\<exists>h'. carbon_lwip_output E p h = Some (ERR_IF, h') \<and> idle h'"
  proof (cases "1536 < ?n")
    case True
    then show ?thesis using h1(2) quiet_os [OF hw quiet_os [OF hw h1(1)]] by (simp add: quiet_def)
  next
    case False
    then have "\<not> (\<forall>k < length (payloads p). 0 + length (concat (take k (payloads p))) < ?n)"
      using bad by (simp add: chain_fits_def)
    then show ?thesis
      using copy_chain_stops [OF hw h1(1), of "payloads p" 0 ?n] False h1(2) ret
      by (cases "copy_chain E ?n 0 (payloads p) h1") auto
  qed
qed

lemma increase_tx_pointer:
  assumes "i < 2"
  shows "INCREASE_TX_POINTER E (tx_desc E i) = tx_desc E (1 - i)"
proof -
  have "i = 0 \<or> i = 1" using assms by auto
  then show ?thesis by (auto simp: INCREASE_TX_POINTER_def ETH_TX_DESC_CNT_def tx_desc_def)
qed

end
