(* ===== verification/EthBoot.thy ===== *)
theory EthBoot
  imports EthLink
begin

text \<open>
  The start of the interface as a whole: \<open>carbon_lwip_init\<close> returns on every hardware whose accesses take
  time, and what it finds on a management interface without a PHY, where the pull-up of the data line
  makes every read return ones.
\<close>

section \<open>The PHY driver returns\<close>

lemma init_total:
  assumes c: "clocked (IO ob) time K D"
  shows "\<exists>st ob' b'. LAN8742_Init ob b = Some (st, ob', b') \<and> IO ob' = IO ob"
proof -
  have wait: "\<exists>b'. init_wait ob' t0 b1 = Some b'" if "io_GetTick (IO ob) b = (t0, b1)" "IO ob' = IO ob" for ob' t0 b b1
    using init_wait_after_tick [of ob' time K D b t0 b1] c that by auto
  obtain b1 where b1: "(case io_Init (IO ob) of None \<Rightarrow> Some b | Some f \<Rightarrow> do { (_, b) \<leftarrow> f b; Some b }) = Some b1"
    using io_init_returns [OF c] by blast
  obtain f st0 v b2 where f: "find_address (ob\<lparr>DevAddr := LAN8742_MAX_DEV_ADDR + 1\<rparr>) all_addresses STATUS_OK 0 b1 = Some (f, st0, v, b2)"
    "f \<noteq> None \<longrightarrow> st0 = STATUS_OK \<and> the f \<in> set all_addresses"
    using find_address_returns [of "ob\<lparr>DevAddr := LAN8742_MAX_DEV_ADDR + 1\<rparr>" time K D all_addresses STATUS_OK 0 b1] c by auto
  obtain st ob1 b3 where p: "probe ob b = Some (st, ob1, b3)" "IO ob1 = IO ob"
    using probe_finds [OF c f(1) b1 f(2)] by auto
  obtain t b4 where t: "io_GetTick (IO ob) b3 = (t, b4)" by fastforce
  obtain t' b4' where t': "io_GetTick (IO ob) b = (t', b4')" by fastforce
  show ?thesis
    using p wait [OF t p(2)] wait [OF t' refl] t t' by (auto simp: LAN8742_Init_def)
qed

lemma get_link_state_total:
  assumes c: "clocked (IO ob) time K D"
  shows "\<exists>st b'. LAN8742_GetLinkState ob b = Some (st, b')"
proof -
  have r: "\<exists>r v b'. read_reg ob a reg old b = Some (r, v, b')" for a reg old b using clocked_read [OF c] by metis
  obtain r1 v1 b1 where r1: "read_reg ob (DevAddr ob) LAN8742_BSR 0 b = Some (r1, v1, b1)" using r by blast
  obtain r2 v2 b2 where r2: "read_reg ob (DevAddr ob) LAN8742_BSR v1 b1 = Some (r2, v2, b2)" using r by blast
  obtain r3 v3 b3 where r3: "read_reg ob (DevAddr ob) LAN8742_BCR v2 b2 = Some (r3, v3, b3)" using r by blast
  obtain r4 v4 b4 where r4: "read_reg ob (DevAddr ob) LAN8742_PHYSCSR v3 b3 = Some (r4, v4, b4)" using r by blast
  show ?thesis by (simp add: LAN8742_GetLinkState_def r1 r2 r3 r4)
qed

section \<open>The reset of the MAC\<close>

lemma swr_wait_returns:
  assumes c: "timed E time K d" and "T0 * K \<le> time h" and "time h \<le> (T0 + 501) * K + 3 * d"
  shows "\<exists>ok h'. swr_wait E (of_nat T0) h = Some (ok, h')"
  using assms(2,3)
proof (induction "(T0 + 501) * K + 3 * d - time h" arbitrary: h rule: less_induct)
  case less
  have K: "0 < K" "1002 * K + 9 * d \<le> 2 ^ 30" using c by (auto simp: timed_def)
  obtain swr h1 where r: "run_state (READ_BIT E (Reg DMAMR) ETH_DMAMR_SWR) h = (swr, h1)" by fastforce
  obtain t h2 where t: "HAL_GetTick E h1 = (t, h2)" by fastforce
  note t1 = timed_read_bit [OF c r] and t2 = timed_tick [OF c t]
  have "time h1 \<le> (T0 + 2001) * K + 2 * (2 * d)"
    using t1(2) less.prems(2) by (simp add: algebra_simps)
  then have u: "unat (t - of_nat T0) = time h1 div K - T0"
    unfolding t2(1) using K t1(1) less.prems(1) by (intro tick_diff [where D = "2 * d" and M = 2001]) auto
  show ?case
  proof (cases "0 < swr \<and> time h1 < (T0 + 501) * K")
    case True
    then have "time h1 div K < T0 + 501" using K by (simp add: less_mult_imp_div_less)
    then have "time h1 div K - T0 \<le> 500" by simp
    then have "\<not> ETH_SWRESET_TIMEOUT < t - of_nat T0"
      using u by (simp add: ETH_SWRESET_TIMEOUT_def word_less_nat_alt)
    then have "swr_wait E (of_nat T0) h = swr_wait E (of_nat T0) h2"
      using True r t by (subst swr_wait.simps) simp
    moreover have "\<exists>ok h'. swr_wait E (of_nat T0) h2 = Some (ok, h')"
      using True t1 t2(2,3) less.prems by (intro less.hyps) auto
    ultimately show ?thesis by auto
  next
    case False
    have "ETH_SWRESET_TIMEOUT < t - of_nat T0" if "0 < swr"
    proof -
      have "T0 + 501 \<le> time h1 div K" using False that K by (simp add: less_eq_div_iff_mult_less_eq)
      then have "\<not> time h1 div K - T0 \<le> 500" by linarith
      then show ?thesis using u by (simp add: ETH_SWRESET_TIMEOUT_def word_less_nat_alt)
    qed
    then show ?thesis using r t by (subst swr_wait.simps) auto
  qed
qed

lemma mac_reset_then_wait:
  assumes c: "timed E time K d"
  shows "\<exists>t h1 ok h2. run_state (mac_reset E) h = (t, h1) \<and> swr_wait E t h1 = Some (ok, h2)"
proof -
  define h0 where "h0 = snd (run_state (do { _ \<leftarrow> os E MspInit; _ \<leftarrow> os E InterfaceSelect; SET_BIT E (Reg DMAMR) ETH_DMAMR_SWR }) h)"
  obtain t h1 where t: "HAL_GetTick E h0 = (t, h1)" by fastforce
  have K: "0 < K" using c by (simp add: timed_def)
  note t1 = timed_tick [OF c t]
  have "time h1 \<le> (time h0 div K + Suc 500) * K + 2 * d" using K t1(3) by (rule tick_window(2))
  then have "time h1 \<le> (time h0 div K + 501) * K + 3 * d" by simp
  then have "\<exists>ok h2. swr_wait E (of_nat (time h0 div K)) h1 = Some (ok, h2)"
    using swr_wait_returns [OF c tick_window(1) [OF K t1(2)]] by blast
  moreover have "run_state (mac_reset E) h = (t, h1)"
    using t by (auto simp: mac_reset_def h0_def split: prod.splits)
  ultimately show ?thesis using t1(1) by auto
qed

lemma device_config_succeeds: "fst (run_state (device_config E) h) = True"
  by (simp add: device_config_def split: prod.splits)

lemma low_level_init_total:
  assumes c: "timed E time K d"
  shows "\<exists>t h1 ok h2 r ob h'. run_state (mac_reset E) h = (t, h1) \<and> swr_wait E t h1 = Some (ok, h2) \<and>
    low_level_init E lan8742 h = Some (r, ob, h') \<and> r = (if ok then 0 else 1)"
proof -
  obtain t h1 ok h2 where r: "run_state (mac_reset E) h = (t, h1)" "swr_wait E t h1 = Some (ok, h2)"
    using mac_reset_then_wait [OF c] by blast
  let ?ob = "lan8742\<lparr>IO := phy_io E\<rparr>"
  have cl: "clocked (IO ?ob) time K (1002 * K + 9 * d)" using phy_io_clocked [OF c] by simp
  obtain h3 where d: "run_state (device_config E) h2 = (True, h3)"
    using device_config_succeeds [of E h2] by (metis prod.collapse)
  obtain st ob' h4 where i: "LAN8742_Init ?ob h3 = Some (st, ob', h4)" "IO ob' = IO ?ob" using init_total [OF cl] by blast
  obtain st' h5 where g: "LAN8742_GetLinkState ob' h4 = Some (st', h5)" using get_link_state_total [of ob' time K "1002 * K + 9 * d" h4] cl i(2) by auto
  show ?thesis
    using r d i(1) g by (auto simp: low_level_init_def register_phy_io split: prod.splits)
qed

section \<open>No PHY\<close>

definition floating :: "'b bus_io \<Rightarrow> bool" where
  \<comment> \<open>a bus on which every frame reads ones\<close>
  "floating io \<longleftrightarrow> (\<forall>dev reg old b. \<exists>b'. io_ReadReg io dev reg old b = Some (0, 0xFFFF, b')) \<and>
     (\<forall>dev reg v b. \<exists>b'. io_WriteReg io dev reg v b = Some (0, b'))"

lemma floating_read:
  assumes "floating (IO ob)"
  obtains b' where "read_reg ob dev reg old b = Some (0, 0xFFFF, b')"
  using assms unfolding floating_def by blast

lemma find_address_floating:
  assumes f: "floating (IO ob)" and "31 \<in> set as"
  shows "\<exists>b'. find_address ob as STATUS_OK old b = Some (Some 31, STATUS_OK, 0xFFFF, b')"
  using assms(2)
proof (induction "as" arbitrary: old b)
  case Nil
  then show ?case by simp
next
  case (Cons x xs)
  obtain b1 where b1: "read_reg ob x LAN8742_SMR old b = Some (0, 0xFFFF, b1)" using floating_read [OF f] .
  have a: "(0xFFFF :: u32) AND SMR_PHY_ADDR = 31" by (simp add: SMR_PHY_ADDR_def)
  show ?case
    using b1 a Cons by (cases "x = 31") auto
qed

lemma reset_wait_floating:
  assumes f: "floating (IO ob)" and "reset_wait ob t v b = Some (st, b')" and "v AND BCR_SOFT_RESET \<noteq> 0"
  shows "st = STATUS_RESET_TIMEOUT"
proof -
  have s: "(0xFFFF :: u32) AND BCR_SOFT_RESET \<noteq> 0" by (simp add: BCR_SOFT_RESET_def)
  have "floating (IO ob) \<longrightarrow> v AND BCR_SOFT_RESET \<noteq> 0 \<longrightarrow> fst (st, b') = STATUS_RESET_TIMEOUT"
  proof (rule reset_wait.raw_induct [where P = "\<lambda>ob t v b r. floating (IO ob) \<longrightarrow> v AND BCR_SOFT_RESET \<noteq> 0 \<longrightarrow>
      fst r = STATUS_RESET_TIMEOUT", OF _ assms(2)], intro impI)
    fix rw :: "'b lan8742_Object \<Rightarrow> u32 \<Rightarrow> u32 \<Rightarrow> 'b \<Rightarrow> (lan_status \<times> 'b) option" and ob t v b r
    assume ih: "\<And>ob t v b r. rw ob t v b = Some r \<Longrightarrow> floating (IO ob) \<longrightarrow> v AND BCR_SOFT_RESET \<noteq> 0 \<longrightarrow>
        fst r = STATUS_RESET_TIMEOUT"
      and body: "(if v AND BCR_SOFT_RESET = 0 then Some (STATUS_OK, b)
        else let (now, b) = io_GetTick (IO ob) b
          in if now - t \<le> LAN8742_SW_RESET_TO then do {
               (r, v, b) \<leftarrow> read_reg ob (DevAddr ob) LAN8742_BCR v b;
               if r < 0 then Some (STATUS_READ_ERROR, b) else rw ob t v b }
             else Some (STATUS_RESET_TIMEOUT, b)) = Some r"
      and f: "floating (IO ob)" and v: "v AND BCR_SOFT_RESET \<noteq> 0"
    obtain now b1 where t: "io_GetTick (IO ob) b = (now, b1)" by fastforce
    obtain b2 where b2: "read_reg ob (DevAddr ob) LAN8742_BCR v b1 = Some (0, 0xFFFF, b2)" using floating_read [OF f] .
    show "fst r = STATUS_RESET_TIMEOUT"
      using body ih [of ob t "0xFFFF" b2 r] f v t b2 s by (auto split: if_splits)
  qed
  then show ?thesis using f assms(3) by simp
qed

lemma init_floating:
  assumes c: "clocked (IO ob) time K D" and f: "floating (IO ob)" and i: "Is_Initialized ob = 0"
  shows "\<exists>b'. LAN8742_Init ob b = Some (STATUS_RESET_TIMEOUT, ob\<lparr>DevAddr := 31\<rparr>, b')"
proof -
  let ?ob = "ob\<lparr>DevAddr := 31\<rparr>"
  obtain b1 where b1: "(case io_Init (IO ob) of None \<Rightarrow> Some b | Some f \<Rightarrow> do { (_, b) \<leftarrow> f b; Some b }) = Some b1"
    using io_init_returns [OF c] by blast
  have "31 \<in> set all_addresses" by (simp add: all_addresses_set LAN8742_MAX_DEV_ADDR_def)
  then obtain b2 where b2: "find_address (ob\<lparr>DevAddr := LAN8742_MAX_DEV_ADDR + 1\<rparr>) all_addresses STATUS_OK 0 b1 =
      Some (Some 31, STATUS_OK, 0xFFFF, b2)"
    using find_address_floating [of "ob\<lparr>DevAddr := LAN8742_MAX_DEV_ADDR + 1\<rparr>" all_addresses 0 b1] f by auto
  obtain b3 where b3: "write_reg ?ob 31 LAN8742_BCR BCR_SOFT_RESET b2 = Some (0, b3)"
    using f unfolding floating_def by auto blast
  obtain b4 where b4: "read_reg ?ob 31 LAN8742_BCR 0xFFFF b3 = Some (0, 0xFFFF, b4)" using f floating_read [of ?ob 31 LAN8742_BCR "0xFFFF" b3] by auto
  obtain t b5 where t: "io_GetTick (IO ob) b4 = (t, b5)" by fastforce
  obtain st b6 where s: "soft_reset ?ob 0xFFFF b2 = Some (st, b6)" using soft_reset_dev [OF c] by blast
  then have "reset_wait ?ob t 0xFFFF b5 = Some (st, b6)" using b3 b4 t by (simp add: soft_reset_def)
  then have "st = STATUS_RESET_TIMEOUT" using f by (intro reset_wait_floating [of ?ob]) (auto simp: BCR_SOFT_RESET_def)
  then have "probe ob b = Some (STATUS_RESET_TIMEOUT, ?ob, b6)"
    using b1 b2 s by (simp add: probe_def LAN8742_MAX_DEV_ADDR_def)
  then show ?thesis using i by (simp add: LAN8742_Init_def)
qed

lemma link_state_floating:
  assumes f: "floating (IO ob)"
  shows "\<exists>b'. LAN8742_GetLinkState ob b = Some (STATUS_10MBITS_HALFDUPLEX, b')"
proof -
  obtain b1 where r1: "read_reg ob (DevAddr ob) LAN8742_BSR 0 b = Some (0, 0xFFFF, b1)" using floating_read [OF f] .
  obtain b2 where r2: "read_reg ob (DevAddr ob) LAN8742_BSR 0xFFFF b1 = Some (0, 0xFFFF, b2)" using floating_read [OF f] .
  obtain b3 where r3: "read_reg ob (DevAddr ob) LAN8742_BCR 0xFFFF b2 = Some (0, 0xFFFF, b3)" using floating_read [OF f] .
  obtain b4 where r4: "read_reg ob (DevAddr ob) LAN8742_PHYSCSR 0xFFFF b3 = Some (0, 0xFFFF, b4)" using floating_read [OF f] .
  show ?thesis
    by (simp add: LAN8742_GetLinkState_def r1 r2 r3 r4 BSR_LINK_STATUS_def BCR_AUTONEGO_EN_def physcsr_mode_def
        PHYSCSR_AUTONEGO_DONE_def PHYSCSR_HCDSPEEDMASK_def PHYSCSR_100BTX_FD_def PHYSCSR_100BTX_HD_def PHYSCSR_10BT_FD_def)
qed

definition no_phy :: "'h eth_env \<Rightarrow> bool" where
  \<comment> \<open>frames end at once, and the data register then holds ones\<close>
  "no_phy E \<longleftrightarrow> (\<forall>h. fst (hw_read E (Reg MACMDIOAR) h) AND ETH_MACMDIOAR_MB = 0 \<and>
     take_bit 16 (fst (hw_read E (Reg MACMDIODR) h)) = 0xFFFF)"

lemma no_phy_floating:
  assumes "no_phy E"
  shows "floating (phy_io E)"
proof -
  have b: "fst (run_state (READ_BIT E (Reg MACMDIOAR) ETH_MACMDIOAR_MB) h) = 0"
    "take_bit 16 (fst (run_state (READ_REG E (Reg MACMDIODR)) h)) = 0xFFFF" for h
    using assms by (auto simp: no_phy_def READ_BIT_def READ_REG_def split: prod.splits) (metis fst_conv)
  have w: "\<exists>h'. mdio_wait E t h = Some (True, h')" for t h
    using b(1) [of h] by (subst mdio_wait.simps) (auto split: prod.splits)
  show ?thesis
    unfolding floating_def phy_io_sel
  proof (intro conjI allI)
    fix dev reg old h
    obtain h1 where r1: "run_state (READ_BIT E (Reg MACMDIOAR) ETH_MACMDIOAR_MB) h = (0, h1)" using b(1) by (metis prod.collapse)
    obtain tmp h2 where r2: "run_state (READ_REG E (Reg MACMDIOAR)) h1 = (tmp, h2)" by fastforce
    define h3 where "h3 = hw_write E (Reg MACMDIOAR) (mdio_command tmp dev reg ETH_MACMDIOAR_MOC_RD) h2"
    obtain t h4 where t: "HAL_GetTick E h3 = (t, h4)" by fastforce
    obtain h5 where h5: "mdio_wait E t h4 = Some (True, h5)" using w by blast
    obtain v h6 where r6: "run_state (READ_REG E (Reg MACMDIODR)) h5 = (v, h6)" by fastforce
    show "\<exists>b'. phy_io_read_reg E dev reg old h = Some (0, 0xFFFF, b')"
      using b(2) [of h5] by (simp add: phy_io_read_reg_def r1 r2 h3_def [symmetric] t h5 r6)
  next
    fix dev reg v h
    obtain h1 where r1: "run_state (READ_BIT E (Reg MACMDIOAR) ETH_MACMDIOAR_MB) h = (0, h1)" using b(1) by (metis prod.collapse)
    obtain tmp h2 where r2: "run_state (READ_REG E (Reg MACMDIOAR)) h1 = (tmp, h2)" by fastforce
    define h3 where "h3 = hw_write E (Reg MACMDIODR) (take_bit 16 v) h2"
    define h4 where "h4 = hw_write E (Reg MACMDIOAR) (mdio_command tmp dev reg ETH_MACMDIOAR_MOC_WR) h3"
    obtain t h5 where t: "HAL_GetTick E h4 = (t, h5)" by fastforce
    obtain h6 where "mdio_wait E t h5 = Some (True, h6)" using w by blast
    then show "\<exists>b'. phy_io_write_reg E dev reg v h = Some (0, b')"
      by (simp add: phy_io_write_reg_def r1 r2 h3_def [symmetric] h4_def [symmetric] t)
  qed
qed

end
