(* ===== verification/EthDemo.thy ===== *)
theory EthDemo
  imports EthMdio EthLinkInv EthRxReach EthTx EthBoot
begin

text \<open>
  Four small pieces of hardware on which the laws assumed of the Ethernet peripheral hold: a memory, a
  management interface with its devices and a clock, the same without a device, and a receive DMA that
  takes a step at every call of the operating system.
\<close>

section \<open>A memory\<close>

type_synonym mem = "eth_loc \<Rightarrow> u32"

definition mem_env :: "mem eth_env" where
  "mem_env = \<lparr>hw_read = (\<lambda>l h. (h l, h)), hw_write = (\<lambda>l v h. h(l := v)), HAL_GetTick = (\<lambda>h. (0, h)),
     HAL_RCC_GetHCLKFreq = (\<lambda>h. (200000000, h)),
     os_call = (\<lambda>op h. h(Var netif_flags := netif_effect op (h (Var netif_flags)))),
     sem_wait = (\<lambda>_ _ h. (True, h)), sem_release = (\<lambda>_ h. h), rx_pool_alloc = (\<lambda>h. (True, h)), rx_pool_free = (\<lambda>h. h),
     netif_input = (\<lambda>_ _ h. (0, h)), dmaRxDscrTab = 0x30040060, dmaTxDscrTab = 0x30040000, rx_Buff = 0x24000000, tx_Buff = 0x24004000\<rparr>"

lemma mem_keeps: "keeps mem_env UNIV (\<lambda>h. h)"
  by (simp add: keeps_def mem_env_def)

definition part :: "eth_loc set \<Rightarrow> mem \<Rightarrow> eth_loc \<Rightarrow> u32" where
  "part R h l = (if l \<in> R then h l else 0)"

lemma part_keeps: "keeps mem_env R (part R)"
  by (auto simp: keeps_def mem_env_def part_def fun_eq_iff)

lemma part_os: "Var netif_flags \<in> R \<Longrightarrow> os_law mem_env (part R)"
  by (auto simp: os_law_def mem_env_def part_def fun_eq_iff)

lemma mem_tx: "tx_hw mem_env (\<lambda>_. True) (\<lambda>h. h)"
proof -
  have "Var netif_flags \<notin> tx_words mem_env" by (auto simp: tx_words_def)
  then show ?thesis by (auto simp: tx_hw_def same_words_def) (auto simp: mem_env_def)
qed

definition mem_up :: mem where
  \<comment> \<open>the interface is up, the tail pointer is at the second descriptor, the buffer is full of old bytes\<close>
  "mem_up l = (case l of Var isInitialized \<Rightarrow> 1 | Var txState \<Rightarrow> HAL_ETH_STATE_BUSY_TX | Reg DMACTDTPR \<Rightarrow> 0x30040018
     | TxByte k \<Rightarrow> 0xAA | _ \<Rightarrow> 0)"

lemma mem_up_ready: "tx_ready mem_env mem_up 1"
  by (simp add: tx_ready_def mem_up_def tx_desc_def mem_env_def)

section \<open>A management interface\<close>

type_synonym mdio = "nat \<times> mdio_phase \<times> (u32 \<Rightarrow> u32 \<Rightarrow> u32)"

definition narrow_regs :: "(u32 \<Rightarrow> u32 \<Rightarrow> u32) \<Rightarrow> u32 \<Rightarrow> u32 \<Rightarrow> u32" where
  "narrow_regs r dev reg = r dev reg AND 0xFFFF"

fun mdio_read :: "eth_loc \<Rightarrow> mdio \<Rightarrow> u32 \<times> mdio" where
  "mdio_read (Reg MACMDIOAR) (t, Busy (Suc n) c d, r) = (1, Suc t, Busy n c d, r)"
| "mdio_read (Reg MACMDIOAR) (t, Busy 0 c d, r) = (let (d', r') = frame_result c d (narrow_regs r) in (0, Suc t, Idle d', r'))"
| "mdio_read (Reg MACMDIODR) (t, Idle d, r) = (d, Suc t, Idle d, r)"
| "mdio_read _ (t, p, r) = (0, Suc t, p, r)"

fun mdio_write :: "eth_loc \<Rightarrow> u32 \<Rightarrow> mdio \<Rightarrow> mdio" where
  "mdio_write (Reg MACMDIOAR) v (t, Idle d, r) = (Suc t, if v AND ETH_MACMDIOAR_MB = 0 then Idle d else Busy 2 v d, r)"
| "mdio_write (Reg MACMDIODR) v (t, Idle d, r) = (Suc t, Idle v, r)"
| "mdio_write _ v (t, p, r) = (Suc t, p, r)"

definition mdio_env :: "mdio eth_env" where
  "mdio_env = \<lparr>hw_read = mdio_read, hw_write = mdio_write, HAL_GetTick = (\<lambda>(t, h). (of_nat t, Suc t, h)),
     HAL_RCC_GetHCLKFreq = (\<lambda>(t, h). (200000000, Suc t, h)), os_call = (\<lambda>_ h. h),
     sem_wait = (\<lambda>_ _ h. (True, h)), sem_release = (\<lambda>_ h. h), rx_pool_alloc = (\<lambda>h. (True, h)), rx_pool_free = (\<lambda>h. h),
     netif_input = (\<lambda>_ _ h. (0, h)), dmaRxDscrTab = 0x30040060, dmaTxDscrTab = 0x30040000, rx_Buff = 0x24000000, tx_Buff = 0x24004000\<rparr>"

definition mdio_V :: "mdio mdio_view" where
  "mdio_V = \<lparr>phase = (\<lambda>(t, p, r). p), regs = (\<lambda>(t, p, r). narrow_regs r), tick = fst\<rparr>"

lemma narrow_twice [simp]: "narrow_regs (narrow_regs r) = narrow_regs r"
  by (simp add: narrow_regs_def fun_eq_iff and.assoc)

lemma mdio_read_time: "fst (snd (mdio_read l h)) = Suc (fst h)"
  by (cases "(l, h)" rule: mdio_read.cases) (auto simp: split: prod.splits)

lemma mdio_write_time: "fst (mdio_write l v h) = Suc (fst h)"
  by (cases "(l, v, h)" rule: mdio_write.cases) auto

lemma mdio_timed: "timed mdio_env fst 1 1"
  by (auto simp: timed_def mdio_env_def mdio_read_time mdio_write_time)

lemma narrow_frame:
  assumes "frame_result c d (narrow_regs r) = (d', r')"
  shows "narrow_regs r' = r'"
proof -
  have t: "take_bit 16 v AND 0xFFFF = take_bit 16 v" for v :: u32
    by (simp add: take_bit_eq_mask mask_numeral and.assoc)
  consider "r' = narrow_regs r" | dev reg where "r' = (narrow_regs r)(dev := (narrow_regs r dev)(reg := take_bit 16 d))"
    using assms by (auto simp: frame_result_def Let_def split: if_splits)
  then show ?thesis by cases (auto simp: fun_eq_iff narrow_regs_def and.assoc t)
qed

lemma mdio_demo: "mdio_hw mdio_env mdio_V 2"
  unfolding mdio_hw_def
proof (intro conjI)
  show "mdio_idle_law mdio_env mdio_V 2"
    by (auto simp: mdio_idle_law_def mdio_env_def mdio_V_def steps_to_def)
  show "mdio_busy_law mdio_env mdio_V"
    by (auto simp: mdio_busy_law_def mdio_env_def mdio_V_def steps_to_def ETH_MACMDIOAR_MB_def split: prod.splits
        dest: narrow_frame)
qed (auto simp: mdio_env_def mdio_V_def steps_to_def narrow_regs_def and.assoc)

definition mdio_quiet :: mdio where
  \<comment> \<open>a PHY at the address 5 with its link up\<close>
  "mdio_quiet = (0, Idle 0, \<lambda>dev reg. if dev = 5 \<and> reg = LAN8742_BSR then 0x782D else if dev = 5 \<and> reg = LAN8742_BCR then 0x3100 else 0)"

section \<open>A management interface without a device\<close>

definition bare_env :: "nat eth_env" where
  \<comment> \<open>the state is the time\<close>
  "bare_env = \<lparr>hw_read = (\<lambda>l t. (if l = Reg MACMDIODR then 0xFFFF else 0, Suc t)), hw_write = (\<lambda>_ _. Suc),
     HAL_GetTick = (\<lambda>t. (of_nat t, Suc t)), HAL_RCC_GetHCLKFreq = (\<lambda>t. (200000000, Suc t)), os_call = (\<lambda>_ t. t),
     sem_wait = (\<lambda>_ _ t. (True, t)), sem_release = (\<lambda>_ t. t), rx_pool_alloc = (\<lambda>t. (True, t)), rx_pool_free = (\<lambda>t. t),
     netif_input = (\<lambda>_ _ t. (0, t)), dmaRxDscrTab = 0x30040060, dmaTxDscrTab = 0x30040000, rx_Buff = 0x24000000, tx_Buff = 0x24004000\<rparr>"

lemma bare_timed: "timed bare_env (\<lambda>t. t) 1 1"
  by (simp add: timed_def bare_env_def)

lemma bare_no_phy: "no_phy bare_env"
  by (simp add: no_phy_def bare_env_def take_bit_eq_mask mask_numeral)

section \<open>A receive DMA\<close>

definition ring_at :: "nat \<Rightarrow> u32" where "ring_at i = 0x30040060 + 24 * of_nat i"

definition rx_index :: "u32 \<Rightarrow> nat option" where
  \<comment> \<open>the descriptor at an address\<close>
  "rx_index p = List.find (\<lambda>i. ring_at i = p) [0..<9]"

definition dma_step :: "ring \<Rightarrow> ring" where
  "dma_step r = (if r_run r \<and> r_cur r \<noteq> r_tail r \<and> r_own r (r_cur r)
     then r\<lparr>r_own := (r_own r)(r_cur r := False), r_cur := nxt (r_cur r)\<rparr> else r)"

definition ring_read :: "eth_loc \<Rightarrow> ring \<Rightarrow> u32" where
  \<comment> \<open>every packet has 60 bytes\<close>
  "ring_read l r = (case l of
       Var toProcessPointer \<Rightarrow> ring_at (r_proc r) | Reg DMACCARDR \<Rightarrow> ring_at (r_cur r)
     | Reg DMACRDTPR \<Rightarrow> ring_at (r_tail r)
     | Mem a \<Rightarrow> (case rx_index a of Some i \<Rightarrow> r_buf r i
         | None \<Rightarrow> (case rx_index (a - 12) of Some i \<Rightarrow> if r_own r i then 0xC1000000 else 0x3000003C | None \<Rightarrow> 0))
     | _ \<Rightarrow> 0)"

definition ring_write :: "eth_loc \<Rightarrow> u32 \<Rightarrow> ring \<Rightarrow> ring" where
  "ring_write l v r = (case l of
       Var toProcessPointer \<Rightarrow> (case rx_index v of Some i \<Rightarrow> r\<lparr>r_proc := i\<rparr> | None \<Rightarrow> r)
     | Reg DMACRDLAR \<Rightarrow> (case rx_index v of Some i \<Rightarrow> r\<lparr>r_cur := i\<rparr> | None \<Rightarrow> r)
     | Reg DMACRDTPR \<Rightarrow> (case rx_index v of Some i \<Rightarrow> r\<lparr>r_tail := i\<rparr> | None \<Rightarrow> r)
     | Reg DMACRCR \<Rightarrow> r\<lparr>r_run := v AND ETH_DMACRCR_SR \<noteq> 0\<rparr>
     | Mem a \<Rightarrow> (case rx_index a of Some i \<Rightarrow> r\<lparr>r_buf := (r_buf r)(i := v)\<rparr>
         | None \<Rightarrow> (case rx_index (a - 12) of Some i \<Rightarrow> r\<lparr>r_own := (r_own r)(i := v AND WBF_OWN \<noteq> 0)\<rparr> | None \<Rightarrow> r))
     | _ \<Rightarrow> r)"

definition ring_env :: "ring eth_env" where
  "ring_env = \<lparr>hw_read = (\<lambda>l r. (ring_read l r, r)), hw_write = ring_write, HAL_GetTick = (\<lambda>r. (0, r)),
     HAL_RCC_GetHCLKFreq = (\<lambda>r. (200000000, r)), os_call = (\<lambda>_. dma_step),
     sem_wait = (\<lambda>_ _ r. (True, r)), sem_release = (\<lambda>_ r. r), rx_pool_alloc = (\<lambda>r. (True, r)), rx_pool_free = (\<lambda>r. r),
     netif_input = (\<lambda>_ _ r. (0, r)), dmaRxDscrTab = 0x30040060, dmaTxDscrTab = 0x30040000, rx_Buff = 0x24000000, tx_Buff = 0x24004000\<rparr>"

lemma ring_desc [simp]: "rx_desc ring_env i = ring_at i"
  by (simp add: rx_desc_def ring_env_def ring_at_def)

lemma ring_sel [simp]: "hw_read ring_env l r = (ring_read l r, r)" "hw_write ring_env = ring_write"
  "os_call ring_env op = dma_step" "rx_pool_alloc ring_env r = (True, r)" "rx_pool_free ring_env r = r"
  by (simp_all add: ring_env_def)

lemma rx_index_desc [simp]: "i < 9 \<Longrightarrow> rx_index (ring_at i) = Some i"
proof -
  assume i: "i < 9"
  have "\<not> ring_at j = ring_at i" if "j < i" for j
    using rx_desc_inj [of j i ring_env] i that by auto
  then show ?thesis
    unfolding rx_index_def find_Some_iff using i by (intro exI [of _ i]) simp
qed

lemma rx_index_Some: "rx_index p = Some i \<Longrightarrow> i < 9 \<and> p = ring_at i"
  by (auto simp: rx_index_def find_Some_iff)

lemma rx_index_own [simp]: "i < 9 \<Longrightarrow> rx_index (ring_at i + 12) = None"
proof (rule ccontr)
  assume i: "i < 9" and "rx_index (ring_at i + 12) \<noteq> None"
  then obtain j where j: "j < 9" "ring_at i + 12 = ring_at j" using rx_index_Some by blast
  then have "(24 * of_nat i + 12 :: u32) = 24 * of_nat j" by (simp only: ring_at_def add.assoc add_left_cancel)
  then have e: "(of_nat (24 * i + 12) :: u32) = of_nat (24 * j)" by simp
  have u: "unat (of_nat n :: u32) = n" if "n < 2 ^ 32" for n
    using that by (simp add: unat_of_nat take_bit_eq_mod)
  have "24 * i + 12 = 24 * j" using u [of "24 * i + 12"] u [of "24 * j"] e i j(1) by simp
  then show False by presburger
qed

lemma ring_other:
  assumes "l \<notin> rx_words ring_env"
  shows "ring_write l v r = r"
proof (cases l)
  case (Mem a)
  have "rx_index a = None"
    using assms rx_index_Some [of a] by (cases "rx_index a") (auto simp: Mem rx_words_def)
  moreover have "rx_index (a - 12) = None"
  proof (cases "rx_index (a - 12)")
    case (Some i)
    then have "i < 9" "a = ring_at i + 12" using rx_index_Some [of "a - 12" i] by (auto simp: algebra_simps)
    then show ?thesis using assms by (auto simp: Mem rx_words_def)
  qed
  ultimately show ?thesis by (simp add: ring_write_def Mem)
next
  case (Reg x)
  then show ?thesis using assms by (cases x) (auto simp: ring_write_def rx_words_def)
next
  case (Var x)
  then show ?thesis using assms by (cases x) (auto simp: ring_write_def rx_words_def)
qed (simp add: ring_write_def)

lemma ring_rx_hw: "rx_hw ring_env (\<lambda>r. r)"
  unfolding rx_hw_def
proof (intro conjI allI)
  have own: "(0xC1000000 :: u32) AND WBF_OWN \<noteq> 0" "(0x3000003C :: u32) AND WBF_OWN = 0" by (simp_all add: WBF_OWN_def)
  show "rx_reads ring_env (\<lambda>r. r)"
    using own by (simp add: rx_reads_def ring_read_def)
  show "rx_writes ring_env (\<lambda>r. r)"
    by (simp add: rx_writes_def ring_other) (simp add: ring_write_def)
  show "runs h (os_call ring_env op h)" for op h
    by (auto simp: dma_step_def intro: dma.intros)
qed simp_all

definition ring0 :: ring where
  "ring0 = \<lparr>r_proc = 0, r_cur = 0, r_tail = 0, r_buf = (\<lambda>_. 0), r_own = (\<lambda>_. False), r_run = False\<rparr>"

definition ring1 :: ring where
  \<comment> \<open>the initialised and started ring once a packet has arrived\<close>
  "ring1 = dma_step (hw_write ring_env (Reg DMACRCR) 1 (snd (run_state (rx_dec_list_init ring_env) ring0)))"

lemma ring1_reach: "rx_reach ring_env (\<lambda>r. r) ring1 {#}"
  unfolding ring1_def
  by (rule rx_reach.other, rule rx_reach.run, rule rx_reach.init) (auto simp: ring0_def dma_step_def intro: dma.intros)

lemma ring1_fields: "r_proc ring1 = 0" "r_cur ring1 = 1" "r_buf ring1 0 = 0x24000000" "\<not> r_own ring1 0" "r_tail ring1 = 8"
  using rx_dec_list_init_ring [OF ring_rx_hw, of ring0]
  by (simp_all add: ring1_def ring0_def dma_step_def ring_write_def ETH_DMACRCR_SR_def nxt_def ETH_RX_DESC_CNT_def
      rx_buffer_def ring_env_def)

lemma ring1_packet: "\<exists>h'. low_level_input ring_env ring1 = Some (Some \<lparr>buffer = 0x24000000, tot_len = 60\<rparr>, h')"
proof -
  have ne: "ring_at 0 \<noteq> ring_at (Suc 0)" by (simp add: ring_at_def)
  have rd: "ring_read (Var toProcessPointer) ring1 = ring_at 0" "ring_read (Reg DMACCARDR) ring1 = ring_at 1"
    "ring_read (DESC0 (ring_at 0)) ring1 = 0x24000000" "ring_read (DESC3 (ring_at 0)) ring1 = 0x3000003C"
    by (simp_all add: ring_read_def ring1_fields)
  show ?thesis
    by (simp add: low_level_input_def READ_BIT_def READ_REG_def rd ne deliver_def WBF_PL_def WBF_OWN_def WBF_CTXT_def
        WBF_FD_def WBF_LD_def)
qed

end
