(* ===== verification/EthClaims.thy ===== *)
theory EthClaims
  imports EthDemo
begin

text \<open>
  Properties of the Ethernet driver: the configuration of the MAC, the link thread, the management
  interface and the start. Each is applied to one of the small pieces of hardware of theory \<open>EthDemo\<close>.
\<close>

section \<open>The configuration of the MAC\<close>

text \<open>C24: A MAC configuration whose values fit their fields is what \<open>get_mac_config\<close> reads after
  \<open>set_mac_config\<close> has written it, and nothing outside the seven registers changes. Changing speed
  and duplex mode by reading the configuration, changing it and writing it back, as the link thread
  does, keeps every other value of it.\<close>

theorem mac_config_read_back:
  assumes k: "keeps E Rs cont" and rs: "mac_regs \<subseteq> Rs" and c: "in_range c"
    and m: "d AND ETH_MACCR_DM = d" "s AND ETH_MACCR_FES = s"
  shows "after (set_mac_config E c) h (\<lambda>_ h1. (\<forall>l. l \<notin> mac_regs \<longrightarrow> cont h1 l = cont h l) \<and>
      after (get_mac_config E) h1 (\<lambda>c' h2. c' = c \<and> cont h2 = cont h1)) \<and>
    after (reconfigure E d s) h (\<lambda>_ h1. after (get_mac_config E) h1
      (\<lambda>c' h2. c' = config_of (cont h)\<lparr>DuplexMode := d, Speed := s\<rparr>))"
proof
  have other: "new_regs R c' l = R l" if "l \<notin> mac_regs" for R c' l
    using that by (auto simp: new_regs_def mac_regs_def)
  show "after (set_mac_config E c) h (\<lambda>_ h1. (\<forall>l. l \<notin> mac_regs \<longrightarrow> cont h1 l = cont h l) \<and>
      after (get_mac_config E) h1 (\<lambda>c' h2. c' = c \<and> cont h2 = cont h1))"
    by (rule set_mac_config_after [OF k rs refl])
      (auto simp: other config_of_new_regs [OF c] intro: get_mac_config_after [OF k rs])
  let ?c = "config_of (cont h)\<lparr>DuplexMode := d, Speed := s\<rparr>"
  have r: "in_range ?c" using in_range_config_of [of "cont h"] m by (simp add: in_range_def)
  show "after (reconfigure E d s) h (\<lambda>_ h1. after (get_mac_config E) h1 (\<lambda>c' h2. c' = ?c))"
    unfolding reconfigure_def
    by (rule after_bind, rule get_mac_config_after [OF k rs refl], rule set_mac_config_after [OF k rs], assumption,
        rule get_mac_config_after [OF k rs], assumption) (simp add: config_of_new_regs [OF r])
qed

lemma mac_config_read_back_witness:
  "in_range macDefaultConf \<and>
   after (set_mac_config mem_env macDefaultConf) (\<lambda>_. 0xFFFFFFFF) (\<lambda>_ h1. h1 (Reg DMAMR) = 0xFFFFFFFF \<and>
     after (get_mac_config mem_env) h1 (\<lambda>c' h2. c' = macDefaultConf))"
proof
  show r: "in_range macDefaultConf" by (simp add: in_range_def macDefaultConf_def eth_masks)
  have "after (set_mac_config mem_env macDefaultConf) (\<lambda>_. 0xFFFFFFFF) (\<lambda>_ h1. (\<forall>l. l \<notin> mac_regs \<longrightarrow> h1 l = 0xFFFFFFFF) \<and>
      after (get_mac_config mem_env) h1 (\<lambda>c' h2. c' = macDefaultConf \<and> h2 = h1))"
    using mac_config_read_back [OF mem_keeps subset_UNIV r, of 0 0 "\<lambda>_. 0xFFFFFFFF"] by simp
  then show "after (set_mac_config mem_env macDefaultConf) (\<lambda>_. 0xFFFFFFFF) (\<lambda>_ h1. h1 (Reg DMAMR) = 0xFFFFFFFF \<and>
     after (get_mac_config mem_env) h1 (\<lambda>c' h2. c' = macDefaultConf))"
    by (rule after_mono) (auto simp: mac_regs_def elim: after_mono)
qed

text \<open>For every bus clock of the documented range, 20 to 250 MHz, the divider that
  \<open>carbon_hw_ethernet_mac_mdio_clkconfig\<close> selects keeps the clock of the management interface at or below 2.5 MHz
  and above 1 MHz; no other bit of the register changes.\<close>

definition mdc_divider :: "u32 \<Rightarrow> nat" where
  \<comment> \<open>the division factors the reference manual gives for the field \<open>CR\<close> of \<open>MACMDIOAR\<close>\<close>
  "mdc_divider v = (let f = v AND 0xF00 in if f = 0 then 42 else if f = 0x100 then 62 else if f = 0x200 then 16
     else if f = 0x300 then 26 else if f = 0x400 then 102 else 124)"

theorem mdc_clock_in_range:
  assumes k: "keeps E {Reg MACMDIOAR} cont" and clk: "\<And>h. fst (HAL_RCC_GetHCLKFreq E h) = of_nat hclk \<and> cont (snd (HAL_RCC_GetHCLKFreq E h)) = cont h"
    and f: "20000000 \<le> hclk" "hclk \<le> 250000000"
  shows "after (mac_mdio_clkconfig E) h (\<lambda>_ h'. hclk \<le> 2500000 * mdc_divider (cont h' (Reg MACMDIOAR)) \<and>
    1000000 * mdc_divider (cont h' (Reg MACMDIOAR)) < hclk \<and>
    cont h' (Reg MACMDIOAR) AND NOT 0xF00 = cont h (Reg MACMDIOAR) AND NOT 0xF00)"
proof -
  let ?r = "Reg MACMDIOAR" and ?f = "mdio_clock_range (of_nat hclk)"
  let ?v = "(cont h ?r AND NOT 0xF00) OR ?f"
  have u: "unat (of_nat hclk :: u32) = hclk" using f by (simp add: unat_of_nat take_bit_eq_mod)
  have cr: "?f AND 0xF00 = ?f" "?f AND NOT 0xF00 = 0" by (simp_all add: mdio_clock_range_def)
  have "mdc_divider ?v = mdc_divider ?f" "?v AND NOT 0xF00 = cont h ?r AND NOT 0xF00"
    using cr by (simp_all add: mdc_divider_def bit.conj_disj_distrib2 and.assoc)
  moreover have "hclk \<le> 2500000 * mdc_divider ?f \<and> 1000000 * mdc_divider ?f < hclk"
    using f u by (simp add: mdio_clock_range_def mdc_divider_def word_le_nat_alt word_less_nat_alt)
  ultimately have post: "hclk \<le> 2500000 * mdc_divider ?v \<and> 1000000 * mdc_divider ?v < hclk \<and>
      ?v AND NOT 0xF00 = cont h ?r AND NOT 0xF00" by simp
  obtain x h1 where x: "hw_read E ?r h = (x, h1)" by fastforce
  obtain y h2 where y: "HAL_RCC_GetHCLKFreq E h1 = (y, h2)" by fastforce
  have "x = cont h ?r" "cont h1 = cont h" using k x unfolding keeps_def by (metis fst_conv singletonI, metis snd_conv)
  moreover have "y = of_nat hclk" "cont h2 = cont h1" using clk [of h1] y by simp_all
  moreover have "cont (hw_write E ?r ?v h2) = (cont h2)(?r := ?v)" using k unfolding keeps_def by simp
  ultimately show ?thesis
    using post x y by (simp add: after_def mac_mdio_clkconfig_def READ_REG_def)
qed

lemma mdc_clock_in_range_witness:
  "after (mac_mdio_clkconfig mem_env) (\<lambda>_. 0x42F) (\<lambda>_ h'. mdc_divider (h' (Reg MACMDIOAR)) = 102 \<or>
     200000000 \<le> 2500000 * mdc_divider (h' (Reg MACMDIOAR)))"
proof -
  have "after (mac_mdio_clkconfig mem_env) (\<lambda>_. 0x42F) (\<lambda>_ h'. 200000000 \<le> 2500000 * mdc_divider (part {Reg MACMDIOAR} h' (Reg MACMDIOAR)) \<and>
      1000000 * mdc_divider (part {Reg MACMDIOAR} h' (Reg MACMDIOAR)) < 200000000 \<and>
      part {Reg MACMDIOAR} h' (Reg MACMDIOAR) AND NOT 0xF00 = part {Reg MACMDIOAR} (\<lambda>_. 0x42F) (Reg MACMDIOAR) AND NOT 0xF00)"
    by (rule mdc_clock_in_range [OF part_keeps]) (simp_all add: mem_env_def)
  then show ?thesis by (rule after_mono) (simp add: part_def)
qed

section \<open>The link thread\<close>

fun link_reports :: "'h eth_env \<Rightarrow> lan_status list \<Rightarrow> link_vars \<Rightarrow> ('h, link_vars) state" where
  \<comment> \<open>the reactions of the link thread to a sequence of reports of the PHY\<close>
  "link_reports E [] lv = State_Monad.return lv"
| "link_reports E (st # sts) lv = do { lv \<leftarrow> link_change E st lv; link_reports E sts lv }"

text \<open>C25: Over any sequence of reports of the PHY the link flag of the interface and the variables of the
  link thread follow the automaton \<open>link_step\<close>: the link goes down with the first report of at most
  \<open>STATUS_LINK_DOWN\<close> and comes up with the next report above it, except that unfinished auto-negotiation
  brings it up only once some mode has been seen. Whenever the link is up the speed and duplex bits of the
  MAC are those the thread holds in its variables.\<close>

theorem link_follows_reports:
  assumes k: "keeps E view cont" and o: "os_law E cont" and v: "valid_modes lv"
    and m: "link_flag (cont h) \<Longrightarrow> mode_bits_of (cont h) = duplex lv OR speed lv"
  shows "after (link_reports E sts lv) h (\<lambda>lv' h'. (link_flag (cont h'), lv') = fold link_step sts (link_flag (cont h), lv) \<and>
    (link_flag (cont h') \<longrightarrow> mode_bits_of (cont h') = duplex lv' OR speed lv'))"
  using v m
proof (induction sts arbitrary: lv h)
  case Nil
  then show ?case by (auto intro: after_return)
next
  case (Cons st sts)
  show ?case
    unfolding link_reports.simps
  proof (rule after_bind, rule after_mono [OF link_change_simulates [OF k o refl Cons.prems(1), of st]])
    fix lv1 h1 assume a: "(link_flag (cont h1), lv1) = link_step st (link_flag (cont h), lv) \<and>
      mode_bits_of (cont h1) = (if \<not> link_flag (cont h) \<and> link_flag (cont h1) then duplex lv1 OR speed lv1 else mode_bits_of (cont h))"
    have v1: "valid_modes lv1" using link_step_valid [OF Cons.prems(1)] a by (metis snd_conv)
    have "mode_bits_of (cont h1) = duplex lv1 OR speed lv1" if up: "link_flag (cont h1)"
    proof (cases "link_flag (cont h)")
      case True
      then have "lv1 = lv" using a by (simp add: link_step_def)
      then show ?thesis using a True Cons.prems(2) by simp
    next
      case False
      then show ?thesis using a up by simp
    qed
    from Cons.IH [OF v1 this] show "after (link_reports E sts lv1) h1 (\<lambda>lv' h'.
        (link_flag (cont h'), lv') = fold link_step (st # sts) (link_flag (cont h), lv) \<and>
        (link_flag (cont h') \<longrightarrow> mode_bits_of (cont h') = duplex lv' OR speed lv'))"
      using a by simp
  qed
qed

lemma link_follows_reports_witness:
  "after (link_reports mem_env [STATUS_10MBITS_FULLDUPLEX, STATUS_LINK_DOWN, STATUS_AUTONEGO_NOTDONE] link_vars0) (\<lambda>_. 0)
    (\<lambda>lv' h'. link_flag h' \<and> mode_bits_of h' = ETH_FULLDUPLEX_MODE)"
proof -
  have "valid_modes link_vars0" by (simp add: valid_modes_def link_vars0_def ETH_HALFDUPLEX_MODE_def ETH_SPEED_10M_def)
  moreover have "Var netif_flags \<in> view" by (simp add: view_def)
  ultimately have "after (link_reports mem_env [STATUS_10MBITS_FULLDUPLEX, STATUS_LINK_DOWN, STATUS_AUTONEGO_NOTDONE] link_vars0) (\<lambda>_. 0)
    (\<lambda>lv' h'. (link_flag (part view h'), lv') = fold link_step [STATUS_10MBITS_FULLDUPLEX, STATUS_LINK_DOWN, STATUS_AUTONEGO_NOTDONE]
       (link_flag (part view (\<lambda>_. 0)), link_vars0) \<and>
       (link_flag (part view h') \<longrightarrow> mode_bits_of (part view h') = duplex lv' OR speed lv'))"
    by (intro link_follows_reports [OF part_keeps part_os]) (simp_all add: link_flag_def part_def)
  then show ?thesis
    by (rule after_mono) (simp add: link_step_def link_mode_def less_eq_lan_status_def less_lan_status_def link_flag_def part_def
        view_def mode_bits_of_def link_vars0_def ETH_SPEED_10M_def)
qed

section \<open>The management interface\<close>

text \<open>C26: Over a peripheral that carries out MDIO frames, the access functions of the driver are a register
  file: a 16-bit value written to a register of a device is read back, every other register of every
  device reads as before, and the interface is idle again. The reset bit clears itself and is left out.\<close>

theorem mdio_register_file:
  assumes hw: "mdio_hw E V N" and i: "bus_idle V h" and a: "dev \<le> 31" "reg \<le> 31" "dev' \<le> 31" "reg' \<le> 31"
    and v: "v AND 0xFFFF = v" "v AND BCR_SOFT_RESET = 0"
  shows "\<exists>h1 h2. phy_io_write_reg E dev reg v h = Some (0, h1) \<and>
    phy_io_read_reg E dev' reg' old h1 = Some (0, if (dev', reg') = (dev, reg) then v else regs V h dev' reg', h2) \<and>
    bus_idle V h2"
proof -
  obtain h1 where h1: "bus_idle V h1" "regs V h1 = (regs V h)(dev := (regs V h dev)(reg := v))"
    "phy_io_write_reg E dev reg v h = Some (0, h1)" using phy_io_write_frame [OF hw i a(1,2) v] by blast
  obtain h2 where "bus_idle V h2" "phy_io_read_reg E dev' reg' old h1 = Some (0, regs V h1 dev' reg', h2)"
    using phy_io_read_frame [OF hw h1(1) a(3,4)] by blast
  then show ?thesis using h1 by auto
qed

lemma mdio_register_file_witness:
  "\<exists>h1 h2. phy_io_write_reg mdio_env 5 0 0x2100 mdio_quiet = Some (0, h1) \<and> phy_io_read_reg mdio_env 5 1 0 h1 = Some (0, 0x782D, h2)"
proof -
  have "bus_idle mdio_V mdio_quiet" by (simp add: bus_idle_def mdio_V_def mdio_quiet_def)
  from mdio_register_file [OF mdio_demo this, of 5 0 5 1 "0x2100" 0] show ?thesis
    by (simp add: BCR_SOFT_RESET_def mdio_V_def mdio_quiet_def narrow_regs_def LAN8742_BSR_def LAN8742_BCR_def) blast
qed

text \<open>C27: The start of the interface returns on every hardware whose accesses take time, even when the tick
  counter wraps around: the wait for the reset of the MAC, every MDIO access, the address scan and the
  waits of the PHY driver all end. It succeeds exactly when the MAC left its reset in time, whatever
  the PHY driver reports.\<close>

theorem start_returns:
  assumes c: "timed E time K d"
  shows "\<exists>t h1 ok h2 r ob h'. run_state (mac_reset E) (os_call E NetifNames h) = (t, h1) \<and> swr_wait E t h1 = Some (ok, h2) \<and>
    carbon_lwip_init E lan8742 h = Some (r, ob, h') \<and> r = (if ok then 0 else - 12)"
proof -
  let ?h = "os_call E NetifNames h"
  obtain t h1 ok h2 r ob h' where s: "run_state (mac_reset E) ?h = (t, h1)" "swr_wait E t h1 = Some (ok, h2)"
    "low_level_init E lan8742 ?h = Some (r, ob, h')" "r = (if ok then 0 else 1)"
    using low_level_init_total [OF c] by blast
  then show ?thesis by (cases ok) (auto simp: carbon_lwip_init_def)
qed

lemma start_returns_witness:
  "\<exists>r ob h'. carbon_lwip_init bare_env \<lparr>DevAddr = 0, Is_Initialized = 0, IO = phy_io bare_env\<rparr> 4294967290 = Some (r, ob, h')"
  using start_returns [OF bare_timed, of 4294967290 "\<lparr>DevAddr = 0, Is_Initialized = 0, IO = phy_io bare_env\<rparr>"] by blast

text \<open>Without a PHY, on an interface that reads ones, \<open>LAN8742_Init\<close> takes the address 31 for that of a
  PHY and fails with the time-out of its reset instead of \<open>STATUS_ADDRESS_ERROR\<close>; \<open>LAN8742_GetLinkState\<close> then
  reports a link of 10 Mbit/s, half duplex, which the link thread takes for a link that is up.\<close>

theorem absent_phy_reports_link:
  assumes n: "no_phy E" and c: "timed E time K d" and i: "Is_Initialized ob = 0" and io: "IO ob = phy_io E"
  shows "\<exists>h1 h2. LAN8742_Init ob h = Some (STATUS_RESET_TIMEOUT, ob\<lparr>DevAddr := 31\<rparr>, h1) \<and>
    LAN8742_GetLinkState (ob\<lparr>DevAddr := 31\<rparr>) h1 = Some (STATUS_10MBITS_HALFDUPLEX, h2) \<and>
    fst (link_step STATUS_10MBITS_HALFDUPLEX (up, lv))"
proof -
  have f: "floating (IO ob)" using no_phy_floating [OF n] io by simp
  have "clocked (IO ob) time K (1002 * K + 9 * d)" using phy_io_clocked [OF c] io by simp
  then obtain h1 where "LAN8742_Init ob h = Some (STATUS_RESET_TIMEOUT, ob\<lparr>DevAddr := 31\<rparr>, h1)"
    using init_floating [OF _ f i] by blast
  moreover obtain h2 where "LAN8742_GetLinkState (ob\<lparr>DevAddr := 31\<rparr>) h1 = Some (STATUS_10MBITS_HALFDUPLEX, h2)"
    using link_state_floating [of "ob\<lparr>DevAddr := 31\<rparr>"] f by auto
  moreover have "fst (link_step STATUS_10MBITS_HALFDUPLEX (up, lv))"
    by (simp add: link_step_def link_mode_def less_eq_lan_status_def less_lan_status_def)
  ultimately show ?thesis by blast
qed

lemma absent_phy_reports_link_witness:
  "\<exists>h1. LAN8742_Init \<lparr>DevAddr = 0, Is_Initialized = 0, IO = phy_io bare_env\<rparr> 7 =
     Some (STATUS_RESET_TIMEOUT, \<lparr>DevAddr = 31, Is_Initialized = 0, IO = phy_io bare_env\<rparr>, h1)"
  using absent_phy_reports_link [OF bare_no_phy bare_timed, of "\<lparr>DevAddr = 0, Is_Initialized = 0, IO = phy_io bare_env\<rparr>" 7] by auto

end
