(* ===== verification/EthPktClaims.thy ===== *)
theory EthPktClaims
  imports EthDemo
begin

text \<open>
  Properties of the packet paths of the Ethernet driver: the receive ring, its buffers and the
  transmission of a chain of pbufs, with the small pieces of hardware of theory \<open>EthDemo\<close> as instances.
\<close>

section \<open>Reception\<close>

text \<open>C28: Whatever the DMA does between any two accesses and in whatever order the network stack frees its
  packets, the eight receive buffers of the ring are never lost and never doubled: each is either
  in the ring, once, or with the stack, once, and never with both. The ninth buffer is not among them: the
  first refill takes its descriptor.\<close>

theorem rx_buffers_conserved:
  assumes hw: "rx_hw E V" and r: "rx_reach E V h out"
  shows "\<exists>q. queue (V h) q \<and> mset q + out = mset (map (rx_buffer E) [0..<8]) \<and> distinct q \<and>
    set q \<inter> set_mset out = {} \<and> (\<forall>b. count out b \<le> 1) \<and> (8 :: nat) = length q + size out"
proof -
  obtain q where q: "queue (V h) q" "mset q + out = mset (map (rx_buffer E) [0..<8])"
    using rx_reach_buffers [OF hw r] by (auto simp: buffers_ok_def)
  then show ?thesis using buffers_ok_separate [OF q] buffers_ok_size [OF q] by metis
qed

lemma rx_buffers_conserved_witness:
  "\<exists>q. queue ring1 q \<and> mset q = mset (map (rx_buffer ring_env) [0..<8])"
  using rx_buffers_conserved [OF ring_rx_hw ring1_reach] by auto

text \<open>C29: In every reachable state the receive path keeps clear of \<open>Error_Handler\<close>: polling the ring
  returns, and so does freeing any packet that the stack holds, because its descriptor always has
  room. The stack holds at most eight packets, less than the ten elements of \<open>rx_pool\<close>.\<close>

theorem rx_never_halts:
  assumes hw: "rx_hw E V" and r: "rx_reach E V h out"
  shows "low_level_input E h \<noteq> None \<and> (\<forall>p. buffer p \<in># out \<longrightarrow> pbuf_free_custom E p h \<noteq> None) \<and> size out \<le> 8"
proof -
  obtain q where q: "queue (V h) q" "mset q + out = mset (map (rx_buffer E) [0..<8])"
    using rx_reach_buffers [OF hw r] by (auto simp: buffers_ok_def)
  have "low_level_input E h \<noteq> None" using low_level_input_queue [OF hw q(1)] by auto
  moreover have "pbuf_free_custom E p h \<noteq> None" if "buffer p \<in># out" for p
    using pbuf_free_custom_queue [OF hw q(1) free_room [OF q that], of p] by auto
  moreover have "size out \<le> 8" using buffers_ok_size [OF q] by simp
  ultimately show ?thesis by blast
qed

lemma rx_never_halts_witness:
  "\<exists>h'. low_level_input ring_env ring1 = Some (Some \<lparr>buffer = 0x24000000, tot_len = 60\<rparr>, h') \<and>
     pbuf_free_custom ring_env \<lparr>buffer = 0x24000000, tot_len = 60\<rparr> h' \<noteq> None"
proof -
  obtain h' where h': "low_level_input ring_env ring1 = Some (Some \<lparr>buffer = 0x24000000, tot_len = 60\<rparr>, h')"
    using ring1_packet by blast
  have "rx_reach ring_env (\<lambda>r. r) h' {#0x24000000#}" using rx_reach.packet [OF ring1_reach h'] by simp
  from rx_never_halts [OF ring_rx_hw this] h' show ?thesis by auto
qed

text \<open>The ring is a first-in first-out queue. \<open>low_level_input\<close> delivers the first buffer of the ring and
  removes it, delivers nothing and keeps the ring, or discards the first packet and puts its buffer at the
  end; a delivered packet fits its buffer. \<open>pbuf_free_custom\<close> puts the buffer at the end.\<close>

theorem rx_ring_is_fifo:
  assumes hw: "rx_hw E V" and q: "queue (V h) q"
  shows "(\<exists>res h'. low_level_input E h = Some (res, h') \<and>
      (case res of None \<Rightarrow> queue (V h') q \<or> queue (V h') (rotate1 q)
       | Some p \<Rightarrow> q = buffer p # tl q \<and> tot_len p \<le> ETH_RX_BUFFER_SIZE_ALIGNED \<and> queue (V h') (tl q))) \<and>
    (length q < 8 \<longrightarrow> (\<exists>h'. pbuf_free_custom E p h = Some h' \<and> queue (V h') (q @ [buffer p])))"
  using low_level_input_queue [OF assms] pbuf_free_custom_queue [OF assms] by blast

lemma rx_ring_is_fifo_witness:
  "\<exists>h' q. low_level_input ring_env ring1 = Some (Some \<lparr>buffer = 0x24000000, tot_len = 60\<rparr>, h') \<and> queue ring1 (0x24000000 # q) \<and> queue h' q"
proof -
  obtain q where q: "queue ring1 q"
    using rx_reach_buffers [OF ring_rx_hw ring1_reach] by (auto simp: buffers_ok_def)
  obtain h' where h': "low_level_input ring_env ring1 = Some (Some \<lparr>buffer = 0x24000000, tot_len = 60\<rparr>, h')"
    using ring1_packet by blast
  have "q = 0x24000000 # tl q" "queue h' (tl q)" using rx_ring_is_fifo [OF ring_rx_hw q, of undefined] h' by auto
  then show ?thesis using h' q by metis
qed

section \<open>Transmission\<close>

text \<open>C30: With the interface up and the tail descriptor free, \<open>carbon_lwip_output\<close> copies a chain that fits to
  the start of \<open>tx_Buff\<close>, leaves the rest of the buffer as it was, marks the tail descriptor as
  one complete frame of \<open>tot_len\<close> bytes in that buffer, and only then writes the tail pointer, to the other descriptor,
  and waits. The frame on the wire is thus the chain itself when \<open>tot_len\<close> is the sum of the lengths, and
  otherwise ends with bytes of an earlier frame.\<close>

theorem output_hands_over_frame:
  assumes hw: "tx_hw E idle cont" and h: "idle h" and r: "tx_ready E (cont h) i"
    and fits: "chain_fits (unat (pbuf_tot_len p)) (payloads p)" "length (concat (payloads p)) \<le> 1536"
    and tot: "unat (pbuf_tot_len p) \<le> 1536"
  shows "\<exists>h1. idle h1 \<and> desc_ready E (cont h1) (tx_desc E i) (ucast (pbuf_tot_len p)) \<and>
    tx_buffer (cont h1) = concat (payloads p) @ drop (length (concat (payloads p))) (tx_buffer (cont h)) \<and>
    (let h2 = hw_write E (Reg DMACTDTPR) (tx_desc E (1 - i)) h1; (ok, h3) = sem_wait E True ETH_DMA_TRANSMIT_TIMEOUT h2
     in carbon_lwip_output E p h = Some (if ok then (ERR_OK, os_call E (MutexRelease True) h3)
          else (ERR_IF, os_call E (MutexRelease True) (os_call E (DIAG ''error sending data'') h3))))"
proof -
  have i: "i < 2" using r by (simp add: tx_ready_def)
  obtain h1 where "idle h1" "desc_ready E (cont h1) (tx_desc E i) (ucast (pbuf_tot_len p))"
    "tx_buffer (cont h1) = concat (payloads p) @ drop (length (concat (payloads p))) (tx_buffer (cont h))"
    "carbon_lwip_output E p h = Some (ring_doorbell E (tx_desc E i) h1)"
    using output_sends [OF hw h r fits tot] by blast
  then show ?thesis
    by (intro exI [of _ h1]) (simp add: ring_doorbell_def increase_tx_pointer [OF i] Let_def split: prod.splits)
qed

lemma output_hands_over_frame_witness:
  "\<exists>h1. take 3 (tx_buffer h1) = [1, 2, 3] \<and> desc_ready mem_env h1 (tx_desc mem_env 1) 3 \<and>
     carbon_lwip_output mem_env \<lparr>payloads = [[1], [2, 3]], pbuf_tot_len = 3\<rparr> mem_up \<noteq> None"
proof -
  have "chain_fits 3 [[1 :: u8], [2, 3]]" by (auto simp: chain_fits_def less_Suc_eq numeral_2_eq_2)
  then obtain h1 where h1: "desc_ready mem_env h1 (tx_desc mem_env 1) (ucast (3 :: u16))"
      "tx_buffer h1 = concat [[1], [2, 3]] @ drop (length (concat [[1 :: u8], [2, 3]])) (tx_buffer mem_up)"
      "let h2 = hw_write mem_env (Reg DMACTDTPR) (tx_desc mem_env (1 - 1)) h1; (ok, h3) = sem_wait mem_env True ETH_DMA_TRANSMIT_TIMEOUT h2
       in carbon_lwip_output mem_env \<lparr>payloads = [[1], [2, 3]], pbuf_tot_len = 3\<rparr> mem_up =
          Some (if ok then (ERR_OK, os_call mem_env (MutexRelease True) h3)
          else (ERR_IF, os_call mem_env (MutexRelease True) (os_call mem_env (DIAG ''error sending data'') h3)))"
    using output_hands_over_frame [OF mem_tx TrueI mem_up_ready, of "\<lparr>payloads = [[1], [2, 3]], pbuf_tot_len = 3\<rparr>"] by auto
  have "take 3 (tx_buffer h1) = [1, 2, 3]" using h1(2) by simp
  moreover have "carbon_lwip_output mem_env \<lparr>payloads = [[1], [2, 3]], pbuf_tot_len = 3\<rparr> mem_up \<noteq> None"
    using h1(3) by (auto simp: Let_def split: prod.splits)
  ultimately show ?thesis using h1(1) by auto
qed

text \<open>C31: What \<open>carbon_lwip_output\<close> does with every other chain, in the same state. It writes past the end of
  \<open>tx_Buff\<close> exactly when \<open>tot_len\<close> passes the test and some pbuf that starts before \<open>tot_len\<close> ends beyond the
  buffer: the test looks at \<open>tot_len\<close> only. Otherwise a \<open>tot_len\<close> above the size of the buffer and a pbuf
  that starts at or after \<open>tot_len\<close> give \<open>ERR_IF\<close>, and the DMA stays suspended.\<close>

theorem output_of_bad_chain:
  assumes hw: "tx_hw E idle cont" and h: "idle h" and r: "tx_ready E (cont h) i"
  shows "(carbon_lwip_output E p h = None \<longleftrightarrow> unat (pbuf_tot_len p) \<le> 1536 \<and>
      (\<exists>k < length (payloads p). (\<forall>j \<le> k. length (concat (take j (payloads p))) < unat (pbuf_tot_len p)) \<and>
         1536 < length (concat (take (Suc k) (payloads p))))) \<and>
    (1536 < unat (pbuf_tot_len p) \<or> \<not> chain_fits (unat (pbuf_tot_len p)) (payloads p) \<longrightarrow>
     carbon_lwip_output E p h = None \<or> (\<exists>h'. carbon_lwip_output E p h = Some (ERR_IF, h') \<and> idle h'))"
  using output_rejects [OF assms, of p] by (auto simp: chain_overflows_def)

lemma output_of_bad_chain_witness:
  "carbon_lwip_output mem_env \<lparr>payloads = [[1], replicate 1536 0], pbuf_tot_len = 1500\<rparr> mem_up = None \<and>
   (\<exists>h'. carbon_lwip_output mem_env \<lparr>payloads = [[1], [2], []], pbuf_tot_len = 2\<rparr> mem_up = Some (ERR_IF, h'))"
proof
  note all = output_of_bad_chain [OF mem_tx TrueI mem_up_ready]
  have "length (concat (take j [[1 :: u8], replicate 1536 0])) < 1500" if "j \<le> 1" for j
    using that by (cases j) auto
  then have "\<exists>k < length [[1 :: u8], replicate 1536 0]. (\<forall>j \<le> k. length (concat (take j [[1 :: u8], replicate 1536 0])) < 1500) \<and>
      1536 < length (concat (take (Suc k) [[1 :: u8], replicate 1536 0]))"
    by (intro exI [of _ 1]) simp
  then show "carbon_lwip_output mem_env \<lparr>payloads = [[1], replicate 1536 0], pbuf_tot_len = 1500\<rparr> mem_up = None"
    using all [of "\<lparr>payloads = [[1], replicate 1536 0], pbuf_tot_len = 1500\<rparr>"] by simp
  let ?p = "\<lparr>payloads = [[1], [2], []], pbuf_tot_len = 2\<rparr> :: pbuf"
  have le: "length (concat (take k xs)) \<le> length (concat xs)" for k and xs :: "u8 list list"
    by (metis append_take_drop_id concat_append le_add1 length_append)
  have "\<not> chain_fits 2 [[1 :: u8], [2], []]" by (auto simp: chain_fits_def numeral_2_eq_2 intro!: exI [of _ 2])
  moreover have "\<not> 1536 < length (concat (take k [[1 :: u8], [2], []]))" for k
    using le [of k "[[1 :: u8], [2], []]"] by (simp only: not_less) simp
  then have "carbon_lwip_output mem_env ?p mem_up \<noteq> None" using all [of ?p] unfolding pbuf.simps by blast
  ultimately show "\<exists>h'. carbon_lwip_output mem_env ?p mem_up = Some (ERR_IF, h')"
    using all [of ?p] by auto
qed

end
