(* ===== verification/MpConsole.thy ===== *)
theory MpConsole
  imports CPrelude
begin

text \<open>
  The MicroPython task of \<open>CM7/core/src/mp_thread.c\<close>: the console over TCP (\<open>mp_carbon_stdint\<close>, \<open>mp_carbon_stdout\<close>,
  \<open>close_connection\<close>, \<open>setup_connection\<close>), \<open>TASK_MicroPython\<close> and \<open>start_micropython\<close>, which loads the script. The
  interpreter, lwIP, FatFs and the heap are the parameter \<open>mp_env\<close> over a world \<open>'w\<close>. A netbuf is the list of its
  fragments; \<open>netbuf_data\<close> yields the first one. In the console \<open>None\<close> is an access outside an object or a call that does not
  return; where a script is loaded the two are told apart.
  Diagnostics carry their text only; the one about a failed task creation is part of \<open>TaskCreate\<close>.
\<close>

datatype mp_op = NetbufDelete "u8 list list" | ConnClose | ConnDelete | ListenDelete | Printf string | MpDiag string
  | FClose | PortFree | CarbonInit | TaskCreate "u8 list option"
  | Store_at u32 u8  \<comment> \<open>a byte written to an address of the machine\<close>

record console =
  listening :: bool
  connected :: bool  \<comment> \<open>\<open>connection\<close> and \<open>new_connection\<close> are not NULL\<close>
  recv_netbuf :: "u8 list list option"
  recv_buf :: "u8 list"  \<comment> \<open>the bytes from the pointer to the end of its fragment\<close>
  recv_buf_size :: u16

record 'w mp_env =
  mp_call :: "mp_op \<Rightarrow> 'w \<Rightarrow> 'w"
  netconn_recv :: "'w \<Rightarrow> int \<times> u8 list list option \<times> 'w"
  netconn_write :: "string \<Rightarrow> 'w \<Rightarrow> int \<times> 'w"
  netconn_accept :: "'w \<Rightarrow> int \<times> 'w"
  netconn_new :: "'w \<Rightarrow> bool \<times> 'w"
  netconn_bind :: "u16 \<Rightarrow> 'w \<Rightarrow> int \<times> 'w"
  netconn_listen :: "'w \<Rightarrow> int \<times> 'w"
  pyexec_friendly_repl :: "console \<Rightarrow> 'w \<Rightarrow> (int \<times> console \<times> 'w) option"
  mp_carbon_exec_str :: "u8 list \<Rightarrow> console \<Rightarrow> 'w \<Rightarrow> (console \<times> 'w) option"
  f_open :: "'w \<Rightarrow> int \<times> 'w"
  f_stat :: "'w \<Rightarrow> int \<times> u32 \<times> 'w"  \<comment> \<open>with \<open>fsize\<close>, which is arbitrary after an error\<close>
  f_read :: "u32 \<Rightarrow> 'w \<Rightarrow> int \<times> u8 list \<times> 'w"
  pvPortMalloc :: "u32 \<Rightarrow> 'w \<Rightarrow> u8 list option \<times> 'w"  \<comment> \<open>the block with its arbitrary content\<close>

section \<open>The console\<close>

definition close_connection :: "'w mp_env \<Rightarrow> console \<Rightarrow> 'w \<Rightarrow> console \<times> 'w" where
  "close_connection E c w =
     (let w = (case recv_netbuf c of None \<Rightarrow> w | Some nb \<Rightarrow> mp_call E (NetbufDelete nb) w);
          c = c\<lparr>recv_netbuf := None, recv_buf_size := 0\<rparr>;
          w = (if connected c then mp_call E ConnDelete (mp_call E ConnClose w) else w)
      in (c\<lparr>connected := False\<rparr>, mp_call E (MpDiag ''client disconnected'') w))"

definition mp_carbon_stdout :: "'w mp_env \<Rightarrow> string \<Rightarrow> console \<Rightarrow> 'w \<Rightarrow> nat \<times> console \<times> 'w" where
  "mp_carbon_stdout E str c w =
     (if connected c then
        let (res, w) = netconn_write E str w
        in if res \<noteq> 0 then let (c, w) = close_connection E c w in (length str, c, w) else (length str, c, w)
      else (length str, c, mp_call E (Printf str) w))"

fun take_char :: "console \<Rightarrow> (int \<times> console) option" where
  \<comment> \<open>read through the pointer, advance it, count down\<close>
  "take_char c =
     (case recv_buf c of
        [] \<Rightarrow> None
      | b # bs \<Rightarrow> Some (uint b, c\<lparr>recv_buf := bs, recv_buf_size := recv_buf_size c - 1\<rparr>))"

definition mp_carbon_stdint :: "'w mp_env \<Rightarrow> console \<Rightarrow> 'w \<Rightarrow> (int \<times> console \<times> 'w) option" where
  "mp_carbon_stdint E c w =
     (if connected c then
        if recv_buf_size c = 0 then
          let w = (case recv_netbuf c of None \<Rightarrow> w | Some nb \<Rightarrow> mp_call E (NetbufDelete nb) w);
              (err, nb, w) = netconn_recv E w;
              c = c\<lparr>recv_netbuf := nb\<rparr>
          in (case nb of
                Some (fragment # _) \<Rightarrow>
                  if err = 0 then
                    do {
                      (ch, c) \<leftarrow> take_char (c\<lparr>recv_buf := fragment, recv_buf_size := of_nat (length fragment)\<rparr>);
                      Some (ch, c, w)
                    }
                  else Some (4, c, mp_call E (MpDiag ''error while receiving data'') w)
              | Some [] \<Rightarrow> None
              | None \<Rightarrow> Some (4, c, mp_call E (MpDiag ''error while receiving data'') w))
        else do { (ch, c) \<leftarrow> take_char c; Some (ch, c, w) }
      else Some (0, c, w))"

section \<open>The task\<close>

definition CARBON_MP_CONSOLE_PORT :: u16 where "CARBON_MP_CONSOLE_PORT = 6666"

definition setup_connection :: "'w mp_env \<Rightarrow> console \<Rightarrow> 'w \<Rightarrow> bool \<times> console \<times> 'w" where
  "setup_connection E c w =
     (let (ok, w) = netconn_new E w; c = c\<lparr>listening := ok\<rparr>
      in if \<not> ok then (False, c, mp_call E (MpDiag ''Failed to create new netconn'') w)
         else
           let (err, w) = netconn_bind E CARBON_MP_CONSOLE_PORT w
           in if err \<noteq> 0 then (False, c, mp_call E ListenDelete (mp_call E (MpDiag ''Can't bind to port'') w))
              else
                let (err, w) = netconn_listen E w
                in if err \<noteq> 0 then (False, c, mp_call E ListenDelete (mp_call E (MpDiag ''Can't listen to port'') w))
                   else (True, c, mp_call E (MpDiag ''Accepting connections'') w))"

definition accept_connection :: "'w mp_env \<Rightarrow> string \<Rightarrow> console \<Rightarrow> 'w \<Rightarrow> bool \<times> console \<times> 'w" where
  \<comment> \<open>\<open>netconn_accept\<close> sets \<open>new_connection\<close> to NULL when it fails; False is the way out of the loop\<close>
  "accept_connection E msg c w =
     (let (err, w) = netconn_accept E w; c = c\<lparr>connected := err = 0\<rparr>
      in if err \<noteq> 0 then (False, c, mp_call E (MpDiag msg) w) else (True, c, w))"

definition repl_round :: "'w mp_env \<Rightarrow> console \<Rightarrow> 'w \<Rightarrow> (bool \<times> console \<times> 'w) option" where
  \<comment> \<open>one round of the loop of \<open>TASK_MicroPython\<close>\<close>
  "repl_round E c w =
     do {
       (ret, c, w) \<leftarrow> pyexec_friendly_repl E c w;
       if ret \<noteq> 0 then
         let w = mp_call E (MpDiag ''error in console'') w;
             (c, w) = close_connection E c w;
             w = mp_call E (MpDiag ''waiting for new connection'') w
         in Some (accept_connection E ''error while reconnection'' c w)
       else if \<not> connected c then
         Some (accept_connection E ''error while reconnection'' c (mp_call E (MpDiag ''waiting for new connection'') w))
       else Some (True, c, w)
     }"

fun repl_rounds :: "'w mp_env \<Rightarrow> nat \<Rightarrow> console \<Rightarrow> 'w \<Rightarrow> (bool \<times> console \<times> 'w) option" where
  \<comment> \<open>a number of rounds; False after the \<open>break\<close>, behind which the task sleeps for ever\<close>
  "repl_rounds E 0 c w = Some (True, c, w)"
| "repl_rounds E (Suc n) c w =
     do {
       (running, c, w) \<leftarrow> repl_round E c w;
       if running then repl_rounds E n c w else Some (False, c, mp_call E (MpDiag ''not recoverable error'') w)
     }"

definition run_script :: "'w mp_env \<Rightarrow> u8 list option \<Rightarrow> console \<Rightarrow> 'w \<Rightarrow> (console \<times> 'w) option" where
  "run_script E pvParameters c w =
     (case pvParameters of
        Some script \<Rightarrow>
          do {
            (c, w) \<leftarrow> mp_carbon_exec_str E script c (mp_call E (MpDiag ''executing script'') w);
            Some (c, mp_call E PortFree (mp_call E (MpDiag ''python script execution terminated'') w))
          }
      | None \<Rightarrow> Some (c, mp_call E (MpDiag ''no python script'') w))"

definition TASK_MicroPython :: "'w mp_env \<Rightarrow> nat \<Rightarrow> u8 list option \<Rightarrow> console \<Rightarrow> 'w \<Rightarrow> (bool \<times> console \<times> 'w) option" where
  \<comment> \<open>with a bound for the rounds of its loop; False when the task has ended in one of the sleeping loops\<close>
  "TASK_MicroPython E n pvParameters c w =
     do {
       let w = foldl (\<lambda>w op. mp_call E op w) w
         [MpDiag ''starting micropython'', MpDiag ''stack'', MpDiag ''heap'', CarbonInit];
       (c, w) \<leftarrow> run_script E pvParameters c w;
       let (ok, c, w) = setup_connection E c w;
       if \<not> ok then Some (False, c, mp_call E (MpDiag ''cannot setup connection'') w)
       else
         let (ok, c, w) = accept_connection E ''error while connecting'' c w
         in if ok then repl_rounds E n c w else Some (False, c, w)
     }"

section \<open>Loading the script\<close>

datatype 'a outcome = Done 'a | Outside  \<comment> \<open>\<open>Outside\<close>: a write beyond the end of the block\<close>

partial_function (option) read_script :: "'w mp_env \<Rightarrow> u8 list \<Rightarrow> nat \<Rightarrow> u32 \<Rightarrow> 'w \<Rightarrow> (u8 list option \<times> 'w) outcome option" where [code]:
  \<comment> \<open>the reading loop; \<open>head\<close> is the offset in the block, \<open>Done (None, _)\<close> the block freed after an error; the loop that does not
    end, and nothing else, is \<open>None\<close>\<close>
  "read_script E block head byte_to_read w =
     (if byte_to_read = 0 then Some (Done (Some block, w))
      else
        let (fres, bytes, w) = f_read E byte_to_read w
        in if fres \<noteq> 0 then Some (Done (None, mp_call E PortFree (mp_call E (MpDiag ''error copying file'') w)))
           else if head + length bytes \<le> length block then
             read_script E (take head block @ bytes @ drop (head + length bytes) block) (head + length bytes)
               (byte_to_read - of_nat (length bytes)) w
           else Some Outside)"

fun close_script :: "'w mp_env \<Rightarrow> u32 \<Rightarrow> (u8 list option \<times> 'w) outcome \<Rightarrow> (u8 list option \<times> 'w) outcome" where
  \<comment> \<open>\<open>*(readBuffer + file_info.fsize) = 0\<close>, which is executed also when \<open>readBuffer\<close> has been set to NULL: the address is then
    \<open>fsize\<close> itself, on this processor an address of the instruction memory\<close>
  "close_script E fsize Outside = Outside"
| "close_script E fsize (Done (None, w)) = Done (None, mp_call E (Store_at fsize 0) w)"
| "close_script E fsize (Done (Some block, w)) =
     (if unat fsize < length block then Done (Some (block[unat fsize := 0]), w) else Outside)"

definition load_script :: "'w mp_env \<Rightarrow> u32 \<Rightarrow> 'w \<Rightarrow> (u8 list option \<times> 'w) outcome option" where
  \<comment> \<open>from the allocation to the closing zero\<close>
  "load_script E fsize w =
     (let (readBuffer, w) = pvPortMalloc E (fsize + 1) w
      in case readBuffer of
           None \<Rightarrow> Some (Done (None, w))
         | Some block \<Rightarrow> map_option (close_script E fsize) (read_script E block 0 fsize w))"

definition start_micropython :: "'w mp_env \<Rightarrow> 'w \<Rightarrow> (u8 list option \<times> 'w) outcome option" where
  \<comment> \<open>the result is the argument of the new task; \<open>None\<close>: the function does not return\<close>
  "start_micropython E w =
     (let w = mp_call E (MpDiag ''starting micropython'') w;
          (fres, w) = f_open E w;
          start = (\<lambda>(readBuffer, w). (readBuffer, mp_call E (TaskCreate readBuffer) w))
      in if fres \<noteq> 0 then
           Some (Done (start (None, mp_call E (MpDiag (if fres = 12 then ''SD card not present or not mounted''
             else if fres = 4 then ''file main.py not found'' else ''error opening file'')) w)))
         else
           let (fres, fsize, w) = f_stat E w;
               w = mp_call E (MpDiag (if fres \<noteq> 0 then ''error reading file stats'' else ''file size'')) w
           in map_option (map_outcome (\<lambda>(readBuffer, w). start (readBuffer, mp_call E (MpDiag ''file closed'') (mp_call E FClose w))))
                (load_script E fsize w))"

end
