(* ===== verification/MpClaims.thy ===== *)
theory MpClaims
  imports MpConsole
begin

text \<open>
  Properties of the MicroPython task: what the console reads of the TCP stream, and the script that the task is
  started with.
\<close>

section \<open>The console as a reader of a byte stream\<close>

definition console_ok :: "console \<Rightarrow> bool" where
  \<comment> \<open>the count is that of the bytes at the pointer, they belong to a netbuf that has not been deleted, and
    without a connection nothing is held\<close>
  "console_ok c \<longleftrightarrow> (if connected c then recv_buf_size c \<noteq> 0 \<longrightarrow> recv_netbuf c \<noteq> None \<and> unat (recv_buf_size c) = length (recv_buf c)
     else recv_netbuf c = None \<and> recv_buf_size c = 0)"

definition delivers :: "'w mp_env \<Rightarrow> ('w \<Rightarrow> u8 list list list) \<Rightarrow> bool" where
  \<comment> \<open>\<open>netconn_recv\<close> hands out the netbufs \<open>pend\<close> one by one and then reports an error; no other call takes one\<close>
  "delivers E pend \<longleftrightarrow> (\<forall>w.
     (case pend w of
        nb # nbs \<Rightarrow> \<exists>w'. netconn_recv E w = (0, Some nb, w') \<and> pend w' = nbs
      | [] \<Rightarrow> \<exists>err w'. err \<noteq> 0 \<and> netconn_recv E w = (err, None, w') \<and> pend w' = []) \<and>
     (\<forall>op. pend (mp_call E op w) = pend w))"

definition full_netbuf :: "u8 list list \<Rightarrow> bool" where
  "full_netbuf nb \<longleftrightarrow> nb \<noteq> [] \<and> hd nb \<noteq> [] \<and> length (hd nb) < 2 ^ 16"

definition stream :: "console \<Rightarrow> u8 list list list \<Rightarrow> u8 list" where
  \<comment> \<open>the bytes still to be read: the rest of the current fragment and the first fragment of every netbuf\<close>
  "stream c nbs = (if recv_buf_size c = 0 then [] else recv_buf c) @ concat (map hd nbs)"

primrec read_chars :: "'w mp_env \<Rightarrow> nat \<Rightarrow> console \<Rightarrow> 'w \<Rightarrow> (int list \<times> console \<times> 'w) option" where
  \<comment> \<open>the interpreter reads some characters\<close>
  "read_chars E 0 c w = Some ([], c, w)"
| "read_chars E (Suc n) c w =
     do {
       (ch, c, w) \<leftarrow> mp_carbon_stdint E c w;
       (chs, c, w) \<leftarrow> read_chars E n c w;
       Some (ch # chs, c, w)
     }"

definition demo_mp :: "(u8 list list list \<times> u8 list) mp_env" where
  \<comment> \<open>the world holds the netbufs and the file that are still to come; a read yields at most two bytes\<close>
  "demo_mp = \<lparr>mp_call = (\<lambda>_ w. w),
     netconn_recv = (\<lambda>(nbs, f). case nbs of [] \<Rightarrow> (- 15, None, [], f) | nb # nbs \<Rightarrow> (0, Some nb, nbs, f)),
     netconn_write = (\<lambda>_ w. (0, w)), netconn_accept = (\<lambda>w. (0, w)), netconn_new = (\<lambda>w. (True, w)),
     netconn_bind = (\<lambda>_ w. (0, w)), netconn_listen = (\<lambda>w. (0, w)), pyexec_friendly_repl = (\<lambda>c w. Some (0, c, w)),
     mp_carbon_exec_str = (\<lambda>_ c w. Some (c, w)), f_open = (\<lambda>w. (0, w)), f_stat = (\<lambda>w. (0, 5, w)),
     f_read = (\<lambda>k (nbs, f). let j = min 2 (min (unat k) (length f)) in (0, take j f, nbs, drop j f)),
     pvPortMalloc = (\<lambda>n w. (Some (replicate (unat n) 0xCC), w))\<rparr>"

definition demo_console :: console where
  "demo_console = \<lparr>listening = True, connected = True, recv_netbuf = None, recv_buf = [], recv_buf_size = 0\<rparr>"

lemma demo_delivers: "delivers demo_mp fst"
  by (auto simp: delivers_def demo_mp_def split: list.split)

lemma close_connection_ok: "console_ok (fst (close_connection E c w))"
  by (simp add: console_ok_def close_connection_def Let_def)

lemma stdout_ok: "console_ok c \<Longrightarrow> mp_carbon_stdout E str c w = (n, c', w') \<Longrightarrow> console_ok c'"
  using close_connection_ok [of E c] by (auto simp: mp_carbon_stdout_def split: if_splits prod.splits) (metis fst_conv)+

lemma accept_ok: "console_ok c \<Longrightarrow> \<not> connected c \<Longrightarrow> accept_connection E msg c w = (ok, c', w') \<Longrightarrow> console_ok c' \<and> (ok \<longrightarrow> connected c')"
  by (auto simp: console_ok_def accept_connection_def Let_def split: if_splits prod.splits)

lemma close_accept_ok: "close_connection E c w = (c1, w1) \<Longrightarrow> accept_connection E msg c1 w2 = (ok, c', w') \<Longrightarrow> console_ok c' \<and> (ok \<longrightarrow> connected c')"
  using close_connection_ok [of E c w] by (intro accept_ok [of c1 E msg w2]) (auto simp: close_connection_def Let_def)

definition interpreter_ok :: "'w mp_env \<Rightarrow> bool" where
  \<comment> \<open>the interpreter reaches the console only through its functions, which keep \<open>console_ok\<close>\<close>
  "interpreter_ok E \<longleftrightarrow> (\<forall>c w ret c' w'. console_ok c \<longrightarrow> pyexec_friendly_repl E c w = Some (ret, c', w') \<longrightarrow> console_ok c')"

lemma repl_round_ok:
  assumes i: "interpreter_ok E" and c: "console_ok c" and r: "repl_round E c w = Some (run, c', w')"
  shows "console_ok c' \<and> (run \<longrightarrow> connected c')"
proof -
  obtain ret c1 w1 where p: "pyexec_friendly_repl E c w = Some (ret, c1, w1)"
    using r by (cases "pyexec_friendly_repl E c w") (auto simp: repl_round_def)
  then have c1: "console_ok c1" using i c unfolding interpreter_ok_def by blast
  then show ?thesis
    using r p accept_ok [OF c1] close_accept_ok
    by (fastforce simp: repl_round_def Let_def split: if_splits prod.splits)
qed

lemma count_down:
  assumes "unat (n :: u16) = length (b # bs)"
  shows "unat (n - 1) = length bs" and "n - 1 = 0 \<longleftrightarrow> bs = []"
proof -
  have "n \<noteq> 0" using assms by auto
  then have "unat (n - 1) = unat n - 1" by (rule unat_minus_one)
  then show a: "unat (n - 1) = length bs" using assms by simp
  then show "n - 1 = 0 \<longleftrightarrow> bs = []" by (metis length_0_conv unat_eq_0)
qed

lemma delivers_end: "delivers E pend \<Longrightarrow> pend w = [] \<Longrightarrow> \<exists>err w'. err \<noteq> 0 \<and> netconn_recv E w = (err, None, w') \<and> pend w' = []"
  unfolding delivers_def by (drule spec [of _ w]) simp

lemma delivers_next: "delivers E pend \<Longrightarrow> pend w = nb # nbs \<Longrightarrow> \<exists>w'. netconn_recv E w = (0, Some nb, w') \<and> pend w' = nbs"
  unfolding delivers_def by (drule spec [of _ w]) simp

lemma stdint_reads:
  assumes d: "delivers E pend" and ok: "console_ok c" and con: "connected c" and v: "\<forall>nb \<in> set (pend w). full_netbuf nb"
  shows "\<exists>ch c' w'. mp_carbon_stdint E c w = Some (ch, c', w') \<and> console_ok c' \<and> connected c' \<and>
    (case stream c (pend w) of [] \<Rightarrow> ch = 4 \<and> stream c' (pend w') = [] \<and> pend w' = []
     | b # bs \<Rightarrow> ch = uint b \<and> stream c' (pend w') = bs \<and> set (pend w') \<subseteq> set (pend w))"
proof (cases "recv_buf_size c = 0")
  case False
  then obtain b bs where b: "recv_buf c = b # bs" "unat (recv_buf_size c) = length (b # bs)" "recv_netbuf c \<noteq> None"
    using ok con by (cases "recv_buf c") (auto simp: console_ok_def unat_eq_zero)
  show ?thesis
    using False con b count_down [OF b(2)] by (simp add: mp_carbon_stdint_def console_ok_def stream_def)
next
  case True
  define w1 where "w1 = (case recv_netbuf c of None \<Rightarrow> w | Some nb \<Rightarrow> mp_call E (NetbufDelete nb) w)"
  have p1: "pend w1 = pend w" using d by (auto simp: w1_def delivers_def split: option.split)
  show ?thesis
  proof (cases "pend w")
    case Nil
    then obtain err w2 where r: "err \<noteq> 0" "netconn_recv E w1 = (err, None, w2)" "pend w2 = []"
      using delivers_end [OF d, of w1] p1 by auto
    have "pend (mp_call E op w2) = []" for op using d r(3) by (simp add: delivers_def)
    then show ?thesis
      using True con r Nil by (simp add: mp_carbon_stdint_def w1_def [symmetric] console_ok_def stream_def)
  next
    case (Cons nb nbs)
    then obtain w2 where r: "netconn_recv E w1 = (0, Some nb, w2)" "pend w2 = nbs"
      using delivers_next [OF d, of w1] p1 by auto
    have "full_netbuf nb" using v Cons by simp
    then obtain b bs fs where nb: "nb = (b # bs) # fs" "length (b # bs) < 2 ^ 16"
      by (cases nb) (auto simp: full_netbuf_def neq_Nil_conv)
    have n: "unat (of_nat (length (b # bs)) :: u16) = length (b # bs)"
    proof -
      have "unat (of_nat k :: u16) = k" if "k < 2 ^ 16" for k
        using that by (simp add: unat_of_nat take_bit_eq_mod)
      then show ?thesis using nb(2) .
    qed
    show ?thesis
      using True con r nb(1) Cons count_down [OF n]
      by (auto simp: mp_carbon_stdint_def w1_def [symmetric] console_ok_def stream_def)
  qed
qed

text \<open>C32: The console reads the connection as a byte stream: however the interpreter calls it, it returns the
  rest of the current fragment and then the first fragments of the received netbufs, byte by byte and in
  order, then 4 (Ctrl-D) once the connection reports an error; it never reads past a fragment or from a deleted netbuf.
  With netbufs of one fragment this is all the data that was sent. The further fragments of a netbuf are skipped.\<close>

theorem console_reads_stream:
  assumes d: "delivers E pend" and ok: "console_ok c" and con: "connected c" and v: "\<forall>nb \<in> set (pend w). full_netbuf nb"
  shows "\<exists>c' w'. read_chars E n c w = Some (map uint (take n (stream c (pend w))) @ replicate (n - length (stream c (pend w))) 4, c', w') \<and>
    console_ok c' \<and> stream c' (pend w') = drop n (stream c (pend w)) \<and>
    ((\<forall>nb \<in> set (pend w). length nb = 1) \<longrightarrow> stream c (pend w) = stream c [] @ concat (concat (pend w)))"
proof -
  have single: "stream c (pend w) = stream c [] @ concat (concat (pend w))" if "\<forall>nb \<in> set (pend w). length nb = 1"
  proof -
    have "concat (map hd nbs) = concat (concat nbs)" if "\<forall>nb \<in> set nbs. length nb = 1" for nbs :: "u8 list list list"
      using that by (induction nbs) (auto simp: length_Suc_conv)
    then show ?thesis using that by (simp add: stream_def)
  qed
  have "\<exists>c' w'. read_chars E n c w = Some (map uint (take n (stream c (pend w))) @ replicate (n - length (stream c (pend w))) 4, c', w') \<and>
    console_ok c' \<and> stream c' (pend w') = drop n (stream c (pend w))"
    using ok con v
  proof (induction n arbitrary: c w)
    case 0
    then show ?case by simp
  next
    case (Suc n)
    obtain ch c1 w1 where s: "mp_carbon_stdint E c w = Some (ch, c1, w1)" "console_ok c1" "connected c1"
      "case stream c (pend w) of [] \<Rightarrow> ch = 4 \<and> stream c1 (pend w1) = [] \<and> pend w1 = []
       | b # bs \<Rightarrow> ch = uint b \<and> stream c1 (pend w1) = bs \<and> set (pend w1) \<subseteq> set (pend w)"
      using stdint_reads [OF d Suc.prems] by blast
    have v1: "\<forall>nb \<in> set (pend w1). full_netbuf nb" using s(4) Suc.prems(3) by (auto split: list.splits)
    show ?case
      using Suc.IH [OF s(2,3) v1] s(1,4) by (cases "stream c (pend w)") auto
  qed
  then show ?thesis using single by blast
qed

lemma console_reads_stream_witness:
  "\<exists>c' w'. read_chars demo_mp 4 demo_console ([[[65, 66]], [[67], [68]]], []) = Some ([65, 66, 67, 4], c', w')"
proof -
  let ?w = "([[[65, 66]], [[67], [68]]], []) :: u8 list list list \<times> u8 list"
  have v: "\<forall>nb \<in> set (fst ?w). full_netbuf nb" by (simp add: full_netbuf_def)
  have ok: "console_ok demo_console" "connected demo_console" by (simp_all add: demo_console_def console_ok_def)
  have st: "stream demo_console (fst ?w) = [65, 66, 67]" by (simp add: stream_def demo_console_def)
  have "map uint (take 4 [65, 66, 67 :: u8]) @ replicate (4 - length [65, 66, 67 :: u8]) 4 = [65, 66, 67, 4]" by simp
  then show ?thesis
    using console_reads_stream [OF demo_delivers ok v, of 4] unfolding st by metis
qed

section \<open>The script\<close>

definition reads_file :: "'w mp_env \<Rightarrow> ('w \<Rightarrow> u8 list) \<Rightarrow> bool" where
  \<comment> \<open>\<open>f_read\<close> returns some next bytes, at least one while there are any\<close>
  "reads_file E rest \<longleftrightarrow>
     (\<forall>w k. k \<noteq> 0 \<longrightarrow> rest w \<noteq> [] \<longrightarrow> (\<exists>j w'. 0 < j \<and> j \<le> unat k \<and> j \<le> length (rest w) \<and>
        f_read E k w = (0, take j (rest w), w') \<and> rest w' = drop j (rest w)))"

definition ends_in_error :: "'w mp_env \<Rightarrow> ('w \<Rightarrow> u8 list) \<Rightarrow> bool" where
  \<comment> \<open>the read behind the last byte reports an error\<close>
  "ends_in_error E rest \<longleftrightarrow> (\<forall>w k. rest w = [] \<longrightarrow> fst (f_read E k w) \<noteq> 0)"

definition ends_silently :: "'w mp_env \<Rightarrow> ('w \<Rightarrow> u8 list) \<Rightarrow> bool" where
  \<comment> \<open>the read behind the last byte succeeds without a byte, which is how FatFs shows the end of a file\<close>
  "ends_silently E rest \<longleftrightarrow> (\<forall>w k. rest w = [] \<longrightarrow> (\<exists>w'. f_read E k w = (0, [], w') \<and> rest w' = []))"

definition opens_file :: "'w mp_env \<Rightarrow> ('w \<Rightarrow> u8 list) \<Rightarrow> u8 list \<Rightarrow> u32 \<Rightarrow> 'w \<Rightarrow> bool" where
  \<comment> \<open>opening, the size and the allocation succeed, and the file then has the content given\<close>
  "opens_file E rest content n w \<longleftrightarrow>
     (\<exists>w1 w2 block w3. f_open E (mp_call E (MpDiag ''starting micropython'') w) = (0, w1) \<and> f_stat E w1 = (0, n, w2) \<and>
        pvPortMalloc E (n + 1) (mp_call E (MpDiag ''file size'') w2) = (Some block, w3) \<and>
        length block = unat (n + 1) \<and> rest w3 = content)"

lemma unat_sub_nat: "j \<le> unat (v :: u32) \<Longrightarrow> unat (v - of_nat j) = unat v - j"
proof -
  assume j: "j \<le> unat v"
  then have "unat (of_nat j :: u32) = j"
    using unsigned_less [of v, where 'a = nat] by (simp add: unat_of_nat take_bit_eq_mod)
  then show ?thesis using j by (simp add: unat_sub word_le_nat_alt)
qed

lemma read_script_reads:
  assumes f: "reads_file E rest"
  shows "head + unat todo < length block \<Longrightarrow> unat todo \<le> length (rest w) \<Longrightarrow>
    \<exists>w'. read_script E block head todo w =
      Some (Done (Some (take head block @ take (unat todo) (rest w) @ drop (head + unat todo) block), w'))"
proof (induction "unat todo" arbitrary: todo head block w rule: less_induct)
  case less
  show ?case
  proof (cases "todo = 0")
    case True
    then show ?thesis by (subst read_script.simps) simp
  next
    case False
    then have pos: "0 < unat todo" by (simp add: unat_gt_0)
    then have "rest w \<noteq> []" using less.prems(2) by auto
    then obtain j w1 where j: "0 < j" "j \<le> unat todo" "j \<le> length (rest w)" "f_read E todo w = (0, take j (rest w), w1)"
      "rest w1 = drop j (rest w)" using f False unfolding reads_file_def by blast
    let ?block = "take head block @ take j (rest w) @ drop (head + j) block"
    note u = unat_sub_nat [OF j(2)]
    have "head + j \<le> length block" using less.prems(1) j(2) by linarith
    then have step: "read_script E block head todo w = read_script E ?block (head + j) (todo - of_nat j) w1"
      using False j(3,4) by (subst read_script.simps) (simp add: min_absorb2)
    have "\<exists>w'. read_script E ?block (head + j) (todo - of_nat j) w1 =
        Some (Done (Some (take (head + j) ?block @ take (unat (todo - of_nat j)) (rest w1) @ drop (head + j + unat (todo - of_nat j)) ?block), w'))"
      using less.prems j u pos by (intro less.hyps) auto
    moreover have "take (head + j) ?block @ take (unat todo - j) (drop j (rest w)) @ drop (head + j + (unat todo - j)) ?block =
        take head block @ take (unat todo) (rest w) @ drop (head + unat todo) block"
    proof -
      have l: "length (take head block) = head" "length (take j (rest w)) = j" using less.prems(1) j(3) by simp_all
      have "take (unat todo) (rest w) = take j (rest w) @ take (unat todo - j) (drop j (rest w))"
        using take_add [of j "unat todo - j" "rest w"] j(2) by simp
      then show ?thesis using l j(2) by (simp add: add.commute)
    qed
    ultimately show ?thesis using step u j(5) by metis
  qed
qed

text \<open>When the bytes run out the loop has not ended: it reads on with nothing left.\<close>

lemma read_script_drained:
  assumes f: "reads_file E rest"
  shows "head + unat todo < length block \<Longrightarrow> length (rest w) < unat todo \<Longrightarrow>
    \<exists>block' head' todo' w'. todo' \<noteq> 0 \<and> rest w' = [] \<and> head' + unat todo' < length block' \<and>
      read_script E block head todo w = read_script E block' head' todo' w'"
proof (induction "length (rest w)" arbitrary: todo head block w rule: less_induct)
  case less
  have nz: "todo \<noteq> 0" using less.prems(2) by auto
  show ?case
  proof (cases "rest w = []")
    case True
    then show ?thesis using less.prems nz by blast
  next
    case False
    then obtain j w1 where j: "0 < j" "j \<le> unat todo" "j \<le> length (rest w)" "f_read E todo w = (0, take j (rest w), w1)"
      "rest w1 = drop j (rest w)" using f nz unfolding reads_file_def by blast
    let ?block = "take head block @ take j (rest w) @ drop (head + j) block"
    note u = unat_sub_nat [OF j(2)]
    have step: "read_script E block head todo w = read_script E ?block (head + j) (todo - of_nat j) w1"
      using nz j(2-4) less.prems(1) by (subst read_script.simps) (simp add: min_absorb2)
    have "head + j + unat (todo - of_nat j) < length ?block" "length (rest w1) < unat (todo - of_nat j)" "length (rest w1) < length (rest w)"
      using less.prems j u by auto
    from less.hyps [OF this(3,1,2)] show ?thesis unfolding step .
  qed
qed

text \<open>A loop over a file that ends silently does not end: \<open>read_script\<close> on such a state calls itself on such a state.\<close>

lemmas read_script_induct = read_script.raw_induct [rotated, consumes 1, case_names step]

lemma read_script_silent:
  assumes "read_script E block head todo w = Some y"
  shows "ends_silently E rest \<longrightarrow> rest w = [] \<longrightarrow> todo \<noteq> 0 \<longrightarrow> head \<le> length block \<longrightarrow> False"
  using assms
proof (induction rule: read_script_induct)
  case (step rs E block head todo w y)
  show ?case
  proof (intro impI)
    assume e: "ends_silently E rest" "rest w = []" and t: "todo \<noteq> 0" "head \<le> length block"
    then obtain w1 where r: "f_read E todo w = (0, [], w1)" "rest w1 = []" unfolding ends_silently_def by blast
    then have "rs E block head todo w1 = Some y" using step.hyps t by simp
    then show False using step.IH e(1) r(2) t by blast
  qed
qed

text \<open>C33: When the file, its size and the memory are there and every read returns some next bytes, the task is
  started with exactly the content of the file and a closing zero, however the reads are cut. When
  fewer bytes come than the directory entry said, it depends on how the file ends. After a read error the block is freed, and the closing zero
  is stored all the same, through a null pointer: a zero byte goes to the address that is the size of the file; then the task is
  started without a script. At the end of the file, where reads succeed without a byte, \<open>start_micropython\<close> reads for ever and never returns.\<close>

theorem script_loaded:
  assumes f: "reads_file E rest" and o: "opens_file E rest content n w" and n: "n \<noteq> - 1"
  shows "(unat n \<le> length content \<longrightarrow> (\<exists>w'. start_micropython E w =
      Some (Done (Some (take (unat n) content @ [0]), mp_call E (TaskCreate (Some (take (unat n) content @ [0]))) w')))) \<and>
    (length content < unat n \<longrightarrow> ends_in_error E rest \<longrightarrow> (\<exists>w'. start_micropython E w =
      Some (Done (None, mp_call E (TaskCreate None) (mp_call E (MpDiag ''file closed'') (mp_call E FClose
        (mp_call E (Store_at n 0) (mp_call E PortFree w')))))))) \<and>
    (length content < unat n \<longrightarrow> ends_silently E rest \<longrightarrow> start_micropython E w = None)"
proof -
  obtain w1 w2 block w3 where s: "f_open E (mp_call E (MpDiag ''starting micropython'') w) = (0, w1)" "f_stat E w1 = (0, n, w2)"
    "pvPortMalloc E (n + 1) (mp_call E (MpDiag ''file size'') w2) = (Some block, w3)" "length block = unat (n + 1)" "rest w3 = content"
    using o by (auto simp: opens_file_def)
  have "1 + n \<noteq> 0" using n by (metis add.commute add_eq_0_iff)
  then have l: "length block = Suc (unat n)" using s(4) by (simp add: unatSuc add.commute)
  have start: "start_micropython E w = map_option (map_outcome (\<lambda>(b, w). (b, mp_call E (TaskCreate b) (mp_call E (MpDiag ''file closed'') (mp_call E FClose w)))))
      (map_option (close_script E n) (read_script E block 0 n w3))"
    using s(1-3) by (simp add: start_micropython_def load_script_def)
  show ?thesis
  proof (cases "length content < unat n")
    case True
    obtain block' head' todo' w' where d: "todo' \<noteq> 0" "rest w' = []" "head' + unat todo' < length block'"
      "read_script E block 0 n w3 = read_script E block' head' todo' w'"
      using read_script_drained [OF f, of 0 n block w3] l s(5) True by auto
    have "\<exists>w4. read_script E block 0 n w3 = Some (Done (None, mp_call E PortFree w4))" if "ends_in_error E rest"
    proof -
      have "fst (f_read E todo' w') \<noteq> 0" using that d(2) unfolding ends_in_error_def by blast
      then show ?thesis unfolding d(4) using d(1) by (subst read_script.simps) (auto simp: case_prod_beta)
    qed
    moreover have "read_script E block 0 n w3 = None" if "ends_silently E rest"
      unfolding d(4) using read_script_silent [of E block' head' todo' w' _ rest] that d by (cases "read_script E block' head' todo' w'") auto
    ultimately show ?thesis using True unfolding start by (intro conjI impI) (simp, fastforce, simp)
  next
    case False
    then obtain w4 where r: "read_script E block 0 n w3 = Some (Done (Some (take (unat n) content @ drop (unat n) block), w4))"
      using read_script_reads [OF f, of 0 n block w3] l s(5) by auto
    have "length (drop (unat n) block) = 1" using l by simp
    then obtain x where "drop (unat n) block = [x]" unfolding One_nat_def length_Suc_conv by blast
    then have "(take (unat n) content @ drop (unat n) block)[unat n := 0] = take (unat n) content @ [0]"
      using False by (simp add: list_update_append)
    then show ?thesis using False r l unfolding start by auto
  qed
qed

definition failing_mp :: "(u8 list list list \<times> u8 list) mp_env" where
  \<comment> \<open>the same calls, and an error behind the last byte\<close>
  "failing_mp = demo_mp\<lparr>f_read := \<lambda>k w. if snd w = [] then (1, [], w) else f_read demo_mp k w\<rparr>"

lemma demo_reads: "reads_file demo_mp snd" "ends_silently demo_mp snd" "reads_file failing_mp snd" "ends_in_error failing_mp snd"
proof -
  have r: "f_read demo_mp k (nbs, f) = (0, take (min 2 (min (unat k) (length f))) f, nbs, drop (min 2 (min (unat k) (length f))) f)" for k nbs f
    by (simp add: demo_mp_def Let_def)
  have "0 < min 2 (min (unat k) (length f))" if "k \<noteq> 0" "f \<noteq> []" for k :: u32 and f :: "u8 list"
    using that by (auto simp: unat_gt_0)
  then show "reads_file demo_mp snd"
    unfolding reads_file_def using r by (metis min.cobounded1 min.cobounded2 min.coboundedI2 prod.collapse snd_conv)
  then show "reads_file failing_mp snd" by (simp add: reads_file_def failing_mp_def)
  show "ends_silently demo_mp snd" using r by (auto simp: ends_silently_def)
  show "ends_in_error failing_mp snd" by (simp add: ends_in_error_def failing_mp_def)
qed

lemma script_loaded_witness:
  "(\<exists>w'. start_micropython demo_mp ([], [1, 2, 3, 4, 5]) = Some (Done (Some [1, 2, 3, 4, 5, 0], w'))) \<and>
   start_micropython demo_mp ([], [1, 2, 3]) = None \<and>
   (\<exists>w'. start_micropython failing_mp ([], [1, 2, 3]) = Some (Done (None, w')))"
proof -
  have opens: "opens_file demo_mp snd content 5 ([], content)" "opens_file failing_mp snd content 5 ([], content)" for content
    by (simp_all add: opens_file_def demo_mp_def failing_mp_def)
  have n: "(5 :: u32) \<noteq> - 1" by simp
  have u: "unat (5 :: u32) = length ([1, 2, 3, 4, 5] :: u8 list)" by simp
  have "\<exists>w'. start_micropython demo_mp ([], [1, 2, 3, 4, 5]) = Some (Done (Some ([1, 2, 3, 4, 5] @ [0]), w'))"
    using script_loaded [OF demo_reads(1) opens(1) n, of "[1, 2, 3, 4, 5]"] unfolding u take_all [OF order.refl] by auto
  moreover have "start_micropython demo_mp ([], [1, 2, 3]) = None"
    using script_loaded [OF demo_reads(1) opens(1) n, of "[1, 2, 3]"] demo_reads(2) unfolding u by simp
  moreover have "\<exists>w'. start_micropython failing_mp ([], [1, 2, 3]) = Some (Done (None, w'))"
    using script_loaded [OF demo_reads(3) opens(2) n, of "[1, 2, 3]"] demo_reads(4) unfolding u by auto
  ultimately show ?thesis by simp
qed

end
