(* ===== verification/MpThread.thy ===== *)
theory MpThread
  imports CPrelude
begin

text \<open>
  The threads of the MicroPython port, \<open>CM7/core/src/mp_port/mpthreadport.c\<close>: the list of the threads that the garbage collector
  needs, and the creation of a thread. FreeRTOS, the allocator and the collector are called through operations that are recorded
  in order; the handle of the running task and the results of the allocations are arguments.
\<close>

datatype thread_op = Semaphore_create | Semaphore_take | Semaphore_give | Collect_root u32 u32  \<comment> \<open>the words from an address on\<close>
  | Collect_word u32 | Task_create u32 u32 u32 u32 | Set_local_storage | Call_entry u32 | Task_delete
  | Collect_start | Collect_self  \<comment> \<open>the registers and the stack of the caller\<close> | Collect_end

record mp_thread =
  self :: u32  \<comment> \<open>the address of the node\<close>
  id_of :: u32
  ready :: bool
  arg :: u32
  stack :: u32
  stack_len :: u32

record thread_state =
  thread :: "mp_thread list"  \<comment> \<open>the linked list from its root\<close>
  ext_thread_entry :: u32
  ops :: "thread_op list"  \<comment> \<open>the last one first\<close>

definition op_call :: "thread_op \<Rightarrow> thread_state \<Rightarrow> thread_state" where
  "op_call op s = s\<lparr>ops := op # ops s\<rparr>"

definition mp_thread_mutex_init :: "thread_state \<Rightarrow> thread_state" where
  "mp_thread_mutex_init = op_call Semaphore_create"

definition mp_thread_mutex_lock :: "thread_state \<Rightarrow> thread_state" where
  "mp_thread_mutex_lock = op_call Semaphore_take"

definition mp_thread_mutex_unlock :: "thread_state \<Rightarrow> thread_state" where
  "mp_thread_mutex_unlock = op_call Semaphore_give"

definition mp_thread_set_state :: "thread_state \<Rightarrow> thread_state" where
  "mp_thread_set_state = op_call Set_local_storage"

definition mp_thread_init :: "u32 \<Rightarrow> u32 \<Rightarrow> u32 \<Rightarrow> u32 \<Rightarrow> thread_state \<Rightarrow> thread_state" where
  \<comment> \<open>with the static node \<open>thread_entry0\<close> and the running task\<close>
  "mp_thread_init thread_entry0 task st len s =
     (mp_thread_set_state (mp_thread_mutex_init s))\<lparr>thread := [\<lparr>self = thread_entry0, id_of = task, ready = True, arg = 0, stack = st, stack_len = len\<rparr>]\<rparr>"

fun gc_walk :: "u32 \<Rightarrow> mp_thread list \<Rightarrow> thread_state \<Rightarrow> thread_state" where
  "gc_walk task [] s = s"
| "gc_walk task (th # ths) s =
     (let s = op_call (Collect_word (arg th)) (op_call (Collect_word (self th)) s)
      in if id_of th = task \<or> \<not> ready th then gc_walk task ths s
         else gc_walk task ths (op_call (Collect_root (stack th) (stack_len th)) s))"

definition mp_thread_gc_others :: "u32 \<Rightarrow> thread_state \<Rightarrow> thread_state" where
  "mp_thread_gc_others task s = mp_thread_mutex_unlock (gc_walk task (thread s) (mp_thread_mutex_lock s))"

definition gc_collect :: "u32 \<Rightarrow> thread_state \<Rightarrow> thread_state" where
  \<comment> \<open>\<open>mp_port/gccollect.c\<close>\<close>
  "gc_collect task s = op_call Collect_end (mp_thread_gc_others task (op_call Collect_self (op_call Collect_start s)))"

fun set_ready :: "u32 \<Rightarrow> bool \<Rightarrow> mp_thread list \<Rightarrow> mp_thread list" where
  \<comment> \<open>the loops of \<open>mp_thread_start\<close> and \<open>mp_thread_finish\<close>, which stop at the first node of the task\<close>
  "set_ready task b [] = []"
| "set_ready task b (th # ths) = (if id_of th = task then th\<lparr>ready := b\<rparr> # ths else th # set_ready task b ths)"

definition mp_thread_start :: "u32 \<Rightarrow> thread_state \<Rightarrow> thread_state" where
  "mp_thread_start task s =
     (let s = mp_thread_mutex_lock s in mp_thread_mutex_unlock (s\<lparr>thread := set_ready task True (thread s)\<rparr>))"

definition mp_thread_finish :: "u32 \<Rightarrow> thread_state \<Rightarrow> thread_state" where
  "mp_thread_finish task s =
     (let s = mp_thread_mutex_lock s in mp_thread_mutex_unlock (s\<lparr>thread := set_ready task False (thread s)\<rparr>))"

definition freertos_entry :: "u32 \<Rightarrow> thread_state \<Rightarrow> thread_state" where
  "freertos_entry a s = op_call Task_delete (if ext_thread_entry s \<noteq> 0 then op_call (Call_entry a) s else s)"

datatype create_error = Memory_error | OS_error

definition mp_thread_create :: "u32 \<Rightarrow> u32 \<Rightarrow> u32 \<Rightarrow> u32 option \<Rightarrow> u32 option \<Rightarrow> u32 option \<Rightarrow> u32 \<Rightarrow> thread_state \<Rightarrow>
    (create_error + (u32 \<times> u32)) \<times> thread_state" where
  \<comment> \<open>with the size asked for, the allocations of the task, its stack and its node, which raise an error when they fail, and
    the handle of the task, 0 if it is not created; the result is the handle and the size that is handed back\<close>
  "mp_thread_create entry a stack_size tcb stk node handle s =
     (let s = s\<lparr>ext_thread_entry := entry\<rparr>;
          stack_size = (if stack_size = 0 then 4096 else if stack_size < 2048 then 2048 else stack_size)
      in case (tcb, stk, node) of
           (Some tcb, Some stk, Some node) \<Rightarrow>
             let s = op_call (Task_create (stack_size div 4) a stk tcb) (mp_thread_mutex_lock s)
             in if handle = 0 then (Inl OS_error, mp_thread_mutex_unlock s)
                else
                  let th = \<lparr>self = node, id_of = handle, ready = False, arg = a, stack = stk, stack_len = stack_size div 4\<rparr>;
                      s = mp_thread_mutex_unlock (s\<lparr>thread := th # thread s\<rparr>)
                  in (Inr (handle, stack_size - 512), s)
         | _ \<Rightarrow> (Inl Memory_error, s))"

end
