(* ===== verification/MpThreadClaims.thy ===== *)
theory MpThreadClaims
  imports MpThread
begin

text \<open>
  The list of threads is what the garbage collector needs: in every reachable state it scans the stacks of all threads that run.
\<close>

section \<open>Steps\<close>

record threads =
  sys :: thread_state
  running :: "u32 set"  \<comment> \<open>tasks that have started and not finished\<close>
  created :: "u32 \<Rightarrow> (u32 \<times> u32 \<times> u32 \<times> u32) option"  \<comment> \<open>node, argument, stack and its length in words, of every task\<close>

inductive thread_step :: "threads \<Rightarrow> threads \<Rightarrow> bool" where
  create: "handle \<noteq> 0 \<Longrightarrow> created g handle = None \<Longrightarrow> mp_thread_create entry a sz (Some tcb) (Some stk) (Some node) handle (sys g) = (Inr (handle, sz'), s') \<Longrightarrow>
    thread_step g (g\<lparr>sys := s', created := (created g)(handle \<mapsto> (node, a, stk, (if sz = 0 then 4096 else max 2048 sz) div 4))\<rparr>)"
| create_fails: "mp_thread_create entry a sz tcb stk node handle (sys g) = (Inl e, s') \<Longrightarrow> thread_step g (g\<lparr>sys := s'\<rparr>)"
| start: "created g t \<noteq> None \<Longrightarrow> thread_step g (g\<lparr>sys := mp_thread_start t (sys g), running := insert t (running g)\<rparr>)"
| finish: "thread_step g (g\<lparr>sys := mp_thread_finish t (sys g), running := running g - {t}\<rparr>)"
| collect: "thread_step g (g\<lparr>sys := gc_collect t (sys g)\<rparr>)"

inductive_cases thread_stepE: "thread_step g g'"

definition first_threads :: "u32 \<Rightarrow> u32 \<Rightarrow> u32 \<Rightarrow> u32 \<Rightarrow> threads" where
  \<comment> \<open>after \<open>mp_thread_init\<close>\<close>
  "first_threads node task st len =
     \<lparr>sys = mp_thread_init node task st len \<lparr>thread = [], ext_thread_entry = 0, ops = []\<rparr>, running = {task}, created = [task \<mapsto> (node, 0, st, len)]\<rparr>"

section \<open>The invariant\<close>

definition locks_ok :: "thread_op list \<Rightarrow> bool" where
  \<comment> \<open>every take is followed by a give before the next take\<close>
  "locks_ok l \<longleftrightarrow> (\<exists>n. filter (\<lambda>x. x = Semaphore_take \<or> x = Semaphore_give) l = concat (replicate n [Semaphore_give, Semaphore_take]))"

definition threads_ok :: "threads \<Rightarrow> bool" where
  "threads_ok g \<longleftrightarrow> distinct (map id_of (thread (sys g))) \<and> id_of ` set (thread (sys g)) = dom (created g) \<and> running g \<subseteq> dom (created g) \<and>
     (\<forall>th \<in> set (thread (sys g)). created g (id_of th) = Some (self th, arg th, stack th, stack_len th) \<and> (ready th \<longleftrightarrow> id_of th \<in> running g)) \<and>
     locks_ok (ops (sys g))"

lemma set_ready_ids [simp]: "map id_of (set_ready t b ths) = map id_of ths"
  by (induction ths) auto

lemma set_ready_set:
  "distinct (map id_of ths) \<Longrightarrow> set (set_ready t b ths) = (\<lambda>th. if id_of th = t then th\<lparr>ready := b\<rparr> else th) ` set ths"
proof (induction ths)
  case (Cons th ths)
  have "(\<lambda>th. if id_of th = t then th\<lparr>ready := b\<rparr> else th) ` set ths = set ths" if "id_of th = t"
    using Cons.prems that by (force simp: image_iff)
  then show ?case using Cons by auto
qed simp

lemma set_ready_id_set [simp]: "id_of ` set (set_ready t b ths) = id_of ` set ths"
  by (metis set_map set_ready_ids)

lemma set_ready_mem:
  "th \<in> set (set_ready t b ths) \<Longrightarrow> distinct (map id_of ths) \<Longrightarrow> \<exists>th0 \<in> set ths. th = (if id_of th0 = t then th0\<lparr>ready := b\<rparr> else th0)"
  by (auto simp: set_ready_set split: if_splits)

lemma locks_okI:
  assumes "locks_ok l" "\<forall>x \<in> set m. x \<noteq> Semaphore_take \<and> x \<noteq> Semaphore_give"
  shows "locks_ok (Semaphore_give # m @ Semaphore_take # l)"
proof -
  have "filter (\<lambda>x. x = Semaphore_take \<or> x = Semaphore_give) m = []" using assms(2) by (auto simp: filter_empty_conv)
  moreover obtain n where "filter (\<lambda>x. x = Semaphore_take \<or> x = Semaphore_give) l = concat (replicate n [Semaphore_give, Semaphore_take])"
    using assms(1) by (auto simp: locks_ok_def)
  ultimately show ?thesis by (auto simp: locks_ok_def intro!: exI [of _ "Suc n"])
qed

fun gc_ops :: "u32 \<Rightarrow> mp_thread list \<Rightarrow> thread_op list" where
  "gc_ops task [] = []"
| "gc_ops task (th # ths) = [Collect_word (self th), Collect_word (arg th)] @
     (if id_of th = task \<or> \<not> ready th then [] else [Collect_root (stack th) (stack_len th)]) @ gc_ops task ths"

lemma gc_walk_ops: "gc_walk task ths s = s\<lparr>ops := rev (gc_ops task ths) @ ops s\<rparr>"
  by (induction ths arbitrary: s) (simp_all add: op_call_def Let_def)

lemma gc_ops_no_lock: "\<forall>x \<in> set (gc_ops task ths). x \<noteq> Semaphore_take \<and> x \<noteq> Semaphore_give"
  by (induction ths) auto

lemmas thread_ops = mp_thread_mutex_lock_def mp_thread_mutex_unlock_def op_call_def Let_def

lemma locks_ok_skip: "locks_ok l \<Longrightarrow> x \<noteq> Semaphore_take \<Longrightarrow> x \<noteq> Semaphore_give \<Longrightarrow> locks_ok (x # l)"
  by (simp add: locks_ok_def)

lemma gc_collect_ops:
  "gc_collect task s = s\<lparr>ops := Collect_end # Semaphore_give # rev (gc_ops task (thread s)) @ Semaphore_take # Collect_self # Collect_start # ops s\<rparr>"
  by (simp add: gc_collect_def mp_thread_gc_others_def thread_ops gc_walk_ops)

lemma step_ok:
  assumes "thread_step g g'" and ok: "threads_ok g"
  shows "threads_ok g'"
  using assms(1)
proof (cases rule: thread_step.cases)
  case (create handle entry a sz tcb stk node sz' s')
  then have "s' = (sys g)\<lparr>ext_thread_entry := entry, thread := \<lparr>self = node, id_of = handle, ready = False, arg = a, stack = stk,
      stack_len = (if sz = 0 then 4096 else max 2048 sz) div 4\<rparr> # thread (sys g),
      ops := Semaphore_give # [Task_create ((if sz = 0 then 4096 else max 2048 sz) div 4) a stk tcb] @ Semaphore_take # ops (sys g)\<rparr>"
    by (auto simp: mp_thread_create_def thread_ops max_def split: if_splits)
  moreover have "handle \<notin> id_of ` set (thread (sys g))" "handle \<notin> running g" using create(3) ok by (auto simp: threads_ok_def)
  moreover have "locks_ok (Semaphore_give # [Task_create ((if sz = 0 then 4096 else max 2048 sz) div 4) a stk tcb] @ Semaphore_take # ops (sys g))"
    using ok by (intro locks_okI) (auto simp: threads_ok_def)
  ultimately show ?thesis using ok create(1) by (auto simp: threads_ok_def)
next
  case (create_fails entry a sz tcb stk node handle e s')
  then have "s' = (sys g)\<lparr>ext_thread_entry := entry\<rparr> \<or>
      (\<exists>x. s' = (sys g)\<lparr>ext_thread_entry := entry, ops := Semaphore_give # [Task_create x a (the stk) (the tcb)] @ Semaphore_take # ops (sys g)\<rparr>)"
    by (auto simp: mp_thread_create_def thread_ops split: if_splits option.splits)
  moreover have "locks_ok (Semaphore_give # [Task_create x a (the stk) (the tcb)] @ Semaphore_take # ops (sys g))" for x
    using ok by (intro locks_okI) (auto simp: threads_ok_def)
  ultimately show ?thesis using ok create_fails(1) by (auto simp: threads_ok_def)
next
  case (start t)
  have "locks_ok (Semaphore_give # [] @ Semaphore_take # ops (sys g))" using ok by (intro locks_okI) (auto simp: threads_ok_def)
  then show ?thesis
    using ok start by (auto simp: threads_ok_def mp_thread_start_def thread_ops dest!: set_ready_mem split: if_splits)
next
  case (finish t)
  have "locks_ok (Semaphore_give # [] @ Semaphore_take # ops (sys g))" using ok by (intro locks_okI) (auto simp: threads_ok_def)
  then show ?thesis
    using ok finish by (auto simp: threads_ok_def mp_thread_finish_def thread_ops dest!: set_ready_mem split: if_splits)
next
  case (collect t)
  have "locks_ok (Collect_end # Semaphore_give # rev (gc_ops t (thread (sys g))) @ Semaphore_take # Collect_self # Collect_start # ops (sys g))"
    using ok gc_ops_no_lock by (intro locks_ok_skip locks_okI) (auto simp: threads_ok_def intro: locks_ok_skip)
  then show ?thesis
    using ok collect by (simp add: threads_ok_def gc_collect_ops)
qed

section \<open>The collector\<close>

inductive thread_reach :: "threads \<Rightarrow> bool" where
  init: "thread_reach (first_threads node task st len)"
| step: "thread_reach g \<Longrightarrow> thread_step g g' \<Longrightarrow> thread_reach g'"

lemma first_ok: "threads_ok (first_threads node task st len)"
  by (auto simp: threads_ok_def first_threads_def mp_thread_init_def mp_thread_mutex_init_def mp_thread_set_state_def op_call_def locks_ok_def intro!: exI [of _ 0])

lemma reach_ok: "thread_reach g \<Longrightarrow> threads_ok g"
  by (induction rule: thread_reach.induct) (simp_all add: first_ok step_ok)

lemma gc_ops_root:
  "Collect_root a n \<in> set (gc_ops task ths) \<longleftrightarrow> (\<exists>th \<in> set ths. stack th = a \<and> stack_len th = n \<and> ready th \<and> id_of th \<noteq> task)"
  by (induction ths) auto

lemma gc_ops_words:
  "Collect_word w \<in> set (gc_ops task ths) \<longleftrightarrow> (\<exists>th \<in> set ths. w = self th \<or> w = arg th)"
  by (induction ths) auto

text \<open>C37: In every state that the threads of MicroPython can reach by creating, starting and finishing threads and by collections, a collection scans the registers and
  the stack of the thread that collects, takes the mutex, marks the node and the argument of every thread that was ever created and no other single words, scans exactly
  the stacks of the running threads other than the one that collects, over their whole length, and gives the mutex back; no operation leaves the mutex taken, a failed
  creation included.\<close>

theorem gc_scans_running_threads:
  assumes "thread_reach g"
  shows "\<exists>m. ops (gc_collect task (sys g)) = Collect_end # Semaphore_give # m @ Semaphore_take # Collect_self # Collect_start # ops (sys g) \<and>
    (\<forall>w. Collect_word w \<in> set m \<longleftrightarrow> (\<exists>t node a st len. created g t = Some (node, a, st, len) \<and> (w = node \<or> w = a))) \<and>
    (\<forall>st len. Collect_root st len \<in> set m \<longleftrightarrow> (\<exists>t \<in> running g - {task}. \<exists>node a. created g t = Some (node, a, st, len))) \<and>
    locks_ok (ops (sys g))"
proof -
  let ?ths = "thread (sys g)"
  have ok: "threads_ok g" using assms by (rule reach_ok)
  have node: "\<exists>th \<in> set ?ths. id_of th = t \<and> (self th, arg th, stack th, stack_len th) = (n, a, st, len) \<and> (ready th \<longleftrightarrow> t \<in> running g)"
    if "created g t = Some (n, a, st, len)" for t n a st len
  proof -
    have "t \<in> id_of ` set ?ths" using ok that by (auto simp: threads_ok_def)
    then obtain th where "th \<in> set ?ths" "id_of th = t" by blast
    then show ?thesis using ok that by (intro bexI [of _ th]) (auto simp: threads_ok_def)
  qed
  have thr: "created g (id_of th) = Some (self th, arg th, stack th, stack_len th) \<and> (ready th \<longleftrightarrow> id_of th \<in> running g)" if "th \<in> set ?ths" for th
    using ok that by (simp add: threads_ok_def)
  have words: "Collect_word w \<in> set (gc_ops task ?ths) \<longleftrightarrow> (\<exists>t n a st len. created g t = Some (n, a, st, len) \<and> (w = n \<or> w = a))" for w
  proof
    assume "Collect_word w \<in> set (gc_ops task ?ths)"
    then obtain th where "th \<in> set ?ths" "w = self th \<or> w = arg th" unfolding gc_ops_words by blast
    then show "\<exists>t n a st len. created g t = Some (n, a, st, len) \<and> (w = n \<or> w = a)" using thr by blast
  next
    assume "\<exists>t n a st len. created g t = Some (n, a, st, len) \<and> (w = n \<or> w = a)"
    then obtain t n a st len where t: "created g t = Some (n, a, st, len)" "w = n \<or> w = a" by blast
    from node [OF t(1)] show "Collect_word w \<in> set (gc_ops task ?ths)" using t(2) unfolding gc_ops_words by auto
  qed
  have roots: "Collect_root st len \<in> set (gc_ops task ?ths) \<longleftrightarrow> (\<exists>t \<in> running g - {task}. \<exists>n a. created g t = Some (n, a, st, len))" for st len
  proof
    assume "Collect_root st len \<in> set (gc_ops task ?ths)"
    then obtain th where "th \<in> set ?ths" "stack th = st" "stack_len th = len" "ready th" "id_of th \<noteq> task" by (auto simp: gc_ops_root)
    then show "\<exists>t \<in> running g - {task}. \<exists>n a. created g t = Some (n, a, st, len)" using thr [of th] by (intro bexI [of _ "id_of th"]) auto
  next
    assume "\<exists>t \<in> running g - {task}. \<exists>n a. created g t = Some (n, a, st, len)"
    then obtain t n a where t: "t \<in> running g" "t \<noteq> task" "created g t = Some (n, a, st, len)" by blast
    from node [OF t(3)] show "Collect_root st len \<in> set (gc_ops task ?ths)" using t(1,2) unfolding gc_ops_root by blast
  qed
  have "ops (gc_collect task (sys g)) = Collect_end # Semaphore_give # rev (gc_ops task ?ths) @ Semaphore_take # Collect_self # Collect_start # ops (sys g)"
    by (simp add: gc_collect_ops)
  then show ?thesis using words roots ok by (intro exI [of _ "rev (gc_ops task ?ths)"]) (simp add: threads_ok_def)
qed

definition demo_threads :: threads where
  \<comment> \<open>a thread with a stack of 512 words, created by the first task and started\<close>
  "demo_threads =
     (let g = first_threads 0x10 1 0x2000 64; s' = snd (mp_thread_create 0x400 7 100 (Some 0x50) (Some 0x3000) (Some 0x60) 2 (sys g));
          g = g\<lparr>sys := s', created := (created g)(2 \<mapsto> (0x60, 7, 0x3000, 512))\<rparr>
      in g\<lparr>sys := mp_thread_start 2 (sys g), running := insert 2 (running g)\<rparr>)"

lemma demo_threads_reach: "thread_reach demo_threads"
proof -
  let ?g = "first_threads 0x10 1 0x2000 64"
  let ?r = "mp_thread_create 0x400 7 100 (Some 0x50) (Some 0x3000) (Some 0x60) 2 (sys ?g)"
  let ?g1 = "?g\<lparr>sys := snd ?r, created := (created ?g)(2 \<mapsto> (0x60, 7, 0x3000, (if (100 :: u32) = 0 then 4096 else max 2048 100) div 4))\<rparr>"
  have a: "created ?g 2 = None" by (simp add: first_threads_def)
  have r: "?r = (Inr (2, 1536), snd ?r)" by (simp add: mp_thread_create_def thread_ops)
  have "thread_step ?g ?g1" by (rule thread_step.create [OF _ a r]) simp
  then have "thread_reach ?g1" using init step by blast
  moreover have "thread_step ?g1 (?g1\<lparr>sys := mp_thread_start 2 (sys ?g1), running := insert 2 (running ?g1)\<rparr>)" by (rule thread_step.start) simp
  ultimately show ?thesis using step unfolding demo_threads_def Let_def by (simp add: max_def)
qed

lemma gc_scans_running_threads_witness:
  "\<exists>m. ops (gc_collect 1 (sys demo_threads)) = Collect_end # Semaphore_give # m @ Semaphore_take # Collect_self # Collect_start # ops (sys demo_threads) \<and>
     Collect_word 0x60 \<in> set m \<and> Collect_word 7 \<in> set m \<and> Collect_root 0x3000 512 \<in> set m"
proof -
  have c: "created demo_threads 2 = Some (0x60, 7, 0x3000, 512)" "2 \<in> running demo_threads - {1}" by (simp_all add: demo_threads_def Let_def first_threads_def)
  then show ?thesis using gc_scans_running_threads [OF demo_threads_reach, of 1] by blast
qed

end
