(* ===== verification/NetDhcp.thy ===== *)
theory NetDhcp
  imports CPrelude
begin

text \<open>
  The supervision of the DHCP client, \<open>CM7/core/src/app_ethernet.c\<close>, and the set-up of the interface, \<open>netif_conf.c\<close>. The variable
  \<open>DHCP_state\<close> is shared: \<open>ethernet_link_status_updated\<close> writes it from the link thread, \<open>DHCP_Thread\<close> reads and writes it. The
  thread is modelled by the list of the actions that are left of its round, one action per step, so that
  the callback may come between any two of them. The client of lwIP is the parameter \<open>dhcp_env\<close>; its answers may depend on all calls so far.
\<close>

definition DHCP_OFF :: u8 where "DHCP_OFF = 0"
definition DHCP_START :: u8 where "DHCP_START = 1"
definition DHCP_WAIT_ADDRESS :: u8 where "DHCP_WAIT_ADDRESS = 2"
definition DHCP_ADDRESS_ASSIGNED :: u8 where "DHCP_ADDRESS_ASSIGNED = 3"
definition DHCP_TIMEOUT :: u8 where "DHCP_TIMEOUT = 4"
definition DHCP_LINK_DOWN :: u8 where "DHCP_LINK_DOWN = 5"
definition MAX_DHCP_TRIES :: u8 where "MAX_DHCP_TRIES = 4"

lemmas dhcp_states = DHCP_OFF_def DHCP_START_def DHCP_WAIT_ADDRESS_def DHCP_ADDRESS_ASSIGNED_def DHCP_TIMEOUT_def
  DHCP_LINK_DOWN_def MAX_DHCP_TRIES_def

type_synonym ip4 = "u8 list"

definition IP_ADDR :: ip4 where "IP_ADDR = [192, 168, 1, 10]"
definition NETMASK_ADDR :: ip4 where "NETMASK_ADDR = [255, 255, 255, 0]"
definition GW_ADDR :: ip4 where "GW_ADDR = [192, 168, 1, 1]"

datatype netif_field = Ip_addr | Netmask | Gw

datatype net_op = Set_zero netif_field | Dhcp_start | Dhcp_release_and_stop | Netif_set_addr ip4 ip4 ip4 | Net_diag string | Os_delay
  | Tcpip_init | Netif_add ip4 ip4 ip4 | Netif_set_default | Netif_set_link_callback | Create_link_thread | Create_dhcp_thread

record dhcp_env =
  dhcp_supplied_address :: "net_op list \<Rightarrow> bool"  \<comment> \<open>from the calls so far, the last one first\<close>
  dhcp_tries :: "net_op list \<Rightarrow> u8"

datatype action = Call net_op | Write u8 | Test_supplied | Test_tries

record dhcp_sys =
  DHCP_state :: u8
  netif_up :: bool
  net_calls :: "net_op list"  \<comment> \<open>the last one first\<close>
  todo :: "action list"

section \<open>The callback\<close>

definition ethernet_link_status_updated :: "dhcp_sys \<Rightarrow> dhcp_sys" where
  "ethernet_link_status_updated s = s\<lparr>DHCP_state := if netif_up s then DHCP_START else DHCP_LINK_DOWN\<rparr>"

section \<open>The thread\<close>

definition dhcp_case :: "u8 \<Rightarrow> action list" where
  \<comment> \<open>the branches of the switch\<close>
  "dhcp_case st =
     (if st = DHCP_START then
        [Call (Set_zero Ip_addr), Call (Set_zero Netmask), Call (Set_zero Gw), Write DHCP_WAIT_ADDRESS,
         Call (Net_diag ''State: Looking for DHCP server ...''), Call Dhcp_start]
      else if st = DHCP_WAIT_ADDRESS then [Test_supplied]
      else if st = DHCP_LINK_DOWN then
        [Write DHCP_OFF, Call Dhcp_release_and_stop, Call (Net_diag ''The network cable is not connected'')]
      else [])"

fun dhcp_action :: "dhcp_env \<Rightarrow> action \<Rightarrow> dhcp_sys \<Rightarrow> dhcp_sys" where
  "dhcp_action E (Call op) s = s\<lparr>net_calls := op # net_calls s\<rparr>"
| "dhcp_action E (Write st) s = s\<lparr>DHCP_state := st\<rparr>"
| "dhcp_action E Test_supplied s =
     s\<lparr>todo := (if dhcp_supplied_address E (net_calls s)
        then [Write DHCP_ADDRESS_ASSIGNED, Call (Net_diag ''address via DHCP'')] else [Test_tries]) @ todo s\<rparr>"
| "dhcp_action E Test_tries s =
     s\<lparr>todo := (if MAX_DHCP_TRIES < dhcp_tries E (net_calls s)
        then [Write DHCP_TIMEOUT, Call Dhcp_release_and_stop, Call (Netif_set_addr IP_ADDR NETMASK_ADDR GW_ADDR),
          Call (Net_diag ''static address'')] else []) @ todo s\<rparr>"

definition DHCP_Thread :: "dhcp_env \<Rightarrow> dhcp_sys \<Rightarrow> dhcp_sys" where
  \<comment> \<open>one step: the switch at the beginning of a round, or the next action\<close>
  "DHCP_Thread E s =
     (case todo s of
        [] \<Rightarrow> s\<lparr>todo := dhcp_case (DHCP_state s) @ [Call Os_delay]\<rparr>
      | a # as \<Rightarrow> dhcp_action E a (s\<lparr>todo := as\<rparr>))"

datatype net_event = Thread | Report bool  \<comment> \<open>the interface goes up or down, and lwIP calls the callback\<close>

fun dhcp_event :: "dhcp_env \<Rightarrow> net_event \<Rightarrow> dhcp_sys \<Rightarrow> dhcp_sys" where
  "dhcp_event E Thread s = DHCP_Thread E s"
| "dhcp_event E (Report up) s = ethernet_link_status_updated (s\<lparr>netif_up := up\<rparr>)"

definition dhcp_run :: "dhcp_env \<Rightarrow> net_event list \<Rightarrow> dhcp_sys \<Rightarrow> dhcp_sys" where
  "dhcp_run E = fold (dhcp_event E)"

section \<open>The set-up\<close>

definition net_call :: "net_op \<Rightarrow> dhcp_sys \<Rightarrow> dhcp_sys" where
  "net_call op s = s\<lparr>net_calls := op # net_calls s\<rparr>"

definition netif_config :: "bool \<Rightarrow> dhcp_sys \<Rightarrow> dhcp_sys" where
  \<comment> \<open>\<open>up\<close>: whether \<open>carbon_lwip_init\<close>, which \<open>netif_add\<close> calls, finds a link and sets the interface up\<close>
  "netif_config up s =
     (let s = net_call (Netif_add [0, 0, 0, 0] [0, 0, 0, 0] [0, 0, 0, 0]) (net_call Tcpip_init s);
          s = s\<lparr>netif_up := up\<rparr>;
          s = ethernet_link_status_updated (net_call Netif_set_default s)
      in net_call Create_dhcp_thread (net_call Create_link_thread (net_call Netif_set_link_callback s)))"

definition dhcp_start_state :: dhcp_sys where
  "dhcp_start_state = \<lparr>DHCP_state = DHCP_OFF, netif_up = False, net_calls = [], todo = []\<rparr>"

section \<open>The specification\<close>

datatype phase = Off | Looking | Bound | Fallback

record supervisor =
  phase :: phase
  pending :: "bool option"  \<comment> \<open>the report that the next round acts on\<close>
  log :: "net_op list"

definition sup_report :: "bool \<Rightarrow> supervisor \<Rightarrow> supervisor" where
  "sup_report up a = a\<lparr>pending := Some up\<rparr>"

definition sup_log :: "net_op list \<Rightarrow> supervisor \<Rightarrow> supervisor" where
  "sup_log ops a = a\<lparr>log := rev ops @ log a\<rparr>"

definition sup_round :: "dhcp_env \<Rightarrow> supervisor \<Rightarrow> supervisor" where
  \<comment> \<open>a report starts or stops the client; without one a client that is looking for an address is watched\<close>
  "sup_round E a = sup_log [Os_delay]
     (case pending a of
        Some True \<Rightarrow> sup_log [Set_zero Ip_addr, Set_zero Netmask, Set_zero Gw, Net_diag ''State: Looking for DHCP server ...'', Dhcp_start]
          (a\<lparr>phase := Looking, pending := None\<rparr>)
      | Some False \<Rightarrow> sup_log [Dhcp_release_and_stop, Net_diag ''The network cable is not connected''] (a\<lparr>phase := Off, pending := None\<rparr>)
      | None \<Rightarrow>
          if phase a = Looking then
            if dhcp_supplied_address E (log a) then sup_log [Net_diag ''address via DHCP''] (a\<lparr>phase := Bound\<rparr>)
            else if MAX_DHCP_TRIES < dhcp_tries E (log a) then
              sup_log [Dhcp_release_and_stop, Netif_set_addr IP_ADDR NETMASK_ADDR GW_ADDR, Net_diag ''static address''] (a\<lparr>phase := Fallback\<rparr>)
            else a
          else a)"

fun phase_state :: "phase \<Rightarrow> u8" where
  "phase_state Off = DHCP_OFF"
| "phase_state Looking = DHCP_WAIT_ADDRESS"
| "phase_state Bound = DHCP_ADDRESS_ASSIGNED"
| "phase_state Fallback = DHCP_TIMEOUT"

definition abs_dhcp :: "supervisor \<Rightarrow> dhcp_sys \<Rightarrow> bool" where
  "abs_dhcp a s \<longleftrightarrow> log a = net_calls s \<and> DHCP_state s =
     (case pending a of Some True \<Rightarrow> DHCP_START | Some False \<Rightarrow> DHCP_LINK_DOWN | None \<Rightarrow> phase_state (phase a))"

end
