(* ===== verification/NetClaims.thy ===== *)
theory NetClaims
  imports NetDhcp
begin

text \<open>
  Properties of the supervision of the DHCP client: it follows the reports of the link, unless one arrives in the middle of a round.
\<close>

section \<open>Rounds\<close>

primrec action_size :: "action \<Rightarrow> nat" where
  "action_size (Call op) = 1"
| "action_size (Write st) = 1"
| "action_size Test_supplied = 10"
| "action_size Test_tries = 6"

lemma thread_measure: "todo s \<noteq> [] \<Longrightarrow> sum_list (map action_size (todo (DHCP_Thread E s))) < sum_list (map action_size (todo s))"
  by (cases "(E, hd (todo s), s)" rule: dhcp_action.cases; cases "todo s") (auto simp: DHCP_Thread_def)

function settle :: "dhcp_env \<Rightarrow> dhcp_sys \<Rightarrow> dhcp_sys" where
  \<comment> \<open>the rest of the round\<close>
  "settle E s = (if todo s = [] then s else settle E (DHCP_Thread E s))"
  by pat_completeness auto
termination
  by (relation "measure (\<lambda>(E, s). sum_list (map action_size (todo s)))") (auto simp: thread_measure)

declare settle.simps [simp del]

lemma settle_Nil [simp]: "todo s = [] \<Longrightarrow> settle E s = s"
  by (subst settle.simps) simp

lemma settle_Cons [simp]: "todo s = a # as \<Longrightarrow> settle E s = settle E (dhcp_action E a (s\<lparr>todo := as\<rparr>))"
  by (subst settle.simps) (simp add: DHCP_Thread_def)

lemma settle_calls: "todo s = map Call ops \<Longrightarrow> settle E s = s\<lparr>net_calls := rev ops @ net_calls s, todo := []\<rparr>"
  by (induction ops arbitrary: s) auto

lemma abs_round:
  assumes a: "abs_dhcp a s" and t: "todo s = []"
  shows "abs_dhcp (sup_round E a) (settle E (DHCP_Thread E s))"
proof (cases "pending a")
  case None
  show ?thesis
  proof (cases "phase a")
    case Looking
    then show ?thesis
      using a None t
      by (simp add: abs_dhcp_def sup_round_def sup_log_def DHCP_Thread_def dhcp_case_def dhcp_states)
  qed (use a None t in \<open>simp_all add: abs_dhcp_def sup_round_def sup_log_def DHCP_Thread_def dhcp_case_def dhcp_states\<close>)
next
  case (Some up)
  then show ?thesis
    using a t
    by (cases up) (simp_all add: abs_dhcp_def sup_round_def sup_log_def DHCP_Thread_def dhcp_case_def dhcp_states)
qed

section \<open>Schedules\<close>

definition only_calls :: "action list \<Rightarrow> bool" where
  "only_calls as \<longleftrightarrow> (\<forall>a \<in> set as. \<exists>op. a = Call op)"

fun calm :: "dhcp_env \<Rightarrow> net_event list \<Rightarrow> dhcp_sys \<Rightarrow> bool" where
  \<comment> \<open>no report arrives while the thread has yet to write the state\<close>
  "calm E [] s \<longleftrightarrow> True"
| "calm E (Thread # es) s \<longleftrightarrow> calm E es (dhcp_event E Thread s)"
| "calm E (Report up # es) s \<longleftrightarrow> only_calls (todo s) \<and> calm E es (dhcp_event E (Report up) s)"

fun sup_run :: "dhcp_env \<Rightarrow> net_event list \<Rightarrow> dhcp_sys \<Rightarrow> supervisor \<Rightarrow> supervisor" where
  \<comment> \<open>the supervisor does a round when the thread begins one\<close>
  "sup_run E [] s a = a"
| "sup_run E (Thread # es) s a = sup_run E es (dhcp_event E Thread s) (if todo s = [] then sup_round E a else a)"
| "sup_run E (Report up # es) s a = sup_run E es (dhcp_event E (Report up) s) (sup_report up a)"

lemma dhcp_run_simps [simp]: "dhcp_run E [] s = s" "dhcp_run E (e # es) s = dhcp_run E es (dhcp_event E e s)"
  by (simp_all add: dhcp_run_def)

lemma abs_report:
  assumes "abs_dhcp a (settle E s)" and "only_calls (todo s)"
  shows "abs_dhcp (sup_report up a) (settle E (dhcp_event E (Report up) s))"
proof -
  obtain ops where "todo s = map Call ops"
    using assms(2) unfolding only_calls_def by (metis ex_map_conv)
  then show ?thesis
    using assms(1) by (simp add: settle_calls abs_dhcp_def sup_report_def ethernet_link_status_updated_def split: bool.split)
qed

definition sup_ok :: "supervisor \<Rightarrow> bool \<Rightarrow> bool" where
  \<comment> \<open>the report to act on is that of the interface, and without one the client is off exactly when the interface is down\<close>
  "sup_ok a up \<longleftrightarrow> (case pending a of Some b \<Rightarrow> b = up | None \<Rightarrow> phase a = Off \<longleftrightarrow> \<not> up)"

lemma thread_keeps_up [simp]: "netif_up (DHCP_Thread E s) = netif_up s"
  by (cases "(E, hd (todo s), s)" rule: dhcp_action.cases; cases "todo s") (auto simp: DHCP_Thread_def)

lemma sup_ok_round: "sup_ok a up \<Longrightarrow> sup_ok (sup_round E a) up"
  by (auto simp: sup_ok_def sup_round_def sup_log_def split: option.splits bool.splits)

lemma sup_ok_run: "sup_ok a (netif_up s) \<Longrightarrow> sup_ok (sup_run E es s a) (netif_up (dhcp_run E es s))"
  by (induction E es s a rule: sup_run.induct)
    (simp_all add: sup_ok_round, simp add: sup_ok_def sup_report_def ethernet_link_status_updated_def)

lemma abs_run:
  "calm E es s \<Longrightarrow> abs_dhcp a (settle E s) \<Longrightarrow> abs_dhcp (sup_run E es s a) (settle E (dhcp_run E es s))"
proof (induction E es s a rule: sup_run.induct)
  case (2 E es s a)
  have "abs_dhcp (if todo s = [] then sup_round E a else a) (settle E (dhcp_event E Thread s))"
  proof (cases "todo s = []")
    case True
    then show ?thesis using "2.prems"(2) abs_round [of a s E] by simp
  next
    case False
    then show ?thesis using "2.prems"(2) by (simp add: settle.simps [of E s])
  qed
  then show ?case using "2.IH" "2.prems"(1) by simp
next
  case (3 E up es s a)
  then show ?case using abs_report [of a E s up] by simp
qed simp

lemma abs_sup_ok: "abs_dhcp a s \<Longrightarrow> sup_ok a up \<Longrightarrow> pending a = None \<Longrightarrow> DHCP_state s = DHCP_OFF \<longleftrightarrow> \<not> up"
  by (cases "phase a") (auto simp: abs_dhcp_def sup_ok_def dhcp_states)

text \<open>C17: Under every schedule of the thread and the callback in which no report of the link arrives while the thread still
  has to write the state in its round, the thread does in every round what a supervisor does that acts on the last report: a
  report of a link starts the client, the loss of the link stops it, an address ends the search, and more than four tries stop the
  client and set the static address. Once the last report has been acted on, the supervision is off exactly when the interface is down.\<close>

theorem dhcp_follows_reports:
  assumes "calm E es s" and "abs_dhcp a (settle E s)" and "sup_ok a (netif_up s)"
  shows "abs_dhcp (sup_run E es s a) (settle E (dhcp_run E es s)) \<and>
    (pending (sup_run E es s a) = None \<longrightarrow> (DHCP_state (settle E (dhcp_run E es s)) = DHCP_OFF \<longleftrightarrow> \<not> netif_up (dhcp_run E es s)))"
proof -
  have r: "abs_dhcp (sup_run E es s a) (settle E (dhcp_run E es s))" using assms(1,2) by (rule abs_run)
  then show ?thesis using abs_sup_ok [OF r sup_ok_run [OF assms(3)]] by blast
qed

definition demo_dhcp :: dhcp_env where
  \<comment> \<open>no server answers, and every round is a try\<close>
  "demo_dhcp = \<lparr>dhcp_supplied_address = (\<lambda>_. False), dhcp_tries = (\<lambda>cs. of_nat (length (filter (\<lambda>c. c = Os_delay) cs)))\<rparr>"

lemma start_is_supervised:
  "abs_dhcp \<lparr>phase = Off, pending = Some up, log = net_calls (netif_config up dhcp_start_state)\<rparr> (settle E (netif_config up dhcp_start_state))"
  "sup_ok \<lparr>phase = Off, pending = Some up, log = net_calls (netif_config up dhcp_start_state)\<rparr> (netif_up (netif_config up dhcp_start_state))"
  by (simp_all add: abs_dhcp_def sup_ok_def netif_config_def net_call_def dhcp_start_state_def ethernet_link_status_updated_def Let_def)

lemma dhcp_follows_reports_witness:
  "\<exists>a. abs_dhcp a (settle demo_dhcp (dhcp_run demo_dhcp (replicate 5 Thread @ [Report True, Thread]) (netif_config False dhcp_start_state))) \<and>
     phase a = Looking \<and> pending a = None \<and> Dhcp_start \<in> set (log a)"
proof -
  let ?s = "netif_config False dhcp_start_state" and ?es = "[Thread, Thread, Thread, Thread, Thread, Report True, Thread]"
  let ?a = "\<lparr>phase = Off, pending = Some False, log = net_calls ?s\<rparr>"
  have es: "replicate 5 Thread @ [Report True, Thread] = ?es" by (simp add: numeral_eq_Suc)
  have c: "calm demo_dhcp ?es ?s"
    by (simp add: netif_config_def net_call_def dhcp_start_state_def ethernet_link_status_updated_def DHCP_Thread_def dhcp_case_def
      only_calls_def dhcp_states Let_def)
  note a = start_is_supervised(1) [of False demo_dhcp]
  have "sup_run demo_dhcp ?es ?s ?a = sup_round demo_dhcp (sup_report True (sup_round demo_dhcp ?a))"
    by (simp add: netif_config_def net_call_def dhcp_start_state_def ethernet_link_status_updated_def DHCP_Thread_def dhcp_case_def
      dhcp_states Let_def)
  then show ?thesis
    using dhcp_follows_reports [OF c a start_is_supervised(2)] unfolding es
    by (intro exI [of _ "sup_run demo_dhcp ?es ?s ?a"]) (simp add: sup_round_def sup_report_def sup_log_def)
qed

section \<open>Lost reports\<close>

lemma thread_up: "DHCP_Thread E (s\<lparr>netif_up := b\<rparr>) = (DHCP_Thread E s)\<lparr>netif_up := b\<rparr>"
proof (cases "todo s")
  case (Cons a as)
  then show ?thesis by (cases a) (simp_all add: DHCP_Thread_def)
qed (simp add: DHCP_Thread_def)

lemma run_up: "dhcp_run E (replicate n Thread) (s\<lparr>netif_up := b\<rparr>) = (dhcp_run E (replicate n Thread) s)\<lparr>netif_up := b\<rparr>"
  by (induction n arbitrary: s) (simp_all add: thread_up)

lemma write_forgets:
  "todo s = map Call ops @ Write st # as \<Longrightarrow> length ops < n \<Longrightarrow>
    dhcp_run E (replicate n Thread) (s\<lparr>DHCP_state := x\<rparr>) = dhcp_run E (replicate n Thread) s"
proof (induction ops arbitrary: s n)
  case Nil
  then obtain k where "n = Suc k" by (cases n) auto
  then show ?case using Nil by (simp add: DHCP_Thread_def)
next
  case (Cons op ops)
  then obtain k where n: "n = Suc k" by (cases n) auto
  let ?s = "s\<lparr>todo := map Call ops @ Write st # as, net_calls := op # net_calls s\<rparr>"
  have "DHCP_Thread E s = ?s" "DHCP_Thread E (s\<lparr>DHCP_state := x\<rparr>) = ?s\<lparr>DHCP_state := x\<rparr>"
    using Cons.prems(1) by (simp_all add: DHCP_Thread_def)
  then show ?case using Cons.IH [of ?s k] Cons.prems(2) n by simp
qed

text \<open>A report of the link that arrives after the thread has read the state and before it has written it is lost: from then on
  the thread behaves as if the report had not come. So the loss of the link during the start of the client is never noticed, and
  a link that comes back while its loss is being handled stays without a client.\<close>

theorem dhcp_report_lost:
  assumes "todo s = map Call ops @ Write st # as" and "length ops < n"
  shows "dhcp_run E (Report up # replicate n Thread) s = (dhcp_run E (replicate n Thread) s)\<lparr>netif_up := up\<rparr>"
  using write_forgets [of "s\<lparr>netif_up := up\<rparr>"] assms
  by (simp add: ethernet_link_status_updated_def run_up)

lemma dhcp_report_lost_witness:
  "let s = dhcp_run demo_dhcp (Thread # Report True # replicate 4 Thread) (netif_config False dhcp_start_state)
   in netif_up s \<and> DHCP_state s = DHCP_OFF \<and> todo s = [] \<and> Dhcp_start \<notin> set (net_calls s)"
proof -
  let ?s = "DHCP_Thread demo_dhcp (netif_config False dhcp_start_state)"
  have t: "todo ?s = map Call [] @ Write DHCP_OFF # [Call Dhcp_release_and_stop, Call (Net_diag ''The network cable is not connected''), Call Os_delay]"
    by (simp add: netif_config_def net_call_def dhcp_start_state_def ethernet_link_status_updated_def DHCP_Thread_def dhcp_case_def dhcp_states Let_def)
  have "dhcp_run demo_dhcp (Thread # Report True # replicate 4 Thread) (netif_config False dhcp_start_state) =
      dhcp_run demo_dhcp (Report True # replicate 4 Thread) ?s" by simp
  also have "\<dots> = (dhcp_run demo_dhcp (replicate 4 Thread) ?s)\<lparr>netif_up := True\<rparr>"
    by (rule dhcp_report_lost [OF t]) simp
  finally have r: "dhcp_run demo_dhcp (Thread # Report True # replicate 4 Thread) (netif_config False dhcp_start_state) =
      (dhcp_run demo_dhcp [Thread, Thread, Thread, Thread] ?s)\<lparr>netif_up := True\<rparr>" by (simp add: numeral_eq_Suc)
  show ?thesis
    unfolding r
    by (simp add: netif_config_def net_call_def dhcp_start_state_def ethernet_link_status_updated_def DHCP_Thread_def dhcp_case_def dhcp_states Let_def)
qed

end
