(* ===== verification/Unwind.thy ===== *)
theory Unwind
  imports CPrelude
begin

text \<open>
  The stack unwinder \<open>lib/backtrace/backtrace.c\<close>, which the fault handlers use. Memory is a function from addresses
  to the 32-bit word there, \<open>None\<close> where an access faults; the unwinder does not write to it. \<open>None\<close> as a
  result is a fault or an access outside an array (\<open>vrs\<close>, the buffer of the caller). An \<open>int\<close> of C that holds
  an instruction or \<open>-1\<close> is an \<open>int\<close>.
\<close>

type_synonym memory = "u32 \<Rightarrow> u32 option"

record backtrace_frame =
  fp :: u32
  sp :: u32
  lr :: u32
  pc :: u32

datatype fname = Name_at u32 | Literal string  \<comment> \<open>a string of the image, or one of the literals of the unwinder\<close>

record backtrace =
  fun_addr :: u32  \<comment> \<open>\<open>function\<close>\<close>
  address :: u32
  fname :: "fname option"  \<comment> \<open>\<open>None\<close> is NULL\<close>

record unwind_control_block =
  vrs :: "u32 list"
  current :: u32
  remaining :: nat
  byte :: nat

record exidx =
  exidx_start :: u32
  exidx_len :: nat  \<comment> \<open>\<open>__exidx_end - __exidx_start\<close>, in entries of two words\<close>

section \<open>The unwind index\<close>

definition prel31_offset :: "u32 \<Rightarrow> u32" where
  "prel31_offset w = signed_drop_bit 1 (push_bit 1 w)"

definition prel31_to_addr :: "memory \<Rightarrow> u32 \<Rightarrow> u32 option" where
  "prel31_to_addr m prel31 = map_option (\<lambda>w. (prel31 + prel31_offset w) AND 0x7fffffff) (m prel31)"

definition addr_offset_at :: "u32 \<Rightarrow> nat \<Rightarrow> u32" where
  \<comment> \<open>the address of \<open>addr_offset\<close> of an entry; \<open>insn\<close> is the word behind it\<close>
  "addr_offset_at table i = table + 8 * of_nat i"

function unwind_search_index :: "memory \<Rightarrow> u32 \<Rightarrow> nat \<Rightarrow> nat \<Rightarrow> u32 \<Rightarrow> nat option" where
  \<comment> \<open>\<open>start\<close> and \<open>end\<close> as indices of entries\<close>
  "unwind_search_index m table st en ip =
     (if st + 1 < en then
        let middle = st + (en - st + 1) div 2
        in case prel31_to_addr m (addr_offset_at table middle) of
             None \<Rightarrow> None
           | Some a \<Rightarrow> if ip < a then unwind_search_index m table st middle ip else unwind_search_index m table middle en ip
      else Some st)"
  by pat_completeness auto
termination by (relation "measure (\<lambda>(m, table, st, en, ip). en - st)") auto

declare unwind_search_index.simps [simp del]

definition unwind_get_function_name :: "memory \<Rightarrow> u32 \<Rightarrow> fname option" where
  "unwind_get_function_name m a =
     map_option (\<lambda>flag_word. if flag_word AND 0xff000000 = 0xff000000 then Name_at (a - 4 - (flag_word AND 0x00ffffff))
       else Literal ''unknown'') (m (a - 4))"

section \<open>The unwind instructions\<close>

definition unwind_get_next_byte :: "memory \<Rightarrow> unwind_control_block \<Rightarrow> (int \<times> unwind_control_block) option" where
  \<comment> \<open>\<open>byte\<close> is below zero only inside the function\<close>
  "unwind_get_next_byte m u =
     (if remaining u = 0 then Some (- 1, u)
      else do {
        w \<leftarrow> m (current u);
        let u' = (if byte u = 0 then u\<lparr>current := current u + 4, byte := 3\<rparr> else u\<lparr>byte := byte u - 1\<rparr>);
        Some (uint (drop_bit (8 * byte u) w AND 0xff), u'\<lparr>remaining := remaining u - 1\<rparr>)
      })"

definition unwind_control_block_init :: "memory \<Rightarrow> u32 \<Rightarrow> backtrace_frame option \<Rightarrow> (int \<times> unwind_control_block) option" where
  "unwind_control_block_init m instructions frame =
     do {
       w \<leftarrow> m instructions;
       let u = \<lparr>vrs = replicate 16 0, current = instructions, remaining = 0, byte = 0\<rparr>;
       let regs = (case frame of None \<Rightarrow> vrs u
         | Some f \<Rightarrow> (vrs u)[7 := fp f, 13 := sp f, 14 := lr f, 15 := 0]);
       if w AND 0xff000000 = 0x80000000 then Some (0, u\<lparr>remaining := 3, byte := 2, vrs := regs\<rparr>)
       else if w AND 0xff000000 = 0x81000000 then
         Some (0, u\<lparr>remaining := unat (drop_bit 14 (w AND 0x00ff0000)) + 2, byte := 1, vrs := regs\<rparr>)
       else Some (- 1, u)
     }"

definition set_vrs :: "nat \<Rightarrow> u32 \<Rightarrow> unwind_control_block \<Rightarrow> unwind_control_block option" where
  "set_vrs r v u = (if r < length (vrs u) then Some (u\<lparr>vrs := (vrs u)[r := v]\<rparr>) else None)"

lemma unat_drop_bit_1: "unat (drop_bit 1 w) = unat w div 2"
  using unat_drop_bit_eq [of 1 w] by (simp only: drop_bit_eq_div power_one_right)

function pop_masked :: "memory \<Rightarrow> u32 \<Rightarrow> nat \<Rightarrow> u32 \<Rightarrow> unwind_control_block \<Rightarrow> (u32 \<times> u32 \<times> unwind_control_block) option" where
  \<comment> \<open>the loop over a mask; with the mask and the stack pointer it ends with\<close>
  "pop_masked m msk reg vsp u =
     (if msk = 0 then Some (msk, vsp, u)
      else if msk AND 1 \<noteq> 0 then
        case m vsp of
          None \<Rightarrow> None
        | Some v \<Rightarrow> (case set_vrs reg v u of None \<Rightarrow> None | Some u \<Rightarrow> pop_masked m (drop_bit 1 msk) (reg + 1) (vsp + 4) u)
      else pop_masked m (drop_bit 1 msk) (reg + 1) vsp u)"
  by pat_completeness auto
termination
proof (relation "measure (\<lambda>(m, msk, reg, vsp, u). unat msk)")
  have less: "unat (drop_bit 1 msk) < unat msk" if "msk \<noteq> 0" for msk :: u32
  proof -
    have "0 < unat msk" using that by (simp add: unat_gt_0)
    then show ?thesis using unat_drop_bit_1 [of msk] by linarith
  qed
  show "\<And>(m :: memory) (msk :: u32) (reg :: nat) vsp (u :: unwind_control_block) x2 x2a. msk \<noteq> 0 \<Longrightarrow>
    ((m, drop_bit 1 msk, reg + 1, vsp + 4, x2a), m, msk, reg, vsp, u) \<in> measure (\<lambda>(m, msk, reg, vsp, u). unat msk)"
    by (simp only: in_measure prod.case less not_False_eq_True)
  show "\<And>(m :: memory) (msk :: u32) (reg :: nat) vsp (u :: unwind_control_block). msk \<noteq> 0 \<Longrightarrow>
    ((m, drop_bit 1 msk, reg + 1, vsp, u), m, msk, reg, vsp, u) \<in> measure (\<lambda>(m, msk, reg, vsp, u). unat msk)"
    by (simp only: in_measure prod.case less not_False_eq_True)
qed simp

declare pop_masked.simps [simp del]

fun pop_range :: "memory \<Rightarrow> nat \<Rightarrow> nat \<Rightarrow> u32 \<Rightarrow> unwind_control_block \<Rightarrow> (u32 \<times> unwind_control_block) option" where
  \<comment> \<open>\<open>n\<close> registers from \<open>reg\<close> on\<close>
  "pop_range m 0 reg vsp u = Some (vsp, u)"
| "pop_range m (Suc n) reg vsp u =
     do {
       v \<leftarrow> m vsp;
       u \<leftarrow> set_vrs reg v u;
       pop_range m n (reg + 1) (vsp + 4) u
     }"

datatype exec_result = Continue unwind_control_block | Finished unwind_control_block | Failed

definition exec_one :: "memory \<Rightarrow> int \<Rightarrow> unwind_control_block \<Rightarrow> exec_result option" where
  \<comment> \<open>the body of the loop for one instruction byte: \<open>Finished\<close> is \<open>return 0\<close>, \<open>Failed\<close> is \<open>return -1\<close>\<close>
  "exec_one m ins u =
     (let vsp = vrs u ! 13; set_vsp = (\<lambda>v u. u\<lparr>vrs := (vrs u)[13 := v]\<rparr>)
      in if ins AND 0xc0 = 0x00 then
           Some (Continue (set_vsp (vsp + word_of_int (push_bit 2 (ins AND 0x3f) + 4)) u))
         else if ins AND 0xc0 = 0x40 then
           Some (Continue (set_vsp (vsp - word_of_int (push_bit 2 (ins AND 0x3f) - 4)) u))
         else if ins AND 0xf0 = 0x80 then
           do {
             (b, u) \<leftarrow> unwind_get_next_byte m u;
             let ins = push_bit 8 ins OR b;
             if ins = 0x8000 then Some (Finished u)
             else do {
               (msk, vsp, u) \<leftarrow> pop_masked m (word_of_int (ins AND 0xfff)) 4 vsp u;
               Some (Continue (if msk AND push_bit 9 1 = 0 then set_vsp vsp u else u))
             }
           }
         else if ins AND 0xf0 = 0x90 \<and> ins \<noteq> 0x9d \<and> ins \<noteq> 0x9f then
           Some (Continue (set_vsp (vrs u ! nat (ins AND 0x0f)) u))
         else if ins AND 0xf0 = 0xa0 then
           do {
             (vsp, u) \<leftarrow> pop_range m (nat (ins AND 0x07) + 1) 4 vsp u;
             (vsp, u) \<leftarrow> (if ins AND 0x08 \<noteq> 0 then pop_range m 1 14 vsp u else Some (vsp, u));
             Some (Continue (set_vsp vsp u))
           }
         else if ins = 0xb0 then
           Some (Finished (if vrs u ! 15 = 0 then u\<lparr>vrs := (vrs u)[15 := vrs u ! 14]\<rparr> else u))
         else if ins = 0xb1 then
           do {
             (b, u) \<leftarrow> unwind_get_next_byte m u;
             (msk, vsp, u) \<leftarrow> pop_masked m (word_of_int b) 0 vsp u;
             Some (Continue (set_vsp vsp u))
           }
         else if ins = 0xb2 then
           do {
             (b, u) \<leftarrow> unwind_get_next_byte m u;
             Some (Continue (set_vsp (vsp + word_of_int (0x204 + push_bit 2 b)) u))
           }
         else if ins = 0xb3 \<or> ins = 0xc8 \<or> ins = 0xc9 then
           do {
             (b, u) \<leftarrow> unwind_get_next_byte m u;
             let vsp = vsp + 4 * word_of_int (2 * ((b AND 0x0f) + 1));
             Some (Continue (set_vsp (if ins = 0xb3 then vsp + 4 else vsp) u))
           }
         else if ins AND 0xf8 = 0xb8 \<or> ins AND 0xf8 = 0xd0 then
           let vsp = vsp + 4 * word_of_int (2 * ((ins AND 0x07) + 1))
           in Some (Continue (set_vsp (if ins AND 0xf8 = 0xb8 then vsp + 4 else vsp) u))
         else Some Failed)"

section \<open>Every instruction consumes its byte\<close>

lemma next_byte_remaining: "unwind_get_next_byte m u = Some (b, u') \<Longrightarrow> remaining u' = remaining u - 1"
  by (auto simp: unwind_get_next_byte_def Let_def bind_eq_Some_conv split: if_splits)

lemma next_byte_end: "remaining u = 0 \<Longrightarrow> unwind_get_next_byte m u = Some (- 1, u)"
  by (simp add: unwind_get_next_byte_def)

lemma set_vrs_remaining: "set_vrs r v u = Some u' \<Longrightarrow> remaining u' = remaining u"
  by (auto simp: set_vrs_def split: if_splits)

lemma pop_masked_remaining: "pop_masked m msk reg vsp u = Some (msk', vsp', u') \<Longrightarrow> remaining u' = remaining u"
  by (induction m msk reg vsp u rule: pop_masked.induct)
    (subst (asm) pop_masked.simps, auto dest: set_vrs_remaining split: if_splits option.splits)

lemma pop_range_remaining: "pop_range m n reg vsp u = Some (vsp', u') \<Longrightarrow> remaining u' = remaining u"
  by (induction m n reg vsp u rule: pop_range.induct) (auto dest: set_vrs_remaining simp: bind_eq_Some_conv)

lemma exec_one_remaining: "exec_one m ins u = Some (Continue u') \<Longrightarrow> remaining u' \<le> remaining u"
  unfolding exec_one_def Let_def
  by (auto simp: bind_eq_Some_conv simp del: pop_range.simps
    dest!: next_byte_remaining pop_masked_remaining pop_range_remaining split: if_splits)

section \<open>Executing the instructions\<close>

function unwind_execute_instruction :: "memory \<Rightarrow> unwind_control_block \<Rightarrow> (int \<times> unwind_control_block) option" where
  "unwind_execute_instruction m u =
     (case unwind_get_next_byte m u of
        None \<Rightarrow> None
      | Some (ins, u') \<Rightarrow>
          if ins = - 1 then Some (0, u')
          else (case exec_one m ins u' of
              None \<Rightarrow> None
            | Some Failed \<Rightarrow> Some (- 1, u')
            | Some (Finished u'') \<Rightarrow> Some (0, u'')
            | Some (Continue u'') \<Rightarrow> unwind_execute_instruction m u''))"
  by pat_completeness auto
termination
proof (relation "measure (\<lambda>(m, u). remaining u)")
  fix m u ins' ins u' r u''
  assume g: "unwind_get_next_byte m u = Some ins'" "(ins, u') = ins'" "ins \<noteq> - 1" "exec_one m ins u' = Some r" "r = Continue u''"
  then have "remaining u \<noteq> 0" using next_byte_end [of u m] by auto
  then show "((m, u''), m, u) \<in> measure (\<lambda>(m, u). remaining u)"
    using g next_byte_remaining [of m u ins u'] exec_one_remaining [of m ins u' u''] by auto
qed simp

declare unwind_execute_instruction.simps [simp del]

section \<open>Frames\<close>

definition exception_return :: "memory \<Rightarrow> u32 \<Rightarrow> unwind_control_block \<Rightarrow> unwind_control_block option" where
  \<comment> \<open>the part of \<open>unwind_frame\<close> for a link register that is an exception return; \<open>psp\<close> is the result of \<open>read_psp\<close>\<close>
  "exception_return m psp u =
     (let vsp = vrs u ! 7 AND NOT 7; u = u\<lparr>vrs := (vrs u)[13 := vsp]\<rparr>;
          stack = (if vrs u ! 15 AND 0xc = 0
                   then (if vrs u ! 15 AND 0xf0 = 0xe0 then vsp - 4 * 2 - 4 * 18 else vsp - 4 * 2)
                   else psp + 4 * 6)
      in do {
           p \<leftarrow> m stack;
           l \<leftarrow> m (stack - 4);
           Some (u\<lparr>vrs := (vrs u)[15 := p, 14 := l]\<rparr>)
         })"

definition unwind_frame :: "exidx \<Rightarrow> memory \<Rightarrow> u32 \<Rightarrow> backtrace_frame \<Rightarrow> (int \<times> backtrace_frame) option" where
  "unwind_frame ex m psp frame =
     do {
       index \<leftarrow> unwind_search_index m (exidx_start ex) 0 (exidx_len ex) (pc frame);
       let insn_at = addr_offset_at (exidx_start ex) index + 4;
       insn \<leftarrow> m insn_at;
       if insn = 0x00000001 then Some (0, frame)
       else do {
         instructions \<leftarrow> (if insn AND 0x80000000 \<noteq> 0 then Some insn_at else prel31_to_addr m insn_at);
         (res, u) \<leftarrow> unwind_control_block_init m instructions (Some frame);
         if res < 0 then Some (- 1, frame)
         else do {
           (execution_result, u) \<leftarrow> unwind_execute_instruction m u;
           if execution_result = - 1 then Some (- 1, frame)
           else do {
             let u = (if vrs u ! 15 = 0 then u\<lparr>vrs := (vrs u)[15 := vrs u ! 14]\<rparr> else u);
             u \<leftarrow> (if vrs u ! 15 AND 0xf0000000 = 0xf0000000 then exception_return m psp u else Some u);
             if pc frame = vrs u ! 15 then Some (0, frame)
             else Some (1, \<lparr>fp = vrs u ! 7, sp = vrs u ! 13, lr = vrs u ! 14, pc = vrs u ! 15\<rparr>)
           }
         }
       }
     }"

section \<open>The backtrace\<close>

definition no_backtrace :: backtrace where
  "no_backtrace = \<lparr>fun_addr = 0, address = 0, fname = None\<rparr>"

definition put_entry :: "nat \<Rightarrow> backtrace \<Rightarrow> backtrace list \<Rightarrow> backtrace list option" where
  "put_entry count e buffer = (if count < length buffer then Some (buffer[count := e]) else None)"

function backtrace_loop :: "exidx \<Rightarrow> memory \<Rightarrow> u32 \<Rightarrow> int \<Rightarrow> nat \<Rightarrow> backtrace list \<Rightarrow> backtrace_frame \<Rightarrow>
    (nat \<times> backtrace list \<times> backtrace_frame) option" where
  "backtrace_loop ex m psp sz count buffer frame =
     (if pc frame = 0 then
        map_option (\<lambda>b. (count + 1, b, frame)) (put_entry count (no_backtrace\<lparr>fname := Some (Literal ''<reached end of unwind table>'')\<rparr>) buffer)
      else if pc frame = 0x00000001 then
        map_option (\<lambda>b. (count + 1, b, frame)) (put_entry count (no_backtrace\<lparr>fname := Some (Literal ''<reached .cantunwind>'')\<rparr>) buffer)
      else
        case do {
          index \<leftarrow> unwind_search_index m (exidx_start ex) 0 (exidx_len ex) (pc frame);
          let frame = frame\<lparr>pc := pc frame AND 0xfffffffe\<rparr>;
          f \<leftarrow> prel31_to_addr m (addr_offset_at (exidx_start ex) index);
          name \<leftarrow> unwind_get_function_name m f;
          buffer \<leftarrow> put_entry count \<lparr>fun_addr = f, address = pc frame, fname = Some name\<rparr> buffer;
          (again, frame) \<leftarrow> unwind_frame ex m psp frame;
          Some (again, buffer, frame)
        } of
          None \<Rightarrow> None
        | Some (again, buffer, frame) \<Rightarrow>
            if again \<noteq> 0 \<and> int (count + 1) < sz then backtrace_loop ex m psp sz (count + 1) buffer frame
            else Some (count + 1, buffer, frame))"
  by pat_completeness auto
termination by (relation "measure (\<lambda>(ex, m, psp, sz, count, buffer, frame). nat (sz - int count))") auto

declare backtrace_loop.simps [simp del]

definition backtrace_unwind :: "exidx \<Rightarrow> memory \<Rightarrow> u32 \<Rightarrow> backtrace list \<Rightarrow> int \<Rightarrow> backtrace_frame \<Rightarrow>
    (nat \<times> backtrace list \<times> backtrace_frame) option" where
  \<comment> \<open>\<open>_backtrace_unwind\<close>; the buffer is the whole array of the caller\<close>
  "backtrace_unwind ex m psp buffer sz frame =
     (if 0 \<le> sz \<and> nat sz \<le> length buffer
      then backtrace_loop ex m psp sz 0 (replicate (nat sz) no_backtrace @ drop (nat sz) buffer) frame
      else None)"

definition backtrace_function_name :: "exidx \<Rightarrow> memory \<Rightarrow> u32 \<Rightarrow> fname option" where
  "backtrace_function_name ex m addr =
     do {
       index \<leftarrow> unwind_search_index m (exidx_start ex) 0 (exidx_len ex) addr;
       f \<leftarrow> prel31_to_addr m (addr_offset_at (exidx_start ex) index);
       unwind_get_function_name m f
     }"

definition BACKTRACE_SIZE :: int where "BACKTRACE_SIZE = 3"

definition do_backtrace :: "exidx \<Rightarrow> memory \<Rightarrow> u32 \<Rightarrow> backtrace list \<Rightarrow> backtrace_frame \<Rightarrow> u32 \<Rightarrow> (nat \<times> (u32 \<times> u32) list \<times> backtrace list) option" where
  \<comment> \<open>\<open>do_backtrace\<close> of \<open>interrupts.c\<close>, from the frame it reads from the registers: the count and the pairs that it prints,
    and its static buffer\<close>
  "do_backtrace ex m psp backtrace_buf frame faulting =
     do {
       (count, backtrace_buf, _) \<leftarrow> backtrace_unwind ex m psp backtrace_buf BACKTRACE_SIZE frame;
       Some (count, map (\<lambda>e. (address e, fun_addr e)) (dropWhile (\<lambda>e. address e \<noteq> faulting) (take count backtrace_buf)), backtrace_buf)
     }"

end
