(* ===== verification/UwSearch.thy ===== *)
theory UwSearch
  imports Unwind
begin

text \<open>
  The search of the unwind index: a linear scan as its reference, and the loop invariant of the binary search.
\<close>

definition index_at :: "memory \<Rightarrow> u32 \<Rightarrow> u32 list \<Rightarrow> bool" where
  \<comment> \<open>the table at an address decodes to the start addresses of functions\<close>
  "index_at m table starts \<longleftrightarrow> (\<forall>i < length starts. prel31_to_addr m (addr_offset_at table i) = Some (starts ! i))"

fun last_entry :: "u32 list \<Rightarrow> u32 \<Rightarrow> nat" where
  \<comment> \<open>scan the table while the next function starts at or below the address\<close>
  "last_entry (a # b # starts) ip = (if b \<le> ip then Suc (last_entry (b # starts) ip) else 0)"
| "last_entry starts ip = 0"

lemma last_entry_unique:
  "r < length starts \<Longrightarrow> \<forall>i. 0 < i \<longrightarrow> i \<le> r \<longrightarrow> starts ! i \<le> ip \<Longrightarrow> (Suc r < length starts \<Longrightarrow> ip < starts ! Suc r) \<Longrightarrow>
    last_entry starts ip = r"
proof (induction starts ip arbitrary: r rule: last_entry.induct)
  case (1 a b starts ip)
  show ?case
  proof (cases r)
    case 0
    then show ?thesis using "1.prems"(3) by auto
  next
    case (Suc q)
    have b: "b \<le> ip" using "1.prems"(2) [rule_format, of 1] Suc by simp
    have "last_entry (b # starts) ip = q"
    proof (rule "1.IH" [OF b])
      show "q < length (b # starts)" using "1.prems"(1) Suc by simp
      show "\<forall>i. 0 < i \<longrightarrow> i \<le> q \<longrightarrow> (b # starts) ! i \<le> ip"
        using "1.prems"(2) Suc by (metis Suc_le_mono nth_Cons_Suc zero_less_Suc)
      show "ip < (b # starts) ! Suc q" if "Suc q < length (b # starts)"
        using "1.prems"(3) Suc that by simp
    qed
    then show ?thesis using b Suc by simp
  qed
qed auto

lemma search_finds:
  assumes m: "index_at m table starts" and s: "sorted starts"
  shows "st < en \<Longrightarrow> en \<le> length starts \<Longrightarrow> \<forall>i. 0 < i \<longrightarrow> i \<le> st \<longrightarrow> starts ! i \<le> ip \<Longrightarrow>
    \<forall>i. en \<le> i \<longrightarrow> i < length starts \<longrightarrow> ip < starts ! i \<Longrightarrow>
    unwind_search_index m table st en ip = Some (last_entry starts ip)"
proof (induction "en - st" arbitrary: st en rule: less_induct)
  case less
  show ?case
  proof (cases "st + 1 < en")
    case False
    then have "last_entry starts ip = st"
      using less.prems by (intro last_entry_unique) auto
    then show ?thesis using False by (subst unwind_search_index.simps) simp
  next
    case True
    define mid where "mid = st + (en - st + 1) div 2"
    have mid: "st < mid" "mid < en" using True by (auto simp: mid_def)
    then have a: "prel31_to_addr m (addr_offset_at table mid) = Some (starts ! mid)"
      using m less.prems(2) by (simp add: index_at_def)
    have step: "unwind_search_index m table st en ip =
        (if ip < starts ! mid then unwind_search_index m table st mid ip else unwind_search_index m table mid en ip)"
      using True a by (subst unwind_search_index.simps) (simp add: mid_def Let_def)
    have mono: "starts ! i \<le> starts ! j" if "i \<le> j" "j < length starts" for i j
      using s that by (simp add: sorted_iff_nth_mono)
    show ?thesis
    proof (cases "ip < starts ! mid")
      case True
      have "\<forall>i. mid \<le> i \<longrightarrow> i < length starts \<longrightarrow> ip < starts ! i"
        using True mono by (meson order_less_le_trans)
      then have "unwind_search_index m table st mid ip = Some (last_entry starts ip)"
        using less.prems mid by (intro less.hyps) auto
      then show ?thesis using step True by simp
    next
      case False
      have "\<forall>i. 0 < i \<longrightarrow> i \<le> mid \<longrightarrow> starts ! i \<le> ip"
        using False mono mid(2) less.prems(2) by (meson leI le_less_trans less_le_trans order_trans)
      then have "unwind_search_index m table mid en ip = Some (last_entry starts ip)"
        using less.prems mid by (intro less.hyps) auto
      then show ?thesis using step False by simp
    qed
  qed
qed

lemma search_last_entry:
  "index_at m table starts \<Longrightarrow> sorted starts \<Longrightarrow> starts \<noteq> [] \<Longrightarrow>
    unwind_search_index m table 0 (length starts) ip = Some (last_entry starts ip)"
  by (rule search_finds) auto

lemma last_entry_less: "starts \<noteq> [] \<Longrightarrow> last_entry starts ip < length starts"
  by (induction starts ip rule: last_entry.induct) auto

section \<open>The unwind table as a stream of bytes\<close>

fun codes :: "memory \<Rightarrow> unwind_control_block \<Rightarrow> int list \<Rightarrow> bool" where
  \<comment> \<open>the bytes that are left to execute\<close>
  "codes m u [] \<longleftrightarrow> remaining u = 0"
| "codes m u (b # bs) \<longleftrightarrow> remaining u \<noteq> 0 \<and> (\<exists>u'. unwind_get_next_byte m u = Some (b, u') \<and> codes m u' bs)"

lemma next_byte_vrs:
  "unwind_get_next_byte m (u\<lparr>vrs := v\<rparr>) = map_option (\<lambda>(b, u'). (b, u'\<lparr>vrs := v\<rparr>)) (unwind_get_next_byte m u)"
  by (cases "m (current u)") (simp_all add: unwind_get_next_byte_def Let_def)

lemma next_byte_keeps: "unwind_get_next_byte m u = Some (b, u') \<Longrightarrow> vrs u' = vrs u \<and> (b = - 1 \<or> 0 \<le> b)"
  by (auto simp: unwind_get_next_byte_def Let_def bind_eq_Some_conv split: if_splits)

lemma codes_vrs [simp]: "codes m (u\<lparr>vrs := v\<rparr>) bs = codes m u bs"
proof (induction bs arbitrary: u)
  case (Cons b bs)
  show ?case by (force simp: next_byte_vrs Cons.IH)
qed simp

definition word_bytes :: "u32 \<Rightarrow> int list" where
  "word_bytes w = map (\<lambda>i. uint (drop_bit (8 * i) w AND 0xff)) [3, 2, 1, 0]"

lemma codes_from_words:
  "(\<forall>i < length ws. m (current u + 4 * of_nat i) = Some (ws ! i)) \<Longrightarrow> byte u \<le> 3 \<Longrightarrow>
    remaining u + (3 - byte u) \<le> 4 * length ws \<Longrightarrow>
    codes m u (take (remaining u) (drop (3 - byte u) (concat (map word_bytes ws))))"
proof (induction "remaining u" arbitrary: u ws)
  case 0
  then show ?case by (metis codes.simps(1) take_0)
next
  case (Suc n)
  then obtain w ws' where ws: "ws = w # ws'" by (cases ws) auto
  have m: "m (current u) = Some w" using Suc.prems(1) ws by auto
  define u' where "u' = (if byte u = 0 then u\<lparr>current := current u + 4, byte := 3\<rparr> else u\<lparr>byte := byte u - 1\<rparr>)\<lparr>remaining := n\<rparr>"
  have step: "unwind_get_next_byte m u = Some (uint (drop_bit (8 * byte u) w AND 0xff), u')"
    using m Suc.hyps(2) by (auto simp: unwind_get_next_byte_def u'_def Let_def)
  let ?bs = "concat (map word_bytes ws)"
  have l: "length (concat (map word_bytes ws)) = 4 * length ws" for ws by (induction ws) (auto simp: word_bytes_def)
  have hd: "drop (3 - byte u) ?bs = uint (drop_bit (8 * byte u) w AND 0xff) # drop (Suc (3 - byte u)) ?bs"
  proof -
    have "?bs ! (3 - byte u) = uint (drop_bit (8 * byte u) w AND 0xff)"
      using Suc.prems(2) by (auto simp: ws word_bytes_def nth_append le_Suc_eq numeral_3_eq_3)
    then show ?thesis
      using Cons_nth_drop_Suc [of "3 - byte u" ?bs] l [of ws] ws by simp
  qed
  have "codes m u' (take n (drop (Suc (3 - byte u)) ?bs))"
  proof (cases "byte u = 0")
    case True
    have "codes m u' (take (remaining u') (drop (3 - byte u') (concat (map word_bytes ws'))))"
      using Suc.prems ws True
      by (intro Suc.hyps(1)) (auto simp: u'_def Suc.hyps(2) [symmetric] algebra_simps dest: spec [of _ "Suc _"])
    then show ?thesis using True ws by (simp add: u'_def word_bytes_def)
  next
    case False
    have "codes m u' (take (remaining u') (drop (3 - byte u') (concat (map word_bytes ws))))"
      using Suc.prems False by (intro Suc.hyps(1)) (auto simp: u'_def Suc.hyps(2) [symmetric])
    moreover have "3 - byte u' = Suc (3 - byte u)" using False Suc.prems(2) by (auto simp: u'_def)
    ultimately show ?thesis by (simp add: u'_def)
  qed
  then show ?case using step hd Suc.hyps(2) [symmetric] by (simp del: word_bytes_def)
qed

end
