(* ===== verification/UwPro.thy ===== *)
theory UwPro
  imports UwSearch
begin

text \<open>
  The specification the unwind instructions are written against: a machine that executes the prologue of a
  function, the instructions an assembler emits for it (the exception handling ABI for the Arm architecture),
  and the proof that the unwinder takes the prologue back, step by step.
\<close>

section \<open>Prologues\<close>

datatype pro =
    Push u32  \<comment> \<open>the registers of a mask over \<open>r4\<close> to \<open>r15\<close>\<close>
  | Push_range nat bool  \<comment> \<open>\<open>r4\<close> and some registers behind it, with or without \<open>lr\<close>\<close>
  | Vpush "u32 list"  \<comment> \<open>\<open>d8\<close> and some registers behind it, given as words\<close>
  | Locals "u32 list"  \<comment> \<open>room for local variables, given by what they hold when the stack is unwound\<close>
  | Set_fp  \<comment> \<open>\<open>mov r7, sp\<close>\<close>

record machine =
  regs :: "nat \<Rightarrow> u32"
  mem :: memory

primrec mask_regs :: "nat \<Rightarrow> u32 \<Rightarrow> nat \<Rightarrow> nat list" where
  "mask_regs 0 msk reg = []"
| "mask_regs (Suc k) msk reg = (if msk AND 1 \<noteq> 0 then [reg] else []) @ mask_regs k (drop_bit 1 msk) (reg + 1)"

fun pushed :: "pro \<Rightarrow> nat list" where
  "pushed (Push msk) = mask_regs 12 msk 4"
| "pushed (Push_range n l) = [4 ..< 5 + n] @ (if l then [14] else [])"
| "pushed _ = []"

fun contents :: "pro \<Rightarrow> (nat \<Rightarrow> u32) \<Rightarrow> u32 list" where
  "contents (Vpush ws) g = ws"
| "contents (Locals ws) g = ws"
| "contents p g = map g (pushed p)"

primrec store_words :: "memory \<Rightarrow> u32 \<Rightarrow> u32 list \<Rightarrow> memory" where
  "store_words m a [] = m"
| "store_words m a (w # ws) = (store_words m (a + 4) ws)(a := Some w)"

definition run_pro :: "pro \<Rightarrow> machine \<Rightarrow> machine" where
  "run_pro p s =
     (let ws = contents p (regs s); a = regs s 13 - 4 * of_nat (length ws); g = (regs s)(13 := a)
      in s\<lparr>mem := store_words (mem s) a ws, regs := (if p = Set_fp then g(7 := a) else g)\<rparr>)"

fun emit :: "pro \<Rightarrow> int list" where
  "emit (Push msk) = [0x80 OR uint (drop_bit 8 msk), uint (msk AND 0xff)]"
| "emit (Push_range n l) = [(if l then 0xa8 else 0xa0) OR int n]"
| "emit (Vpush ws) = [0xd0 OR int (length ws div 2 - 1)]"
| "emit (Locals ws) = (if length ws \<le> 64 then [int (length ws - 1)] else [0xb2, int (length ws - 129)])"
| "emit Set_fp = [0x97]"

definition emit_all :: "pro list \<Rightarrow> int list" where
  \<comment> \<open>the last step of the prologue is taken back first\<close>
  "emit_all ps = concat (rev (map emit ps))"

section \<open>What the unwinder knows\<close>

fun undo :: "pro \<Rightarrow> nat set \<Rightarrow> nat set" where
  "undo Set_fp K = K - {7}"
| "undo p K = K \<union> set (pushed p)"

fun known :: "pro list \<Rightarrow> nat set \<Rightarrow> nat set" where
  "known [] K = K"
| "known (p # ps) K = undo p (known ps K)"

fun pro_ok :: "pro \<Rightarrow> bool" where
  "pro_ok (Push msk) \<longleftrightarrow> msk \<noteq> 0 \<and> msk AND 0x5ff = msk"  \<comment> \<open>neither \<open>r13\<close> nor \<open>r15\<close>\<close>
| "pro_ok (Push_range n l) \<longleftrightarrow> n < 8"
| "pro_ok (Vpush ws) \<longleftrightarrow> (\<exists>n < 8. length ws = 2 * (n + 1))"
| "pro_ok (Locals ws) \<longleftrightarrow> ws \<noteq> [] \<and> length ws \<le> 64 \<or> 129 \<le> length ws \<and> length ws \<le> 256"
| "pro_ok Set_fp \<longleftrightarrow> True"

fun pros_ok :: "pro list \<Rightarrow> nat set \<Rightarrow> bool" where
  "pros_ok [] K \<longleftrightarrow> 13 \<in> K"
| "pros_ok (p # ps) K \<longleftrightarrow> pros_ok ps K \<and> pro_ok p \<and> (p = Set_fp \<longrightarrow> 7 \<in> known ps K)"

definition pro_words :: "pro \<Rightarrow> nat" where
  "pro_words p = length (contents p (\<lambda>_. 0))"

primrec words :: "pro list \<Rightarrow> nat" where
  "words [] = 0"
| "words (p # ps) = pro_words p + words ps"

definition agree :: "nat set \<Rightarrow> u32 list \<Rightarrow> (nat \<Rightarrow> u32) \<Rightarrow> bool" where
  \<comment> \<open>the virtual registers of the set are those of the machine, and the virtual pc is not set yet\<close>
  "agree K v g \<longleftrightarrow> length v = 16 \<and> v ! 15 = 0 \<and> K \<subseteq> {..<15} \<and> (\<forall>r \<in> K. v ! r = g r)"

lemma length_contents [simp]: "length (contents p g) = pro_words p"
  by (cases p) (auto simp: pro_words_def)

lemma pro_words_Set_fp [simp]: "pro_words Set_fp = 0"
  by (simp add: pro_words_def)

lemma known_sp: "pros_ok ps K \<Longrightarrow> 13 \<in> known ps K"
proof (induction ps)
  case (Cons p ps)
  then show ?case by (cases p) auto
qed simp

section \<open>The stack\<close>

definition loads :: "memory \<Rightarrow> u32 \<Rightarrow> u32 list \<Rightarrow> bool" where
  "loads m a ws \<longleftrightarrow> (\<forall>i < length ws. m (a + 4 * of_nat i) = Some (ws ! i))"

lemma loads_Cons: "loads m a (w # ws) \<longleftrightarrow> m a = Some w \<and> loads m (a + 4) ws"
  unfolding loads_def by (auto simp: less_Suc_eq_0_disj algebra_simps)

lemma loads_Nil [simp]: "loads m a []"
  by (simp add: loads_def)

lemma loads_append: "loads m a (ws @ vs) \<longleftrightarrow> loads m a ws \<and> loads m (a + 4 * of_nat (length ws)) vs"
  by (induction ws arbitrary: a) (auto simp: loads_Cons algebra_simps)

lemma slots_distinct:
  assumes "i < 2 ^ 30" "j < 2 ^ 30" "(a :: u32) + 4 * of_nat i = a + 4 * of_nat j"
  shows "i = j"
proof -
  have "(of_nat (4 * i) :: u32) = of_nat (4 * j)" using assms(3) by simp
  then have "take_bit 32 (4 * i) = take_bit 32 (4 * j)" by (simp only: word_of_nat_eq_iff) simp
  then show ?thesis using assms(1,2) by (simp add: take_bit_nat_eq_self)
qed

lemma store_words_outside: "(\<forall>i < length ws. b \<noteq> a + 4 * of_nat i) \<Longrightarrow> store_words m a ws b = m b"
proof (induction ws arbitrary: a)
  case (Cons w ws)
  have "b \<noteq> a" using Cons.prems by auto
  moreover have "\<forall>i < length ws. b \<noteq> (a + 4) + 4 * of_nat i"
    using Cons.prems by (auto simp: algebra_simps dest: spec [of _ "Suc _"])
  ultimately show ?case using Cons.IH by simp
qed simp

lemma store_words_loads: "length ws \<le> 2 ^ 30 \<Longrightarrow> loads (store_words m a ws) a ws"
proof (induction ws arbitrary: a)
  case (Cons w ws)
  have "a + 4 + 4 * of_nat i \<noteq> a" if "i < length ws" for i
    using slots_distinct [of "Suc i" 0 a] that Cons.prems by (auto simp: algebra_simps)
  moreover have "loads (store_words m (a + 4) ws) (a + 4) ws" using Cons by simp
  ultimately show ?case by (simp add: loads_Cons) (simp add: loads_def)
qed simp

lemma run_pro_regs: "regs (run_pro p s) 13 = regs s 13 - 4 * of_nat (pro_words p)"
  "r \<noteq> 13 \<Longrightarrow> (p = Set_fp \<Longrightarrow> r \<noteq> 7) \<Longrightarrow> regs (run_pro p s) r = regs s r"
  by (simp_all add: run_pro_def Let_def)

lemma run_pro_mem: "mem (run_pro p s) = store_words (mem s) (regs (run_pro p s) 13) (contents p (regs s))"
  by (simp add: run_pro_def Let_def)

definition run_pros :: "pro list \<Rightarrow> machine \<Rightarrow> machine" where
  "run_pros ps s = fold run_pro ps s"

lemma run_pros_simps [simp]: "run_pros [] s = s" "run_pros (p # ps) s = run_pros ps (run_pro p s)"
  by (simp_all add: run_pros_def)

lemma run_pros_sp: "regs (run_pros ps s) 13 = regs s 13 - 4 * of_nat (words ps)"
  by (induction ps arbitrary: s) (simp_all add: run_pro_regs algebra_simps)

lemma run_pros_above: "words ps + k < 2 ^ 30 \<Longrightarrow> mem (run_pros ps s) (regs s 13 + 4 * of_nat k) = mem s (regs s 13 + 4 * of_nat k)"
proof (induction ps arbitrary: s k)
  case (Cons p ps)
  let ?n = "pro_words p" and ?s = "run_pro p s"
  have a: "regs s 13 + 4 * of_nat k = regs ?s 13 + 4 * of_nat (?n + k)" by (simp add: run_pro_regs algebra_simps)
  have "mem (run_pros ps ?s) (regs ?s 13 + 4 * of_nat (?n + k)) = mem ?s (regs ?s 13 + 4 * of_nat (?n + k))"
    using Cons.prems by (intro Cons.IH) simp
  also have "\<dots> = mem s (regs ?s 13 + 4 * of_nat (?n + k))"
  proof -
    have "regs ?s 13 + 4 * of_nat (?n + k) \<noteq> regs ?s 13 + 4 * of_nat i" if "i < ?n" for i
      using slots_distinct [of "?n + k" i "regs ?s 13"] that Cons.prems by auto
    then show ?thesis unfolding run_pro_mem by (intro store_words_outside) simp
  qed
  finally show ?case by (simp only: a run_pros_simps)
qed simp

lemma run_pros_loads:
  assumes "words (p # ps) < 2 ^ 30"
  shows "loads (mem (run_pros ps (run_pro p s))) (regs (run_pro p s) 13) (contents p (regs s))"
proof -
  let ?s = "run_pro p s"
  have "loads (mem ?s) (regs ?s 13) (contents p (regs s))"
    using assms store_words_loads [of "contents p (regs s)"] by (simp add: run_pro_def Let_def)
  then show ?thesis
    using assms run_pros_above [of ps _ ?s] by (simp add: loads_def)
qed

end
