(* ===== verification/UwUndo.thy ===== *)
theory UwUndo
  imports UwPro
begin

text \<open>
  One unwind instruction takes back one step of a prologue, and so the instructions of a prologue take it back
  as a whole.
\<close>

section \<open>Popping registers\<close>

fun pop_list :: "memory \<Rightarrow> nat list \<Rightarrow> u32 \<Rightarrow> unwind_control_block \<Rightarrow> (u32 \<times> unwind_control_block) option" where
  "pop_list m [] vsp u = Some (vsp, u)"
| "pop_list m (r # rs) vsp u = do { v \<leftarrow> m vsp; u \<leftarrow> set_vrs r v u; pop_list m rs (vsp + 4) u }"

lemma pop_range_list: "pop_range m n reg vsp = pop_list m [reg ..< reg + n] vsp"
  by (induction n arbitrary: reg vsp) (auto simp: upt_conv_Cons simp del: upt_Suc intro!: ext)

lemma mask_regs_0 [simp]: "mask_regs k 0 reg = []"
  by (induction k arbitrary: reg) auto

lemma pop_masked_list:
  "unat msk < 2 ^ k \<Longrightarrow> pop_masked m msk reg vsp u =
    map_option (\<lambda>(vsp, u). (0, vsp, u)) (pop_list m (mask_regs k msk reg) vsp u)"
proof (induction k arbitrary: msk reg vsp u)
  case 0
  then have "msk = 0" by (simp add: unat_eq_0)
  then show ?case by (subst pop_masked.simps) simp
next
  case (Suc k)
  have "unat (drop_bit 1 msk) < 2 ^ k"
    using Suc.prems unat_drop_bit_1 [of msk] by simp
  then have IH: "pop_masked m (drop_bit 1 msk) reg vsp u =
      map_option (\<lambda>(vsp, u). (0, vsp, u)) (pop_list m (mask_regs k (drop_bit 1 msk) reg) vsp u)" for reg vsp u
    using Suc by simp
  show ?case
  proof (cases "msk = 0")
    case True
    then show ?thesis by (subst pop_masked.simps) simp
  next
    case False
    then show ?thesis
      by (subst pop_masked.simps) (auto simp: IH [unfolded One_nat_def] split: option.split)
  qed
qed

lemma pop_list_loads:
  "loads m vsp (map g rs) \<Longrightarrow> (\<forall>r \<in> set rs. r < length (vrs u)) \<Longrightarrow>
    \<exists>v. pop_list m rs vsp u = Some (vsp + 4 * of_nat (length rs), u\<lparr>vrs := v\<rparr>) \<and> length v = length (vrs u) \<and>
      (\<forall>r. v ! r = (if r \<in> set rs then g r else vrs u ! r))"
proof (induction rs arbitrary: vsp u)
  case Nil
  have "u = u\<lparr>vrs := vrs u\<rparr>" by simp
  then show ?case by (auto intro: exI [of _ "vrs u"])
next
  case (Cons r rs)
  let ?u = "u\<lparr>vrs := (vrs u)[r := g r]\<rparr>"
  obtain v where v: "pop_list m rs (vsp + 4) ?u = Some (vsp + 4 + 4 * of_nat (length rs), ?u\<lparr>vrs := v\<rparr>)"
    "length v = length (vrs ?u)" "\<forall>r'. v ! r' = (if r' \<in> set rs then g r' else vrs ?u ! r')"
    using Cons.IH [of "vsp + 4" ?u] Cons.prems by (auto simp: loads_Cons)
  have "m vsp = Some (g r)" "r < length (vrs u)" using Cons.prems by (auto simp: loads_Cons)
  then show ?case
    using v by (intro exI [of _ v]) (auto simp: set_vrs_def algebra_simps nth_list_update)
qed

lemma pop_list_append: "pop_list m (rs @ qs) vsp u = pop_list m rs vsp u \<bind> (\<lambda>(vsp, u). pop_list m qs vsp u)"
  by (induction rs arbitrary: vsp u) (auto split: Option.bind_split)

section \<open>One instruction\<close>

lemma execute_first:
  assumes "codes m u (b # bs)" and "b \<noteq> - 1"
  obtains u1 where "codes m u1 bs" "vrs u1 = vrs u"
    "\<And>u2. exec_one m b u1 = Some (Continue u2) \<Longrightarrow> unwind_execute_instruction m u = unwind_execute_instruction m u2"
    "\<And>u2. exec_one m b u1 = Some (Finished u2) \<Longrightarrow> unwind_execute_instruction m u = Some (0, u2)"
proof -
  obtain u1 where u1: "unwind_get_next_byte m u = Some (b, u1)" "codes m u1 bs" using assms(1) by auto
  show thesis
  proof (rule that [of u1])
    show "codes m u1 bs" by fact
    show "vrs u1 = vrs u" using next_byte_keeps [OF u1(1)] by simp
    show "unwind_execute_instruction m u = unwind_execute_instruction m u2" if "exec_one m b u1 = Some (Continue u2)" for u2
      using that u1(1) assms(2) by (subst unwind_execute_instruction.simps) simp
    show "unwind_execute_instruction m u = Some (0, u2)" if "exec_one m b u1 = Some (Finished u2)" for u2
      using that u1(1) assms(2) by (subst unwind_execute_instruction.simps) simp
  qed
qed

section \<open>The encodings\<close>

lemma small_int_masks:
  assumes "0 \<le> n" "n < 64"
  shows "(n :: int) AND 0xc0 = 0" "n AND 0x3f = n"
proof -
  have *: "\<forall>k \<in> set [0 ..< 64]. int k AND 0xc0 = 0 \<and> int k AND 0x3f = int k" by code_simp
  have "nat n \<in> set [0 ..< 64]" using assms by auto
  from * [rule_format, OF this] show "n AND 0xc0 = 0" "n AND 0x3f = n" using assms by simp_all
qed

lemma range_ins:
  assumes "n < 8"
  shows "((if l then 0xa8 else 0xa0) OR int n) AND 0xc0 = 0x80" "((if l then 0xa8 else 0xa0) OR int n) AND 0xf0 = 0xa0"
    "((if l then 0xa8 else 0xa0) OR int n) AND 7 = int n" "((if l then 0xa8 else 0xa0) OR int n) AND 8 = (if l then 8 else 0)"
    "((if l then 0xa8 else 0xa0) OR int n) \<noteq> - 1"
proof -
  have *: "\<forall>n \<in> set [0 ..< 8]. \<forall>l. ((if l then 0xa8 else 0xa0) OR int n) AND 0xc0 = 0x80 \<and> ((if l then 0xa8 else 0xa0) OR int n) AND 0xf0 = 0xa0 \<and>
      ((if l then 0xa8 else 0xa0) OR int n) AND 7 = int n \<and> ((if l then 0xa8 else 0xa0) OR int n) AND 8 = (if l then 8 else 0) \<and>
      ((if l then 0xa8 else 0xa0) OR int n) \<noteq> - 1" by code_simp
  have "n \<in> set [0 ..< 8]" using assms by simp
  from * [rule_format, OF this, of l]
  show "((if l then 0xa8 else 0xa0) OR int n) AND 0xc0 = 0x80" "((if l then 0xa8 else 0xa0) OR int n) AND 0xf0 = 0xa0"
    "((if l then 0xa8 else 0xa0) OR int n) AND 7 = int n" "((if l then 0xa8 else 0xa0) OR int n) AND 8 = (if l then 8 else 0)"
    "((if l then 0xa8 else 0xa0) OR int n) \<noteq> - 1" by simp_all
qed

lemma vpush_ins:
  assumes "n < 8"
  shows "(0xd0 OR int n) AND 0xc0 = 0xc0" "(0xd0 OR int n) AND 0xf0 = 0xd0" "(0xd0 OR int n) AND 0xf8 = 0xd0"
    "(0xd0 OR int n) AND 7 = int n" "0xd0 \<le> 0xd0 OR int n"
proof -
  have *: "\<forall>n \<in> set [0 ..< 8]. (0xd0 OR int n) AND 0xc0 = 0xc0 \<and> (0xd0 OR int n) AND 0xf0 = 0xd0 \<and> (0xd0 OR int n) AND 0xf8 = 0xd0 \<and>
      (0xd0 OR int n) AND 7 = int n \<and> 0xd0 \<le> 0xd0 OR int n" by code_simp
  have "n \<in> set [0 ..< 8]" using assms by simp
  from * [rule_format, OF this] show "(0xd0 OR int n) AND 0xc0 = 0xc0" "(0xd0 OR int n) AND 0xf0 = 0xd0" "(0xd0 OR int n) AND 0xf8 = 0xd0"
    "(0xd0 OR int n) AND 7 = int n" "0xd0 \<le> 0xd0 OR int n" by simp_all
qed

lemma push_bytes:
  "push_bit 8 (0x80 OR uint (drop_bit 8 msk)) OR uint (msk AND 0xff) = 0x8000 OR uint (msk :: u32)"
proof (rule bit_eqI)
  fix n
  have c: "(0x80 :: int) = push_bit 7 1" "(0x8000 :: int) = push_bit 15 1" "(0xff :: u32) = mask 8" by (simp_all add: mask_eq_exp_minus_1)
  show "bit (push_bit 8 (0x80 OR uint (drop_bit 8 msk)) OR uint (msk AND 0xff)) n = bit (0x8000 OR uint msk) n"
    unfolding c by (cases "n < 8") (auto simp: bit_simps not_less dest: bit_imp_le_length)
qed
lemma push_mask:
  assumes "msk AND 0x5ff = (msk :: u32)"
  shows "word_of_int ((0x8000 OR uint msk) AND 0xfff) = msk" "msk \<noteq> 0 \<Longrightarrow> 0x8000 OR uint msk \<noteq> 0x8000" "unat msk < 2 ^ 12"
   "(0x80 OR uint (drop_bit 8 msk)) AND 0xc0 = 0x80"  "(0x80 OR uint (drop_bit 8 msk)) AND 0xf0 = 0x80" "0x80 OR uint (drop_bit 8 msk) \<noteq> - 1"
proof -
  have a: "word_of_int ((0x8000 OR uint msk) AND 0xfff) = (0x8000 OR msk) AND 0xfff" 
    by (simp add: of_int_and_eq of_int_or_eq)
  also have "\<dots> = (0x8000 OR (msk AND 0x5ff)) AND 0xfff" using assms by simp
  also have "\<dots> = msk AND 0x5ff" by (simp add: bit.conj_disj_distrib2 and.assoc)
  finally show m: "word_of_int ((0x8000 OR uint msk) AND 0xfff) = msk" using assms by simp
  show "0x8000 OR uint msk \<noteq> 0x8000" if "msk \<noteq> 0"
  proof
    assume "0x8000 OR uint msk = 0x8000"
    then show False using m that by simp
  qed
  have "msk \<le> 0x5ff" using assms word_and_le1 [of msk "0x5ff"] by simp
  then have l: "unat msk \<le> 0x5ff" by (simp add: word_le_nat_alt)
  then show "unat msk < 2 ^ 12" by simp
  define k where "k = unat msk div 256"
  have u: "uint (drop_bit 8 msk) = int k"
  proof -
    have "unat (drop_bit 8 msk) = k" unfolding k_def using unat_drop_bit_eq [of 8 msk] by (simp add: drop_bit_eq_div)
    then show ?thesis by (metis of_nat_unat)
  qed
  have k: "k \<in> set [0 ..< 8]" using l by (simp add: k_def)
  have "\<forall>k \<in> set [0 ..< 8]. (0x80 OR int k) AND 0xc0 = 0x80 \<and> (0x80 OR int k) AND 0xf0 = 0x80 \<and> 0x80 OR int k \<noteq> - 1" by code_simp
  from this [rule_format, OF k] show "(0x80 OR uint (drop_bit 8 msk)) AND 0xc0 = 0x80"  "(0x80 OR uint (drop_bit 8 msk)) AND 0xf0 = 0x80"
    "0x80 OR uint (drop_bit 8 msk) \<noteq> - 1" by (simp_all add: u)
qed

lemma mask_regs_set: "r \<in> set (mask_regs k msk reg) \<longleftrightarrow> reg \<le> r \<and> r < reg + k \<and> bit msk (r - reg)"
proof (induction k arbitrary: msk reg)
  case (Suc k)
  have "msk AND 1 \<noteq> 0 \<longleftrightarrow> bit msk 0" by (simp add: and_one_eq bit_0 odd_iff_mod_2_eq_one)
  moreover have "r - reg = Suc (r - Suc reg)" if "Suc reg \<le> r" using that by simp
  ultimately show ?case using Suc.IH [of "drop_bit 1 msk" "reg + 1"] by (cases "r = reg") (auto simp: bit_simps)
qed simp

section \<open>One step of the prologue\<close>

lemma agree_pop:
  assumes a: "agree K (vrs u) (regs (run_pro p s))" and p: "p \<noteq> Set_fp" and "set (pushed p) \<subseteq> {..<15}"
    and v: "length v = length (vrs u)" "\<forall>r. v ! r = (if r \<in> set (pushed p) then regs s r else vrs u ! r)"
  shows "agree (undo p K) (v[13 := regs s 13]) (regs s)"
proof -
  have "undo p K = K \<union> set (pushed p)" using p by (cases p) auto
  moreover have "v[13 := regs s 13] ! r = regs s r" if "r \<in> K \<union> set (pushed p)" for r
    using a that v p run_pro_regs(2) [of r p s] by (cases "r = 13") (auto simp: agree_def)
  moreover have "v ! 15 = 0" using a v(2) assms(3) by (auto simp: agree_def)
  ultimately show ?thesis using a v(1) assms(3) by (auto simp: agree_def)
qed

lemma undo_step:
  assumes c: "codes m u (emit p @ bs)" and ok: "pro_ok p" and sp: "13 \<in> K" and f: "p = Set_fp \<Longrightarrow> 7 \<in> K"
    and l: "loads m (regs (run_pro p s) 13) (contents p (regs s))" and a: "agree K (vrs u) (regs (run_pro p s))"
  obtains u' where "unwind_execute_instruction m u = unwind_execute_instruction m u'" "codes m u' bs" "agree (undo p K) (vrs u') (regs s)"
proof -
  have vsp: "vrs u ! 13 = regs (run_pro p s) 13" using a sp by (simp add: agree_def)
  have top: "regs s 13 = vrs u ! 13 + 4 * of_nat (pro_words p)" using vsp by (simp add: run_pro_regs)
  have len: "length (vrs u) = 16" using a by (simp add: agree_def)
  show thesis
  proof (cases p)
    case (Locals ws)
    have ag: "agree (undo p K) ((vrs u)[13 := regs s 13]) (regs s)"
      using a Locals by (intro agree_pop [of K u]) auto
    show thesis
    proof (cases "length ws \<le> 64")
      case True
      then have n: "0 \<le> int (length ws - 1)" "int (length ws - 1) < 64" by auto
      obtain u1 where u1: "codes m u1 bs" "vrs u1 = vrs u"
        "\<And>u2. exec_one m (int (length ws - 1)) u1 = Some (Continue u2) \<Longrightarrow> unwind_execute_instruction m u = unwind_execute_instruction m u2"
      proof (rule execute_first)
        show "codes m u (int (length ws - 1) # bs)" using c Locals True by simp
      qed auto
      have "(4 :: u32) * of_nat (length ws) = word_of_int (push_bit 2 (int (length ws - 1)) + 4)"
        using ok Locals by (cases ws) (auto simp: push_bit_eq_mult algebra_simps)
      then have "exec_one m (int (length ws - 1)) u1 = Some (Continue (u1\<lparr>vrs := (vrs u)[13 := regs s 13]\<rparr>))"
        using small_int_masks [OF n] top u1(2) Locals by (simp add: exec_one_def pro_words_def)
      then show thesis using that [of "u1\<lparr>vrs := (vrs u)[13 := regs s 13]\<rparr>"] u1 ag by simp
    next
      case False
      then have n: "129 \<le> length ws" using ok Locals by simp
      obtain u1 where u1: "codes m u1 (int (length ws - 129) # bs)" "vrs u1 = vrs u"
        "\<And>u2. exec_one m 0xb2 u1 = Some (Continue u2) \<Longrightarrow> unwind_execute_instruction m u = unwind_execute_instruction m u2"
      proof (rule execute_first)
        show "codes m u (0xb2 # int (length ws - 129) # bs)" using c Locals False by simp
      qed auto
      obtain u2 where u2: "unwind_get_next_byte m u1 = Some (int (length ws - 129), u2)" "codes m u2 bs" using u1(1) by auto
      have "(4 :: u32) * of_nat (length ws) = word_of_int (0x204 + push_bit 2 (int (length ws - 129)))"
        using n by (simp add: push_bit_eq_mult of_nat_diff algebra_simps)
      then have "exec_one m 0xb2 u1 = Some (Continue (u2\<lparr>vrs := (vrs u)[13 := regs s 13]\<rparr>))"
        using top u1(2) u2(1) next_byte_keeps [OF u2(1)] Locals by (simp add: exec_one_def pro_words_def)
      then show thesis using that [of "u2\<lparr>vrs := (vrs u)[13 := regs s 13]\<rparr>"] u1(3) u2(2) ag by simp
    qed
  next
    case (Vpush ws)
    then obtain n where n: "n < 8" "length ws = 2 * (n + 1)" using ok by auto
    obtain u1 where u1: "codes m u1 bs" "vrs u1 = vrs u"
      "\<And>u2. exec_one m (0xd0 OR int n) u1 = Some (Continue u2) \<Longrightarrow> unwind_execute_instruction m u = unwind_execute_instruction m u2"
    proof (rule execute_first)
      show "codes m u ((0xd0 OR int n) # bs)" using c Vpush n by simp
    qed (use vpush_ins(5) [OF n(1)] in auto)
    have ag: "agree (undo p K) ((vrs u)[13 := regs s 13]) (regs s)"
      using a Vpush by (intro agree_pop [of K u]) auto
    have "(4 :: u32) * of_nat (length ws) = 4 * word_of_int (2 * (int n + 1))"
      using n by simp
    then have "exec_one m (0xd0 OR int n) u1 = Some (Continue (u1\<lparr>vrs := (vrs u)[13 := regs s 13]\<rparr>))"
      using vpush_ins [OF n(1)] top u1(2) Vpush by (auto simp: exec_one_def pro_words_def)
    then show thesis using that [of "u1\<lparr>vrs := (vrs u)[13 := regs s 13]\<rparr>"] u1 ag by simp
  next
    case Set_fp
    obtain u1 where u1: "codes m u1 bs" "vrs u1 = vrs u"
      "\<And>u2. exec_one m 0x97 u1 = Some (Continue u2) \<Longrightarrow> unwind_execute_instruction m u = unwind_execute_instruction m u2"
    proof (rule execute_first)
      show "codes m u (0x97 # bs)" using c Set_fp by simp
    qed auto
    have "vrs u ! 7 = regs (run_pro p s) 7" using a f Set_fp by (simp add: agree_def)
    moreover have "regs (run_pro Set_fp s) 7 = regs s 13" by (simp add: run_pro_def Let_def)
    ultimately have "vrs u ! 7 = regs s 13" using Set_fp by simp
    then have "exec_one m 0x97 u1 = Some (Continue (u1\<lparr>vrs := (vrs u)[13 := regs s 13]\<rparr>))"
      using u1(2) by (simp add: exec_one_def)
    moreover have "agree (undo p K) ((vrs u)[13 := regs s 13]) (regs s)"
      using a run_pro_regs(2) [of _ p s] len Set_fp by (auto simp: agree_def nth_list_update)
    ultimately show thesis using that [of "u1\<lparr>vrs := (vrs u)[13 := regs s 13]\<rparr>"] u1 by simp
  next
    case (Push msk)
    then have m: "msk AND 0x5ff = msk" "msk \<noteq> 0" using ok by auto
    have r: "set (pushed p) \<subseteq> {..<15}"
    proof
      fix r assume "r \<in> set (pushed p)"
      then have b: "4 \<le> r" "r < 16" "bit (msk AND 0x5ff) (r - 4)" using m(1) Push by (auto simp: mask_regs_set)
      have "\<not> bit (0x5ff :: u32) 11" by simp
      then have "r \<noteq> 15" using b(3) by (auto simp: bit_simps)
      then show "r \<in> {..<15}" using b(2) by simp
    qed
    let ?i = "0x80 OR uint (drop_bit 8 msk)"
    obtain u1 where u1: "codes m u1 (uint (msk AND 0xff) # bs)" "vrs u1 = vrs u"
      "\<And>u2. exec_one m ?i u1 = Some (Continue u2) \<Longrightarrow> unwind_execute_instruction m u = unwind_execute_instruction m u2"
    proof (rule execute_first)
      show "codes m u (?i # uint (msk AND 0xff) # bs)" using c Push by simp
    qed (use push_mask(6) [OF m(1)] in auto)
    obtain u2 where u2: "unwind_get_next_byte m u1 = Some (uint (msk AND 0xff), u2)" "codes m u2 bs" using u1(1) by auto
    have v2: "vrs u2 = vrs u" using next_byte_keeps [OF u2(1)] u1(2) by simp
    have "loads m (vrs u2 ! 13) (map (regs s) (pushed p))" "pro_words p = length (pushed p)"
      using l vsp v2 Push by (simp_all add: pro_words_def)
    then obtain v where v: "pop_list m (pushed p) (vrs u2 ! 13) u2 = Some (regs s 13, u2\<lparr>vrs := v\<rparr>)" "length v = length (vrs u2)"
      "\<forall>r. v ! r = (if r \<in> set (pushed p) then regs s r else vrs u2 ! r)"
      using pop_list_loads [of m "vrs u2 ! 13" "regs s" "pushed p" u2] r len v2 top by fastforce
    have "pop_masked m msk 4 (vrs u1 ! 13) u2 = Some (0, regs s 13, u2\<lparr>vrs := v\<rparr>)"
      using v(1) pop_masked_list [OF push_mask(3) [OF m(1)], of m 4] Push v2 u1(2) by simp
    then have "exec_one m ?i u1 = Some (Continue (u2\<lparr>vrs := v[13 := regs s 13]\<rparr>))"
      using push_mask [OF m(1)] m(2) u2(1) push_bytes [of msk] by (simp add: exec_one_def Let_def)
    moreover have "agree (undo p K) (v[13 := regs s 13]) (regs s)"
      using v v2 by (intro agree_pop [OF a _ r]) (auto simp: Push)
    ultimately show thesis using that [of "u2\<lparr>vrs := v[13 := regs s 13]\<rparr>"] u1(3) u2(2) by simp
  next
    case (Push_range n l')
    then have n: "n < 8" using ok by simp
    let ?i = "(if l' then 0xa8 else 0xa0) OR int n"
    have r: "set (pushed p) \<subseteq> {..<15}" using n Push_range by auto
    obtain u1 where u1: "codes m u1 bs" "vrs u1 = vrs u"
      "\<And>u2. exec_one m ?i u1 = Some (Continue u2) \<Longrightarrow> unwind_execute_instruction m u = unwind_execute_instruction m u2"
    proof (rule execute_first)
      show "codes m u (?i # bs)" using c Push_range by simp
    qed (use range_ins(5) [OF n] in auto)
    have "loads m (vrs u1 ! 13) (map (regs s) (pushed p))" "pro_words p = length (pushed p)"
      using l vsp u1(2) Push_range by (simp_all add: pro_words_def)
    then obtain v where v: "pop_list m (pushed p) (vrs u1 ! 13) u1 = Some (regs s 13, u1\<lparr>vrs := v\<rparr>)" "length v = length (vrs u1)"
      "\<forall>r. v ! r = (if r \<in> set (pushed p) then regs s r else vrs u1 ! r)"
      using pop_list_loads [of m "vrs u1 ! 13" "regs s" "pushed p" u1] r len u1(2) top by fastforce
    have "exec_one m ?i u1 = Some (Continue (u1\<lparr>vrs := v[13 := regs s 13]\<rparr>))"
    proof -
      have "pop_range m (Suc n) 4 (vrs u1 ! 13) u1 \<bind> (\<lambda>(vsp, u). if l' then pop_range m 1 14 vsp u else Some (vsp, u)) = Some (regs s 13, u1\<lparr>vrs := v\<rparr>)"
        using v(1) Push_range by (cases l') (simp_all only: pop_range_list pop_list_append pushed.simps if_True if_False append_Nil2, simp_all)
      then show ?thesis
        using range_ins [OF n, of l'] by (auto simp: exec_one_def Let_def bind_eq_Some_conv simp del: pop_range.simps split: if_splits)
    qed
    moreover have "agree (undo p K) (v[13 := regs s 13]) (regs s)"
      using v u1(2) by (intro agree_pop [OF a _ r]) (auto simp: Push_range)
    ultimately show thesis using that [of "u1\<lparr>vrs := v[13 := regs s 13]\<rparr>"] u1(1,3) by simp
  qed
qed

section \<open>The prologue as a whole\<close>

lemma emit_all_Cons: "emit_all (p # ps) = emit_all ps @ emit p"
  by (simp add: emit_all_def)

definition same_stack :: "memory \<Rightarrow> nat \<Rightarrow> machine \<Rightarrow> bool" where
  \<comment> \<open>the memory holds what the machine has on top of its stack\<close>
  "same_stack m n s \<longleftrightarrow> (\<forall>k < n. m (regs s 13 + 4 * of_nat k) = mem s (regs s 13 + 4 * of_nat k))"

lemma same_stackD: "same_stack m n s \<Longrightarrow> k < n \<Longrightarrow> m (regs s 13 + 4 * of_nat k) = mem s (regs s 13 + 4 * of_nat k)"
  by (simp add: same_stack_def)

lemma undo_pros:
  assumes "pros_ok ps K" "words ps < 2 ^ 30" "codes m u (emit_all ps @ bs)" "same_stack m (words ps) (run_pros ps s)"
    "agree K (vrs u) (regs (run_pros ps s))"
  shows "\<exists>u'. unwind_execute_instruction m u = unwind_execute_instruction m u' \<and> codes m u' bs \<and> agree (known ps K) (vrs u') (regs s)"
  using assms
proof (induction ps arbitrary: s bs)
  case Nil
  then show ?case by (auto simp: emit_all_def)
next
  case (Cons p ps)
  let ?s = "run_pro p s"
  have "same_stack m (words ps) (run_pros ps ?s)" using Cons.prems(4) by (simp add: same_stack_def)
  then obtain u1 where u1: "unwind_execute_instruction m u = unwind_execute_instruction m u1" "codes m u1 (emit p @ bs)"
    "agree (known ps K) (vrs u1) (regs ?s)"
    using Cons.IH [of "emit p @ bs" ?s] Cons.prems by (auto simp: emit_all_Cons)
  have l: "loads m (regs ?s 13) (contents p (regs s))"
    unfolding loads_def
  proof (intro allI impI)
    fix i assume i: "i < length (contents p (regs s))"
    let ?a = "regs ?s 13 + 4 * of_nat i"
    have a: "?a = regs (run_pros ps ?s) 13 + 4 * of_nat (words ps + i)" by (simp add: run_pros_sp algebra_simps)
    have "same_stack m (pro_words p + words ps) (run_pros ps ?s)" using Cons.prems(4) by simp
    then have "m ?a = mem (run_pros ps ?s) ?a" unfolding a by (rule same_stackD) (use i in simp)
    also have "\<dots> = Some (contents p (regs s) ! i)" using run_pros_loads [OF Cons.prems(2), of s] i by (simp add: loads_def)
    finally show "m ?a = Some (contents p (regs s) ! i)" .
  qed
  obtain u2 where "unwind_execute_instruction m u1 = unwind_execute_instruction m u2" "codes m u2 bs" "agree (undo p (known ps K)) (vrs u2) (regs s)"
  proof (rule undo_step [OF u1(2) _ _ _ l u1(3)])
    show "pro_ok p" "13 \<in> known ps K" "p = Set_fp \<Longrightarrow> 7 \<in> known ps K" using Cons.prems(1) known_sp [of ps K] by auto
  qed
  then show ?case using u1(1) by auto
qed

definition ends_there :: "int list \<Rightarrow> bool" where
  \<comment> \<open>no byte is left, or the next one is \<open>finish\<close>\<close>
  "ends_there bs \<longleftrightarrow> bs = [] \<or> hd bs = 0xb0"

lemma execute_end:
  assumes "codes m u bs" and "ends_there bs" and "length (vrs u) = 16" "vrs u ! 15 = 0"
  shows "\<exists>u'. unwind_execute_instruction m u = Some (0, u') \<and> (vrs u' = vrs u \<or> vrs u' = (vrs u)[15 := vrs u ! 14])"
proof (cases "bs = []")
  case True
  then have "unwind_get_next_byte m u = Some (- 1, u)" using assms(1) by (simp add: next_byte_end)
  then show ?thesis by (subst unwind_execute_instruction.simps) simp
next
  case False
  then obtain bs' where bs: "bs = 0xb0 # bs'" using assms(2) by (cases bs) (auto simp: ends_there_def)
  obtain u1 where u1: "vrs u1 = vrs u" "\<And>u2. exec_one m 0xb0 u1 = Some (Finished u2) \<Longrightarrow> unwind_execute_instruction m u = Some (0, u2)"
    using assms(1) unfolding bs by (rule execute_first) auto
  have "exec_one m 0xb0 u1 = Some (Finished (u1\<lparr>vrs := (vrs u1)[15 := vrs u1 ! 14]\<rparr>))"
    using assms u1(1) by (simp add: exec_one_def)
  then show ?thesis using u1 by auto
qed

end
