(* ===== verification/UwChain.thy ===== *)
theory UwChain
  imports UwUndo
begin

text \<open>
  Whole frames: the bytes of an unwind table, one frame of a call, and the chain of the calls on a stack.
\<close>

section \<open>Unwind tables\<close>

definition table_bytes :: "memory \<Rightarrow> u32 \<Rightarrow> int list option" where
  \<comment> \<open>the instructions of a table in short or long form\<close>
  "table_bytes m a =
     do {
       w \<leftarrow> m a;
       if w AND 0xff000000 = 0x80000000 then Some (take 3 (drop 1 (word_bytes w)))
       else if w AND 0xff000000 = 0x81000000 then
         let n = unat (drop_bit 14 (w AND 0x00ff0000)) + 2 in do {
           ws \<leftarrow> those (map (\<lambda>i. m (a + 4 * of_nat i)) [0 ..< (n + 5) div 4]);
           Some (take n (drop 2 (concat (map word_bytes ws))))
         }
       else None
     }"

lemma those_nth: "those xs = Some ys \<Longrightarrow> length ys = length xs \<and> (\<forall>i < length xs. xs ! i = Some (ys ! i))"
proof (induction xs arbitrary: ys)
  case (Cons x xs)
  then show ?case by (auto split: option.splits simp: less_Suc_eq_0_disj)
qed simp

lemma init_codes:
  assumes "table_bytes m a = Some bs"
  shows "\<exists>u. unwind_control_block_init m a (Some f) = Some (0, u) \<and> codes m u bs \<and>
    vrs u = (replicate 16 0)[7 := fp f, 13 := sp f, 14 := lr f]"
proof -
  obtain w where w: "m a = Some w" using assms by (auto simp: table_bytes_def bind_eq_Some_conv)
  let ?v = "(replicate 16 0)[7 := fp f, 13 := sp f, 14 := lr f]"
  have v: "(replicate 16 0)[7 := fp f, 13 := sp f, 14 := lr f, 15 := 0] = ?v"
    by (rule list_update_same_conv [THEN iffD2]) simp_all
  show ?thesis
  proof (cases "w AND 0xff000000 = 0x80000000")
    case True
    let ?u = "\<lparr>vrs = ?v, current = a, remaining = 3, byte = 2\<rparr>"
    have "codes m ?u (take (remaining ?u) (drop (3 - byte ?u) (concat (map word_bytes [w]))))"
      using w by (intro codes_from_words) auto
    moreover have "bs = take 3 (drop 1 (word_bytes w))" using assms w True by (simp add: table_bytes_def)
    ultimately show ?thesis
      using True w v by (intro exI [of _ ?u]) (simp add: unwind_control_block_init_def Let_def)
  next
    case False
    then have long: "w AND 0xff000000 = 0x81000000" using assms w by (auto simp: table_bytes_def split: if_splits)
    define n where "n = unat (drop_bit 14 (w AND 0x00ff0000)) + 2"
    obtain ws where ws: "those (map (\<lambda>i. m (a + 4 * of_nat i)) [0 ..< (n + 5) div 4]) = Some ws"
      "bs = take n (drop 2 (concat (map word_bytes ws)))"
      using assms w long by (auto simp: table_bytes_def n_def Let_def bind_eq_Some_conv)
    let ?u = "\<lparr>vrs = ?v, current = a, remaining = n, byte = 1\<rparr>"
    have "codes m ?u (take (remaining ?u) (drop (3 - byte ?u) (concat (map word_bytes ws))))"
      using those_nth [OF ws(1)] by (intro codes_from_words) auto
    then have "codes m ?u bs" using ws(2) by (simp add: numeral_2_eq_2)
    then show ?thesis
      using long w v by (intro exI [of _ ?u]) (simp add: unwind_control_block_init_def Let_def n_def)
  qed
qed

section \<open>One frame\<close>

record unwind_index =
  places :: exidx
  starts :: "u32 list"  \<comment> \<open>the start addresses the entries decode to\<close>

definition index_ok :: "unwind_index \<Rightarrow> memory \<Rightarrow> bool" where
  "index_ok ix m \<longleftrightarrow> index_at m (exidx_start (places ix)) (starts ix) \<and> exidx_len (places ix) = length (starts ix) \<and>
     sorted (starts ix) \<and> starts ix \<noteq> []"

definition insn_place :: "unwind_index \<Rightarrow> u32 \<Rightarrow> u32" where
  \<comment> \<open>the address of the unwind information of an instruction\<close>
  "insn_place ix x = addr_offset_at (exidx_start (places ix)) (last_entry (starts ix) x) + 4"

definition covered :: "unwind_index \<Rightarrow> memory \<Rightarrow> u32 \<Rightarrow> pro list \<Rightarrow> bool" where
  \<comment> \<open>the unwind table for an instruction is the one for a prologue\<close>
  "covered ix m x ps \<longleftrightarrow> (\<exists>insn a bs. m (insn_place ix x) = Some insn \<and> insn \<noteq> 1 \<and>
     (if insn AND 0x80000000 \<noteq> 0 then Some (insn_place ix x) else prel31_to_addr m (insn_place ix x)) = Some a \<and>
     table_bytes m a = Some (emit_all ps @ bs) \<and> ends_there bs)"

definition frame_of :: "backtrace_frame \<Rightarrow> nat set \<Rightarrow> machine \<Rightarrow> bool" where
  "frame_of f K s \<longleftrightarrow> K \<subseteq> {7, 13, 14} \<and> (7 \<in> K \<longrightarrow> fp f = regs s 7) \<and> (13 \<in> K \<longrightarrow> sp f = regs s 13) \<and> (14 \<in> K \<longrightarrow> lr f = regs s 14)"

definition prologue_ok :: "pro list \<Rightarrow> nat set \<Rightarrow> bool" where
  \<comment> \<open>frame pointer, stack pointer and link register of the caller can be recovered\<close>
  "prologue_ok ps K \<longleftrightarrow> pros_ok ps K \<and> {7, 13, 14} \<subseteq> known ps K \<and> words ps < 2 ^ 30"

lemma unwind_frame_undo:
  assumes ix: "index_ok ix m" and cov: "covered ix m (pc f) ps" and ok: "prologue_ok ps K"
    and fr: "frame_of f K (run_pros ps s)" and st: "same_stack m (words ps) (run_pros ps s)"
    and ret: "regs s 14 AND 0xf0000000 \<noteq> 0xf0000000" "pc f \<noteq> regs s 14"
  shows "unwind_frame (places ix) m psp f = Some (1, \<lparr>fp = regs s 7, sp = regs s 13, lr = regs s 14, pc = regs s 14\<rparr>)"
proof -
  obtain insn a bs where c: "m (insn_place ix (pc f)) = Some insn" "insn \<noteq> 1"
    "(if insn AND 0x80000000 \<noteq> 0 then Some (insn_place ix (pc f)) else prel31_to_addr m (insn_place ix (pc f))) = Some a"
    "table_bytes m a = Some (emit_all ps @ bs)" "ends_there bs"
    using cov by (auto simp: covered_def)
  obtain u where u: "unwind_control_block_init m a (Some f) = Some (0, u)" "codes m u (emit_all ps @ bs)"
    "vrs u = (replicate 16 0)[7 := fp f, 13 := sp f, 14 := lr f]"
    using init_codes [OF c(4)] by blast
  have ag: "agree K (vrs u) (regs (run_pros ps s))"
    using fr unfolding u(3) agree_def frame_of_def by (auto simp: nth_list_update)
  obtain u1 where u1: "unwind_execute_instruction m u = unwind_execute_instruction m u1" "codes m u1 bs"
    "agree (known ps K) (vrs u1) (regs s)"
    using undo_pros [OF _ _ u(2) st ag] ok unfolding prologue_ok_def by blast
  have v: "length (vrs u1) = 16" "vrs u1 ! 15 = 0" "vrs u1 ! 7 = regs s 7" "vrs u1 ! 13 = regs s 13" "vrs u1 ! 14 = regs s 14"
    using u1(3) ok by (auto simp: agree_def prologue_ok_def)
  obtain u2 where u2: "unwind_execute_instruction m u1 = Some (0, u2)" "vrs u2 = vrs u1 \<or> vrs u2 = (vrs u1)[15 := vrs u1 ! 14]"
    using execute_end [OF u1(2) c(5) v(1,2)] by blast
  have w: "vrs u2 ! 15 = 0 \<or> vrs u2 ! 15 = regs s 14" "vrs u2 ! 7 = regs s 7" "vrs u2 ! 13 = regs s 13" "vrs u2 ! 14 = regs s 14"
    "length (vrs u2) = 16"
    using v u2(2) by auto
  have "unwind_search_index m (exidx_start (places ix)) 0 (exidx_len (places ix)) (pc f) = Some (last_entry (starts ix) (pc f))"
    using ix by (simp add: index_ok_def search_last_entry)
  then show ?thesis
    using c u(1) u1(1) u2(1) w ret
    by (cases "vrs u2 ! 15 = 0"; cases "insn AND 0x80000000 = 0") (simp_all add: unwind_frame_def insn_place_def [symmetric] Let_def)
qed

lemma unwind_frame_stops:
  assumes "index_ok ix m" and "m (insn_place ix (pc f)) = Some 1"
  shows "unwind_frame (places ix) m psp f = Some (0, f)"
  using assms by (simp add: unwind_frame_def index_ok_def search_last_entry insn_place_def)

section \<open>A chain of calls\<close>

type_synonym call = "pro list \<times> u32"  \<comment> \<open>the prologue of the callee and its return address\<close>

fun state_of :: "call list \<Rightarrow> machine \<Rightarrow> machine" where
  \<comment> \<open>the machine inside the innermost call, which comes first\<close>
  "state_of [] s = s"
| "state_of ((ps, ret) # cs) s = run_pros ps ((state_of cs s)\<lparr>regs := (regs (state_of cs s))(14 := ret)\<rparr>)"

fun chain_words :: "call list \<Rightarrow> nat" where
  "chain_words [] = 0"
| "chain_words ((ps, ret) # cs) = words ps + chain_words cs"

definition even_pc :: "u32 \<Rightarrow> u32" where "even_pc x = x AND 0xfffffffe"

fun chain_ok :: "unwind_index \<Rightarrow> memory \<Rightarrow> u32 \<Rightarrow> nat set \<Rightarrow> call list \<Rightarrow> bool" where
  \<comment> \<open>from an instruction of the innermost function: every function has its unwind table, return addresses
    are those of Thumb code, and the outermost function is marked as the end\<close>
  "chain_ok ix m x K [] \<longleftrightarrow> x \<noteq> 0 \<and> x \<noteq> 1 \<and> m (insn_place ix (even_pc x)) = Some 1"
| "chain_ok ix m x K ((ps, ret) # cs) \<longleftrightarrow> x \<noteq> 0 \<and> x \<noteq> 1 \<and> covered ix m (even_pc x) ps \<and> prologue_ok ps K \<and>
     ret AND 0xf0000000 \<noteq> 0xf0000000 \<and> bit ret 0 \<and> chain_ok ix m ret {7, 13} cs"

definition named :: "unwind_index \<Rightarrow> memory \<Rightarrow> bool" where
  \<comment> \<open>the word in front of every function can be read\<close>
  "named ix m \<longleftrightarrow> (\<forall>a \<in> set (starts ix). m (a - 4) \<noteq> None)"

definition entry_of :: "unwind_index \<Rightarrow> memory \<Rightarrow> u32 \<Rightarrow> backtrace" where
  "entry_of ix m x = (let a = starts ix ! last_entry (starts ix) x
     in \<lparr>fun_addr = a, address = even_pc x, fname = unwind_get_function_name m a\<rparr>)"

lemma even_pc_ne: "bit y 0 \<Longrightarrow> even_pc x \<noteq> y"
  by (auto simp: even_pc_def bit_simps)

lemma same_stack_caller:
  assumes "same_stack m (words ps + n) (run_pros ps s)" "words ps + n < 2 ^ 30"
  shows "same_stack m n s"
  unfolding same_stack_def
proof (intro allI impI)
  fix k assume k: "k < n"
  let ?a = "regs s 13 + 4 * of_nat k"
  have a: "?a = regs (run_pros ps s) 13 + 4 * of_nat (words ps + k)" by (simp add: run_pros_sp algebra_simps)
  have "m ?a = mem (run_pros ps s) ?a" unfolding a by (rule same_stackD [OF assms(1)]) (use k in simp)
  also have "\<dots> = mem s ?a" using k assms(2) by (intro run_pros_above) simp
  finally show "m ?a = mem s ?a" .
qed

lemma same_stack_less: "same_stack m n s \<Longrightarrow> k \<le> n \<Longrightarrow> same_stack m k s"
  by (simp add: same_stack_def)

lemma loop_round:
  assumes ix: "index_ok ix m" and n: "named ix m" and x: "pc f \<noteq> 0" "pc f \<noteq> 1" and c: "count < length buffer"
    and u: "unwind_frame (places ix) m psp (f\<lparr>pc := even_pc (pc f)\<rparr>) = Some (r, f')"
  shows "backtrace_loop (places ix) m psp sz count buffer f =
    (if r \<noteq> 0 \<and> int (count + 1) < sz then backtrace_loop (places ix) m psp sz (count + 1) (buffer[count := entry_of ix m (pc f)]) f'
     else Some (count + 1, buffer[count := entry_of ix m (pc f)], f'))"
proof -
  let ?i = "last_entry (starts ix) (pc f)"
  have s: "unwind_search_index m (exidx_start (places ix)) 0 (exidx_len (places ix)) (pc f) = Some ?i"
    using ix by (simp add: index_ok_def search_last_entry)
  have i: "?i < length (starts ix)" using ix by (simp add: index_ok_def last_entry_less)
  then have a: "prel31_to_addr m (addr_offset_at (exidx_start (places ix)) ?i) = Some (starts ix ! ?i)"
    using ix by (simp add: index_ok_def index_at_def)
  obtain nm where nm: "unwind_get_function_name m (starts ix ! ?i) = Some nm"
  proof -
    have "m (starts ix ! ?i - 4) \<noteq> None" using n nth_mem [OF i] by (simp add: named_def)
    then show thesis using that by (auto simp: unwind_get_function_name_def)
  qed
  show ?thesis
    using x c s a nm u
    by (subst backtrace_loop.simps) (simp add: put_entry_def entry_of_def Let_def even_pc_def)
qed

lemma loop_chain:
  assumes ix: "index_ok ix m" and n: "named ix m"
  shows "chain_ok ix m (pc f) K cs \<Longrightarrow> frame_of f K (state_of cs s) \<Longrightarrow> same_stack m (chain_words cs) (state_of cs s) \<Longrightarrow>
    chain_words cs < 2 ^ 30 \<Longrightarrow> int count < sz \<Longrightarrow> sz \<le> int (length buffer) \<Longrightarrow>
    \<exists>f'. backtrace_loop (places ix) m psp sz count buffer f =
      (let es = take (nat sz - count) (map (entry_of ix m) (pc f # map snd cs))
       in Some (count + length es, take count buffer @ es @ drop (count + length es) buffer, f'))"
proof (induction cs arbitrary: f K count buffer)
  case Nil
  have "backtrace_loop (places ix) m psp sz count buffer f = Some (count + 1, buffer[count := entry_of ix m (pc f)], f\<lparr>pc := even_pc (pc f)\<rparr>)"
    using Nil loop_round [OF ix n _ _ _ unwind_frame_stops [OF ix, of "f\<lparr>pc := even_pc (pc f)\<rparr>"], of count buffer psp sz] by simp
  moreover have "take (nat sz - count) (map (entry_of ix m) (pc f # map snd [])) = [entry_of ix m (pc f)]"
    using Nil.prems(5) by (cases "nat sz - count") auto
  ultimately show ?case
    using Nil.prems(5,6) by (simp add: Let_def upd_conv_take_nth_drop)
next
  case (Cons c cs)
  obtain ps ret where c: "c = (ps, ret)" by (cases c)
  let ?s = "(state_of cs s)\<lparr>regs := (regs (state_of cs s))(14 := ret)\<rparr>"
  let ?f = "f\<lparr>pc := even_pc (pc f)\<rparr>"
  let ?f' = "\<lparr>fp = regs ?s 7, sp = regs ?s 13, lr = regs ?s 14, pc = regs ?s 14\<rparr>"
  have u: "unwind_frame (places ix) m psp ?f = Some (1, ?f')"
  proof (rule unwind_frame_undo [OF ix])
    show "covered ix m (pc ?f) ps" "prologue_ok ps K" "regs ?s 14 AND 0xf0000000 \<noteq> 0xf0000000" using Cons.prems(1) c by simp_all
    show "frame_of ?f K (run_pros ps ?s)" using Cons.prems(2) c by (simp add: frame_of_def)
    show "same_stack m (words ps) (run_pros ps ?s)" using Cons.prems(3) c by (simp add: same_stack_less)
    show "pc ?f \<noteq> regs ?s 14" using Cons.prems(1) c even_pc_ne by simp
  qed
  let ?b = "buffer[count := entry_of ix m (pc f)]"
  have len: "count < length buffer" using Cons.prems(5,6) by simp
  have step: "backtrace_loop (places ix) m psp sz count buffer f =
      (if int (count + 1) < sz then backtrace_loop (places ix) m psp sz (count + 1) ?b ?f' else Some (count + 1, ?b, ?f'))"
    using loop_round [OF ix n _ _ len u, of sz] Cons.prems(1) c by simp
  have b: "?b = take count buffer @ entry_of ix m (pc f) # drop (Suc count) buffer" using len by (rule upd_conv_take_nth_drop)
  show ?case
  proof (cases "int (count + 1) < sz")
    case False
    then have "nat sz - count = 1" using Cons.prems(5) by simp
    then show ?thesis using step False b by (simp add: Let_def)
  next
    case True
    have st: "same_stack m (chain_words cs) (state_of cs s)"
      using same_stack_caller [of m ps "chain_words cs" ?s] Cons.prems(3,4) c by (simp add: same_stack_def)
    have "\<exists>f'. backtrace_loop (places ix) m psp sz (count + 1) ?b ?f' =
      (let es = take (nat sz - (count + 1)) (map (entry_of ix m) (pc ?f' # map snd cs))
       in Some (count + 1 + length es, take (count + 1) ?b @ es @ drop (count + 1 + length es) ?b, f'))"
      using Cons.prems c True st by (intro Cons.IH [of _ "{7, 13}"]) (auto simp: frame_of_def)
    moreover have "nat sz - count = Suc (nat sz - (count + 1))" using True by simp
    moreover have "take (count + 1) ?b = take count buffer @ [entry_of ix m (pc f)]" using b len by simp
    moreover have "drop (count + 1 + k) ?b = drop (count + 1 + k) buffer" for k using len by simp
    ultimately show ?thesis using step True c by (simp add: Let_def)
  qed
qed

end
