(* ===== verification/UwTotal.thy ===== *)
theory UwTotal
  imports UwChain
begin

text \<open>
  When the unwinder has a defined result. Over memory in which no read faults there is one way out of its arrays: an instruction that pops
  under a mask of \<open>r0\<close> to \<open>r3\<close> as the last byte of a table. The mask is then the -1 of \<open>unwind_get_next_byte\<close>, all 32 bits are set, and the loop
  writes behind the sixteen registers.
\<close>

section \<open>Pops\<close>

definition mapped :: "memory \<Rightarrow> bool" where
  "mapped m \<longleftrightarrow> (\<forall>a. m a \<noteq> None)"

lemma mappedD: "mapped m \<Longrightarrow> \<exists>v. m a = Some v"
  by (simp add: mapped_def)

lemma prel_total: "mapped m \<Longrightarrow> \<exists>a. prel31_to_addr m x = Some a"
  by (auto simp: prel31_to_addr_def dest: mappedD)

lemma name_total: "mapped m \<Longrightarrow> \<exists>n. unwind_get_function_name m a = Some n"
  using mappedD [of m "a - 4"] by (auto simp: unwind_get_function_name_def)

lemma pop_masked_total:
  assumes "mapped m"
  shows "unat msk < 2 ^ k \<Longrightarrow> reg + k \<le> length (vrs u) \<Longrightarrow>
    \<exists>vsp' v. pop_masked m msk reg vsp u = Some (0, vsp', u\<lparr>vrs := v\<rparr>) \<and> length v = length (vrs u)"
proof (induction k arbitrary: msk reg vsp u)
  case 0
  then have "msk = 0" by (simp add: unat_eq_0)
  then show ?case by (subst pop_masked.simps) (auto intro: exI [of _ "vrs u"])
next
  case (Suc k)
  show ?case
  proof (cases "msk = 0")
    case True
    then show ?thesis by (subst pop_masked.simps) (auto intro: exI [of _ "vrs u"])
  next
    case False
    have d: "unat (drop_bit 1 msk) < 2 ^ k" using Suc.prems unat_drop_bit_1 [of msk] by simp
    obtain x where x: "m vsp = Some x" using mappedD [OF assms] by blast
    show ?thesis
    proof (cases "msk AND 1 \<noteq> 0")
      case True
      have "reg < length (vrs u)" using Suc.prems(2) by simp
      then have "pop_masked m msk reg vsp u = pop_masked m (drop_bit 1 msk) (reg + 1) (vsp + 4) (u\<lparr>vrs := (vrs u)[reg := x]\<rparr>)"
        using True False x by (subst pop_masked.simps) (simp add: set_vrs_def)
      then show ?thesis using Suc.IH [OF d, of "reg + 1" "u\<lparr>vrs := (vrs u)[reg := x]\<rparr>" "vsp + 4"] Suc.prems(2) by auto
    next
      case False
      then have "pop_masked m msk reg vsp u = pop_masked m (drop_bit 1 msk) (reg + 1) vsp u"
        using \<open>msk \<noteq> 0\<close> by (subst pop_masked.simps) simp
      then show ?thesis using Suc.IH [OF d, of "reg + 1" u vsp] Suc.prems(2) by auto
    qed
  qed
qed

lemma pop_range_total:
  assumes "mapped m"
  shows "reg + n \<le> length (vrs u) \<Longrightarrow>
    \<exists>vsp' v. pop_range m n reg vsp u = Some (vsp', u\<lparr>vrs := v\<rparr>) \<and> length v = length (vrs u)"
proof (induction n arbitrary: reg vsp u)
  case 0
  then show ?case by (auto intro: exI [of _ "vrs u"])
next
  case (Suc n)
  obtain x where x: "m vsp = Some x" using mappedD [OF assms] by blast
  have "reg < length (vrs u)" using Suc.prems by simp
  then show ?case
    using x Suc.IH [of "reg + 1" "u\<lparr>vrs := (vrs u)[reg := x]\<rparr>" "vsp + 4"] Suc.prems by (auto simp: set_vrs_def)
qed

text \<open>The loop over a mask of 32 ones writes the seventeenth register.\<close>

lemma pop_masked_overruns:
  assumes "reg \<le> length (vrs u)" and "\<forall>k \<le> length (vrs u) - reg. drop_bit k msk AND 1 \<noteq> 0"
  shows "pop_masked m msk reg vsp u = None"
  using assms
proof (induction "length (vrs u) - reg" arbitrary: msk reg vsp u)
  case 0
  then have "msk AND 1 \<noteq> 0" "\<not> reg < length (vrs u)" by auto
  then show ?case by (subst pop_masked.simps) (auto simp: set_vrs_def split: option.split)
next
  case (Suc n)
  have one: "msk AND 1 \<noteq> 0" "msk \<noteq> 0" using Suc.prems(2) by auto
  have "drop_bit k (drop_bit 1 msk) AND 1 \<noteq> 0" if "k \<le> length (vrs u) - (reg + 1)" for k
  proof -
    have "drop_bit (k + 1) msk AND 1 \<noteq> 0" using Suc.hyps(2) that by (intro Suc.prems(2) [rule_format]) linarith
    then show ?thesis by (simp only: drop_bit_drop_bit not_False_eq_True)
  qed
  then have "pop_masked m (drop_bit 1 msk) (reg + 1) (vsp + 4) (u\<lparr>vrs := (vrs u)[reg := x]\<rparr>) = None" for x
    using Suc.hyps(2) by (intro Suc.hyps(1)) auto
  then show ?case using one by (subst pop_masked.simps) (auto simp: set_vrs_def split: option.split)
qed

section \<open>The stream of instructions\<close>

definition ready_block :: "memory \<Rightarrow> unwind_control_block \<Rightarrow> bool" where
  \<comment> \<open>sixteen registers, and instructions left that do not end with the pop of \<open>r0\<close> to \<open>r3\<close>\<close>
  "ready_block m u \<longleftrightarrow> length (vrs u) = 16 \<and> (\<exists>bs. codes m u bs \<and> (bs \<noteq> [] \<longrightarrow> last bs \<noteq> 0xb1))"

lemma ready_vrs [simp]: "length v = 16 \<Longrightarrow> ready_block m u \<Longrightarrow> ready_block m (u\<lparr>vrs := v\<rparr>)"
  by (simp add: ready_block_def)

lemma ready_length [simp]: "ready_block m u \<Longrightarrow> length (vrs u) = 16"
  by (simp add: ready_block_def)

lemma uint_byte: "uint (w AND 0xff :: u32) < 256"
proof -
  have "uint (w AND 0xff) = uint w AND 255" by (simp add: uint_and)
  also have "\<dots> \<le> 255" by simp
  finally show ?thesis by simp
qed

lemma next_byte_range:
  "unwind_get_next_byte m u = Some (b, u') \<Longrightarrow> b < 256 \<and> (if remaining u = 0 then b = - 1 else 0 \<le> b)"
  using uint_byte by (auto simp: unwind_get_next_byte_def Let_def bind_eq_Some_conv split: if_splits)

lemma next_byte_ready:
  assumes "ready_block m u"
  obtains b u' where "unwind_get_next_byte m u = Some (b, u')" "ready_block m u'" "vrs u' = vrs u" "- 1 \<le> b" "b < 256"
    "remaining u = 0 \<Longrightarrow> b = - 1" "remaining u \<noteq> 0 \<Longrightarrow> 0 \<le> b" "b = 0xb1 \<Longrightarrow> remaining u' \<noteq> 0"
proof (cases "remaining u = 0")
  case True
  then show thesis using assms next_byte_end [of u m] by (intro that [of "- 1" u]) auto
next
  case False
  obtain bs where bs: "codes m u bs" "bs \<noteq> [] \<longrightarrow> last bs \<noteq> 0xb1" using assms by (auto simp: ready_block_def)
  then obtain b cs where c: "bs = b # cs" using False by (cases bs) auto
  then obtain u' where u': "unwind_get_next_byte m u = Some (b, u')" "codes m u' cs" using bs(1) by auto
  have v: "vrs u' = vrs u" using next_byte_keeps [OF u'(1)] by simp
  show thesis
  proof (rule that [OF u'(1)])
    show "ready_block m u'" using assms u'(2) v bs(2) c by (auto simp: ready_block_def)
    show "remaining u' \<noteq> 0" if "b = 0xb1" using that bs(2) c u'(2) by (cases cs) auto
  qed (use v next_byte_range [OF u'(1)] False in auto)
qed

section \<open>One instruction\<close>

definition well_ended :: "memory \<Rightarrow> exec_result option \<Rightarrow> bool" where
  \<comment> \<open>the instruction has a result, behind which the block is fit for the next one\<close>
  "well_ended m r \<longleftrightarrow> (case r of None \<Rightarrow> False | Some Failed \<Rightarrow> True | Some (Continue u) \<Rightarrow> ready_block m u | Some (Finished u) \<Rightarrow> ready_block m u)"

lemma well_ended_simps [simp]:
  "well_ended m (Some (Continue u)) = ready_block m u" "well_ended m (Some (Finished u)) = ready_block m u" "well_ended m (Some Failed)"
  by (simp_all add: well_ended_def)

lemma unat_mask_12: "unat (word_of_int (k AND 0xfff) :: u32) < 2 ^ 12"
proof -
  have "0 \<le> k AND 0xfff" "k AND 0xfff \<le> 0xfff" by simp_all
  then show ?thesis by (simp add: unat_eq_nat_uint uint_word_of_int_eq take_bit_int_eq_self nat_less_iff)
qed

lemma unat_byte: "0 \<le> b \<Longrightarrow> b < 256 \<Longrightarrow> unat (word_of_int b :: u32) < 2 ^ 8"
  by (simp add: unat_eq_nat_uint uint_word_of_int_eq take_bit_int_eq_self nat_less_iff)

named_theorems ended

lemma if_ended [ended]: "(c \<Longrightarrow> well_ended m a) \<Longrightarrow> (\<not> c \<Longrightarrow> well_ended m b) \<Longrightarrow> well_ended m (if c then a else b)"
  by simp

lemma byte_ended [ended]:
  assumes "ready_block m u"
    and "\<And>b u'. ready_block m u' \<Longrightarrow> vrs u' = vrs u \<Longrightarrow> b < 256 \<Longrightarrow> (remaining u \<noteq> 0 \<Longrightarrow> 0 \<le> b) \<Longrightarrow> well_ended m (g b u')"
  shows "well_ended m (unwind_get_next_byte m u \<bind> (\<lambda>(b, u). g b u))"
proof -
  obtain b u' where "unwind_get_next_byte m u = Some (b, u')" "ready_block m u'" "vrs u' = vrs u" "b < 256" "remaining u \<noteq> 0 \<Longrightarrow> 0 \<le> b"
    using next_byte_ready [OF assms(1)] by metis
  then show ?thesis using assms(2) by simp
qed

lemma mask_ended:
  assumes "mapped m" and "ready_block m u" and "unat msk < 2 ^ k \<and> reg + k \<le> 16"
    and "\<And>vsp' v. length v = 16 \<Longrightarrow> well_ended m (g 0 vsp' (u\<lparr>vrs := v\<rparr>))"
  shows "well_ended m (pop_masked m msk reg vsp u \<bind> (\<lambda>(msk, vsp, u). g msk vsp u))"
  using pop_masked_total [OF assms(1), of msk k reg u vsp] assms(2-4) by auto

lemma range_ended [ended]:
  assumes "mapped m" and "ready_block m u" and "reg + n \<le> 16"
    and "\<And>vsp' v. length v = 16 \<Longrightarrow> well_ended m (g vsp' (u\<lparr>vrs := v\<rparr>))"
  shows "well_ended m (pop_range m n reg vsp u \<bind> (\<lambda>(vsp, u). g vsp u))"
  using pop_range_total [OF assms(1), of reg n u vsp] assms(2-4) by auto

lemma link_ended [ended]:
  assumes "mapped m" and "ready_block m u" and "\<And>vsp' v. length v = 16 \<Longrightarrow> well_ended m (g vsp' (u\<lparr>vrs := v\<rparr>))"
  shows "well_ended m ((if c then pop_range m 1 14 vsp u else Some (vsp, u)) \<bind> (\<lambda>(vsp, u). g vsp u))"
  using range_ended [of m u 14 1 g vsp] assms assms(3) [of "vrs u" vsp] by auto

lemma exec_one_total:
  assumes "mapped m" and "ready_block m u" and "0 \<le> ins" and "ins = 0xb1 \<Longrightarrow> remaining u \<noteq> 0"
  shows "well_ended m (exec_one m ins u)"
proof -
  have n: "4 + (nat (ins AND 7) + 1) \<le> 16"
  proof -
    have "ins AND 7 \<le> 7" by simp
    then show ?thesis by linarith
  qed
  have m8: "unat (word_of_int b :: u32) < 2 ^ 8 \<and> 0 + 8 \<le> (16 :: nat)" if "ins = 0xb1" "b < 256" "remaining u \<noteq> 0 \<Longrightarrow> 0 \<le> b" for b
    using that assms(4) unat_byte by simp
  have l: "length (vrs u) = 16" using assms(2) by (rule ready_length)
  have m12: "unat (word_of_int (k AND 0xfff) :: u32) < 2 ^ 12 \<and> 4 + 12 \<le> (16 :: nat)" for k
    using unat_mask_12 by simp
  show ?thesis
    unfolding exec_one_def Let_def
    by (intro ended mask_ended [where k = 12 and reg = 4] mask_ended [where k = 8 and reg = 0] n m8 m12 assms(1,2)) (simp_all add: assms(2) l)
qed

text \<open>Behind a table that ends with the pop, on the other hand, the registers are overrun.\<close>

lemma pop_without_mask_overruns:
  assumes "length (vrs u) = 16" and "remaining u = 0"
  shows "exec_one m 0xb1 u = None"
proof -
  have "\<forall>k \<in> set [0 ..< 17]. drop_bit k (- 1 :: u32) AND 1 \<noteq> 0" by code_simp
  then have "\<forall>k \<le> length (vrs u) - 0. drop_bit k (- 1 :: u32) AND 1 \<noteq> 0" using assms(1) by simp
  then have "pop_masked m (- 1) 0 vsp u = None" for vsp using pop_masked_overruns [of 0 u "- 1" m vsp] by simp
  then show ?thesis using next_byte_end [OF assms(2)] by (simp add: exec_one_def)
qed

lemma execute_total:
  "mapped m \<Longrightarrow> ready_block m u \<Longrightarrow> \<exists>r u'. unwind_execute_instruction m u = Some (r, u') \<and> length (vrs u') = 16"
proof (induction m u rule: unwind_execute_instruction.induct)
  case (1 m' u)
  obtain b u1 where b: "unwind_get_next_byte m' u = Some (b, u1)" "ready_block m' u1" "remaining u = 0 \<Longrightarrow> b = - 1" "remaining u \<noteq> 0 \<Longrightarrow> 0 \<le> b"
    "b = 0xb1 \<Longrightarrow> remaining u1 \<noteq> 0" using next_byte_ready [OF "1.prems"(2)] by metis
  show ?case
  proof (cases "b = - 1")
    case True
    then show ?thesis using b(1,2) by (subst unwind_execute_instruction.simps) simp
  next
    case False
    then have "0 \<le> b" using b(3,4) by blast
    then have e: "well_ended m' (exec_one m' b u1)" using b(2,5) using "1.prems"(1) by (intro exec_one_total) simp_all
    then obtain r where r: "exec_one m' b u1 = Some r" by (cases "exec_one m' b u1") (simp_all add: well_ended_def)
    show ?thesis
    proof (cases r)
      case (Continue u2)
      then have "ready_block m' u2" using e r by simp
      then show ?thesis using "1.IH" [OF b(1) refl False r Continue "1.prems"(1)] b(1) False r Continue
        by (subst unwind_execute_instruction.simps) simp
    next
      case (Finished u2)
      then have "ready_block m' u2" using e r by simp
      then show ?thesis using b(1) False r Finished by (subst unwind_execute_instruction.simps) simp
    next
      case Failed
      then show ?thesis using b(1,2) False r by (subst unwind_execute_instruction.simps) simp
    qed
  qed
qed

section \<open>Tables and the index\<close>

definition instructions_at :: "exidx \<Rightarrow> memory \<Rightarrow> nat \<Rightarrow> u32 option" where
  \<comment> \<open>the address of the table of an index entry\<close>
  "instructions_at ex m i =
     (let insn_at = addr_offset_at (exidx_start ex) i + 4
      in do { insn \<leftarrow> m insn_at; if insn AND 0x80000000 \<noteq> 0 then Some insn_at else prel31_to_addr m insn_at })"

definition table_ends_in_pop :: "exidx \<Rightarrow> memory \<Rightarrow> bool" where
  \<comment> \<open>the last byte of some table is the instruction whose operand would be the next byte; an empty index is read at its first entry\<close>
  "table_ends_in_pop ex m \<longleftrightarrow>
     (\<exists>i a bs. i < max 1 (exidx_len ex) \<and> instructions_at ex m i = Some a \<and> table_bytes m a = Some bs \<and> bs \<noteq> [] \<and> last bs = 0xb1)"

lemma those_total: "\<forall>x \<in> set xs. x \<noteq> None \<Longrightarrow> \<exists>ys. those xs = Some ys"
  by (induction xs) (auto split: option.splits)

lemma unwind_init_total:
  assumes "mapped m" and "\<And>bs. table_bytes m a = Some bs \<Longrightarrow> bs \<noteq> [] \<Longrightarrow> last bs \<noteq> 0xb1"
  shows "\<exists>r u. unwind_control_block_init m a (Some f) = Some (r, u) \<and> (r < 0 \<or> ready_block m u)"
proof (cases "table_bytes m a")
  case (Some bs)
  from init_codes [OF this, of f] show ?thesis using assms(2) Some by (fastforce simp: ready_block_def)
next
  case None
  obtain w where w: "m a = Some w" using mappedD [OF assms(1)] by blast
  let ?l = "[0 ..< (unat (drop_bit 14 (w AND 0x00ff0000)) + 2 + 5) div 4]"
  obtain ys where "those (map (\<lambda>i. m (a + 4 * of_nat i)) ?l) = Some ys"
    using those_total [of "map (\<lambda>i. m (a + 4 * of_nat i)) ?l"] assms(1) by (auto simp: mapped_def)
  then have "w AND 0xff000000 \<noteq> 0x80000000 \<and> w AND 0xff000000 \<noteq> 0x81000000"
    using None w by (auto simp: table_bytes_def Let_def split: if_splits)
  then show ?thesis using w by (simp add: unwind_control_block_init_def Let_def)
qed

lemma search_total:
  "mapped m \<Longrightarrow> \<exists>i. unwind_search_index m table st en ip = Some i \<and> i < max (st + 1) en"
proof (induction m table st en ip rule: unwind_search_index.induct)
  case (1 m' table st en ip)
  show ?case
  proof (cases "st + 1 < en")
    case True
    define mid where "mid = st + (en - st + 1) div 2"
    obtain a where a: "prel31_to_addr m' (addr_offset_at table mid) = Some a"
      using prel_total [OF "1.prems"(1)] by blast
    have mid: "st < mid" "mid < en" using True unfolding mid_def by linarith+
    have step: "unwind_search_index m' table st en ip =
        (if ip < a then unwind_search_index m' table st mid ip else unwind_search_index m' table mid en ip)"
      using True by (subst unwind_search_index.simps) (simp only: if_True Let_def mid_def [symmetric] a option.case)
    show ?thesis
    proof (cases "ip < a")
      case less: True
      then show ?thesis using "1.IH" (1) [OF True mid_def a less "1.prems"] mid unfolding step by auto
    next
      case False
      then show ?thesis using "1.IH" (2) [OF True mid_def a False "1.prems"] mid unfolding step by auto
    qed
  next
    case False
    then show ?thesis by (subst unwind_search_index.simps) simp
  qed
qed

lemma exception_total:
  assumes "mapped m"
  shows "\<exists>u'. exception_return m psp u = Some u'"
proof -
  have "\<exists>u'. do { p \<leftarrow> m a; l \<leftarrow> m (a - 4); Some (f p l) } = Some u'" for a and f :: "u32 \<Rightarrow> u32 \<Rightarrow> unwind_control_block"
    using mappedD [OF assms, of a] mappedD [OF assms, of "a - 4"] by auto
  then show ?thesis unfolding exception_return_def Let_def .
qed

lemma frame_total:
  assumes "mapped m" and "\<not> table_ends_in_pop ex m"
  shows "\<exists>r f'. unwind_frame ex m psp f = Some (r, f')"
proof -
  obtain i where i: "unwind_search_index m (exidx_start ex) 0 (exidx_len ex) (pc f) = Some i" "i < max 1 (exidx_len ex)"
    using search_total [OF assms(1), of "exidx_start ex" 0 "exidx_len ex" "pc f"] by auto
  let ?at = "addr_offset_at (exidx_start ex) i + 4"
  obtain insn where insn: "m ?at = Some insn" using mappedD [OF assms(1)] by blast
  obtain v where v: "prel31_to_addr m ?at = Some v" using insn by (simp add: prel31_to_addr_def)
  obtain a where a: "instructions_at ex m i = Some a" "(if insn AND 0x80000000 \<noteq> 0 then Some ?at else prel31_to_addr m ?at) = Some a"
    using insn v by (cases "insn AND 0x80000000 \<noteq> 0") (simp_all add: instructions_at_def)
  obtain r u where u: "unwind_control_block_init m a (Some f) = Some (r, u)" "r < 0 \<or> ready_block m u"
    using unwind_init_total [OF assms(1), of a f] assms(2) i(2) a(1) unfolding table_ends_in_pop_def by blast
  have ex: "\<exists>r' u'. unwind_execute_instruction m u = Some (r', u') \<and> length (vrs u') = 16" if "\<not> r < 0"
    using execute_total [OF assms(1)] u(2) that by blast
  show ?thesis
  proof (cases "insn = 1 \<or> r < 0")
    case True
    then show ?thesis using i(1) insn a(2) u(1) by (auto simp: unwind_frame_def Let_def)
  next
    case False
    then obtain r' u' where e: "unwind_execute_instruction m u = Some (r', u')" using ex by blast
    define v' where "v' = (if vrs u' ! 15 = 0 then u'\<lparr>vrs := (vrs u')[15 := vrs u' ! 14]\<rparr> else u')"
    obtain w where "exception_return m psp v' = Some w" using exception_total [OF assms(1)] by blast
    then show ?thesis
      using False i(1) insn a(2) u(1) e by (simp add: unwind_frame_def Let_def v'_def [symmetric])
  qed
qed

section \<open>The backtrace\<close>

lemma loop_total:
  "mapped m \<Longrightarrow> \<not> table_ends_in_pop ex m \<Longrightarrow> int count < sz \<Longrightarrow> sz \<le> int (length buffer) \<Longrightarrow> \<exists>n b f'. backtrace_loop ex m psp sz count buffer f = Some (n, b, f')"
proof (induction ex m psp sz count buffer f rule: backtrace_loop.induct)
  case (1 ex' m' psp sz count buffer f)
  have c: "count < length buffer" using "1.prems" by linarith
  then have put: "put_entry count e buffer = Some (buffer[count := e])" for e by (simp add: put_entry_def)
  show ?case
  proof (cases "pc f = 0 \<or> pc f = 1")
    case True
    then show ?thesis by (subst backtrace_loop.simps) (auto simp: put)
  next
    case False
    let ?f = "f\<lparr>pc := pc f AND 0xfffffffe\<rparr>"
    obtain i where i: "unwind_search_index m' (exidx_start ex') 0 (exidx_len ex') (pc f) = Some i"
      using search_total [OF "1.prems"(1)] by blast
    obtain a where a: "prel31_to_addr m' (addr_offset_at (exidx_start ex') i) = Some a"
      using prel_total [OF "1.prems"(1)] by blast
    obtain nm where nm: "unwind_get_function_name m' a = Some nm"
      using name_total [OF "1.prems"(1)] by blast
    obtain r g where g: "unwind_frame ex' m' psp ?f = Some (r, g)"
      using frame_total [OF "1.prems"(1,2)] by blast
    let ?b = "buffer[count := \<lparr>fun_addr = a, address = pc ?f, fname = Some nm\<rparr>]"
    have step: "backtrace_loop ex' m' psp sz count buffer f =
        (if r \<noteq> 0 \<and> int (count + 1) < sz then backtrace_loop ex' m' psp sz (count + 1) ?b g else Some (count + 1, ?b, g))"
      using False i a nm g by (subst backtrace_loop.simps) (simp add: put Let_def)
    show ?thesis
    proof (cases "r \<noteq> 0 \<and> int (count + 1) < sz")
      case True
      have "\<exists>n b f'. backtrace_loop ex' m' psp sz (count + 1) ?b g = Some (n, b, f')"
        using "1.IH" [of "(r, ?b, g)" r "(?b, g)" ?b g] False i a nm g True "1.prems" by (simp add: put Let_def)
      then show ?thesis unfolding step using True by simp
    next
      case False
      then show ?thesis unfolding step by auto
    qed
  qed
qed

end
