(* ===== verification/UwClaims.thy ===== *)
theory UwClaims
  imports UwTotal
begin

text \<open>
  Properties of the stack unwinder, each applied to a small image with three functions.
\<close>

section \<open>The image\<close>

definition demo_words :: memory where
  \<comment> \<open>an index at \<open>0x1000\<close> of three functions: the last one of the chain, one with a frame pointer, and a leaf\<close>
  "demo_words = map_of [(0x1000, 0x7ffff100), (0x1004, 1), (0x1008, 0x7ffff1f8), (0x100c, 0x80978408),
     (0x1010, 0x7ffff2f0), (0x1014, 0x8001a8b0), (0xfc, 0), (0x1fc, 0xff000008), (0x2fc, 0xff000004)]"

definition demo_index :: unwind_index where
  "demo_index = \<lparr>places = \<lparr>exidx_start = 0x1000, exidx_len = 3\<rparr>, starts = [0x100, 0x200, 0x300]\<rparr>"

definition demo_start :: machine where
  "demo_start = \<lparr>regs = (\<lambda>r. of_nat r)(13 := 0x8000), mem = demo_words\<rparr>"

definition demo_calls :: "call list" where
  "demo_calls = [([Push_range 0 True, Locals [7, 8]], 0x211), ([Push 0x408, Set_fp], 0x111)]"

definition demo_frame :: backtrace_frame where
  "demo_frame = \<lparr>fp = 0x7ff8, sp = 0x7fe8, lr = 0x211, pc = 0x304\<rparr>"

definition demo_mem :: memory where
  "demo_mem = mem (state_of demo_calls demo_start)"

lemma demo_mask: "mask_regs 12 0x408 4 = [7, 14]"
  by code_simp

lemma demo_state:
  "regs (state_of demo_calls demo_start) 13 = 0x7fe8" "regs (state_of demo_calls demo_start) 7 = 0x7ff8" "regs (state_of demo_calls demo_start) 14 = 0x211"
  by (simp_all add: demo_calls_def demo_start_def run_pro_def Let_def demo_mask)

lemma demo_mem_eq:
  "demo_mem = demo_words(0x7ff8 \<mapsto> 7, 0x7ffc \<mapsto> 0x111, 0x7ff0 \<mapsto> 4, 0x7ff4 \<mapsto> 0x211, 0x7fe8 \<mapsto> 7, 0x7fec \<mapsto> 8)"
  by (simp add: demo_mem_def demo_calls_def demo_start_def run_pro_def Let_def demo_mask fun_upd_twist)

lemma demo_index_at: "index_at demo_words 0x1000 [0x100, 0x200, 0x300]"
  by (auto simp: index_at_def addr_offset_at_def prel31_to_addr_def prel31_offset_def demo_words_def less_Suc_eq numeral_3_eq_3)

lemma demo_addresses: "a \<noteq> 0x7ff8 \<Longrightarrow> a \<noteq> 0x7ffc \<Longrightarrow> a \<noteq> 0x7ff0 \<Longrightarrow> a \<noteq> 0x7ff4 \<Longrightarrow> a \<noteq> 0x7fe8 \<Longrightarrow> a \<noteq> 0x7fec \<Longrightarrow> demo_mem a = demo_words a"
  by (simp add: demo_mem_eq)

lemma demo_index_ok: "index_ok demo_index demo_mem"
proof -
  have "index_at demo_mem 0x1000 [0x100, 0x200, 0x300]"
    using demo_index_at
    by (auto simp: index_at_def addr_offset_at_def prel31_to_addr_def demo_addresses less_Suc_eq numeral_3_eq_3)
  then show ?thesis by (simp add: index_ok_def demo_index_def)
qed

lemma demo_named: "named demo_index demo_mem"
  by (simp add: named_def demo_index_def demo_addresses demo_words_def)

lemma demo_covered:
  "covered demo_index demo_mem (even_pc 0x304) [Push_range 0 True, Locals [7, 8]]"
  "covered demo_index demo_mem (even_pc 0x211) [Push 0x408, Set_fp]"
  "demo_mem (insn_place demo_index (even_pc 0x111)) = Some 1"
proof -
  have p: "insn_place demo_index (even_pc 0x304) = 0x1014" "insn_place demo_index (even_pc 0x211) = 0x100c"
    "insn_place demo_index (even_pc 0x111) = 0x1004"
    by (simp_all add: insn_place_def demo_index_def even_pc_def addr_offset_at_def)
  have m: "demo_mem 0x1014 = Some 0x8001a8b0" "demo_mem 0x100c = Some 0x80978408" "demo_mem 0x1004 = Some 1"
    by (simp_all add: demo_addresses demo_words_def)
  have t: "table_bytes demo_mem 0x1014 = Some (emit_all [Push_range 0 True, Locals [7, 8]] @ [0xb0])"
    "table_bytes demo_mem 0x100c = Some (emit_all [Push 0x408, Set_fp] @ [])"
    using m by (simp_all add: table_bytes_def word_bytes_def emit_all_def)
  show "covered demo_index demo_mem (even_pc 0x304) [Push_range 0 True, Locals [7, 8]]"
    unfolding covered_def p using m(1) t(1)
    by (intro exI [of _ "0x8001a8b0"] exI [of _ "0x1014"] exI [of _ "[0xb0]"]) (simp add: ends_there_def)
  show "covered demo_index demo_mem (even_pc 0x211) [Push 0x408, Set_fp]"
    unfolding covered_def p using m(2) t(2)
    by (intro exI [of _ "0x80978408"] exI [of _ "0x100c"] exI [of _ "[]"]) (simp add: ends_there_def)
  show "demo_mem (insn_place demo_index (even_pc 0x111)) = Some 1" unfolding p by (rule m(3))
qed

lemma demo_prologues:
  "prologue_ok [Push_range 0 True, Locals [7, 8]] {7, 13, 14}" "prologue_ok [Push 0x408, Set_fp] {7, 13}"
  by (simp_all add: prologue_ok_def demo_mask pro_words_def)

lemma demo_chain_ok: "chain_ok demo_index demo_mem 0x304 {7, 13, 14} demo_calls"
  using demo_covered demo_prologues by (simp add: demo_calls_def)

lemma demo_frame_of: "frame_of demo_frame {7, 13, 14} (state_of demo_calls demo_start)"
  by (simp add: frame_of_def demo_state demo_frame_def)

section \<open>The index\<close>

text \<open>C34: The binary search of the unwind index finds the entry that a scan of the table from its start finds: the last one whose function
  starts at or below the address, or the first one when there is none.\<close>

theorem search_is_scan:
  assumes "index_at m table fs" and "sorted fs" and "fs \<noteq> []"
  shows "unwind_search_index m table 0 (length fs) ip = Some (last_entry fs ip)"
  using assms by (rule search_last_entry)

lemma search_is_scan_witness:
  "unwind_search_index demo_words 0x1000 0 3 0x2ff = Some 1 \<and> unwind_search_index demo_words 0x1000 0 3 0x20 = Some 0"
  using search_is_scan [OF demo_index_at, of "0x2ff"] search_is_scan [OF demo_index_at, of "0x20"] by (simp add: numeral_3_eq_3)

section \<open>Prologues\<close>

text \<open>C8: The unwind instructions of a prologue take the prologue back: when they are executed over the stack the prologue has
  left, every register that was pushed, the stack pointer and the registers that are still known get the values they had
  at the entry of the function, and the virtual pc becomes the return address. This holds for every sequence of
  pushes, vector pushes, local variables and a frame pointer, and for the code an assembler emits for it.\<close>

theorem prologue_taken_back:
  assumes "pros_ok ps K" and "words ps < 2 ^ 30" and "codes m u (emit_all ps @ bs)" and "ends_there bs"
    and "same_stack m (words ps) (run_pros ps s)" and "agree K (vrs u) (regs (run_pros ps s))"
  shows "\<exists>u'. unwind_execute_instruction m u = Some (0, u') \<and> (\<forall>r \<in> known ps K. vrs u' ! r = regs s r) \<and>
    (14 \<in> known ps K \<longrightarrow> vrs u' ! 15 = 0 \<or> vrs u' ! 15 = regs s 14)"
proof -
  obtain u1 where u1: "unwind_execute_instruction m u = unwind_execute_instruction m u1" "codes m u1 bs"
    "agree (known ps K) (vrs u1) (regs s)"
    using undo_pros [OF assms(1-3,5,6)] by blast
  then obtain u2 where "unwind_execute_instruction m u1 = Some (0, u2)" "vrs u2 = vrs u1 \<or> vrs u2 = (vrs u1)[15 := vrs u1 ! 14]"
    using execute_end [OF u1(2) assms(4)] by (auto simp: agree_def)
  moreover have "r \<noteq> 15" if "r \<in> known ps K" for r using that u1(3) by (auto simp: agree_def)
  ultimately show ?thesis using u1(1,3) by (auto simp: agree_def nth_list_update)
qed

lemma prologue_taken_back_witness:
  "\<exists>u u'. unwind_control_block_init demo_mem 0x1014 (Some demo_frame) = Some (0, u) \<and>
     unwind_execute_instruction demo_mem u = Some (0, u') \<and> vrs u' ! 4 = 4 \<and> vrs u' ! 7 = 0x7ff8 \<and> vrs u' ! 13 = 0x7ff8 \<and> vrs u' ! 14 = 0x211"
proof -
  let ?ps = "[Push_range 0 True, Locals [7, 8]]"
  let ?s = "(state_of (tl demo_calls) demo_start)\<lparr>regs := (regs (state_of (tl demo_calls) demo_start))(14 := 0x211)\<rparr>"
  have t: "table_bytes demo_mem 0x1014 = Some (emit_all ?ps @ [0xb0])"
    by (simp add: table_bytes_def word_bytes_def emit_all_def demo_addresses demo_words_def)
  obtain u where u: "unwind_control_block_init demo_mem 0x1014 (Some demo_frame) = Some (0, u)" "codes demo_mem u (emit_all ?ps @ [0xb0])"
    "vrs u = (replicate 16 0)[7 := fp demo_frame, 13 := sp demo_frame, 14 := lr demo_frame]"
    using init_codes [OF t] by blast
  have s: "run_pros ?ps ?s = state_of demo_calls demo_start" by (simp add: demo_calls_def)
  have ag: "agree {7, 13, 14} (vrs u) (regs (run_pros ?ps ?s))"
    unfolding s u(3) by (simp add: agree_def demo_state demo_frame_def)
  have st: "same_stack demo_mem (words ?ps) (run_pros ?ps ?s)" unfolding s by (simp add: same_stack_def demo_mem_def)
  have ok: "pros_ok ?ps {7, 13, 14}" "words ?ps < 2 ^ 30" "ends_there [0xb0]"
    using demo_prologues(1) by (simp_all only: prologue_ok_def ends_there_def) simp
  obtain u' where "unwind_execute_instruction demo_mem u = Some (0, u')" "\<forall>r \<in> known ?ps {7, 13, 14}. vrs u' ! r = regs ?s r"
    using prologue_taken_back [OF ok(1,2) u(2) ok(3) st ag] by blast
  then show ?thesis
    using u(1) by (auto simp: demo_calls_def demo_start_def run_pro_def Let_def demo_mask)
qed

section \<open>The backtrace\<close>

text \<open>C7: Over a stack of calls whose functions have unwind tables for their prologues, the backtrace is the program counter followed by the return
  addresses, from the innermost call to the outermost function, each with the function it lies in, cut off at the size of the
  buffer; the rest of the buffer is cleared and nothing behind it is written.\<close>

theorem backtrace_lists_calls:
  assumes ix: "index_ok ix m" "named ix m" and m: "m = mem (state_of cs s)" and ok: "chain_ok ix m (pc f) {7, 13, 14} cs"
    and f: "fp f = regs (state_of cs s) 7" "sp f = regs (state_of cs s) 13" "lr f = regs (state_of cs s) 14"
    and w: "chain_words cs < 2 ^ 30" and sz: "0 < sz" "sz \<le> int (length buffer)"
  shows "\<exists>f'. backtrace_unwind (places ix) m psp buffer sz f =
    Some (min (nat sz) (length cs + 1), take (nat sz) (map (entry_of ix m) (pc f # map snd cs)) @
      replicate (nat sz - (length cs + 1)) no_backtrace @ drop (nat sz) buffer, f')"
proof -
  let ?b = "replicate (nat sz) no_backtrace @ drop (nat sz) buffer"
  let ?es = "take (nat sz) (map (entry_of ix m) (pc f # map snd cs))"
  have "frame_of f {7, 13, 14} (state_of cs s)" using f by (simp add: frame_of_def)
  moreover have "same_stack m (chain_words cs) (state_of cs s)" using m by (simp add: same_stack_def)
  ultimately obtain f' where l: "backtrace_loop (places ix) m psp sz 0 ?b f =
      (let es = take (nat sz - 0) (map (entry_of ix m) (pc f # map snd cs))
       in Some (0 + length es, take 0 ?b @ es @ drop (0 + length es) ?b, f'))"
    using loop_chain [OF ix ok _ _ w, of s 0 sz ?b psp] sz by auto
  have n: "length ?es = min (nat sz) (length cs + 1)" by simp
  have "drop (length ?es) ?b = replicate (nat sz - (length cs + 1)) no_backtrace @ drop (nat sz) buffer"
    unfolding n by (cases "nat sz \<le> length cs + 1") (simp_all add: min_def)
  then show ?thesis
    using l sz n by (simp add: backtrace_unwind_def Let_def nat_le_iff)
qed

lemma backtrace_lists_calls_witness:
  "\<exists>f'. backtrace_unwind (places demo_index) demo_mem 0 (replicate 4 no_backtrace) 4 demo_frame =
    Some (3, [\<lparr>fun_addr = 0x300, address = 0x304, fname = Some (Name_at 0x2f8)\<rparr>, \<lparr>fun_addr = 0x200, address = 0x210, fname = Some (Name_at 0x1f4)\<rparr>,
      \<lparr>fun_addr = 0x100, address = 0x110, fname = Some (Literal ''unknown'')\<rparr>, no_backtrace], f')"
proof -
  have "pc demo_frame = 0x304" by (simp add: demo_frame_def)
  then have c: "chain_ok demo_index demo_mem (pc demo_frame) {7, 13, 14} demo_calls" using demo_chain_ok by simp
  have f: "fp demo_frame = regs (state_of demo_calls demo_start) 7" "sp demo_frame = regs (state_of demo_calls demo_start) 13"
    "lr demo_frame = regs (state_of demo_calls demo_start) 14"
    unfolding demo_state by (simp_all add: demo_frame_def)
  have w: "chain_words demo_calls < 2 ^ 30" by (simp add: demo_calls_def pro_words_def demo_mask)
  have e: "map (entry_of demo_index demo_mem) (pc demo_frame # map snd demo_calls) =
    [\<lparr>fun_addr = 0x300, address = 0x304, fname = Some (Name_at 0x2f8)\<rparr>, \<lparr>fun_addr = 0x200, address = 0x210, fname = Some (Name_at 0x1f4)\<rparr>,
      \<lparr>fun_addr = 0x100, address = 0x110, fname = Some (Literal ''unknown'')\<rparr>]"
    by (simp add: entry_of_def demo_calls_def demo_index_def demo_frame_def Let_def even_pc_def unwind_get_function_name_def demo_addresses demo_words_def)
  have n: "length demo_calls = 2" by (simp add: demo_calls_def)
  show ?thesis
    using backtrace_lists_calls [OF demo_index_ok demo_named demo_mem_def c f w, of 4 "replicate 4 no_backtrace" 0] unfolding e n
    by (simp add: numeral_eq_Suc)
qed

lemma loop_bounds:
  "backtrace_loop ex m psp sz count buffer f = Some (n, b, f') \<Longrightarrow> int count < sz \<Longrightarrow>
    count < n \<and> int n \<le> sz \<and> length b = length buffer \<and> drop (nat sz) b = drop (nat sz) buffer"
proof (induction ex m psp sz count buffer f rule: backtrace_loop.induct)
  case (1 ex m psp sz count buffer f)
  have put: "length b1 = length buffer \<and> drop (nat sz) b1 = drop (nat sz) buffer" if "put_entry count e buffer = Some b1" for e b1
    using that "1.prems"(2) by (auto simp: put_entry_def split: if_splits)
  show ?case
    using "1.prems" "1.IH" put
    by (subst (asm) backtrace_loop.simps)
      (fastforce simp: bind_eq_Some_conv Let_def split: if_splits option.splits)
qed

text \<open>C35: With a buffer of at least one entry, memory in which no read faults, and no unwind table whose last byte is the pop of
  \<open>r0\<close> to \<open>r3\<close>, the unwinder returns, writes only into the buffer and returns between one and all of its
  entries, whatever the stack and the tables hold. The last two conditions are exact in this sense: where it has no defined result,
  memory has an address that faults, or a table ends with that instruction; and executing that instruction at the end of a table writes
  behind the array of registers. With a size of zero the unwinder writes an entry all the same, which is behind the end of an empty buffer.\<close>

theorem backtrace_stays_in_buffer:
  "(0 < sz \<longrightarrow> sz \<le> int (length buffer) \<longrightarrow>
     (case backtrace_unwind ex m psp buffer sz f of
        Some (n, b, f') \<Rightarrow> 0 < n \<and> int n \<le> sz \<and> length b = length buffer \<and> drop (nat sz) b = drop (nat sz) buffer
      | None \<Rightarrow> \<not> mapped m \<or> table_ends_in_pop ex m)) \<and>
   (length (vrs u) = 16 \<longrightarrow> remaining u = 0 \<longrightarrow> exec_one m 0xb1 u = None) \<and>
   backtrace_unwind ex m psp [] 0 f = None"
proof (intro conjI impI)
  assume sz: "0 < sz" "sz \<le> int (length buffer)"
  let ?b = "replicate (nat sz) no_backtrace @ drop (nat sz) buffer"
  have l: "backtrace_unwind ex m psp buffer sz f = backtrace_loop ex m psp sz 0 ?b f" "length ?b = length buffer" "drop (nat sz) ?b = drop (nat sz) buffer"
    using sz by (simp_all add: backtrace_unwind_def nat_le_iff)
  show "case backtrace_unwind ex m psp buffer sz f of
      Some (n, b, f') \<Rightarrow> 0 < n \<and> int n \<le> sz \<and> length b = length buffer \<and> drop (nat sz) b = drop (nat sz) buffer
    | None \<Rightarrow> \<not> mapped m \<or> table_ends_in_pop ex m"
  proof (cases "backtrace_unwind ex m psp buffer sz f")
    case None
    then show ?thesis using loop_total [of m ex 0 sz ?b psp f] l sz by auto
  next
    case (Some r)
    obtain n b f' where r: "r = (n, b, f')" by (metis prod_cases3)
    have "backtrace_loop ex m psp sz 0 ?b f = Some (n, b, f')" using Some r l(1) by simp
    from loop_bounds [OF this] show ?thesis using sz(1) l(2,3) Some r by simp
  qed
next
  show "exec_one m 0xb1 u = None" if "length (vrs u) = 16" "remaining u = 0" using that by (rule pop_without_mask_overruns)
  show "backtrace_unwind ex m psp [] 0 f = None"
    by (simp add: backtrace_unwind_def) (subst backtrace_loop.simps, simp add: put_entry_def)
qed

lemma quiet_memory:
  \<comment> \<open>memory that holds zeros and no table\<close>
  "mapped (\<lambda>a. Some 0)" "\<not> table_ends_in_pop ex (\<lambda>a. Some 0)"
  by (auto simp: mapped_def table_ends_in_pop_def table_bytes_def)

lemma backtrace_stays_in_buffer_witness:
  "\<exists>n b f'. backtrace_unwind (places demo_index) (\<lambda>a. Some 0) 0 [no_backtrace, no_backtrace, no_backtrace\<lparr>address := 7\<rparr>] 2 demo_frame = Some (n, b, f') \<and>
     n \<in> {1, 2} \<and> b ! 2 = no_backtrace\<lparr>address := 7\<rparr>"
proof -
  let ?e = "no_backtrace\<lparr>address := 7\<rparr>"
  let ?r = "backtrace_unwind (places demo_index) (\<lambda>a. Some 0) 0 [no_backtrace, no_backtrace, ?e] 2 demo_frame"
  have "case ?r of Some (n, b, f') \<Rightarrow> 0 < n \<and> int n \<le> 2 \<and> length b = 3 \<and> drop 2 b = [?e]
      | None \<Rightarrow> \<not> mapped (\<lambda>a. Some 0) \<or> table_ends_in_pop (places demo_index) (\<lambda>a. Some 0)"
    using backtrace_stays_in_buffer [where sz = 2 and buffer = "[no_backtrace, no_backtrace, ?e]" and ex = "places demo_index" and m = "\<lambda>a. Some 0" and psp = 0 and f = demo_frame, THEN conjunct1]
    by (auto split: option.splits)
  then obtain n b f' where r: "?r = Some (n, b, f')" "0 < n" "int n \<le> 2" "length b = 3" "drop 2 b = [?e]"
    using quiet_memory by (cases ?r) auto
  have "b ! 2 = drop 2 b ! 0" using r(4) by simp
  then show ?thesis using r by auto
qed

lemma unwind_frame_rejects:
  assumes ix: "index_ok ix m" and i: "m (insn_place ix (pc f)) = Some insn" "insn \<noteq> 1" "insn AND 0x80000000 = 0"
    and a: "prel31_to_addr m (insn_place ix (pc f)) = Some a" "m a = Some w"
    and w: "w AND 0xff000000 \<noteq> 0x80000000" "w AND 0xff000000 \<noteq> 0x81000000"
  shows "unwind_frame (places ix) m psp f = Some (- 1, f)"
proof -
  have "unwind_search_index m (exidx_start (places ix)) 0 (exidx_len (places ix)) (pc f) = Some (last_entry (starts ix) (pc f))"
    using ix by (simp add: index_ok_def search_last_entry)
  then show ?thesis
    using i a w by (simp add: unwind_frame_def insn_place_def [symmetric] unwind_control_block_init_def Let_def)
qed

lemma loop_repeats:
  assumes ix: "index_ok ix m" "named ix m" and f: "pc f \<noteq> 0" "even_pc (pc f) = pc f" and u: "unwind_frame (places ix) m psp f = Some (- 1, f)"
  shows "count < k \<Longrightarrow> k \<le> length buffer \<Longrightarrow> backtrace_loop (places ix) m psp (int k) count buffer f =
    Some (k, take count buffer @ replicate (k - count) (entry_of ix m (pc f)) @ drop k buffer, f)"
proof (induction "k - count" arbitrary: count buffer)
  case (Suc d)
  let ?b = "buffer[count := entry_of ix m (pc f)]"
  have ne: "pc f \<noteq> 1" using f(2) by (auto simp: even_pc_def)
  have "f\<lparr>pc := even_pc (pc f)\<rparr> = f" using f(2) by simp
  then have step: "backtrace_loop (places ix) m psp (int k) count buffer f =
      (if count + 1 < k then backtrace_loop (places ix) m psp (int k) (count + 1) ?b f else Some (count + 1, ?b, f))"
    using loop_round [OF ix f(1) ne _ , of count buffer psp "- 1" f "int k"] u Suc.prems by simp
  have b: "?b = take count buffer @ entry_of ix m (pc f) # drop (Suc count) buffer"
    using Suc.prems by (intro upd_conv_take_nth_drop) simp
  show ?case
  proof (cases "count + 1 < k")
    case True
    have "backtrace_loop (places ix) m psp (int k) (count + 1) ?b f =
        Some (k, take (count + 1) ?b @ replicate (k - (count + 1)) (entry_of ix m (pc f)) @ drop k ?b, f)"
      using Suc True by (intro Suc.hyps) auto
    moreover have "take (count + 1) ?b = take count buffer @ [entry_of ix m (pc f)]" using b Suc.prems by simp
    moreover have "drop k ?b = drop k buffer" using Suc.prems(1) by simp
    moreover have "k - count = Suc (k - (count + 1))" using True by simp
    ultimately show ?thesis using step True by simp
  next
    case False
    then have "k = Suc count" using Suc.prems(1) by simp
    then show ?thesis using step b by simp
  qed
qed simp

text \<open>A function whose unwind table has another form than the two that are understood (that of a C++ personality routine, for
  example) does not end the backtrace: \<open>unwind_frame\<close> reports the error with -1, which the loop takes for success, and the
  whole buffer is filled with the entry of that function.\<close>

theorem unreadable_table_repeats:
  assumes "index_ok ix m" "named ix m" and "pc f \<noteq> 0" "even_pc (pc f) = pc f"
    and "m (insn_place ix (pc f)) = Some insn" "insn \<noteq> 1" "insn AND 0x80000000 = 0"
    and "prel31_to_addr m (insn_place ix (pc f)) = Some a" "m a = Some w"
    and "w AND 0xff000000 \<noteq> 0x80000000" "w AND 0xff000000 \<noteq> 0x81000000"
    and "0 < k" "k \<le> length buffer"
  shows "backtrace_unwind (places ix) m psp buffer (int k) f = Some (k, replicate k (entry_of ix m (pc f)) @ drop k buffer, f)"
  using loop_repeats [OF assms(1-4) unwind_frame_rejects [OF assms(1,5-11)], of 0 k "replicate k no_backtrace @ drop k buffer" psp] assms(12,13)
  by (simp add: backtrace_unwind_def)

lemma unreadable_table_repeats_witness:
  "\<exists>e. backtrace_unwind (places demo_index) (demo_words(0x100c \<mapsto> 0x200, 0x120c \<mapsto> 0x7ffff000)) 0 (replicate 3 no_backtrace) 3 (demo_frame\<lparr>pc := 0x210\<rparr>) =
    Some (3, [e, e, e], demo_frame\<lparr>pc := 0x210\<rparr>) \<and> fun_addr e = 0x200"
proof -
  let ?m = "demo_words(0x100c \<mapsto> 0x200, 0x120c \<mapsto> 0x7ffff000)" and ?f = "demo_frame\<lparr>pc := 0x210\<rparr>"
  have "index_at ?m 0x1000 [0x100, 0x200, 0x300]"
    using demo_index_at by (auto simp: index_at_def addr_offset_at_def prel31_to_addr_def less_Suc_eq numeral_3_eq_3)
  then have ix: "index_ok demo_index ?m" by (simp add: index_ok_def demo_index_def)
  have nm: "named demo_index ?m" by (simp add: named_def demo_index_def demo_words_def)
  have p: "insn_place demo_index (pc ?f) = 0x100c" by (simp add: insn_place_def demo_index_def addr_offset_at_def)
  have a: "prel31_to_addr ?m (insn_place demo_index (pc ?f)) = Some 0x120c" unfolding p by (simp add: prel31_to_addr_def prel31_offset_def)
  have "backtrace_unwind (places demo_index) ?m 0 (replicate 3 no_backtrace) (int 3) ?f =
      Some (3, replicate 3 (entry_of demo_index ?m (pc ?f)) @ drop 3 (replicate 3 no_backtrace), ?f)"
  proof (rule unreadable_table_repeats [OF ix nm _ _ _ _ _ a])
    show "?m (insn_place demo_index (pc ?f)) = Some 0x200" "?m 0x120c = Some 0x7ffff000" unfolding p by simp_all
  qed (simp_all add: even_pc_def)
  then show ?thesis
    by (intro exI [of _ "entry_of demo_index ?m (pc ?f)"]) (simp add: numeral_3_eq_3 entry_of_def demo_index_def Let_def)
qed

section \<open>Single instructions\<close>

lemma subtraction_differs:
  \<comment> \<open>the instruction that lowers the virtual stack pointer lowers it by eight less than the ABI says\<close>
  assumes "x < 64"
  shows "exec_one m (0x40 + int x) u = Some (Continue (u\<lparr>vrs := (vrs u)[13 := vrs u ! 13 - 4 * of_nat x - 4 + 8]\<rparr>))"
proof -
  have *: "\<forall>k \<in> set [0 ..< 64]. (0x40 + int k) AND 0xc0 = 0x40 \<and> (0x40 + int k) AND 0x3f = int k" by code_simp
  have "x \<in> set [0 ..< 64]" using assms by simp
  from * [rule_format, OF this] show ?thesis
    by (simp add: exec_one_def push_bit_eq_mult algebra_simps)
qed

end
