(* ===== verification/SysHeap.thy ===== *)
theory SysHeap
  imports CPrelude
begin

text \<open>
  The heap of the C library, \<open>_sbrk\<close> in \<open>common/src/sys/sysmem.c\<close>: the blocks that it hands out follow one another between the
  end of the data and the reserve for the stack. The symbols of the linker are the record \<open>layout\<close>. The build
  (\<open>common/cmake/common.cmake\<close>) takes \<open>sys/syscalls.c\<close> instead, whose \<open>_sbrk\<close> refuses every request; the application uses the heap of FreeRTOS.
\<close>

record layout =
  end_sym :: u32  \<comment> \<open>\<open>_end\<close>\<close>
  estack :: u32
  Min_Stack_Size :: u32

record sbrk_state =
  sbrk_heap_end :: u32  \<comment> \<open>0 is NULL\<close>
  errno_ENOMEM :: bool

definition stack_limit :: "layout \<Rightarrow> u32" where
  "stack_limit l = estack l - Min_Stack_Size l"

definition sbrk :: "layout \<Rightarrow> u32 \<Rightarrow> sbrk_state \<Rightarrow> u32 \<times> sbrk_state" where
  \<comment> \<open>the increment is a \<open>ptrdiff_t\<close>, that is, a word read as signed\<close>
  "sbrk l incr s =
     (let s = (if sbrk_heap_end s = 0 then s\<lparr>sbrk_heap_end := end_sym l\<rparr> else s)
      in if stack_limit l < sbrk_heap_end s + incr then (- 1, s\<lparr>errno_ENOMEM := True\<rparr>)
         else (sbrk_heap_end s, s\<lparr>sbrk_heap_end := sbrk_heap_end s + incr\<rparr>))"

definition sbrk_linked :: "u32 \<Rightarrow> sbrk_state \<Rightarrow> u32 \<times> sbrk_state" where
  \<comment> \<open>\<open>_sbrk\<close> of \<open>sys/syscalls.c\<close>\<close>
  "sbrk_linked incr s = (- 1, s\<lparr>errno_ENOMEM := True\<rparr>)"

fun sbrks :: "layout \<Rightarrow> u32 list \<Rightarrow> sbrk_state \<Rightarrow> (nat \<times> nat) list \<times> sbrk_state" where
  \<comment> \<open>some calls; the blocks handed out, as start and size\<close>
  "sbrks l [] s = ([], s)"
| "sbrks l (n # ns) s =
     (let (p, s') = sbrk l n s; (bs, s'') = sbrks l ns s'
      in (if p = - 1 then bs else (unat p, unat n) # bs, s''))"

definition sbrk_start :: sbrk_state where
  "sbrk_start = \<lparr>sbrk_heap_end = 0, errno_ENOMEM = False\<rparr>"

definition layout_ok :: "layout \<Rightarrow> bool" where
  \<comment> \<open>a heap that ends in the lower half of the address space\<close>
  "layout_ok l \<longleftrightarrow> 0 < unat (end_sym l) \<and> unat (end_sym l) \<le> unat (stack_limit l) \<and> unat (stack_limit l) < 2 ^ 31"

fun blocks_between :: "nat \<Rightarrow> nat \<Rightarrow> (nat \<times> nat) list \<Rightarrow> bool" where
  \<comment> \<open>the blocks follow one another without gaps from the lower to the upper bound\<close>
  "blocks_between a b [] \<longleftrightarrow> a = b"
| "blocks_between a b ((p, n) # bs) \<longleftrightarrow> p = a \<and> blocks_between (a + n) b bs"

definition heap_end_of :: "layout \<Rightarrow> sbrk_state \<Rightarrow> nat" where
  "heap_end_of l s = (if sbrk_heap_end s = 0 then unat (end_sym l) else unat (sbrk_heap_end s))"

lemma sbrk_grows:
  assumes l: "layout_ok l" and n: "unat n < 2 ^ 31" and e: "unat (end_sym l) \<le> heap_end_of l s" "heap_end_of l s \<le> unat (stack_limit l)"
  shows "if heap_end_of l s + unat n \<le> unat (stack_limit l)
    then \<exists>s'. sbrk l n s = (of_nat (heap_end_of l s), s') \<and> heap_end_of l s' = heap_end_of l s + unat n
    else \<exists>s'. sbrk l n s = (- 1, s') \<and> heap_end_of l s' = heap_end_of l s"
proof -
  let ?e = "if sbrk_heap_end s = 0 then end_sym l else sbrk_heap_end s"
  have e': "heap_end_of l s = unat ?e" by (simp add: heap_end_of_def)
  have "unat ?e + unat n < 2 ^ 32" 
  proof -
    have "(2 :: nat) ^ 32 = 2 ^ 31 + 2 ^ 31" by simp
    then show ?thesis using e(2) l n unfolding e' layout_ok_def by linarith
  qed
  then have sum: "unat (?e + n) = heap_end_of l s + unat n" by (simp add: e' unat_word_ariths take_bit_nat_eq_self)
  have pos: "heap_end_of l s \<noteq> 0" using e(1) l by (simp add: layout_ok_def)
  then have nz: "?e + n \<noteq> 0" "?e \<noteq> 0" using sum e' by auto
  have "stack_limit l < ?e + n \<longleftrightarrow> unat (stack_limit l) < heap_end_of l s + unat n" by (simp add: word_less_nat_alt sum)
  then show ?thesis
    using sum nz e' by (auto simp: sbrk_def Let_def heap_end_of_def)
qed

lemma sbrks_blocks:
  "layout_ok l \<Longrightarrow> \<forall>n \<in> set ns. unat n < 2 ^ 31 \<Longrightarrow> unat (end_sym l) \<le> heap_end_of l s \<Longrightarrow> heap_end_of l s \<le> unat (stack_limit l) \<Longrightarrow>
    \<exists>bs s'. sbrks l ns s = (bs, s') \<and> blocks_between (heap_end_of l s) (heap_end_of l s') bs \<and> heap_end_of l s' \<le> unat (stack_limit l) \<and>
      unat (end_sym l) \<le> heap_end_of l s'"
proof (induction ns arbitrary: s)
  case (Cons n ns)
  show ?case
  proof (cases "heap_end_of l s + unat n \<le> unat (stack_limit l)")
    case True
    then obtain s1 where s1: "sbrk l n s = (of_nat (heap_end_of l s), s1)" "heap_end_of l s1 = heap_end_of l s + unat n"
      using sbrk_grows [of l n s] Cons.prems by auto
    obtain bs s' where r: "sbrks l ns s1 = (bs, s')" "blocks_between (heap_end_of l s1) (heap_end_of l s') bs" "heap_end_of l s' \<le> unat (stack_limit l)"
      "unat (end_sym l) \<le> heap_end_of l s'"
      using Cons.IH [of s1] Cons.prems s1(2) True by auto
    have small: "heap_end_of l s < 2 ^ 31" using Cons.prems(1,4) by (simp add: layout_ok_def)
    then have u: "unat (of_nat (heap_end_of l s) :: u32) = heap_end_of l s" by (simp add: unat_of_nat take_bit_nat_eq_self)
    have "(of_nat (heap_end_of l s) :: u32) \<noteq> - 1"
    proof
      assume "(of_nat (heap_end_of l s) :: u32) = - 1"
      then have "heap_end_of l s = unat (- 1 :: u32)" using u by simp
      also have "\<dots> = 0xFFFFFFFF" by (simp add: unsigned_minus_1_eq_mask mask_eq_exp_minus_1)
      finally show False using small by simp
    qed
    then show ?thesis using s1 r u by auto
  next
    case False
    then obtain s1 where s1: "sbrk l n s = (- 1, s1)" "heap_end_of l s1 = heap_end_of l s"
      using sbrk_grows [of l n s] Cons.prems by auto
    then show ?thesis using Cons.IH [of s1] Cons.prems by auto
  qed
qed simp

text \<open>Calls of \<open>_sbrk\<close> that do not give memory back hand out blocks that follow one another without gaps or overlaps from the end of the
  data on and end below the reserve of the stack; a call for which there is no room fails and changes nothing. Memory that is given
  back is not bounded below: a single call can move the end of the heap below the end of the data.\<close>

theorem sbrk_blocks_disjoint:
  assumes "layout_ok l" and "\<forall>n \<in> set ns. unat n < 2 ^ 31"
  shows "(\<exists>bs s'. sbrks l ns sbrk_start = (bs, s') \<and> blocks_between (unat (end_sym l)) (heap_end_of l s') bs \<and> heap_end_of l s' \<le> unat (stack_limit l)) \<and>
    sbrk l (- end_sym l + 1) sbrk_start = (end_sym l, \<lparr>sbrk_heap_end = 1, errno_ENOMEM = False\<rparr>)"
proof -
  have "heap_end_of l sbrk_start = unat (end_sym l)" by (simp add: heap_end_of_def sbrk_start_def)
  then have "\<exists>bs s'. sbrks l ns sbrk_start = (bs, s') \<and> blocks_between (unat (end_sym l)) (heap_end_of l s') bs \<and> heap_end_of l s' \<le> unat (stack_limit l)"
    using sbrks_blocks [OF assms, of sbrk_start] assms(1) by (auto simp: layout_ok_def)
  moreover have "\<not> stack_limit l < 1"
    using assms(1) by (simp add: layout_ok_def word_less_nat_alt)
  ultimately show ?thesis by (simp add: sbrk_def sbrk_start_def Let_def)
qed

lemma sbrk_blocks_disjoint_witness:
  "\<exists>s'. sbrks \<lparr>end_sym = 0x1000, estack = 0x3000, Min_Stack_Size = 0x400\<rparr> [0x100, 0x10000, 0x20] sbrk_start = ([(0x1000, 0x100), (0x1100, 0x20)], s')"
proof -
  let ?l = "\<lparr>end_sym = 0x1000, estack = 0x3000, Min_Stack_Size = 0x400\<rparr>"
  have "layout_ok ?l" by (simp add: layout_ok_def stack_limit_def)
  moreover have "\<forall>n \<in> set [0x100, 0x10000, 0x20 :: u32]. unat n < 2 ^ 31" by simp
  ultimately obtain bs s' where r: "sbrks ?l [0x100, 0x10000, 0x20] sbrk_start = (bs, s')"
    using sbrk_blocks_disjoint [of ?l "[0x100, 0x10000, 0x20]"] by blast
  then show ?thesis by (auto simp: sbrk_def sbrk_start_def stack_limit_def Let_def)
qed

end
