(* ===== verification/Fifo.thy ===== *)
theory Fifo
  imports CPrelude
begin

text \<open>
  The queue between the cores, \<open>common/include/carbon/fifo.hpp\<close>: many producers, one consumer. A producer reserves a slot under the
  lock, copies its object without it, and publishes the slot under it; a bit for each slot says that it is published. The storage is
  reached through two functions, \<open>ins\<close> and \<open>rem\<close>; the locale \<open>slots\<close> states what the queue needs of them. Indices
  are at most \<open>NElements\<close>, so that they are natural numbers; numbers of objects are below \<open>2 ^ 32 - NElements\<close>.
\<close>

record 'm fifo =
  NElements :: nat
  tail_reserved :: nat
  head :: nat
  tail_ready :: "u8 list"
  store :: 'm  \<comment> \<open>\<open>buffer_\<close>\<close>

definition BUFFER_SIZE :: "'m fifo \<Rightarrow> nat" where "BUFFER_SIZE f = NElements f + 1"

definition increment :: "'m fifo \<Rightarrow> nat \<Rightarrow> nat" where
  "increment f index = (if index < NElements f then index + 1 else 0)"

definition increment_by :: "'m fifo \<Rightarrow> nat \<Rightarrow> nat \<Rightarrow> bool \<times> nat" where
  \<comment> \<open>with the value \<open>index\<close> is left with\<close>
  "increment_by f index n =
     (if NElements f < n then (False, index)
      else if index + n < BUFFER_SIZE f then (True, index + n) else (True, index + n - BUFFER_SIZE f))"

definition isFull :: "'m fifo \<Rightarrow> bool" where
  "isFull f \<longleftrightarrow> head f = increment f (tail_reserved f)"

definition isFull_by :: "'m fifo \<Rightarrow> nat \<Rightarrow> bool" where
  "isFull_by f n \<longleftrightarrow>
     (if NElements f < n then False
      else if tail_reserved f < head f then head f - tail_reserved f \<le> n
      else if head f < tail_reserved f then BUFFER_SIZE f - tail_reserved f + head f \<le> n
      else False)"

definition bit_pos :: "nat \<Rightarrow> u8" where "bit_pos pos = push_bit (pos mod 8) 1"

definition is_ready :: "'m fifo \<Rightarrow> nat \<Rightarrow> bool" where
  "is_ready f pos \<longleftrightarrow> tail_ready f ! (pos div 8) AND bit_pos pos \<noteq> 0"

definition mark_ready :: "nat \<Rightarrow> 'm fifo \<Rightarrow> 'm fifo" where
  "mark_ready pos f = f\<lparr>tail_ready := (tail_ready f)[pos div 8 := tail_ready f ! (pos div 8) OR bit_pos pos]\<rparr>"

definition clear_ready :: "nat \<Rightarrow> 'm fifo \<Rightarrow> 'm fifo" where
  "clear_ready pos f = f\<lparr>tail_ready := (tail_ready f)[pos div 8 := tail_ready f ! (pos div 8) AND NOT (bit_pos pos)]\<rparr>"

type_synonym ('m, 'a) inserter = "'m \<Rightarrow> nat \<Rightarrow> 'a \<Rightarrow> bool \<times> 'm"

type_synonym ('m, 'a) remover = "'m \<Rightarrow> nat \<Rightarrow> 'a option"

section \<open>Push and pop\<close>

definition push_reserve :: "'m fifo \<Rightarrow> nat option \<times> 'm fifo" where
  \<comment> \<open>the first critical section of \<open>push\<close>; \<open>None\<close> is the overflow\<close>
  "push_reserve f =
     (if \<not> isFull f then (Some (tail_reserved f), f\<lparr>tail_reserved := increment f (tail_reserved f)\<rparr>) else (None, f))"

definition push_insert :: "('m, 'a) inserter \<Rightarrow> nat \<Rightarrow> 'a \<Rightarrow> 'm fifo \<Rightarrow> 'm fifo" where
  \<comment> \<open>the copy; \<open>push\<close> does not look at its result\<close>
  "push_insert ins pos obj f = f\<lparr>store := snd (ins (store f) pos obj)\<rparr>"

definition fifo_push :: "('m, 'a) inserter \<Rightarrow> 'a \<Rightarrow> 'm fifo \<Rightarrow> bool \<times> 'm fifo" where
  \<comment> \<open>\<open>push\<close> without interruption; the callback for the overflow is not set by any user\<close>
  "fifo_push ins obj f =
     (case push_reserve f of
        (None, f) \<Rightarrow> (False, f)
      | (Some pos, f) \<Rightarrow> (True, mark_ready pos (push_insert ins pos obj f)))"

definition pop_check :: "'m fifo \<Rightarrow> nat option" where
  "pop_check f = (if is_ready f (head f) then Some (head f) else None)"

definition pop_advance :: "nat \<Rightarrow> 'm fifo \<Rightarrow> 'm fifo" where
  "pop_advance pos f = clear_ready pos (f\<lparr>head := increment f (head f)\<rparr>)"

definition pop_read :: "('m, 'a) remover \<Rightarrow> 'm fifo \<Rightarrow> nat \<Rightarrow> 'a \<Rightarrow> 'a" where
  \<comment> \<open>\<open>buffer_.remove(&object, current_head)\<close>, whose result is not looked at\<close>
  "pop_read rem f pos obj = (case rem (store f) pos of Some x \<Rightarrow> x | None \<Rightarrow> obj)"

definition fifo_pop :: "('m, 'a) remover \<Rightarrow> 'a \<Rightarrow> 'm fifo \<Rightarrow> bool \<times> 'a \<times> 'm fifo" where
  "fifo_pop rem obj f =
     (case pop_check f of
        None \<Rightarrow> (False, obj, f)
      | Some pos \<Rightarrow> (True, pop_read rem f pos obj, pop_advance pos f))"

definition isEmpty :: "'m fifo \<Rightarrow> bool" where
  "isEmpty f \<longleftrightarrow> \<not> is_ready f (head f)"

definition fifo_reset :: "'m fifo \<Rightarrow> 'm fifo" where
  "fifo_reset f = f\<lparr>tail_reserved := 0, head := 0, tail_ready := replicate (BUFFER_SIZE f div 8 + 1) 0\<rparr>"

definition fifo_init :: "nat \<Rightarrow> 'm \<Rightarrow> 'm fifo" where
  "fifo_init n st = \<lparr>NElements = n, tail_reserved = 0, head = 0, tail_ready = replicate ((n + 1) div 8 + 1) 0, store = st\<rparr>"

section \<open>Several objects at a time\<close>

record context_push =
  fifo_pos_start :: nat
  fifo_pos_end :: nat
  index :: nat
  data_length1 :: nat
  data_length2 :: nat
  isOverflow :: bool

definition context_push_begin :: "nat \<Rightarrow> 'm fifo \<Rightarrow> context_push \<times> 'm fifo" where
  \<comment> \<open>the constructor; \<open>nObjects_ - 1\<close> wraps around for no object\<close>
  "context_push_begin n f =
     (if \<not> isFull_by f n then
        let st = tail_reserved f; en = (if n = 0 then st else snd (increment_by f st (n - 1)))
        in (\<lparr>fifo_pos_start = st, fifo_pos_end = en, index = st,
              data_length1 = (if st + n \<le> BUFFER_SIZE f then n else BUFFER_SIZE f - st),
              data_length2 = (if st + n \<le> BUFFER_SIZE f then 0 else n - (BUFFER_SIZE f - st)), isOverflow = False\<rparr>,
            f\<lparr>tail_reserved := increment f en\<rparr>)
      else (\<lparr>fifo_pos_start = 0, fifo_pos_end = 0, index = 0, data_length1 = 0, data_length2 = 0, isOverflow = True\<rparr>, f))"

definition context_push_one :: "('m, 'a) inserter \<Rightarrow> 'a \<Rightarrow> context_push \<Rightarrow> 'm fifo \<Rightarrow> bool \<times> context_push \<times> 'm fifo" where
  "context_push_one ins obj c f =
     (if isOverflow c then (False, c, f)
      else if index c \<noteq> tail_reserved f then
        (if fst (ins (store f) (index c) obj) then (True, c\<lparr>index := increment f (index c)\<rparr>, push_insert ins (index c) obj f)
         else (False, c, push_insert ins (index c) obj f))
      else (False, c, f))"

definition fill :: "nat \<Rightarrow> nat \<Rightarrow> u8 list \<Rightarrow> u8 list" where
  \<comment> \<open>a loop that sets the bytes of an interval to \<open>0xFF\<close>\<close>
  "fill i j l = map (\<lambda>k. if i \<le> k \<and> k < j then 0xFF else l ! k) [0 ..< length l]"

definition from_bit :: "nat \<Rightarrow> u8" where "from_bit pos = push_bit (pos mod 8) 0xFF"
definition to_bit :: "nat \<Rightarrow> u8" where "to_bit pos = drop_bit (7 - pos mod 8) 0xFF"

definition context_push_end :: "context_push \<Rightarrow> 'm fifo \<Rightarrow> 'm fifo" where
  \<comment> \<open>the destructor\<close>
  "context_push_end c f =
     (if isOverflow c then f
      else
        let index1 = fifo_pos_start c div 8; index2 = fifo_pos_end c div 8; l = tail_ready f
        in if index1 = index2 then
             f\<lparr>tail_ready := l[index1 := l ! index1 OR (from_bit (fifo_pos_start c) AND to_bit (fifo_pos_end c))]\<rparr>
           else
             let l = l[index1 := l ! index1 OR from_bit (fifo_pos_start c)];
                 l = l[index2 := l ! index2 OR to_bit (fifo_pos_end c)]
             in f\<lparr>tail_ready :=
                  (if index1 < index2 then fill (index1 + 1) index2 l
                   else
                     let last_index = NElements f div 8;
                         l = (fill (index1 + 1) last_index l)[last_index := to_bit (NElements f)]
                     in fill 0 index2 l)\<rparr>)"

function ready_run :: "'m fifo \<Rightarrow> nat \<Rightarrow> nat \<Rightarrow> nat \<times> nat option" where
  \<comment> \<open>the first loop of \<open>getElementReady\<close>: the length, and where the second loop starts, if it does\<close>
  "ready_run f cur n =
     (let n = (if is_ready f cur then n + 1 else n); next = increment f cur
      in if next < head f then (n, Some next)
         else if \<not> is_ready f cur \<or> next = head f then (n, None)
         else ready_run f next n)"
  by pat_completeness auto
termination
  by (relation "measure (\<lambda>(f, cur, n). NElements f - cur)") (auto simp: increment_def split: if_splits)

declare ready_run.simps [simp del]

function ready_run2 :: "'m fifo \<Rightarrow> nat \<Rightarrow> nat \<Rightarrow> nat" where
  \<comment> \<open>the second loop; it stays below \<open>head\<close>, which is at most \<open>NElements\<close>\<close>
  "ready_run2 f cur n =
     (let n = (if is_ready f cur then n + 1 else n); next = increment f cur
      in if head f \<le> next \<or> \<not> is_ready f cur \<or> NElements f \<le> cur then n else ready_run2 f next n)"
  by pat_completeness auto
termination
  by (relation "measure (\<lambda>(f, cur, n). NElements f - cur)") (auto simp: increment_def)

declare ready_run2.simps [simp del]

definition getElementReady :: "'m fifo \<Rightarrow> nat \<times> nat" where
  "getElementReady f =
     (case ready_run f (head f) 0 of
        (n, None) \<Rightarrow> (n, 0)
      | (n, Some next) \<Rightarrow> (n, ready_run2 f next 0))"

primrec context_pull_end :: "nat \<Rightarrow> 'm fifo \<Rightarrow> 'm fifo" where
  \<comment> \<open>the destructor of \<open>ContextPull\<close>, for \<open>dataLength1_ + dataLength2_\<close> slots\<close>
  "context_pull_end 0 f = f"
| "context_pull_end (Suc n) f = (let f = clear_ready (head f) f in context_pull_end n (f\<lparr>head := increment f (head f)\<rparr>))"

section \<open>The storage\<close>

locale slots =
  fixes ins :: "('m, 'a) inserter" and rem :: "('m, 'a) remover" and cap :: nat and obj_ok :: "'a \<Rightarrow> bool"
  assumes ins_ok: "i < cap \<Longrightarrow> obj_ok x \<Longrightarrow> fst (ins m i x)"
    and rem_ins: "i < cap \<Longrightarrow> obj_ok x \<Longrightarrow> rem (snd (ins m i x)) i = Some x"
    and rem_ins_other: "i < cap \<Longrightarrow> j < cap \<Longrightarrow> i \<noteq> j \<Longrightarrow> obj_ok x \<Longrightarrow> rem (snd (ins m i x)) j = rem m j"
begin

lemma push_insert_rem:
  "pos < cap \<Longrightarrow> j < cap \<Longrightarrow> obj_ok x \<Longrightarrow> rem (store (push_insert ins pos x f)) j = (if j = pos then Some x else rem (store f) j)"
  by (simp add: push_insert_def rem_ins rem_ins_other)

end

end
