(* ===== verification/FifoBits.thy ===== *)
theory FifoBits
  imports Fifo
begin

text \<open>
  The bit field \<open>tail_ready_\<close>: what \<open>push\<close>, \<open>pop\<close>, the destructors of \<open>ContextPush\<close> and \<open>ContextPull\<close> and
  \<open>getElementReady\<close> do to each slot.
\<close>

lemma is_ready_bit: "is_ready f pos \<longleftrightarrow> bit (tail_ready f ! (pos div 8)) (pos mod 8)"
proof -
  have m: "pos mod 8 < 8" by simp
  have "(tail_ready f ! (pos div 8) AND push_bit (pos mod 8) 1 \<noteq> 0) = bit (tail_ready f ! (pos div 8)) (pos mod 8)"
    unfolding bit_iff_and_push_bit_not_eq_0 ..
  then show ?thesis by (simp add: is_ready_def bit_pos_def)
qed

definition bits_ok :: "'m fifo \<Rightarrow> bool" where
  "bits_ok f \<longleftrightarrow> length (tail_ready f) = BUFFER_SIZE f div 8 + 1"

lemma in_field: "bits_ok f \<Longrightarrow> pos \<le> NElements f \<Longrightarrow> pos div 8 < length (tail_ready f)"
  using div_le_mono [of pos "NElements f + 1" 8] by (simp add: bits_ok_def BUFFER_SIZE_def)

lemma same_slot: "pos div 8 = q div 8 \<Longrightarrow> (pos mod 8 = q mod 8) = (pos = (q :: nat))"
  by (metis div_mult_mod_eq)

lemma ready_mark:
  assumes "bits_ok f" and "pos \<le> NElements f"
  shows "is_ready (mark_ready pos f) q \<longleftrightarrow> is_ready f q \<or> q = pos"
  using in_field [OF assms] same_slot [of q pos]
  by (cases "pos div 8 = q div 8") (auto simp: is_ready_bit mark_ready_def bit_pos_def bit_simps)

lemma ready_clear:
  assumes "bits_ok f" and "pos \<le> NElements f"
  shows "is_ready (clear_ready pos f) q \<longleftrightarrow> is_ready f q \<and> q \<noteq> pos"
  using in_field [OF assms] same_slot [of q pos]
  by (cases "pos div 8 = q div 8") (auto simp: is_ready_bit clear_ready_def bit_pos_def bit_simps)

lemma fifo_simps [simp]:
  "NElements (mark_ready pos f) = NElements f" "head (mark_ready pos f) = head f" "tail_reserved (mark_ready pos f) = tail_reserved f"
  "store (mark_ready pos f) = store f" "bits_ok (mark_ready pos f) = bits_ok f"
  "NElements (clear_ready pos f) = NElements f" "head (clear_ready pos f) = head f" "tail_reserved (clear_ready pos f) = tail_reserved f"
  "store (clear_ready pos f) = store f" "bits_ok (clear_ready pos f) = bits_ok f"
  "NElements (push_insert ins pos x f) = NElements f" "head (push_insert ins pos x f) = head f"
  "tail_reserved (push_insert ins pos x f) = tail_reserved f" "bits_ok (push_insert ins pos x f) = bits_ok f"
  "is_ready (push_insert ins pos x f) q = is_ready f q"
  by (simp_all add: mark_ready_def clear_ready_def push_insert_def bits_ok_def BUFFER_SIZE_def is_ready_def)

lemma update_simps [simp]:
  "is_ready (f\<lparr>head := h\<rparr>) q = is_ready f q" "is_ready (f\<lparr>tail_reserved := t\<rparr>) q = is_ready f q"
  "bits_ok (f\<lparr>head := h\<rparr>) = bits_ok f" "bits_ok (f\<lparr>tail_reserved := t\<rparr>) = bits_ok f"
  by (simp_all add: bits_ok_def BUFFER_SIZE_def is_ready_def)

lemma ready_init: "pos \<le> n \<Longrightarrow> \<not> is_ready (fifo_init n st) pos" and bits_init: "bits_ok (fifo_init n st)"
proof -
  assume "pos \<le> n"
  then have "pos div 8 < (n + 1) div 8 + 1" by (metis add.commute div_le_mono le_SucI less_Suc_eq_le plus_1_eq_Suc)
  then show "\<not> is_ready (fifo_init n st) pos" by (simp add: is_ready_bit fifo_init_def del: replicate_Suc)
next
  show "bits_ok (fifo_init n st)" by (simp add: bits_ok_def fifo_init_def BUFFER_SIZE_def)
qed

section \<open>Batches\<close>

lemma bit_FF: "bit (0xFF :: u8) i \<longleftrightarrow> i < 8"
proof -
  have "(0xFF :: u8) = mask 8" by (simp add: mask_eq_exp_minus_1)
  then show ?thesis by (simp only: bit_mask_iff) auto
qed

lemma bit_from: "bit (from_bit pos) i \<longleftrightarrow> pos mod 8 \<le> i \<and> i < 8"
  unfolding from_bit_def bit_push_bit_iff bit_FF by auto

lemma bit_to: "bit (to_bit pos) i \<longleftrightarrow> i \<le> pos mod 8"
proof -
  have "pos mod 8 < 8" by simp
  then show ?thesis unfolding to_bit_def bit_drop_bit_eq comp_def bit_FF by auto
qed

lemma fill_nth: "k < length l \<Longrightarrow> fill i j l ! k = (if i \<le> k \<and> k < j then 0xFF else l ! k)"
  by (simp add: fill_def)

lemma fill_length [simp]: "length (fill i j l) = length l"
  by (simp add: fill_def)

definition batch_marks :: "nat \<Rightarrow> nat \<Rightarrow> nat \<Rightarrow> nat \<Rightarrow> bool" where
  \<comment> \<open>the slots the destructor of \<open>ContextPush\<close> publishes\<close>
  "batch_marks n st en pos \<longleftrightarrow>
     (if st \<le> en then st \<le> pos \<and> pos \<le> en
      else st div 8 \<noteq> en div 8 \<and> (pos \<le> en \<or> st \<le> pos \<or> st div 8 = n div 8 \<and> pos div 8 = n div 8))"

lemma slot_le: "pos \<le> q \<longleftrightarrow> pos div 8 < q div 8 \<or> pos div 8 = q div 8 \<and> pos mod 8 \<le> q mod (8 :: nat)"
proof -
  have "pos = 8 * (pos div 8) + pos mod 8" "q = 8 * (q div 8) + q mod 8" "pos mod 8 < 8" "q mod 8 < 8" by simp_all
  then show ?thesis by linarith
qed

lemma batch_ready:
  assumes b: "bits_ok f" and n: "fifo_pos_start c \<le> NElements f" "fifo_pos_end c \<le> NElements f" "pos \<le> NElements f"
    and o: "\<not> isOverflow c"
  shows "is_ready (context_push_end c f) pos \<longleftrightarrow>
    is_ready f pos \<or> batch_marks (NElements f) (fifo_pos_start c) (fifo_pos_end c) pos"
proof -
  let ?s = "fifo_pos_start c" and ?e = "fifo_pos_end c"
  have l: "?s div 8 < length (tail_ready f)" "?e div 8 < length (tail_ready f)" "pos div 8 < length (tail_ready f)"
    "NElements f div 8 < length (tail_ready f)"
    using in_field [OF b] n by auto
  have m: "pos mod 8 < 8" by simp
  have ff: "bit (0xFF :: u8) (pos mod 8)" unfolding bit_FF by (rule m)
  have nd: "?s div 8 \<le> NElements f div 8" "?e div 8 \<le> NElements f div 8" "pos div 8 \<le> NElements f div 8"
    using n by (simp_all add: div_le_mono)
  have mid: "?s \<le> pos \<longleftrightarrow> ?s div 8 < pos div 8 \<or> ?s div 8 = pos div 8 \<and> ?s mod 8 \<le> pos mod 8"
    "pos \<le> ?e \<longleftrightarrow> pos div 8 < ?e div 8 \<or> pos div 8 = ?e div 8 \<and> pos mod 8 \<le> ?e mod 8"
    "?s \<le> ?e \<longleftrightarrow> ?s div 8 < ?e div 8 \<or> ?s div 8 = ?e div 8 \<and> ?s mod 8 \<le> ?e mod 8"
    by (rule slot_le)+
  consider (same) "?s div 8 = ?e div 8" | (up) "?s div 8 < ?e div 8" | (wrap) "?e div 8 < ?s div 8" by linarith
  then show ?thesis
  proof cases
    case same
    then show ?thesis using l m unfolding batch_marks_def mid
      by (cases "pos div 8 = ?e div 8") (auto simp: context_push_end_def o Let_def is_ready_bit bit_simps bit_from bit_to)
  next
    case up
    have "is_ready (context_push_end c f) pos \<longleftrightarrow>
        (if pos div 8 = ?s div 8 then is_ready f pos \<or> ?s mod 8 \<le> pos mod 8
         else if pos div 8 = ?e div 8 then is_ready f pos \<or> pos mod 8 \<le> ?e mod 8
         else ?s div 8 < pos div 8 \<and> pos div 8 < ?e div 8 \<or> is_ready f pos)"
      using up l by (auto simp: context_push_end_def o Let_def is_ready_bit fill_nth bit_or_iff bit_from bit_to ff simp del: bit_numeral_word_iff)
    then show ?thesis using up unfolding batch_marks_def mid by auto
  next
    case wrap
    have np: "pos div 8 = NElements f div 8 \<Longrightarrow> pos mod 8 \<le> NElements f mod 8" using n(3) slot_le [of pos "NElements f"] by simp
    have "is_ready (context_push_end c f) pos \<longleftrightarrow>
        (if pos div 8 < ?e div 8 \<or> pos div 8 = NElements f div 8 then True
         else if pos div 8 = ?s div 8 then is_ready f pos \<or> ?s mod 8 \<le> pos mod 8
         else if pos div 8 = ?e div 8 then is_ready f pos \<or> pos mod 8 \<le> ?e mod 8
         else ?s div 8 < pos div 8 \<or> is_ready f pos)"
      using wrap l nd np by (simp add: context_push_end_def o Let_def is_ready_bit fill_nth bit_or_iff bit_from bit_to ff del: bit_numeral_word_iff)
    then show ?thesis using wrap nd np unfolding batch_marks_def mid by auto
  qed
qed

lemma batch_simps [simp]:
  "NElements (context_push_end c f) = NElements f" "head (context_push_end c f) = head f"
  "tail_reserved (context_push_end c f) = tail_reserved f" "store (context_push_end c f) = store f"
  "bits_ok (context_push_end c f) = bits_ok f"
  by (simp_all add: context_push_end_def bits_ok_def BUFFER_SIZE_def Let_def)

section \<open>Runs of published slots\<close>

lemma take_while_from: "i < j \<Longrightarrow> takeWhile P [i..<j] = (if P i then i # takeWhile P [Suc i..<j] else [])"
  by (simp add: upt_conv_Cons)

lemma ready_run_value:
  assumes "head f \<le> cur" and "cur \<le> NElements f"
  shows "ready_run f cur n = (n + length (takeWhile (is_ready f) [cur ..< NElements f + 1]),
    if 0 < head f \<and> (\<forall>i \<in> {cur ..< NElements f}. is_ready f i) then Some 0 else None)"
  using assms
proof (induction "NElements f - cur" arbitrary: cur n)
  case 0
  then show ?case by (subst ready_run.simps) (auto simp: increment_def Let_def)
next
  case (Suc d)
  then have c: "cur < NElements f" by linarith
  have IH: "ready_run f (Suc cur) m = (m + length (takeWhile (is_ready f) [Suc cur ..< NElements f + 1]),
      if 0 < head f \<and> (\<forall>i \<in> {Suc cur ..< NElements f}. is_ready f i) then Some 0 else None)" for m
    using Suc by (intro Suc.hyps(1)) linarith+
  have all: "(\<forall>i \<in> {cur ..< NElements f}. is_ready f i) \<longleftrightarrow> is_ready f cur \<and> (\<forall>i \<in> {Suc cur ..< NElements f}. is_ready f i)"
    using c by (force simp: Suc_le_eq le_less)
  show ?case using c Suc.prems by (subst ready_run.simps) (simp add: increment_def Let_def IH all take_while_from del: upt_Suc)
qed

lemma ready_run2_value:
  assumes "cur < head f" and "head f \<le> NElements f"
  shows "ready_run2 f cur n = n + length (takeWhile (is_ready f) [cur ..< head f])"
  using assms
proof (induction "head f - cur" arbitrary: cur n)
  case (Suc d)
  have IH: "ready_run2 f (Suc cur) m = m + length (takeWhile (is_ready f) [Suc cur ..< head f])" if "Suc cur < head f" for m
    using Suc that by (intro Suc.hyps(1)) linarith+
  show ?case using Suc.prems by (subst ready_run2.simps) (simp add: increment_def Let_def IH take_while_from del: upt_Suc)
qed simp

lemma element_ready:
  assumes "head f \<le> NElements f"
  shows "getElementReady f = (length (takeWhile (is_ready f) [head f ..< NElements f + 1]),
    if 0 < head f \<and> (\<forall>i \<in> {head f ..< NElements f}. is_ready f i) then length (takeWhile (is_ready f) [0 ..< head f]) else 0)"
  using assms by (simp add: getElementReady_def ready_run_value ready_run2_value del: upt_Suc)

lemma increment_mod: "i \<le> NElements f \<Longrightarrow> increment f i = (i + 1) mod (NElements f + 1)"
  by (auto simp: increment_def)

lemma pull_end:
  assumes "bits_ok f" and "head f \<le> NElements f"
  shows "head (context_pull_end n f) = (head f + n) mod (NElements f + 1) \<and> NElements (context_pull_end n f) = NElements f \<and>
    tail_reserved (context_pull_end n f) = tail_reserved f \<and> store (context_pull_end n f) = store f \<and>
    (\<forall>q. is_ready (context_pull_end n f) q \<longleftrightarrow> is_ready f q \<and> (\<forall>i < n. q \<noteq> (head f + i) mod (NElements f + 1)))"
  using assms
proof (induction n arbitrary: f)
  case (Suc n)
  let ?g = "clear_ready (head f) f\<lparr>head := increment f (head f)\<rparr>"
  have h: "head ?g = (head f + 1) mod (NElements f + 1)" "head ?g \<le> NElements ?g" using Suc.prems by (auto simp: increment_def)
  have g: "NElements ?g = NElements f" "tail_reserved ?g = tail_reserved f" "store ?g = store f" by simp_all
  have s: "((head f + 1) mod (NElements f + 1) + i) mod (NElements f + 1) = (head f + Suc i) mod (NElements f + 1)" for i
    by (simp add: mod_add_left_eq)
  have e: "context_pull_end (Suc n) f = context_pull_end n ?g" by (simp add: Let_def increment_def)
  have all: "(\<forall>i < Suc n. P i) \<longleftrightarrow> P 0 \<and> (\<forall>i < n. P (Suc i))" for P by (auto simp: less_Suc_eq_0_disj)
  have "head f mod (NElements f + 1) = head f" using Suc.prems by simp
  then show ?case using Suc.IH [of ?g] h(2) Suc.prems(1) ready_clear [OF Suc.prems]
    unfolding e g h(1) s all by (simp add: conj_ac)
qed simp

end
