(* ===== verification/FifoQueue.thy ===== *)
theory FifoQueue
  imports FifoBits
begin

text \<open>
  The queue with all its users at work: any number of producers on both cores, each in the middle of a \<open>push\<close> or of a
  \<open>ContextPush\<close>, and the consumer in the middle of a \<open>pop\<close>. A step is one critical section or one copy. The lists
  \<open>reserved\<close> (the objects, in the order their slots were reserved), \<open>popped\<close> and \<open>claims\<close> (the numbers of the objects that a producer
  has not published) are only there to state the invariant.
\<close>

datatype 'a producer =
    Idle
  | Single nat 'a  \<comment> \<open>in \<open>push\<close>, with \<open>fifo_pos\<close>, before the copy\<close>
  | Copied nat     \<comment> \<open>after the copy\<close>
  | Batch context_push "'a list"  \<comment> \<open>between the constructor and the destructor, with the objects still to push\<close>

datatype consumer =
    Waiting
  | Found nat  \<comment> \<open>in \<open>pop\<close>, with \<open>current_head\<close>, before the copy\<close>
  | Taken nat  \<comment> \<open>after the copy\<close>

record ('m, 'a) qstate =
  fifo :: "'m fifo"
  producers :: "nat \<Rightarrow> 'a producer"
  reader :: consumer
  ch :: 'a  \<comment> \<open>the variable of the caller of \<open>pop\<close>\<close>
  reserved :: "'a list"
  popped :: "'a list"
  claims :: "nat \<Rightarrow> nat \<times> nat"

inductive qstep :: "('m, 'a) inserter \<Rightarrow> ('m, 'a) remover \<Rightarrow> ('a \<Rightarrow> bool) \<Rightarrow> ('m, 'a) qstate \<Rightarrow> ('m, 'a) qstate \<Rightarrow> bool"
  for ins rem obj_ok where
  Push: "producers s p = Idle \<Longrightarrow> obj_ok x \<Longrightarrow> push_reserve (fifo s) = (Some pos, f) \<Longrightarrow>
    qstep ins rem obj_ok s (s\<lparr>fifo := f, producers := (producers s)(p := Single pos x), reserved := reserved s @ [x],
      claims := (claims s)(p := (length (reserved s), length (reserved s) + 1))\<rparr>)"
| Copy: "producers s p = Single pos x \<Longrightarrow>
    qstep ins rem obj_ok s (s\<lparr>fifo := push_insert ins pos x (fifo s), producers := (producers s)(p := Copied pos)\<rparr>)"
| Publish: "producers s p = Copied pos \<Longrightarrow>
    qstep ins rem obj_ok s (s\<lparr>fifo := mark_ready pos (fifo s), producers := (producers s)(p := Idle), claims := (claims s)(p := (0, 0))\<rparr>)"
| Open: "producers s p = Idle \<Longrightarrow> list_all obj_ok xs \<Longrightarrow> xs \<noteq> [] \<Longrightarrow> length xs + 6 \<le> NElements (fifo s) \<Longrightarrow>
    context_push_begin (length xs) (fifo s) = (c, f) \<Longrightarrow> \<not> isOverflow c \<Longrightarrow>
    qstep ins rem obj_ok s (s\<lparr>fifo := f, producers := (producers s)(p := Batch c xs), reserved := reserved s @ xs,
      claims := (claims s)(p := (length (reserved s), length (reserved s) + length xs))\<rparr>)"
| One: "producers s p = Batch c (x # xs) \<Longrightarrow> context_push_one ins x c (fifo s) = (ok, c', f) \<Longrightarrow>
    qstep ins rem obj_ok s (s\<lparr>fifo := f, producers := (producers s)(p := Batch c' xs)\<rparr>)"
| Close: "producers s p = Batch c [] \<Longrightarrow>
    qstep ins rem obj_ok s (s\<lparr>fifo := context_push_end c (fifo s), producers := (producers s)(p := Idle), claims := (claims s)(p := (0, 0))\<rparr>)"
| Check: "reader s = Waiting \<Longrightarrow> pop_check (fifo s) = Some pos \<Longrightarrow> qstep ins rem obj_ok s (s\<lparr>reader := Found pos\<rparr>)"
| Take: "reader s = Found pos \<Longrightarrow>
    qstep ins rem obj_ok s (s\<lparr>reader := Taken pos, ch := pop_read rem (fifo s) pos (ch s)\<rparr>)"
| Advance: "reader s = Taken pos \<Longrightarrow>
    qstep ins rem obj_ok s (s\<lparr>fifo := pop_advance pos (fifo s), reader := Waiting, popped := popped s @ [ch s]\<rparr>)"

definition qstart :: "nat \<Rightarrow> 'm \<Rightarrow> 'a \<Rightarrow> ('m, 'a) qstate" where
  "qstart n st x = \<lparr>fifo = fifo_init n st, producers = (\<lambda>_. Idle), reader = Waiting, ch = x, reserved = [], popped = [],
     claims = (\<lambda>_. (0, 0))\<rparr>"

section \<open>Numbers and slots\<close>

definition slot :: "nat \<Rightarrow> nat \<Rightarrow> nat" where "slot n i = i mod (n + 1)"

lemma slot_bound [simp]: "slot n i \<le> n"
  by (simp add: slot_def flip: less_Suc_eq_le)

lemma slot_number_inj: "slot n i = slot n j \<Longrightarrow> i \<le> j \<Longrightarrow> j \<le> i + n \<Longrightarrow> i = j"
proof -
  assume e: "slot n i = slot n j" and b: "i \<le> j" "j \<le> i + n"
  have "j mod (n + 1) = i mod (n + 1)" using e by (simp only: slot_def)
  then have "(n + 1) dvd (j - i)" using b(1) by (simp only: mod_eq_dvd_iff_nat)
  then show ?thesis using b by (auto dest: dvd_imp_le)
qed

lemma slot_inj_window: "slot n i = slot n j \<Longrightarrow> c \<le> i \<Longrightarrow> i \<le> c + n \<Longrightarrow> c \<le> j \<Longrightarrow> j \<le> c + n \<Longrightarrow> i = j"
  using slot_number_inj [of n i j] slot_number_inj [of n j i] by linarith

lemma slot_add: "d \<le> n \<Longrightarrow> slot n (i + d) = (if slot n i + d \<le> n then slot n i + d else slot n i + d - (n + 1))"
proof -
  assume d: "d \<le> n"
  have e: "slot n (i + d) = (slot n i + d) mod (n + 1)" by (simp add: slot_def mod_add_left_eq)
  show ?thesis
  proof (cases "slot n i + d \<le> n")
    case True then show ?thesis unfolding e by simp
  next
    case False
    then have l: "n + 1 \<le> slot n i + d" "slot n i + d - (n + 1) < n + 1" using d slot_bound [of n i] by linarith+
    then have "(slot n i + d) mod (n + 1) = slot n i + d - (n + 1)" by (simp only: le_mod_geq mod_less)
    then show ?thesis unfolding e using False by simp
  qed
qed

lemma slot_wrap: "slot n (i + (n + 1)) = slot n i"
  by (simp only: slot_def mod_add_self2)

lemma increment_slot: "NElements f = n \<Longrightarrow> increment f (slot n i) = slot n (i + 1)"
  using increment_mod [of "slot n i" f] by (simp add: slot_def mod_Suc_eq)

lemma batch_slots:
  assumes n: "8 dvd n" "m + 7 \<le> n" and i: "c \<le> i" "i \<le> c + n" and lo: "c \<le> lo" "lo + m < c + n"
  shows "batch_marks n (slot n lo) (slot n (lo + m)) (slot n i) \<longleftrightarrow> lo \<le> i \<and> i \<le> lo + m"
proof -
  obtain k where k: "n = 8 * k" using n(1) by blast
  have far: "a div 8 \<noteq> b div 8" if "a \<ge> b + 8" for a b :: nat using that div_le_mono [of "b + 8" a 8] by simp
  have top: "a = n" if "a \<le> n" "a div 8 = n div 8" for a
    using div_times_less_eq_dividend [of a 8] that k by simp
  have last: "slot n lo div 8 = n div 8 \<Longrightarrow> slot n i div 8 = n div 8 \<Longrightarrow> slot n lo \<le> slot n i"
    using top [OF slot_bound, of lo] top [OF slot_bound, of i] by simp
  have e: "slot n (lo + m) = (if slot n lo + m \<le> n then slot n lo + m else slot n lo + m - (n + 1))"
    using n by (intro slot_add) simp
  show ?thesis
  proof (cases "lo \<le> i")
    case True
    then obtain d where d: "i = lo + d" by (auto simp: le_iff_add)
    then have s: "slot n i = (if slot n lo + d \<le> n then slot n lo + d else slot n lo + d - (n + 1))"
      using i lo by (simp only: d) (intro slot_add, linarith)
    show ?thesis
    proof (cases "slot n lo + m \<le> n")
      case up: True
      then show ?thesis using d s e i lo slot_bound [of n lo] unfolding batch_marks_def by auto
    next
      case wrap: False
      have "slot n lo div 8 \<noteq> slot n (lo + m) div 8" using wrap e n(2) slot_bound [of n lo] by (intro far) auto
      then show ?thesis using wrap d s e i lo last slot_bound [of n lo] n(2) unfolding batch_marks_def by auto
    qed
  next
    case False
    then obtain d where d: "lo = i + d" "0 < d" by (auto simp: not_le less_iff_Suc_add)
    then have s: "slot n lo = (if slot n i + d \<le> n then slot n i + d else slot n i + d - (n + 1))"
      using i lo by (simp only: d) (intro slot_add, linarith)
    have md: "m + d < n" using d i lo by linarith
    show ?thesis
    proof (cases "slot n lo + m \<le> n")
      case up: True
      then show ?thesis using d s e md slot_bound [of n i] False unfolding batch_marks_def by (auto split: if_splits)
    next
      case wrap: False
      have "slot n i + d \<le> n"
      proof (rule ccontr)
        assume "\<not> ?thesis"
        then have "slot n lo + (n + 1) = slot n i + d" using s by simp
        then show False using wrap md slot_bound [of n i] by linarith
      qed
      then show ?thesis using wrap d s e md last slot_bound [of n i] False unfolding batch_marks_def by (auto split: if_splits)
    qed
  qed
qed

end
