(* ===== verification/FifoInv.thy ===== *)
theory FifoInv
  imports FifoQueue
begin

text \<open>
  The invariant of the queue, and that every step keeps it. The object with number \<open>i\<close> lives in the slot \<open>i mod (NElements + 1)\<close>; the numbers
  from \<open>c\<close>, of the objects popped, to \<open>r\<close>, of the objects reserved, are in the queue; a bit is set for the numbers that no
  producer claims.
\<close>

definition window_ok :: "nat \<Rightarrow> 'm fifo \<Rightarrow> nat \<Rightarrow> nat \<Rightarrow> bool" where
  "window_ok n f c r \<longleftrightarrow> NElements f = n \<and> bits_ok f \<and> c \<le> r \<and> r \<le> c + n \<and> head f = slot n c \<and> tail_reserved f = slot n r"

definition owns :: "(nat \<Rightarrow> nat \<times> nat) \<Rightarrow> nat \<Rightarrow> nat \<Rightarrow> bool" where
  "owns cl p i \<longleftrightarrow> fst (cl p) \<le> i \<and> i < snd (cl p)"

definition claims_ok :: "nat \<Rightarrow> nat \<Rightarrow> (nat \<Rightarrow> nat \<times> nat) \<Rightarrow> bool" where
  "claims_ok c r cl \<longleftrightarrow> (\<forall>p i. owns cl p i \<longrightarrow> c \<le> i \<and> i < r) \<and> (\<forall>p q i. owns cl p i \<longrightarrow> owns cl q i \<longrightarrow> p = q)"

definition bits_match :: "nat \<Rightarrow> 'm fifo \<Rightarrow> nat \<Rightarrow> nat \<Rightarrow> (nat \<Rightarrow> nat \<times> nat) \<Rightarrow> bool" where
  "bits_match n f c r cl \<longleftrightarrow> (\<forall>i. c \<le> i \<and> i \<le> c + n \<longrightarrow> is_ready f (slot n i) = (i < r \<and> (\<forall>p. \<not> owns cl p i)))"

definition stored :: "('m, 'a) remover \<Rightarrow> nat \<Rightarrow> 'm fifo \<Rightarrow> 'a list \<Rightarrow> nat \<Rightarrow> bool" where
  "stored rem n f xs i \<longleftrightarrow> rem (store f) (slot n i) = Some (xs ! i)"

fun producer_ok :: "('m, 'a) remover \<Rightarrow> nat \<Rightarrow> 'm fifo \<Rightarrow> 'a list \<Rightarrow> nat \<times> nat \<Rightarrow> 'a producer \<Rightarrow> bool" where
  "producer_ok rem n f xs (lo, hi) Idle \<longleftrightarrow> lo = hi"
| "producer_ok rem n f xs (lo, hi) (Single pos x) \<longleftrightarrow> hi = lo + 1 \<and> pos = slot n lo \<and> x = xs ! lo"
| "producer_ok rem n f xs (lo, hi) (Copied pos) \<longleftrightarrow> hi = lo + 1 \<and> pos = slot n lo \<and> stored rem n f xs lo"
| "producer_ok rem n f xs (lo, hi) (Batch c ys) \<longleftrightarrow> lo < hi \<and> hi + 6 \<le> lo + n \<and> lo + length ys \<le> hi \<and> \<not> isOverflow c \<and>
     fifo_pos_start c = slot n lo \<and> fifo_pos_end c = slot n (hi - 1) \<and> index c = slot n (hi - length ys) \<and>
     (\<forall>k < length ys. ys ! k = xs ! (hi - length ys + k)) \<and> (\<forall>i. lo \<le> i \<and> i < hi - length ys \<longrightarrow> stored rem n f xs i)"

fun reader_ok :: "nat \<Rightarrow> 'm fifo \<Rightarrow> 'a list \<Rightarrow> nat \<Rightarrow> 'a \<Rightarrow> consumer \<Rightarrow> bool" where
  "reader_ok n f xs c x Waiting \<longleftrightarrow> True"
| "reader_ok n f xs c x (Found pos) \<longleftrightarrow> pos = slot n c \<and> is_ready f pos"
| "reader_ok n f xs c x (Taken pos) \<longleftrightarrow> pos = slot n c \<and> is_ready f pos \<and> x = xs ! c"

definition queue_inv :: "('m, 'a) remover \<Rightarrow> ('a \<Rightarrow> bool) \<Rightarrow> nat \<Rightarrow> ('m, 'a) qstate \<Rightarrow> bool" where
  "queue_inv rem obj_ok n s \<longleftrightarrow>
     (let c = length (popped s); r = length (reserved s)
      in window_ok n (fifo s) c r \<and> claims_ok c r (claims s) \<and> bits_match n (fifo s) c r (claims s) \<and>
         (\<forall>i. c \<le> i \<and> i < r \<and> (\<forall>p. \<not> owns (claims s) p i) \<longrightarrow> stored rem n (fifo s) (reserved s) i) \<and>
         (\<forall>p. producer_ok rem n (fifo s) (reserved s) (claims s p) (producers s p)) \<and>
         reader_ok n (fifo s) (reserved s) c (ch s) (reader s) \<and>
         popped s = take c (reserved s) \<and> list_all obj_ok (reserved s))"

section \<open>Full or not\<close>

lemma is_full: "window_ok n f c r \<Longrightarrow> isFull f \<longleftrightarrow> r = c + n"
proof -
  assume w: "window_ok n f c r"
  then have i: "increment f (tail_reserved f) = slot n (r + 1)" using increment_slot [of f n r] by (simp add: window_ok_def)
  have "slot n c = slot n (r + 1) \<longleftrightarrow> r = c + n"
    using w slot_number_inj [of n "r + 1" "c + (n + 1)"] slot_wrap [of n c] by (auto simp: window_ok_def)
  then show ?thesis using w i by (simp add: isFull_def window_ok_def)
qed

lemma is_full_by:
  assumes w: "window_ok n f c r" and k: "k \<le> n"
  shows "isFull_by f k \<longleftrightarrow> c + n < r + k"
proof -
  obtain d where d: "r = c + d" "d \<le> n" using w by (auto simp: window_ok_def le_iff_add)
  have "slot n r = (if slot n c + d \<le> n then slot n c + d else slot n c + d - (n + 1))" unfolding d(1) by (rule slot_add [OF d(2)])
  then show ?thesis using w d k slot_bound [of n c] by (auto simp: isFull_by_def window_ok_def BUFFER_SIZE_def)
qed

lemma batch_begin:
  assumes w: "window_ok n f c r" and k: "0 < k" "k \<le> n" and b: "context_push_begin k f = (ctx, f')" "\<not> isOverflow ctx"
  shows "r + k \<le> c + n" and "fifo_pos_start ctx = slot n r" and "fifo_pos_end ctx = slot n (r + k - 1)" and "index ctx = slot n r"
    and "f' = f\<lparr>tail_reserved := slot n (r + k)\<rparr>"
proof -
  have nf: "\<not> isFull_by f k" using b by (auto simp: context_push_begin_def Let_def split: if_splits)
  then show "r + k \<le> c + n" using is_full_by [OF w k(2)] by simp
  have t: "tail_reserved f = slot n r" "NElements f = n" using w by (simp_all add: window_ok_def)
  have e: "snd (increment_by f (slot n r) (k - 1)) = slot n (r + k - 1)"
  proof -
    obtain m where m: "k = Suc m" "m \<le> n" using k by (cases k) auto
    then show ?thesis using slot_add [OF m(2), of r] t by (simp add: increment_by_def BUFFER_SIZE_def)
  qed
  have i: "increment f (slot n (r + k - 1)) = slot n (r + k)" using increment_slot [OF t(2), of "r + k - 1"] k by simp
  show "fifo_pos_start ctx = slot n r" "fifo_pos_end ctx = slot n (r + k - 1)" "index ctx = slot n r"
    "f' = f\<lparr>tail_reserved := slot n (r + k)\<rparr>"
    using b(1) nf k by (auto simp: context_push_begin_def Let_def t(1) e [unfolded One_nat_def] i [unfolded One_nat_def])
qed

section \<open>Producers\<close>

lemma owns_update:
  "owns (cl(p := (lo, hi))) q i \<longleftrightarrow> (if q = p then lo \<le> i \<and> i < hi else owns cl q i)"
  by (simp add: owns_def)

lemma producer_keeps:
  assumes ok: "producer_ok rem n f xs (lo, hi) ph" and hi: "hi \<le> length xs"
    and st: "\<And>i. lo \<le> i \<Longrightarrow> i < hi \<Longrightarrow> rem (store f') (slot n i) = rem (store f) (slot n i)"
  shows "producer_ok rem n f' (xs @ ys) (lo, hi) ph"
  using ok hi st by (cases ph) (auto simp: stored_def nth_append)

lemma producer_same:
  "producer_ok rem n f xs cl ph \<Longrightarrow> store f' = store f \<Longrightarrow> producer_ok rem n f' xs cl ph"
  by (cases cl; cases ph) (auto simp: stored_def)

section \<open>The steps keep the invariant\<close>

lemma inv_parts:
  assumes "queue_inv rem obj_ok n s"
  shows "window_ok n (fifo s) (length (popped s)) (length (reserved s))" and "claims_ok (length (popped s)) (length (reserved s)) (claims s)"
    and "bits_match n (fifo s) (length (popped s)) (length (reserved s)) (claims s)"
    and "\<And>i. length (popped s) \<le> i \<Longrightarrow> i < length (reserved s) \<Longrightarrow> \<forall>p. \<not> owns (claims s) p i \<Longrightarrow> stored rem n (fifo s) (reserved s) i"
    and "\<And>p. producer_ok rem n (fifo s) (reserved s) (claims s p) (producers s p)"
    and "reader_ok n (fifo s) (reserved s) (length (popped s)) (ch s) (reader s)"
    and "popped s = take (length (popped s)) (reserved s)" and "list_all obj_ok (reserved s)"
  using assms by (auto simp: queue_inv_def Let_def)

lemma reader_keeps:
  assumes "reader_ok n f xs c x rd" and "\<And>q. is_ready f q \<Longrightarrow> is_ready f' q" and "rd = Waiting \<or> c < length xs"
  shows "reader_ok n f' (xs @ ys) c x rd"
  using assms by (cases rd) (auto simp: nth_append)

lemma ready_number:
  assumes "window_ok n f c r" and "bits_match n f c r cl" and "is_ready f (slot n c)"
  shows "c < r" and "\<forall>p. \<not> owns cl p c"
  using assms by (auto simp: bits_match_def window_ok_def)

lemma reader_number:
  assumes "queue_inv rem obj_ok n s" and "reader s \<noteq> Waiting"
  shows "length (popped s) < length (reserved s)" and "is_ready (fifo s) (slot n (length (popped s)))"
proof -
  note i = inv_parts [OF assms(1)]
  show r: "is_ready (fifo s) (slot n (length (popped s)))" using i(6) assms(2) by (cases "reader s") auto
  show "length (popped s) < length (reserved s)" by (rule ready_number(1) [OF i(1,3) r])
qed

lemma owned_inside:
  assumes "queue_inv rem obj_ok n s" and "owns (claims s) p i"
  shows "length (popped s) \<le> i" and "i < length (reserved s)" and "i \<le> length (popped s) + n"
proof -
  have "length (popped s) \<le> i \<and> i < length (reserved s)" "length (reserved s) \<le> length (popped s) + n"
    using inv_parts(1,2) [OF assms(1)] assms(2) by (auto simp: claims_ok_def window_ok_def)
  then show "length (popped s) \<le> i" "i < length (reserved s)" "i \<le> length (popped s) + n" by auto
qed

lemma inv_copy:
  assumes inv: "queue_inv rem obj_ok n s" and j: "owns (claims s) p j"
    and same: "NElements f' = NElements (fifo s)" "bits_ok f' = bits_ok (fifo s)" "head f' = head (fifo s)"
      "tail_reserved f' = tail_reserved (fifo s)" "\<And>q. is_ready f' q = is_ready (fifo s) q"
    and st: "\<And>q. q \<le> n \<Longrightarrow> q \<noteq> slot n j \<Longrightarrow> rem (store f') q = rem (store (fifo s)) q"
    and ok: "producer_ok rem n f' (reserved s) (claims s p) ph"
  shows "queue_inv rem obj_ok n (s\<lparr>fifo := f', producers := (producers s)(p := ph)\<rparr>)"
proof -
  note i = inv_parts [OF inv]
  have other: "rem (store f') (slot n k) = rem (store (fifo s)) (slot n k)"
    if "k \<noteq> j" "length (popped s) \<le> k" "k \<le> length (popped s) + n" for k
    using slot_inj_window [of n k j "length (popped s)"] that owned_inside [OF inv j] by (intro st) auto
  have own: "q = p" if "owns (claims s) q j" for q using i(2) that j by (auto simp: claims_ok_def)
  have prod: "producer_ok rem n f' (reserved s) (claims s q) (producers s q)" if "q \<noteq> p" for q
  proof (cases "claims s q")
    case (Pair lo hi)
    have in_window: "length (popped s) \<le> k \<and> k \<le> length (popped s) + n \<and> k \<noteq> j" if "lo \<le> k" "k < hi" for k
      using owned_inside [OF inv, of q k] own [of q] \<open>q \<noteq> p\<close> that Pair by (auto simp: owns_def)
    have "hi \<le> length (reserved s) \<or> hi \<le> lo"
    proof (cases "lo < hi")
      case True
      then have "owns (claims s) q (hi - 1)" using Pair by (auto simp: owns_def)
      then show ?thesis using owned_inside(2) [OF inv] True by fastforce
    qed simp
    moreover have "producer_ok rem n (fifo s) (reserved s) (lo, hi) (producers s q)" using i(5) [of q] Pair by simp
    moreover have "rem (store f') (slot n k) = rem (store (fifo s)) (slot n k)" if "lo \<le> k" "k < hi" for k
      using in_window [OF that] by (intro other) auto
    ultimately show ?thesis unfolding Pair by (cases "producers s q") (auto simp: stored_def)
  qed
  have st2: "stored rem n f' (reserved s) k"
    if k: "length (popped s) \<le> k" "k < length (reserved s)" "\<forall>q. \<not> owns (claims s) q k" for k
  proof -
    have "k \<noteq> j" "k \<le> length (popped s) + n" using k j i(1) by (auto simp: window_ok_def)
    then show ?thesis using i(4) [OF k] other [OF _ k(1)] by (simp add: stored_def)
  qed
  have rd: "reader_ok n f' (reserved s) (length (popped s)) (ch s) (reader s)"
    using i(6) by (cases "reader s") (auto simp: same)
  show ?thesis using i(1-3,7,8) st2 prod ok rd
    by (simp add: queue_inv_def window_ok_def bits_match_def same)
qed

lemma inv_publish:
  assumes inv: "queue_inv rem obj_ok n s" and cl: "claims s p = (lo, hi)"
    and st: "\<And>i. lo \<le> i \<Longrightarrow> i < hi \<Longrightarrow> stored rem n (fifo s) (reserved s) i"
    and same: "NElements f' = NElements (fifo s)" "bits_ok f' = bits_ok (fifo s)" "head f' = head (fifo s)"
      "tail_reserved f' = tail_reserved (fifo s)" "store f' = store (fifo s)"
    and bits: "\<And>i. length (popped s) \<le> i \<Longrightarrow> i \<le> length (popped s) + n \<Longrightarrow>
      is_ready f' (slot n i) = (is_ready (fifo s) (slot n i) \<or> lo \<le> i \<and> i < hi)"
  shows "queue_inv rem obj_ok n (s\<lparr>fifo := f', producers := (producers s)(p := Idle), claims := (claims s)(p := (0, 0))\<rparr>)"
proof -
  note i = inv_parts [OF inv]
  have own: "owns ((claims s)(p := (0, 0))) q k \<longleftrightarrow> q \<noteq> p \<and> owns (claims s) q k" for q k by (simp add: owns_update)
  have mine: "owns (claims s) p k \<longleftrightarrow> lo \<le> k \<and> k < hi" for k by (simp add: owns_def cl)
  have one: "owns (claims s) q k \<Longrightarrow> owns (claims s) p k \<Longrightarrow> q = p" for q k using i(2) by (auto simp: claims_ok_def)
  have cl': "claims_ok (length (popped s)) (length (reserved s)) ((claims s)(p := (0, 0)))"
    using i(2) unfolding claims_ok_def own by blast
  have b': "bits_match n f' (length (popped s)) (length (reserved s)) ((claims s)(p := (0, 0)))"
    unfolding bits_match_def own
  proof (intro allI impI)
    fix k assume k: "length (popped s) \<le> k \<and> k \<le> length (popped s) + n"
    show "is_ready f' (slot n k) = (k < length (reserved s) \<and> (\<forall>q. \<not> (q \<noteq> p \<and> owns (claims s) q k)))"
      using bits [of k] k i(3) mine [of k] one [of _ k] owned_inside(2) [OF inv, of p k] unfolding bits_match_def by metis
  qed
  have st': "stored rem n f' (reserved s) k"
    if "length (popped s) \<le> k" "k < length (reserved s)" "\<forall>q. \<not> owns ((claims s)(p := (0, 0))) q k" for k
  proof (cases "owns (claims s) p k")
    case True
    then show ?thesis using st [of k] same(5) mine [of k] by (simp add: stored_def)
  next
    case False
    then have "\<forall>q. \<not> owns (claims s) q k" using that(3) by (auto simp: own)
    then show ?thesis using i(4) [of k] that(1,2) same(5) by (simp add: stored_def)
  qed
  have rd: "reader_ok n f' (reserved s) (length (popped s)) (ch s) (reader s)"
    using i(6) bits [of "length (popped s)"] by (cases "reader s") auto
  have prod: "producer_ok rem n f' (reserved s) (((claims s)(p := (0, 0))) q) (((producers s)(p := Idle)) q)" for q
    using producer_same [OF i(5) same(5), of q] by simp
  show ?thesis using i(1,7,8) cl' b' st' rd prod
    by (simp add: queue_inv_def window_ok_def same del: fun_upd_apply)
qed

lemma inv_reserve:
  assumes inv: "queue_inv rem obj_ok n s" and idle: "producers s p = Idle" and x: "list_all obj_ok xs"
    and room: "length (reserved s) + length xs \<le> length (popped s) + n"
    and f: "f' = (fifo s)\<lparr>tail_reserved := slot n (length (reserved s) + length xs)\<rparr>"
    and ok: "producer_ok rem n f' (reserved s @ xs) (length (reserved s), length (reserved s) + length xs) ph"
  shows "queue_inv rem obj_ok n (s\<lparr>fifo := f', producers := (producers s)(p := ph), reserved := reserved s @ xs,
    claims := (claims s)(p := (length (reserved s), length (reserved s) + length xs))\<rparr>)"
proof -
  note i = inv_parts [OF inv]
  let ?r = "length (reserved s)" and ?cl = "(claims s)(p := (length (reserved s), length (reserved s) + length xs))"
  have le: "length (popped s) \<le> ?r" using i(1) by (simp add: window_ok_def)
  have none: "\<not> owns (claims s) p k" for k using i(5) [of p] idle by (cases "claims s p") (auto simp: owns_def)
  have own: "owns ?cl q k \<longleftrightarrow> (if q = p then ?r \<le> k \<and> k < ?r + length xs else owns (claims s) q k)" for q k by (rule owns_update)
  have in_r: "owns (claims s) q k \<Longrightarrow> length (popped s) \<le> k \<and> k < ?r" for q k using i(2) by (auto simp: claims_ok_def)
  have one: "owns (claims s) q k \<Longrightarrow> owns (claims s) q' k \<Longrightarrow> q = q'" for q q' k using i(2) by (auto simp: claims_ok_def)
  have cl': "claims_ok (length (popped s)) (length (reserved s @ xs)) ?cl"
    unfolding claims_ok_def own using in_r one le by (fastforce split: if_splits)
  have all: "(k < ?r + length xs \<and> (\<forall>q. \<not> owns ?cl q k)) = (k < ?r \<and> (\<forall>q. \<not> owns (claims s) q k))" for k
    unfolding own using none [of k] by (auto split: if_splits)
  have b': "bits_match n f' (length (popped s)) (length (reserved s @ xs)) ?cl"
    using i(3) by (simp add: bits_match_def f all del: fun_upd_apply)
  have st': "stored rem n f' (reserved s @ xs) k"
    if "length (popped s) \<le> k" "k < ?r + length xs" "\<forall>q. \<not> owns ?cl q k" for k
    using i(4) [of k] that all [of k] by (auto simp: stored_def f nth_append)
  have prod: "producer_ok rem n f' (reserved s @ xs) (?cl q) (((producers s)(p := ph)) q)" for q
  proof (cases "q = p")
    case False
    obtain lo hi where c: "claims s q = (lo, hi)" by fastforce
    show ?thesis
    proof (cases "lo < hi")
      case True
      then have "owns (claims s) q (hi - 1)" using c by (auto simp: owns_def)
      then have "hi \<le> ?r" using in_r True by fastforce
      then show ?thesis using producer_keeps [of rem n "fifo s" "reserved s" lo hi "producers s q" f' xs] i(5) [of q] c False by (simp add: f)
    next
      case nt: False
      then show ?thesis using i(5) [of q] c False by (cases "producers s q") auto
    qed
  qed (use ok in simp)
  have rd: "reader_ok n f' (reserved s @ xs) (length (popped s)) (ch s) (reader s)"
    using reader_number(1) [OF inv] by (intro reader_keeps [OF i(6)]) (auto simp: f)
  have tk: "popped s = take (length (popped s)) (reserved s @ xs)" using i(7) le by simp
  have w: "window_ok n f' (length (popped s)) (length (reserved s @ xs))" using i(1) room by (simp add: window_ok_def f)
  show ?thesis using w cl' b' st' prod rd tk i(8) x
    by (simp add: queue_inv_def del: fun_upd_apply)
qed

lemma inv_advance:
  assumes inv: "queue_inv rem obj_ok n s" and rd: "reader s = Taken pos"
  shows "queue_inv rem obj_ok n (s\<lparr>fifo := pop_advance pos (fifo s), reader := Waiting, popped := popped s @ [ch s]\<rparr>)"
proof -
  note i = inv_parts [OF inv]
  let ?c = "length (popped s)" and ?f = "pop_advance pos (fifo s)"
  have pos: "pos = slot n ?c" "ch s = reserved s ! ?c" using i(6) rd by simp_all
  have c: "?c < length (reserved s)" "is_ready (fifo s) (slot n ?c)" using reader_number [OF inv] rd by simp_all
  have free: "\<forall>q. \<not> owns (claims s) q ?c" by (rule ready_number(2) [OF i(1,3) c(2)])
  have N: "NElements (fifo s) = n" "bits_ok (fifo s)" using i(1) by (simp_all add: window_ok_def)
  have keeps: "NElements ?f = n" "bits_ok ?f" "tail_reserved ?f = tail_reserved (fifo s)" "store ?f = store (fifo s)"
    "head ?f = slot n (?c + 1)"
    using N i(1) increment_slot [OF N(1), of ?c] by (simp_all add: pop_advance_def window_ok_def)
  have bits: "is_ready ?f q \<longleftrightarrow> is_ready (fifo s) q \<and> q \<noteq> slot n ?c" for q
    using ready_clear [of "fifo s\<lparr>head := increment (fifo s) (head (fifo s))\<rparr>" pos q] N by (simp add: pop_advance_def pos)
  have b': "bits_match n ?f (?c + 1) (length (reserved s)) (claims s)"
    unfolding bits_match_def
  proof (intro allI impI)
    fix k assume k: "?c + 1 \<le> k \<and> k \<le> ?c + 1 + n"
    show "is_ready ?f (slot n k) = (k < length (reserved s) \<and> (\<forall>q. \<not> owns (claims s) q k))"
    proof (cases "k = ?c + (n + 1)")
      case True
      have "slot n k = slot n ?c" unfolding True by (rule slot_wrap)
      then show ?thesis using True i(1) by (simp add: bits window_ok_def)
    next
      case False
      then have "slot n k \<noteq> slot n ?c" using k slot_number_inj [of n ?c k] by auto
      then show ?thesis using i(3) k False by (simp add: bits bits_match_def)
    qed
  qed
  have cl': "claims_ok (?c + 1) (length (reserved s)) (claims s)"
    using i(2) free unfolding claims_ok_def by (metis Suc_eq_plus1 Suc_leI le_neq_implies_less)
  have w: "window_ok n ?f (?c + 1) (length (reserved s))" using i(1) c(1) by (simp add: window_ok_def keeps)
  have tk: "popped s @ [ch s] = take (?c + 1) (reserved s)" using i(7) c(1) pos(2) by (simp add: take_Suc_conv_app_nth)
  have prod: "producer_ok rem n ?f (reserved s) (claims s q) (producers s q)" for q by (rule producer_same [OF i(5) keeps(4)])
  have st': "stored rem n ?f (reserved s) k"
    if "?c + 1 \<le> k" "k < length (reserved s)" "\<forall>q. \<not> owns (claims s) q k" for k
    using i(4) [of k] that by (simp add: stored_def keeps)
  show ?thesis using w cl' b' st' prod tk i(8) c(1) by (simp add: queue_inv_def Let_def min_absorb2 Suc_leI)
qed

context slots
begin

lemma step_inv:
  assumes st: "qstep ins rem obj_ok s s'" and inv: "queue_inv rem obj_ok n s" and n: "n < cap" "8 dvd n"
  shows "queue_inv rem obj_ok n s'"
proof -
  note i = inv_parts [OF inv]
  have N: "NElements (fifo s) = n" "bits_ok (fifo s)" using i(1) by (simp_all add: window_ok_def)
  have ok: "obj_ok (reserved s ! k)" if "k < length (reserved s)" for k using i(8) that by (simp add: list_all_length)
  have cap: "slot n k < cap" for k using slot_bound [of n k] n(1) by linarith
  show ?thesis using st
  proof cases
    case (Push p x pos f)
    have nf: "\<not> isFull (fifo s)" and pos: "pos = tail_reserved (fifo s)"
      and f: "f = (fifo s)\<lparr>tail_reserved := increment (fifo s) (tail_reserved (fifo s))\<rparr>"
      using Push(4) by (auto simp: push_reserve_def split: if_splits)
    have t: "tail_reserved (fifo s) = slot n (length (reserved s))" using i(1) by (simp add: window_ok_def)
    have room: "length (reserved s) + length [x] \<le> length (popped s) + n"
      using is_full [OF i(1)] nf i(1) by (auto simp: window_ok_def)
    have f': "f = (fifo s)\<lparr>tail_reserved := slot n (length (reserved s) + length [x])\<rparr>"
      unfolding f t using increment_slot [OF N(1), of "length (reserved s)"] by simp
    show ?thesis using inv_reserve [OF inv Push(2) _ room f', of "Single pos x"] Push(3) by (simp add: Push(1) pos t)
  next
    case (Copy p pos x)
    obtain lo hi where c: "claims s p = (lo, hi)" by fastforce
    have l: "hi = lo + 1" "pos = slot n lo" "x = reserved s ! lo" using i(5) [of p] Copy(2) c by simp_all
    have j: "owns (claims s) p lo" using c l by (simp add: owns_def)
    note in_r = owned_inside(2) [OF inv j]
    show ?thesis unfolding Copy(1)
      using cap [of lo] n(1) ok [OF in_r]
      by (intro inv_copy [OF inv j]) (simp_all add: c l stored_def push_insert_rem)
  next
    case (Publish p pos)
    obtain lo hi where c: "claims s p = (lo, hi)" by fastforce
    have l: "hi = lo + 1" "pos = slot n lo" "stored rem n (fifo s) (reserved s) lo" using i(5) [of p] Publish(2) c by simp_all
    have j: "owns (claims s) p lo" using c l by (simp add: owns_def)
    have e: "slot n k = slot n lo \<longleftrightarrow> k = lo" if "length (popped s) \<le> k" "k \<le> length (popped s) + n" for k
      using slot_inj_window [OF _ that] owned_inside [OF inv j] by auto
    show ?thesis unfolding Publish(1)
      by (intro inv_publish [OF inv c]) (use l N e in \<open>auto simp: ready_mark less_Suc_eq\<close>)
  next
    case (Open p xs ctx f)
    have k: "0 < length xs" "length xs \<le> n" using Open(4,5) N by auto
    note b = batch_begin [OF i(1) k Open(6,7)]
    show ?thesis unfolding Open(1)
    proof (rule inv_reserve [OF inv Open(2,3) b(1,5)])
      show "producer_ok rem n f (reserved s @ xs) (length (reserved s), length (reserved s) + length xs) (Batch ctx xs)"
        using Open(4,5,7) b(2-4) N by (auto simp: nth_append)
    qed
  next
    case (One p ctx x xs okb ctx' f)
    obtain lo hi where c: "claims s p = (lo, hi)" by fastforce
    let ?j = "hi - Suc (length xs)"
    have l: "lo < hi" "hi + 6 \<le> lo + n" "lo + Suc (length xs) \<le> hi" "\<not> isOverflow ctx" "index ctx = slot n ?j"
      "fifo_pos_start ctx = slot n lo" "fifo_pos_end ctx = slot n (hi - 1)"
      "x = reserved s ! ?j" "\<And>k. k < length xs \<Longrightarrow> xs ! k = reserved s ! (hi - length xs + k)"
      "\<And>i. lo \<le> i \<Longrightarrow> i < ?j \<Longrightarrow> stored rem n (fifo s) (reserved s) i"
    proof -
      have p: "producer_ok rem n (fifo s) (reserved s) (lo, hi) (Batch ctx (x # xs))" using i(5) [of p] One(2) c by simp
      then have ys: "(x # xs) ! k = reserved s ! (hi - Suc (length xs) + k)" if "k < Suc (length xs)" for k using that by auto
      show "x = reserved s ! ?j" using ys [of 0] by simp
      show "xs ! k = reserved s ! (hi - length xs + k)" if "k < length xs" for k
        using ys [of "Suc k"] that p by (simp add: Suc_diff_Suc)
    qed (use i(5) [of p] One(2) c in auto)
    have j: "owns (claims s) p ?j" using c l by (auto simp: owns_def)
    note in_r = owned_inside [OF inv j]
    have differ: "index ctx \<noteq> tail_reserved (fifo s)"
      using slot_inj_window [of n ?j "length (reserved s)" "length (popped s)"] in_r i(1) by (auto simp: l(5) window_ok_def)
    have r: "f = push_insert ins (slot n ?j) x (fifo s)" "ctx' = ctx\<lparr>index := slot n (?j + 1)\<rparr>"
      using One(3) differ l(4) cap [of ?j] ok [OF in_r(2)] ins_ok increment_slot [OF N(1), of ?j]
      by (auto simp: context_push_one_def l(5) simp flip: l(8) split: if_splits)
    have s: "?j + 1 = hi - length xs" using l(3) by linarith
    have sk: "stored rem n f (reserved s) k" if k: "lo \<le> k" "k < ?j + 1" for k
    proof -
      have w: "length (popped s) \<le> k" "k \<le> length (popped s) + n"
        using owned_inside [OF inv, of p k] k l(3) c by (auto simp: owns_def)
      show ?thesis
      proof (cases "k = ?j")
        case True
        then show ?thesis using cap [of ?j] ok [OF in_r(2)] by (simp add: stored_def r push_insert_rem l(8))
      next
        case False
        then have "slot n k \<noteq> slot n ?j" using slot_inj_window [OF _ w] in_r by blast
        then show ?thesis using cap ok [OF in_r(2)] l(10) [of k] k False by (simp add: stored_def r push_insert_rem l(8))
      qed
    qed
    have pok: "producer_ok rem n f (reserved s) (claims s p) (Batch ctx' xs)"
      using l sk unfolding c r(2) s by (simp add: s)
    show ?thesis unfolding One(1)
      using cap n(1) ok [OF in_r(2)]
      by (intro inv_copy [OF inv j _ _ _ _ _ _ pok]) (simp_all add: r l(8) push_insert_rem)
  next
    case (Close p ctx)
    obtain lo hi where c: "claims s p = (lo, hi)" by fastforce
    have l: "lo < hi" "hi + 6 \<le> lo + n" "\<not> isOverflow ctx" "fifo_pos_start ctx = slot n lo" "fifo_pos_end ctx = slot n (hi - 1)"
      "\<And>i. lo \<le> i \<Longrightarrow> i < hi \<Longrightarrow> stored rem n (fifo s) (reserved s) i"
      using i(5) [of p] Close(2) c by auto
    have o: "owns (claims s) p lo" "owns (claims s) p (hi - 1)" using c l by (auto simp: owns_def)
    have w: "hi - 1 < length (popped s) + n" using owned_inside(2) [OF inv o(2)] i(1) by (auto simp: window_ok_def)
    have m: "hi - 1 = lo + (hi - 1 - lo)" using l(1) by linarith
    have bits: "is_ready (context_push_end ctx (fifo s)) (slot n k) = (is_ready (fifo s) (slot n k) \<or> lo \<le> k \<and> k < hi)"
      if k: "length (popped s) \<le> k" "k \<le> length (popped s) + n" for k
    proof -
      have "batch_marks n (slot n lo) (slot n (lo + (hi - 1 - lo))) (slot n k) \<longleftrightarrow> lo \<le> k \<and> k \<le> lo + (hi - 1 - lo)"
        using l(1,2) w m owned_inside(1) [OF inv o(1)] by (intro batch_slots [OF n(2) _ k]) linarith+
      moreover have "k \<le> lo + (hi - 1 - lo) \<longleftrightarrow> k < hi" using l(1) by linarith
      ultimately have "batch_marks n (slot n lo) (slot n (hi - 1)) (slot n k) \<longleftrightarrow> lo \<le> k \<and> k < hi" unfolding m [symmetric] by simp
      then show ?thesis using batch_ready [OF N(2), of ctx "slot n k"] N(1) l(3-5) by simp
    qed
    show ?thesis unfolding Close(1)
      by (intro inv_publish [OF inv c]) (use l(6) bits in auto)
  next
    case (Check pos)
    then have "pos = slot n (length (popped s))" "is_ready (fifo s) pos"
      using i(1) by (auto simp: pop_check_def window_ok_def split: if_splits)
    then show ?thesis using inv unfolding Check(1) by (auto simp: queue_inv_def Let_def)
  next
    case (Take pos)
    have r: "length (popped s) < length (reserved s)" "is_ready (fifo s) (slot n (length (popped s)))"
      using reader_number [OF inv] Take(2) by simp_all
    have p: "pos = slot n (length (popped s))" using i(6) Take(2) by simp
    have "stored rem n (fifo s) (reserved s) (length (popped s))" using i(4) ready_number [OF i(1,3) r(2)] by blast
    then have "pop_read rem (fifo s) pos (ch s) = reserved s ! length (popped s)" by (simp add: pop_read_def p stored_def)
    then show ?thesis using inv p r(2) unfolding Take(1) by (auto simp: queue_inv_def Let_def)
  next
    case (Advance pos)
    show ?thesis unfolding Advance(1) by (rule inv_advance [OF inv Advance(2)])
  qed
qed

lemma start_inv: "queue_inv rem obj_ok n (qstart n st x)"
proof -
  have "slot n 0 = 0" by (simp add: slot_def)
  then show ?thesis
    by (auto simp: queue_inv_def qstart_def window_ok_def claims_ok_def owns_def bits_match_def ready_init bits_init)
      (simp_all add: fifo_init_def)
qed

theorem reach_inv:
  assumes "(qstep ins rem obj_ok)\<^sup>*\<^sup>* (qstart n st x) s" and "n < cap" "8 dvd n"
  shows "queue_inv rem obj_ok n s"
  using assms by (induction rule: rtranclp_induct) (auto intro: start_inv step_inv)

end

end
