(* ===== verification/MemPool.thy ===== *)
theory MemPool
  imports CPrelude
begin

text \<open>
  The memory blocks of \<open>common/include/carbon/pool.hpp\<close>: \<open>MemoryAllocatorRaw\<close>, which divides a region into aligned blocks, \<open>Buffer\<close>, which
  copies objects into and out of them, and \<open>Stack\<close>. The template parameters are arguments; an object is the list of its
  bytes, memory a function from addresses to bytes.
\<close>

type_synonym bytes = "u32 \<Rightarrow> u8"

record allocator =
  sizeTotalBytes :: u32
  alignedBlockSize :: u32
  startAddress :: u32
  firstAlignedAddress :: u32
  alignedAddress :: u32
  nAlignedElements :: u32

definition align_up :: "u32 \<Rightarrow> u32 \<Rightarrow> u32" where
  \<comment> \<open>\<open>alignBlockSize\<close> and \<open>alignAddress\<close>\<close>
  "align_up v a = (v + a - 1) AND NOT (a - 1)"

definition getNumberOfElements :: "u32 \<Rightarrow> u32 \<Rightarrow> u32 \<Rightarrow> u32 \<Rightarrow> u32" where
  "getNumberOfElements addr bufferSize objectSize a =
     (let startAddr = align_up addr a;
          endAddr = (if startAddr < addr + bufferSize then addr + bufferSize else startAddr)
      in (endAddr - startAddr) div align_up objectSize a)"

definition allocator_init :: "u32 \<Rightarrow> u32 \<Rightarrow> u32 \<Rightarrow> u32 \<Rightarrow> allocator" where
  "allocator_init blockSize a start sz =
     \<lparr>sizeTotalBytes = sz, alignedBlockSize = align_up blockSize a, startAddress = start, firstAlignedAddress = align_up start a,
       alignedAddress = align_up start a, nAlignedElements = getNumberOfElements start sz blockSize a\<rparr>"

definition interateBlock :: "u32 \<Rightarrow> allocator \<Rightarrow> u32 option \<times> allocator" where
  "interateBlock a al =
     (if startAddress al + sizeTotalBytes al \<le> alignedAddress al then (None, al)
      else let block = align_up (alignedAddress al) a in (Some block, al\<lparr>alignedAddress := block + alignedBlockSize al\<rparr>))"

definition getBlock :: "allocator \<Rightarrow> u32 \<Rightarrow> u32 option" where
  "getBlock al index =
     (let block = firstAlignedAddress al + index * alignedBlockSize al
      in if startAddress al + sizeTotalBytes al \<le> block then None else Some block)"

definition blockBelongs :: "u32 \<Rightarrow> allocator \<Rightarrow> u32 \<Rightarrow> bool" where
  "blockBelongs a al block \<longleftrightarrow> startAddress al \<le> block \<and>
     block < firstAlignedAddress al + alignedBlockSize al * nAlignedElements al \<and> block = align_up block a"

definition allocator_reset :: "allocator \<Rightarrow> allocator" where
  "allocator_reset al = al\<lparr>alignedAddress := firstAlignedAddress al\<rparr>"

section \<open>Buffer\<close>

primrec memcpy :: "bytes \<Rightarrow> u32 \<Rightarrow> u8 list \<Rightarrow> bytes" where
  "memcpy m a [] = m"
| "memcpy m a (b # bs) = (memcpy m (a + 1) bs)(a := b)"

definition copy_out :: "bytes \<Rightarrow> u32 \<Rightarrow> nat \<Rightarrow> u8 list" where
  "copy_out m a n = map (\<lambda>i. m (a + of_nat i)) [0 ..< n]"

definition no_space :: "allocator \<Rightarrow> u32 \<Rightarrow> u32 \<Rightarrow> bool" where
  \<comment> \<open>the check of the versions for objects that fill their block\<close>
  "no_space al osize block \<longleftrightarrow> osize = alignedBlockSize al \<and> startAddress al + sizeTotalBytes al < block + osize"

definition buffer_insert :: "allocator \<Rightarrow> u32 \<Rightarrow> bytes \<Rightarrow> u8 list \<Rightarrow> u32 \<Rightarrow> bool \<times> bytes" where
  \<comment> \<open>for one object, of \<open>osize\<close> bytes\<close>
  "buffer_insert al osize m obj index =
     (case getBlock al index of
        None \<Rightarrow> (False, m)
      | Some block \<Rightarrow> if no_space al osize block then (False, m) else (True, memcpy m block obj))"

definition buffer_remove :: "allocator \<Rightarrow> u32 \<Rightarrow> bytes \<Rightarrow> u32 \<Rightarrow> u8 list option" where
  "buffer_remove al osize m index =
     (case getBlock al index of
        None \<Rightarrow> None
      | Some block \<Rightarrow> if no_space al osize block then None else Some (copy_out m block (unat osize)))"

section \<open>Stack\<close>

record 'a stack =
  stack_size :: nat
  top :: u32
  stack_data :: "'a list"  \<comment> \<open>one element more than the size\<close>

definition stack_push :: "'a \<Rightarrow> 'a stack \<Rightarrow> (bool \<times> 'a stack) option" where
  "stack_push x s =
     (if unat (top s) \<noteq> stack_size s then
        if unat (top s) < length (stack_data s) then Some (True, s\<lparr>stack_data := (stack_data s)[unat (top s) := x], top := top s + 1\<rparr>) else None
      else Some (False, s))"

definition stack_pop :: "'a stack \<Rightarrow> ('a option \<times> 'a stack) option" where
  "stack_pop s =
     (if unat (top s) \<noteq> stack_size s then
        if unat (top s) < length (stack_data s) then Some (Some (stack_data s ! unat (top s)), s\<lparr>top := top s - 1\<rparr>) else None
      else Some (None, s))"

section \<open>Blocks\<close>

definition region_ok :: "nat \<Rightarrow> u32 \<Rightarrow> u32 \<Rightarrow> u32 \<Rightarrow> bool" where
  \<comment> \<open>an alignment of \<open>2 ^ k\<close>, objects that are not empty, and a region that does not wrap around\<close>
  "region_ok k blockSize start sz \<longleftrightarrow> k < 31 \<and> 0 < blockSize \<and> unat blockSize + 2 ^ k \<le> 2 ^ 32 \<and> unat start + 2 ^ k \<le> 2 ^ 32 \<and>
     unat start + unat sz < 2 ^ 32"

lemma align_up_mask: "align_up v (2 ^ k) = (v + mask k) AND NOT (mask k)"
  by (simp add: align_up_def mask_eq_exp_minus_1 algebra_simps)

lemma align_up_aligned: "align_up v (2 ^ k) AND mask k = 0"
  unfolding align_up_mask by (rule bit_word_eqI) (auto simp: bit_simps)

lemma unat_mask: "k < 32 \<Longrightarrow> unat (mask k :: u32) = 2 ^ k - 1"
proof -
  assume "k < 32"
  then have "(2 :: nat) ^ k < 2 ^ 32" by (intro power_strict_increasing) auto
  then have l: "(2 :: nat) ^ k - 1 < 2 ^ 32" by linarith
  have "(mask k :: u32) = of_nat (2 ^ k - 1)" by (simp add: mask_eq_exp_minus_1)
  then have "unat (mask k :: u32) = (2 ^ k - 1) mod 2 ^ 32" by (simp only: unat_of_nat) simp
  then show ?thesis using l by (simp only: mod_less)
qed

lemma mask_parts: "(w AND m) + (w AND NOT m) = (w :: u32)"
proof -
  have "(w AND m) + (w AND NOT m) = (w AND m) OR (w AND NOT m)" by (rule disjunctive_add) (auto simp: bit_simps)
  also have "\<dots> = w" by (rule bit_word_eqI) (auto simp: bit_simps)
  finally show ?thesis .
qed

lemma align_up_ge:
  assumes "k < 32" and "unat v + 2 ^ k \<le> 2 ^ 32"
  shows "unat v \<le> unat (align_up v (2 ^ k))" and "unat (align_up v (2 ^ k)) \<le> unat v + 2 ^ k - 1"
proof -
  let ?w = "v + mask k"
  have w: "unat ?w = unat v + (2 ^ k - 1)"
    using assms by (simp add: unat_word_ariths unat_mask take_bit_nat_eq_self)
  have p: "0 < (2 :: nat) ^ k" by simp
  have "?w AND NOT (mask k) = ?w - (?w AND mask k)"
    by (metis add_diff_cancel_left' mask_parts)
  moreover have le: "?w AND mask k \<le> ?w" by (rule word_and_le2)
  ultimately have u: "unat (align_up v (2 ^ k)) = unat ?w - unat (?w AND mask k)"
    unfolding align_up_mask by (simp only: unat_sub)
  have "unat (?w AND mask k) \<le> 2 ^ k - 1" using unat_and_le [of ?w "mask k"] assms(1) by (simp add: unat_mask)
  then show "unat v \<le> unat (align_up v (2 ^ k))" and "unat (align_up v (2 ^ k)) \<le> unat v + 2 ^ k - 1"
    using u w p by linarith+
qed

lemma allocator_geometry:
  assumes r: "region_ok k blockSize start sz" and al: "al = allocator_init blockSize (2 ^ k) start sz"
  shows "unat start \<le> unat (firstAlignedAddress al)" and "unat blockSize \<le> unat (alignedBlockSize al)"
    and "0 < unat (nAlignedElements al) \<Longrightarrow>
      unat (firstAlignedAddress al) + unat (nAlignedElements al) * unat (alignedBlockSize al) \<le> unat start + unat sz"
    and "firstAlignedAddress al AND mask k = 0" and "alignedBlockSize al AND mask k = 0"
proof -
  have k: "k < 32" "unat start + 2 ^ k \<le> 2 ^ 32" "unat blockSize + 2 ^ k \<le> 2 ^ 32" using r by (simp_all add: region_ok_def)
  show "unat start \<le> unat (firstAlignedAddress al)" "unat blockSize \<le> unat (alignedBlockSize al)"
    using align_up_ge(1) [OF k(1,2)] align_up_ge(1) [OF k(1,3)] by (simp_all add: al allocator_init_def)
  show "firstAlignedAddress al AND mask k = 0" "alignedBlockSize al AND mask k = 0"
    by (simp_all add: al allocator_init_def align_up_aligned)
  let ?f = "align_up start (2 ^ k)" and ?b = "align_up blockSize (2 ^ k)"
  assume n: "0 < unat (nAlignedElements al)"
  have e: "unat (start + sz) = unat start + unat sz" using r by (simp add: region_ok_def unat_word_ariths take_bit_nat_eq_self)
  have f: "?f < start + sz"
    using n by (rule_tac ccontr) (simp add: al allocator_init_def getNumberOfElements_def Let_def)
  then have d: "unat (start + sz - ?f) = unat (start + sz) - unat ?f" by (intro unat_sub) simp
  have "unat (nAlignedElements al) = (unat (start + sz) - unat ?f) div unat ?b"
    using f d by (simp add: al allocator_init_def getNumberOfElements_def Let_def unat_div)
  then have "unat (nAlignedElements al) * unat ?b \<le> unat (start + sz) - unat ?f" by simp
  moreover have "unat ?f \<le> unat (start + sz)" using f by (simp add: word_less_nat_alt)
  ultimately show "unat (firstAlignedAddress al) + unat (nAlignedElements al) * unat (alignedBlockSize al) \<le> unat start + unat sz"
    using e by (simp add: al allocator_init_def)
qed

lemma getBlock_inside:
  assumes r: "region_ok k blockSize start sz" and al: "al = allocator_init blockSize (2 ^ k) start sz" and i: "i < unat (nAlignedElements al)"
  shows "\<exists>b. getBlock al (of_nat i) = Some b \<and> unat b = unat (firstAlignedAddress al) + i * unat (alignedBlockSize al) \<and>
    unat b + unat (alignedBlockSize al) \<le> unat start + unat sz \<and> b AND mask k = 0"
proof -
  let ?f = "firstAlignedAddress al" and ?B = "alignedBlockSize al" and ?n = "nAlignedElements al"
  note g = allocator_geometry [OF r al]
  have lim: "unat ?f + unat ?n * unat ?B \<le> unat start + unat sz" using g(3) i by simp
  have step: "unat ?f + i * unat ?B + unat ?B \<le> unat ?f + unat ?n * unat ?B"
    using mult_le_mono1 [of "Suc i" "unat ?n" "unat ?B"] i by simp
  have "0 < unat blockSize" using r by (simp add: region_ok_def word_less_nat_alt)
  then have ends: "unat start + unat sz < 2 ^ 32" "0 < unat ?B" using r g(2) by (simp_all add: region_ok_def)
  have iw: "unat (of_nat i :: u32) = i" using i unsigned_less [of ?n, where 'a = nat] by (simp add: unat_of_nat take_bit_nat_eq_self)
  have small: "i * unat ?B < 2 ^ 32" "unat ?f + i * unat ?B < 2 ^ 32" using step lim ends by linarith+
  have m: "unat (of_nat i * ?B) = i * unat ?B"
    using small(1) iw unat_mult_lem [of "of_nat i :: u32" ?B] by simp
  then have u: "unat (?f + of_nat i * ?B) = unat ?f + i * unat ?B"
    using small(2) unat_add_lem [of ?f "of_nat i * ?B"] by simp
  have e: "unat (start + sz) = unat start + unat sz" using r by (simp add: region_ok_def unat_word_ariths take_bit_nat_eq_self)
  have "\<not> start + sz \<le> ?f + of_nat i * ?B" using u e step lim ends by (simp add: word_le_nat_alt)
  then have b: "getBlock al (of_nat i) = Some (?f + of_nat i * ?B)" using al by (simp add: getBlock_def Let_def allocator_init_def)
  have "2 ^ k dvd unat ?f + i * unat ?B"
    using g(4,5) by (simp add: and_mask_dvd_nat [symmetric])
  then have "(?f + of_nat i * ?B) AND mask k = 0" using u by (simp only: and_mask_dvd_nat [symmetric])
  then show ?thesis using b u step lim by (auto intro!: exI [of _ "?f + of_nat i * ?B"])
qed

lemma block_space:
  assumes r: "region_ok k blockSize start sz" and al: "al = allocator_init blockSize (2 ^ k) start sz" and i: "i < unat (nAlignedElements al)"
    and b: "getBlock al (of_nat i) = Some b"
  shows "\<not> no_space al blockSize b"
proof -
  note g = getBlock_inside [OF r al i] allocator_geometry(2) [OF r al]
  have "unat b + unat blockSize \<le> unat start + unat sz" using g b by auto
  moreover have "unat start + unat sz < 2 ^ 32" using r by (simp add: region_ok_def)
  ultimately have "b + blockSize \<le> start + sz"
    by (simp add: word_le_nat_alt unat_word_ariths take_bit_nat_eq_self)
  then show ?thesis using al by (simp add: no_space_def allocator_init_def not_less)
qed

section \<open>Copies\<close>

lemma memcpy_outside: "(\<forall>i < length bs. c \<noteq> a + of_nat i) \<Longrightarrow> memcpy m a bs c = m c"
proof (induction bs arbitrary: a)
  case (Cons b bs)
  have "c \<noteq> a" using Cons.prems by auto
  moreover have "\<forall>i < length bs. c \<noteq> (a + 1) + of_nat i"
    using Cons.prems by (auto simp: algebra_simps dest: spec [of _ "Suc _"])
  ultimately show ?case using Cons.IH by simp
qed simp

lemma memcpy_inside: "i < length bs \<Longrightarrow> length bs \<le> 2 ^ 32 \<Longrightarrow> memcpy m a bs (a + of_nat i) = bs ! i"
proof (induction bs arbitrary: a i)
  case (Cons b bs)
  show ?case
  proof (cases i)
    case (Suc j)
    have "(of_nat (Suc j) :: u32) \<noteq> 0" using Cons.prems Suc by (simp only: word_of_nat_eq_0_iff) (auto dest: dvd_imp_le)
    moreover have "memcpy m (a + 1) bs ((a + 1) + of_nat j) = bs ! j" using Cons Suc by (intro Cons.IH) auto
    ultimately show ?thesis using Suc by (simp add: algebra_simps)
  qed simp
qed simp

lemma read_memcpy: "length bs \<le> 2 ^ 32 \<Longrightarrow> copy_out (memcpy m a bs) a (length bs) = bs"
  by (rule nth_equalityI) (simp_all add: copy_out_def memcpy_inside)

lemma read_memcpy_other:
  assumes "unat a + length bs \<le> unat c \<or> unat c + n \<le> unat a" and "unat a + length bs < 2 ^ 32" "unat c + n < 2 ^ 32"
  shows "copy_out (memcpy m a bs) c n = copy_out m c n"
proof -
  have "memcpy m a bs (c + of_nat i) = m (c + of_nat i)" if "i < n" for i
  proof (rule memcpy_outside, intro allI impI)
    fix j assume j: "j < length bs"
    have "unat (c + of_nat i) = unat c + i" "unat (a + of_nat j) = unat a + j"
      using assms(2,3) that j by (simp_all add: unat_word_ariths unat_of_nat take_bit_nat_eq_self)
    moreover have "unat c + i \<noteq> unat a + j" using assms(1) that j by linarith
    ultimately show "c + of_nat i \<noteq> a + of_nat j" by metis
  qed
  then show ?thesis by (simp add: copy_out_def)
qed

end
