(* ===== verification/FifoBuf.thy ===== *)
theory FifoBuf
  imports FifoInv MemPool
begin

text \<open>
  The storage of the queue: \<open>Buffer\<close> of \<open>pool.hpp\<close> over \<open>MemoryAllocatorRaw\<close>. The slots of the queue are the blocks of the allocator;
  they keep what is put into them, because blocks do not overlap and stay inside the region.
\<close>

definition fifo_ins :: "nat \<Rightarrow> u32 \<Rightarrow> u32 \<Rightarrow> u32 \<Rightarrow> (bytes, u8 list) inserter" where
  \<comment> \<open>\<open>buffer_.insert(&object, index)\<close>\<close>
  "fifo_ins k blockSize start sz m i obj = buffer_insert (allocator_init blockSize (2 ^ k) start sz) blockSize m obj (of_nat i)"

definition fifo_rem :: "nat \<Rightarrow> u32 \<Rightarrow> u32 \<Rightarrow> u32 \<Rightarrow> (bytes, u8 list) remover" where
  \<comment> \<open>\<open>buffer_.remove(&object, index)\<close>\<close>
  "fifo_rem k blockSize start sz m i = buffer_remove (allocator_init blockSize (2 ^ k) start sz) blockSize m (of_nat i)"

definition capacity :: "nat \<Rightarrow> u32 \<Rightarrow> u32 \<Rightarrow> u32 \<Rightarrow> nat" where
  "capacity k blockSize start sz =
     (if region_ok k blockSize start sz then unat (getNumberOfElements start sz blockSize (2 ^ k)) else 0)"

lemma capacityD:
  assumes "i < capacity k blockSize start sz"
  shows "region_ok k blockSize start sz" and "i < unat (nAlignedElements (allocator_init blockSize (2 ^ k) start sz))"
  using assms by (simp_all add: capacity_def allocator_init_def split: if_splits)

lemma block_of_slot:
  assumes i: "i < capacity k blockSize start sz"
  obtains b where "getBlock (allocator_init blockSize (2 ^ k) start sz) (of_nat i) = Some b"
    and "\<not> no_space (allocator_init blockSize (2 ^ k) start sz) blockSize b"
    and "unat b = unat (align_up start (2 ^ k)) + i * unat (align_up blockSize (2 ^ k))"
    and "unat b + unat (align_up blockSize (2 ^ k)) < 2 ^ 32"
    and "unat blockSize \<le> unat (align_up blockSize (2 ^ k))"
proof -
  note c = capacityD [OF i]
  note g = getBlock_inside [OF c(1) refl c(2)]
  obtain b where b: "getBlock (allocator_init blockSize (2 ^ k) start sz) (of_nat i) = Some b"
    "unat b = unat (align_up start (2 ^ k)) + i * unat (align_up blockSize (2 ^ k))"
    "unat b + unat (align_up blockSize (2 ^ k)) \<le> unat start + unat sz"
    using g by (auto simp: allocator_init_def)
  have "unat b + unat (align_up blockSize (2 ^ k)) < 2 ^ 32" using b(3) c(1) by (simp add: region_ok_def)
  moreover have "unat blockSize \<le> unat (align_up blockSize (2 ^ k))"
    using allocator_geometry(2) [OF c(1) refl] by (simp add: allocator_init_def)
  ultimately show thesis using that b(1,2) block_space [OF c(1) refl c(2) b(1)] by blast
qed

lemma slot_keeps:
  assumes i: "i < capacity k blockSize start sz" and x: "length x = unat blockSize"
  shows "fst (fifo_ins k blockSize start sz m i x)"
    and "fifo_rem k blockSize start sz (snd (fifo_ins k blockSize start sz m i x)) i = Some x"
proof -
  have l: "length x \<le> 2 ^ 32" using x unsigned_less [of blockSize, where 'a = nat] by simp
  show "fst (fifo_ins k blockSize start sz m i x)"
    and "fifo_rem k blockSize start sz (snd (fifo_ins k blockSize start sz m i x)) i = Some x"
    by (rule block_of_slot [OF i],
        use read_memcpy [OF l] in \<open>simp add: fifo_rem_def fifo_ins_def buffer_insert_def buffer_remove_def x\<close>)+
qed

lemma slot_keeps_other:
  assumes i: "i < capacity k blockSize start sz" and j: "j < capacity k blockSize start sz" and "i \<noteq> j" and x: "length x = unat blockSize"
  shows "fifo_rem k blockSize start sz (snd (fifo_ins k blockSize start sz m i x)) j = fifo_rem k blockSize start sz m j"
proof -
  let ?B = "unat (align_up blockSize (2 ^ k))" and ?al = "allocator_init blockSize (2 ^ k) start sz"
  obtain b where b: "getBlock ?al (of_nat i) = Some b" "\<not> no_space ?al blockSize b"
    "unat b = unat (align_up start (2 ^ k)) + i * ?B" "unat b + ?B < 2 ^ 32" "unat blockSize \<le> ?B"
    by (rule block_of_slot [OF i])
  obtain c where c: "getBlock ?al (of_nat j) = Some c" "\<not> no_space ?al blockSize c"
    "unat c = unat (align_up start (2 ^ k)) + j * ?B" "unat c + ?B < 2 ^ 32"
    by (rule block_of_slot [OF j])
  have "Suc i * ?B \<le> j * ?B \<or> Suc j * ?B \<le> i * ?B"
    using \<open>i \<noteq> j\<close> by (metis Suc_leI linorder_neqE_nat mult_le_mono1)
  then have "unat b + length x \<le> unat c \<or> unat c + unat blockSize \<le> unat b" using b(3,5) c(3) x by auto
  then have "copy_out (memcpy m b x) c (unat blockSize) = copy_out m c (unat blockSize)"
    using b(4,5) c(4) x by (intro read_memcpy_other) linarith+
  then show ?thesis using b c by (simp add: fifo_rem_def fifo_ins_def buffer_insert_def buffer_remove_def)
qed

interpretation buf: slots "fifo_ins k blockSize start sz" "fifo_rem k blockSize start sz" "capacity k blockSize start sz"
    "\<lambda>x. length x = unat blockSize" for k blockSize start sz
  by unfold_locales (simp_all add: slot_keeps slot_keeps_other)

end
