(* ===== verification/DiagLog.thy ===== *)
theory DiagLog
  imports FifoBuf
begin

text \<open>
  The log of both cores, \<open>common/src/diag.cpp\<close> over the queue \<open>diagFifo\<close> of \<open>shared_memory.hpp\<close>: a message is pushed as one batch, the
  consumer pops characters and sends them through the UART. The characters a format and its arguments give are an argument here; \<open>DiagPrint\<close> has
  the functions with their formats.
\<close>

definition fifo_setup :: "nat \<Rightarrow> u32 \<Rightarrow> u32 \<Rightarrow> u32 \<Rightarrow> nat \<Rightarrow> bytes \<Rightarrow> bool \<times> bytes fifo" where
  \<comment> \<open>the constructor and \<open>init\<close>\<close>
  "fifo_setup k blockSize start sz n m =
     (\<not> unat (nAlignedElements (allocator_init blockSize (2 ^ k) start sz)) < n + 1, fifo_init n m)"

fun diag_output :: "('m, 'a) inserter \<Rightarrow> 'a list \<Rightarrow> context_push \<Rightarrow> 'm fifo \<Rightarrow> context_push \<times> 'm fifo" where
  \<comment> \<open>\<open>vfctprintf\<close> with \<open>fifo_output\<close>, once for each character\<close>
  "diag_output ins [] c f = (c, f)"
| "diag_output ins (x # xs) c f = (case context_push_one ins x c f of (_, c, f) \<Rightarrow> diag_output ins xs c f)"

definition carbon_diag_push :: "('m, 'a) inserter \<Rightarrow> 'a list \<Rightarrow> 'm fifo \<Rightarrow> bool \<times> 'm fifo" where
  \<comment> \<open>without interruption; \<open>False\<close> is the overflow, which prints question marks\<close>
  "carbon_diag_push ins msg f =
     (case context_push_begin (length msg) f of
        (c, f) \<Rightarrow>
          if isOverflow c then (False, context_push_end c f)
          else case diag_output ins msg c f of (c, f) \<Rightarrow> (True, context_push_end c f))"

partial_function (option) carbon_diag_pull :: "('m, 'a) remover \<Rightarrow> 'a \<Rightarrow> 'm fifo \<Rightarrow> ('a list \<times> 'm fifo) option" where
  \<comment> \<open>with the characters sent; \<open>x\<close> is the variable \<open>ch\<close>\<close>
  "carbon_diag_pull rem x f =
     (case fifo_pop rem x f of
        (more_chars, x, f) \<Rightarrow>
          if more_chars then Option.bind (carbon_diag_pull rem x f) (\<lambda>(out, f). Some (x # out, f)) else Some ([], f))"

section \<open>A message as steps\<close>

definition quiet :: "('m, 'a) qstate \<Rightarrow> bool" where
  \<comment> \<open>no producer and no consumer in the middle of a call\<close>
  "quiet s \<longleftrightarrow> (\<forall>p. producers s p = Idle) \<and> reader s = Waiting"

context slots
begin

lemma output_steps:
  "producers s p = Batch c xs \<Longrightarrow> diag_output ins xs c (fifo s) = (c', f') \<Longrightarrow>
    (qstep ins rem obj_ok)\<^sup>*\<^sup>* s (s\<lparr>fifo := f', producers := (producers s)(p := Batch c' [])\<rparr>)"
proof (induction xs arbitrary: c s)
  case Nil
  then have "s\<lparr>fifo := f', producers := (producers s)(p := Batch c' [])\<rparr> = s" by (simp add: fun_upd_idem)
  then show ?case by (simp only: rtranclp.rtrancl_refl)
next
  case (Cons x xs)
  obtain ok c1 f1 where o: "context_push_one ins x c (fifo s) = (ok, c1, f1)" by (metis prod_cases3)
  let ?s = "s\<lparr>fifo := f1, producers := (producers s)(p := Batch c1 xs)\<rparr>"
  have "qstep ins rem obj_ok s ?s" by (rule One [where p = p, OF Cons.prems(1) o])
  moreover have "(qstep ins rem obj_ok)\<^sup>*\<^sup>* ?s (?s\<lparr>fifo := f', producers := (producers ?s)(p := Batch c' [])\<rparr>)"
    using Cons.prems(2) by (intro Cons.IH [where c = c1]) (simp_all add: o)
  ultimately show ?case by (simp add: converse_rtranclp_into_rtranclp del: fun_upd_apply)
qed

lemma message_pushed:
  assumes inv: "queue_inv rem obj_ok n s" and q: "quiet s" and m: "msg \<noteq> []" "list_all obj_ok msg" "length msg + 6 \<le> n"
    and room: "length (reserved s) + length msg \<le> length (popped s) + n"
  shows "\<exists>s'. (qstep ins rem obj_ok)\<^sup>*\<^sup>* s s' \<and> quiet s' \<and> carbon_diag_push ins msg (fifo s) = (True, fifo s') \<and>
    reserved s' = reserved s @ msg \<and> popped s' = popped s \<and> ch s' = ch s"
proof -
  note i = inv_parts [OF inv]
  obtain c f where b: "context_push_begin (length msg) (fifo s) = (c, f)" by fastforce
  have o: "\<not> isOverflow c"
    using b is_full_by [OF i(1), of "length msg"] m(3) room by (auto simp: context_push_begin_def Let_def)
  obtain c' f' where d: "diag_output ins msg c f = (c', f')" by fastforce
  let ?cl = "(claims s)(0 := (length (reserved s), length (reserved s) + length msg))"
  let ?s1 = "s\<lparr>fifo := f, producers := (producers s)(0 := Batch c msg), reserved := reserved s @ msg, claims := ?cl\<rparr>"
  let ?s2 = "?s1\<lparr>fifo := f', producers := (producers ?s1)(0 := Batch c' [])\<rparr>"
  let ?s3 = "?s2\<lparr>fifo := context_push_end c' (fifo ?s2), producers := (producers ?s2)(0 := Idle), claims := (claims ?s2)(0 := (0, 0))\<rparr>"
  have "qstep ins rem obj_ok s ?s1"
    using q m i(1) b o by (intro Open) (auto simp: quiet_def window_ok_def)
  moreover have "(qstep ins rem obj_ok)\<^sup>*\<^sup>* ?s1 ?s2" using d by (intro output_steps) simp_all
  moreover have "qstep ins rem obj_ok ?s2 ?s3" by (rule Close [where p = 0]) simp
  ultimately have "(qstep ins rem obj_ok)\<^sup>*\<^sup>* s ?s3" by (meson converse_rtranclp_into_rtranclp rtranclp.rtrancl_into_rtrancl)
  moreover have "carbon_diag_push ins msg (fifo s) = (True, fifo ?s3)" using b o d by (simp add: carbon_diag_push_def)
  ultimately show ?thesis using q by (intro exI [of _ ?s3]) (simp add: quiet_def)
qed

lemma messages_pushed:
  assumes "queue_inv rem obj_ok n s" and "quiet s" and "\<forall>m \<in> set msgs. m \<noteq> [] \<and> length m + 6 \<le> n \<and> list_all obj_ok m"
    and "length (reserved s) + length (concat msgs) \<le> length (popped s) + n" and n: "n < cap" "8 dvd n"
  shows "\<exists>s'. (qstep ins rem obj_ok)\<^sup>*\<^sup>* s s' \<and> quiet s' \<and> fold (\<lambda>m f. snd (carbon_diag_push ins m f)) msgs (fifo s) = fifo s' \<and>
    reserved s' = reserved s @ concat msgs \<and> popped s' = popped s \<and> ch s' = ch s"
  using assms(1-4)
proof (induction msgs arbitrary: s)
  case (Cons m msgs)
  obtain s1 where s1: "(qstep ins rem obj_ok)\<^sup>*\<^sup>* s s1" "quiet s1" "carbon_diag_push ins m (fifo s) = (True, fifo s1)"
    "reserved s1 = reserved s @ m" "popped s1 = popped s" "ch s1 = ch s"
    using message_pushed [OF Cons.prems(1,2), of m] Cons.prems(3,4) by auto
  have "queue_inv rem obj_ok n s1" using s1(1) Cons.prems(1) by (induction rule: rtranclp_induct) (auto intro: step_inv [OF _ _ n])
  then obtain s2 where "(qstep ins rem obj_ok)\<^sup>*\<^sup>* s1 s2" "quiet s2"
    "fold (\<lambda>m f. snd (carbon_diag_push ins m f)) msgs (fifo s1) = fifo s2" "reserved s2 = reserved s1 @ concat msgs"
    "popped s2 = popped s1" "ch s2 = ch s1"
    using Cons.IH [of s1] s1(2,4,5) Cons.prems(3,4) by auto
  then show ?case using s1 by (intro exI [of _ s2]) auto
qed auto

section \<open>Reading all\<close>

lemma quiet_unowned: "queue_inv rem obj_ok n s \<Longrightarrow> quiet s \<Longrightarrow> \<not> owns (claims s) p i"
  using inv_parts(5) [of rem obj_ok n s p] by (cases "claims s p") (auto simp: quiet_def owns_def)

lemma quiet_head:
  assumes "queue_inv rem obj_ok n s" and "\<forall>p. producers s p = Idle"
  shows "pop_check (fifo s) = (if length (popped s) < length (reserved s) then Some (slot n (length (popped s))) else None)"
proof -
  note i = inv_parts [OF assms(1)]
  have free: "\<not> owns (claims s) p k" for p k using i(5) [of p] assms(2) by (cases "claims s p") (auto simp: owns_def)
  have "is_ready (fifo s) (slot n (length (popped s))) \<longleftrightarrow> length (popped s) < length (reserved s)"
    using i(3) free by (simp add: bits_match_def)
  then show ?thesis using i(1) by (simp add: pop_check_def window_ok_def)
qed

lemma pull_all:
  assumes "queue_inv rem obj_ok n s" and "quiet s" and n: "n < cap" "8 dvd n"
  shows "\<exists>s'. (qstep ins rem obj_ok)\<^sup>*\<^sup>* s s' \<and> quiet s' \<and> reserved s' = reserved s \<and> popped s' = reserved s \<and>
    carbon_diag_pull rem (ch s) (fifo s) = Some (drop (length (popped s)) (reserved s), fifo s')"
  using assms(1,2)
proof (induction "length (reserved s) - length (popped s)" arbitrary: s)
  case 0
  note i = inv_parts [OF 0(2)]
  have e: "length (reserved s) = length (popped s)" using 0(1) i(1) by (auto simp: window_ok_def)
  then have "pop_check (fifo s) = None" using quiet_head [OF 0(2)] 0(3) by (simp add: quiet_def)
  then have "carbon_diag_pull rem (ch s) (fifo s) = Some ([], fifo s)"
    by (subst carbon_diag_pull.simps) (simp add: fifo_pop_def)
  then show ?case using 0(3) i(7) e by (intro exI [of _ s]) simp
next
  case (Suc d)
  note i = inv_parts [OF Suc(3)]
  let ?c = "length (popped s)" and ?pos = "slot n (length (popped s))"
  have c: "?c < length (reserved s)" using Suc(2) by linarith
  have p: "pop_check (fifo s) = Some ?pos" using quiet_head [OF Suc(3)] Suc(4) c by (simp add: quiet_def)
  let ?x = "pop_read rem (fifo s) ?pos (ch s)"
  let ?s1 = "s\<lparr>reader := Found ?pos\<rparr>"
  let ?s2 = "?s1\<lparr>reader := Taken ?pos, ch := pop_read rem (fifo ?s1) ?pos (ch ?s1)\<rparr>"
  let ?s3 = "?s2\<lparr>fifo := pop_advance ?pos (fifo ?s2), reader := Waiting, popped := popped ?s2 @ [ch ?s2]\<rparr>"
  have t: "qstep ins rem obj_ok s ?s1" "qstep ins rem obj_ok ?s1 ?s2" "qstep ins rem obj_ok ?s2 ?s3"
    using Suc(4) p by - (rule Check Take Advance; simp add: quiet_def)+
  have inv: "queue_inv rem obj_ok n ?s3" using step_inv [OF t(3) step_inv [OF t(2) step_inv [OF t(1) Suc(3) n] n] n] .
  have l: "length (popped ?s3) = ?c + 1" by simp
  have x: "?x = reserved s ! ?c"
    using arg_cong [OF inv_parts(7) [OF inv], of "\<lambda>l. l ! ?c"] c by (simp add: nth_append)
  obtain s' where s': "(qstep ins rem obj_ok)\<^sup>*\<^sup>* ?s3 s'" "quiet s'" "reserved s' = reserved ?s3" "popped s' = reserved ?s3"
    "carbon_diag_pull rem (ch ?s3) (fifo ?s3) = Some (drop (length (popped ?s3)) (reserved ?s3), fifo s')"
  proof -
    have "d = length (reserved ?s3) - length (popped ?s3)" using Suc(2) by simp
    moreover have "quiet ?s3" using Suc(4) by (simp add: quiet_def)
    ultimately show thesis using Suc(1) [OF _ inv] that by blast
  qed
  have "carbon_diag_pull rem (ch s) (fifo s) = Some (?x # drop (?c + 1) (reserved s), fifo s')"
    using s'(5) by (subst carbon_diag_pull.simps) (simp add: fifo_pop_def p)
  also have "?x # drop (?c + 1) (reserved s) = drop ?c (reserved s)" using c by (simp add: x Cons_nth_drop_Suc)
  finally have "carbon_diag_pull rem (ch s) (fifo s) = Some (drop ?c (reserved s), fifo s')" .
  moreover have "(qstep ins rem obj_ok)\<^sup>*\<^sup>* s s'" using t s'(1) by (meson converse_rtranclp_into_rtranclp)
  ultimately show ?case using s'(2-4) by (intro exI [of _ s']) simp
qed

end

end
