(* ===== verification/TraceLog.thy ===== *)
theory TraceLog
  imports DiagLog
begin

text \<open>
  Arrays of objects: \<open>Buffer::insert\<close> with a length and \<open>ContextPush::push_array\<close>, for objects that fill their block, and the
  events of \<open>common/src/freeRTOSTrace.cpp\<close>, which use them. An array is written as its objects would be one after the other.
\<close>

definition buffer_insert_array :: "allocator \<Rightarrow> u32 \<Rightarrow> bytes \<Rightarrow> u8 list list \<Rightarrow> u32 \<Rightarrow> bool \<times> bytes" where
  "buffer_insert_array al osize m objs i =
     (case getBlock al i of
        None \<Rightarrow> (False, m)
      | Some block \<Rightarrow>
          if startAddress al + sizeTotalBytes al < block + osize * of_nat (length objs) then (False, m) else (True, memcpy m block (concat objs)))"

definition fifo_ins_array :: "nat \<Rightarrow> u32 \<Rightarrow> u32 \<Rightarrow> u32 \<Rightarrow> bytes \<Rightarrow> nat \<Rightarrow> u8 list list \<Rightarrow> bool \<times> bytes" where
  "fifo_ins_array k blockSize start sz m i objs =
     buffer_insert_array (allocator_init blockSize (2 ^ k) start sz) blockSize m objs (of_nat i)"

definition push_array :: "('m \<Rightarrow> nat \<Rightarrow> 'a list \<Rightarrow> bool \<times> 'm) \<Rightarrow> 'a list \<Rightarrow> context_push \<Rightarrow> 'm fifo \<Rightarrow> bool \<times> context_push \<times> 'm fifo" where
  "push_array ins objs c f =
     (if isOverflow c then (False, c, f)
      else if length objs \<le> data_length1 c then
        (case ins (store f) (index c) objs of
           (False, m) \<Rightarrow> (False, c, f\<lparr>store := m\<rparr>)
         | (True, m) \<Rightarrow> (case increment_by f (index c) (data_length1 c) of (ok, i) \<Rightarrow> (ok, c\<lparr>index := i\<rparr>, f\<lparr>store := m\<rparr>)))
      else
        (case ins (store f) (index c) (take (data_length1 c) objs) of
           (False, m) \<Rightarrow> (False, c, f\<lparr>store := m\<rparr>)
         | (True, m) \<Rightarrow>
             (case increment_by f (index c) (data_length1 c) of
                (ok, i) \<Rightarrow>
                  if \<not> ok \<or> i \<noteq> 0 then (False, c\<lparr>index := i\<rparr>, f\<lparr>store := m\<rparr>)
                  else (case ins m i (drop (data_length1 c) objs) of (ok, m) \<Rightarrow> (ok, c\<lparr>index := i\<rparr>, f\<lparr>store := m\<rparr>)))))"

definition trace_push :: "('m \<Rightarrow> nat \<Rightarrow> 'a list \<Rightarrow> bool \<times> 'm) \<Rightarrow> 'a list \<Rightarrow> 'm fifo \<Rightarrow> bool \<times> 'm fifo" where
  \<comment> \<open>\<open>carbon_freertos_trace_switched_in\<close> and \<open>_out\<close>, for the bytes of the event\<close>
  "trace_push ins trc f =
     (case context_push_begin (length trc) f of
        (c, f) \<Rightarrow> (case push_array ins trc c f of (_, c, f) \<Rightarrow> (\<not> isOverflow c, context_push_end c f)))"

section \<open>Memory\<close>

lemma memcpy_update: "(\<forall>i < length bs. a \<noteq> b + of_nat i) \<Longrightarrow> memcpy (m(a := x)) b bs = (memcpy m b bs)(a := x)"
proof (induction bs arbitrary: b)
  case (Cons y bs)
  have "a \<noteq> b" using Cons.prems by auto
  moreover have "\<forall>i < length bs. a \<noteq> (b + 1) + of_nat i"
    using Cons.prems by (auto simp: algebra_simps dest: spec [of _ "Suc _"])
  ultimately show ?case using Cons.IH by (simp add: fun_upd_twist del: fun_upd_apply)
qed simp

lemma memcpy_append:
  "length xs + length ys \<le> 2 ^ 32 \<Longrightarrow> memcpy m a (xs @ ys) = memcpy (memcpy m a xs) (a + of_nat (length xs)) ys"
proof (induction xs arbitrary: a)
  case (Cons x xs)
  have "a \<noteq> (a + 1 + of_nat (length xs)) + of_nat i" if "i < length ys" for i
  proof
    assume "a = (a + 1 + of_nat (length xs)) + of_nat i"
    then have "(of_nat (Suc (length xs + i)) :: u32) = 0" by (simp add: algebra_simps)
    moreover have "0 < Suc (length xs + i)" "Suc (length xs + i) < 2 ^ 32" using Cons.prems that by simp_all
    ultimately show False by (simp only: word_of_nat_eq_0_iff) (auto dest: dvd_imp_le)
  qed
  then have "memcpy ((memcpy m (a + 1) xs)(a := x)) (a + 1 + of_nat (length xs)) ys =
      (memcpy (memcpy m (a + 1) xs) (a + 1 + of_nat (length xs)) ys)(a := x)"
    by (intro memcpy_update) blast
  then show ?case using Cons by (simp add: algebra_simps del: fun_upd_apply)
qed simp

fun put_all :: "('m, 'a) inserter \<Rightarrow> 'm \<Rightarrow> nat \<Rightarrow> 'a list \<Rightarrow> 'm" where
  "put_all ins m i [] = m"
| "put_all ins m i (x # xs) = put_all ins (snd (ins m i x)) (i + 1) xs"

lemma put_all_append: "put_all ins m i (xs @ ys) = put_all ins (put_all ins m i xs) (i + length xs) ys"
  by (induction xs arbitrary: m i) simp_all

definition exact_fit :: "nat \<Rightarrow> u32 \<Rightarrow> bool" where
  \<comment> \<open>the condition of the template: \<open>sizeof(ObjectT)\<close> is a multiple of the alignment\<close>
  "exact_fit k blockSize \<longleftrightarrow> align_up blockSize (2 ^ k) = blockSize"

lemma length_concat_same: "\<forall>x \<in> set xs. length x = n \<Longrightarrow> length (concat xs) = n * length xs"
  by (induction xs) auto

lemma next_block:
  assumes "exact_fit k blockSize"
    and "getBlock (allocator_init blockSize (2 ^ k) start sz) (of_nat i) = Some b"
    and "getBlock (allocator_init blockSize (2 ^ k) start sz) (of_nat (i + 1)) = Some c"
  shows "c = b + blockSize"
  using assms by (auto simp: getBlock_def Let_def allocator_init_def exact_fit_def algebra_simps split: if_splits)

lemma array_put:
  assumes e: "exact_fit k blockSize" and "i + length objs \<le> capacity k blockSize start sz" and "\<forall>x \<in> set objs. length x = unat blockSize"
    and "objs \<noteq> []" and "getBlock (allocator_init blockSize (2 ^ k) start sz) (of_nat i) = Some b"
  shows "memcpy m b (concat objs) = put_all (fifo_ins k blockSize start sz) m i objs \<and>
    unat b + unat blockSize * length objs \<le> unat start + unat sz"
  using assms(2-)
proof (induction objs arbitrary: m i b)
  case (Cons x objs)
  let ?al = "allocator_init blockSize (2 ^ k) start sz"
  have i: "i < capacity k blockSize start sz" using Cons.prems by simp
  have one: "snd (fifo_ins k blockSize start sz m i x) = memcpy m b x"
    by (rule block_of_slot [OF i]) (use Cons.prems(4) in \<open>simp add: fifo_ins_def buffer_insert_def\<close>)
  show ?case
  proof (cases "objs = []")
    case True
    have "unat b + unat (align_up blockSize (2 ^ k)) \<le> unat start + unat sz"
      using getBlock_inside [OF capacityD(1) [OF i] refl capacityD(2) [OF i]] Cons.prems(4) by (auto simp: allocator_init_def)
    then show ?thesis using True one e by (simp add: exact_fit_def)
  next
    case False
    have i1: "i + 1 < capacity k blockSize start sz" using Cons.prems(1) False by (cases objs) auto
    obtain c where c: "getBlock ?al (of_nat (i + 1)) = Some c" "unat c = unat (align_up start (2 ^ k)) + (i + 1) * unat (align_up blockSize (2 ^ k))"
      by (rule block_of_slot [OF i1])
    have bb: "unat b = unat (align_up start (2 ^ k)) + i * unat (align_up blockSize (2 ^ k))"
      by (rule block_of_slot [OF i]) (use Cons.prems(4) in simp)
    have cb: "c = b + blockSize" by (rule next_block [OF e Cons.prems(4) c(1)])
    have cu: "unat c = unat b + unat blockSize" using c(2) bb e by (simp add: exact_fit_def)
    have IH: "memcpy m' c (concat objs) = put_all (fifo_ins k blockSize start sz) m' (i + 1) objs"
      "unat c + unat blockSize * length objs \<le> unat start + unat sz" for m'
      using Cons.IH [of "i + 1" c m'] Cons.prems(1,2) False c(1) by simp_all
    have lim: "unat start + unat sz < 2 ^ 32" using capacityD(1) [OF i] by (simp add: region_ok_def)
    have len: "length x = unat blockSize" "length (concat objs) = unat blockSize * length objs"
      using Cons.prems(2) by (auto intro: length_concat_same)
    have "memcpy m b (concat (x # objs)) = memcpy (memcpy m b x) c (concat objs)"
      using IH(2) lim cu len by (simp add: memcpy_append cb)
    then show ?thesis using one IH cu by simp
  qed
qed simp

lemma array_inserted:
  assumes e: "exact_fit k blockSize" and l: "i + length objs \<le> capacity k blockSize start sz"
    and x: "\<forall>x \<in> set objs. length x = unat blockSize" and "objs \<noteq> []"
  shows "fifo_ins_array k blockSize start sz m i objs = (True, put_all (fifo_ins k blockSize start sz) m i objs)"
proof -
  let ?al = "allocator_init blockSize (2 ^ k) start sz"
  have i: "i < capacity k blockSize start sz" using l assms(4) by (cases objs) auto
  obtain b where b: "getBlock ?al (of_nat i) = Some b" by (rule block_of_slot [OF i])
  note p = array_put [OF e l x assms(4) b, of m]
  have lim: "unat start + unat sz < 2 ^ 32" using capacityD(1) [OF i] by (simp add: region_ok_def)
  have bs: "0 < unat blockSize" using capacityD(1) [OF i] by (simp add: region_ok_def word_less_nat_alt)
  have prod: "unat blockSize * length objs < 2 ^ 32" using p lim by linarith
  have "length objs \<le> unat blockSize * length objs" using bs by (cases "unat blockSize") auto
  then have small: "length objs < 2 ^ 32" using prod by linarith
  have u: "unat (of_nat (length objs) :: u32) = length objs" using small by (simp add: unat_of_nat take_bit_nat_eq_self)
  have m: "unat (blockSize * of_nat (length objs)) = unat blockSize * length objs"
    using prod u unat_mult_lem [of blockSize "of_nat (length objs)"] by simp
  have "unat (b + blockSize * of_nat (length objs)) = unat b + unat blockSize * length objs"
    using p lim m unat_add_lem [of b "blockSize * of_nat (length objs)"] by simp
  moreover have "unat (start + sz) = unat start + unat sz" using lim by (simp add: unat_word_ariths take_bit_nat_eq_self)
  ultimately have "\<not> start + sz < b + blockSize * of_nat (length objs)" using p by (simp add: word_less_nat_alt)
  then show ?thesis using b p by (simp add: fifo_ins_array_def buffer_insert_array_def) (simp add: allocator_init_def)
qed

section \<open>An event is a message\<close>

context slots
begin

lemma output_run:
  assumes "index c = i" "\<not> isOverflow c" "NElements f = n" "n < cap" "i \<le> n" "i + length xs \<le> n + 1" "list_all obj_ok xs"
    and "tail_reserved f < i \<or> i + length xs \<le> tail_reserved f"
  shows "diag_output ins (xs @ ys) c f =
    diag_output ins ys (c\<lparr>index := (if i + length xs \<le> n then i + length xs else 0)\<rparr>) (f\<lparr>store := put_all ins (store f) i xs\<rparr>)"
  using assms
proof (induction xs arbitrary: c f i)
  case (Cons x xs)
  let ?c = "c\<lparr>index := increment f i\<rparr>" and ?f = "push_insert ins i x f"
  have one: "context_push_one ins x c f = (True, ?c, ?f)"
    using Cons.prems ins_ok [of i x] by (auto simp: context_push_one_def)
  show ?case
  proof (cases "i = n")
    case True
    then show ?thesis using Cons.prems one by (simp add: increment_def push_insert_def)
  next
    case False
    then have "diag_output ins (xs @ ys) ?c ?f =
        diag_output ins ys (?c\<lparr>index := (if i + 1 + length xs \<le> n then i + 1 + length xs else 0)\<rparr>) (?f\<lparr>store := put_all ins (store ?f) (i + 1) xs\<rparr>)"
      using Cons.prems by (intro Cons.IH) (auto simp: increment_def)
    then show ?thesis using one False Cons.prems by (simp add: push_insert_def)
  qed
qed simp

end

lemma end_of_batch: "context_push_end (c\<lparr>index := i\<rparr>) f = context_push_end c f"
  by (simp add: context_push_end_def Let_def)

lemma event_pushed:
  assumes w: "window_ok n f a r" and cap: "n < capacity k blockSize start sz" and e: "exact_fit k blockSize"
    and l: "trc \<noteq> []" "length trc \<le> n" and x: "\<forall>x \<in> set trc. length x = unat blockSize"
  shows "trace_push (fifo_ins_array k blockSize start sz) trc f = carbon_diag_push (fifo_ins k blockSize start sz) trc f"
proof -
  let ?ins = "fifo_ins k blockSize start sz" and ?arr = "fifo_ins_array k blockSize start sz" and ?k = "length trc"
  obtain c g where b: "context_push_begin ?k f = (c, g)" by fastforce
  show ?thesis
  proof (cases "isOverflow c")
    case True
    then show ?thesis using b by (simp add: trace_push_def carbon_diag_push_def push_array_def)
  next
    case o: False
    have k0: "0 < ?k" using l by simp
    note bb = batch_begin [OF w k0 l(2) b o]
    define i where "i = slot n r"
    have ib: "i \<le> n" by (simp add: i_def)
    have N: "NElements f = n" "tail_reserved f = i" using w by (simp_all add: window_ok_def i_def)
    have g: "NElements g = n" "tail_reserved g = slot n (r + ?k)" "BUFFER_SIZE g = n + 1" using bb(5) N by (simp_all add: BUFFER_SIZE_def)
    have start: "index c = i" using bb(4) by (simp add: i_def)
    have nf: "\<not> isFull_by f ?k" using b o by (auto simp: context_push_begin_def Let_def split: if_splits)
    have dl: "data_length1 c = (if i + ?k \<le> n + 1 then ?k else n + 1 - i)"
      using b nf N by (auto simp: context_push_begin_def Let_def BUFFER_SIZE_def)
    have t: "slot n (r + ?k) = (if i + ?k \<le> n then i + ?k else i + ?k - (n + 1))" unfolding i_def by (rule slot_add [OF l(2)])
    have ok: "list_all (\<lambda>x. length x = unat blockSize) trc" using x by (simp add: list_all_iff)
    show ?thesis
    proof (cases "i + ?k \<le> n + 1")
      case True
      have "diag_output ?ins (trc @ []) c g =
          diag_output ?ins [] (c\<lparr>index := (if i + ?k \<le> n then i + ?k else 0)\<rparr>) (g\<lparr>store := put_all ?ins (store g) i trc\<rparr>)"
        using True start o g cap ok t l ib by (intro buf.output_run [where n = n]) auto
      moreover have "push_array ?arr trc c g = (True, c\<lparr>index := snd (increment_by g i ?k)\<rparr>, g\<lparr>store := put_all ?ins (store g) i trc\<rparr>)"
        using True o dl start array_inserted [OF e _ x l(1), of i] cap g l by (simp add: push_array_def increment_by_def)
      ultimately show ?thesis using o by (simp add: trace_push_def carbon_diag_push_def b end_of_batch)
    next
      case False
      let ?d = "n + 1 - i"
      have "data_length1 c = ?d" using dl False by simp
      moreover have "0 < ?d" "?d < ?k" "i + ?d = n + 1" using False ib l(2) by linarith+
      ultimately have d: "data_length1 c = ?d" "0 < ?d" "?d < ?k" "i + ?d = n + 1" .
      have nz: "take ?d trc \<noteq> []" "drop ?d trc \<noteq> []" using d l(1) by auto
      have xs: "\<forall>x \<in> set (take ?d trc). length x = unat blockSize" "\<forall>x \<in> set (drop ?d trc). length x = unat blockSize"
        using x by (meson in_set_takeD in_set_dropD)+
      let ?m = "put_all ?ins (store g) i (take ?d trc)"
      have tl: "slot n (r + ?k) = ?k - ?d" using t False d by simp
      have "diag_output ?ins (take ?d trc @ drop ?d trc) c g =
          diag_output ?ins (drop ?d trc) (c\<lparr>index := (if i + length (take ?d trc) \<le> n then i + length (take ?d trc) else 0)\<rparr>) (g\<lparr>store := ?m\<rparr>)"
        using start o g(1) cap d ib xs(1) l(2) by (intro buf.output_run [where n = n]) (auto simp: list_all_iff g(2) tl)
      then have o1: "diag_output ?ins trc c g = diag_output ?ins (drop ?d trc @ []) (c\<lparr>index := 0\<rparr>) (g\<lparr>store := ?m\<rparr>)"
        using d by simp
      have o2: "diag_output ?ins (drop ?d trc @ []) (c\<lparr>index := 0\<rparr>) (g\<lparr>store := ?m\<rparr>) =
          diag_output ?ins [] (c\<lparr>index := 0\<rparr>\<lparr>index := (if 0 + length (drop ?d trc) \<le> n then 0 + length (drop ?d trc) else 0)\<rparr>)
            (g\<lparr>store := ?m\<rparr>\<lparr>store := put_all ?ins (store (g\<lparr>store := ?m\<rparr>)) 0 (drop ?d trc)\<rparr>)"
        using o g(1) cap d xs(2) l(2) by (intro buf.output_run [where n = n]) (auto simp: list_all_iff g(2) tl)
      have "?arr (store g) i (take ?d trc) = (True, ?m)" using d cap by (intro array_inserted [OF e _ xs(1) nz(1)]) simp
      moreover have "?arr ?m 0 (drop ?d trc) = (True, put_all ?ins ?m 0 (drop ?d trc))"
        using d cap l(2) by (intro array_inserted [OF e _ xs(2) nz(2)]) simp
      ultimately have "push_array ?arr trc c g = (True, c\<lparr>index := 0\<rparr>, g\<lparr>store := put_all ?ins ?m 0 (drop ?d trc)\<rparr>)"
        using o d start g l(2) by (simp add: push_array_def increment_by_def)
      then show ?thesis using o o1 o2 by (simp add: trace_push_def carbon_diag_push_def b end_of_batch)
    qed
  qed
qed

end
