(* ===== verification/FifoClaims.thy ===== *)
theory FifoClaims
  imports TraceLog
begin

text \<open>
  The properties of the queue between the cores and of the log that runs over it. Each holds for the storage \<open>Buffer\<close> of the code, in
  any region that \<open>init\<close> accepts.
\<close>

lemma setup_capacity:
  "region_ok k blockSize start sz \<Longrightarrow> fst (fifo_setup k blockSize start sz n m) \<Longrightarrow> n < capacity k blockSize start sz"
  by (simp add: fifo_setup_def capacity_def allocator_init_def)

abbreviation buffer_step :: "nat \<Rightarrow> u32 \<Rightarrow> u32 \<Rightarrow> u32 \<Rightarrow> (bytes, u8 list) qstate \<Rightarrow> (bytes, u8 list) qstate \<Rightarrow> bool" where
  "buffer_step k blockSize start sz \<equiv>
     qstep (fifo_ins k blockSize start sz) (fifo_rem k blockSize start sz) (\<lambda>x. length x = unat blockSize)"

text \<open>Reachable states, from the queue that \<open>init\<close> has set up.\<close>

definition queue_run :: "nat \<Rightarrow> u32 \<Rightarrow> u32 \<Rightarrow> u32 \<Rightarrow> nat \<Rightarrow> (bytes, u8 list) qstate \<Rightarrow> bool" where
  "queue_run k blockSize start sz n s \<longleftrightarrow> region_ok k blockSize start sz \<and> 8 dvd n \<and>
     (\<exists>m x. fst (fifo_setup k blockSize start sz n m) \<and> (buffer_step k blockSize start sz)\<^sup>*\<^sup>* (qstart n m x) s)"

lemma run_inv:
  assumes "queue_run k blockSize start sz n s"
  shows "queue_inv (fifo_rem k blockSize start sz) (\<lambda>x. length x = unat blockSize) n s" and "n < capacity k blockSize start sz" and "8 dvd n"
  using assms setup_capacity buf.reach_inv unfolding queue_run_def by blast+

lemma run_steps:
  "queue_run k blockSize start sz n s \<Longrightarrow> (buffer_step k blockSize start sz)\<^sup>*\<^sup>* s s' \<Longrightarrow> queue_run k blockSize start sz n s'"
  unfolding queue_run_def by (meson rtranclp_trans)

lemma queue_demo: "queue_run 0 1 0x1000 9 8 (qstart 8 (\<lambda>_. 0) [0])"
proof -
  have "fst (fifo_setup 0 1 0x1000 9 8 (\<lambda>_. 0))" "region_ok 0 1 0x1000 9"
    by (simp_all add: fifo_setup_def allocator_init_def getNumberOfElements_def align_up_def region_ok_def)
  then show ?thesis unfolding queue_run_def by auto
qed

section \<open>The queue\<close>

text \<open>C9: In every state that a queue of \<open>NElements\<close> objects, a multiple of eight, can reach by single pushes and by batches of one to
  \<open>NElements - 6\<close> objects: whatever the producers on both cores and the consumer do, and wherever they are interrupted, the objects popped are the first
  of those for which a slot was reserved, in that order and with their content; a push is refused exactly when \<open>NElements\<close> objects
  are outstanding, a batch of at most \<open>NElements\<close> exactly when it would exceed that number; and when no producer is in the
  middle of a push, \<open>pop\<close> finds nothing exactly when everything was popped.\<close>

theorem queue_delivers_in_order:
  assumes "queue_run k blockSize start sz n s"
  shows "popped s = take (length (popped s)) (reserved s) \<and> length (reserved s) \<le> length (popped s) + n \<and>
    (fst (push_reserve (fifo s)) = None \<longleftrightarrow> length (reserved s) = length (popped s) + n) \<and>
    (\<forall>j \<le> n. isOverflow (fst (context_push_begin j (fifo s))) \<longleftrightarrow> length (popped s) + n < length (reserved s) + j) \<and>
    ((\<forall>p. producers s p = Idle) \<longrightarrow> (pop_check (fifo s) = None \<longleftrightarrow> popped s = reserved s))"
proof -
  note inv = run_inv(1) [OF assms]
  note i = inv_parts [OF inv]
  have push: "fst (push_reserve (fifo s)) = None \<longleftrightarrow> length (reserved s) = length (popped s) + n"
    using is_full [OF i(1)] by (auto simp: push_reserve_def)
  have batch: "isOverflow (fst (context_push_begin j (fifo s))) \<longleftrightarrow> length (popped s) + n < length (reserved s) + j" if "j \<le> n" for j
    using is_full_by [OF i(1) that] by (auto simp: context_push_begin_def Let_def)
  have le: "length (popped s) \<le> length (reserved s)" "length (reserved s) \<le> length (popped s) + n" using i(1) by (simp_all add: window_ok_def)
  have all: "length (popped s) < length (reserved s) \<longleftrightarrow> popped s \<noteq> reserved s" using i(7) le by (metis le_neq_implies_less less_irrefl take_all_iff)
  have "pop_check (fifo s) = None \<longleftrightarrow> popped s = reserved s" if "\<forall>p. producers s p = Idle"
    using buf.quiet_head [OF inv that] all by simp
  then show ?thesis using i(7) le push batch by blast
qed

lemma queue_delivers_in_order_witness:
  "\<exists>s :: (bytes, u8 list) qstate. quiet s \<and> reserved s = [[72], [105]] \<and> popped s = take (length (popped s)) [[72], [105]] \<and> (pop_check (fifo s) = None \<longleftrightarrow> popped s = [[72], [105]])"
proof -
  let ?s0 = "qstart 8 (\<lambda>_. 0) [0] :: (bytes, u8 list) qstate"
  have "quiet ?s0" by (simp add: quiet_def qstart_def)
  from buf.message_pushed [OF run_inv(1) [OF queue_demo] this, of "[[72], [105]]"]
  obtain s where s: "(buffer_step 0 1 0x1000 9)\<^sup>*\<^sup>* ?s0 s" "quiet s" "reserved s = [[72], [105]]"
    by (auto simp: qstart_def)
  then show ?thesis using queue_delivers_in_order [OF run_steps [OF queue_demo s(1)]] by (auto simp: quiet_def)
qed

section \<open>The log\<close>

text \<open>Messages that are not empty, shorter than the queue by at least six characters, and fit together, are all accepted; the next
  \<open>carbon_diag_pull\<close> returns and has sent everything that was still in the queue and then the messages, complete and in order.\<close>

theorem log_reaches_uart:
  assumes "queue_run k blockSize start sz n s" and "quiet s"
    and "\<forall>m \<in> set msgs. m \<noteq> [] \<and> length m + 6 \<le> n \<and> (\<forall>x \<in> set m. length x = unat blockSize)"
    and "length (reserved s) + length (concat msgs) \<le> length (popped s) + n"
  shows "\<exists>f. carbon_diag_pull (fifo_rem k blockSize start sz) (ch s)
      (fold (\<lambda>m f. snd (carbon_diag_push (fifo_ins k blockSize start sz) m f)) msgs (fifo s)) =
    Some (drop (length (popped s)) (reserved s) @ concat msgs, f)"
proof -
  note r = run_inv [OF assms(1)]
  from buf.messages_pushed [OF r(1) assms(2) _ assms(4) r(2,3)] assms(3)
  obtain s' where s': "(buffer_step k blockSize start sz)\<^sup>*\<^sup>* s s'" "quiet s'" "reserved s' = reserved s @ concat msgs"
    "popped s' = popped s" "ch s' = ch s"
    "fold (\<lambda>m f. snd (carbon_diag_push (fifo_ins k blockSize start sz) m f)) msgs (fifo s) = fifo s'"
    by (auto simp: list_all_iff)
  have le: "length (popped s) \<le> length (reserved s)" using inv_parts(1) [OF r(1)] by (simp add: window_ok_def)
  show ?thesis using buf.pull_all [OF run_inv(1) [OF run_steps [OF assms(1) s'(1)]] s'(2) r(2,3)] s' le by auto
qed

lemma log_reaches_uart_witness:
  "\<exists>f. carbon_diag_pull (fifo_rem 0 1 0x1000 9) [0]
      (fold (\<lambda>m f. snd (carbon_diag_push (fifo_ins 0 1 0x1000 9) m f)) [[[72], [105]], [[33]]] (fifo_init 8 (\<lambda>_. 0))) =
    Some ([[72], [105], [33]], f)"
  using log_reaches_uart [OF queue_demo, of "[[[72], [105]], [[33]]]"] by (simp add: qstart_def quiet_def)

text \<open>C36: A message longer than the queue is never refused, whatever is in the queue. If it is longer by one character, no slot is reserved and
  none of its characters is stored. If it is longer by more, one slot is reserved, in a full queue as well: there the reserved tail meets the
  head, the queue no longer counts as full, and the next push gets the slot of the oldest object that was not read yet.\<close>

theorem oversized_message_breaks_queue:
  assumes "queue_run k blockSize start sz n s" and "n < len" and "context_push_begin len (fifo s) = (c, f)"
  shows "\<not> isOverflow c \<and>
    (if len = n + 1 then f = fifo s \<and> context_push_one ins x c f = (False, c, f)
     else f = (fifo s)\<lparr>tail_reserved := increment (fifo s) (tail_reserved (fifo s))\<rparr> \<and>
       (0 < n \<longrightarrow> length (reserved s) = length (popped s) + n \<longrightarrow> fst (push_reserve f) = Some (head (fifo s))))"
proof -
  note i = inv_parts [OF run_inv(1) [OF assms(1)]]
  let ?f = "fifo s"
  have N: "NElements ?f = n" "head ?f = slot n (length (popped s))" "tail_reserved ?f = slot n (length (reserved s))"
    using i(1) by (simp_all add: window_ok_def)
  have st: "tail_reserved ?f \<le> n" by (simp add: N(3) slot_def less_Suc_eq_le [symmetric])
  have nf: "\<not> isFull_by ?f len" using assms(2) N(1) by (simp add: isFull_by_def)
  have c: "\<not> isOverflow c" "context_push.index c = tail_reserved ?f"
    "f = ?f\<lparr>tail_reserved := increment ?f (snd (increment_by ?f (tail_reserved ?f) (len - 1)))\<rparr>"
    using nf assms(2,3) by (auto simp: context_push_begin_def Let_def)
  show ?thesis
  proof (cases "len = n + 1")
    case True
    then have "increment ?f (snd (increment_by ?f (tail_reserved ?f) (len - 1))) = tail_reserved ?f"
      using st N(1) by (auto simp: increment_by_def increment_def BUFFER_SIZE_def)
    then have "f = ?f" using c(3) by simp
    then show ?thesis using True c by (simp add: context_push_one_def)
  next
    case False
    then have f: "f = ?f\<lparr>tail_reserved := increment ?f (tail_reserved ?f)\<rparr>" using c(3) assms(2) N(1) by (simp add: increment_by_def)
    have "fst (push_reserve f) = Some (head ?f)" if "0 < n" "length (reserved s) = length (popped s) + n"
    proof -
      have "increment ?f (tail_reserved ?f) = head ?f"
        using increment_slot [OF N(1), of "length (popped s) + n"] slot_wrap [of n "length (popped s)"] that(2) N by simp
      moreover have "increment ?f (head ?f) \<noteq> head ?f" using that(1) N(1) by (auto simp: increment_def)
      ultimately show ?thesis unfolding f by (simp add: push_reserve_def isFull_def increment_def)
    qed
    then show ?thesis using f False c(1) by simp
  qed
qed

lemma oversized_message_breaks_queue_witness:
  "\<exists>s :: (bytes, u8 list) qstate. length (reserved s) = 8 \<and> popped s = [] \<and>
    \<not> isOverflow (fst (context_push_begin 10 (fifo s))) \<and> fst (push_reserve (snd (context_push_begin 10 (fifo s)))) = Some (head (fifo s)) \<and>
    \<not> isOverflow (fst (context_push_begin 9 (fifo s))) \<and> snd (context_push_begin 9 (fifo s)) = fifo s"
proof -
  let ?s0 = "qstart 8 (\<lambda>_. 0) [0] :: (bytes, u8 list) qstate" and ?m = "[[72], [105]] :: u8 list list"
  have "quiet ?s0" by (simp add: quiet_def qstart_def)
  from buf.messages_pushed [OF run_inv(1) [OF queue_demo] this, of "[?m, ?m, ?m, ?m]"] run_inv(2) [OF queue_demo]
  obtain s where s: "(buffer_step 0 1 0x1000 9)\<^sup>*\<^sup>* ?s0 s" "length (reserved s) = 8" "popped s = []"
    by (auto simp: qstart_def)
  note o = oversized_message_breaks_queue [OF run_steps [OF queue_demo s(1)] _ prod.collapse [symmetric],
      of _ "fifo_ins 0 1 0x1000 9" "[0]"]
  show ?thesis using s(2,3) o [of 10] o [of 9] by (intro exI [of _ s]) auto
qed

text \<open>A message without characters reserves and publishes one slot: in an empty queue the next \<open>carbon_diag_pull\<close> sends what that slot held.\<close>

lemma empty_message_sends_stale:
  assumes "queue_run k blockSize start sz n s" and "quiet s" and "popped s = reserved s" and "0 < n"
  shows "\<exists>f. carbon_diag_pull rem x (snd (carbon_diag_push ins [] (fifo s))) = Some ([pop_read rem (fifo s) (head (fifo s)) x], f)"
proof -
  note r = run_inv [OF assms(1)]
  note i = inv_parts [OF r(1)]
  let ?f = "fifo s" and ?c = "length (popped s)"
  have N: "NElements ?f = n" "bits_ok ?f" "head ?f = slot n ?c" "tail_reserved ?f = slot n ?c" using i(1) assms(3) by (simp_all add: window_ok_def)
  have none: "\<not> is_ready ?f (slot n j)" if "?c \<le> j" "j \<le> ?c + n" for j using i(3) that assms(3) by (auto simp: bits_match_def)
  obtain c where c: "context_push_begin 0 ?f = (c, ?f\<lparr>tail_reserved := increment ?f (slot n ?c)\<rparr>)" "\<not> isOverflow c"
    "fifo_pos_start c = slot n ?c" "fifo_pos_end c = slot n ?c"
    using N by (simp add: context_push_begin_def isFull_by_def Let_def)
  let ?g = "context_push_end c (?f\<lparr>tail_reserved := increment ?f (slot n ?c)\<rparr>)"
  have p: "snd (carbon_diag_push ins [] ?f) = ?g" using c by (simp add: carbon_diag_push_def)
  have g: "is_ready ?g q \<longleftrightarrow> is_ready ?f q \<or> q = slot n ?c" if "q \<le> n" for q
    using batch_ready [of "?f\<lparr>tail_reserved := increment ?f (slot n ?c)\<rparr>" c q] N c that by (auto simp: batch_marks_def)
  have one: "pop_check ?g = Some (slot n ?c)" using g [of "slot n ?c"] N by (simp add: pop_check_def)
  let ?h = "pop_advance (slot n ?c) ?g"
  have hd: "head ?h = slot n (?c + 1)" using increment_slot [of ?g n ?c] N by (simp add: pop_advance_def)
  have "is_ready ?h q \<longleftrightarrow> is_ready ?g q \<and> q \<noteq> slot n ?c" for q
    using ready_clear [of "?g\<lparr>head := increment ?g (head ?g)\<rparr>" "slot n ?c" q] N by (simp add: pop_advance_def)
  then have "\<not> is_ready ?h (slot n (?c + 1))" using g [of "slot n (?c + 1)"] none [of "?c + 1"] assms(4) by auto
  then have two: "pop_check ?h = None" by (simp add: pop_check_def hd)
  have rd: "pop_read rem ?g q x = pop_read rem ?f q x" for q by (simp add: pop_read_def)
  show ?thesis unfolding p
    by (subst carbon_diag_pull.simps, subst carbon_diag_pull.simps) (simp add: fifo_pop_def one two rd N)
qed

text \<open>C10: For the bytes of an event, as for any objects that fill their blocks, \<open>push_array\<close> with its one or two copies leaves the queue exactly as
  pushing them one by one does, in the wrap-around as well: an event of the trace is a message in the sense of the property of the log.\<close>

theorem trace_event_is_message:
  assumes "queue_run k blockSize start sz n s" and "exact_fit k blockSize" and "trc \<noteq> []" and "length trc \<le> n"
    and "\<forall>x \<in> set trc. length x = unat blockSize"
  shows "trace_push (fifo_ins_array k blockSize start sz) trc (fifo s) = carbon_diag_push (fifo_ins k blockSize start sz) trc (fifo s)"
  using event_pushed [OF inv_parts(1) [OF run_inv(1) [OF assms(1)]] run_inv(2) [OF assms(1)] assms(2-5)] .

lemma trace_event_is_message_witness:
  "trace_push (fifo_ins_array 0 1 0x1000 9) [[1], [2], [3]] (fifo_init 8 (\<lambda>_. 0)) =
    carbon_diag_push (fifo_ins 0 1 0x1000 9) [[1], [2], [3]] (fifo_init 8 (\<lambda>_. 0))"
  using trace_event_is_message [OF queue_demo, of "[[1], [2], [3]]"] by (simp add: qstart_def exact_fit_def align_up_def)

section \<open>Batches and runs\<close>

text \<open>The destructor of \<open>ContextPush\<close> publishes exactly the slots of the batch when it does not wrap around. When it does, it publishes
  nothing if the first and the last slot share a byte of the bit field, and if the batch starts in the last byte it also publishes the slots before it
  in that byte, which other producers may still be writing.\<close>

theorem batch_publishes:
  assumes "bits_ok f" and "fifo_pos_start c \<le> NElements f" "fifo_pos_end c \<le> NElements f" "pos \<le> NElements f" and "\<not> isOverflow c"
  shows "is_ready (context_push_end c f) pos \<longleftrightarrow> is_ready f pos \<or>
    (if fifo_pos_start c \<le> fifo_pos_end c then fifo_pos_start c \<le> pos \<and> pos \<le> fifo_pos_end c
     else fifo_pos_start c div 8 \<noteq> fifo_pos_end c div 8 \<and>
       (pos \<le> fifo_pos_end c \<or> fifo_pos_start c \<le> pos \<or>
        fifo_pos_start c div 8 = NElements f div 8 \<and> pos div 8 = NElements f div 8))"
  using batch_ready [OF assms] by (simp add: batch_marks_def)

text \<open>A batch of six that starts in slot 12 of 16 publishes slot 9, which belongs to another producer.\<close>

lemma batch_publishes_witness:
  "is_ready (context_push_end \<lparr>fifo_pos_start = 12, fifo_pos_end = 1, index = 2, data_length1 = 4, data_length2 = 2, isOverflow = False\<rparr>
     (fifo_init 15 ())) 9"
proof -
  have "bits_ok (fifo_init 15 ())" by (rule bits_init)
  then show ?thesis by (subst batch_publishes) (simp_all add: fifo_init_def)
qed

lemma takeWhile_split: "takeWhile P (xs @ ys) = (if \<forall>x \<in> set xs. P x then xs @ takeWhile P ys else takeWhile P xs)"
  by (induction xs) auto

definition published_run :: "'m fifo \<Rightarrow> nat" where
  \<comment> \<open>the reference: how many slots from \<open>head_\<close> on, in the order of the queue, are published\<close>
  "published_run f = length (takeWhile (\<lambda>i. is_ready f ((head f + i) mod (NElements f + 1))) [0 ..< NElements f + 1])"

lemma published_run_split:
  assumes "head f \<le> NElements f"
  shows "published_run f =
    (if \<forall>i \<in> {head f ..< NElements f + 1}. is_ready f i then NElements f + 1 - head f + length (takeWhile (is_ready f) [0 ..< head f])
     else length (takeWhile (is_ready f) [head f ..< NElements f + 1]))"
proof -
  let ?N = "NElements f + 1"
  have m: "map (\<lambda>i. (head f + i) mod ?N) [0 ..< ?N] = [head f ..< ?N] @ [0 ..< head f]"
  proof (rule nth_equalityI)
    fix i assume "i < length (map (\<lambda>i. (head f + i) mod ?N) [0 ..< ?N])"
    then have i: "i < ?N" by simp
    show "map (\<lambda>i. (head f + i) mod ?N) [0 ..< ?N] ! i = ([head f ..< ?N] @ [0 ..< head f]) ! i"
    proof (cases "head f + i < ?N")
      case True
      then have "i < ?N - head f" by linarith
      then show ?thesis using True by (simp add: nth_append del: upt_Suc)
    next
      case False
      then have "(head f + i) mod ?N = head f + i - ?N" using assms i by (simp only: le_mod_geq not_less) simp
      moreover have "\<not> i < ?N - head f" using False by linarith
      ultimately show ?thesis using i assms by (simp add: nth_append add.commute del: upt_Suc)
    qed
  qed (use assms in simp)
  have "published_run f = length (map (\<lambda>i. (head f + i) mod ?N) (takeWhile (is_ready f \<circ> (\<lambda>i. (head f + i) mod ?N)) [0 ..< ?N]))"
    by (simp add: published_run_def comp_def)
  also have "\<dots> = length (takeWhile (is_ready f) ([head f ..< ?N] @ [0 ..< head f]))"
    by (simp only: takeWhile_map [symmetric] m)
  finally show ?thesis by (simp add: takeWhile_split del: upt_Suc)
qed

text \<open>\<open>getElementReady\<close> counts exactly the run of published slots from the head, except when the slots up to the last but one and
  the first are published and the last is not: then it skips the last one. After the destructor of \<open>ContextPull\<close> the head has moved over
  that slot, so that its object is not delivered in its place.\<close>

theorem pull_takes_published_run:
  assumes "bits_ok f" and "head f \<le> NElements f" and "getElementReady f = (n1, n2)"
  shows "(n1 + n2 = published_run f \<longleftrightarrow>
      \<not> (0 < head f \<and> (\<forall>i \<in> {head f ..< NElements f}. is_ready f i) \<and> \<not> is_ready f (NElements f) \<and> is_ready f 0)) \<and>
    (n1 + n2 \<noteq> published_run f \<longrightarrow> head f + n1 = NElements f \<and> 0 < n2 \<and> head (context_pull_end (n1 + n2) f) = n2 - 1)"
proof -
  let ?h = "head f" and ?N = "NElements f"
  let ?all = "\<forall>i \<in> {?h ..< ?N}. is_ready f i" and ?low = "length (takeWhile (is_ready f) [0 ..< ?h])"
  have n: "n1 = length (takeWhile (is_ready f) [?h ..< ?N + 1])" "n2 = (if 0 < ?h \<and> ?all then ?low else 0)"
    using element_ready [OF assms(2)] assms(3) by simp_all
  have split: "[?h ..< ?N + 1] = [?h ..< ?N] @ [?N]" using assms(2) by simp
  have up: "n1 = (if ?all then ?N - ?h + (if is_ready f ?N then 1 else 0) else length (takeWhile (is_ready f) [?h ..< ?N]))"
    unfolding n(1) split by (simp add: takeWhile_split)
  have full: "(\<forall>i \<in> {?h ..< ?N + 1}. is_ready f i) \<longleftrightarrow> ?all \<and> is_ready f ?N"
    using assms(2) by (auto simp: less_Suc_eq)
  have run: "published_run f = (if ?all \<and> is_ready f ?N then ?N + 1 - ?h + ?low else n1)"
    unfolding published_run_split [OF assms(2)] full n(1) ..
  have low: "0 < ?low \<longleftrightarrow> 0 < ?h \<and> is_ready f 0" by (cases "?h = 0") (simp_all add: upt_conv_Cons)
  have same: "n1 + n2 = published_run f \<longleftrightarrow> \<not> (0 < ?h \<and> ?all \<and> \<not> is_ready f ?N \<and> is_ready f 0)"
    using low assms(2) unfolding run n(2) up by auto
  moreover have "?h + n1 = ?N \<and> 0 < n2 \<and> head (context_pull_end (n1 + n2) f) = n2 - 1" if "n1 + n2 \<noteq> published_run f"
  proof -
    have c: "0 < ?h" "?all" "\<not> is_ready f ?N" "is_ready f 0" using that same by auto
    then have e: "?h + n1 = ?N" "n2 = ?low" "0 < n2" using up n(2) low assms(2) by auto
    have "n2 \<le> ?h" using e(2) length_takeWhile_le [of "is_ready f" "[0 ..< ?h]"] by simp
    then have b: "n2 - 1 < ?N + 1" using assms(2) by linarith
    have s: "?h + (n1 + n2) = (?N + 1) + (n2 - 1)" using e by linarith
    have "head (context_pull_end (n1 + n2) f) = (?h + (n1 + n2)) mod (?N + 1)" using pull_end [OF assms(1,2)] by blast
    also have "\<dots> = n2 - 1" unfolding s using b by (simp only: mod_add_self1 mod_less)
    finally show ?thesis using e by blast
  qed
  ultimately show ?thesis by blast
qed

text \<open>Slots 7 and 0 published, slot 8 not yet: the run has one slot, two are counted.\<close>

lemma pull_takes_published_run_witness:
  "let f = \<lparr>NElements = 8, tail_reserved = 2, head = 7, tail_ready = [0x81, 0], store = ()\<rparr> in
    getElementReady f = (1, 1) \<and> published_run f \<noteq> 2 \<and> head (context_pull_end 2 f) = 0"
proof -
  let ?f = "\<lparr>NElements = 8, tail_reserved = 2, head = 7, tail_ready = [0x81, 0], store = ()\<rparr>"
  have r: "is_ready ?f 7" "\<not> is_ready ?f 8" "is_ready ?f 0" "\<not> is_ready ?f (Suc 0)" by (simp_all add: is_ready_def bit_pos_def)
  have u: "[7 ..< 9] = [7, 8 :: nat]" "[0 ..< 7] = [0, 1, 2, 3, 4, 5, 6 :: nat]" by (simp_all add: upt_rec)
  have all: "\<forall>i \<in> {7 ..< 8 :: nat}. is_ready ?f i"
  proof
    fix i :: nat assume "i \<in> {7 ..< 8}"
    then have "i = 7" by simp
    then show "is_ready ?f i" using r(1) by simp
  qed
  have e: "getElementReady ?f = (1, 1)"
    using all by (subst element_ready) (simp_all add: u r)
  have "bits_ok ?f" by (simp add: bits_ok_def BUFFER_SIZE_def)
  from pull_takes_published_run [OF this _ e] show ?thesis using all e r by (simp add: numeral_2_eq_2)
qed

end
