(* ===== verification/PrintfOut.thy ===== *)
theory PrintfOut
  imports CPrelude
begin

text \<open>
  The output of \<open>lib/printf/printf.c\<close>: \<open>output_gadget_t\<close>, which counts every character and passes on those before
  \<open>max_chars\<close> to a buffer or a function, and the routines that write through it. The argument of the
  function is a state of any type. Each routine writes a fixed string, whatever the gadget is (\<open>emits\<close>). \<open>None\<close> is a write
  outside the buffer.
\<close>

section \<open>Gadgets\<close>

datatype 'w sink =
    No_sink                        \<comment> \<open>neither \<open>function\<close> nor \<open>buffer\<close>\<close>
  | Memory string                  \<comment> \<open>the memory from \<open>buffer\<close> on\<close>
  | Function "char \<Rightarrow> 'w \<Rightarrow> 'w" 'w  \<comment> \<open>\<open>function\<close>, and what it acts on\<close>

record 'w gadget =
  sink :: "'w sink"
  pos :: u32
  max_chars :: u32

definition MAX_POSSIBLE_BUFFER_SIZE :: u32 where "MAX_POSSIBLE_BUFFER_SIZE = 0x7FFFFFFF"

definition putchar_via_gadget :: "char \<Rightarrow> 'w gadget \<Rightarrow> 'w gadget option" where
  "putchar_via_gadget c g =
     (let write_pos = pos g; g = g\<lparr>pos := pos g + 1\<rparr>
      in if max_chars g \<le> write_pos then Some g
         else case sink g of
                Function f w \<Rightarrow> Some (g\<lparr>sink := Function f (f c w)\<rparr>)
              | Memory b \<Rightarrow> if unat write_pos < length b then Some (g\<lparr>sink := Memory (b[unat write_pos := c])\<rparr>) else None
              | No_sink \<Rightarrow> None)"

definition append_termination_with_gadget :: "'w gadget \<Rightarrow> 'w gadget option" where
  "append_termination_with_gadget g =
     (case sink g of
        Function f w \<Rightarrow> Some g
      | No_sink \<Rightarrow> Some g
      | Memory b \<Rightarrow>
          if max_chars g = 0 then Some g
          else let null_char_pos = (if pos g < max_chars g then pos g else max_chars g - 1)
               in if unat null_char_pos < length b then Some (g\<lparr>sink := Memory (b[unat null_char_pos := NUL])\<rparr>) else None)"

definition discarding_gadget :: "'w gadget" where
  "discarding_gadget = \<lparr>sink = No_sink, pos = 0, max_chars = 0\<rparr>"

declare discarding_gadget_def [code_unfold]

definition buffer_gadget :: "string option \<Rightarrow> u32 \<Rightarrow> 'w gadget" where
  \<comment> \<open>\<open>None\<close> is \<open>NULL\<close>\<close>
  "buffer_gadget buffer buffer_size =
     (case buffer of
        None \<Rightarrow> discarding_gadget
      | Some b \<Rightarrow>
          discarding_gadget\<lparr>sink := Memory b,
            max_chars := (if MAX_POSSIBLE_BUFFER_SIZE < buffer_size then MAX_POSSIBLE_BUFFER_SIZE else buffer_size)\<rparr>)"

definition function_gadget :: "(char \<Rightarrow> 'w \<Rightarrow> 'w) \<Rightarrow> 'w \<Rightarrow> 'w gadget" where
  "function_gadget f w = discarding_gadget\<lparr>sink := Function f w, max_chars := MAX_POSSIBLE_BUFFER_SIZE\<rparr>"

section \<open>Flags\<close>

definition flag_bit :: "nat \<Rightarrow> u32" where
  "flag_bit k = push_bit k 1"

abbreviation FLAGS_ZEROPAD :: u32 where "FLAGS_ZEROPAD \<equiv> flag_bit 0"
abbreviation FLAGS_LEFT :: u32 where "FLAGS_LEFT \<equiv> flag_bit 1"
abbreviation FLAGS_PLUS :: u32 where "FLAGS_PLUS \<equiv> flag_bit 2"
abbreviation FLAGS_SPACE :: u32 where "FLAGS_SPACE \<equiv> flag_bit 3"
abbreviation FLAGS_HASH :: u32 where "FLAGS_HASH \<equiv> flag_bit 4"
abbreviation FLAGS_UPPERCASE :: u32 where "FLAGS_UPPERCASE \<equiv> flag_bit 5"
abbreviation FLAGS_CHAR :: u32 where "FLAGS_CHAR \<equiv> flag_bit 6"
abbreviation FLAGS_SHORT :: u32 where "FLAGS_SHORT \<equiv> flag_bit 7"
abbreviation FLAGS_LONG :: u32 where "FLAGS_LONG \<equiv> flag_bit 9"
abbreviation FLAGS_LONG_LONG :: u32 where "FLAGS_LONG_LONG \<equiv> flag_bit 10"
abbreviation FLAGS_PRECISION :: u32 where "FLAGS_PRECISION \<equiv> flag_bit 11"
abbreviation FLAGS_ADAPT_EXP :: u32 where "FLAGS_ADAPT_EXP \<equiv> flag_bit 12"
abbreviation FLAGS_POINTER :: u32 where "FLAGS_POINTER \<equiv> flag_bit 13"
abbreviation FLAGS_SIGNED :: u32 where "FLAGS_SIGNED \<equiv> flag_bit 14"

definition has :: "u32 \<Rightarrow> u32 \<Rightarrow> bool" where
  "has flags f \<longleftrightarrow> flags AND f \<noteq> 0"

lemma has_or: "has flags (f OR h) \<longleftrightarrow> has flags f \<or> has flags h"
proof -
  have "flags AND (f OR h) = (flags AND f) OR (flags AND h)" by (rule bit_word_eqI) (auto simp: bit_simps)
  moreover have "(a OR b = 0) = (a = 0 \<and> b = 0)" for a b :: u32 by (metis or_eq_0_iff)
  ultimately show ?thesis by (simp add: has_def)
qed

lemma has_flag_bit: "has flags (flag_bit k) = bit flags k"
  unfolding has_def flag_bit_def bit_iff_and_push_bit_not_eq_0 ..

lemma bit_flag: "bit (flag_bit j) k \<longleftrightarrow> j = k \<and> k < 32"
  unfolding flag_bit_def bit_push_bit_iff bit_1_iff by auto

lemma has_0 [simp]: "\<not> has 0 f"
  by (simp add: has_def)

lemma has_simps [simp]:
  "k < 32 \<Longrightarrow> has (flags OR flag_bit j) (flag_bit k) \<longleftrightarrow> has flags (flag_bit k) \<or> j = k"
  "k < 32 \<Longrightarrow> has (flags AND NOT (flag_bit j)) (flag_bit k) \<longleftrightarrow> has flags (flag_bit k) \<and> j \<noteq> k"
  "k < 32 \<Longrightarrow> has (flags OR flag_bit i OR flag_bit j) (flag_bit k) \<longleftrightarrow> has flags (flag_bit k) \<or> i = k \<or> j = k"
  "k < 32 \<Longrightarrow> has (flags AND NOT (flag_bit i) AND NOT (flag_bit j)) (flag_bit k) \<longleftrightarrow> has flags (flag_bit k) \<and> i \<noteq> k \<and> j \<noteq> k"
  "k < 32 \<Longrightarrow> has (flag_bit j) (flag_bit k) \<longleftrightarrow> j = k"
  by (auto simp: has_flag_bit bit_or_iff bit_and_iff bit_not_iff bit_flag)

section \<open>Writing\<close>

primrec put_times :: "nat \<Rightarrow> char \<Rightarrow> 'w gadget \<Rightarrow> 'w gadget option" where
  \<comment> \<open>the loops that write a number of padding characters\<close>
  "put_times 0 c g = Some g"
| "put_times (Suc n) c g = Option.bind (putchar_via_gadget c g) (put_times n c)"

primrec put_reverse :: "string \<Rightarrow> nat \<Rightarrow> 'w gadget \<Rightarrow> 'w gadget option" where
  \<comment> \<open>\<open>while (len) putchar_via_gadget(output, buf[--len])\<close>\<close>
  "put_reverse buf 0 g = Some g"
| "put_reverse buf (Suc len) g = Option.bind (putchar_via_gadget (buf ! len) g) (put_reverse buf len)"

lemma putchar_pos: "putchar_via_gadget c g = Some g' \<Longrightarrow> pos g' = pos g + 1"
  by (auto simp: putchar_via_gadget_def Let_def split: if_splits sink.splits)

function pad_after :: "u32 \<Rightarrow> u32 \<Rightarrow> 'w gadget \<Rightarrow> 'w gadget option" where
  \<comment> \<open>\<open>while (output->pos - start_pos < width) putchar_via_gadget(output, ' ')\<close>\<close>
  "pad_after start_pos width g =
     (if pos g - start_pos < width then Option.bind (putchar_via_gadget CHR '' '' g) (pad_after start_pos width) else Some g)"
  by pat_completeness auto

lemma unat_minus_Suc: "unat (p - s) < unat w \<Longrightarrow> unat (p + 1 - s) = Suc (unat (p - s))" for p s w :: u32
proof -
  assume "unat (p - s) < unat w"
  then have "Suc (unat (p - s)) < 2 ^ 32" using unsigned_less [of w, where 'a = nat] by simp
  then have "unat (p - s + 1) = Suc (unat (p - s))" by (simp add: unat_word_ariths take_bit_nat_eq_self)
  then show ?thesis by (simp add: algebra_simps)
qed

termination pad_after
proof (relation "measure (\<lambda>(start, width, g). unat width - unat (pos g - start))")
  fix start width :: u32 and g g' :: "'a gadget"
  assume l: "pos g - start < width" and p: "putchar_via_gadget CHR '' '' g = Some g'"
  have "unat (pos g - start) < unat width" using l by (simp add: word_less_nat_alt)
  then show "((start, width, g'), start, width, g) \<in> measure (\<lambda>(start, width, g). unat width - unat (pos g - start))"
    using putchar_pos [OF p] unat_minus_Suc [of "pos g" start width] by simp
qed simp

declare pad_after.simps [simp del]

definition out_rev :: "string \<Rightarrow> nat \<Rightarrow> u32 \<Rightarrow> u32 \<Rightarrow> 'w gadget \<Rightarrow> 'w gadget option" where
  "out_rev buf len width flags g =
     (let start_pos = pos g
      in Option.bind (if \<not> has flags FLAGS_LEFT \<and> \<not> has flags FLAGS_ZEROPAD then put_times (unat width - len) CHR '' '' g else Some g)
         (\<lambda>g. Option.bind (put_reverse buf len g)
         (\<lambda>g. if has flags FLAGS_LEFT then pad_after start_pos width g else Some g)))"

section \<open>What a routine writes\<close>

definition sound :: "'w gadget \<Rightarrow> bool" where
  \<comment> \<open>the requirement in the comment on \<open>output_gadget_t\<close>, and a buffer as long as it claims\<close>
  "sound g \<longleftrightarrow> (case sink g of No_sink \<Rightarrow> max_chars g = 0 | Memory b \<Rightarrow> unat (max_chars g) \<le> length b | Function f w \<Rightarrow> True)"

definition put :: "char \<Rightarrow> 'w gadget \<Rightarrow> 'w gadget" where
  "put c g = the (putchar_via_gadget c g)"

definition put_chars :: "string \<Rightarrow> 'w gadget \<Rightarrow> 'w gadget" where
  "put_chars w g = fold put w g"

lemma put_chars_simps [simp]: "put_chars [] g = g" "put_chars (c # w) g = put_chars w (put c g)"
  "put_chars (v @ w) g = put_chars w (put_chars v g)"
  by (simp_all add: put_chars_def)

lemma putchar_sound: "sound g \<Longrightarrow> putchar_via_gadget c g = Some (put c g)"
  and put_sound: "sound g \<Longrightarrow> sound (put c g)"
  by (auto simp: sound_def put_def putchar_via_gadget_def Let_def not_le word_less_nat_alt split: sink.splits)

lemma put_chars_sound [simp]: "sound g \<Longrightarrow> sound (put_chars w g)"
  by (induction w arbitrary: g) (simp_all add: put_sound)

lemma put_fields: "sound g \<Longrightarrow> pos (put c g) = pos g + 1 \<and> max_chars (put c g) = max_chars g"
  by (auto simp: sound_def put_def putchar_via_gadget_def Let_def not_le word_less_nat_alt split: sink.splits)

lemma put_chars_pos: "sound g \<Longrightarrow> pos (put_chars w g) = pos g + of_nat (length w)"
  by (induction w arbitrary: g) (simp_all add: put_sound put_fields)

lemma put_chars_max: "sound g \<Longrightarrow> max_chars (put_chars w g) = max_chars g"
  by (induction w arbitrary: g) (simp_all add: put_sound put_fields)

definition emits :: "('w gadget \<Rightarrow> 'w gadget option) \<Rightarrow> string \<Rightarrow> bool" where
  "emits op w \<longleftrightarrow> (\<forall>g. sound g \<longrightarrow> op g = Some (put_chars w g))"

named_theorems emits_intros \<open>what the routines of the library write\<close>

lemma emitsD: "emits op w \<Longrightarrow> sound g \<Longrightarrow> op g = Some (put_chars w g)"
  by (simp add: emits_def)

lemma emits_putchar [emits_intros]: "emits (putchar_via_gadget c) [c]"
  by (simp add: emits_def putchar_sound)

lemma emits_skip [emits_intros]: "emits Some []"
  by (simp add: emits_def)

lemma emits_bind [emits_intros]: "emits f v \<Longrightarrow> emits h w \<Longrightarrow> emits (\<lambda>g. Option.bind (f g) h) (v @ w)"
  by (simp add: emits_def)

lemma emits_if [emits_intros]: "(b \<Longrightarrow> emits f v) \<Longrightarrow> (\<not> b \<Longrightarrow> emits h w) \<Longrightarrow> emits (\<lambda>g. if b then f g else h g) (if b then v else w)"
  by (simp add: emits_def)

lemma put_times_emits [emits_intros]: "emits (put_times n c) (replicate n c)"
  by (induction n) (simp_all add: emits_def putchar_sound put_sound)

lemma put_reverse_emits [emits_intros]: "len \<le> length buf \<Longrightarrow> emits (put_reverse buf len) (rev (take len buf))"
  by (induction len) (simp_all add: emits_def putchar_sound put_sound take_Suc_conv_app_nth)

lemma pad_after_emits:
  assumes "sound g" and "pos g = start + of_nat n" and "n < 2 ^ 32"
  shows "pad_after start width g = Some (put_chars (replicate (unat width - n) CHR '' '') g)"
  using assms
proof (induction "unat width - n" arbitrary: n g)
  case 0
  then have "unat (pos g - start) = n" by (simp add: unat_of_nat take_bit_nat_eq_self)
  then have "\<not> pos g - start < width" using 0 by (simp add: word_less_nat_alt)
  then show ?case using 0 by (subst pad_after.simps) simp
next
  case (Suc d)
  then have "unat (pos g - start) = n" by (simp add: unat_of_nat take_bit_nat_eq_self)
  then have l: "pos g - start < width" using Suc by (simp add: word_less_nat_alt)
  have "Suc n < 2 ^ 32 \<or> Suc n = 2 ^ 32" using Suc.prems by auto
  then have n: "Suc n < 2 ^ 32" using Suc(2) unsigned_less [of width, where 'a = nat] by auto
  have "pad_after start width (put CHR '' '' g) = Some (put_chars (replicate (unat width - Suc n) CHR '' '') (put CHR '' '' g))"
    using Suc n by (intro Suc.hyps(1)) (auto simp: put_sound put_fields)
  moreover have "unat width - n = Suc (unat width - Suc n)" using Suc(2) by simp
  ultimately show ?case using l Suc.prems by (subst pad_after.simps) (simp add: putchar_sound)
qed

definition padded :: "string \<Rightarrow> nat \<Rightarrow> u32 \<Rightarrow> string" where
  \<comment> \<open>what \<open>out_rev_\<close> makes of a string, in the order of reading\<close>
  "padded w width flags =
     (if has flags FLAGS_LEFT then w @ replicate (width - length w) CHR '' ''
      else if has flags FLAGS_ZEROPAD then w else replicate (width - length w) CHR '' '' @ w)"

lemma out_rev_emits [emits_intros]:
  assumes "len \<le> length buf" and "len < 2 ^ 32"
  shows "emits (out_rev buf len width flags) (padded (rev (take len buf)) (unat width) flags)"
  unfolding emits_def
proof (intro allI impI)
  fix g :: "'w gadget" assume g: "sound g"
  let ?w = "rev (take len buf)"
  have r: "put_reverse buf len h = Some (put_chars ?w h)" if "sound h" for h :: "'w gadget"
    by (rule emitsD [OF put_reverse_emits [OF assms(1)] that])
  have p: "pad_after (pos g) width (put_chars ?w g) = Some (put_chars (replicate (unat width - len) CHR '' '') (put_chars ?w g))"
    using assms g by (intro pad_after_emits) (simp_all add: put_chars_pos min_absorb2)
  show "out_rev buf len width flags g = Some (put_chars (padded ?w (unat width) flags) g)"
    using g assms(1) r p by (simp add: out_rev_def padded_def min_absorb2 emitsD [OF put_times_emits])
qed

section \<open>What the gadget does with it\<close>

lemma put_memory:
  assumes "sink g = Memory b" and "unat (max_chars g) \<le> length b" and "unat (pos g) + length w < 2 ^ 32"
  shows "sink (put_chars w g) =
    Memory (take (unat (pos g)) b @ take (unat (max_chars g) - unat (pos g)) w @
      drop (unat (pos g) + min (unat (max_chars g) - unat (pos g)) (length w)) b)"
  using assms
proof (induction w arbitrary: g b)
  case (Cons c w)
  have g: "sound g" using Cons.prems by (simp add: sound_def)
  have p: "unat (pos g + 1) = Suc (unat (pos g))"
    using Cons.prems(3) by (simp add: unat_word_ariths take_bit_nat_eq_self)
  let ?n = "unat (pos g)" and ?m = "unat (max_chars g)"
  show ?case
  proof (cases "?n < ?m")
    case True
    then have "sink (put c g) = Memory (b[?n := c])"
      using Cons.prems by (simp add: put_def putchar_via_gadget_def Let_def not_le [symmetric] word_le_nat_alt)
    then have "sink (put_chars w (put c g)) =
        Memory (take (Suc ?n) (b[?n := c]) @ take (?m - Suc ?n) w @ drop (Suc ?n + min (?m - Suc ?n) (length w)) (b[?n := c]))"
      using Cons.prems p put_fields [OF g] by (subst Cons.IH [of "put c g" "b[?n := c]"]) auto
    moreover have "take (Suc ?n) (b[?n := c]) = take ?n b @ [c]" using True Cons.prems(2) by (simp add: take_Suc_conv_app_nth)
    moreover have "?m - ?n = Suc (?m - Suc ?n)" using True by simp
    ultimately show ?thesis using True by simp
  next
    case False
    then have "sink (put c g) = Memory b"
      using Cons.prems by (simp add: put_def putchar_via_gadget_def Let_def word_le_nat_alt)
    then have "sink (put_chars w (put c g)) =
        Memory (take (Suc ?n) b @ take (?m - Suc ?n) w @ drop (Suc ?n + min (?m - Suc ?n) (length w)) b)"
      using Cons.prems p put_fields [OF g] by (subst Cons.IH) auto
    then show ?thesis using False by simp
  qed
qed simp

lemma put_function:
  assumes "sink g = Function f x" and "unat (pos g) + length w \<le> unat (max_chars g)"
  shows "sink (put_chars w g) = Function f (fold f w x)"
  using assms
proof (induction w arbitrary: g x)
  case (Cons c w)
  have g: "sound g" using Cons.prems by (simp add: sound_def)
  have l: "unat (pos g) < unat (max_chars g)" using Cons.prems(2) by simp
  then have "Suc (unat (pos g)) < 2 ^ 32" using unsigned_less [of "max_chars g", where 'a = nat] by simp
  then have p: "unat (pos g + 1) = Suc (unat (pos g))" by (simp add: unat_word_ariths take_bit_nat_eq_self)
  have "sink (put c g) = Function f (f c x)"
    using Cons.prems(1) l by (simp add: put_def putchar_via_gadget_def Let_def word_le_nat_alt)
  then show ?case using Cons p put_fields [OF g] by simp
qed simp

end
