(* ===== verification/PrintfInt.thy ===== *)
theory PrintfInt
  imports PrintfOut
begin

text \<open>
  \<open>print_integer\<close> of \<open>lib/printf/printf.c\<close>: digits, leading zeros, prefix and sign are collected in reverse in a buffer of 32 characters. The
  reference is the C standard: \<open>std_integer\<close>.
\<close>

type_synonym u64 = "64 word"

definition INTEGER_BUFFER_SIZE :: nat where "INTEGER_BUFFER_SIZE = 32"
definition BASE_BINARY :: u8 where "BASE_BINARY = 2"
definition BASE_OCTAL :: u8 where "BASE_OCTAL = 8"
definition BASE_DECIMAL :: u8 where "BASE_DECIMAL = 10"
definition BASE_HEX :: u8 where "BASE_HEX = 16"

lemmas base_defs = BASE_BINARY_def BASE_OCTAL_def BASE_DECIMAL_def BASE_HEX_def

definition digit_of :: "bool \<Rightarrow> nat \<Rightarrow> char" where
  "digit_of upper digit = char_of (if digit < 10 then 48 + digit else (if upper then 65 else 97) + digit - 10)"

function int_digits :: "bool \<Rightarrow> u8 \<Rightarrow> u64 \<Rightarrow> string \<Rightarrow> string" where
  \<comment> \<open>the \<open>do\<close> loop of \<open>print_integer\<close>\<close>
  "int_digits upper base value buf =
     (let buf = buf @ [digit_of upper (unat (value mod ucast base))];
          value = value div ucast base
      in if value \<noteq> 0 \<and> length buf < INTEGER_BUFFER_SIZE then int_digits upper base value buf else buf)"
  by pat_completeness auto
termination
  by (relation "measure (\<lambda>(upper, base, value, buf). INTEGER_BUFFER_SIZE - length buf)") auto

declare int_digits.simps [simp del]

function pad_zeros :: "nat \<Rightarrow> string \<Rightarrow> string" where
  \<comment> \<open>\<open>while (len < n && len < PRINTF_INTEGER_BUFFER_SIZE) buf[len++] = '0'\<close>\<close>
  "pad_zeros n buf = (if length buf < n \<and> length buf < INTEGER_BUFFER_SIZE then pad_zeros n (buf @ [CHR ''0'']) else buf)"
  by pat_completeness auto
termination
  by (relation "measure (\<lambda>(n, buf). INTEGER_BUFFER_SIZE - length buf)") auto

declare pad_zeros.simps [simp del]

definition push :: "char \<Rightarrow> string \<Rightarrow> string" where
  \<comment> \<open>\<open>buf[len++] = c\<close>, if there is room\<close>
  "push c buf = (if length buf < INTEGER_BUFFER_SIZE then buf @ [c] else buf)"

definition leading_zeros :: "string \<Rightarrow> bool \<Rightarrow> u32 \<Rightarrow> u32 \<Rightarrow> u32 \<Rightarrow> string \<times> u32" where
  \<comment> \<open>with the width that is left\<close>
  "leading_zeros buf negative precision width flags =
     (let (buf, width) =
            (if \<not> has flags FLAGS_LEFT
             then let width = (if width \<noteq> 0 \<and> has flags FLAGS_ZEROPAD \<and> (negative \<or> has flags (FLAGS_PLUS OR FLAGS_SPACE))
                               then width - 1 else width)
                  in (if has flags FLAGS_ZEROPAD then pad_zeros (unat width) buf else buf, width)
             else (buf, width))
      in (pad_zeros (unat precision) buf, width))"

definition take_back :: "string \<Rightarrow> nat \<Rightarrow> u8 \<Rightarrow> u32 \<Rightarrow> u32 \<Rightarrow> u32 \<Rightarrow> string" where
  "take_back buf unpadded_len base precision width flags =
     (if \<not> has flags FLAGS_PRECISION \<and> buf \<noteq> [] \<and> (length buf = unat precision \<or> length buf = unat width)
      then let buf = (if unpadded_len < length buf then butlast buf else buf)
           in if buf \<noteq> [] \<and> (base = BASE_HEX \<or> base = BASE_BINARY) \<and> unpadded_len < length buf then butlast buf else buf
      else buf)"

definition number_prefix :: "u8 \<Rightarrow> u32 \<Rightarrow> string \<Rightarrow> string" where
  "number_prefix base flags buf =
     push (CHR ''0'')
       (if base = BASE_HEX \<and> \<not> has flags FLAGS_UPPERCASE \<and> length buf < INTEGER_BUFFER_SIZE then push (CHR ''x'') buf
        else if base = BASE_HEX \<and> has flags FLAGS_UPPERCASE \<and> length buf < INTEGER_BUFFER_SIZE then push (CHR ''X'') buf
        else if base = BASE_BINARY then push (CHR ''b'') buf else buf)"

definition number_sign :: "bool \<Rightarrow> u32 \<Rightarrow> string \<Rightarrow> string" where
  "number_sign negative flags buf =
     (if negative then push (CHR ''-'') buf
      else if has flags FLAGS_PLUS then push (CHR ''+'') buf
      else if has flags FLAGS_SPACE then push (CHR '' '') buf else buf)"

definition integer_text :: "string \<Rightarrow> bool \<Rightarrow> u8 \<Rightarrow> u32 \<Rightarrow> u32 \<Rightarrow> u32 \<Rightarrow> string \<times> u32 \<times> u32" where
  \<comment> \<open>\<open>print_integer_finalization\<close> up to the output: the buffer, the width and the flags\<close>
  "integer_text buf negative base precision width flags =
     (let unpadded_len = length buf;
          (buf, width) = leading_zeros buf negative precision width flags;
          flags = (if base = BASE_OCTAL \<and> unpadded_len < length buf then flags AND NOT FLAGS_HASH else flags);
          buf = (if has flags (FLAGS_HASH OR FLAGS_POINTER)
                 then number_prefix base flags (take_back buf unpadded_len base precision width flags) else buf);
          buf = number_sign negative flags buf
      in (buf, width, flags))"

definition print_integer_finalization :: "string \<Rightarrow> bool \<Rightarrow> u8 \<Rightarrow> u32 \<Rightarrow> u32 \<Rightarrow> u32 \<Rightarrow> 'w gadget \<Rightarrow> 'w gadget option" where
  "print_integer_finalization buf negative base precision width flags g =
     (case integer_text buf negative base precision width flags of (buf, width, flags) \<Rightarrow> out_rev buf (length buf) width flags g)"

definition print_integer :: "u64 \<Rightarrow> bool \<Rightarrow> u8 \<Rightarrow> u32 \<Rightarrow> u32 \<Rightarrow> u32 \<Rightarrow> 'w gadget \<Rightarrow> 'w gadget option" where
  "print_integer value negative base precision width flags g =
     (if value = 0 then
        (if \<not> has flags FLAGS_PRECISION
         then print_integer_finalization [CHR ''0''] negative base precision width (flags AND NOT FLAGS_HASH) g
         else print_integer_finalization [] negative base precision width
                (if base = BASE_HEX then flags AND NOT FLAGS_HASH else flags) g)
      else print_integer_finalization (int_digits (has flags FLAGS_UPPERCASE) base value []) negative base precision width flags g)"

section \<open>The reference\<close>

fun base_digits :: "bool \<Rightarrow> nat \<Rightarrow> nat \<Rightarrow> string" where
  "base_digits upper b n = (if n = 0 \<or> b < 2 then [] else base_digits upper b (n div b) @ [digit_of upper (n mod b)])"

declare base_digits.simps [simp del]

definition std_digits :: "nat \<Rightarrow> u8 \<Rightarrow> nat \<Rightarrow> u32 \<Rightarrow> string" where
  \<comment> \<open>at least as many digits as the precision says, 1 by default; the alternative form of octal begins with a zero\<close>
  "std_digits n base prec flags =
     (let d = base_digits (has flags FLAGS_UPPERCASE) (unat base) n;
          d = replicate ((if has flags FLAGS_PRECISION then prec else 1) - length d) CHR ''0'' @ d
      in if has flags FLAGS_HASH \<and> base = BASE_OCTAL \<and> (d = [] \<or> hd d \<noteq> CHR ''0'') then CHR ''0'' # d else d)"

definition std_prefix :: "nat \<Rightarrow> u8 \<Rightarrow> u32 \<Rightarrow> string" where
  "std_prefix n base flags =
     (if has flags FLAGS_HASH \<and> base = BASE_HEX \<and> n \<noteq> 0 then [CHR ''0'', if has flags FLAGS_UPPERCASE then CHR ''X'' else CHR ''x'']
      else if has flags FLAGS_HASH \<and> base = BASE_BINARY \<and> (n \<noteq> 0 \<or> has flags FLAGS_PRECISION) then ''0b'' else [])"

definition std_sign :: "bool \<Rightarrow> u32 \<Rightarrow> string" where
  "std_sign negative flags =
     (if negative then ''-'' else if has flags FLAGS_PLUS then ''+'' else if has flags FLAGS_SPACE then '' '' else [])"

definition std_integer :: "nat \<Rightarrow> bool \<Rightarrow> u8 \<Rightarrow> nat \<Rightarrow> nat \<Rightarrow> u32 \<Rightarrow> string" where
  "std_integer n negative base prec width flags =
     (let front = std_sign negative flags @ std_prefix n base flags;
          d = std_digits n base prec flags;
          fill = width - length (front @ d)
      in if has flags FLAGS_LEFT then front @ d @ replicate fill CHR '' ''
         else if has flags FLAGS_ZEROPAD \<and> \<not> has flags FLAGS_PRECISION then front @ replicate fill CHR ''0'' @ d
         else replicate fill CHR '' '' @ front @ d)"

section \<open>Lemmas on the buffer\<close>

lemma pad_zeros_eq: "length buf \<le> 32 \<Longrightarrow> pad_zeros n buf = buf @ replicate (min n 32 - length buf) CHR ''0''"
proof (induction n buf rule: pad_zeros.induct)
  case (1 n buf)
  show ?case
  proof (cases "length buf < n \<and> length buf < 32")
    case True
    then have "pad_zeros n (buf @ [CHR ''0'']) = (buf @ [CHR ''0'']) @ replicate (min n 32 - Suc (length buf)) CHR ''0''"
      using "1.IH" by (simp add: INTEGER_BUFFER_SIZE_def)
    moreover have "min n 32 - length buf = Suc (min n 32 - Suc (length buf))" using True by auto
    ultimately show ?thesis using True by (subst pad_zeros.simps) (simp add: INTEGER_BUFFER_SIZE_def)
  next
    case False
    then have "min n 32 - length buf = 0" by auto
    moreover have "pad_zeros n buf = buf" by (subst pad_zeros.simps, subst if_not_P) (use False in \<open>simp_all add: INTEGER_BUFFER_SIZE_def\<close>)
    ultimately show ?thesis by simp
  qed
qed

lemma base_digits_pos: "0 < n \<Longrightarrow> 2 \<le> b \<Longrightarrow> base_digits u b n = base_digits u b (n div b) @ [digit_of u (n mod b)]"
  by (subst base_digits.simps) simp

lemma base_digits_0 [simp]: "base_digits u b 0 = []"
  by (subst base_digits.simps) simp

lemma base_digits_Nil: "2 \<le> b \<Longrightarrow> base_digits u b n = [] \<longleftrightarrow> n = 0"
  by (subst base_digits.simps) simp

lemma int_digits_eq:
  assumes "2 \<le> unat base" and "value \<noteq> 0" and "length buf + length (base_digits u (unat base) (unat value)) \<le> 32"
  shows "int_digits u base value buf = buf @ rev (base_digits u (unat base) (unat value))"
  using assms(2,3)
proof (induction "unat value" arbitrary: "value" buf rule: less_induct)
  case less
  have b: "unat (ucast base :: u64) = unat base" 
    using unsigned_less [of base, where 'a = nat] by (simp add: unsigned_ucast_eq take_bit_nat_eq_self)
  have v: "0 < unat value" using less.prems(1) by (simp add: word_neq_0_conv word_less_nat_alt)
  have d: "unat (value div ucast base) = unat value div unat base" "unat (value mod ucast base) = unat value mod unat base"
    by (simp_all add: unat_div unat_mod b)
  have e: "base_digits u (unat base) (unat value) = base_digits u (unat base) (unat value div unat base) @ [digit_of u (unat value mod unat base)]"
    by (rule base_digits_pos [OF v assms(1)])
  show ?case
  proof (cases "value div ucast base = 0")
    case True
    then have "unat value div unat base = 0" using d(1) by simp
    then show ?thesis unfolding e using True by (subst int_digits.simps) (simp add: Let_def d)
  next
    case False
    let ?buf = "buf @ [digit_of u (unat value mod unat base)]"
    have l: "length ?buf + length (base_digits u (unat base) (unat (value div ucast base))) \<le> 32" using less.prems(2) e d(1) by simp
    have "base_digits u (unat base) (unat (value div ucast base)) \<noteq> []"
      using False assms(1) by (simp add: base_digits_Nil unat_eq_0)
    then have "length ?buf < 32" using l by (cases "base_digits u (unat base) (unat (value div ucast base))") auto
    moreover have "int_digits u base (value div ucast base) ?buf = ?buf @ rev (base_digits u (unat base) (unat (value div ucast base)))"
      using v assms(1) d(1) False l by (intro less.hyps) auto
    ultimately show ?thesis unfolding e using False d by (subst int_digits.simps) (simp add: Let_def INTEGER_BUFFER_SIZE_def)
  qed
qed

lemma digit_of_nonzero: "0 < d \<Longrightarrow> d < 16 \<Longrightarrow> digit_of u d \<noteq> CHR ''0''"
proof
  assume d: "0 < d" "d < 16" and e: "digit_of u d = CHR ''0''"
  have "of_char (digit_of u d) = (48 :: nat)" unfolding e by simp
  then show False using d by (auto simp: digit_of_def split: if_splits)
qed

lemma base_digits_hd: "0 < n \<Longrightarrow> 2 \<le> b \<Longrightarrow> b \<le> 16 \<Longrightarrow> hd (base_digits u b n) \<noteq> CHR ''0''"
proof (induction n rule: less_induct)
  case (less n)
  note e = base_digits_pos [OF less.prems(1,2), of u]
  show ?case
  proof (cases "n div b = 0")
    case True
    then have "n < b" using less.prems by (simp add: div_eq_0_iff)
    then show ?thesis unfolding e using less.prems True digit_of_nonzero [of n u] by simp
  next
    case False
    moreover have "n div b < n" using less.prems by simp
    ultimately show ?thesis unfolding e using less by (simp add: hd_append base_digits_Nil)
  qed
qed

section \<open>The code meets the standard\<close>

definition finalized_chars :: "string \<Rightarrow> bool \<Rightarrow> u8 \<Rightarrow> u32 \<Rightarrow> u32 \<Rightarrow> u32 \<Rightarrow> string" where
  \<comment> \<open>what \<open>print_integer_finalization\<close> writes\<close>
  "finalized_chars buf negative base precision width flags =
     (case integer_text buf negative base precision width flags of (buf, width, flags) \<Rightarrow> padded (rev buf) (unat width) flags)"

definition integer_chars :: "u64 \<Rightarrow> bool \<Rightarrow> u8 \<Rightarrow> u32 \<Rightarrow> u32 \<Rightarrow> u32 \<Rightarrow> string" where
  \<comment> \<open>what \<open>print_integer\<close> writes\<close>
  "integer_chars value negative base precision width flags =
     (if value = 0 then
        (if \<not> has flags FLAGS_PRECISION then finalized_chars [CHR ''0''] negative base precision width (flags AND NOT FLAGS_HASH)
         else finalized_chars [] negative base precision width (if base = BASE_HEX then flags AND NOT FLAGS_HASH else flags))
      else finalized_chars (int_digits (has flags FLAGS_UPPERCASE) base value []) negative base precision width flags)"

lemma push_length: "length buf \<le> 32 \<Longrightarrow> length (push c buf) \<le> 32"
  by (simp add: push_def INTEGER_BUFFER_SIZE_def)

lemma text_length:
  assumes "length buf \<le> 32"
  shows "length (fst (integer_text buf negative base precision width flags)) \<le> 32"
proof -
  obtain b w where l: "leading_zeros buf negative precision width flags = (b, w)" by fastforce
  then have b: "length b \<le> 32" using assms by (auto simp: leading_zeros_def Let_def pad_zeros_eq split: if_splits)
  have t: "length (take_back b u base precision w f) \<le> 32" for u f using b by (auto simp: take_back_def Let_def)
  have p: "length (number_prefix base f b') \<le> 32" if "length b' \<le> 32" for b' f using that by (auto simp: number_prefix_def push_length)
  have "length (number_sign negative f b') \<le> 32" if "length b' \<le> 32" for b' f using that by (auto simp: number_sign_def push_length)
  then show ?thesis using b t p by (simp add: integer_text_def l Let_def)
qed

lemma digits_length: "length buf < 32 \<Longrightarrow> length (int_digits u base value buf) \<le> 32"
proof (induction u base "value" buf rule: int_digits.induct)
  case (1 u base "value" buf)
  then show ?case by (subst int_digits.simps) (auto simp: Let_def INTEGER_BUFFER_SIZE_def)
qed

lemma finalization_emits:
  assumes "length buf \<le> 32"
  shows "emits (print_integer_finalization buf negative base precision width flags) (finalized_chars buf negative base precision width flags)"
proof -
  obtain b w f where t: "integer_text buf negative base precision width flags = (b, w, f)" by (metis prod_cases3)
  then have "length b \<le> 32" using text_length [OF assms, of negative base precision width flags] by simp
  then show ?thesis
    using out_rev_emits [of "length b" b w f] t unfolding emits_def print_integer_finalization_def finalized_chars_def by simp
qed

lemma print_integer_emits [emits_intros]:
  "emits (print_integer value negative base precision width flags) (integer_chars value negative base precision width flags)"
  unfolding emits_def print_integer_def integer_chars_def by (simp add: emitsD [OF finalization_emits] digits_length)

text \<open>The text before the padding to the width: the signed conversions are decimal and without the alternative form, and a precision cancels the padding with
  zeros, as \<open>_vsnprintf\<close> sees to.\<close>

definition integer_args_ok :: "bool \<Rightarrow> u8 \<Rightarrow> u32 \<Rightarrow> u32 \<Rightarrow> u32 \<Rightarrow> bool" where
  "integer_args_ok negative base precision width flags \<longleftrightarrow>
     base \<in> {BASE_BINARY, BASE_OCTAL, BASE_DECIMAL, BASE_HEX} \<and> \<not> has flags FLAGS_POINTER \<and>
     (has flags FLAGS_ZEROPAD \<longrightarrow> \<not> has flags FLAGS_PRECISION) \<and> (has flags FLAGS_PRECISION \<or> precision = 0) \<and> unat precision \<le> 29 \<and>
     (has flags FLAGS_ZEROPAD \<longrightarrow> \<not> has flags FLAGS_LEFT \<longrightarrow> unat width \<le> 32) \<and>
     (if base = BASE_DECIMAL then \<not> has flags FLAGS_HASH else \<not> negative \<and> \<not> has flags FLAGS_PLUS \<and> \<not> has flags FLAGS_SPACE)"

definition alternative :: "u8 \<Rightarrow> u32 \<Rightarrow> string" where
  \<comment> \<open>the prefix of the alternative form\<close>
  "alternative base flags =
     (if base = BASE_HEX then [CHR ''0'', if has flags FLAGS_UPPERCASE then CHR ''X'' else CHR ''x'']
      else if base = BASE_BINARY then ''0b'' else ''0'')"

lemma number_prefix_eq: "length buf \<le> 30 \<Longrightarrow> number_prefix base flags buf = buf @ rev (alternative base flags)"
  by (simp add: number_prefix_def push_def alternative_def INTEGER_BUFFER_SIZE_def base_defs)

lemma number_sign_eq: "length buf < 32 \<Longrightarrow> number_sign negative flags buf = buf @ rev (std_sign negative flags)"
  by (simp add: number_sign_def push_def std_sign_def INTEGER_BUFFER_SIZE_def)

lemma alternative_length: "length (alternative base flags) \<le> 2"
  by (simp add: alternative_def)

lemma std_sign_clear [simp]: "std_sign negative (flags AND NOT FLAGS_HASH) = std_sign negative flags"
  by (simp add: std_sign_def)

lemma alternative_clear [simp]: "alternative base (flags AND NOT FLAGS_HASH) = alternative base flags"
  by (simp add: alternative_def)

lemma text_unpadded:
  assumes ok: "integer_args_ok negative base precision width flags" and d: "length d \<le> 29"
    and z: "has flags FLAGS_LEFT \<or> \<not> has flags FLAGS_ZEROPAD"
    and t: "t = replicate (unat precision - length d) CHR ''0'' @ d"
    and f: "flags' = (if base = BASE_OCTAL \<and> length d < length t then flags AND NOT FLAGS_HASH else flags)"
  shows "integer_text (rev d) negative base precision width flags =
    (rev (std_sign negative flags @ (if has flags' FLAGS_HASH then alternative base flags else []) @ t), width, flags')"
proof -
  have p: "unat precision \<le> 29" using ok by (simp add: integer_args_ok_def)
  have t29: "length t \<le> 29" using d p t by simp
  have lz: "leading_zeros (rev d) negative precision width flags = (rev t, width)"
    using z d p by (auto simp: leading_zeros_def Let_def pad_zeros_eq t)
  have tb: "take_back (rev t) (length d) base precision width f = rev t" if "has f FLAGS_PRECISION = has flags FLAGS_PRECISION" for f
    using ok that by (auto simp: take_back_def integer_args_ok_def Let_def t)
  have fp: "\<not> has flags' FLAGS_POINTER" "has flags' FLAGS_PRECISION = has flags FLAGS_PRECISION"
    "std_sign negative flags' = std_sign negative flags" "alternative base flags' = alternative base flags"
    using ok by (simp_all add: f integer_args_ok_def)
  have s: "integer_text (rev d) negative base precision width flags =
      (number_sign negative flags' (if has flags' FLAGS_HASH then number_prefix base flags' (rev t) else rev t), width, flags')"
    unfolding integer_text_def Let_def lz prod.case length_rev f [symmetric] has_or by (simp add: fp tb)
  have np: "(if has flags' FLAGS_HASH then number_prefix base flags' (rev t) else rev t) =
      rev ((if has flags' FLAGS_HASH then alternative base flags else []) @ t)"
    using t29 by (simp add: number_prefix_eq fp)
  have "length ((if has flags' FLAGS_HASH then alternative base flags else []) @ t) < 32"
    using t29 alternative_length [of base flags] by auto
  then show ?thesis unfolding s np by (simp add: number_sign_eq fp)
qed

lemma butlast_zeros: "butlast (rev (replicate (Suc k) c @ d)) = rev (replicate k c @ d)"
  by (simp add: butlast_append)

lemma take_back_eq:
  assumes "\<not> has flags FLAGS_PRECISION" and "base \<noteq> BASE_DECIMAL" "base \<noteq> BASE_OCTAL" "integer_args_ok negative base precision width flags"
    and "d \<noteq> []" and "width' = width"
  shows "take_back (rev (replicate (unat width - length d) CHR ''0'' @ d)) (length d) base precision width' flags =
    rev (replicate (unat width - length d - 2) CHR ''0'' @ d)"
proof -
  let ?k = "unat width - length d"
  have b: "base = BASE_HEX \<or> base = BASE_BINARY" and p: "precision = 0" using assms by (auto simp: integer_args_ok_def)
  consider (none) "?k = 0" | (one) "?k = 1" | (more) j where "?k = Suc (Suc j)" by (metis One_nat_def not0_implies_Suc)
  then show ?thesis
  proof cases
    case none
    then show ?thesis by (simp add: take_back_def Let_def)
  next
    case one
    then show ?thesis using assms p by (simp add: take_back_def Let_def butlast_append)
  next
    case more
    then have "length (rev (replicate ?k CHR ''0'' @ d)) = unat width" by simp
    then show ?thesis using assms b p more by (simp add: take_back_def Let_def butlast_append)
  qed
qed

lemma text_zero_padded:
  assumes ok: "integer_args_ok negative base precision width flags" and d: "length d \<le> 29" "d \<noteq> []"
    and z: "\<not> has flags FLAGS_LEFT" "has flags FLAGS_ZEROPAD"
    and pre: "pre = (if has flags FLAGS_HASH \<and> \<not> (base = BASE_OCTAL \<and> length d < unat width) then alternative base flags else [])"
    and t: "t = std_sign negative flags @ pre @ replicate (unat width - length (std_sign negative flags @ pre @ d)) CHR ''0'' @ d"
  shows "\<exists>width' flags'. integer_text (rev d) negative base precision width flags = (rev t, width', flags') \<and>
    \<not> has flags' FLAGS_LEFT \<and> has flags' FLAGS_ZEROPAD"
proof -
  have w: "unat width \<le> 32" and p: "precision = 0" "\<not> has flags FLAGS_PRECISION" using ok z by (auto simp: integer_args_ok_def)
  define sgn where "sgn \<longleftrightarrow> negative \<or> has flags (FLAGS_PLUS OR FLAGS_SPACE)"
  define width' where "width' = (if width \<noteq> 0 \<and> sgn then width - 1 else width)"
  let ?k = "unat width' - length d"
  let ?b = "replicate ?k CHR ''0'' @ d"
  have w': "unat width' = (if sgn then unat width - 1 else unat width)"
    by (cases "width = 0") (simp_all add: width'_def unat_minus_one)
  have sl: "length (std_sign negative flags) = (if sgn then 1 else 0)" by (simp add: std_sign_def sgn_def has_or)
  have lz: "leading_zeros (rev d) negative precision width flags = (rev ?b, width')"
    using z d p w w' by (simp add: leading_zeros_def Let_def pad_zeros_eq sgn_def [symmetric] width'_def [symmetric] min_absorb1)
  define flags' where "flags' = (if base = BASE_OCTAL \<and> length d < length (rev ?b) then flags AND NOT FLAGS_HASH else flags)"
  have f: "\<not> has flags' FLAGS_POINTER" "std_sign negative flags' = std_sign negative flags" "alternative base flags' = alternative base flags"
    "\<not> has flags' FLAGS_LEFT" "has flags' FLAGS_ZEROPAD"
    using ok z by (simp_all add: flags'_def integer_args_ok_def)
  have s: "integer_text (rev d) negative base precision width flags =
      (number_sign negative flags' (if has flags' FLAGS_HASH then number_prefix base flags' (take_back (rev ?b) (length d) base precision width' flags')
        else rev ?b), width', flags')"
    unfolding integer_text_def Let_def lz prod.case length_rev [of d] flags'_def [symmetric] has_or by (simp add: f)
  show ?thesis
  proof (cases "has flags' FLAGS_HASH")
    case False
    have "pre = []" using False ok w' by (auto simp: pre flags'_def sgn_def has_or integer_args_ok_def split: if_splits)
    moreover have "length ?b < 32 \<or> length (std_sign negative flags) = 0" using d w w' sl by auto
    moreover have "number_sign negative flags' (rev ?b) = rev ?b @ rev (std_sign negative flags)"
      if "length (std_sign negative flags) = 0" using that f(2) by (auto simp: number_sign_def std_sign_def split: if_splits)
    ultimately show ?thesis using False f sl w' unfolding s t by (auto simp: number_sign_eq)
  next
    case True
    have h: "has flags FLAGS_HASH" "base \<noteq> BASE_DECIMAL" "\<not> sgn"
      using True ok by (auto simp: flags'_def sgn_def has_or integer_args_ok_def split: if_splits)
    have ww: "width' = width" and none: "std_sign negative flags = []" using h(3) sl by (simp_all add: width'_def)
    have ns: "number_sign negative flags' b = b" for b using none f(2) by (auto simp: number_sign_def std_sign_def split: if_splits)
    show ?thesis
    proof (cases "base = BASE_OCTAL")
      case oct: True
      then have k: "?k = 0" using True by (auto simp: flags'_def split: if_splits)
      then have "pre = alternative base flags" using h oct ww by (simp add: pre)
      moreover have "take_back (rev ?b) (length d) base precision width' flags' = rev d" using k by (simp add: take_back_def Let_def)
      ultimately show ?thesis using True f k ww d unfolding s t none ns by (auto simp: number_prefix_eq)
    next
      case no: False
      have ff: "flags' = flags" using no by (simp add: flags'_def)
      have "take_back (rev ?b) (length d) base precision width' flags' = rev (replicate (unat width - length d - 2) CHR ''0'' @ d)"
        unfolding ff using take_back_eq [OF p(2) h(2) no ok d(2)] ww by simp
      moreover have "pre = alternative base flags" "length (alternative base flags) = 2"
        using h no ok by (auto simp: pre alternative_def integer_args_ok_def)
      moreover have "length (rev (replicate (unat width - length d - 2) CHR ''0'' @ d)) \<le> 30" using d w by auto
      ultimately show ?thesis using True f ff unfolding s t none ns by (simp add: number_prefix_eq add.commute)
    qed
  qed
qed

text \<open>Every conversion of at most 29 digits, with a precision of at most 29 and, if it is filled with zeros, a width of at most 32 prints what the standard says.\<close>

lemma finalization_std:
  assumes ok: "integer_args_ok negative base precision width flags"
    and d: "d = base_digits (has flags FLAGS_UPPERCASE) (unat base) n" "length d \<le> 29"
    and d': "d' = (if n = 0 \<and> \<not> has flags FLAGS_PRECISION then ''0'' else d)"
    and h: "n = 0 \<Longrightarrow> has flags FLAGS_HASH \<Longrightarrow> base \<noteq> BASE_HEX \<and> has flags FLAGS_PRECISION"
  shows "finalized_chars (rev d') negative base precision width flags = std_integer n negative base (unat precision) (unat width) flags"
proof -
  have b: "base \<in> {BASE_BINARY, BASE_OCTAL, BASE_DECIMAL, BASE_HEX}" using ok by (simp add: integer_args_ok_def)
  then have b2: "2 \<le> unat base" "unat base \<le> 16" by (auto simp: base_defs)
  have l: "length d' \<le> 29" using d(2) d' by simp
  have hd: "n \<noteq> 0 \<Longrightarrow> d \<noteq> [] \<and> hd d \<noteq> CHR ''0''"
    using base_digits_hd [of n "unat base"] b2 by (simp add: d(1) base_digits_Nil)
  have hx: "has flags FLAGS_HASH \<Longrightarrow> base = BASE_HEX \<Longrightarrow> n \<noteq> 0" "has flags FLAGS_HASH \<Longrightarrow> n \<noteq> 0 \<or> has flags FLAGS_PRECISION"
    "has flags FLAGS_HASH \<Longrightarrow> base \<noteq> BASE_DECIMAL"
    using h ok by (auto simp: integer_args_ok_def)
  have p0: "\<not> has flags FLAGS_PRECISION \<Longrightarrow> precision = 0" using ok by (simp add: integer_args_ok_def)
  let ?oct = "has flags FLAGS_HASH \<and> base = BASE_OCTAL"
  let ?t = "replicate (unat precision - length d') CHR ''0'' @ d'"
  have std: "std_digits n base (unat precision) flags = (if ?oct \<and> unat precision \<le> length d' then CHR ''0'' # d' else ?t)"
  proof (cases "n = 0")
    case True
    then show ?thesis using hx p0 d(1) d' by (cases "unat precision") (auto simp: std_digits_def)
  next
    case False
    then have "d' = d" "d \<noteq> []" "hd d \<noteq> CHR ''0''" using hd d' by simp_all
    moreover have "1 - length d = 0" using \<open>d \<noteq> []\<close> by (cases d) simp_all
    moreover have "hd (replicate k CHR ''0'' @ d) \<noteq> CHR ''0'' \<longleftrightarrow> k = 0" for k using \<open>hd d \<noteq> CHR ''0''\<close> by (cases k) simp_all
    ultimately show ?thesis using p0 by (auto simp: std_digits_def d(1) [symmetric])
  qed
  have pre: "std_prefix n base flags = (if has flags FLAGS_HASH \<and> base \<noteq> BASE_OCTAL then alternative base flags else [])"
    using hx b by (auto simp: std_prefix_def alternative_def base_defs)
  have alt: "base = BASE_OCTAL \<Longrightarrow> alternative base flags = ''0''" by (simp add: alternative_def base_defs)
  show ?thesis
  proof (cases "has flags FLAGS_LEFT \<or> \<not> has flags FLAGS_ZEROPAD")
    case True
    let ?f = "if base = BASE_OCTAL \<and> length d' < length ?t then flags AND NOT FLAGS_HASH else flags"
    let ?w = "std_sign negative flags @ (if has ?f FLAGS_HASH then alternative base flags else []) @ ?t"
    have w: "?w = std_sign negative flags @ std_prefix n base flags @ std_digits n base (unat precision) flags"
      unfolding std pre using alt by (auto simp: not_less)
    have "finalized_chars (rev d') negative base precision width flags = padded (rev (rev ?w)) (unat width) ?f"
      unfolding finalized_chars_def text_unpadded [OF ok l True refl refl] by simp
    moreover have "padded ?w (unat width) ?f = std_integer n negative base (unat precision) (unat width) flags"
      unfolding w using True by (auto simp: padded_def std_integer_def Let_def)
    ultimately show ?thesis by simp
  next
    case False
    then have z: "\<not> has flags FLAGS_LEFT" "has flags FLAGS_ZEROPAD" "\<not> has flags FLAGS_PRECISION" using ok by (auto simp: integer_args_ok_def)
    have ne: "d' \<noteq> []" using hd d' z(3) by auto
    let ?pre = "if has flags FLAGS_HASH \<and> \<not> (base = BASE_OCTAL \<and> length d' < unat width) then alternative base flags else []"
    let ?w = "std_sign negative flags @ ?pre @ replicate (unat width - length (std_sign negative flags @ ?pre @ d')) CHR ''0'' @ d'"
    from text_zero_padded [OF ok l ne z(1,2) refl refl]
    obtain w' f' where t: "integer_text (rev d') negative base precision width flags = (rev ?w, w', f')"
      "\<not> has f' FLAGS_LEFT" "has f' FLAGS_ZEROPAD" by blast
    have "finalized_chars (rev d') negative base precision width flags = ?w"
      using t(2,3) unfolding finalized_chars_def t(1) by (simp add: padded_def)
    moreover have "?w = std_integer n negative base (unat precision) (unat width) flags"
    proof (cases "?oct")
      case oct: True
      then have s: "std_sign negative flags = []" using ok by (auto simp: std_sign_def integer_args_ok_def base_defs)
      show ?thesis
      proof (cases "length d' < unat width")
        case True
        then obtain m where m: "unat width - length d' = Suc m" by (metis Suc_diff_Suc)
        have sd: "std_digits n base (unat precision) flags = CHR ''0'' # d'" "std_prefix n base flags = []"
          unfolding std pre using oct z p0 by simp_all
        then have "unat width - Suc (length d') = m" using m by simp
        then show ?thesis using oct s z m True sd by (simp add: std_integer_def Let_def replicate_app_Cons_same)
      next
        case False
        have "std_digits n base (unat precision) flags = CHR ''0'' # d'" "std_prefix n base flags = []"
          unfolding std pre using oct z p0 by simp_all
        then show ?thesis using oct s z alt False by (simp add: std_integer_def Let_def)
      qed
    next
      case no: False
      have sd: "std_digits n base (unat precision) flags = d'" unfolding std using no z p0 by auto
      have "?pre = std_prefix n base flags" unfolding pre using no by auto
      then show ?thesis using z sd by (simp only: std_integer_def Let_def) (simp add: add.assoc)
    qed
    ultimately show ?thesis by simp
  qed
qed

lemma integer_chars_std:
  assumes ok: "integer_args_ok negative base precision width flags"
    and d: "length (base_digits (has flags FLAGS_UPPERCASE) (unat base) (unat value)) \<le> 29"
  shows "integer_chars value negative base precision width flags = std_integer (unat value) negative base (unat precision) (unat width) flags"
proof (cases "value = 0")
  case True
  let ?f = "flags AND NOT FLAGS_HASH"
  have okf: "integer_args_ok negative base precision width ?f" using ok by (simp add: integer_args_ok_def)
  have clear: "std_integer 0 negative base (unat precision) (unat width) ?f = std_integer 0 negative base (unat precision) (unat width) flags"
    if "\<not> has flags FLAGS_PRECISION \<or> base = BASE_HEX"
    using that by (auto simp: std_integer_def std_digits_def std_prefix_def base_defs Let_def)
  show ?thesis
  proof (cases "has flags FLAGS_PRECISION")
    case False
    have "finalized_chars (rev ''0'') negative base precision width ?f = std_integer 0 negative base (unat precision) (unat width) ?f"
      using False by (intro finalization_std [OF okf refl]) simp_all
    then show ?thesis using False True clear by (simp add: integer_chars_def)
  next
    case prec: True
    show ?thesis
    proof (cases "base = BASE_HEX")
      case hex: True
      have "finalized_chars (rev []) negative base precision width ?f = std_integer 0 negative base (unat precision) (unat width) ?f"
        using prec by (intro finalization_std [OF okf refl]) simp_all
      then show ?thesis using prec hex True clear by (simp add: integer_chars_def)
    next
      case False
      have "finalized_chars (rev []) negative base precision width flags = std_integer 0 negative base (unat precision) (unat width) flags"
        using prec False by (intro finalization_std [OF ok refl]) simp_all
      then show ?thesis using prec False True by (simp add: integer_chars_def)
    qed
  qed
next
  case False
  have b: "2 \<le> unat base" using ok by (auto simp: integer_args_ok_def base_defs)
  have "int_digits (has flags FLAGS_UPPERCASE) base value [] = rev (base_digits (has flags FLAGS_UPPERCASE) (unat base) (unat value))"
    using int_digits_eq [OF b False, of "[]"] d by simp
  moreover have "finalized_chars (rev (base_digits (has flags FLAGS_UPPERCASE) (unat base) (unat value))) negative base precision width flags =
      std_integer (unat value) negative base (unat precision) (unat width) flags"
    using False by (intro finalization_std [OF ok refl d]) (simp_all add: unat_eq_0)
  ultimately show ?thesis using False by (simp add: integer_chars_def)
qed

end
