(* ===== verification/PrintfFloat.thy ===== *)
theory PrintfFloat
  imports PrintfInt Complex_Main "HOL-Library.Log_Nat" "HOL-Library.Signed_Division"
begin

text \<open>
  The floating point conversions of \<open>lib/printf/printf.c\<close>. A \<open>double\<close> is a sign and a rational magnitude, an infinity or not a number; each operation of C is
  the exact one followed by \<open>rounded\<close>, to the nearest double and the even one of two, as IEEE 754 says (and no operations are contracted). \<open>None\<close> is a read
  outside \<open>powers_of_10\<close>, a conversion to an integer that does not hold the value, or an intermediate result that is infinite.
\<close>

section \<open>Doubles\<close>

datatype double = NaN | Infinite bool | Finite bool rat  \<comment> \<open>the sign bit and the magnitude\<close>

definition floor_log2 :: "rat \<Rightarrow> int" where
  \<comment> \<open>for positive numbers\<close>
  "floor_log2 x =
     (case quotient_of x of (p, q) \<Rightarrow>
        let k = int (floorlog 2 (nat p)) - int (floorlog 2 (nat q)) in if 2 powi k \<le> x then k else k - 1)"

definition round_half_even :: "rat \<Rightarrow> int" where
  "round_half_even x =
     (let n = \<lfloor>x\<rfloor>; r = x - of_int n
      in if r < 1 / 2 then n else if 1 / 2 < r then n + 1 else if even n then n else n + 1)"

definition rounded :: "rat \<Rightarrow> rat" where
  \<comment> \<open>53 bits, and no exponent below that of the subnormal numbers\<close>
  "rounded x =
     (if x = 0 then 0
      else let unit = 2 powi (max (floor_log2 \<bar>x\<bar> - 52) (- 1074)) in of_int (round_half_even (x / unit)) * unit)"

definition fl :: "rat \<Rightarrow> rat option" where
  "fl x = (let r = rounded x in if \<bar>r\<bar> < 2 ^ 1024 then Some r else None)"

definition truncated :: "rat \<Rightarrow> int" where
  "truncated x = (if 0 \<le> x then \<lfloor>x\<rfloor> else - \<lfloor>- x\<rfloor>)"

definition to_int64 :: "rat \<Rightarrow> int option" where
  "to_int64 x = (let n = truncated x in if - (2 ^ 63) \<le> n \<and> n < 2 ^ 63 then Some n else None)"

definition int_value :: "int \<Rightarrow> int option" where
  \<comment> \<open>the result of an operation on \<open>int\<close>\<close>
  "int_value n = (if - (2 ^ 31) \<le> n \<and> n < 2 ^ 31 then Some n else None)"

definition to_int :: "rat \<Rightarrow> int option" where
  "to_int x = int_value (truncated x)"

definition decimal :: "int \<Rightarrow> nat \<Rightarrow> rat" where
  \<comment> \<open>the constant with so many digits after the point\<close>
  "decimal n k = rounded (of_int n / 10 ^ k)"

definition get_exp2 :: "rat \<Rightarrow> int" where
  "get_exp2 x = (if \<bar>x\<bar> < 2 powi (- 1022) then - 1023 else floor_log2 \<bar>x\<bar>)"

definition NUM_DECIMAL_DIGITS_IN_INT64_T :: nat where "NUM_DECIMAL_DIGITS_IN_INT64_T = 18"
definition MAX_SUPPORTED_PRECISION :: nat where "MAX_SUPPORTED_PRECISION = NUM_DECIMAL_DIGITS_IN_INT64_T - 1"

definition powers_of_10 :: "int \<Rightarrow> rat option" where
  "powers_of_10 k = (if 0 \<le> k \<and> k < int NUM_DECIMAL_DIGITS_IN_INT64_T then Some (10 ^ nat k) else None)"

section \<open>The parts of a number\<close>

record double_components =
  integral :: int
  fractional :: int
  is_negative :: bool

definition get_components :: "bool \<Rightarrow> rat \<Rightarrow> u32 \<Rightarrow> double_components option" where
  \<comment> \<open>of the number with this sign bit and magnitude\<close>
  "get_components negative abs_number precision =
     do {
       i \<leftarrow> to_int64 abs_number;
       d \<leftarrow> fl (abs_number - rounded (of_int i));
       p \<leftarrow> powers_of_10 (uint precision);
       remainder \<leftarrow> fl (d * p);
       f \<leftarrow> to_int64 remainder;
       remainder \<leftarrow> fl (remainder - rounded (of_int f));
       (i, f) \<leftarrow> Some (if 1 / 2 < remainder then (if p \<le> rounded (of_int (f + 1)) then (i + 1, 0) else (i, f + 1))
                      else if remainder = 1 / 2 \<and> (f = 0 \<or> odd f) then (i, f + 1) else (i, f));
       i \<leftarrow> (if precision = 0
            then map_option (\<lambda>remainder. if (\<not> remainder < 1 / 2 \<or> 1 / 2 < remainder) \<and> odd i then i + 1 else i) (fl (abs_number - rounded (of_int i)))
            else Some i);
       Some \<lparr>integral = i, fractional = f, is_negative = negative\<rparr>
     }"

record scaling_factor =
  raw_factor :: rat
  multiply :: bool

definition apply_scaling :: "rat \<Rightarrow> scaling_factor \<Rightarrow> rat option" where
  "apply_scaling num normalization = fl (if multiply normalization then num * raw_factor normalization else num / raw_factor normalization)"

definition unapply_scaling :: "rat \<Rightarrow> scaling_factor \<Rightarrow> rat option" where
  "unapply_scaling normalized normalization =
     fl (if multiply normalization then normalized / raw_factor normalization else normalized * raw_factor normalization)"

definition update_normalization :: "scaling_factor \<Rightarrow> rat \<Rightarrow> scaling_factor option" where
  "update_normalization sf extra =
     (if multiply sf then map_option (\<lambda>r. \<lparr>raw_factor = r, multiply = True\<rparr>) (fl (raw_factor sf * extra))
      else if \<bar>get_exp2 extra\<bar> < \<bar>get_exp2 (raw_factor sf)\<bar>
        then map_option (\<lambda>r. \<lparr>raw_factor = r, multiply = False\<rparr>) (fl (raw_factor sf / extra))
      else map_option (\<lambda>r. \<lparr>raw_factor = r, multiply = True\<rparr>) (fl (extra / raw_factor sf)))"

definition get_normalized_components :: "bool \<Rightarrow> u32 \<Rightarrow> rat \<Rightarrow> scaling_factor \<Rightarrow> int \<Rightarrow> double_components option" where
  "get_normalized_components negative precision non_normalized normalization floored_exp10 =
     do {
       scaled \<leftarrow> apply_scaling non_normalized normalization;
       extremum \<leftarrow> map_option (\<lambda>n. 307 \<le> n) (int_value (- floored_exp10 + sint precision));
       if extremum then get_components negative scaled precision
       else do {
         i \<leftarrow> to_int64 scaled;
         u \<leftarrow> unapply_scaling (rounded (of_int i)) normalization;
         remainder \<leftarrow> fl (non_normalized - u);
         prec_power_of_10 \<leftarrow> powers_of_10 (uint precision);
         account_for_precision \<leftarrow> update_normalization normalization prec_power_of_10;
         scaled_remainder \<leftarrow> apply_scaling remainder account_for_precision;
         f \<leftarrow> to_int64 scaled_remainder;
         scaled_remainder \<leftarrow> fl (scaled_remainder - rounded (of_int f));
         let f = f + (if 1 / 2 \<le> scaled_remainder then 1 else 0);
         let f = (if scaled_remainder = 1 / 2 then f AND NOT 1 else f);
         Some (if prec_power_of_10 \<le> rounded (of_int f) then \<lparr>integral = i + 1, fractional = 0, is_negative = negative\<rparr>
               else \<lparr>integral = i, fractional = f, is_negative = negative\<rparr>)
       }
     }"

section \<open>Writing the parts\<close>

function strip_zeros :: "int \<Rightarrow> u32 \<Rightarrow> int \<times> u32" where
  \<comment> \<open>the loop on the trailing zeros of \<open>%g\<close>, which is entered with a positive number\<close>
  "strip_zeros f count = (if f smod 10 = 0 \<and> 0 < f then strip_zeros (f sdiv 10) (count - 1) else (f, count))"
  by pat_completeness auto
termination
  by (relation "measure (\<lambda>(f, count). nat f)") (auto simp: signed_divide_int_def)

declare strip_zeros.simps [simp del]

function decimal_digits :: "int \<Rightarrow> string \<Rightarrow> string" where
  \<comment> \<open>the loops that write the digits of the fractional and of the integral part\<close>
  "decimal_digits n buf =
     (if length buf < INTEGER_BUFFER_SIZE
      then let buf = buf @ [char_of (48 + n smod 10)]; n = n sdiv 10 in if n = 0 then buf else decimal_digits n buf
      else buf)"
  by pat_completeness auto
termination
  by (relation "measure (\<lambda>(n, buf). INTEGER_BUFFER_SIZE - length buf)") auto

declare decimal_digits.simps [simp del]

definition fractional_text :: "int \<Rightarrow> u32 \<Rightarrow> u32 \<Rightarrow> string \<Rightarrow> string" where
  \<comment> \<open>the fractional part and the point; \<open>count\<close> is decremented for each digit\<close>
  "fractional_text f precision flags buf =
     (if precision \<noteq> 0 then
        let (f, count) = (if has flags FLAGS_ADAPT_EXP \<and> \<not> has flags FLAGS_HASH \<and> 0 < f then strip_zeros f precision else (f, precision))
        in if 0 < f \<or> \<not> has flags FLAGS_ADAPT_EXP \<or> has flags FLAGS_HASH
           then let digits = decimal_digits f buf;
                    count = count - of_nat (length digits - length buf)
                in push (CHR ''.'') (pad_zeros (length digits + unat count) digits)
           else buf
      else if has flags FLAGS_HASH then push (CHR ''.'') buf else buf)"

definition broken_up_text :: "double_components \<Rightarrow> u32 \<Rightarrow> u32 \<Rightarrow> u32 \<Rightarrow> string \<Rightarrow> string \<times> u32" where
  \<comment> \<open>\<open>print_broken_up_decimal\<close> up to the output: the buffer and the width\<close>
  "broken_up_text number precision width flags buf =
     (let buf = decimal_digits (integral number) (fractional_text (fractional number) precision flags buf);
          (buf, width) =
            (if \<not> has flags FLAGS_LEFT \<and> has flags FLAGS_ZEROPAD
             then let width = (if width \<noteq> 0 \<and> (is_negative number \<or> has flags (FLAGS_PLUS OR FLAGS_SPACE)) then width - 1 else width)
                  in (pad_zeros (unat width) buf, width)
             else (buf, width))
      in (number_sign (is_negative number) flags buf, width))"

definition print_broken_up_decimal :: "double_components \<Rightarrow> u32 \<Rightarrow> u32 \<Rightarrow> u32 \<Rightarrow> string \<Rightarrow> 'w gadget \<Rightarrow> 'w gadget option" where
  "print_broken_up_decimal number precision width flags buf g =
     (case broken_up_text number precision width flags buf of (buf, width) \<Rightarrow> out_rev buf (length buf) width flags g)"

section \<open>The exponent\<close>

definition bastardized_floor :: "rat \<Rightarrow> int option" where
  "bastardized_floor x =
     (if 0 \<le> x then to_int x else map_option (\<lambda>n. if of_int n = x then n else n - 1) (to_int x))"

definition mantissa :: "rat \<Rightarrow> rat" where
  \<comment> \<open>the number with the exponent bits of 1\<close>
  "mantissa x = (if x < 2 powi (- 1022) then 1 + x * 2 powi 1022 else x / 2 powi (floor_log2 x))"

definition log10_of_positive :: "rat \<Rightarrow> rat option" where
  "log10_of_positive x =
     do {
       let exp2 = get_exp2 x;
       z \<leftarrow> fl (mantissa x - decimal 15 1);
       t1 \<leftarrow> fl (z * decimal 2895296546021678851 19);
       zz \<leftarrow> fl (z * z);
       t2 \<leftarrow> fl (zz * decimal 965098848673892950 19);
       zzz \<leftarrow> fl (zz * z);
       t3 \<leftarrow> fl (zzz * decimal 428932821632841311 19);
       t4 \<leftarrow> fl (of_int exp2 * decimal 30102999566398119521 20);
       s \<leftarrow> fl (decimal 1760912590556812420 19 + t1);
       s \<leftarrow> fl (s - t2);
       s \<leftarrow> fl (s + t3);
       fl (s + t4)
     }"

definition power_of_2 :: "int \<Rightarrow> rat option" where
  \<comment> \<open>the double whose bits are \<open>(exp2 + DOUBLE_BASE_EXPONENT) << DOUBLE_STORED_MANTISSA_BITS\<close>, if it is a normal number\<close>
  "power_of_2 exp2 = (if - 1022 \<le> exp2 \<and> exp2 \<le> 1023 then Some (2 powi exp2) else None)"

definition pow10_of_int :: "int \<Rightarrow> rat option" where
  "pow10_of_int floored_exp10 =
     (if floored_exp10 = - 308 then Some (decimal 1 308)
      else do {
        a \<leftarrow> fl (of_int floored_exp10 * decimal 3321928094887362 15);
        a \<leftarrow> fl (a + 1 / 2);
        exp2 \<leftarrow> bastardized_floor a;
        a \<leftarrow> fl (of_int floored_exp10 * decimal 2302585092994046 15);
        b \<leftarrow> fl (of_int exp2 * decimal 6931471805599453 16);
        z \<leftarrow> fl (a - b);
        z2 \<leftarrow> fl (z * z);
        p \<leftarrow> power_of_2 exp2;
        c \<leftarrow> fl (z2 / 14);
        c \<leftarrow> fl (10 + c);
        c \<leftarrow> fl (z2 / c);
        c \<leftarrow> fl (6 + c);
        c \<leftarrow> fl (z2 / c);
        d \<leftarrow> fl (2 - z);
        c \<leftarrow> fl (d + c);
        d \<leftarrow> fl (2 * z);
        c \<leftarrow> fl (d / c);
        c \<leftarrow> fl (1 + c);
        fl (p * c)
      })"

definition decimal_exponent :: "rat \<Rightarrow> (int \<times> scaling_factor) option" where
  \<comment> \<open>the first part of \<open>print_exponential_number\<close>: \<open>floored_exp10\<close> and \<open>normalization\<close>, which is not used for 0\<close>
  "decimal_exponent abs_number =
     (if abs_number = 0 then Some (0, \<lparr>raw_factor = 1, multiply = False\<rparr>)
      else do {
        exp10 \<leftarrow> log10_of_positive abs_number;
        floored_exp10 \<leftarrow> bastardized_floor exp10;
        p10 \<leftarrow> pow10_of_int floored_exp10;
        (floored_exp10, p10) \<leftarrow> (if abs_number < p10 then map_option (\<lambda>p. (floored_exp10 - 1, p)) (fl (p10 / 10)) else Some (floored_exp10, p10));
        let covered = \<bar>floored_exp10\<bar> < int NUM_DECIMAL_DIGITS_IN_INT64_T;
        raw_factor \<leftarrow> (if covered then powers_of_10 \<bar>floored_exp10\<bar> else Some p10);
        Some (floored_exp10, \<lparr>raw_factor = raw_factor, multiply = floored_exp10 < 0 \<and> covered\<rparr>)
      })"

record exponential =
  components :: double_components
  exponent10 :: int
  decimal_only :: bool   \<comment> \<open>\<open>fall_back_to_decimal_only_mode\<close>\<close>
  digits_after :: u32    \<comment> \<open>\<open>precision\<close>\<close>

definition exponential_parts :: "bool \<Rightarrow> rat \<Rightarrow> u32 \<Rightarrow> u32 \<Rightarrow> exponential option" where
  \<comment> \<open>\<open>print_exponential_number\<close> up to the widths\<close>
  "exponential_parts negative abs_number precision flags =
     do {
       (floored_exp10, normalization) \<leftarrow> decimal_exponent abs_number;
       let fall_back = has flags FLAGS_ADAPT_EXP \<and> - 4 \<le> floored_exp10 \<and> floored_exp10 < (if precision = 0 then 1 else sint precision);
       precision \<leftarrow> (if has flags FLAGS_ADAPT_EXP
                    then map_option (\<lambda>n. if 0 < n then word_of_int n else 0)
                           (int_value (if fall_back then sint precision - 1 - floored_exp10 else sint precision - 1))
                    else Some precision);
       c \<leftarrow> (if fall_back \<or> floored_exp10 = 0 then get_components negative abs_number precision
            else get_normalized_components negative precision abs_number normalization floored_exp10);
       if fall_back then do {
         rolled \<leftarrow> (if - 1 \<le> floored_exp10 then map_option (\<lambda>p. rounded (of_int (integral c)) = p) (powers_of_10 (floored_exp10 + 1)) else Some False);
         Some (if rolled then \<lparr>components = c, exponent10 = floored_exp10 + 1, decimal_only = True, digits_after = precision - 1\<rparr>
               else \<lparr>components = c, exponent10 = floored_exp10, decimal_only = True, digits_after = precision\<rparr>)
       } else
         Some (if 10 \<le> integral c
               then \<lparr>components = c\<lparr>integral := 1, fractional := 0\<rparr>, exponent10 = floored_exp10 + 1, decimal_only = False, digits_after = precision\<rparr>
               else \<lparr>components = c, exponent10 = floored_exp10, decimal_only = False, digits_after = precision\<rparr>)
     }"

definition print_exponential_number :: "bool \<Rightarrow> rat \<Rightarrow> u32 \<Rightarrow> u32 \<Rightarrow> u32 \<Rightarrow> string \<Rightarrow> 'w gadget \<Rightarrow> 'w gadget option" where
  "print_exponential_number negative abs_number precision width flags buf g =
     do {
       e \<leftarrow> exponential_parts negative abs_number precision flags;
       let flags = (if has flags FLAGS_ADAPT_EXP then flags OR FLAGS_PRECISION else flags);
       let exp10_part_width = (if decimal_only e then 0 else if \<bar>exponent10 e\<bar> < 100 then 4 else 5);
       let decimal_part_width = (if has flags FLAGS_LEFT \<and> exp10_part_width \<noteq> 0 then 0
                                 else if exp10_part_width < width then width - exp10_part_width else 0);
       let start_pos = pos g;
       g \<leftarrow> print_broken_up_decimal (components e) (digits_after e) decimal_part_width flags buf g;
       if \<not> decimal_only e then do {
         g \<leftarrow> putchar_via_gadget (if has flags FLAGS_UPPERCASE then CHR ''E'' else CHR ''e'') g;
         g \<leftarrow> print_integer (word_of_int \<bar>exponent10 e\<bar>) (exponent10 e < 0) BASE_DECIMAL 0 (exp10_part_width - 1) (FLAGS_ZEROPAD OR FLAGS_PLUS) g;
         if has flags FLAGS_LEFT then pad_after start_pos width g else Some g
       } else Some g
     }"

section \<open>\<open>print_floating_point\<close>\<close>

function limit_precision :: "string \<Rightarrow> u32 \<Rightarrow> string \<times> u32" where
  \<comment> \<open>a precision that is too large for the table of powers is replaced by zeros, as long as the buffer has room\<close>
  "limit_precision buf precision =
     (if length buf < INTEGER_BUFFER_SIZE \<and> MAX_SUPPORTED_PRECISION < unat precision
      then limit_precision (buf @ [CHR ''0'']) (precision - 1) else (buf, precision))"
  by pat_completeness auto
termination
  by (relation "measure (\<lambda>(buf, precision). INTEGER_BUFFER_SIZE - length buf)") auto

declare limit_precision.simps [simp del]

definition print_floating_point :: "double \<Rightarrow> u32 \<Rightarrow> u32 \<Rightarrow> u32 \<Rightarrow> bool \<Rightarrow> 'w gadget \<Rightarrow> 'w gadget option" where
  "print_floating_point value precision width flags prefer_exponential g =
     (case value of
        NaN \<Rightarrow> out_rev ''nan'' 3 width flags g
      | Infinite True \<Rightarrow> out_rev ''fni-'' 4 width flags g
      | Infinite False \<Rightarrow> (if has flags FLAGS_PLUS then out_rev ''fni+'' 4 width flags g else out_rev ''fni'' 3 width flags g)
      | Finite negative m \<Rightarrow>
          if \<not> prefer_exponential \<and> 10 ^ 9 < m then print_exponential_number negative m precision width flags [] g
          else
            let precision = (if has flags FLAGS_PRECISION then precision else 6);
                (buf, precision) = limit_precision [] precision
            in if prefer_exponential then print_exponential_number negative m precision width flags buf g
               else Option.bind (get_components negative m precision) (\<lambda>c. print_broken_up_decimal c precision width flags buf g))"

section \<open>The characters\<close>

definition outputs :: "('w gadget \<Rightarrow> 'w gadget option) \<Rightarrow> string option \<Rightarrow> bool" where
  \<comment> \<open>a routine that may fail, whatever the gadget is\<close>
  "outputs op w \<longleftrightarrow> (\<forall>g. sound g \<longrightarrow> op g = map_option (\<lambda>w. put_chars w g) w)"

lemma outputsD: "outputs op w \<Longrightarrow> sound g \<Longrightarrow> op g = map_option (\<lambda>w. put_chars w g) w"
  by (simp add: outputs_def)

lemma outputs_emits: "emits op w \<Longrightarrow> outputs op (Some w)"
  by (simp add: outputs_def emits_def)

definition broken_up_chars :: "double_components \<Rightarrow> u32 \<Rightarrow> u32 \<Rightarrow> u32 \<Rightarrow> string \<Rightarrow> string" where
  \<comment> \<open>what \<open>print_broken_up_decimal\<close> writes\<close>
  "broken_up_chars number precision width flags buf =
     (case broken_up_text number precision width flags buf of (buf, width) \<Rightarrow> padded (rev buf) (unat width) flags)"

definition exponential_chars :: "bool \<Rightarrow> rat \<Rightarrow> u32 \<Rightarrow> u32 \<Rightarrow> u32 \<Rightarrow> string \<Rightarrow> string option" where
  \<comment> \<open>what \<open>print_exponential_number\<close> writes\<close>
  "exponential_chars negative m precision width flags buf =
     do {
       e \<leftarrow> exponential_parts negative m precision flags;
       let k = (if decimal_only e then 0 else if \<bar>exponent10 e\<bar> < 100 then 4 else 5);
       let flags = (if has flags FLAGS_ADAPT_EXP then flags OR FLAGS_PRECISION else flags);
       let w = broken_up_chars (components e) (digits_after e) 
                 (if has flags FLAGS_LEFT \<and> k \<noteq> 0 then 0 else if k < width then width - k else 0) flags buf;
       let w' = w @ [if has flags FLAGS_UPPERCASE then CHR ''E'' else CHR ''e''] @
                integer_chars (word_of_int \<bar>exponent10 e\<bar>) (exponent10 e < 0) BASE_DECIMAL 0 (k - 1) (FLAGS_ZEROPAD OR FLAGS_PLUS);
       Some (if decimal_only e then w else if has flags FLAGS_LEFT then w' @ replicate (unat width - length w') CHR '' '' else w')
     }"

definition floating_chars :: "double \<Rightarrow> u32 \<Rightarrow> u32 \<Rightarrow> u32 \<Rightarrow> bool \<Rightarrow> string option" where
  \<comment> \<open>what \<open>print_floating_point\<close> writes\<close>
  "floating_chars value precision width flags prefer_exponential =
     (case value of
        NaN \<Rightarrow> Some (padded ''nan'' (unat width) flags)
      | Infinite negative \<Rightarrow>
          Some (padded ((if negative then ''-'' else if has flags FLAGS_PLUS then ''+'' else []) @ ''inf'') (unat width) flags)
      | Finite negative m \<Rightarrow>
          if \<not> prefer_exponential \<and> 10 ^ 9 < m then exponential_chars negative m precision width flags []
          else
            let (buf, precision) = limit_precision [] (if has flags FLAGS_PRECISION then precision else 6)
            in if prefer_exponential then exponential_chars negative m precision width flags buf
               else map_option (\<lambda>c. broken_up_chars c precision width flags buf) (get_components negative m precision))"

lemma decimal_digits_length: "length buf \<le> 32 \<Longrightarrow> length (decimal_digits n buf) \<le> 32"
proof (induction n buf rule: decimal_digits.induct)
  case (1 n buf)
  then show ?case by (subst decimal_digits.simps) (auto simp: Let_def INTEGER_BUFFER_SIZE_def)
qed

lemma pad_zeros_length: "length buf \<le> 32 \<Longrightarrow> length (pad_zeros n buf) \<le> 32"
  by (simp add: pad_zeros_eq)

lemma broken_up_length:
  assumes "length buf \<le> 32"
  shows "length (fst (broken_up_text number precision width flags buf)) \<le> 32"
proof -
  have "length (fractional_text f precision flags buf) \<le> 32" for f
    using assms by (auto simp: fractional_text_def Let_def push_length pad_zeros_length decimal_digits_length split: prod.splits)
  moreover have "length (number_sign n f b) \<le> 32" if "length b \<le> 32" for n f b
    using that by (auto simp: number_sign_def push_length)
  ultimately show ?thesis by (auto simp: broken_up_text_def Let_def pad_zeros_length decimal_digits_length split: prod.splits)
qed

lemma broken_up_emits: "length buf \<le> 32 \<Longrightarrow> emits (print_broken_up_decimal number precision width flags buf) (broken_up_chars number precision width flags buf)"
proof -
  assume l: "length buf \<le> 32"
  obtain b w where t: "broken_up_text number precision width flags buf = (b, w)" by fastforce
  then have "length b \<le> 32" using broken_up_length [OF l, of number precision width flags] by simp
  then show ?thesis
    using out_rev_emits [of "length b" b w flags] t unfolding emits_def print_broken_up_decimal_def broken_up_chars_def by simp
qed

lemma limit_precision_length: "length buf \<le> 32 \<Longrightarrow> length (fst (limit_precision buf p)) \<le> 32"
proof (induction buf p rule: limit_precision.induct)
  case (1 buf p)
  then show ?case by (subst limit_precision.simps) (simp add: INTEGER_BUFFER_SIZE_def)
qed


lemma finalized_short:
  assumes "length buf \<le> 32" and "has flags FLAGS_ZEROPAD" "\<not> has flags FLAGS_LEFT"
  shows "length (finalized_chars buf negative base precision width flags) \<le> 32"
proof -
  obtain b w f where t: "integer_text buf negative base precision width flags = (b, w, f)" by (metis prod_cases3)
  then have "length b \<le> 32" using text_length [OF assms(1), of negative base precision width flags] by simp
  moreover have "f = flags \<or> f = flags AND NOT FLAGS_HASH" using t by (auto simp: integer_text_def Let_def split: prod.splits)
  then have "has f FLAGS_ZEROPAD" "\<not> has f FLAGS_LEFT" using assms(2,3) by auto
  ultimately show ?thesis using t by (simp add: finalized_chars_def padded_def)
qed

lemma integer_chars_short:
  "has flags FLAGS_ZEROPAD \<Longrightarrow> \<not> has flags FLAGS_LEFT \<Longrightarrow> length (integer_chars v negative base precision width flags) \<le> 32"
  by (auto simp: integer_chars_def digits_length intro!: finalized_short)

lemma broken_up_short:
  "length buf \<le> 32 \<Longrightarrow> has flags FLAGS_LEFT \<Longrightarrow> length (broken_up_chars number precision 0 flags buf) \<le> 32"
  using broken_up_length [of buf number precision 0 flags] by (auto simp: broken_up_chars_def broken_up_text_def padded_def Let_def split: prod.splits)

lemma exponential_outputs:
  assumes l: "length buf \<le> 32"
  shows "outputs (print_exponential_number negative m precision width flags buf) (exponential_chars negative m precision width flags buf)"
  unfolding outputs_def
proof (intro allI impI)
  fix g :: "'w gadget" assume g: "sound g"
  show "print_exponential_number negative m precision width flags buf g =
    map_option (\<lambda>w. put_chars w g) (exponential_chars negative m precision width flags buf)"
  proof (cases "exponential_parts negative m precision flags")
    case None
    then show ?thesis by (simp add: print_exponential_number_def exponential_chars_def)
  next
    case (Some e)
    define k :: u32 where "k = (if decimal_only e then 0 else if \<bar>exponent10 e\<bar> < 100 then 4 else 5)"
    define f where "f = (if has flags FLAGS_ADAPT_EXP then flags OR FLAGS_PRECISION else flags)"
    define dw where "dw = (if has f FLAGS_LEFT \<and> k \<noteq> 0 then 0 else if k < width then width - k else 0)"
    define w where "w = broken_up_chars (components e) (digits_after e) dw f buf"
    define c where "c = (if has f FLAGS_UPPERCASE then CHR ''E'' else CHR ''e'')"
    define i where "i = integer_chars (word_of_int \<bar>exponent10 e\<bar>) (exponent10 e < 0) BASE_DECIMAL 0 (k - 1) (FLAGS_ZEROPAD OR FLAGS_PLUS)"
    have fl: "has f FLAGS_LEFT = has flags FLAGS_LEFT" by (simp add: f_def)
    have zp: "has (FLAGS_ZEROPAD OR FLAGS_PLUS) FLAGS_ZEROPAD" "\<not> has (FLAGS_ZEROPAD OR FLAGS_PLUS) FLAGS_LEFT"
      using has_simps(1) [of 0 FLAGS_ZEROPAD 2] has_simps(1) [of 1 FLAGS_ZEROPAD 2] by (simp_all add: has_flag_bit bit_flag)
    have b: "print_broken_up_decimal (components e) (digits_after e) dw f buf g = Some (put_chars w g)"
      unfolding w_def by (rule emitsD [OF broken_up_emits [OF l] g])
    have p: "print_integer (word_of_int \<bar>exponent10 e\<bar>) (exponent10 e < 0) BASE_DECIMAL 0 (k - 1) (FLAGS_ZEROPAD OR FLAGS_PLUS) h = Some (put_chars i h)"
      if "sound h" for h :: "'w gadget" unfolding i_def by (rule emitsD [OF print_integer_emits that])
    have pad: "pad_after (pos g) width (put_chars (w @ [c] @ i) g) =
        Some (put_chars (replicate (unat width - length (w @ [c] @ i)) CHR '' '') (put_chars (w @ [c] @ i) g))"
      if "has flags FLAGS_LEFT" "\<not> decimal_only e"
    proof -
      have "k \<noteq> 0" using that(2) by (simp add: k_def)
      then have "length w \<le> 32" using that(1) l broken_up_short [of buf f] fl by (simp add: w_def dw_def)
      moreover have "length i \<le> 32" unfolding i_def by (rule integer_chars_short [OF zp])
      ultimately have "length (w @ [c] @ i) < 2 ^ 32" by simp
      then show ?thesis by (intro pad_after_emits put_chars_pos put_chars_sound g)
    qed
    have code: "print_exponential_number negative m precision width flags buf g =
        do {
          h \<leftarrow> print_broken_up_decimal (components e) (digits_after e) dw f buf g;
          if \<not> decimal_only e then do {
            h \<leftarrow> putchar_via_gadget c h;
            h \<leftarrow> print_integer (word_of_int \<bar>exponent10 e\<bar>) (exponent10 e < 0) BASE_DECIMAL 0 (k - 1) (FLAGS_ZEROPAD OR FLAGS_PLUS) h;
            if has f FLAGS_LEFT then pad_after (pos g) width h else Some h
          } else Some h
        }"
      unfolding print_exponential_number_def Some Let_def k_def f_def dw_def c_def by (simp only: bind.simps)
    have chars: "exponential_chars negative m precision width flags buf =
        Some (if decimal_only e then w else if has f FLAGS_LEFT then (w @ [c] @ i) @ replicate (unat width - length (w @ [c] @ i)) CHR '' '' else w @ [c] @ i)"
      unfolding exponential_chars_def Some Let_def w_def i_def k_def f_def dw_def c_def by (simp only: bind.simps)
    show ?thesis using b p pad g unfolding code chars fl by (simp add: putchar_sound put_sound)
  qed
qed

lemma floating_outputs:
  "outputs (print_floating_point value precision width flags prefer) (floating_chars value precision width flags prefer)"
proof (cases "value")
  case (Finite negative m)
  obtain b p where lp: "limit_precision [] (if has flags FLAGS_PRECISION then precision else 6) = (b, p)" by fastforce
  then have b: "length b \<le> 32" using limit_precision_length [of "[]" "if has flags FLAGS_PRECISION then precision else 6"] by simp
  show ?thesis
    unfolding outputs_def print_floating_point_def floating_chars_def Finite
    by (auto simp: lp b outputsD [OF exponential_outputs] emitsD [OF broken_up_emits [OF b]] option.map_comp comp_def split: bind_splits)
qed (auto simp: outputs_def print_floating_point_def floating_chars_def emitsD [OF out_rev_emits] split: bool.splits)

end
