(* ===== verification/PrintfFmt.thy ===== *)
theory PrintfFmt
  imports PrintfFloat
begin

text \<open>
  \<open>_vsnprintf\<close> of \<open>lib/printf/printf.c\<close> and the functions of the library. The format is the memory from its first character on, with the NUL that ends it.
  An argument is what the calling convention of the processor makes of it: one word (\<open>int\<close>, \<open>long\<close>, \<open>size_t\<close>), two words (\<open>long long\<close>, \<open>intmax_t\<close>),
  a \<open>double\<close> or a pointer. \<open>None\<close> is undefined behaviour: a read past the end of the format, of a string or of the arguments, an argument of
  another type, the negation of the least \<open>int\<close> or \<open>long long\<close>.
\<close>

section \<open>Arguments\<close>

datatype arg =
    Word u32
  | Wide u64
  | Double double
  | Str "string option"  \<comment> \<open>a \<open>char *\<close>: \<open>NULL\<close>, or the memory from there on\<close>
  | Pointer u32
  | Target nat           \<comment> \<open>where \<open>%n\<close> writes, by a number of its own\<close>

record write_back =
  target :: nat
  stored_bytes :: nat
  stored :: u32

fun va_word :: "arg list \<Rightarrow> (u32 \<times> arg list) option" where
  "va_word (Word w # args) = Some (w, args)"
| "va_word _ = None"

fun va_wide :: "arg list \<Rightarrow> (u64 \<times> arg list) option" where
  "va_wide (Wide w # args) = Some (w, args)"
| "va_wide _ = None"

fun va_double :: "arg list \<Rightarrow> (double \<times> arg list) option" where
  "va_double (Double d # args) = Some (d, args)"
| "va_double _ = None"

fun va_string :: "arg list \<Rightarrow> (string option \<times> arg list) option" where
  "va_string (Str s # args) = Some (s, args)"
| "va_string _ = None"

fun va_pointer :: "arg list \<Rightarrow> (u32 \<times> arg list) option" where
  "va_pointer (Pointer p # args) = Some (p, args)"
| "va_pointer _ = None"

fun va_target :: "arg list \<Rightarrow> (nat \<times> arg list) option" where
  "va_target (Target t # args) = Some (t, args)"
| "va_target _ = None"

section \<open>Parsing a conversion specification\<close>

definition is_digit :: "char \<Rightarrow> bool" where
  "is_digit c \<longleftrightarrow> 48 \<le> (of_char c :: nat) \<and> (of_char c :: nat) \<le> 57"

fun atou :: "u32 \<Rightarrow> string \<Rightarrow> (u32 \<times> string) option" where
  \<comment> \<open>modulo \<open>2 ^ 32\<close>\<close>
  "atou i (c # f) = (if is_digit c then atou (i * 10 + of_nat (of_char c - 48)) f else Some (i, c # f))"
| "atou i [] = None"

fun parse_flags :: "u32 \<Rightarrow> string \<Rightarrow> (u32 \<times> string) option" where
  "parse_flags flags (c # f) =
     (if c = CHR ''0'' then parse_flags (flags OR FLAGS_ZEROPAD) f
      else if c = CHR ''-'' then parse_flags (flags OR FLAGS_LEFT) f
      else if c = CHR ''+'' then parse_flags (flags OR FLAGS_PLUS) f
      else if c = CHR '' '' then parse_flags (flags OR FLAGS_SPACE) f
      else if c = CHR ''#'' then parse_flags (flags OR FLAGS_HASH) f
      else Some (flags, c # f))"
| "parse_flags flags [] = None"

fun parse_width :: "u32 \<Rightarrow> string \<Rightarrow> arg list \<Rightarrow> (u32 \<times> u32 \<times> string \<times> arg list) option" where
  \<comment> \<open>the width and the flags\<close>
  "parse_width flags (c # f) args =
     (if is_digit c then do { (width, f) \<leftarrow> atou 0 (c # f); Some (width, flags, f, args) }
      else if c = CHR ''*'' then do {
        (w, args) \<leftarrow> va_word args;
        if sint w < 0 then (if w = 0x80000000 then None else Some (- w, flags OR FLAGS_LEFT, f, args)) else Some (w, flags, f, args)
      }
      else Some (0, flags, c # f, args))"
| "parse_width flags [] args = None"

fun parse_precision :: "u32 \<Rightarrow> string \<Rightarrow> arg list \<Rightarrow> (u32 \<times> u32 \<times> string \<times> arg list) option" where
  "parse_precision flags (c # f) args =
     (if c = CHR ''.'' then
        (case f of
           [] \<Rightarrow> None
         | d # f' \<Rightarrow>
             if is_digit d then do { (precision, f) \<leftarrow> atou 0 f; Some (precision, flags OR FLAGS_PRECISION, f, args) }
             else if d = CHR ''*'' then do {
               (p, args) \<leftarrow> va_word args;
               Some (if 0 < sint p then p else 0, flags OR FLAGS_PRECISION, f', args)
             }
             else Some (0, flags OR FLAGS_PRECISION, f, args))
      else Some (0, flags, c # f, args))"
| "parse_precision flags [] args = None"

fun parse_length :: "u32 \<Rightarrow> string \<Rightarrow> (u32 \<times> string) option" where
  \<comment> \<open>\<open>ptrdiff_t\<close> and \<open>size_t\<close> have the size of \<open>long\<close>, \<open>intmax_t\<close> has not\<close>
  "parse_length flags (c # f) =
     (if c = CHR ''l'' then
        (case f of
           [] \<Rightarrow> None
         | d # f' \<Rightarrow> if d = CHR ''l'' then Some (flags OR FLAGS_LONG OR FLAGS_LONG_LONG, f') else Some (flags OR FLAGS_LONG, f))
      else if c = CHR ''h'' then
        (case f of
           [] \<Rightarrow> None
         | d # f' \<Rightarrow> if d = CHR ''h'' then Some (flags OR FLAGS_SHORT OR FLAGS_CHAR, f') else Some (flags OR FLAGS_SHORT, f))
      else if c = CHR ''t'' then Some (flags OR FLAGS_LONG, f)
      else if c = CHR ''j'' then Some (flags OR FLAGS_LONG_LONG, f)
      else if c = CHR ''z'' then Some (flags OR FLAGS_LONG, f)
      else Some (flags, c # f))"
| "parse_length flags [] = None"

record conversion =
  specifier :: char
  conv_flags :: u32
  conv_width :: u32
  conv_precision :: u32

definition parse_conversion :: "string \<Rightarrow> arg list \<Rightarrow> (conversion \<times> string \<times> arg list) option" where
  \<comment> \<open>from the character after the percent sign to the one after the specifier\<close>
  "parse_conversion f args =
     do {
       (flags, f) \<leftarrow> parse_flags 0 f;
       (width, flags, f, args) \<leftarrow> parse_width flags f args;
       (precision, flags, f, args) \<leftarrow> parse_precision flags f args;
       (flags, f) \<leftarrow> parse_length flags f;
       case f of [] \<Rightarrow> None
       | c # f \<Rightarrow> Some (\<lparr>specifier = c, conv_flags = flags, conv_width = width, conv_precision = precision\<rparr>, f, args)
     }"

section \<open>The conversions\<close>

definition signed_arg :: "u32 \<Rightarrow> arg list \<Rightarrow> (int \<times> arg list) option" where
  "signed_arg flags args =
     (if has flags FLAGS_LONG_LONG then map_option (\<lambda>(v, args). (sint v, args)) (va_wide args)
      else if has flags FLAGS_LONG then map_option (\<lambda>(v, args). (sint v, args)) (va_word args)
      else map_option (\<lambda>(v, args).
        (if has flags FLAGS_CHAR then sint (ucast v :: u8) else if has flags FLAGS_SHORT then sint (ucast v :: u16) else sint v, args)) (va_word args))"

definition unsigned_arg :: "u32 \<Rightarrow> arg list \<Rightarrow> (u64 \<times> arg list) option" where
  "unsigned_arg flags args =
     (if has flags FLAGS_LONG_LONG then va_wide args
      else if has flags FLAGS_LONG then map_option (\<lambda>(v, args). (ucast v, args)) (va_word args)
      else map_option (\<lambda>(v, args).
        (if has flags FLAGS_CHAR then ucast (ucast v :: u8) else if has flags FLAGS_SHORT then ucast (ucast v :: u16) else ucast v, args)) (va_word args))"

definition abs_for_printing :: "int \<Rightarrow> u64 option" where
  \<comment> \<open>\<open>ABS_FOR_PRINTING\<close>\<close>
  "abs_for_printing v = (if v = - (2 ^ 63) then None else Some (word_of_int \<bar>v\<bar>))"

definition integer_base :: "char \<Rightarrow> u8" where
  "integer_base c =
     (if c = CHR ''x'' \<or> c = CHR ''X'' then BASE_HEX else if c = CHR ''o'' then BASE_OCTAL else if c = CHR ''b'' then BASE_BINARY else BASE_DECIMAL)"

definition integer_flags :: "char \<Rightarrow> u32 \<Rightarrow> u32" where
  "integer_flags c flags =
     (let flags = (if c = CHR ''d'' \<or> c = CHR ''i'' then flags OR FLAGS_SIGNED else flags);
          flags = (if integer_base c = BASE_DECIMAL then flags AND NOT FLAGS_HASH else flags);
          flags = (if c = CHR ''X'' then flags OR FLAGS_UPPERCASE else flags);
          flags = (if has flags FLAGS_PRECISION then flags AND NOT FLAGS_ZEROPAD else flags)
      in if has flags FLAGS_SIGNED then flags else flags AND NOT FLAGS_PLUS AND NOT FLAGS_SPACE)"

definition integer_operands :: "char \<Rightarrow> u32 \<Rightarrow> arg list \<Rightarrow> (u64 \<times> bool \<times> arg list) option" where
  \<comment> \<open>the magnitude and the sign\<close>
  "integer_operands c flags args =
     (if c = CHR ''d'' \<or> c = CHR ''i'' then do { (v, args) \<leftarrow> signed_arg flags args; m \<leftarrow> abs_for_printing v; Some (m, v < 0, args) }
      else do { (v, args) \<leftarrow> unsigned_arg flags args; Some (v, False, args) })"

fun strnlen_s :: "string \<Rightarrow> u32 \<Rightarrow> u32 option" where
  \<comment> \<open>it reads a character before it tests the bound\<close>
  "strnlen_s (c # s) maxsize = (if c = NUL \<or> maxsize = 0 then Some 0 else map_option (\<lambda>n. n + 1) (strnlen_s s (maxsize - 1)))"
| "strnlen_s [] maxsize = None"

fun put_string :: "string \<Rightarrow> u32 \<Rightarrow> u32 \<Rightarrow> 'w gadget \<Rightarrow> 'w gadget option" where
  \<comment> \<open>the loop that writes the string; it too reads a character before it tests the precision\<close>
  "put_string (c # p) flags precision g =
     (if c \<noteq> NUL \<and> (\<not> has flags FLAGS_PRECISION \<or> precision \<noteq> 0)
      then Option.bind (putchar_via_gadget c g) (put_string p flags (precision - 1)) else Some g)"
| "put_string [] flags precision g = None"

definition print_string :: "string \<Rightarrow> u32 \<Rightarrow> u32 \<Rightarrow> u32 \<Rightarrow> 'w gadget \<Rightarrow> 'w gadget option" where
  "print_string p flags precision width g =
     do {
       l \<leftarrow> strnlen_s p (if precision \<noteq> 0 then precision else MAX_POSSIBLE_BUFFER_SIZE);
       let l = (if has flags FLAGS_PRECISION then if l < precision then l else precision else l);
       g \<leftarrow> (if \<not> has flags FLAGS_LEFT then put_times (unat width - unat l) CHR '' '' g else Some g);
       g \<leftarrow> put_string p flags precision g;
       if has flags FLAGS_LEFT then put_times (unat width - unat l) CHR '' '' g else Some g
     }"

definition print_char :: "char \<Rightarrow> u32 \<Rightarrow> u32 \<Rightarrow> 'w gadget \<Rightarrow> 'w gadget option" where
  "print_char c flags width g =
     do {
       g \<leftarrow> (if \<not> has flags FLAGS_LEFT then put_times (unat width - 1) CHR '' '' g else Some g);
       g \<leftarrow> putchar_via_gadget c g;
       if has flags FLAGS_LEFT then put_times (unat width - 1) CHR '' '' g else Some g
     }"

definition print_pointer :: "u32 \<Rightarrow> u32 \<Rightarrow> u32 \<Rightarrow> 'w gadget \<Rightarrow> 'w gadget option" where
  "print_pointer v flags precision g =
     (let width = 10; flags = flags OR FLAGS_ZEROPAD OR FLAGS_POINTER
      in if v = 0 then out_rev '')lin('' 5 width flags g else print_integer (ucast v) False BASE_HEX precision width flags g)"

definition written_back :: "u32 \<Rightarrow> u32 \<Rightarrow> nat \<Rightarrow> write_back" where
  \<comment> \<open>\<open>%n\<close>; \<open>ll\<close> has set \<open>FLAGS_LONG\<close> too, which is tested first\<close>
  "written_back flags n t =
     (if has flags FLAGS_CHAR then \<lparr>target = t, stored_bytes = 1, stored = n AND 0xFF\<rparr>
      else if has flags FLAGS_SHORT then \<lparr>target = t, stored_bytes = 2, stored = n AND 0xFFFF\<rparr>
      else if has flags FLAGS_LONG then \<lparr>target = t, stored_bytes = 4, stored = n\<rparr>
      else if has flags FLAGS_LONG_LONG then \<lparr>target = t, stored_bytes = 8, stored = n\<rparr>
      else \<lparr>target = t, stored_bytes = 4, stored = n\<rparr>)"

definition convert :: "conversion \<Rightarrow> arg list \<Rightarrow> 'w gadget \<Rightarrow> ('w gadget \<times> arg list \<times> write_back list) option" where
  "convert v args g =
     (let c = specifier v; flags = conv_flags v; width = conv_width v; precision = conv_precision v
      in if c \<in> set ''diuxXob'' then do {
           (m, negative, args) \<leftarrow> integer_operands c flags args;
           g \<leftarrow> print_integer m negative (integer_base c) precision width (integer_flags c flags) g;
           Some (g, args, [])
         }
         else if c \<in> set ''fF'' then do {
           (d, args) \<leftarrow> va_double args;
           g \<leftarrow> print_floating_point d precision width (if c = CHR ''F'' then flags OR FLAGS_UPPERCASE else flags) False g;
           Some (g, args, [])
         }
         else if c \<in> set ''eEgG'' then do {
           let flags = (if c \<in> set ''gG'' then flags OR FLAGS_ADAPT_EXP else flags);
           let flags = (if c \<in> set ''EG'' then flags OR FLAGS_UPPERCASE else flags);
           (d, args) \<leftarrow> va_double args;
           g \<leftarrow> print_floating_point d precision width flags True g;
           Some (g, args, [])
         }
         else if c = CHR ''c'' then do { (w, args) \<leftarrow> va_word args; g \<leftarrow> print_char (char_of (unat w)) flags width g; Some (g, args, []) }
         else if c = CHR ''s'' then do {
           (p, args) \<leftarrow> va_string args;
           g \<leftarrow> (case p of None \<Rightarrow> out_rev '')llun('' 6 width flags g | Some p \<Rightarrow> print_string p flags precision width g);
           Some (g, args, [])
         }
         else if c = CHR ''p'' then do { (p, args) \<leftarrow> va_pointer args; g \<leftarrow> print_pointer p flags precision g; Some (g, args, []) }
         else if c = CHR ''n'' then do { (t, args) \<leftarrow> va_target args; Some (g, args, [written_back flags (pos g) t]) }
         else do { g \<leftarrow> putchar_via_gadget c g; Some (g, args, []) })"


section \<open>The format\<close>

lemma atou_length: "atou i f = Some (n, f') \<Longrightarrow> length f' \<le> length f"
  by (induction i f rule: atou.induct) (auto split: if_splits)

lemma parse_flags_length: "parse_flags flags f = Some (flags', f') \<Longrightarrow> length f' \<le> length f"
  by (induction flags f rule: parse_flags.induct) (auto split: if_splits)

lemma parse_width_length: "parse_width flags f args = Some (w, flags', f', args') \<Longrightarrow> length f' \<le> length f"
  by (cases f) (auto dest: atou_length split: if_splits bind_splits simp del: atou.simps)

lemma parse_precision_length: "parse_precision flags f args = Some (p, flags', f', args') \<Longrightarrow> length f' \<le> length f"
  by (cases f) (fastforce dest: atou_length split: if_splits bind_splits list.splits simp del: atou.simps)+

lemma parse_length_length: "parse_length flags f = Some (flags', f') \<Longrightarrow> length f' \<le> length f"
  by (cases f) (auto split: if_splits list.splits)

lemma parse_conversion_length: "parse_conversion f args = Some (v, f', args') \<Longrightarrow> length f' < length f"
  unfolding parse_conversion_def
  by (auto dest!: parse_flags_length parse_width_length parse_precision_length parse_length_length split: bind_splits list.splits)

function format_loop :: "string \<Rightarrow> arg list \<Rightarrow> write_back list \<Rightarrow> 'w gadget \<Rightarrow> ('w gadget \<times> arg list \<times> write_back list) option" where
  \<comment> \<open>the loop of \<open>_vsnprintf\<close>\<close>
  "format_loop f args ws g =
     (case f of
        [] \<Rightarrow> None
      | c # f \<Rightarrow>
          if c = NUL then Some (g, args, ws)
          else if c \<noteq> CHR ''%'' then Option.bind (putchar_via_gadget c g) (format_loop f args ws)
          else Option.bind (parse_conversion f args) (\<lambda>(v, f, args).
                 Option.bind (convert v args g) (\<lambda>(g, args, ws'). format_loop f args (ws @ ws') g)))"
  by pat_completeness auto
termination
  by (relation "measure (\<lambda>(f, args, ws, g). length f)") (auto dest: parse_conversion_length)

declare format_loop.simps [simp del]

definition vsnprintf_internal :: "'w gadget \<Rightarrow> string \<Rightarrow> arg list \<Rightarrow> (u32 \<times> 'w sink \<times> arg list \<times> write_back list) option" where
  \<comment> \<open>\<open>_vsnprintf\<close>: the result, what the gadget wrote to, the arguments that are left and the writes of \<open>%n\<close>\<close>
  "vsnprintf_internal output format args =
     do {
       (g, args, ws) \<leftarrow> format_loop format args [] output;
       g \<leftarrow> append_termination_with_gadget g;
       Some (pos g, sink g, args, ws)
     }"

section \<open>The functions of the library\<close>

definition vprintf :: "(char \<Rightarrow> 'w \<Rightarrow> 'w) \<Rightarrow> 'w \<Rightarrow> string \<Rightarrow> arg list \<Rightarrow> (u32 \<times> 'w sink \<times> arg list \<times> write_back list) option" where
  \<comment> \<open>\<open>putchar_\<close> is not part of the library\<close>
  "vprintf putchar_via w format args = vsnprintf_internal (function_gadget putchar_via w) format args"

definition vsnprintf :: "string option \<Rightarrow> u32 \<Rightarrow> string \<Rightarrow> arg list \<Rightarrow> (u32 \<times> unit sink \<times> arg list \<times> write_back list) option" where
  "vsnprintf s n format args = vsnprintf_internal (buffer_gadget s n) format args"

definition vsprintf :: "string option \<Rightarrow> string \<Rightarrow> arg list \<Rightarrow> (u32 \<times> unit sink \<times> arg list \<times> write_back list) option" where
  "vsprintf s format args = vsnprintf s MAX_POSSIBLE_BUFFER_SIZE format args"

definition vfctprintf :: "(char \<Rightarrow> 'w \<Rightarrow> 'w) \<Rightarrow> 'w \<Rightarrow> string \<Rightarrow> arg list \<Rightarrow> (u32 \<times> 'w sink \<times> arg list \<times> write_back list) option" where
  "vfctprintf out extra format args = vsnprintf_internal (function_gadget out extra) format args"

definition snprintf :: "string option \<Rightarrow> u32 \<Rightarrow> string \<Rightarrow> arg list \<Rightarrow> (u32 \<times> unit sink \<times> write_back list) option" where
  "snprintf s n format args = map_option (\<lambda>(ret, s, args, ws). (ret, s, ws)) (vsnprintf s n format args)"

definition sprintf :: "string option \<Rightarrow> string \<Rightarrow> arg list \<Rightarrow> (u32 \<times> unit sink \<times> write_back list) option" where
  "sprintf s format args = map_option (\<lambda>(ret, s, args, ws). (ret, s, ws)) (vsprintf s format args)"

definition printf :: "(char \<Rightarrow> 'w \<Rightarrow> 'w) \<Rightarrow> 'w \<Rightarrow> string \<Rightarrow> arg list \<Rightarrow> (u32 \<times> 'w sink \<times> write_back list) option" where
  "printf putchar_via w format args = map_option (\<lambda>(ret, s, args, ws). (ret, s, ws)) (vprintf putchar_via w format args)"

definition fctprintf :: "(char \<Rightarrow> 'w \<Rightarrow> 'w) \<Rightarrow> 'w \<Rightarrow> string \<Rightarrow> arg list \<Rightarrow> (u32 \<times> 'w sink \<times> write_back list) option" where
  "fctprintf out extra format args = map_option (\<lambda>(ret, s, args, ws). (ret, s, ws)) (vfctprintf out extra format args)"

end
