(* ===== verification/PrintfSpec.thy ===== *)
theory PrintfSpec
  imports PrintfFmt
begin

text \<open>
  What \<open>_vsnprintf\<close> writes, as a string: \<open>format_chars\<close> says nothing of gadgets, buffers and bounds. The code refines it: on every sound gadget it writes this
  string, and it goes wrong exactly where the string is not defined (\<open>format_loop_chars\<close>).
\<close>

definition field :: "string \<Rightarrow> nat \<Rightarrow> u32 \<Rightarrow> string" where
  \<comment> \<open>the string between the spaces that fill the field\<close>
  "field w fill flags = (if has flags FLAGS_LEFT then w @ replicate fill CHR '' '' else replicate fill CHR '' '' @ w)"

definition string_chars :: "string \<Rightarrow> u32 \<Rightarrow> u32 \<Rightarrow> u32 \<Rightarrow> string option" where
  \<comment> \<open>without NUL in the memory, one character more than the precision is read\<close>
  "string_chars p flags precision width =
     (let m = unat (if precision \<noteq> 0 then precision else MAX_POSSIBLE_BUFFER_SIZE);
          w = (if has flags FLAGS_PRECISION then take (unat precision) (cstr p) else cstr p)
      in if NUL \<in> set p \<or> has flags FLAGS_PRECISION \<and> m < length p then Some (field w (unat width - min (length w) m) flags) else None)"

definition pointer_chars :: "u32 \<Rightarrow> u32 \<Rightarrow> u32 \<Rightarrow> string" where
  "pointer_chars v flags precision =
     (let flags = flags OR FLAGS_ZEROPAD OR FLAGS_POINTER
      in if v = 0 then padded ''(nil)'' 10 flags else integer_chars (ucast v) False BASE_HEX precision 10 flags)"

definition convert_chars :: "conversion \<Rightarrow> arg list \<Rightarrow> u32 \<Rightarrow> (string \<times> arg list \<times> write_back list) option" where
  \<comment> \<open>after \<open>n\<close> characters\<close>
  "convert_chars v args n =
     (let c = specifier v; flags = conv_flags v; width = conv_width v; precision = conv_precision v
      in if c \<in> set ''diuxXob'' then do {
           (m, negative, args) \<leftarrow> integer_operands c flags args;
           Some (integer_chars m negative (integer_base c) precision width (integer_flags c flags), args, [])
         }
         else if c \<in> set ''fF'' then do {
           (d, args) \<leftarrow> va_double args;
           w \<leftarrow> floating_chars d precision width (if c = CHR ''F'' then flags OR FLAGS_UPPERCASE else flags) False;
           Some (w, args, [])
         }
         else if c \<in> set ''eEgG'' then do {
           let flags = (if c \<in> set ''gG'' then flags OR FLAGS_ADAPT_EXP else flags);
           let flags = (if c \<in> set ''EG'' then flags OR FLAGS_UPPERCASE else flags);
           (d, args) \<leftarrow> va_double args;
           w \<leftarrow> floating_chars d precision width flags True;
           Some (w, args, [])
         }
         else if c = CHR ''c'' then do { (w, args) \<leftarrow> va_word args; Some (field [char_of (unat w)] (unat width - 1) flags, args, []) }
         else if c = CHR ''s'' then do {
           (p, args) \<leftarrow> va_string args;
           w \<leftarrow> (case p of None \<Rightarrow> Some (padded ''(null)'' (unat width) flags) | Some p \<Rightarrow> string_chars p flags precision width);
           Some (w, args, [])
         }
         else if c = CHR ''p'' then do { (p, args) \<leftarrow> va_pointer args; Some (pointer_chars p flags precision, args, []) }
         else if c = CHR ''n'' then do { (t, args) \<leftarrow> va_target args; Some ([], args, [written_back flags n t]) }
         else Some ([c], args, []))"

function format_chars :: "string \<Rightarrow> arg list \<Rightarrow> u32 \<Rightarrow> (string \<times> arg list \<times> write_back list) option" where
  "format_chars f args n =
     (case f of
        [] \<Rightarrow> None
      | c # f \<Rightarrow>
          if c = NUL then Some ([], args, [])
          else if c \<noteq> CHR ''%'' then map_option (\<lambda>(w, r). (c # w, r)) (format_chars f args (n + 1))
          else Option.bind (parse_conversion f args) (\<lambda>(v, f, args).
                 Option.bind (convert_chars v args n) (\<lambda>(w, args, ws).
                   map_option (\<lambda>(w', args, ws'). (w @ w', args, ws @ ws')) (format_chars f args (n + of_nat (length w))))))"
  by pat_completeness auto
termination
  by (relation "measure (\<lambda>(f, args, n). length f)") (auto dest: parse_conversion_length)

declare format_chars.simps [simp del]

section \<open>The conversions write their characters\<close>

lemma strnlen_s_eq:
  "strnlen_s p m = (if NUL \<in> set p \<or> unat m < length p then Some (of_nat (min (strlen p) (unat m))) else None)"
proof (induction p m rule: strnlen_s.induct)
  case (1 c s m)
  show ?case
  proof (cases "c = NUL \<or> m = 0")
    case True
    then show ?thesis by (auto simp: strlen_def cstr_def)
  next
    case False
    then have "unat m = Suc (unat (m - 1))" using unat_minus_one [of m] by (simp add: unat_gt_0)
    then show ?thesis using False 1 by (auto simp: strlen_def cstr_def)
  qed
qed simp

lemma put_string_all:
  "\<not> has flags FLAGS_PRECISION \<Longrightarrow> outputs (put_string p flags precision) (if NUL \<in> set p then Some (cstr p) else None)"
proof (induction p arbitrary: precision)
  case (Cons c p)
  have "put_string p flags (precision - 1) h = (if NUL \<in> set p then Some (put_chars (cstr p) h) else None)" if "sound h" for h :: "'a gadget"
    using outputsD [OF Cons.IH [OF Cons.prems] that] by simp
  then show ?case using Cons.prems by (auto simp: outputs_def cstr_def putchar_sound put_sound)
qed (simp add: outputs_def)

lemma put_string_some:
  "has flags FLAGS_PRECISION \<Longrightarrow>
    outputs (put_string p flags precision) (if NUL \<in> set p \<or> unat precision < length p then Some (take (unat precision) (cstr p)) else None)"
proof (induction p arbitrary: precision)
  case (Cons c p)
  show ?case
  proof (cases "c = NUL \<or> precision = 0")
    case True
    then show ?thesis using Cons.prems by (auto simp: outputs_def cstr_def)
  next
    case False
    then have p: "unat precision = Suc (unat (precision - 1))" using unat_minus_one [of precision] by (simp add: unat_gt_0)
    have "put_string p flags (precision - 1) h =
        (if NUL \<in> set p \<or> unat (precision - 1) < length p then Some (put_chars (take (unat (precision - 1)) (cstr p)) h) else None)"
      if "sound h" for h :: "'a gadget"
      using outputsD [OF Cons.IH [OF Cons.prems] that] by simp
    then show ?thesis using Cons.prems False p by (auto simp: outputs_def cstr_def putchar_sound put_sound)
  qed
qed (simp add: outputs_def)

lemma print_string_outputs: "outputs (print_string p flags precision width) (string_chars p flags precision width)"
  unfolding outputs_def
proof (intro allI impI)
  fix g :: "'w gadget" assume g: "sound g"
  let ?m = "if precision \<noteq> 0 then precision else MAX_POSSIBLE_BUFFER_SIZE"
  show "print_string p flags precision width g = map_option (\<lambda>w. put_chars w g) (string_chars p flags precision width)"
  proof (cases "NUL \<in> set p \<or> unat ?m < length p")
    case False
    then show ?thesis by (simp add: print_string_def string_chars_def strnlen_s_eq del: if_image_distrib)
  next
    case True
    define l :: u32 where "l = of_nat (min (strlen p) (unat ?m))"
    have s: "strnlen_s p ?m = Some l" using True by (simp add: strnlen_s_eq l_def)
    have l: "unat l = min (strlen p) (unat ?m)"
      using unsigned_less [of ?m, where 'a = nat] by (simp add: l_def unat_of_nat take_bit_nat_eq_self del: unsigned_less)
    let ?l = "if has flags FLAGS_PRECISION then if l < precision then l else precision else l"
    let ?w = "if has flags FLAGS_PRECISION then take (unat precision) (cstr p) else cstr p"
    have ll: "unat ?l = min (length ?w) (unat ?m)" by (auto simp: l strlen_def word_less_nat_alt)
    have put: "put_string p flags precision h =
        (if NUL \<in> set p \<or> has flags FLAGS_PRECISION then Some (put_chars ?w h) else None)" if "sound h" for h :: "'w gadget"
    proof (cases "has flags FLAGS_PRECISION")
      case prec: True
      then have "NUL \<in> set p \<or> unat precision < length p" using True by (auto split: if_splits)
      then show ?thesis using outputsD [OF put_string_some [OF prec] that, of p precision] prec by simp
    next
      case False
      then show ?thesis using outputsD [OF put_string_all [OF False] that, of p precision] by simp
    qed
    have code: "print_string p flags precision width g =
        do {
          h \<leftarrow> (if \<not> has flags FLAGS_LEFT then put_times (unat width - min (length ?w) (unat ?m)) CHR '' '' g else Some g);
          h \<leftarrow> put_string p flags precision h;
          if has flags FLAGS_LEFT then put_times (unat width - min (length ?w) (unat ?m)) CHR '' '' h else Some h
        }"
      unfolding print_string_def s Let_def ll [symmetric] by (simp only: bind.simps)
    have chars: "string_chars p flags precision width =
        (if NUL \<in> set p \<or> has flags FLAGS_PRECISION then Some (field ?w (unat width - min (length ?w) (unat ?m)) flags) else None)"
      unfolding string_chars_def Let_def using True by auto
    show ?thesis unfolding code chars using g by (simp add: put emitsD [OF put_times_emits] field_def)
  qed
qed

lemma print_char_emits: "emits (print_char c flags width) (field [c] (unat width - 1) flags)"
  unfolding emits_def print_char_def field_def
  by (auto simp: emitsD [OF put_times_emits] putchar_sound put_sound)

lemma print_pointer_emits: "emits (print_pointer v flags precision) (pointer_chars v flags precision)"
  unfolding emits_def print_pointer_def pointer_chars_def Let_def
  by (simp add: emitsD [OF out_rev_emits] emitsD [OF print_integer_emits])

lemma convert_pos: "sound g \<Longrightarrow> convert v args g = map_option (\<lambda>(w, args, ws). (put_chars w g, args, ws)) (convert_chars v args (pos g))"
  unfolding convert_def convert_chars_def Let_def
  by (simp add: emitsD [OF print_integer_emits] emitsD [OF print_char_emits] emitsD [OF print_pointer_emits] outputsD [OF floating_outputs]
      outputsD [OF print_string_outputs] emitsD [OF out_rev_emits] putchar_sound map_option_bind bind_map_option comp_def split_def option.map_comp
      split: option.splits bind_splits)

section \<open>The loop writes the string\<close>

lemma format_loop_chars:
  "sound g \<Longrightarrow> format_loop f args ws g = map_option (\<lambda>(w, args, ws'). (put_chars w g, args, ws @ ws')) (format_chars f args (pos g))"
proof (induction f args ws g rule: format_loop.induct)
  case (1 f args ws g)
  show ?case
  proof (cases f)
    case Nil
    then show ?thesis by (simp add: format_loop.simps [of "[]"] format_chars.simps [of "[]"])
  next
    case (Cons c f')
    consider (nul) "c = NUL" | (plain) "c \<noteq> NUL" "c \<noteq> CHR ''%''" | (conv) "c = CHR ''%''" by blast
    then show ?thesis
    proof cases
      case nul
      then show ?thesis unfolding Cons by (subst format_loop.simps, subst format_chars.simps) simp
    next
      case plain
      have "format_loop f' args ws (put c g) = map_option (\<lambda>(w, args, ws'). (put_chars w (put c g), args, ws @ ws')) (format_chars f' args (pos g + 1))"
        using 1 plain Cons by (simp add: put_sound put_fields putchar_sound)
      then show ?thesis
        using plain "1.prems" unfolding Cons
        by (subst format_loop.simps, subst format_chars.simps) (simp add: putchar_sound option.map_comp comp_def split_def)
    next
      case conv
      show ?thesis
      proof (cases "parse_conversion f' args")
        case None
        then show ?thesis unfolding Cons conv by (subst format_loop.simps, subst format_chars.simps) simp
      next
        case (Some r)
        obtain v f2 args2 where r: "r = (v, f2, args2)" by (metis prod_cases3)
        show ?thesis
        proof (cases "convert_chars v args2 (pos g)")
          case None
          then show ?thesis
            using "1.prems" Some unfolding Cons conv r by (subst format_loop.simps, subst format_chars.simps) (simp add: convert_pos)
        next
          case (Some s)
          obtain w args3 ws3 where s: "s = (w, args3, ws3)" by (metis prod_cases3)
          have cv: "convert v args2 g = Some (put_chars w g, args3, ws3)" using Some s "1.prems" by (simp add: convert_pos)
          have "format_loop f2 args3 (ws @ ws3) (put_chars w g) =
              map_option (\<lambda>(w', args, ws'). (put_chars w' (put_chars w g), args, (ws @ ws3) @ ws')) (format_chars f2 args3 (pos (put_chars w g)))"
            by (rule "1.IH" (2) [OF Cons _ _ \<open>parse_conversion f' args = Some r\<close> _ _ cv]) (use conv r "1.prems" in simp_all)
          then show ?thesis
            using "1.prems" cv \<open>parse_conversion f' args = Some r\<close> Some unfolding Cons conv r s
            by (subst format_loop.simps, subst format_chars.simps) (simp add: option.map_comp comp_def split_def put_chars_pos)
        qed
      qed
    qed
  qed
qed

lemma append_termination_sound: "sound g \<Longrightarrow> \<exists>g'. append_termination_with_gadget g = Some g' \<and> pos g' = pos g"
proof (cases "sink g")
  case (Memory b)
  assume "sound g"
  then have "unat (max_chars g) \<le> length b" using Memory by (simp add: sound_def)
  moreover have "0 < unat (max_chars g)" if "max_chars g \<noteq> 0" using that by (simp add: unat_gt_0)
  ultimately have "max_chars g \<noteq> 0 \<Longrightarrow> unat (if pos g < max_chars g then pos g else max_chars g - 1) < length b"
    by (auto simp: word_less_nat_alt unat_minus_one)
  then show ?thesis by (auto simp: append_termination_with_gadget_def Memory Let_def)
qed (simp_all add: append_termination_with_gadget_def)

lemma vsnprintf_internal_chars:
  assumes "sound g"
  shows "vsnprintf_internal g f args =
    Option.bind (format_chars f args (pos g)) (\<lambda>(w, args, ws).
      map_option (\<lambda>g'. (pos g + of_nat (length w), sink g', args, ws)) (append_termination_with_gadget (put_chars w g)))"
proof (cases "format_chars f args (pos g)")
  case None
  then show ?thesis using assms by (simp add: vsnprintf_internal_def format_loop_chars)
next
  case (Some r)
  obtain w args' ws where r: "r = (w, args', ws)" by (metis prod_cases3)
  obtain g' where "append_termination_with_gadget (put_chars w g) = Some g'" "pos g' = pos (put_chars w g)"
    using append_termination_sound [of "put_chars w g"] assms by auto
  then show ?thesis using assms Some r by (simp add: vsnprintf_internal_def format_loop_chars put_chars_pos)
qed

section \<open>What the functions leave behind\<close>

definition usable :: "u32 \<Rightarrow> nat" where
  \<comment> \<open>the size of a buffer that is used\<close>
  "usable n = min (unat n) (2 ^ 31 - 1)"

definition printed_into :: "string \<Rightarrow> nat \<Rightarrow> string \<Rightarrow> string" where
  \<comment> \<open>the memory \<open>b\<close> after as many characters of \<open>w\<close> as have room in \<open>n\<close> with a NUL\<close>
  "printed_into b n w = (if n = 0 then b else take (n - 1) w @ NUL # drop (Suc (min (n - 1) (length w))) b)"

lemma length_printed_into: "n \<le> length b \<Longrightarrow> length (printed_into b n w) = length b"
  by (auto simp: printed_into_def min_def)

lemma termination_memory:
  assumes "sink g = Memory b" and "unat (max_chars g) \<le> length b"
  shows "append_termination_with_gadget g =
    Some (if max_chars g = 0 then g else g\<lparr>sink := Memory (b[min (unat (pos g)) (unat (max_chars g) - 1) := NUL])\<rparr>)"
proof (cases "max_chars g = 0")
  case False
  then have m: "0 < unat (max_chars g)" by (simp add: unat_gt_0)
  then have "unat (if pos g < max_chars g then pos g else max_chars g - 1) = min (unat (pos g)) (unat (max_chars g) - 1)"
    using False by (auto simp: word_less_nat_alt unat_minus_one)
  then show ?thesis using m assms False by (simp add: append_termination_with_gadget_def Let_def)
qed (use assms in \<open>simp add: append_termination_with_gadget_def\<close>)

lemma vsnprintf_buffer:
  assumes "format_chars f args 0 = Some (w, args', ws)" and b: "unat n \<le> length b" and w: "length w < 2 ^ 32"
  shows "vsnprintf (Some b) n f args = Some (of_nat (length w), Memory (printed_into b (usable n) w), args', ws)"
proof -
  let ?g = "buffer_gadget (Some b) n :: unit gadget"
  let ?N = "usable n"
  have g: "sink ?g = Memory b" "pos ?g = 0" "unat (max_chars ?g) = ?N"
    by (simp_all add: buffer_gadget_def discarding_gadget_def usable_def MAX_POSSIBLE_BUFFER_SIZE_def word_less_nat_alt)
  have N: "?N \<le> length b" using b by (simp add: usable_def)
  then have s: "sound ?g" using g by (simp add: sound_def)
  let ?h = "put_chars w ?g"
  have h: "sink ?h = Memory (take ?N w @ drop (min ?N (length w)) b)" "unat (pos ?h) = length w" "unat (max_chars ?h) = ?N"
    using put_memory [OF g(1), of w] g N w s by (simp_all add: put_chars_pos put_chars_max unat_of_nat take_bit_nat_eq_self)
  have "append_termination_with_gadget ?h =
      Some (if ?N = 0 then ?h else ?h\<lparr>sink := Memory ((take ?N w @ drop (min ?N (length w)) b)[min (length w) (?N - 1) := NUL])\<rparr>)"
    using termination_memory [OF h(1)] h N by (simp add: unat_eq_0 [symmetric])
  moreover have "(take ?N w @ drop (min ?N (length w)) b)[min (length w) (?N - 1) := NUL] = printed_into b ?N w" if "?N \<noteq> 0"
  proof (cases "length w < ?N")
    case True
    then have "drop (length w) b = b ! length w # drop (Suc (length w)) b" using N by (intro Cons_nth_drop_Suc [symmetric]) simp
    moreover have "min (length w) (?N - 1) = length w" "min (?N - 1) (length w) = length w" "min ?N (length w) = length w" using True by simp_all
    ultimately show ?thesis using True by (simp add: printed_into_def list_update_append)
  next
    case False
    then have "take ?N w = take (?N - 1) w @ [w ! (?N - 1)]" using that take_Suc_conv_app_nth [of "?N - 1" w] by simp
    then show ?thesis using False that by (simp add: printed_into_def list_update_append min_def)
  qed
  ultimately have "\<exists>g'. append_termination_with_gadget ?h = Some g' \<and> sink g' = Memory (printed_into b ?N w)"
    using h(1) by (auto simp: printed_into_def)
  then show ?thesis using assms(1) g(2) s by (auto simp: vsnprintf_def vsnprintf_internal_chars)
qed

lemma vsnprintf_null:
  "format_chars f args 0 = Some (w, args', ws) \<Longrightarrow> vsnprintf None n f args = Some (of_nat (length w), No_sink, args', ws)"
proof -
  assume a: "format_chars f args 0 = Some (w, args', ws)"
  have s: "sound (discarding_gadget :: unit gadget)" by (simp add: sound_def discarding_gadget_def)
  have discard: "sink g = No_sink \<Longrightarrow> sound g \<Longrightarrow> sink (put_chars w g) = No_sink" for g :: "unit gadget"
  proof (induction w arbitrary: g)
    case (Cons c w)
    then have "sink (put c g) = No_sink" by (auto simp: put_def putchar_via_gadget_def Let_def sound_def)
    then show ?case using Cons.IH [of "put c g"] Cons.prems(2) by (simp add: put_sound)
  qed simp
  have "sink (put_chars w (discarding_gadget :: unit gadget)) = No_sink" by (rule discard [OF _ s]) (simp add: discarding_gadget_def)
  moreover have "pos (discarding_gadget :: unit gadget) = 0" by (simp add: discarding_gadget_def)
  ultimately show ?thesis using a s by (simp add: vsnprintf_def vsnprintf_internal_chars buffer_gadget_def append_termination_with_gadget_def)
qed

lemma vfctprintf_chars:
  assumes "format_chars f args 0 = Some (w, args', ws)" and "length w < 2 ^ 31"
  shows "vfctprintf out x f args = Some (of_nat (length w), Function out (fold out w x), args', ws)"
proof -
  let ?g = "function_gadget out x"
  have g: "sink ?g = Function out x" "pos ?g = 0" "unat (max_chars ?g) = 2 ^ 31 - 1"
    by (simp_all add: function_gadget_def discarding_gadget_def MAX_POSSIBLE_BUFFER_SIZE_def)
  then have "sound ?g" by (simp add: sound_def)
  moreover have "sink (put_chars w ?g) = Function out (fold out w x)" using g assms(2) by (intro put_function) simp_all
  ultimately show ?thesis
    using assms(1) g by (simp add: vfctprintf_def vsnprintf_internal_chars append_termination_with_gadget_def)
qed

end
