(* ===== verification/PrintfSig.thy ===== *)
theory PrintfSig
  imports PrintfSpec
begin

text \<open>
  The types of the arguments of a format, read off it without running it (\<open>signature\<close>), and progress: a call whose arguments have these types returns, and it
  has read exactly these arguments. The floating point conversions have no type here; some of them go wrong.
\<close>

datatype ty = T_word | T_star | T_wide | T_signed_wide | T_string | T_pointer | T_target

fun fits :: "arg \<Rightarrow> ty \<Rightarrow> bool" where
  "fits (Word w) T_word = True"
| "fits (Word w) T_star = (w \<noteq> 0x80000000)"
| "fits (Wide w) T_wide = True"
| "fits (Wide w) T_signed_wide = (w \<noteq> 0x8000000000000000)"
| "fits (Str None) T_string = True"
| "fits (Str (Some s)) T_string = (NUL \<in> set s)"
| "fits (Pointer p) T_pointer = True"
| "fits (Target t) T_target = True"
| "fits _ _ = False"

definition scan_width :: "string \<Rightarrow> ty list \<times> string" where
  "scan_width f = (case f of [] \<Rightarrow> ([], []) | c # f' \<Rightarrow> if c = CHR ''*'' then ([T_star], f') else ([], dropWhile is_digit f))"

definition scan_precision :: "string \<Rightarrow> ty list \<times> string" where
  "scan_precision f =
     (case f of
        [] \<Rightarrow> ([], [])
      | c # f' \<Rightarrow>
          if c = CHR ''.'' then
            (case f' of [] \<Rightarrow> ([], []) | d # f'' \<Rightarrow> if d = CHR ''*'' then ([T_word], f'') else ([], dropWhile is_digit f'))
          else ([], f))"

definition scan_length :: "string \<Rightarrow> bool \<times> string" where
  \<comment> \<open>whether the argument has two words\<close>
  "scan_length f =
     (case f of
        [] \<Rightarrow> (False, [])
      | c # f' \<Rightarrow>
          if c = CHR ''l'' then (case f' of [] \<Rightarrow> (False, []) | d # f'' \<Rightarrow> if d = CHR ''l'' then (True, f'') else (False, f'))
          else if c = CHR ''h'' then (case f' of [] \<Rightarrow> (False, []) | d # f'' \<Rightarrow> if d = CHR ''h'' then (False, f'') else (False, f'))
          else if c = CHR ''j'' then (True, f')
          else if c = CHR ''t'' \<or> c = CHR ''z'' then (False, f')
          else (False, f))"

definition conversion_type :: "bool \<Rightarrow> char \<Rightarrow> ty list option" where
  "conversion_type wide c =
     (if c \<in> set ''di'' then Some [if wide then T_signed_wide else T_word]
      else if c \<in> set ''uxXob'' then Some [if wide then T_wide else T_word]
      else if c = CHR ''c'' then Some [T_word]
      else if c = CHR ''s'' then Some [T_string]
      else if c = CHR ''p'' then Some [T_pointer]
      else if c = CHR ''n'' then Some [T_target]
      else if c \<in> set ''fFeEgG'' \<or> c = NUL then None
      else Some [])"

definition scan_conversion :: "string \<Rightarrow> (ty list \<times> string) option" where
  "scan_conversion f =
     (let (ts1, f) = scan_width (dropWhile (\<lambda>c. c \<in> set ''0-+ #'') f);
          (ts2, f) = scan_precision f;
          (wide, f) = scan_length f
      in case f of [] \<Rightarrow> None | c # f \<Rightarrow> map_option (\<lambda>ts. (ts1 @ ts2 @ ts, f)) (conversion_type wide c))"

lemma dropWhile_le: "length (dropWhile P xs) \<le> length xs"
  by (induction xs) auto

lemma scan_shorter:
  "length (snd (scan_width f)) \<le> length f" "length (snd (scan_precision f)) \<le> length f" "length (snd (scan_length f)) \<le> length f"
  by (cases f; auto simp: scan_width_def scan_precision_def scan_length_def dropWhile_le le_Suc_eq split: list.splits)+

lemma scan_conversion_length:
  assumes "scan_conversion f = Some (ts, f')"
  shows "length f' < length f"
proof -
  let ?f = "dropWhile (\<lambda>c. c \<in> set ''0-+ #'') f"
  have "length f' < length (snd (scan_length (snd (scan_precision (snd (scan_width ?f))))))"
    using assms by (auto simp: scan_conversion_def split: prod.splits list.splits)
  also have "\<dots> \<le> length ?f" using scan_shorter by (meson order_trans)
  also have "\<dots> \<le> length f" by (rule dropWhile_le)
  finally show ?thesis .
qed

function signature :: "string \<Rightarrow> ty list option" where
  "signature f =
     (case f of
        [] \<Rightarrow> None
      | c # f \<Rightarrow>
          if c = NUL then Some []
          else if c \<noteq> CHR ''%'' then signature f
          else Option.bind (scan_conversion f) (\<lambda>(ts, f). map_option (\<lambda>ts'. ts @ ts') (signature f)))"
  by pat_completeness auto
termination
  by (relation "measure length") (auto dest: scan_conversion_length)

declare signature.simps [simp del]

section \<open>Parsing\<close>

definition plain :: "u32 \<Rightarrow> bool" where
  \<comment> \<open>no flag of a length or a specifier\<close>
  "plain flags \<longleftrightarrow> (\<forall>k \<in> {5, 6, 7, 9, 10, 12, 13, 14}. \<not> has flags (flag_bit k))"

lemma plain_or [simp]: "k \<in> {0, 1, 2, 3, 4, 11} \<Longrightarrow> plain flags \<Longrightarrow> plain (flags OR flag_bit k)"
  unfolding plain_def by auto

lemma plain_0 [simp]: "plain 0"
  by (simp add: plain_def)

lemma atou_Some: "dropWhile is_digit f \<noteq> [] \<Longrightarrow> \<exists>n. atou i f = Some (n, dropWhile is_digit f)"
  by (induction i f rule: atou.induct) auto

lemma parse_flags_step: "c \<in> set ''0-+ #'' \<Longrightarrow> \<exists>k \<in> {0, 1, 2, 3, 4}. parse_flags flags (c # f) = parse_flags (flags OR flag_bit k) f"
  by auto

lemma parse_flags_stop: "c \<notin> set ''0-+ #'' \<Longrightarrow> parse_flags flags (c # f) = Some (flags, c # f)"
  by simp

lemma parse_flags_Some:
  "dropWhile (\<lambda>c. c \<in> set ''0-+ #'') f \<noteq> [] \<Longrightarrow> plain flags \<Longrightarrow>
    \<exists>flags'. parse_flags flags f = Some (flags', dropWhile (\<lambda>c. c \<in> set ''0-+ #'') f) \<and> plain flags'"
proof (induction f arbitrary: flags)
  case (Cons c f)
  show ?case
  proof (cases "c \<in> set ''0-+ #''")
    case True
    obtain k where k: "k \<in> {0, 1, 2, 3, 4}" "parse_flags flags (c # f) = parse_flags (flags OR flag_bit k) f"
      using parse_flags_step [OF True] by blast
    have "k \<in> {0, 1, 2, 3, 4, 11}" using k(1) by blast
    then have "plain (flags OR flag_bit k)" by (rule plain_or) (rule Cons.prems)
    then show ?thesis using Cons.IH [of "flags OR flag_bit k"] Cons.prems(1) True unfolding k(2) by simp
  next
    case False
    then show ?thesis using Cons.prems(2) unfolding parse_flags_stop [OF False] by simp
  qed
qed simp

lemma parse_width_Some:
  assumes "scan_width f = (ts, f')" and "f' \<noteq> []" and "plain flags" and "list_all2 fits args ts"
  shows "\<exists>w flags'. parse_width flags f (args @ rest) = Some (w, flags', f', rest) \<and> plain flags'"
proof (cases f)
  case Nil
  then show ?thesis using assms(1,2) by (simp add: scan_width_def)
next
  case (Cons c g)
  show ?thesis
  proof (cases "c = CHR ''*''")
    case True
    then have "ts = [T_star]" "f' = g" using assms(1) by (simp_all add: scan_width_def Cons)
    moreover obtain w where "args = [Word w]" "w \<noteq> 0x80000000"
      using assms(4) calculation(1) by (auto simp: list_all2_Cons2 elim!: fits.elims)
    moreover have "plain (flags OR FLAGS_LEFT)" by (rule plain_or) (simp_all add: assms(3))
    ultimately show ?thesis using assms(3) True by (simp add: Cons is_digit_def)
  next
    case False
    then have t: "ts = []" "f' = dropWhile is_digit f" using assms(1) by (simp_all add: scan_width_def Cons)
    then have a: "args = []" using assms(4) by simp
    show ?thesis
    proof (cases "is_digit c")
      case True
      then show ?thesis using atou_Some [of f 0] t assms(2,3) a by (auto simp: Cons simp del: atou.simps)
    next
      case no: False
      then show ?thesis using t a assms(3) False by (simp add: Cons)
    qed
  qed
qed

lemma parse_precision_Some:
  assumes "scan_precision f = (ts, f')" and "f' \<noteq> []" and "plain flags" and "list_all2 fits args ts"
  shows "\<exists>p flags'. parse_precision flags f (args @ rest) = Some (p, flags', f', rest) \<and> plain flags'"
proof (cases f)
  case Nil
  then show ?thesis using assms(1,2) by (simp add: scan_precision_def)
next
  case (Cons c g)
  have pl: "plain (flags OR FLAGS_PRECISION)" by (rule plain_or) (simp_all add: assms(3))
  show ?thesis
  proof (cases "c = CHR ''.''")
    case dot: True
    show ?thesis
    proof (cases g)
      case Nil
      then show ?thesis using assms(1,2) dot by (simp add: scan_precision_def Cons)
    next
      case g: (Cons d h)
      show ?thesis
      proof (cases "d = CHR ''*''")
        case True
        then have "ts = [T_word]" "f' = h" using assms(1) dot by (simp_all add: scan_precision_def Cons g)
        moreover obtain w where "args = [Word w]"
          using assms(4) calculation(1) by (auto simp: list_all2_Cons2 elim!: fits.elims)
        ultimately show ?thesis using pl True dot by (simp add: Cons g is_digit_def)
      next
        case False
        then have t: "ts = []" "f' = dropWhile is_digit g" using assms(1) dot by (simp_all add: scan_precision_def Cons g)
        then have a: "args = []" using assms(4) by simp
        show ?thesis
        proof (cases "is_digit d")
          case True
          then show ?thesis using atou_Some [of g 0] t assms(2) a pl dot by (auto simp: Cons g simp del: atou.simps)
        next
          case no: False
          then show ?thesis using t a pl False dot by (simp add: Cons g)
        qed
      qed
    qed
  next
    case False
    then have "ts = []" "f' = f" using assms(1) by (simp_all add: scan_precision_def Cons)
    then show ?thesis using assms(3,4) False by (simp add: Cons)
  qed
qed

lemma parse_length_Some:
  assumes "scan_length f = (wide, f')" and "f' \<noteq> []" and "plain flags"
  shows "\<exists>flags'. parse_length flags f = Some (flags', f') \<and> (has flags' FLAGS_LONG_LONG \<longleftrightarrow> wide)"
proof (cases f)
  case Nil
  then show ?thesis using assms(1,2) by (simp add: scan_length_def)
next
  case (Cons c g)
  have "\<not> has flags FLAGS_LONG_LONG" using assms(3) by (simp add: plain_def)
  then show ?thesis using assms(1,2) by (cases g) (auto simp: scan_length_def Cons split: if_splits)
qed

section \<open>Progress\<close>

lemma sint_bounds: "sint (w :: u32) \<noteq> - (2 ^ 63)" "sint (b :: u8) \<noteq> - (2 ^ 63)" "sint (h :: u16) \<noteq> - (2 ^ 63)"
  using sint_ge [of w] sint_ge [of b] sint_ge [of h] by auto

lemma sint_least: "sint (w :: u64) = - (2 ^ 63) \<Longrightarrow> w = 0x8000000000000000"
proof -
  assume "sint w = - (2 ^ 63)"
  then have "word_of_int (sint w) = (word_of_int (- (2 ^ 63)) :: u64)" by simp
  then show ?thesis by simp
qed

lemma signed_arg_Some:
  assumes "fits a (if has flags FLAGS_LONG_LONG then T_signed_wide else T_word)"
  shows "\<exists>v m. signed_arg flags (a # rest) = Some (v, rest) \<and> abs_for_printing v = Some m"
proof (cases "has flags FLAGS_LONG_LONG")
  case True
  then obtain w where "a = Wide w" "w \<noteq> 0x8000000000000000" using assms by (auto elim!: fits.elims)
  then show ?thesis using True sint_least by (auto simp: signed_arg_def abs_for_printing_def)
next
  case False
  then obtain w where "a = Word w" using assms by (auto elim!: fits.elims)
  then show ?thesis using False sint_bounds by (simp add: signed_arg_def abs_for_printing_def)
qed

lemma unsigned_arg_Some:
  assumes "fits a (if has flags FLAGS_LONG_LONG then T_wide else T_word)"
  shows "\<exists>v. unsigned_arg flags (a # rest) = Some (v, rest)"
  using assms by (auto simp: unsigned_arg_def split: if_splits elim!: fits.elims)

lemma string_chars_Some: "NUL \<in> set p \<Longrightarrow> \<exists>w. string_chars p flags precision width = Some w"
  by (simp add: string_chars_def Let_def)

lemma convert_chars_Some:
  assumes "conversion_type wide (specifier v) = Some ts" and "list_all2 fits args ts" and "has (conv_flags v) FLAGS_LONG_LONG \<longleftrightarrow> wide"
  shows "\<exists>w ws. convert_chars v (args @ rest) n = Some (w, rest, ws)"
proof -
  let ?c = "specifier v" and ?f = "conv_flags v"
  consider (signed) "?c \<in> set ''di''" | (unsigned) "?c \<in> set ''uxXob''" | (char) "?c = CHR ''c''" | (string) "?c = CHR ''s''"
    | (pointer) "?c = CHR ''p''" | (count) "?c = CHR ''n''" | (float) "?c \<in> set ''fFeEgG''" | (other) "?c \<notin> set ''diuxXobcspnfFeEgG''"
    by auto
  then show ?thesis
  proof cases
    case signed
    then have "ts = [if has ?f FLAGS_LONG_LONG then T_signed_wide else T_word]" using assms(1,3) by (simp add: conversion_type_def)
    then obtain a where a: "args = [a]" "fits a (if has ?f FLAGS_LONG_LONG then T_signed_wide else T_word)"
      using assms(2) by (auto simp: list_all2_Cons2)
    obtain u m where "signed_arg ?f (a # rest) = Some (u, rest)" "abs_for_printing u = Some m" using signed_arg_Some [OF a(2)] by blast
    then show ?thesis using signed a(1) by (auto simp: convert_chars_def Let_def integer_operands_def)
  next
    case unsigned
    then have "ts = [if has ?f FLAGS_LONG_LONG then T_wide else T_word]" using assms(1,3) by (auto simp: conversion_type_def)
    then obtain a where a: "args = [a]" "fits a (if has ?f FLAGS_LONG_LONG then T_wide else T_word)"
      using assms(2) by (auto simp: list_all2_Cons2)
    obtain u where "unsigned_arg ?f (a # rest) = Some (u, rest)" using unsigned_arg_Some [OF a(2)] by blast
    then show ?thesis using unsigned a(1) by (auto simp: convert_chars_def Let_def integer_operands_def)
  next
    case char
    then obtain w where "args = [Word w]" using assms(1,2) by (auto simp: conversion_type_def list_all2_Cons2 elim!: fits.elims)
    then show ?thesis using char by (simp add: convert_chars_def Let_def)
  next
    case string
    then obtain p where "args = [Str p]" "case p of None \<Rightarrow> True | Some p \<Rightarrow> NUL \<in> set p"
      using assms(1,2) by (auto simp: conversion_type_def list_all2_Cons2 elim!: fits.elims)
    moreover obtain w where "(case p of None \<Rightarrow> Some (padded ''(null)'' (unat (conv_width v)) ?f)
        | Some p \<Rightarrow> string_chars p ?f (conv_precision v) (conv_width v)) = Some w"
    proof (cases p)
      case (Some q)
      then have "NUL \<in> set q" using calculation(2) by simp
      from string_chars_Some [OF this] that show thesis unfolding Some by (metis option.simps(5))
    qed simp
    ultimately show ?thesis using string by (simp add: convert_chars_def Let_def)
  next
    case pointer
    then obtain w where "args = [Pointer w]" using assms(1,2) by (auto simp: conversion_type_def list_all2_Cons2 elim!: fits.elims)
    then show ?thesis using pointer by (simp add: convert_chars_def Let_def)
  next
    case count
    then obtain t where "args = [Target t]" using assms(1,2) by (auto simp: conversion_type_def list_all2_Cons2 elim!: fits.elims)
    then show ?thesis using count by (simp add: convert_chars_def Let_def)
  next
    case float
    then show ?thesis using assms(1) by (auto simp: conversion_type_def)
  next
    case other
    then have "args = []" using assms(1,2) by (auto simp: conversion_type_def split: if_splits)
    then show ?thesis using other by (simp add: convert_chars_def Let_def)
  qed
qed

lemma scan_conversion_Some:
  assumes "scan_conversion f = Some (ts, f')" and "list_all2 fits args ts"
  shows "\<exists>v args'. parse_conversion f (args @ rest) = Some (v, f', args' @ rest) \<and> (\<exists>w ws. convert_chars v (args' @ rest) n = Some (w, rest, ws))"
proof -
  define f0 where "f0 = dropWhile (\<lambda>c. c \<in> set ''0-+ #'') f"
  obtain ts1 f1 where w: "scan_width f0 = (ts1, f1)" by fastforce
  obtain ts2 f2 where p: "scan_precision f1 = (ts2, f2)" by fastforce
  obtain wide f3 where l: "scan_length f2 = (wide, f3)" by fastforce
  obtain c ts3 where c: "f3 = c # f'" "conversion_type wide c = Some ts3" "ts = ts1 @ ts2 @ ts3"
    using assms(1) unfolding scan_conversion_def f0_def [symmetric] Let_def by (auto simp: w p l split: list.splits)
  have "f3 \<noteq> []" using c(1) by simp
  moreover have ne2: "f2 \<noteq> []" using l \<open>f3 \<noteq> []\<close> by (cases f2) (simp_all add: scan_length_def)
  moreover have ne1: "f1 \<noteq> []" using p ne2 by (cases f1) (simp_all add: scan_precision_def)
  moreover have "f0 \<noteq> []" using w ne1 by (cases f0) (simp_all add: scan_width_def)
  ultimately have ne: "f3 \<noteq> []" "f2 \<noteq> []" "f1 \<noteq> []" "f0 \<noteq> []" by simp_all
  obtain a1 a2 a3 where a: "args = a1 @ a2 @ a3" "list_all2 fits a1 ts1" "list_all2 fits a2 ts2" "list_all2 fits a3 ts3"
    using assms(2) unfolding c(3) by (auto simp: list_all2_append2)
  obtain fl0 where fl0: "parse_flags 0 f = Some (fl0, f0)" "plain fl0" using parse_flags_Some [OF ne(4) [unfolded f0_def] plain_0] unfolding f0_def by auto
  obtain wd fl1 where fl1: "parse_width fl0 f0 (a1 @ a2 @ a3 @ rest) = Some (wd, fl1, f1, a2 @ a3 @ rest)" "plain fl1"
    using parse_width_Some [OF w ne(3) fl0(2) a(2), of "a2 @ a3 @ rest"] by auto
  obtain pr fl2 where fl2: "parse_precision fl1 f1 (a2 @ a3 @ rest) = Some (pr, fl2, f2, a3 @ rest)" "plain fl2"
    using parse_precision_Some [OF p ne(2) fl1(2) a(3), of "a3 @ rest"] by auto
  obtain fl3 where fl3: "parse_length fl2 f2 = Some (fl3, f3)" "has fl3 FLAGS_LONG_LONG \<longleftrightarrow> wide"
    using parse_length_Some [OF l ne(1) fl2(2)] by auto
  let ?v = "\<lparr>specifier = c, conv_flags = fl3, conv_width = wd, conv_precision = pr\<rparr>"
  have "parse_conversion f (args @ rest) = Some (?v, f', a3 @ rest)"
    by (simp add: parse_conversion_def a(1) fl0 fl1 fl2 fl3 c(1))
  moreover have "\<exists>w ws. convert_chars ?v (a3 @ rest) n = Some (w, rest, ws)"
    using c(2) a(4) fl3(2) by (intro convert_chars_Some [where wide = wide]) simp_all
  ultimately show ?thesis by blast
qed

lemma progress:
  "signature f = Some ts \<Longrightarrow> list_all2 fits args ts \<Longrightarrow> \<exists>w ws. format_chars f (args @ rest) n = Some (w, rest, ws)"
proof (induction f arbitrary: ts args n rule: signature.induct)
  case (1 f)
  show ?case
  proof (cases f)
    case Nil
    then show ?thesis using "1.prems"(1) by (simp add: signature.simps [of "[]"])
  next
    case (Cons c f')
    consider (nul) "c = NUL" | (plain) "c \<noteq> NUL" "c \<noteq> CHR ''%''" | (conv) "c = CHR ''%''" by blast
    then show ?thesis
    proof cases
      case nul
      then have "args = []" using "1.prems" unfolding Cons by (subst (asm) signature.simps) simp
      then show ?thesis using nul unfolding Cons by (subst format_chars.simps) simp
    next
      case plain
      then have "signature f' = Some ts" using "1.prems"(1) unfolding Cons by (subst (asm) signature.simps) simp
      then obtain w ws where "format_chars f' (args @ rest) (n + 1) = Some (w, rest, ws)"
        using "1.IH"(1) [OF Cons plain, of ts args "n + 1"] "1.prems"(2) by blast
      then show ?thesis using plain unfolding Cons by (subst format_chars.simps) simp
    next
      case conv
      obtain ts1 f1 ts2 where s: "scan_conversion f' = Some (ts1, f1)" "signature f1 = Some ts2" "ts = ts1 @ ts2"
        using "1.prems"(1) unfolding Cons conv by (subst (asm) signature.simps) (auto split: bind_splits)
      obtain a1 a2 where a: "args = a1 @ a2" "list_all2 fits a1 ts1" "list_all2 fits a2 ts2"
        using "1.prems"(2) unfolding s(3) by (auto simp: list_all2_append2)
      obtain v a' w ws where v: "parse_conversion f' (a1 @ a2 @ rest) = Some (v, f1, a' @ a2 @ rest)"
        "convert_chars v (a' @ a2 @ rest) n = Some (w, a2 @ rest, ws)"
        using scan_conversion_Some [OF s(1) a(2), of "a2 @ rest" n] by blast
      obtain w' ws' where "format_chars f1 (a2 @ rest) (n + of_nat (length w)) = Some (w', rest, ws')"
        using "1.IH"(2) [OF Cons, of "(ts1, f1)" ts1 f1 ts2 a2 "n + of_nat (length w)"] conv s(1,2) a(3) by auto
      then show ?thesis using v a(1) unfolding Cons conv by (subst format_chars.simps) simp
    qed
  qed
qed

section \<open>Writes stay in the buffer\<close>

lemma put_within:
  "sound g \<Longrightarrow> sink g = Memory b \<Longrightarrow>
    \<exists>b'. sink (put_chars w g) = Memory b' \<and> length b' = length b \<and> drop (unat (max_chars g)) b' = drop (unat (max_chars g)) b"
proof (induction w arbitrary: g b)
  case (Cons c w)
  let ?m = "unat (max_chars g)"
  obtain b1 where b1: "sink (put c g) = Memory b1" "length b1 = length b" "drop ?m b1 = drop ?m b"
  proof (cases "max_chars g \<le> pos g")
    case True
    then have "sink (put c g) = Memory b" using Cons.prems by (simp add: put_def putchar_via_gadget_def Let_def)
    then show thesis by (intro that [of b]) simp_all
  next
    case False
    then have l: "unat (pos g) < ?m" by (simp add: not_le word_less_nat_alt)
    then have "sink (put c g) = Memory (b[unat (pos g) := c])"
      using Cons.prems False by (simp add: put_def putchar_via_gadget_def Let_def sound_def)
    then show thesis using l by (intro that [of "b[unat (pos g) := c]"]) simp_all
  qed
  then show ?case
    using Cons.IH [of "put c g" b1] Cons.prems(1) put_fields [OF Cons.prems(1), of c] put_sound [OF Cons.prems(1), of c] by auto
qed simp

end
