(* ===== verification/PrintfTrunc.thy ===== *)
theory PrintfTrunc
  imports PrintfSig
begin

text \<open>
  Formats that end inside a conversion specification, read off the format (\<open>ends_inside\<close>): the library takes the NUL for the specifier, prints it and reads on
  behind it.
\<close>

definition scan_specifier :: "string \<Rightarrow> string" where
  \<comment> \<open>from the character after the percent sign to the specifier: flags, width, precision and length are skipped\<close>
  "scan_specifier f = snd (scan_length (snd (scan_precision (snd (scan_width (dropWhile (\<lambda>c. c \<in> set ''0-+ #'') f))))))"

lemma scan_specifier_le: "length (scan_specifier f) \<le> length f"
  unfolding scan_specifier_def by (meson order_trans scan_shorter dropWhile_le)

lemma scan_specifier_less: "scan_specifier f = d # f' \<Longrightarrow> length f' < length f"
  using scan_specifier_le [of f] by simp

function ends_inside :: "string \<Rightarrow> bool" where
  \<comment> \<open>the format ends before the specifier of some conversion specification\<close>
  "ends_inside f =
     (case f of
        [] \<Rightarrow> False
      | c # f \<Rightarrow>
          if c = NUL then False
          else if c \<noteq> CHR ''%'' then ends_inside f
          else (case scan_specifier f of [] \<Rightarrow> False | d # f' \<Rightarrow> d = NUL \<or> ends_inside f'))"
  by pat_completeness auto
termination
  by (relation "measure length") (auto dest: scan_specifier_less)

declare ends_inside.simps [simp del]

section \<open>The parser follows the scan\<close>

lemma atou_rest: "atou i f = Some (n, f') \<Longrightarrow> f' = dropWhile is_digit f"
  by (induction i f rule: atou.induct) (auto split: if_splits)

lemma parse_flags_rest: "parse_flags flags f = Some (flags', f') \<Longrightarrow> f' = dropWhile (\<lambda>c. c \<in> set ''0-+ #'') f"
proof (induction f arbitrary: flags)
  case (Cons c f)
  show ?case
  proof (cases "c \<in> set ''0-+ #''")
    case True
    then obtain k where "parse_flags flags (c # f) = parse_flags (flags OR flag_bit k) f" using parse_flags_step by blast
    then show ?thesis using Cons True by (simp only: dropWhile.simps if_True)
  next
    case False
    then show ?thesis using Cons.prems unfolding parse_flags_stop [OF False] by (simp only: dropWhile.simps if_False) simp
  qed
qed simp

lemma parse_width_rest: "parse_width flags f args = Some (w, flags', f', args') \<Longrightarrow> f' = snd (scan_width f)"
  by (cases f) (auto simp: scan_width_def is_digit_def dest: atou_rest split: if_splits bind_splits simp del: atou.simps)

lemma parse_precision_rest: "parse_precision flags f args = Some (p, flags', f', args') \<Longrightarrow> f' = snd (scan_precision f)"
  by (cases f) (fastforce simp: scan_precision_def is_digit_def dest: atou_rest split: if_splits bind_splits list.splits simp del: atou.simps)+

lemma parse_length_rest: "parse_length flags f = Some (flags', f') \<Longrightarrow> f' = snd (scan_length f)"
  by (cases f) (auto simp: scan_length_def split: if_splits list.splits)

lemma parse_conversion_rest: "parse_conversion f args = Some (v, f', args') \<Longrightarrow> scan_specifier f = specifier v # f'"
  by (auto simp: parse_conversion_def scan_specifier_def split: bind_splits list.splits
      dest!: parse_flags_rest parse_width_rest parse_precision_rest parse_length_rest)

section \<open>The scan stops at the NUL\<close>

definition keeps_end :: "(string \<Rightarrow> string) \<Rightarrow> bool" where
  \<comment> \<open>the function drops a part of the format only, whatever is behind its NUL\<close>
  "keeps_end s \<longleftrightarrow> (\<forall>x. NUL \<notin> set x \<longrightarrow> (\<exists>y. NUL \<notin> set y \<and> length y \<le> length x \<and> (\<forall>m. s (x @ NUL # m) = y @ NUL # m)))"

lemma keeps_end_comp: "keeps_end s \<Longrightarrow> keeps_end t \<Longrightarrow> keeps_end (\<lambda>f. s (t f))"
  unfolding keeps_end_def by (metis order_trans)

lemma dropWhile_end:
  assumes "\<not> P NUL" and "NUL \<notin> set x"
  shows "NUL \<notin> set (dropWhile P x)" and "dropWhile P (x @ NUL # m) = dropWhile P x @ NUL # m"
  using assms by (induction x) auto

lemma keeps_end_flags: "keeps_end (dropWhile (\<lambda>c. c \<in> set ''0-+ #''))"
  unfolding keeps_end_def
  by (intro allI impI, rule exI [of _ "dropWhile _ _"]) (use dropWhile_end [of "\<lambda>c. c \<in> set ''0-+ #''"] dropWhile_le in auto)

lemma keeps_end_width: "keeps_end (\<lambda>f. snd (scan_width f))"
  unfolding keeps_end_def
proof (intro allI impI)
  fix x :: string assume x: "NUL \<notin> set x"
  let ?y = "case x of [] \<Rightarrow> [] | c # x' \<Rightarrow> if c = CHR ''*'' then x' else dropWhile is_digit x"
  have d: "\<not> is_digit NUL" by (simp add: is_digit_def)
  show "\<exists>y. NUL \<notin> set y \<and> length y \<le> length x \<and> (\<forall>m. snd (scan_width (x @ NUL # m)) = y @ NUL # m)"
    using x d dropWhile_end [of is_digit x, OF d x] dropWhile_le [of is_digit x]
    by (intro exI [of _ ?y]) (cases x; auto simp: scan_width_def split: if_splits)
qed

lemma keeps_end_precision: "keeps_end (\<lambda>f. snd (scan_precision f))"
  unfolding keeps_end_def
proof (intro allI impI)
  fix x :: string assume x: "NUL \<notin> set x"
  have d: "\<not> is_digit NUL" by (simp add: is_digit_def)
  show "\<exists>y. NUL \<notin> set y \<and> length y \<le> length x \<and> (\<forall>m. snd (scan_precision (x @ NUL # m)) = y @ NUL # m)"
  proof (cases "\<exists>z. x = CHR ''.'' # z")
    case False
    then show ?thesis using x by (intro exI [of _ x]) (cases x; auto simp: scan_precision_def)
  next
    case True
    then obtain z where z: "x = CHR ''.'' # z" "NUL \<notin> set z" using x by auto
    let ?y = "case z of [] \<Rightarrow> [] | c # z' \<Rightarrow> if c = CHR ''*'' then z' else dropWhile is_digit z"
    show ?thesis
      using z d dropWhile_end [of is_digit z, OF d z(2)] dropWhile_le [of is_digit z]
      by (intro exI [of _ ?y]) (cases z; auto simp: scan_precision_def split: if_splits)
  qed
qed

lemma keeps_end_length: "keeps_end (\<lambda>f. snd (scan_length f))"
  unfolding keeps_end_def
proof (intro allI impI)
  fix x :: string assume x: "NUL \<notin> set x"
  let ?y = "butlast (snd (scan_length (x @ [NUL])))"
  show "\<exists>y. NUL \<notin> set y \<and> length y \<le> length x \<and> (\<forall>m. snd (scan_length (x @ NUL # m)) = y @ NUL # m)"
  proof (cases x)
    case Nil
    then show ?thesis by (auto simp: scan_length_def)
  next
    case (Cons c z)
    then show ?thesis using x by (intro exI [of _ ?y]) (cases z; auto simp: scan_length_def butlast_append)
  qed
qed

lemma keeps_end_specifier: "keeps_end scan_specifier"
  unfolding scan_specifier_def
  using keeps_end_comp [OF keeps_end_length keeps_end_comp [OF keeps_end_precision keeps_end_comp [OF keeps_end_width keeps_end_flags]]] .

lemma ends_inside_end: "NUL \<notin> set x \<Longrightarrow> ends_inside (x @ NUL # m) = ends_inside (x @ [NUL])"
proof (induction "length x" arbitrary: x rule: less_induct)
  case less
  show ?case
  proof (cases x)
    case Nil
    then show ?thesis by (simp add: ends_inside.simps)
  next
    case (Cons c z)
    then have z: "NUL \<notin> set z" "c \<noteq> NUL" using less.prems by auto
    obtain y where y: "NUL \<notin> set y" "length y \<le> length z" "\<And>m. scan_specifier (z @ NUL # m) = y @ NUL # m"
      using keeps_end_specifier z(1) unfolding keeps_end_def by metis
    have "ends_inside (tl y @ NUL # m) = ends_inside (tl y @ [NUL])"
      using less.hyps [of "tl y"] y(1,2) Cons by (cases y) auto
    moreover have "ends_inside (z @ NUL # m) = ends_inside (z @ [NUL])" using less.hyps [of z] z(1) Cons by simp
    ultimately show ?thesis
      using z(2) y(3) [of m] y(3) [of "[]"] unfolding Cons
      by (subst (1 2) ends_inside.simps) (cases y; simp)
  qed
qed

section \<open>The NUL is printed\<close>

lemma format_some_cases:
  assumes "format_chars (c # f) args n = Some (u, rest, ws)" and "c \<noteq> NUL"
  shows "(c \<noteq> CHR ''%'' \<and> (\<exists>u'. u = c # u' \<and> format_chars f args (n + 1) = Some (u', rest, ws))) \<or>
    (\<exists>v f' args' w args'' ws1 u' ws'. c = CHR ''%'' \<and> parse_conversion f args = Some (v, f', args') \<and> convert_chars v args' n = Some (w, args'', ws1) \<and>
       u = w @ u' \<and> format_chars f' args'' (n + of_nat (length w)) = Some (u', rest, ws'))"
  using assms by (subst (asm) format_chars.simps) (auto split: if_splits bind_splits)

lemma nul_printed:
  assumes "specifier v = NUL" and "convert_chars v args n = Some (w, args', ws)"
  shows "w = [NUL] \<and> args' = args"
  using assms by (simp add: convert_chars_def Let_def)

lemma ends_inside_goes_on:
  assumes "keeps_end scan_specifier"
  shows "NUL \<notin> set x \<Longrightarrow> ends_inside (x @ [NUL]) \<Longrightarrow> format_chars (x @ NUL # m) args n = Some (u, rest, ws) \<Longrightarrow>
    \<exists>w u' args' ws'. u = w @ NUL # u' \<and> format_chars m args' (n + of_nat (length w) + 1) = Some (u', rest, ws')"
proof (induction "length x" arbitrary: x args n u ws rule: less_induct)
  case less
  have "x \<noteq> []" using less.prems(2) by (auto simp: ends_inside.simps)
  then obtain c z where x: "x = c # z" by (cases x) auto
  then have z: "NUL \<notin> set z" "c \<noteq> NUL" using less.prems by auto
  have tr: "if c \<noteq> CHR ''%'' then ends_inside (z @ [NUL]) else (case scan_specifier (z @ [NUL]) of [] \<Rightarrow> False | d # f' \<Rightarrow> d = NUL \<or> ends_inside f')"
    using less.prems(2) z(2) unfolding x by (subst (asm) ends_inside.simps) simp
  have q: "format_chars (c # z @ NUL # m) args n = Some (u, rest, ws)" using less.prems(3) unfolding x by simp
  consider (plain) u' where "c \<noteq> CHR ''%''" "u = c # u'" "format_chars (z @ NUL # m) args (n + 1) = Some (u', rest, ws)"
    | (conv) v f' args' w args'' ws1 u' ws' where "c = CHR ''%''" "parse_conversion (z @ NUL # m) args = Some (v, f', args')"
        "convert_chars v args' n = Some (w, args'', ws1)" "u = w @ u'" "format_chars f' args'' (n + of_nat (length w)) = Some (u', rest, ws')"
    using format_some_cases [OF q z(2)] by blast
  then show ?case
  proof cases
    case plain
    obtain w u2 args' ws' where "u' = w @ NUL # u2" "format_chars m args' (n + 1 + of_nat (length w) + 1) = Some (u2, rest, ws')"
      using less.hyps [of z args "n + 1" u' ws] plain(1,3) tr z(1) x by auto
    then show ?thesis using plain(2) by (intro exI [of _ "c # w"] exI [of _ u2]) (auto simp: algebra_simps)
  next
    case conv
    obtain y where y: "NUL \<notin> set y" "length y \<le> length z" "\<And>m. scan_specifier (z @ NUL # m) = y @ NUL # m"
      using assms z(1) unfolding keeps_end_def by metis
    have s: "y @ NUL # m = specifier v # f'" using parse_conversion_rest [OF conv(2)] y(3) by simp
    show ?thesis
    proof (cases y)
      case Nil
      then have "specifier v = NUL" "f' = m" using s by simp_all
      with nul_printed [OF _ conv(3)] conv(4,5) show ?thesis by (intro exI [of _ "[]"] exI [of _ u'] exI [of _ args'] exI [of _ ws']) auto
    next
      case (Cons d y')
      then have f': "f' = y' @ NUL # m" "d \<noteq> NUL" using s y(1) by auto
      have "ends_inside (y' @ [NUL])" using tr conv(1) y(3) [of "[]"] f'(2) by (simp add: Cons)
      then obtain w2 u2 args2 ws2 where "u' = w2 @ NUL # u2" "format_chars m args2 (n + of_nat (length w) + of_nat (length w2) + 1) = Some (u2, rest, ws2)"
        using less.hyps [of y' args'' "n + of_nat (length w)" u' ws'] conv(5) y(1,2) x f'(1) Cons by auto
      then show ?thesis using conv(4) by (intro exI [of _ "w @ w2"] exI [of _ u2]) (auto simp: algebra_simps)
    qed
  qed
qed

end
