(* ===== verification/PrintfText.thy ===== *)
theory PrintfText
  imports PrintfSig
begin

text \<open>
  Formats evaluated: the decimal conversions print the numerals \<open>dec\<close> and \<open>dec_pad\<close> of the other theories, and \<open>format_simps\<close> takes a format apart.
\<close>

named_theorems format_simps \<open>the characters of a format, from its first conversion on\<close>

lemma digit_of_dec: "d < 10 \<Longrightarrow> digit_of u d = digit_char d"
  by (simp add: digit_of_def digit_char_def)

lemma base_digits_dec: "0 < n \<Longrightarrow> base_digits u 10 n = dec n"
proof (induction n rule: less_induct)
  case (less n)
  show ?case
  proof (cases "n < 10")
    case True
    then show ?thesis using less.prems by (subst base_digits_pos, simp_all, subst dec.simps) (simp add: digit_of_dec)
  next
    case False
    then have "base_digits u 10 (n div 10) = dec (n div 10)" by (intro less.IH) auto
    then show ?thesis
      using False less.prems by (subst base_digits_pos, simp_all, subst dec.simps) (simp add: digit_of_dec digit_char_def)
  qed
qed

lemma dec_0: "dec 0 = ''0''"
  by code_simp

lemma unat_widened [simp]: "unat (ucast (v :: u32) :: u64) = unat v"
proof -
  have "unat v < 2 ^ 64" using unsigned_less [of v, where 'a = nat] by simp
  then show ?thesis by (simp add: unsigned_ucast_eq take_bit_nat_eq_self)
qed

lemma std_digits_decimal: "\<not> has flags FLAGS_PRECISION \<Longrightarrow> \<not> has flags FLAGS_HASH \<Longrightarrow> std_digits n BASE_DECIMAL p flags = dec n"
proof (cases "n = 0")
  case False
  assume "\<not> has flags FLAGS_PRECISION" "\<not> has flags FLAGS_HASH"
  moreover have "dec n \<noteq> []" by (subst dec.simps) simp
  then have "1 - length (dec n) = 0" by (cases "dec n") simp_all
  ultimately show ?thesis using False by (simp add: std_digits_def BASE_DECIMAL_def base_digits_dec)
qed (simp add: std_digits_def dec_0)

lemma base_digits_short: "2 \<le> b \<Longrightarrow> n < b ^ k \<Longrightarrow> length (base_digits u b n) \<le> k"
proof (induction k arbitrary: n)
  case (Suc k)
  show ?case
  proof (cases "n = 0")
    case False
    have "n div b < b ^ k" using Suc.prems by (simp add: less_mult_imp_div_less mult.commute)
    then show ?thesis using Suc.IH Suc.prems(1) False by (simp add: base_digits_pos)
  qed simp
qed simp

lemma unat_less_64: "unat (v :: u64) < 2 ^ 64"
  using unsigned_less [of v, where 'a = nat] by simp

lemma decimal_short: "length (base_digits u (unat BASE_DECIMAL) (unat (v :: u64))) \<le> 29"
proof -
  have "unat v < 10 ^ 29" using unat_less_64 [of v] by simp
  then show ?thesis using base_digits_short [of 10 "unat v" 29] by (simp add: BASE_DECIMAL_def)
qed

lemma integer_chars_decimal:
  assumes "\<forall>k \<in> {1, 2, 3, 4, 11, 13}. \<not> has flags (flag_bit k)"
  shows "unat width \<le> 32 \<Longrightarrow> has flags FLAGS_ZEROPAD \<Longrightarrow> integer_chars v False BASE_DECIMAL 0 width flags = dec_pad (unat width) (unat v)"
    and "\<not> has flags FLAGS_ZEROPAD \<Longrightarrow> integer_chars v False BASE_DECIMAL 0 0 flags = dec (unat v)"
proof -
  have f: "\<not> has flags FLAGS_LEFT" "\<not> has flags FLAGS_PLUS" "\<not> has flags FLAGS_SPACE" "\<not> has flags FLAGS_HASH" "\<not> has flags FLAGS_PRECISION"
    "\<not> has flags FLAGS_POINTER"
    using assms by auto
  have std: "integer_chars v False BASE_DECIMAL 0 w flags = std_integer (unat v) False BASE_DECIMAL 0 (unat w) flags"
    if "has flags FLAGS_ZEROPAD \<longrightarrow> unat w \<le> 32" for w
    using f that by (subst integer_chars_std [OF _ decimal_short]) (simp_all add: integer_args_ok_def)
  have s: "std_sign False flags = []" "std_prefix (unat v) BASE_DECIMAL flags = []" "std_digits (unat v) BASE_DECIMAL 0 flags = dec (unat v)"
    using f by (simp_all add: std_sign_def std_prefix_def std_digits_decimal)
  show "unat width \<le> 32 \<Longrightarrow> has flags FLAGS_ZEROPAD \<Longrightarrow> integer_chars v False BASE_DECIMAL 0 width flags = dec_pad (unat width) (unat v)"
    using f by (simp add: std std_integer_def s dec_pad_def Let_def)
  show "\<not> has flags FLAGS_ZEROPAD \<Longrightarrow> integer_chars v False BASE_DECIMAL 0 0 flags = dec (unat v)"
    using f by (simp add: std std_integer_def s Let_def)
qed

section \<open>What the flags of a parsed conversion are\<close>

lemma parse_flags_plain: "parse_flags flags f = Some (flags', f') \<Longrightarrow> plain flags \<Longrightarrow> plain flags'"
proof (induction f arbitrary: flags)
  case (Cons c f)
  show ?case
  proof (cases "c \<in> set ''0-+ #''")
    case True
    obtain k where k: "k \<in> {0, 1, 2, 3, 4}" "parse_flags flags (c # f) = parse_flags (flags OR flag_bit k) f"
      using parse_flags_step [OF True] by blast
    then have "plain (flags OR flag_bit k)" by (intro plain_or Cons.prems(2)) blast
    then show ?thesis using Cons.IH Cons.prems(1) k(2) by simp
  next
    case False
    then show ?thesis using Cons.prems parse_flags_stop [OF False, of flags f] by simp
  qed
qed simp

lemma parse_width_plain: "parse_width flags f args = Some (w, flags', f', args') \<Longrightarrow> plain flags \<Longrightarrow> plain flags'"
  using plain_or [of 1 flags] by (cases f) (auto split: if_splits bind_splits simp del: atou.simps)

lemma parse_precision_plain:
  "parse_precision flags f args = Some (p, flags', f', args') \<Longrightarrow> plain flags \<Longrightarrow> plain flags' \<and> (has flags' FLAGS_PRECISION \<or> p = 0)"
  using plain_or [of 11 flags] by (cases f) (auto split: if_splits bind_splits list.splits simp del: atou.simps)

lemma parse_length_kept:
  "parse_length flags f = Some (flags', f') \<Longrightarrow> k \<in> {0, 1, 2, 3, 4, 5, 11, 12, 13, 14} \<Longrightarrow> has flags' (flag_bit k) = has flags (flag_bit k)"
  by (cases f) (auto split: if_splits list.splits)

lemma parsed_flags:
  assumes "parse_conversion f args = Some (v, f', args')"
  shows "\<forall>k \<in> {5, 12, 13, 14}. \<not> has (conv_flags v) (flag_bit k)" and "has (conv_flags v) FLAGS_PRECISION \<or> conv_precision v = 0"
proof -
  obtain fl0 f0 wd fl1 f1 a1 pr fl2 f2 a2 fl3 f3 where p: "parse_flags 0 f = Some (fl0, f0)" "parse_width fl0 f0 args = Some (wd, fl1, f1, a1)"
    "parse_precision fl1 f1 a1 = Some (pr, fl2, f2, a2)" "parse_length fl2 f2 = Some (fl3, f3)"
    "conv_flags v = fl3" "conv_precision v = pr"
    using assms unfolding parse_conversion_def by (auto split: bind_splits list.splits)
  have "plain fl2 \<and> (has fl2 FLAGS_PRECISION \<or> pr = 0)"
    by (rule parse_precision_plain [OF p(3) parse_width_plain [OF p(2) parse_flags_plain [OF p(1) plain_0]]])
  then show "\<forall>k \<in> {5, 12, 13, 14}. \<not> has (conv_flags v) (flag_bit k)" "has (conv_flags v) FLAGS_PRECISION \<or> conv_precision v = 0"
    using parse_length_kept [OF p(4)] unfolding p(5,6) plain_def by auto
qed

lemma integer_base_digits:
  assumes "c \<in> set ''diuxXob''" and "c = CHR ''b'' \<longrightarrow> unat (m :: u64) < 2 ^ 29"
  shows "length (base_digits u (unat (integer_base c)) (unat m)) \<le> 29"
proof -
  have "integer_base c = BASE_BINARY \<and> unat m < 2 ^ 29 \<or> integer_base c = BASE_OCTAL \<or> integer_base c = BASE_DECIMAL \<or> integer_base c = BASE_HEX"
    using assms by (auto simp: integer_base_def base_defs)
  moreover have "unat m < 8 ^ 29" "unat m < 10 ^ 29" "unat m < 16 ^ 29" using unat_less_64 [of m] by simp_all
  ultimately show ?thesis
    using base_digits_short [of 2 "unat m" 29 u] base_digits_short [of 8 "unat m" 29 u] base_digits_short [of 10 "unat m" 29 u]
      base_digits_short [of 16 "unat m" 29 u]
    by (auto simp: base_defs)
qed

section \<open>Formats\<close>

lemma format_nul [format_simps]: "format_chars (NUL # f) args n = Some ([], args, [])"
  by (subst format_chars.simps) simp

lemma format_plain [format_simps]:
  "c \<noteq> NUL \<Longrightarrow> c \<noteq> CHR ''%'' \<Longrightarrow> format_chars (c # f) args n = map_option (\<lambda>(w, r). (c # w, r)) (format_chars f args (n + 1))"
  by (subst format_chars.simps) simp

lemma format_conversion:
  "parse_conversion f args = Some (v, f', args') \<Longrightarrow> convert_chars v args' n = Some (w, args'', []) \<Longrightarrow>
    format_chars (CHR ''%'' # f) args n = map_option (\<lambda>(w', r). (w @ w', r)) (format_chars f' args'' (n + of_nat (length w)))"
  by (subst format_chars.simps) (simp add: split_def)

lemma format_string [format_simps]:
  assumes "NUL \<in> set p"
  shows "format_chars (CHR ''%'' # CHR ''s'' # f) (Str (Some p) # args) n =
    map_option (\<lambda>(w, r). (cstr p @ w, r)) (format_chars f args (n + of_nat (length (cstr p))))"
proof (rule format_conversion)
  show "parse_conversion (CHR ''s'' # f) (Str (Some p) # args) = 
    Some (\<lparr>specifier = CHR ''s'', conv_flags = 0, conv_width = 0, conv_precision = 0\<rparr>, f, Str (Some p) # args)"
    by (simp add: parse_conversion_def is_digit_def)
  show "convert_chars \<lparr>specifier = CHR ''s'', conv_flags = 0, conv_width = 0, conv_precision = 0\<rparr> (Str (Some p) # args) n = Some (cstr p, args, [])"
    using assms by (simp add: convert_chars_def Let_def string_chars_def field_def)
qed

lemma format_lu [format_simps]:
  "format_chars (CHR ''%'' # CHR ''l'' # CHR ''u'' # f) (Word v # args) n =
    map_option (\<lambda>(w, r). (dec (unat v) @ w, r)) (format_chars f args (n + of_nat (length (dec (unat v)))))"
proof (rule format_conversion)
  let ?v = "\<lparr>specifier = CHR ''u'', conv_flags = 0 OR FLAGS_LONG, conv_width = 0, conv_precision = 0\<rparr>"
  let ?f = "integer_flags (CHR ''u'') (0 OR FLAGS_LONG)"
  show "parse_conversion (CHR ''l'' # CHR ''u'' # f) (Word v # args) = Some (?v, f, Word v # args)"
    by (simp add: parse_conversion_def is_digit_def)
  have "\<forall>k \<in> {0, 1, 2, 3, 4, 11, 13}. \<not> has ?f (flag_bit k)" by (simp add: integer_flags_def Let_def integer_base_def base_defs)
  then have "integer_chars (ucast v) False BASE_DECIMAL 0 0 ?f = dec (unat v)"
    using integer_chars_decimal(2) [of ?f "ucast v"] by simp
  then show "convert_chars ?v (Word v # args) n = Some (dec (unat v), args, [])"
    by (simp add: convert_chars_def Let_def integer_operands_def unsigned_arg_def integer_base_def)
qed

lemma format_zero_padded [format_simps]:
  assumes "is_digit c" and "c \<noteq> CHR ''0''" and "unat v < 2 ^ 31"
  shows "format_chars (CHR ''%'' # CHR ''0'' # c # CHR ''d'' # f) (Word v # args) n =
    map_option (\<lambda>(w, r). (dec_pad (of_char c - 48) (unat v) @ w, r)) (format_chars f args (n + of_nat (length (dec_pad (of_char c - 48) (unat v)))))"
proof (rule format_conversion)
  let ?w = "of_nat (of_char c - 48) :: u32"
  let ?v = "\<lparr>specifier = CHR ''d'', conv_flags = 0 OR FLAGS_ZEROPAD, conv_width = ?w, conv_precision = 0\<rparr>"
  let ?f = "integer_flags (CHR ''d'') (0 OR FLAGS_ZEROPAD)"
  have c: "c \<noteq> CHR ''-''" "c \<noteq> CHR ''+''" "c \<noteq> CHR '' ''" "c \<noteq> CHR ''#''" using assms(1) by (auto simp: is_digit_def)
  show "parse_conversion (CHR ''0'' # c # CHR ''d'' # f) (Word v # args) = Some (?v, f, Word v # args)"
    using assms(1,2) c by (simp add: parse_conversion_def) (simp add: is_digit_def)
  have f: "\<forall>k \<in> {1, 2, 3, 4, 11, 13}. \<not> has ?f (flag_bit k)" "has ?f FLAGS_ZEROPAD"
    by (simp_all add: integer_flags_def Let_def integer_base_def base_defs)
  define k :: nat where "k = of_char c - 48"
  have k: "of_char c - 48 = k" "k < 10" using assms(1) by (simp_all add: is_digit_def k_def less_diff_conv2)
  have w: "unat ?w = of_char c - 48" "unat ?w \<le> 32" unfolding k(1) using k(2) by (simp_all add: unat_of_nat take_bit_nat_eq_self)
  have "uint v < 2 ^ 31" using of_nat_less_iff [where 'a = int, of "unat v" "2 ^ 31"] assms(3) by simp
  moreover have "- (2 ^ 31) \<le> uint v" by (rule order_trans [OF _ uint_ge_0]) simp
  ultimately have s: "sint v = int (unat v)" using signed_take_bit_int_eq_self [of 31 "uint v"] by (simp add: sint_uint)
  have "integer_chars (word_of_int (sint v)) False BASE_DECIMAL 0 ?w ?f = dec_pad (of_char c - 48) (unat v)"
    using integer_chars_decimal(1) [OF f(1) w(2) f(2), of "word_of_int (sint v)"] w(1) assms(3) by (simp add: s unat_of_nat take_bit_nat_eq_self)
  moreover have "uint v \<noteq> - 9223372036854775808" by (rule less_imp_neq [THEN not_sym], rule less_le_trans [OF _ uint_ge_0]) simp
  ultimately show "convert_chars ?v (Word v # args) n = Some (dec_pad (of_char c - 48) (unat v), args, [])"
    by (simp add: convert_chars_def Let_def integer_operands_def signed_arg_def integer_base_def abs_for_printing_def s)
qed

end
