(* ===== verification/PrintfReal.thy ===== *)
theory PrintfReal
  imports PrintfText
begin

text \<open>
  The arithmetic of the fixed point conversion: a double that is a decimal number of at most fifteen places is taken apart without an error, and its parts are
  written as the C standard says.
\<close>

section \<open>Exact operations\<close>

definition is_double :: "rat \<Rightarrow> bool" where
  "is_double x \<longleftrightarrow> (\<exists>k e. x = of_int k * 2 powi e \<and> \<bar>k\<bar> < 2 ^ 53 \<and> - 1074 \<le> e)"

lemma floor_log2_bounds:
  assumes "0 < x"
  shows "2 powi floor_log2 x \<le> x" and "x < 2 powi (floor_log2 x + 1)"
proof -
  obtain p q where pq: "quotient_of x = (p, q)" by fastforce
  have q: "0 < q" and xpq: "x = of_int p / of_int q" using quotient_of_denom_pos [OF pq] quotient_of_div [OF pq] by simp_all
  have p: "0 < p" using assms q unfolding xpq by (simp add: zero_less_divide_iff)
  define a b where "a = floorlog 2 (nat p)" and "b = floorlog 2 (nat q)"
  have "2 ^ (a - 1) \<le> p" "p < 2 ^ a" "2 ^ (b - 1) \<le> q" "q < 2 ^ b"
    using floorlog_bounds [of "nat p" 2] floorlog_bounds [of "nat q" 2] p q by (simp_all add: a_def b_def)
  then have "of_int (2 ^ (a - 1)) \<le> (of_int p :: rat)" "of_int p < (of_int (2 ^ a) :: rat)"
    "of_int (2 ^ (b - 1)) \<le> (of_int q :: rat)" "of_int q < (of_int (2 ^ b) :: rat)"
    by (simp_all only: of_int_le_iff of_int_less_iff)
  then have r: "2 ^ (a - 1) \<le> (of_int p :: rat)" "of_int p < (2 ^ a :: rat)" "2 ^ (b - 1) \<le> (of_int q :: rat)" "of_int q < (2 ^ b :: rat)"
    by simp_all
  have ab: "0 < a" "0 < b" using floorlog_eq_zero_iff [of 2 "nat p"] floorlog_eq_zero_iff [of 2 "nat q"] p q by (simp_all add: a_def b_def)
  have e: "int a - int b - 1 = int (a - 1) - int b" "int a - int b + 1 = int a - int (b - 1)" using ab by simp_all
  have "(2 :: rat) ^ (a - 1) / 2 ^ b \<le> x" unfolding xpq using r q p by (intro frac_le) simp_all
  then have lo: "2 powi (int a - int b - 1) \<le> x" unfolding e by (simp add: power_int_diff)
  have "x < (2 :: rat) ^ a / 2 ^ (b - 1)" unfolding xpq using r q p by (intro frac_less) simp_all
  then have hi: "x < 2 powi (int a - int b + 1)" unfolding e by (simp add: power_int_diff)
  show "2 powi floor_log2 x \<le> x" "x < 2 powi (floor_log2 x + 1)"
    using lo hi by (auto simp: floor_log2_def pq Let_def not_le simp flip: a_def b_def)
qed

lemma floor_log2_eq: "2 powi k \<le> x \<Longrightarrow> x < 2 powi (k + 1) \<Longrightarrow> floor_log2 x = k"
proof -
  assume k: "2 powi k \<le> x" "x < 2 powi (k + 1)"
  have "0 < (2 :: rat) powi k" by simp
  then have x: "0 < x" using k(1) by (rule less_le_trans)
  have "(2 :: rat) powi k < 2 powi (floor_log2 x + 1)" "(2 :: rat) powi floor_log2 x < 2 powi (k + 1)"
    using floor_log2_bounds [OF x] k by simp_all
  then have "k < floor_log2 x + 1" "floor_log2 x < k + 1"
    using power_int_increasing [of "floor_log2 x + 1" k "2 :: rat"] power_int_increasing [of "k + 1" "floor_log2 x" "2 :: rat"]
    by (meson leD leI one_le_numeral)+
  then show ?thesis by simp
qed

lemma round_half_even_int [simp]: "round_half_even (of_int n) = n"
  by (simp add: round_half_even_def)

lemma rounded_exact:
  assumes "is_double x"
  shows "rounded x = x"
proof (cases "x = 0")
  case False
  obtain k e where k: "x = of_int k * 2 powi e" "\<bar>k\<bar> < 2 ^ 53" "- 1074 \<le> e" using assms by (auto simp: is_double_def)
  define L u where "L = floor_log2 \<bar>x\<bar>" and "u = max (L - 52) (- 1074)"
  have ke: "\<bar>x\<bar> = of_int \<bar>k\<bar> * 2 powi e" by (simp add: k(1) abs_mult)
  have "of_int \<bar>k\<bar> < (of_int (2 ^ 53) :: rat)" using k(2) by (simp only: of_int_less_iff)
  then have "of_int \<bar>k\<bar> < (2 :: rat) powi 53" by simp
  then have "\<bar>x\<bar> < 2 powi 53 * 2 powi e" unfolding ke by (intro mult_strict_right_mono) simp_all
  also have "\<dots> = 2 powi (53 + e)" by (simp add: power_int_add)
  finally have "2 powi L < (2 :: rat) powi (53 + e)" using floor_log2_bounds(1) [of "\<bar>x\<bar>"] False by (simp add: L_def)
  then have "L < 53 + e" using power_int_increasing [of "53 + e" L "2 :: rat"] by (meson leD leI one_le_numeral)
  then have u: "u \<le> e" using k(3) by (simp add: u_def)
  then have "x / 2 powi u = of_int k * 2 powi (e - u)" by (simp add: k(1) power_int_diff)
  also have "\<dots> = of_int (k * 2 ^ nat (e - u))" using u by (simp add: power_int_def)
  finally have "of_int (round_half_even (x / 2 powi u)) = x / 2 powi u" by (simp only: round_half_even_int)
  then show ?thesis using False by (simp add: rounded_def Let_def flip: L_def u_def)
qed (simp add: rounded_def)

lemma is_double_int: "\<bar>k\<bar> < 2 ^ 53 \<Longrightarrow> is_double (of_int k)"
  unfolding is_double_def by (intro exI [of _ k] exI [of _ 0]) simp

lemma is_double_fraction:
  assumes "is_double m" and "0 \<le> m"
  shows "is_double (m - of_int \<lfloor>m\<rfloor>)"
proof -
  obtain k e where k: "m = of_int k * 2 powi e" "\<bar>k\<bar> < 2 ^ 53" "- 1074 \<le> e" using assms(1) by (auto simp: is_double_def)
  show ?thesis
  proof (cases "0 \<le> e")
    case True
    then have "m = of_int (k * 2 ^ nat e)" by (simp add: k(1) power_int_def)
    then show ?thesis using is_double_int [of 0] by (simp only: floor_of_int) simp
  next
    case False
    let ?j = "k - \<lfloor>m\<rfloor> * 2 ^ nat (- e)"
    have pw: "(2 :: rat) powi e * 2 ^ nat (- e) = 1" using False by (simp add: power_int_def power_divide)
    have pos: "0 < (2 :: rat) powi e" by simp
    have j: "m - of_int \<lfloor>m\<rfloor> = of_int ?j * 2 powi e" using pw by (simp add: k(1) algebra_simps)
    have fr: "0 \<le> m - of_int \<lfloor>m\<rfloor>" "m - of_int \<lfloor>m\<rfloor> \<le> m" using assms(2) by simp_all
    have "0 \<le> (of_int ?j :: rat)" using fr(1) pos unfolding j by (simp add: zero_le_mult_iff)
    moreover have "(of_int ?j :: rat) \<le> of_int k" using fr(2) pos unfolding j k(1) by (simp add: mult_le_cancel_right)
    ultimately have "0 \<le> ?j" "?j \<le> k" by (simp_all only: of_int_le_iff of_int_0_le_iff)
    then show ?thesis using k(2,3) unfolding is_double_def j by (intro exI [of _ ?j] exI [of _ e]) simp
  qed
qed

lemma fl_exact: "is_double x \<Longrightarrow> \<bar>x\<bar> < 2 ^ 1024 \<Longrightarrow> fl x = Some x"
  by (simp add: fl_def rounded_exact)

lemma to_int64_nat: "0 \<le> x \<Longrightarrow> x < 2 ^ 63 \<Longrightarrow> to_int64 x = Some \<lfloor>x\<rfloor>"
  by (simp add: to_int64_def truncated_def Let_def floor_less_iff le_floor_iff)

lemma get_components_exact:
  assumes m: "is_double m" "m = of_nat i + of_nat f / 10 ^ p" and f: "f < 10 ^ p" and p: "p \<le> 15" and i: "i < 2 ^ 53"
  shows "get_components negative m (of_nat p) = Some \<lparr>integral = int i, fractional = int f, is_negative = negative\<rparr>"
proof -
  have d1: "(of_nat f :: rat) / 10 ^ p < 1" "(0 :: rat) \<le> of_nat f / 10 ^ p"
    using f by (simp_all add: divide_less_eq)
  then have fl_m: "\<lfloor>m\<rfloor> = int i" unfolding m(2) by linarith
  have "(of_nat i :: rat) < of_nat (2 ^ 53)" using i by (simp only: of_nat_less_iff)
  moreover have "of_nat (2 ^ 53) = (2 :: rat) ^ 53" by simp
  moreover have "(2 :: rat) ^ 53 + 1 < 2 ^ 63" by simp
  ultimately have m0: "m < 2 ^ 63" using d1(1) unfolding m(2) by linarith
  have m1: "0 \<le> m" using d1(2) unfolding m(2) by (intro add_nonneg_nonneg) simp_all
  have "is_double (m - of_int \<lfloor>m\<rfloor>)" by (rule is_double_fraction [OF m(1) m1])
  then have d: "is_double (of_nat f / 10 ^ p)" unfolding fl_m by (simp add: m(2))
  have "(10 :: nat) ^ p \<le> 10 ^ 15" using p by (intro power_increasing) simp_all
  then have f15: "f < 2 ^ 53" using f by simp
  have dbl: "is_double (of_nat i)" "is_double (of_nat f)" using is_double_int [of "int i"] is_double_int [of "int f"] i f15 by simp_all
  have pw: "uint (of_nat p :: u32) = int p" using p by (simp add: unsigned_of_nat take_bit_nat_eq_self)
  have "(of_nat f :: rat) < of_nat (2 ^ 53)" using f15 by (simp only: of_nat_less_iff)
  then have fb: "(of_nat f :: rat) < 2 ^ 63" "(of_nat f :: rat) < 2 ^ 1024" by simp_all
  let ?d = "of_nat f / 10 ^ p :: rat"
  have z: "is_double 0" using is_double_int [of 0] by simp
  have "?d < 2 ^ 1024" by (rule less_le_trans [OF d1(1)]) simp
  then have b: "\<bar>?d\<bar> < 2 ^ 1024" using d1(2) by (simp only: abs_of_nonneg)
  have e: "to_int64 m = Some (int i)" "rounded (of_int (int i)) = of_nat i" "to_int64 (of_nat f) = Some (int f)" "rounded (of_int (int f)) = of_nat f"
    using m0 m1 fb fl_m to_int64_nat [of m] to_int64_nat [of "of_nat f"] rounded_exact [OF dbl(1)] rounded_exact [OF dbl(2)] by simp_all
  have e2: "fl (m - of_nat i) = Some ?d" using fl_exact [OF d b] by (simp add: m(2))
  have e4: "fl (?d * 10 ^ p) = Some (of_nat f)" using fl_exact [OF dbl(2)] fb(2) by simp
  have e6: "fl (of_nat f - of_nat f) = Some 0" using fl_exact [OF z] by simp
  have e3: "powers_of_10 (int p) = Some (10 ^ p)" using p by (simp add: powers_of_10_def NUM_DECIMAL_DIGITS_IN_INT64_T_def)
  have p0: "of_nat p = (0 :: u32) \<Longrightarrow> ?d = 0" using pw f by simp
  show ?thesis
    unfolding get_components_def pw e e3 bind.simps e2 e4 e6 using p0 by (simp add: e2 rounded_exact [OF dbl(1)])
qed

section \<open>Every number has components\<close>

lemma round_half_even_le: "\<bar>of_int (round_half_even x) - x\<bar> \<le> 1 / 2"
proof -
  have "of_int \<lfloor>x\<rfloor> \<le> x" "x < of_int \<lfloor>x\<rfloor> + 1" by linarith+
  then show ?thesis by (simp add: round_half_even_def Let_def)
qed

lemma rounded_bounds:
  shows "\<bar>rounded x\<bar> \<le> 2 * \<bar>x\<bar> + 1" and "0 \<le> x \<Longrightarrow> 0 \<le> rounded x"
proof -
  define L u where "L = floor_log2 \<bar>x\<bar>" and "u = max (L - 52) (- 1074)"
  let ?u = "2 powi u :: rat"
  have pos: "0 < ?u" by simp
  show "\<bar>rounded x\<bar> \<le> 2 * \<bar>x\<bar> + 1"
  proof (cases "x = 0")
    case False
    have "?u \<le> \<bar>x\<bar> + 1"
    proof (cases "L - 52 \<le> - 1074")
      case True
      then have "?u \<le> 2 powi 0" unfolding u_def by (intro power_int_increasing) simp_all
      then show ?thesis by simp
    next
      case False
      then have "?u \<le> 2 powi L" unfolding u_def by (intro power_int_increasing) simp_all
      then show ?thesis using floor_log2_bounds(1) [of "\<bar>x\<bar>"] \<open>x \<noteq> 0\<close> by (simp add: L_def)
    qed
    moreover have "rounded x - x = (of_int (round_half_even (x / ?u)) - x / ?u) * ?u"
      using False pos by (simp add: rounded_def Let_def algebra_simps flip: L_def u_def)
    then have "\<bar>rounded x - x\<bar> \<le> 1 / 2 * ?u"
      using round_half_even_le [of "x / ?u"] pos by (simp only: abs_mult) (simp add: mult_right_mono)
    ultimately show ?thesis by linarith
  qed (simp add: rounded_def)
  assume "0 \<le> x"
  then have "0 \<le> \<lfloor>x / ?u\<rfloor>" using pos by simp
  then have "0 \<le> round_half_even (x / ?u)" by (simp add: round_half_even_def Let_def)
  then show "0 \<le> rounded x" using pos by (simp add: rounded_def Let_def flip: L_def u_def)
qed

lemma fl_some: "\<bar>x\<bar> \<le> 10 ^ 20 \<Longrightarrow> fl x = Some (rounded x)"
proof -
  assume x: "\<bar>x\<bar> \<le> 10 ^ 20"
  have "(2 :: rat) * 10 ^ 20 + 1 < 2 ^ 1024" by simp
  with x rounded_bounds(1) [of x] show ?thesis unfolding fl_def Let_def by simp
qed

lemma get_components_total:
  assumes m: "is_double m" "0 \<le> m" "m \<le> 10 ^ 9" and p: "0 < unat p" "unat p \<le> 17"
  shows "\<exists>c. get_components negative m p = Some c"
proof -
  define i where "i = \<lfloor>m\<rfloor>"
  have i: "to_int64 m = Some i" using m to_int64_nat [of m] by (simp add: i_def)
  have "0 \<le> i" "i \<le> 10 ^ 9" using m(2,3) by (simp_all add: i_def floor_le_iff)
  then have ri: "rounded (of_int i) = of_int i" using rounded_exact [OF is_double_int [of i]] by simp
  define d where "d = m - of_int i"
  have d: "0 \<le> d" "d < 1" unfolding d_def i_def by linarith+
  have fd: "fl d = Some d" using is_double_fraction [OF m(1,2)] d by (intro fl_exact) (simp_all add: d_def i_def)
  let ?q = "10 ^ unat p :: rat"
  have "uint p = int (unat p)" by simp
  then have "uint p < 18" using p(2) by linarith
  then have pw: "powers_of_10 (uint p) = Some ?q" by (simp add: powers_of_10_def NUM_DECIMAL_DIGITS_IN_INT64_T_def flip: unat_eq_nat_uint)
  have "?q \<le> 10 ^ 17" using p(2) by (intro power_increasing) simp_all
  moreover have q0: "0 \<le> d * ?q" "d * ?q \<le> 1 * ?q" using d by (simp, intro mult_right_mono) simp_all
  ultimately have dq: "d * ?q \<le> 10 ^ 17" by linarith
  define r where "r = rounded (d * ?q)"
  have r: "0 \<le> r" "r \<le> 2 * 10 ^ 17 + 1" using rounded_bounds [of "d * ?q"] q0(1) dq by (simp_all add: r_def)
  have fr: "fl (d * ?q) = Some r" unfolding r_def using q0(1) dq by (intro fl_some) simp
  define f where "f = \<lfloor>r\<rfloor>"
  have f: "to_int64 r = Some f" using r to_int64_nat [of r] by (simp add: f_def)
  have "0 \<le> (of_int f :: rat)" "of_int f \<le> r" using r(1) by (simp_all add: f_def)
  then have "\<bar>r - rounded (of_int f)\<bar> \<le> 10 ^ 20" using rounded_bounds [of "of_int f"] r by simp
  then have fr2: "fl (r - rounded (of_int f)) = Some (rounded (r - rounded (of_int f)))" by (rule fl_some)
  have "p \<noteq> 0" using p(1) by auto
  then show ?thesis
    unfolding get_components_def i bind.simps ri pw d_def [symmetric] fd fr f fr2 by (simp split: prod.splits)
qed

section \<open>The text\<close>

definition std_fixed :: "bool \<Rightarrow> nat \<Rightarrow> nat \<Rightarrow> nat \<Rightarrow> nat \<Rightarrow> u32 \<Rightarrow> string" where
  \<comment> \<open>the number \<open>i + f / 10 ^ p\<close> with \<open>p\<close> places\<close>
  "std_fixed negative i f p width flags =
     (let sgn = std_sign negative flags;
          body = dec i @ (if p \<noteq> 0 then ''.'' @ dec_pad p f else if has flags FLAGS_HASH then ''.'' else []);
          fill = width - length (sgn @ body)
      in if has flags FLAGS_LEFT then sgn @ body @ replicate fill CHR '' ''
         else if has flags FLAGS_ZEROPAD then sgn @ replicate fill CHR ''0'' @ body
         else replicate fill CHR '' '' @ sgn @ body)"

lemma decimal_digits_eq:
  "length buf + length (dec n) \<le> 32 \<Longrightarrow> decimal_digits (int n) buf = buf @ rev (dec n)"
proof (induction n arbitrary: buf rule: less_induct)
  case (less n)
  have c: "char_of (48 + int n smod 10) = digit_char n" "int n sdiv 10 = int (n div 10)"
  proof -
    have "int n smod 10 = int (n mod 10)" by (simp add: signed_modulo_int_def sgn_if zmod_int)
    moreover have "char_of (48 + int (n mod 10)) = (char_of (48 + n mod 10) :: char)"
      using char_of_nat [where 'a = int, of "48 + n mod 10"] by simp
    ultimately show "char_of (48 + int n smod 10) = digit_char n" by (simp add: digit_char_def)
    show "int n sdiv 10 = int (n div 10)" by (simp add: signed_divide_int_def sgn_if zdiv_int)
  qed
  have l: "length buf < 32" using less.prems by (subst (asm) dec.simps) (auto split: if_splits)
  show ?case
  proof (cases "n < 10")
    case True
    then show ?thesis using l by (subst decimal_digits.simps, subst dec.simps) (simp add: c Let_def INTEGER_BUFFER_SIZE_def)
  next
    case False
    have d: "dec n = dec (n div 10) @ [digit_char n]" using False by (subst dec.simps) simp
    have "decimal_digits (int (n div 10)) (buf @ [digit_char n]) = (buf @ [digit_char n]) @ rev (dec (n div 10))"
      using less.prems False unfolding d by (intro less.IH) simp_all
    then show ?thesis using False l unfolding d by (subst decimal_digits.simps) (simp add: c Let_def INTEGER_BUFFER_SIZE_def)
  qed
qed

lemma fractional_text_eq:
  assumes "\<not> has flags FLAGS_ADAPT_EXP" and "f < 10 ^ unat p" and "unat p \<le> 30"
  shows "fractional_text (int f) p flags [] =
    rev (if p \<noteq> 0 then ''.'' @ dec_pad (unat p) f else if has flags FLAGS_HASH then ''.'' else [])"
proof (cases "p = 0")
  case False
  then have p0: "0 < unat p" by (simp add: unat_gt_0)
  have l: "length (dec f) \<le> unat p" using length_dec_le [of f "unat p - 1"] assms(2) p0 by simp
  have d: "decimal_digits (int f) [] = rev (dec f)" using decimal_digits_eq [of "[]" f] l assms(3) by simp
  have c: "unat (p - of_nat (length (dec f))) = unat p - length (dec f)"
  proof -
    have "length (dec f) < 2 ^ 32" using l assms(3) by simp
    then have u: "unat (of_nat (length (dec f)) :: u32) = length (dec f)" by (simp add: unat_of_nat take_bit_nat_eq_self)
    then show ?thesis using l by (simp add: unat_sub word_le_nat_alt)
  qed
  have "pad_zeros (unat p) (rev (dec f)) = rev (dec_pad (unat p) f)"
    using l assms(3) by (simp add: pad_zeros_eq dec_pad_def Let_def)
  moreover have "length (dec_pad (unat p) f) = unat p" using length_dec_pad assms(2) p0 by blast
  ultimately show ?thesis
    using False assms(1,3) l by (simp add: fractional_text_def Let_def d c push_def INTEGER_BUFFER_SIZE_def)
qed (simp add: fractional_text_def push_def INTEGER_BUFFER_SIZE_def)

lemma broken_up_std:
  assumes "\<not> has flags FLAGS_ADAPT_EXP" and "f < 10 ^ unat p" and len: "length (dec i) + unat p \<le> 30"
    and w: "has flags FLAGS_ZEROPAD \<Longrightarrow> \<not> has flags FLAGS_LEFT \<Longrightarrow> unat width \<le> 32"
  shows "broken_up_chars \<lparr>integral = int i, fractional = int f, is_negative = negative\<rparr> p width flags [] = std_fixed negative i f (unat p) (unat width) flags"
proof -
  define frac where "frac = (if p \<noteq> 0 then ''.'' @ dec_pad (unat p) f else if has flags FLAGS_HASH then ''.'' else [])"
  define b where "b = dec i @ frac"
  define sg where "sg = std_sign negative flags"
  have "length frac \<le> unat p + 1" using length_dec_pad [of f "unat p"] assms(2) by (auto simp: frac_def unat_gt_0)
  then have t: "decimal_digits (int i) (fractional_text (int f) p flags []) = rev b" and b: "length b \<le> 31"
    using fractional_text_eq [OF assms(1,2)] decimal_digits_eq [of "rev frac" i] len by (simp_all add: b_def flip: frac_def)
  have p0: "unat p \<noteq> 0 \<longleftrightarrow> p \<noteq> 0" by (simp add: unat_eq_0)
  have std: "std_fixed negative i f (unat p) (unat width) flags =
      (let fill = unat width - length (sg @ b)
       in if has flags FLAGS_LEFT then sg @ b @ replicate fill CHR '' ''
          else if has flags FLAGS_ZEROPAD then sg @ replicate fill CHR ''0'' @ b else replicate fill CHR '' '' @ sg @ b)"
    unfolding std_fixed_def b_def frac_def sg_def p0 Let_def ..
  have sl: "length sg = (if negative \<or> has flags (FLAGS_PLUS OR FLAGS_SPACE) then 1 else 0)" by (simp add: sg_def std_sign_def has_or)
  note bt = broken_up_text_def [of "\<lparr>integral = int i, fractional = int f, is_negative = negative\<rparr>" p width flags "[]",
    unfolded double_components.simps t Let_def]
  show ?thesis
  proof (cases "\<not> has flags FLAGS_LEFT \<and> has flags FLAGS_ZEROPAD")
    case False
    have "broken_up_text \<lparr>integral = int i, fractional = int f, is_negative = negative\<rparr> p width flags [] = (rev (sg @ b), width)"
      unfolding bt if_not_P [OF False] using b number_sign_eq [of "rev b" negative flags] by (simp add: sg_def)
    then show ?thesis unfolding broken_up_chars_def std Let_def using False by (auto simp: padded_def)
  next
    case True
    let ?sgn = "negative \<or> has flags (FLAGS_PLUS OR FLAGS_SPACE)"
    define w' where "w' = (if width \<noteq> 0 \<and> ?sgn then width - 1 else width)"
    have w': "unat w' = (if ?sgn then unat width - 1 else unat width)" by (cases "width = 0") (simp_all add: w'_def unat_minus_one)
    have w32: "unat width \<le> 32" using w True by blast
    define z where "z = replicate (unat w' - length b) CHR ''0'' @ b"
    have "unat w' \<le> 32" unfolding w' using w32 by (auto intro: order_trans [OF diff_le_self])
    then have pz: "pad_zeros (unat w') (rev b) = rev z" using b by (simp add: pad_zeros_eq z_def min_absorb1)
    have "number_sign negative flags (rev z) = rev (sg @ z)"
    proof (cases ?sgn)
      case True
      then have "length (rev z) < 32" using b w32 w' by (auto simp: z_def)
      then show ?thesis by (simp add: number_sign_eq sg_def)
    next
      case False
      then show ?thesis by (simp add: number_sign_def sg_def std_sign_def has_or)
    qed
    then have "broken_up_text \<lparr>integral = int i, fractional = int f, is_negative = negative\<rparr> p width flags [] = (rev (sg @ z), w')"
      unfolding bt if_P [OF True] w'_def [symmetric] by (simp add: pz)
    moreover have "unat w' - length b = unat width - length (sg @ b)" using w' sl by auto
    ultimately show ?thesis unfolding broken_up_chars_def std Let_def using True by (simp add: padded_def z_def)
  qed
qed

end
