(* ===== verification/FtpPrint.thy ===== *)
theory FtpPrint
  imports PrintfText FtpXfer
begin

text \<open>
  The calls of \<open>snprintf_\<close> in \<open>ftp_server.c\<close> that print time stamps and the lines of a listing, and the characters they print.
\<close>

definition date_call :: "u16 \<Rightarrow> u16 \<Rightarrow> string \<times> arg list" where
  \<comment> \<open>the call in \<open>data_time_to_str\<close>\<close>
  "date_call date time =
     (''%04d%02d%02d%02d%02d%02d'' @ [NUL],
      [Word (ucast (drop_bit 9 (date AND 0xFE00)) + 1980), Word (ucast (drop_bit 5 (date AND 0x01E0))), Word (ucast (date AND 0x001F)),
       Word (ucast (drop_bit 11 (time AND 0xF800))), Word (ucast (drop_bit 5 (time AND 0x07E0))), Word (ucast (push_bit 1 (time AND 0x001F)))])"

definition list_call :: "sess \<Rightarrow> string \<Rightarrow> string \<times> arg list" where
  \<comment> \<open>the calls in \<open>ftp_cmd_list\<close>, with the memory that holds the name of the entry\<close>
  "list_call s name =
     (if command s \<noteq> ''LIST'' then (''%s'' @ crlf @ [NUL], [Str (Some name)])
      else if is_dir (finfo s) then (''+/,'' @ [CHR 0x09] @ ''%s'' @ crlf @ [NUL], [Str (Some name)])
      else (''+r,s%lu,'' @ [CHR 0x09] @ ''%s'' @ crlf @ [NUL], [Word (fsize (finfo s)), Str (Some name)]))"

definition mlsd_call :: "sess \<Rightarrow> string \<Rightarrow> string \<Rightarrow> string \<times> arg list" where
  \<comment> \<open>the calls in \<open>ftp_cmd_mlsd\<close>, with the memory of \<open>date_str\<close> too\<close>
  "mlsd_call s date_str name =
     (let kind = Str (Some ((if is_dir (finfo s) then ''dir'' else ''file'') @ [NUL]))
      in if fdate (finfo s) \<noteq> 0
         then (''Type=%s;Size=%lu;Modify=%s; %s'' @ crlf @ [NUL], [kind, Word (fsize (finfo s)), Str (Some date_str), Str (Some name)])
         else (''Type=%s;Size=%lu; %s'' @ crlf @ [NUL], [kind, Word (fsize (finfo s)), Str (Some name)]))"

definition printed :: "string \<Rightarrow> u32 \<Rightarrow> string \<times> arg list \<Rightarrow> string option" where
  \<comment> \<open>the C string in the buffer after \<open>snprintf_\<close>\<close>
  "printed b n call =
     (case snprintf (Some b) n (fst call) (snd call) of
        Some (ret, Memory m, ws) \<Rightarrow> Some (cstr m)
      | _ \<Rightarrow> None)"

lemma cstr_printed_into: "NUL \<notin> set w \<Longrightarrow> 0 < n \<Longrightarrow> cstr (printed_into b n w) = take (n - 1) w"
  by (auto simp: printed_into_def intro!: cstr_append_nul dest: in_set_takeD)

lemma printed_chars:
  assumes "format_chars (fst call) (snd call) 0 = Some (w, rest, ws)" and "unat n \<le> length b" and "0 < unat n" and "unat n < 2 ^ 31"
    and "NUL \<notin> set w" and "length w < 2 ^ 32"
  shows "printed b n call = Some (take (unat n - 1) w)"
proof -
  have "usable n = unat n" using assms(4) by (simp add: usable_def)
  then show ?thesis
    using vsnprintf_buffer [OF assms(1,2,6)] cstr_printed_into [OF assms(5,3)] by (simp add: printed_def snprintf_def)
qed

lemma dec_no_nul [simp]: "NUL \<notin> set (dec n)" "NUL \<notin> set (dec_pad k n)"
  using dec_digits [of n] dec_pad_digits [of k n] isdigit_not_nul by blast+

lemma dec_short: "length (dec (unat (v :: u32))) \<le> 10"
  using length_dec_le [of "unat v" 9] unsigned_less [of v, where 'a = nat] by simp

lemma date_chars: "format_chars (fst (date_call date time)) (snd (date_call date time)) 0 = Some (data_time_to_str date time, [], [])"
proof -
  note f = unat_field_less [of date] unat_field_less [of time]
  have w: "unat (ucast (v :: u16) :: u32) = unat v" for v
    using unsigned_less [of v, where 'a = nat] by (simp add: unsigned_ucast_eq take_bit_nat_eq_self)
  have y: "unat (ucast (v :: u16) + 1980 :: u32) = unat v + 1980" for v
    using unsigned_less [of v, where 'a = nat] w [of v] by (simp add: unat_word_ariths take_bit_nat_eq_self)
  show ?thesis using f by (simp add: date_call_def format_simps is_digit_def w y data_time_to_str_def)
qed

lemma list_chars:
  assumes "NUL \<in> set name" and "cstr name = entry_name s"
  shows "\<exists>w. format_chars (fst (list_call s name)) (snd (list_call s name)) 0 = Some (w, [], []) \<and> NUL \<notin> set w \<and>
    length w \<le> length (entry_name s) + 20 \<and> take (FTP_BUF_SIZE - 1) w = list_line s"
  using assms dec_short [of "fsize (finfo s)"] cstr_no_nul [of name]
  by (auto simp: list_call_def format_simps list_line_def crlf_def)

lemma mlsd_chars:
  assumes "NUL \<in> set name" and "cstr name = entry_name s" and "NUL \<in> set d" and "cstr d = data_time_to_str (fdate (finfo s)) (ftime (finfo s))"
  shows "\<exists>w. format_chars (fst (mlsd_call s d name)) (snd (mlsd_call s d name)) 0 = Some (w, [], []) \<and> NUL \<notin> set w \<and>
    length w \<le> length (entry_name s) + 70 \<and> take (FTP_BUF_SIZE - 1) w = mlsd_line s"
proof -
  have "NUL \<notin> set (data_time_to_str (fdate (finfo s)) (ftime (finfo s)))" using cstr_no_nul [of d] assms(4) by simp
  moreover have "cstr (''dir'' @ [NUL]) = ''dir''" "cstr (''file'' @ [NUL]) = ''file''" by (simp_all add: cstr_def)
  ultimately show ?thesis
    using assms dec_short [of "fsize (finfo s)"] cstr_no_nul [of name] length_data_time_to_str [of "fdate (finfo s)" "ftime (finfo s)"]
    by (auto simp: mlsd_call_def Let_def format_simps mlsd_line_def crlf_def)
qed

end
