(* ===== verification/DiagPrint.thy ===== *)
theory DiagPrint
  imports PrintfSpec DiagLog
begin

text \<open>
  \<open>diag.cpp\<close> with its formats: \<open>carbon_diag_push\<close> passes over the format twice, once to count and once to push. For the second pass it uses
  the \<open>va_list\<close> after \<open>va_end\<close>, without another \<open>va_start\<close>; C leaves open what it then yields, so that this is a parameter of the model. With
  gcc for ARM, where \<open>va_end\<close> does nothing and a \<open>va_list\<close> is a pointer passed by value, it yields the same arguments.
  Also \<open>carbon_raw_diag_print\<close> prints
  to the UART at once.
\<close>

definition fifo_output :: "('m, u8 list) inserter \<Rightarrow> char \<Rightarrow> context_push \<times> 'm fifo \<Rightarrow> context_push \<times> 'm fifo" where
  "fifo_output ins character arg = (case arg of (c, f) \<Rightarrow> case context_push_one ins [of_char character] c f of (_, c, f) \<Rightarrow> (c, f))"

definition carbon_diag_push_format :: "(arg list \<Rightarrow> arg list) \<Rightarrow> ('m, u8 list) inserter \<Rightarrow> string \<Rightarrow> arg list \<Rightarrow> 'm fifo \<Rightarrow>
    (bool \<times> 'm fifo) option" where
  \<comment> \<open>\<open>carbon_diag_push\<close> with its format; \<open>reread\<close> is what the \<open>va_list\<close> yields the second time, after \<open>va_end\<close>\<close>
  "carbon_diag_push_format reread ins format args f =
     do {
       (len, _, _, _) \<leftarrow> vsnprintf None 0 format args;
       let (c, f) = context_push_begin (unat len) f;
       if isOverflow c then Some (False, context_push_end c f)
       else do {
         (_, s, _, _) \<leftarrow> vfctprintf (fifo_output ins) (c, f) format (reread args);
         case s of Function _ (c, f) \<Rightarrow> Some (True, context_push_end c f) | _ \<Rightarrow> None
       }
     }"

abbreviation objects :: "string \<Rightarrow> u8 list list" where
  "objects \<equiv> map (\<lambda>c. [of_char c])"

lemma fold_fifo_output: "fold (fifo_output ins) w (c, f) = diag_output ins (objects w) c f"
proof (induction w arbitrary: c f)
  case (Cons x w)
  obtain ok c1 f1 where o: "context_push_one ins [of_char x] c f = (ok, c1, f1)" by (metis prod_cases3)
  then have "fifo_output ins x (c, f) = (c1, f1)" by (simp add: fifo_output_def)
  then show ?case using Cons.IH [of c1 f1] o by simp
qed simp

lemma push_format:
  assumes "format_chars format args 0 = Some (w, rest, ws)" and "length w < 2 ^ 31" and "reread args = args"
  shows "carbon_diag_push_format reread ins format args f = Some (carbon_diag_push ins (objects w) f)"
proof -
  have "unat (of_nat (length w) :: u32) = length w" using assms(2) by (simp add: unat_of_nat take_bit_nat_eq_self)
  then show ?thesis
    using vsnprintf_null [OF assms(1), of 0]
    by (auto simp: carbon_diag_push_format_def carbon_diag_push_def vfctprintf_chars [OF assms(1,2)] assms(3) fold_fifo_output split: prod.splits)
qed

fun push_formats :: "(arg list \<Rightarrow> arg list) \<Rightarrow> ('m, u8 list) inserter \<Rightarrow> (string \<times> arg list) list \<Rightarrow> 'm fifo \<Rightarrow> 'm fifo option" where
  \<comment> \<open>calls of \<open>carbon_diag_push\<close> one after the other, accepted or not\<close>
  "push_formats reread ins [] f = Some f"
| "push_formats reread ins ((format, args) # calls) f =
     do { (_, f) \<leftarrow> carbon_diag_push_format reread ins format args f; push_formats reread ins calls f }"

fun fitting :: "nat \<Rightarrow> string list \<Rightarrow> string list" where
  \<comment> \<open>the messages that are accepted one after the other while there is room for so many characters\<close>
  "fitting room [] = []"
| "fitting room (w # ws) = (if length w \<le> room then w # fitting (room - length w) ws else fitting room ws)"

fun prints :: "string \<times> arg list \<Rightarrow> string \<Rightarrow> bool" where
  "prints (format, args) w \<longleftrightarrow> (case format_chars format args 0 of Some (w', rest, ws) \<Rightarrow> w' = w | None \<Rightarrow> False)"

text \<open>The lock around the call and the UART itself are not modelled; \<open>w\<close> is what \<open>putchar_\<close> acts on.\<close>

definition carbon_raw_diag_print :: "(char \<Rightarrow> 'w \<Rightarrow> 'w) \<Rightarrow> string \<Rightarrow> arg list \<Rightarrow> 'w \<Rightarrow> 'w option" where
  "carbon_raw_diag_print putchar_via format args w =
     do {
       (_, s, _, _) \<leftarrow> vprintf putchar_via w format args;
       w \<leftarrow> (case s of Function _ w \<Rightarrow> Some w | _ \<Rightarrow> None);
       (_, s, _) \<leftarrow> printf putchar_via w [CR, LF, NUL] [];
       case s of Function _ w \<Rightarrow> Some w | _ \<Rightarrow> None
     }"

lemma raw_print:
  assumes "format_chars format args 0 = Some (v, rest, ws)" and "length v < 2 ^ 31"
  shows "carbon_raw_diag_print out format args w = Some (fold out (v @ crlf) w)"
proof -
  have nl: "format_chars [CR, LF, NUL] [] 0 = Some (crlf, [], [])"
    by (subst format_chars.simps, simp, subst format_chars.simps, simp, subst format_chars.simps, simp add: crlf_def)
  have "vprintf out w format args = Some (of_nat (length v), Function out (fold out v w), rest, ws)"
    using vfctprintf_chars [OF assms, of out w] by (simp add: vprintf_def vfctprintf_def)
  moreover have "vprintf out w' [CR, LF, NUL] [] = Some (of_nat (length crlf), Function out (fold out crlf w'), [], [])" for w'
    using vfctprintf_chars [OF nl, of out w'] by (simp add: vprintf_def vfctprintf_def crlf_def)
  ultimately show ?thesis by (simp add: carbon_raw_diag_print_def printf_def)
qed

end
