(* ===== verification/PrintfClaims.thy ===== *)
theory PrintfClaims
  imports FtpPrint DiagPrint PrintfTrunc FifoClaims FtpDemo
begin

text \<open>
  The properties of the printing library, and of the components that print with it: the FTP server and the log.
\<close>

section \<open>The listings of the FTP server\<close>

text \<open>C14: The model of the FTP server gives the lines of its listings and its time stamps as strings; they are what the calls of \<open>snprintf_\<close> in the
  source leave in their buffers: the time stamp in 25 bytes, each line of \<open>LIST\<close>, \<open>NLST\<close> and \<open>MLSD\<close> in \<open>FTP_BUF_SIZE\<close> bytes,
  cut off where the buffer ends.\<close>

theorem listings_are_printed:
  assumes "NUL \<in> set name" and "cstr name = entry_name s" and "length (entry_name s) < 2 ^ 31" and "length b = FTP_BUF_SIZE"
    and "25 \<le> length d" and "NUL \<in> set d'" and "cstr d' = data_time_to_str (fdate (finfo s)) (ftime (finfo s))"
  shows "printed d 25 (date_call (fdate (finfo s)) (ftime (finfo s))) = Some (data_time_to_str (fdate (finfo s)) (ftime (finfo s))) \<and>
    printed b (of_nat FTP_BUF_SIZE) (list_call s name) = Some (list_line s) \<and>
    printed b (of_nat FTP_BUF_SIZE) (mlsd_call s d' name) = Some (mlsd_line s)"
proof -
  have n: "unat (of_nat FTP_BUF_SIZE :: u32) = FTP_BUF_SIZE" "0 < FTP_BUF_SIZE" "FTP_BUF_SIZE < 2 ^ 31" by (simp_all add: FTP_BUF_SIZE_def)
  obtain w where w: "format_chars (fst (list_call s name)) (snd (list_call s name)) 0 = Some (w, [], [])" "NUL \<notin> set w"
    "length w \<le> length (entry_name s) + 20" "take (FTP_BUF_SIZE - 1) w = list_line s"
    using list_chars [OF assms(1,2)] by blast
  obtain v where v: "format_chars (fst (mlsd_call s d' name)) (snd (mlsd_call s d' name)) 0 = Some (v, [], [])" "NUL \<notin> set v"
    "length v \<le> length (entry_name s) + 70" "take (FTP_BUF_SIZE - 1) v = mlsd_line s"
    using mlsd_chars [OF assms(1,2,6,7)] by blast
  let ?t = "data_time_to_str (fdate (finfo s)) (ftime (finfo s))"
  have t: "NUL \<notin> set ?t" "length ?t = 14" using cstr_no_nul [of d'] assms(7) by (simp_all add: length_data_time_to_str)
  have "printed d 25 (date_call (fdate (finfo s)) (ftime (finfo s))) = Some (take (unat (25 :: u32) - 1) ?t)"
    using t assms(5) by (intro printed_chars [OF date_chars]) simp_all
  moreover have "printed b (of_nat FTP_BUF_SIZE) (list_call s name) = Some (take (unat (of_nat FTP_BUF_SIZE :: u32) - 1) w)"
    using w assms(3,4) n by (intro printed_chars [OF w(1)]) simp_all
  moreover have "printed b (of_nat FTP_BUF_SIZE) (mlsd_call s d' name) = Some (take (unat (of_nat FTP_BUF_SIZE :: u32) - 1) v)"
    using v assms(3,4) n by (intro printed_chars [OF v(1)]) simp_all
  ultimately show ?thesis using t(2) w(4) v(4) unfolding n(1) by simp
qed

lemma listings_are_printed_witness:
  "printed (replicate FTP_BUF_SIZE NUL) (of_nat FTP_BUF_SIZE) (list_call ((sess0 [])\<lparr>command := ''LIST'', lfn := ''a.txt''\<rparr>) (''a.txt'' @ [NUL])) =
    Some (list_line ((sess0 [])\<lparr>command := ''LIST'', lfn := ''a.txt''\<rparr>))"
proof -
  let ?s = "(sess0 [])\<lparr>command := ''LIST'', lfn := ''a.txt''\<rparr>"
  let ?t = "data_time_to_str (fdate (finfo ?s)) (ftime (finfo ?s))"
  have n: "NUL \<notin> set (''a.txt'')" "NUL \<notin> set ?t" by (simp_all add: data_time_to_str_def)
  have "cstr (''a.txt'' @ [NUL]) = entry_name ?s" "cstr (?t @ [NUL]) = ?t"
    using cstr_append_nul [OF n(1), of "[]"] cstr_append_nul [OF n(2), of "[]"] by (simp_all add: entry_name_def)
  then show ?thesis
    using listings_are_printed [of "''a.txt'' @ [NUL]" ?s "replicate FTP_BUF_SIZE NUL" "replicate 25 NUL" "?t @ [NUL]"] by (simp add: entry_name_def)
qed

section \<open>The functions of the library\<close>

lemma sound_gadgets:
  "unat n \<le> length b \<Longrightarrow> sound (buffer_gadget (Some b) n)" "sound (buffer_gadget None n)" "sound (function_gadget out x)"
  "pos (buffer_gadget s n) = 0" "pos (function_gadget out x) = 0"
  by (auto simp: sound_def buffer_gadget_def discarding_gadget_def function_gadget_def word_less_nat_alt split: option.splits)

text \<open>C11: \<open>snprintf_\<close> with a buffer and without one, \<open>fctprintf\<close> and \<open>printf_\<close> print the same characters, those of \<open>format_chars\<close>, and return their number,
  as long as it is less than \<open>2 ^ 31\<close>. A buffer holds as many of them as have room before a NUL, and its memory is changed nowhere else; without a buffer they are only
  counted; a function is called with each of them in order. Where the behaviour of the call is not defined, it is not defined for any of the four.\<close>

theorem snprintf_contract:
  assumes "unat n \<le> length b"
  shows "case format_chars fmt args 0 of
      None \<Rightarrow> snprintf (Some b) n fmt args = None \<and> snprintf None n fmt args = None \<and> fctprintf out x fmt args = None \<and> printf out x fmt args = None
    | Some (w, rest, ws) \<Rightarrow> length w < 2 ^ 31 \<longrightarrow>
        snprintf (Some b) n fmt args = Some (of_nat (length w), Memory (printed_into b (usable n) w), ws) \<and>
        snprintf None n fmt args = Some (of_nat (length w), No_sink, ws) \<and>
        fctprintf out x fmt args = Some (of_nat (length w), Function out (fold out w x), ws) \<and>
        printf out x fmt args = Some (of_nat (length w), Function out (fold out w x), ws)"
proof (cases "format_chars fmt args 0")
  case None
  then show ?thesis
    using assms by (simp add: snprintf_def fctprintf_def printf_def vsnprintf_def vfctprintf_def vprintf_def vsnprintf_internal_chars sound_gadgets)
next
  case (Some r)
  obtain w rest ws where r: "r = (w, rest, ws)" by (metis prod_cases3)
  show ?thesis
    using vsnprintf_buffer [OF Some [unfolded r] assms] vsnprintf_null [OF Some [unfolded r]] vfctprintf_chars [OF Some [unfolded r], of out x]
    by (simp add: Some r snprintf_def fctprintf_def printf_def vfctprintf_def vprintf_def)
qed

lemma snprintf_contract_witness:
  "snprintf (Some ''?????'') 4 (''%s-%lu'' @ [NUL]) [Str (Some (''ab'' @ [NUL])), Word 70] = Some (5, Memory (''ab-'' @ [NUL] @ ''?''), [])"
proof -
  have "cstr (''ab'' @ [NUL]) = ''ab''" by (simp add: cstr_def)
  moreover have "dec 70 = ''70''" by code_simp
  ultimately have "format_chars (''%s-%lu'' @ [NUL]) [Str (Some (''ab'' @ [NUL])), Word 70] 0 = Some (''ab-70'', [], [])"
    by (simp add: format_simps)
  then show ?thesis
    using snprintf_contract [of 4 "''?????''" "''%s-%lu'' @ [NUL]" "[Str (Some (''ab'' @ [NUL])), Word 70]" "\<lambda>c s. c # s" "[]"]
    by (simp add: usable_def printed_into_def)
qed

text \<open>C12: A call returns whose format has no floating point conversion and ends with a NUL outside a conversion, and whose arguments are those that the format asks for; it has read exactly these
  arguments; it writes into the first \<open>n\<close> bytes of the buffer only, and there is a NUL among them. The arguments are in range: a string has a NUL, the width for a
  \<open>*\<close> is not \<open>INT_MIN\<close>, and a signed \<open>long long\<close> is not \<open>LLONG_MIN\<close>, which the code negates.\<close>

theorem well_typed_call_returns:
  assumes "signature fmt = Some ts" and "list_all2 fits args ts" and n: "unat n \<le> length b"
  shows "\<exists>ret m ws. vsnprintf (Some b) n fmt args = Some (ret, Memory m, [], ws) \<and> length m = length b \<and>
    drop (unat n) m = drop (unat n) b \<and> (0 < unat n \<longrightarrow> NUL \<in> set (take (unat n) m))"
proof -
  let ?g = "buffer_gadget (Some b) n :: unit gadget"
  obtain w ws where w: "format_chars fmt args 0 = Some (w, [], ws)" using progress [OF assms(1,2), of "[]" 0] by auto
  have g: "sound ?g" "sink ?g = Memory b" "pos ?g = 0" using n by (simp_all add: sound_gadgets) (simp add: buffer_gadget_def)
  have mx: "unat (max_chars ?g) \<le> unat n" "0 < unat n \<Longrightarrow> 0 < unat (max_chars ?g)"
    by (auto simp: buffer_gadget_def MAX_POSSIBLE_BUFFER_SIZE_def word_less_nat_alt)
  let ?h = "put_chars w ?g" and ?k = "min (unat (pos (put_chars w ?g))) (unat (max_chars ?g) - 1)"
  obtain b1 where b1: "sink ?h = Memory b1" "length b1 = length b" "drop (unat (max_chars ?g)) b1 = drop (unat (max_chars ?g)) b"
    using put_within [OF g(1,2)] by blast
  define m where "m = (if max_chars ?g = 0 then b1 else b1[?k := NUL])"
  have "append_termination_with_gadget ?h = Some (?h\<lparr>sink := Memory m\<rparr>)"
    using termination_memory [OF b1(1)] b1 mx n put_chars_max [OF g(1)] by (auto simp: m_def)
  then have "vsnprintf (Some b) n fmt args = Some (of_nat (length w), Memory m, [], ws)"
    using w g by (simp add: vsnprintf_def vsnprintf_internal_chars)
  moreover have "drop (unat (max_chars ?g)) m = drop (unat (max_chars ?g)) b"
    using b1(3) unat_gt_0 [of "max_chars ?g"] by (auto simp: m_def)
  then have "drop (unat n) m = drop (unat n) b" using mx(1) by (metis drop_drop le_add_diff_inverse2)
  moreover have "NUL \<in> set (take (unat n) m)" if "0 < unat n"
  proof -
    have k: "0 < unat (max_chars ?g)" by (rule mx(2) [OF that])
    then have "?k < unat n" using mx(1) by linarith
    moreover have "max_chars ?g \<noteq> 0" using k by (simp add: unat_gt_0)
    ultimately have "take (unat n) m ! ?k = NUL" "?k < length (take (unat n) m)" using n b1(2) by (simp_all add: m_def)
    then show ?thesis by (metis nth_mem)
  qed
  ultimately show ?thesis using b1(2) by (auto simp: m_def)
qed

lemma well_typed_call_returns_witness:
  "\<exists>ret m ws. vsnprintf (Some ''????'') 3 (''%-*d%lld%n'' @ [NUL]) [Word 5, Word 7, Wide 8, Target 0] = Some (ret, Memory m, [], ws) \<and> length m = 4"
proof -
  have "signature (''%-*d%lld%n'' @ [NUL]) = Some [T_star, T_word, T_signed_wide, T_target]" by code_simp
  then show ?thesis using well_typed_call_returns [of "''%-*d%lld%n'' @ [NUL]" _ "[Word 5, Word 7, Wide 8, Target 0]" 3 "''????''"] by auto
qed

section \<open>Integers\<close>

text \<open>C13: The integer conversions print what the C standard says: sign, prefix, digits up to the precision, spaces or zeros up to the width on the side that the flags say.
  This holds for every combination of the flags and all values, up to a precision of 29, a width of 32 where zeros fill it, and 29 binary digits;
  the buffer of 32 characters sets these bounds. (\<open>%b\<close> is not in C11; a zero with a precision keeps its prefix there.)\<close>

theorem integers_as_standard:
  assumes "parse_conversion f args = Some (v, f', args')" and c: "specifier v \<in> set ''diuxXob''"
    and "integer_operands (specifier v) (conv_flags v) args' = Some (m, negative, args'')"
    and "unat (conv_precision v) \<le> 29" and "specifier v = CHR ''b'' \<longrightarrow> unat m < 2 ^ 29"
    and "has (conv_flags v) FLAGS_ZEROPAD \<longrightarrow> unat (conv_width v) \<le> 32" and "sound g"
  shows "convert v args' g =
    Some (put_chars (std_integer (unat m) negative (integer_base (specifier v)) (unat (conv_precision v)) (unat (conv_width v))
        (integer_flags (specifier v) (conv_flags v))) g, args'', [])"
proof -
  note p = parsed_flags [OF assms(1)]
  let ?f = "integer_flags (specifier v) (conv_flags v)"
  have n: "negative \<longrightarrow> specifier v \<in> set ''di''" using assms(3) by (auto simp: integer_operands_def split: if_splits bind_splits)
  have "integer_args_ok negative (integer_base (specifier v)) (conv_precision v) (conv_width v) ?f"
    using p c n assms(4,6) by (auto simp: integer_args_ok_def integer_flags_def integer_base_def base_defs Let_def)
  then have "integer_chars m negative (integer_base (specifier v)) (conv_precision v) (conv_width v) ?f =
      std_integer (unat m) negative (integer_base (specifier v)) (unat (conv_precision v)) (unat (conv_width v)) ?f"
    by (rule integer_chars_std) (rule integer_base_digits [OF c assms(5)])
  then show ?thesis using convert_pos [OF assms(7), of v args'] assms(3) c by (auto simp: convert_chars_def Let_def)
qed

lemma integers_as_standard_witness:
  "convert \<lparr>specifier = CHR ''d'', conv_flags = 0 OR FLAGS_PLUS OR FLAGS_ZEROPAD, conv_width = 5, conv_precision = 0\<rparr> [Word 42] (discarding_gadget :: unit gadget) =
    Some (put_chars ''+0042'' discarding_gadget, [], [])"
proof -
  let ?v = "\<lparr>specifier = CHR ''d'', conv_flags = 0 OR FLAGS_PLUS OR FLAGS_ZEROPAD, conv_width = 5, conv_precision = 0\<rparr>"
  have "parse_conversion ''+05d'' [Word 42] = Some (?v, [], [Word 42])" by code_simp
  moreover have "integer_operands (CHR ''d'') (0 OR FLAGS_PLUS OR FLAGS_ZEROPAD) [Word 42] = Some (42, False, [])" by code_simp
  moreover have "std_integer 42 False (integer_base (CHR ''d'')) 0 5 (integer_flags (CHR ''d'') (0 OR FLAGS_PLUS OR FLAGS_ZEROPAD)) = ''+0042''" by code_simp
  moreover have "sound (discarding_gadget :: unit gadget)" by (simp add: sound_def discarding_gadget_def)
  ultimately show ?thesis using integers_as_standard [of "''+05d''" "[Word 42]" ?v "[]" "[Word 42]" 42 False "[]" "discarding_gadget :: unit gadget"] by simp
qed

section \<open>A format that ends too early\<close>

text \<open>C38: A format that ends inside a conversion specification, behind the percent sign, a flag, the width, the point, the precision or the length, makes the
  library read past the end of the format, whatever its arguments, its output and the earlier conversions are: the NUL is taken for a specifier and printed, and the loop
  goes on with the memory behind it; the call is defined only where this memory goes on as a format that ends.\<close>

theorem truncated_specification:
  assumes "NUL \<notin> set body" and "ends_inside (body @ [NUL])" and "sound g"
  shows "vsnprintf_internal g (body @ [NUL]) args = None \<and>
    (\<forall>more u rest ws. format_chars (body @ NUL # more) args n = Some (u, rest, ws) \<longrightarrow>
      (\<exists>w u' args' ws'. u = w @ NUL # u' \<and> format_chars more args' (n + of_nat (length w) + 1) = Some (u', rest, ws')))"
proof -
  note on = ends_inside_goes_on [OF keeps_end_specifier assms(1,2)]
  have "format_chars (body @ NUL # []) args (pos g) = None"
  proof (rule ccontr)
    assume "format_chars (body @ NUL # []) args (pos g) \<noteq> None"
    then obtain u rest ws where "format_chars (body @ NUL # []) args (pos g) = Some (u, rest, ws)" by (cases "format_chars (body @ NUL # []) args (pos g)") auto
    from on [OF this] show False by (simp add: format_chars.simps [of "[]"])
  qed
  then have "vsnprintf_internal g (body @ [NUL]) args = None" using assms(3) by (simp add: vsnprintf_internal_chars)
  then show ?thesis using on by blast
qed

lemma truncated_specification_witness:
  "vsnprintf_internal (discarding_gadget :: unit gadget) (''%d %-5.'' @ [NUL]) [Word 7] = None \<and>
    (\<exists>w u' args' ws'. ''7 '' @ NUL # ''x'' = w @ NUL # u' \<and> format_chars (''x'' @ [NUL]) args' (0 + of_nat (length w) + 1) = Some (u', [], ws'))"
proof -
  have "sound (discarding_gadget :: unit gadget)" by (simp add: sound_def discarding_gadget_def)
  moreover have "ends_inside (''%d %-5.'' @ [NUL])" by code_simp
  moreover have "format_chars ((''%d %-5.'') @ NUL # ''x'' @ [NUL]) [Word 7] 0 = Some (''7 '' @ NUL # ''x'', [], [])" by code_simp
  ultimately show ?thesis
    using truncated_specification [of "''%d %-5.''" "discarding_gadget :: unit gadget" "[Word 7]" 0] by simp
qed

section \<open>The log\<close>

lemma message_refused:
  assumes "queue_inv rem obj_ok n s" and "length msg \<le> n" and "length (popped s) + n < length (reserved s) + length msg"
  shows "carbon_diag_push ins msg (fifo s) = (False, fifo s)"
proof -
  have "isFull_by (fifo s) (length msg)" using is_full_by [OF inv_parts(1) [OF assms(1)] assms(2)] assms(3) by simp
  then show ?thesis by (simp add: carbon_diag_push_def context_push_begin_def context_push_end_def)
qed

lemma formats_pushed:
  assumes "queue_run k 1 start sz n s" and "quiet s" and "list_all2 prints calls ws" and "\<forall>w \<in> set ws. w \<noteq> [] \<and> length w + 6 \<le> n" and "n < 2 ^ 31"
    and "\<forall>(format, args) \<in> set calls. reread args = args"
  shows "\<exists>s'. (buffer_step k 1 start sz)\<^sup>*\<^sup>* s s' \<and> quiet s' \<and> push_formats reread (fifo_ins k 1 start sz) calls (fifo s) = Some (fifo s') \<and>
    reserved s' = reserved s @ objects (concat (fitting (length (popped s) + n - length (reserved s)) ws)) \<and> popped s' = popped s \<and> ch s' = ch s"
  using assms(3,1,2,4,6)
proof (induction arbitrary: s rule: list_all2_induct)
  case Nil
  then show ?case by (intro exI [of _ s]) simp
next
  case (Cons call calls w ws)
  obtain format args where c: "call = (format, args)" by fastforce
  obtain rest v where f: "format_chars format args 0 = Some (w, rest, v)" using Cons.hyps(1) by (auto simp: c split: option.splits)
  have w: "w \<noteq> []" "length w + 6 \<le> n" using Cons.prems(3) by simp_all
  note inv = run_inv(1) [OF Cons.prems(1)]
  have le: "length (reserved s) \<le> length (popped s) + n" using inv_parts(1) [OF inv] by (simp add: window_ok_def)
  have p: "carbon_diag_push_format reread (fifo_ins k 1 start sz) format args (fifo s) = Some (carbon_diag_push (fifo_ins k 1 start sz) (objects w) (fifo s))"
    using Cons.prems(4) w(2) assms(5) by (intro push_format [OF f]) (auto simp: c)
  show ?case
  proof (cases "length (reserved s) + length w \<le> length (popped s) + n")
    case True
    then obtain s1 where s1: "(buffer_step k 1 start sz)\<^sup>*\<^sup>* s s1" "quiet s1"
      "carbon_diag_push (fifo_ins k 1 start sz) (objects w) (fifo s) = (True, fifo s1)"
      "reserved s1 = reserved s @ objects w" "popped s1 = popped s" "ch s1 = ch s"
      using buf.message_pushed [OF inv Cons.prems(2), of "objects w"] w by (auto simp: list_all_iff)
    obtain s2 where s2: "(buffer_step k 1 start sz)\<^sup>*\<^sup>* s1 s2" "quiet s2" "push_formats reread (fifo_ins k 1 start sz) calls (fifo s1) = Some (fifo s2)"
      "reserved s2 = reserved s1 @ objects (concat (fitting (length (popped s1) + n - length (reserved s1)) ws))" "popped s2 = popped s1" "ch s2 = ch s1"
      using Cons.IH [OF run_steps [OF Cons.prems(1) s1(1)] s1(2)] Cons.prems(3,4) by auto
    have "length (popped s) + n - length (reserved s) - length w = length (popped s1) + n - length (reserved s1)" using s1(4,5) by simp
    moreover have "length w \<le> length (popped s) + n - length (reserved s)" using True by linarith
    ultimately show ?thesis using s1 s2 p by (intro exI [of _ s2]) (auto simp: c)
  next
    case False
    then have r: "carbon_diag_push (fifo_ins k 1 start sz) (objects w) (fifo s) = (False, fifo s)"
      using w(2) by (intro message_refused [OF inv]) simp_all
    have "\<not> length w \<le> length (popped s) + n - length (reserved s)" using False le by linarith
    then show ?thesis using Cons.IH [OF Cons.prems(1,2)] Cons.prems(3,4) p r by (auto simp: c)
  qed
qed

text \<open>C15: Formatted messages reach the UART as they are printed. Take a queue of \<open>n\<close> characters in a state that it can reach, with no producer in the middle of
  a push, and messages of 1 to \<open>n - 6\<close> characters each. A message is accepted as a whole if there is room for all of its
  characters, and dropped as a whole if there is not; the next \<open>carbon_diag_pull\<close> returns and has sent
  what was still in the queue and then exactly the characters that \<open>printf\<close> prints for the accepted messages, in order. This relies on a \<open>va_list\<close> that yields the same
  arguments again after \<open>va_end\<close>, which C does not promise. (For an empty message see \<open>empty_message_sends_stale\<close>, for longer
  ones C36.)\<close>

theorem formatted_messages_reach_uart:
  assumes "queue_run k 1 start sz n s" and "quiet s" and "list_all2 prints calls ws" and "\<forall>w \<in> set ws. w \<noteq> [] \<and> length w + 6 \<le> n" and "n < 2 ^ 31"
    and va_list_unchanged: "\<forall>(format, args) \<in> set calls. reread args = args"
  shows "\<exists>f f'. push_formats reread (fifo_ins k 1 start sz) calls (fifo s) = Some f \<and>
    carbon_diag_pull (fifo_rem k 1 start sz) (ch s) f =
      Some (drop (length (popped s)) (reserved s) @ objects (concat (fitting (length (popped s) + n - length (reserved s)) ws)), f')"
proof -
  note r = run_inv [OF assms(1)]
  obtain s' where s': "(buffer_step k 1 start sz)\<^sup>*\<^sup>* s s'" "quiet s'" "push_formats reread (fifo_ins k 1 start sz) calls (fifo s) = Some (fifo s')"
    "reserved s' = reserved s @ objects (concat (fitting (length (popped s) + n - length (reserved s)) ws))" "popped s' = popped s" "ch s' = ch s"
    using formats_pushed [OF assms] by blast
  have "length (popped s) \<le> length (reserved s)" using inv_parts(1) [OF r(1)] by (simp add: window_ok_def)
  then show ?thesis using buf.pull_all [OF run_inv(1) [OF run_steps [OF assms(1) s'(1)]] s'(2) r(2,3)] s'(3-6) by auto
qed

text \<open>Of five messages of two characters the last one finds the queue of eight full.\<close>

lemma formatted_messages_reach_uart_witness:
  "\<exists>f f'. push_formats id (fifo_ins 0 1 0x1000 9) [(''%c!'' @ [NUL], [Word 72]), (''ok'' @ [NUL], []), (''ok'' @ [NUL], []), (''ok'' @ [NUL], []), (''ok'' @ [NUL], [])] (fifo_init 8 (\<lambda>_. 0)) = Some f \<and>
    carbon_diag_pull (fifo_rem 0 1 0x1000 9) [0] f = Some ([[72], [33], [111], [107], [111], [107], [111], [107]], f')"
proof -
  let ?calls = "[(''%c!'' @ [NUL], [Word 72]), (''ok'' @ [NUL], []), (''ok'' @ [NUL], []), (''ok'' @ [NUL], []), (''ok'' @ [NUL], [])]"
  have "format_chars (''%c!'' @ [NUL]) [Word 72] 0 = Some (''H!'', [], [])" "format_chars (''ok'' @ [NUL]) [] 0 = Some (''ok'', [], [])" by code_simp+
  then have "list_all2 prints ?calls [''H!'', ''ok'', ''ok'', ''ok'', ''ok'']" by simp
  from formatted_messages_reach_uart [OF queue_demo _ this, of id] show ?thesis by (simp add: qstart_def quiet_def)
qed

end
