(* ===== verification/PrintfRealClaims.thy ===== *)
theory PrintfRealClaims
  imports PrintfReal
begin

text \<open>
  The properties of the fixed point conversion: what it prints for decimal numbers, and the precisions and values for which it fails.
\<close>

section \<open>Decimal numbers\<close>

lemma is_double_dyadic: "\<bar>k\<bar> < 2 ^ 53 \<Longrightarrow> j \<le> 1074 \<Longrightarrow> is_double (of_int k / 2 ^ j)"
  unfolding is_double_def by (intro exI [of _ k] exI [of _ "- int j"]) (simp add: power_int_minus divide_inverse)


lemma limit_precision_eq:
  "length buf \<le> 32 \<Longrightarrow> limit_precision buf p =
    (buf @ replicate (min (32 - length buf) (unat p - 17)) CHR ''0'', p - of_nat (min (32 - length buf) (unat p - 17)))"
proof (induction buf p rule: limit_precision.induct)
  case (1 buf p)
  show ?case
  proof (cases "length buf < 32 \<and> 17 < unat p")
    case True
    then have p: "unat (p - 1) = unat p - 1" by (intro unat_minus_one) auto
    define k where "k = min (32 - Suc (length buf)) (unat p - 1 - 17)"
    have k: "min (32 - length buf) (unat p - 17) = Suc k" using True by (auto simp: k_def)
    have "limit_precision (buf @ [CHR ''0'']) (p - 1) = ((buf @ [CHR ''0'']) @ replicate k CHR ''0'', p - 1 - of_nat k)"
      using "1.IH" True p by (simp add: k_def INTEGER_BUFFER_SIZE_def MAX_SUPPORTED_PRECISION_def NUM_DECIMAL_DIGITS_IN_INT64_T_def)
    then show ?thesis
      using True unfolding k by (subst limit_precision.simps)
        (simp add: INTEGER_BUFFER_SIZE_def MAX_SUPPORTED_PRECISION_def NUM_DECIMAL_DIGITS_IN_INT64_T_def replicate_app_Cons_same)
  next
    case False
    then have "min (32 - length buf) (unat p - 17) = 0" by auto
    then show ?thesis
      using False by (subst limit_precision.simps) (auto simp: INTEGER_BUFFER_SIZE_def MAX_SUPPORTED_PRECISION_def NUM_DECIMAL_DIGITS_IN_INT64_T_def)
  qed
qed



section \<open>Where it fails\<close>

text \<open>C39: With a precision of 50 or more \<open>%f\<close> of a number up to \<open>PRINTF_FLOAT_NOTATION_THRESHOLD\<close> reads past the end of the table of powers of ten; with
  a precision of 49 it prints 32 zeros for each of these numbers, filled to the width, and no sign: the zeros fill the buffer before a digit is
  written.\<close>

theorem long_precision_fails:
  assumes "has flags FLAGS_PRECISION" and m: "is_double m" "0 \<le> m" "m \<le> 10 ^ 9" and "sound g"
  shows "(50 \<le> unat precision \<longrightarrow> print_floating_point (Finite negative m) precision width flags False g = None) \<and>
    (unat precision = 49 \<longrightarrow> print_floating_point (Finite negative m) precision width flags False g =
      Some (put_chars (padded (replicate 32 CHR ''0'') (unat width) flags) g))"
proof (intro conjI impI)
  let ?z = "replicate 32 CHR ''0''"
  have lp: "limit_precision [] precision = (?z, precision - 32)" if "49 \<le> unat precision"
  proof -
    have "min 32 (unat precision - 17) = 32" using that by simp
    then show ?thesis using limit_precision_eq [of "[]" precision] by simp
  qed
  have chars: "floating_chars (Finite negative m) precision width flags False =
      map_option (\<lambda>c. broken_up_chars c (precision - 32) width flags ?z) (get_components negative m (precision - 32))" if "49 \<le> unat precision"
    using assms(1) m(3) lp [OF that] by (simp add: floating_chars_def)
  have less: "unat (precision - 32) = unat precision - 32" if "49 \<le> unat precision" using that by (simp add: unat_sub word_le_nat_alt)
  {
    assume p: "50 \<le> unat precision"
    then have "18 \<le> unat (precision - 32)" using less by simp
    then have "of_nat 18 \<le> (of_nat (unat (precision - 32)) :: int)" by (simp only: of_nat_le_iff)
    then have "powers_of_10 (uint (precision - 32)) = None"
      unfolding powers_of_10_def NUM_DECIMAL_DIGITS_IN_INT64_T_def by simp
    then have "get_components negative m (precision - 32) = None" by (simp add: get_components_def split: bind_splits)
    then show "print_floating_point (Finite negative m) precision width flags False g = None"
      using chars p outputsD [OF floating_outputs assms(5)] by simp
  }
  {
    assume p: "unat precision = 49"
    obtain c where c: "get_components negative m (precision - 32) = Some c"
      using get_components_total [OF m, of "precision - 32"] less p by auto
    have full: "decimal_digits n ?z = ?z" "push c ?z = ?z" "pad_zeros n' ?z = ?z" for n c n'
      by (subst decimal_digits.simps) (simp_all add: push_def pad_zeros_eq INTEGER_BUFFER_SIZE_def)
    have fr: "fractional_text n q flags ?z = ?z" for n q
      by (auto simp: fractional_text_def Let_def full split: prod.splits)
    have "broken_up_chars c (precision - 32) width flags ?z = padded ?z (unat width) flags"
      by (auto simp: broken_up_chars_def broken_up_text_def Let_def fr full number_sign_def padded_def)
    then show "print_floating_point (Finite negative m) precision width flags False g = Some (put_chars (padded ?z (unat width) flags) g)"
      using chars p c outputsD [OF floating_outputs assms(5)] by simp
  }
qed

lemma long_precision_fails_witness:
  "print_floating_point (Finite True (5 / 2)) 60 0 FLAGS_PRECISION False (discarding_gadget :: unit gadget) = None \<and>
    print_floating_point (Finite True (5 / 2)) 49 0 FLAGS_PRECISION False (discarding_gadget :: unit gadget) =
      Some (put_chars (replicate 32 CHR ''0'') discarding_gadget)"
proof -
  have s: "sound (discarding_gadget :: unit gadget)" by (simp add: sound_def discarding_gadget_def)
  have d: "is_double (5 / 2)" using is_double_dyadic [of 5 1] by simp
  have p: "padded (replicate 32 CHR ''0'') (unat (0 :: u32)) FLAGS_PRECISION = replicate 32 CHR ''0''" by (simp add: padded_def)
  note fails = long_precision_fails [OF _ d _ _ s, of FLAGS_PRECISION _ True 0]
  have "unat (60 :: u32) = 60" "unat (49 :: u32) = 49" by simp_all
  then show ?thesis using fails [of 60] fails [of 49] unfolding p by (simp del: put_chars_simps)
qed

lemma fl_95: "fl (4278419646001971 / 4503599627370496 * 10) = Some (19 / 2)"
proof -
  have "floor_log2 (4278419646001971 / 4503599627370496 * 10) = 3" by (rule floor_log2_eq) simp_all
  moreover have "\<lfloor>21392098230009855 / 4 :: rat\<rfloor> = 5348024557502463" by (rule floor_unique) simp_all
  ultimately have "rounded (4278419646001971 / 4503599627370496 * 10) = 19 / 2"
    by (simp add: rounded_def Let_def round_half_even_def)
  then show ?thesis by (simp add: fl_def)
qed

lemma components_95: "get_components False (4278419646001971 / 4503599627370496) 1 = Some \<lparr>integral = 0, fractional = 10, is_negative = False\<rparr>"
proof -
  let ?m = "4278419646001971 / 4503599627370496 :: rat"
  have d: "is_double ?m" "is_double (1 / 2)" "is_double 0" "is_double 9"
    using is_double_int [of 0] is_double_int [of 9] is_double_dyadic [of 4278419646001971 52] is_double_dyadic [of 1 1] by simp_all
  have "to_int64 ?m = Some 0" "to_int64 (19 / 2) = Some 9" by (simp_all add: to_int64_nat floor_eq_iff)
  moreover have "fl ?m = Some ?m" "fl (1 / 2) = Some (1 / 2)" by (rule fl_exact, rule d, simp)+
  moreover have "rounded 0 = 0" "rounded 9 = 9" using rounded_exact d(3,4) by blast+
  moreover have "powers_of_10 1 = Some 10" by (simp add: powers_of_10_def NUM_DECIMAL_DIGITS_IN_INT64_T_def)
  moreover have "odd (9 :: int)" by simp
  ultimately show ?thesis using fl_95 unfolding get_components_def by simp
qed

text \<open>C40: \<open>%.1f\<close> of the double next to 0.95 prints thirty zeros and 10: the tenths round to ten tenths, which are neither carried into the integral part
  nor counted, so that the count of the digits still to be written wraps around and zeros fill the buffer.\<close>

theorem carry_not_propagated:
  assumes "sound g"
  shows "print_floating_point (Finite False (4278419646001971 / 4503599627370496)) 1 0 FLAGS_PRECISION False g =
    Some (put_chars (replicate 30 CHR ''0'' @ ''10'') g)"
proof -
  have "dec 10 = ''10''" by code_simp
  then have d10: "decimal_digits 10 [] = ''01''" using decimal_digits_eq [of "[]" 10] by simp
  let ?b = "''01'' @ replicate 30 CHR ''0''"
  have "unat (- 1 :: u32) = 4294967295" by (simp add: unsigned_minus_1_eq_mask mask_eq_exp_minus_1)
  then have "fractional_text 10 1 FLAGS_PRECISION [] = ?b"
    by (simp add: fractional_text_def Let_def d10 pad_zeros_eq push_def INTEGER_BUFFER_SIZE_def)
  moreover have "decimal_digits 0 ?b = ?b" by (subst decimal_digits.simps) (simp add: INTEGER_BUFFER_SIZE_def)
  ultimately have "broken_up_chars \<lparr>integral = 0, fractional = 10, is_negative = False\<rparr> 1 0 FLAGS_PRECISION [] = replicate 30 CHR ''0'' @ ''10''"
    by (simp add: broken_up_chars_def broken_up_text_def Let_def number_sign_def padded_def)
  moreover have "limit_precision [] 1 = ([], 1)" by (simp add: limit_precision_eq)
  ultimately have "floating_chars (Finite False (4278419646001971 / 4503599627370496)) 1 0 FLAGS_PRECISION False = Some (replicate 30 CHR ''0'' @ ''10'')"
    using components_95 by (simp add: floating_chars_def)
  then show ?thesis using outputsD [OF floating_outputs assms] by simp
qed

lemma carry_not_propagated_witness:
  "\<exists>g. print_floating_point (Finite False (4278419646001971 / 4503599627370496)) 1 0 FLAGS_PRECISION False (discarding_gadget :: unit gadget) = Some g \<and>
    pos g = 32"
proof -
  have s: "sound (discarding_gadget :: unit gadget)" by (simp add: sound_def discarding_gadget_def)
  moreover have "pos (discarding_gadget :: unit gadget) = 0" by (simp add: discarding_gadget_def)
  ultimately show ?thesis using carry_not_propagated [OF s] put_chars_pos [OF s, of "replicate 30 CHR ''0'' @ ''10''"] by simp
qed

end
