(* ===== verification/Spec2Isabelle.thy ===== *)
theory Spec2Isabelle
  imports CPrelude FtpEnv FtpPath FtpTime FtpParse FtpConn FtpSess FtpCmds FtpXfer FtpServer
    FtpBytes FtpLinks FtpDemo FtpClaims FtpDataClaims Lan8742 LanClaims
    EthHw EthRegs EthPhy EthMdio EthDev EthLink EthLinkInv EthRx EthRxInv EthRxReach EthTx EthBoot EthDemo
    EthClaims EthPktClaims MpConsole MpClaims MpThread MpThreadClaims NetDhcp NetClaims
    Unwind UwSearch UwPro UwUndo UwChain UwTotal UwClaims SysHeap
    Fifo FifoBits FifoQueue FifoInv MemPool FifoBuf DiagLog TraceLog FifoClaims
    PrintfOut PrintfInt PrintfFloat PrintfFmt PrintfSpec PrintfSig PrintfTrunc PrintfText PrintfReal FtpPrint DiagPrint PrintfClaims PrintfRealClaims
begin

text \<open>
  Verification of the C part of the Carbon firmware for the STM32H747: the FTP server, the driver of the
  Ethernet peripheral, the driver of the LAN8742 PHY, the supervision of DHCP, the MicroPython task and its threads, the stack
  unwinder, the heap of the C library, the queue through which both cores log and trace, and the printing library.

  The program. The Cortex-M7 runs FreeRTOS. An FTP server (\<open>lib/FTP/src\<close>) serves the SD card over lwIP. lwIP
  sends and receives its frames through \<open>CM7/core/src/ethernetif.c\<close>, which programs the MAC and its DMA, moves
  packets through two descriptor rings and watches the link in a task of its own; the state of the link comes
  from the PHY driver \<open>CM7/core/src/lan8742.c\<close>, which reaches the PHY through functions that \<open>ethernetif.c\<close>
  registers with it. \<open>CM7/core/src/mp_thread.c\<close> loads a script from the SD card for the MicroPython interpreter
  and then serves its prompt over a TCP connection; \<open>mp_port/mpthreadport.c\<close> runs its threads. \<open>CM7/core/src/app_ethernet.c\<close> watches
  the DHCP client of the interface that \<open>netif_conf.c\<close> sets up. After a fault \<open>interrupts.c\<close> prints the backtrace that
  \<open>lib/backtrace/backtrace.c\<close> finds. The FTP server and the log print with \<open>lib/printf/printf.c\<close>.

  Conventions (theory \<open>CPrelude\<close>). A \<open>uint32_t\<close> is a \<open>u32\<close>, C strings are lists of characters that end before
  the first NUL. \<open>None\<close> is what C leaves undefined (a write past the end of an array) or a call that does not
  return, and a property that has it in its conclusion says which; every error return is a value. Code outside the repository is a parameter: the records \<open>env\<close> (network
  stack and file system of the FTP server), \<open>bus_io\<close> (bus of the PHY driver), \<open>eth_env\<close> (hardware and
  operating system of the Ethernet driver) and \<open>mp_env\<close> (interpreter, network stack and file system of the MicroPython task). What a property needs of them is a hypothesis that states
  their documented behaviour, and each such property is applied to a concrete instance.

  FTP server. \<open>FtpEnv\<close>: a session (\<open>ftp_data_t\<close>) with the trace of its external calls, replies and file wrappers
  (\<open>ftp_file.c\<close>). \<open>FtpPath\<close>: \<open>path_build\<close>, \<open>path_up_a_level\<close> and their meaning on lists of components. \<open>FtpTime\<close>:
  \<open>data_time_to_str\<close>, \<open>date_time_get\<close>. \<open>FtpParse\<close>: the command parser with its \<open>int8_t\<close> index. \<open>FtpConn\<close>: control,
  passive and data connections, and who owns them. \<open>FtpSess\<close>: the session invariant. \<open>FtpCmds\<close> and \<open>FtpXfer\<close>: the command
  handlers, the latter those that transfer data. \<open>FtpServer\<close>: command table, session loop, the
  listener and the pool of sessions (\<open>ftp.c\<close>); the memory pool of lwIP is a parameter with the law \<open>pool_answer\<close>. A write to a file gives the result and the number of bytes that
  were written, which the server ignores. \<open>FtpBytes\<close> (bytes read and sent) and \<open>FtpLinks\<close> (connections
  over the pool) hold the invariants of the transfers and of the server, \<open>FtpDemo\<close> a small network and file
  system, \<open>FtpClaims\<close> and \<open>FtpDataClaims\<close> the properties: access control, connections, login automaton, paths, parsing, time
  stamps, transfers, ports, directory listings, the pool. The session loop is run on a finite script of what the
  client sends; the command loop, the parser and the transfers recurse over the data they consume, so
  that no fuel is needed except for the skipping of spaces, which has 256 steps, one for each value of its index.

  PHY driver. \<open>Lan8742\<close>: every function of \<open>lan8742.c\<close>; waiting loops are partial functions, and termination is
  proved from the law \<open>clocked\<close> (every call takes time), across the wrap-around of the tick counter. The
  contract of the bus is the locale \<open>mdio_bus\<close>, interpreted on the functions of the Ethernet driver in \<open>EthPhy\<close>. \<open>LanClaims\<close>
  holds the properties.

  Ethernet driver. The world \<open>'h\<close> is a parameter; every register access may change it, so the hardware,
  the DMA and other tasks may act between any two accesses. \<open>EthHw\<close>: locations, register macros, Hoare rules (\<open>after\<close>),
  the laws \<open>keeps\<close> (locations only the driver writes) and \<open>os_law\<close>. \<open>EthRegs\<close>: MAC and DMA configuration, and the
  registers as functions of the configuration. \<open>EthPhy\<close>: MDIO access; it returns under the law \<open>timed\<close>, and so meets
  \<open>clocked\<close>. \<open>EthMdio\<close>: the law of a peripheral that carries out MDIO frames; over it the access
  functions are a bus that \<open>answers\<close> in the sense of \<open>Lan8742\<close>. \<open>EthDev\<close>: descriptors, start, stop, interrupt handler. \<open>EthLink\<close>:
  initialisation and link thread; \<open>EthLinkInv\<close>: the link automaton and the simulation. \<open>EthRx\<close>: packet input, the receive ring as
  a queue of buffers and the DMA as a step relation; \<open>EthRxInv\<close>: what each operation does to the queue; \<open>EthRxReach\<close>: the
  reachable states of the receive path. \<open>EthTx\<close>: packet output, under the law of a suspended transmit DMA. \<open>EthBoot\<close>: the
  start as a whole, and the start without a PHY. \<open>EthDemo\<close>: the instances. \<open>EthClaims\<close> and \<open>EthPktClaims\<close>: the properties. The
  endless loops of the input task and of the link thread are modelled round by round.

  MicroPython task. \<open>MpConsole\<close>: the console, whose state is that of the static variables, the task with its prompt
  loop round by round, and the loading of the script, a partial function since a read of no bytes repeats for ever. \<open>None\<close> is only that; the zero that is stored through \<open>NULL\<close> after a read error
  is an operation of its own, because the address exists on this processor. \<open>MpClaims\<close>: the console
  as a reader of a byte stream, and what is loaded.

  MicroPython threads. \<open>MpThread\<close>: the list of threads, the operations on it and \<open>gc_collect\<close>; \<open>MpThreadClaims\<close>: the steps of any number of
  threads, the invariant of the list and the mutex, and what a collection scans.

  DHCP. \<open>NetDhcp\<close>: \<open>DHCP_Thread\<close> as a machine that performs one call or one access to \<open>DHCP_state\<close> per step, the callback
  of the link thread that may come in between, and the supervisor that specifies both; \<open>NetClaims\<close>: the refinement, and the
  reports that are lost. The rest of a round is computed by \<open>settle\<close>, which terminates on a weight of the actions.

  Stack unwinder. \<open>Unwind\<close>: index search, unwind instructions, frames and the backtrace, over an arbitrary memory; all loops
  are total (measures: the interval of the search, the mask, the bytes that remain, the room in the buffer). \<open>UwSearch\<close>: the search
  equals a scan; the bytes of a table. \<open>UwPro\<close>: the specification: a machine that runs prologues, and the unwind code of the
  Arm ABI for them. \<open>UwUndo\<close>: an instruction takes back a step, code takes back a prologue. \<open>UwChain\<close>: tables, frames and the
  calls on a stack. \<open>UwTotal\<close>: the backtrace returns unless an address is read that does not exist, or a table ends in the instruction that
  pops \<open>r0\<close> to \<open>r3\<close>, without its mask, which writes over the end of the registers. \<open>UwClaims\<close>: the properties, on an image of three functions. Exception returns are modelled, but the
  call chains of the properties have none.

  Heap. \<open>SysHeap\<close>: \<open>_sbrk\<close> (\<open>common/src/sys/sysmem.c\<close>) and the blocks it hands out, and the one of
  \<open>syscalls.c\<close>, which the build takes and which refuses.

  Queue between the cores (\<open>common/include/carbon\<close>). \<open>Fifo\<close>: \<open>fifo.hpp\<close>, with many producers and one consumer; a critical section under the
  hardware semaphore is one function, a copy another. \<open>FifoBits\<close>: the bit field of published slots, batches, and
  \<open>getElementReady\<close>. \<open>FifoQueue\<close>: the step relation in which producers and the consumer are interrupted anywhere between critical sections; \<open>FifoInv\<close>:
  its invariant, over any storage that meets the locale \<open>slots\<close>. \<open>MemPool\<close>: allocator, buffer and stack of \<open>pool.hpp\<close>; \<open>FifoBuf\<close>: the buffer
  meets \<open>slots\<close>. \<open>DiagLog\<close> and \<open>TraceLog\<close>: \<open>diag.cpp\<close> and \<open>freeRTOSTrace.cpp\<close> over the queue, with messages as runs of steps.
  \<open>FifoClaims\<close>: the properties, for a number of elements that is a multiple of 8 (the firmware has 4096 and 2048) and batches that leave six elements free; what
  happens outside these bounds are properties of their own.

  Printing library (\<open>lib/printf/printf.c\<close>, in the configuration of \<open>printf_config.h\<close>). \<open>PrintfOut\<close>: the output gadget, a buffer, a
  function or nothing, and what it means that a routine writes a string whatever the gadget is (\<open>emits\<close>). \<open>PrintfInt\<close>: \<open>print_integer\<close> with its
  buffer of 32 characters, and the C standard as \<open>std_integer\<close>. \<open>PrintfFloat\<close>: the floating point conversions; a double is a rational, each
  operation is rounded to the nearest double, and none are contracted. \<open>PrintfFmt\<close>: parsing, conversions, the loop of \<open>_vsnprintf\<close>, which ends because a conversion
  shortens the format, and the functions of the library; the arguments are a list of typed values. \<open>PrintfSpec\<close>: the
  string that a format prints, \<open>format_chars\<close>, and the refinement. \<open>PrintfSig\<close>: the types of the arguments, and progress. \<open>PrintfTrunc\<close>: formats that end inside a conversion. \<open>PrintfText\<close>: formats evaluated, and
  the numerals \<open>dec\<close> and \<open>dec_pad\<close> of the other theories as conversions. \<open>PrintfReal\<close>: exact arithmetic in fixed point. \<open>FtpPrint\<close> and \<open>DiagPrint\<close>: the calls of
  \<open>ftp_server.c\<close> and \<open>diag.cpp\<close>, which tie the strings of \<open>FtpXfer\<close> and the messages of \<open>DiagLog\<close> to their formats; what the second pass of \<open>diag.cpp\<close> finds in its \<open>va_list\<close>
  after \<open>va_end\<close> is a parameter.
  \<open>PrintfClaims\<close> and \<open>PrintfRealClaims\<close>: the properties; the bounds in them (29 digits, a width of 32 filled with zeros) are those of the buffer. The replies
  of \<open>ftp_send\<close> stay strings.

  Not modelled. Of \<open>ethernetif.c\<close>, \<open>carbon_hw_ethernet_msp_init\<close> (clocks, pins, interrupt enable) and the
  assignments to fields of the \<open>netif\<close> are single operations of the environment. Of the MicroPython
  port, \<open>mpcarbon.c\<close> and \<open>mphalport.c\<close> only call the interpreter and the clock; the other stubs of the C library,
  interrupt vectors and start-up code have no logic of their own; the C++
  core (SD card, Modbus, LED matrix, the task that sends the trace) and the Cortex-M4 loop are outside the C part. Vendored libraries (HAL, CMSIS, lwIP,
  FatFs, FreeRTOS, MicroPython) are parameters. Timing is modelled by the tick counter only, memory ordering and caches
  not at all.
\<close>

end
